(* ===== verification/Js_Prelude.thy ===== *)
theory Js_Prelude
  imports Main "HOL-Library.List_Lexorder" "HOL-Library.Char_ord" "HOL-Library.Multiset"
begin

text \<open>
  What every component shares: the results of the guarded operations, JavaScript's string
  and array operations as far as the sources use them, and the invariant argument of a
  machine that is driven by a sequence of operations.

  Strings are character lists, so \<open>length\<close> counts what JavaScript's \<^verbatim>\<open>length\<close>
  counts on strings whose code units are below 256 (every identifier, timestamp, path and
  reason code the modelled modules build themselves); \<open><\<close> on strings is the code-unit
  order (\<^verbatim>\<open>HOL-Library.List_Lexorder\<close> over \<^verbatim>\<open>HOL-Library.Char_ord\<close>).
\<close>

named_theorems js_simps \<open>characteristic equations of the JavaScript operations\<close>

section \<open>Results of guarded operations\<close>

text \<open>
  Most operations return \<^verbatim>\<open>{ done: true }\<close> or \<^verbatim>\<open>{ done: false, reason }\<close>:
  the two constructors.
\<close>

datatype outcome = Accepted | Refused string

primrec accepted :: "outcome \<Rightarrow> bool" where
  "accepted Accepted = True"
| "accepted (Refused r) = False"

lemma accepted_iff [js_simps]: "accepted r \<longleftrightarrow> r = Accepted"
  by (cases r) auto

text \<open>
  \<^verbatim>\<open>ajv\<close> is a package outside the repository: its compiled validators are arguments of the
  model, \<open>None\<close> for a value they accept and \<open>Some\<close> of the formatted messages otherwise.
  What the code relies on is that they decide the schema they were compiled from,
  \<open>decides_schema\<close>, with the schema of the source written out as a predicate on the typed
  value (the constraints the types already give are not repeated, and the constant
  \<^verbatim>\<open>kind\<close> and \<^verbatim>\<open>contractVersion\<close> members, whose TypeScript types have one value
  each, are left out of the records). \<open>schema_validator\<close> is the concrete function the
  witnesses use.
\<close>

type_synonym 'a validator = "'a \<Rightarrow> string list option"

definition decides_schema :: "('a \<Rightarrow> bool) \<Rightarrow> 'a validator \<Rightarrow> bool" where
  "decides_schema ok v = (\<forall>x. v x = None \<longleftrightarrow> ok x)"

definition schema_validator :: "('a \<Rightarrow> bool) \<Rightarrow> 'a validator" where
  "schema_validator ok x = (if ok x then None else Some [''must match the schema''])"

lemma decides_schema_validator [simp]: "decides_schema ok (schema_validator ok)"
  by (simp add: decides_schema_def schema_validator_def)

text \<open>\<^verbatim>\<open>boundedString(n)\<close> of the schemas, and truthiness of an optional string.\<close>

definition bounded_string :: "nat \<Rightarrow> string \<Rightarrow> bool" where
  "bounded_string n s = (1 \<le> length s \<and> length s \<le> n)"

definition opt_bounded_string :: "nat \<Rightarrow> string option \<Rightarrow> bool" where
  "opt_bounded_string n v = (case v of None \<Rightarrow> True | Some s \<Rightarrow> bounded_string n s)"

definition truthy :: "string option \<Rightarrow> bool" where
  "truthy v = (case v of None \<Rightarrow> False | Some s \<Rightarrow> s \<noteq> [])"

lemmas schema_simps = bounded_string_def opt_bounded_string_def

section \<open>Strings\<close>

text \<open>\<^verbatim>\<open>s.startsWith(p)\<close>, \<^verbatim>\<open>s.endsWith(p)\<close>, \<^verbatim>\<open>xs.join(sep)\<close>, \<^verbatim>\<open>s.split(c)\<close>.\<close>

fun starts_with :: "string \<Rightarrow> string \<Rightarrow> bool" where
  "starts_with s [] = True"
| "starts_with [] (p # ps) = False"
| "starts_with (c # s) (p # ps) = (c = p \<and> starts_with s ps)"

definition ends_with :: "string \<Rightarrow> string \<Rightarrow> bool" where
  "ends_with s p = starts_with (rev s) (rev p)"

fun join :: "string \<Rightarrow> string list \<Rightarrow> string" where
  "join sep [] = []"
| "join sep [x] = x"
| "join sep (x # y # ys) = x @ sep @ join sep (y # ys)"

fun split_on :: "(char \<Rightarrow> bool) \<Rightarrow> string \<Rightarrow> string list" where
  "split_on p [] = [[]]"
| "split_on p (c # s) =
     (if p c then [] # split_on p s
      else (case split_on p s of [] \<Rightarrow> [[c]] | w # ws \<Rightarrow> (c # w) # ws))"

text \<open>\<^verbatim>\<open>trim\<close> removes white space and line terminators, of which these lie below 256.\<close>

definition js_space :: "char \<Rightarrow> bool" where
  "js_space c = (c \<in> {CHR 0x09, CHR 0x0A, CHR 0x0B, CHR 0x0C, CHR 0x0D, CHR 0x20, CHR 0xA0})"

definition trim :: "string \<Rightarrow> string" where
  "trim s = rev (dropWhile js_space (rev (dropWhile js_space s)))"

lemma starts_with_iff [js_simps]: "starts_with s p \<longleftrightarrow> (\<exists>t. s = p @ t)"
  by (induction s p rule: starts_with.induct) auto

lemma starts_with_refl [simp]: "starts_with s s"
  by (simp add: starts_with_iff)

lemma starts_with_trans: "starts_with s p \<Longrightarrow> starts_with p q \<Longrightarrow> starts_with s q"
  by (auto simp: starts_with_iff)

lemma ends_with_iff [js_simps]: "ends_with s p \<longleftrightarrow> (\<exists>t. s = t @ p)"
proof -
  have "ends_with s p \<longleftrightarrow> (\<exists>t. rev s = rev p @ t)"
    by (simp add: ends_with_def starts_with_iff)
  also have "\<dots> \<longleftrightarrow> (\<exists>t. s = t @ p)"
    by (metis rev_append rev_rev_ident)
  finally show ?thesis .
qed

lemma split_on_nonempty [simp]: "split_on p s \<noteq> []"
  by (cases s) (auto split: list.splits)

text \<open>The decimal text a template literal gives for an integer.\<close>

fun show_nat :: "nat \<Rightarrow> string" where
  "show_nat n = (if n < 10 then [char_of (48 + n)]
                 else show_nat (n div 10) @ [char_of (48 + n mod 10)])"

declare show_nat.simps [simp del]

definition show_int :: "int \<Rightarrow> string" where
  "show_int i = (if i < 0 then ''-'' @ show_nat (nat (- i)) else show_nat (nat i))"

section \<open>Arrays\<close>

text \<open>
  \<^verbatim>\<open>xs.find(p)\<close> is \<open>List.find\<close>, \<^verbatim>\<open>xs.filter(p)\<close> is \<open>filter\<close>,
  \<^verbatim>\<open>xs.some\<close> and \<^verbatim>\<open>xs.every\<close> are \<open>list_ex\<close> and \<open>list_all\<close>,
  \<^verbatim>\<open>xs.includes(x)\<close> is \<open>x \<in> set xs\<close>. \<^verbatim>\<open>Array.from(new Set(xs))\<close> keeps the first
  occurrence of each element; \<^verbatim>\<open>xs.slice(-n)\<close> keeps the last \<open>n\<close> (all of them for
  \<open>n = 0\<close>, since \<^verbatim>\<open>-0\<close> is 0).
\<close>

fun uniq_from :: "'a list \<Rightarrow> 'a list \<Rightarrow> 'a list" where
  "uniq_from seen [] = []"
| "uniq_from seen (x # xs) =
     (if x \<in> set seen then uniq_from seen xs else x # uniq_from (x # seen) xs)"

definition uniq :: "'a list \<Rightarrow> 'a list" where
  "uniq xs = uniq_from [] xs"

definition slice_last :: "nat \<Rightarrow> 'a list \<Rightarrow> 'a list" where
  "slice_last n xs = (if n = 0 then xs else drop (length xs - n) xs)"

lemma set_uniq_from: "set (uniq_from seen xs) = set xs - set seen"
  by (induction xs arbitrary: seen) auto

lemma distinct_uniq_from: "distinct (uniq_from seen xs)"
  by (induction xs arbitrary: seen) (auto simp: set_uniq_from)

lemma set_uniq [simp]: "set (uniq xs) = set xs"
  by (simp add: uniq_def set_uniq_from)

lemma distinct_uniq [simp]: "distinct (uniq xs)"
  by (simp add: uniq_def distinct_uniq_from)

lemma uniq_from_id: "distinct xs \<Longrightarrow> set xs \<inter> set seen = {} \<Longrightarrow> uniq_from seen xs = xs"
  by (induction xs arbitrary: seen) auto

lemma uniq_id [simp]: "distinct xs \<Longrightarrow> uniq xs = xs"
  by (simp add: uniq_def uniq_from_id)

lemma uniq_from_snoc:
  "uniq_from seen (xs @ [x]) = uniq_from seen xs @ (if x \<in> set seen \<or> x \<in> set xs then [] else [x])"
  by (induction xs arbitrary: seen) auto

lemma uniq_snoc: "uniq (xs @ [x]) = (if x \<in> set xs then uniq xs else uniq xs @ [x])"
  by (simp add: uniq_def uniq_from_snoc)

lemma uniq_Nil [simp]: "uniq [] = []"
  by (simp add: uniq_def)

lemma length_slice_last: "0 < n \<Longrightarrow> length (slice_last n xs) = min n (length xs)"
  by (auto simp: slice_last_def)

lemma set_slice_last_subset: "set (slice_last n xs) \<subseteq> set xs"
  by (auto simp: slice_last_def dest: in_set_dropD)

lemma slice_last_id: "length xs \<le> n \<Longrightarrow> slice_last n xs = xs"
  by (simp add: slice_last_def)

lemma distinct_slice_last: "distinct xs \<Longrightarrow> distinct (slice_last n xs)"
  by (simp add: slice_last_def)

lemma find_Some_iff_in: "List.find p xs = Some x \<Longrightarrow> x \<in> set xs \<and> p x"
  by (auto simp: find_Some_iff)

text \<open>
  \<^verbatim>\<open>xs.sort(cmp)\<close> is stable; for a consistent comparator its result is that of a stable
  insertion sort. A value that \<^verbatim>\<open>xs.find(p)\<close> returned and that is then mutated changes the
  first element satisfying \<open>p\<close> in place. \<^verbatim>\<open>v || d\<close> on an optional string is \<open>or_else\<close>.
\<close>

fun insert_by :: "('a \<Rightarrow> 'a \<Rightarrow> int) \<Rightarrow> 'a \<Rightarrow> 'a list \<Rightarrow> 'a list" where
  "insert_by cmp x [] = [x]"
| "insert_by cmp x (y # ys) = (if cmp x y \<le> 0 then x # y # ys else y # insert_by cmp x ys)"

definition js_sort :: "('a \<Rightarrow> 'a \<Rightarrow> int) \<Rightarrow> 'a list \<Rightarrow> 'a list" where
  "js_sort cmp xs = foldr (insert_by cmp) xs []"

fun modify_first :: "('a \<Rightarrow> bool) \<Rightarrow> ('a \<Rightarrow> 'a) \<Rightarrow> 'a list \<Rightarrow> 'a list" where
  "modify_first p f [] = []"
| "modify_first p f (x # xs) = (if p x then f x # xs else x # modify_first p f xs)"

definition or_else :: "string option \<Rightarrow> string \<Rightarrow> string" where
  "or_else v d = (if truthy v then the v else d)"

lemma mset_insert_by: "mset (insert_by cmp x ys) = add_mset x (mset ys)"
  by (induction cmp x ys rule: insert_by.induct) auto

lemma mset_js_sort [simp]: "mset (js_sort cmp xs) = mset xs"
  by (induction xs) (simp_all add: js_sort_def mset_insert_by)

lemma set_js_sort [simp]: "set (js_sort cmp xs) = set xs"
  by (metis mset_js_sort set_mset_mset)

lemma distinct_js_sort: "distinct (map f (js_sort cmp xs)) \<longleftrightarrow> distinct (map f xs)"
  by (metis mset_js_sort mset_map mset_eq_imp_distinct_iff)

lemma modify_first_map:
  "(\<And>x. x \<in> set xs \<Longrightarrow> key (f x) = key x) \<Longrightarrow> map key (modify_first p f xs) = map key xs"
  by (induction xs) auto

lemma set_modify_first:
  "y \<in> set (modify_first p f xs) \<Longrightarrow> y \<in> set xs \<or> (\<exists>x. List.find p xs = Some x \<and> y = f x)"
  by (induction xs) (auto split: if_splits)

lemma find_modify_first:
  "List.find p xs = Some x \<Longrightarrow> f x \<in> set (modify_first p f xs)"
  by (induction xs) (auto split: if_splits)

lemma distinct_submset:
  assumes "mset ys \<subseteq># mset xs" "distinct xs"
  shows "distinct ys"
proof -
  obtain rest where "mset xs = mset ys + rest"
    using assms(1) unfolding mset_subset_eq_exists_conv by blast
  moreover obtain zs where "mset zs = rest" using ex_mset by blast
  ultimately have "mset xs = mset (ys @ zs)" by simp
  then have "distinct (ys @ zs)" using assms(2) mset_eq_imp_distinct_iff by blast
  then show ?thesis by simp
qed

lemma distinct_map_submset:
  "mset ys \<subseteq># mset xs \<Longrightarrow> distinct (map f xs) \<Longrightarrow> distinct (map f ys)"
  by (rule distinct_submset [of _ "map f xs"]) (simp_all add: image_mset_subseteq_mono)

lemma mset_slice_last: "mset (slice_last n xs) \<subseteq># mset xs"
proof -
  let ?k = "length xs - n"
  have "mset (drop ?k xs) \<subseteq># mset (take ?k xs) + mset (drop ?k xs)" by (rule mset_subset_eq_add_right)
  also have "\<dots> = mset (take ?k xs @ drop ?k xs)" by (rule mset_append [symmetric])
  also have "\<dots> = mset xs" by (rule arg_cong [OF append_take_drop_id])
  finally show ?thesis by (cases "n = 0") (simp_all add: slice_last_def)
qed

lemma mset_filter_split: "mset (filter p xs) + mset (filter (\<lambda>x. \<not> p x) xs) = mset xs"
  by (induction xs) auto

lemma set_submset: "mset ys \<subseteq># mset xs \<Longrightarrow> set ys \<subseteq> set xs"
  by (metis set_mset_mono set_mset_mset)

text \<open>With distinct keys, the elements after the change of the one found: the changed one and
  those with another key.\<close>

lemma set_modify_first_keyed:
  assumes "distinct (map key xs)" "List.find (\<lambda>x. key x = k) xs = Some x" "key (f x) = k"
  shows "set (modify_first (\<lambda>x. key x = k) f xs) = insert (f x) {y \<in> set xs. key y \<noteq> k}"
  using assms
proof (induction xs)
  case (Cons a xs)
  show ?case
  proof (cases "key a = k")
    case True
    with Cons.prems have "k \<notin> key ` set xs" by auto
    then have "y \<in> set xs \<Longrightarrow> key y \<noteq> k" for y by blast
    with True Cons.prems show ?thesis by auto
  next
    case False
    with Cons show ?thesis by auto
  qed
qed simp

lemma find_map: "List.find p (map g xs) = map_option g (List.find (\<lambda>x. p (g x)) xs)"
  by (induction xs) simp_all

lemma find_unique:
  assumes "x \<in> set xs" "p x" "\<And>y. y \<in> set xs \<Longrightarrow> p y \<Longrightarrow> y = x"
  shows "List.find p xs = Some x"
proof -
  obtain y where "List.find p xs = Some y" using assms(1,2) by (metis find_None_iff2 not_None_eq)
  then show ?thesis using find_Some_iff_in [of p xs y] assms(3) by blast
qed

lemma find_key_iff:
  "distinct (map key xs) \<Longrightarrow> List.find (\<lambda>x. key x = k) xs = Some x \<longleftrightarrow> x \<in> set xs \<and> key x = k"
proof (induction xs)
  case (Cons a xs)
  then show ?case by (auto simp: rev_image_eqI)
qed simp

lemma find_modify_first_keyed:
  "List.find (\<lambda>x. key x = k) xs = Some x \<Longrightarrow> key (f x) = k
   \<Longrightarrow> List.find (\<lambda>x. key x = k) (modify_first (\<lambda>x. key x = k) f xs) = Some (f x)"
  by (induction xs) (auto split: if_splits)

lemma map_modify_first_keyed:
  "List.find (\<lambda>x. key x = k) xs = Some x \<Longrightarrow> key (f x) = k
   \<Longrightarrow> map key (modify_first (\<lambda>x. key x = k) f xs) = map key xs"
  by (induction xs) (auto split: if_splits)

lemma modify_first_keeps:
  "x \<in> set xs \<Longrightarrow> x \<in> set (modify_first p f xs) \<or> f x \<in> set (modify_first p f xs)"
  by (induction xs) auto

lemma list_all2_modify_first:
  "(\<And>x. P x x) \<Longrightarrow> (\<And>x. List.find p xs = Some x \<Longrightarrow> P x (f x)) \<Longrightarrow> list_all2 P xs (modify_first p f xs)"
  by (induction xs) (auto intro: list_all2_refl)

lemma list_all2_map_if:
  "(\<And>x. P x x) \<Longrightarrow> (\<And>x. x \<in> set xs \<Longrightarrow> q x \<Longrightarrow> P x (f x)) \<Longrightarrow> list_all2 P xs (map (\<lambda>x. if q x then f x else x) xs)"
  by (induction xs) auto

lemma list_all2_left: "list_all2 P xs ys \<Longrightarrow> x \<in> set xs \<Longrightarrow> \<exists>y \<in> set ys. P x y"
  by (induction rule: list_all2_induct) auto

lemma list_all2_right: "list_all2 P xs ys \<Longrightarrow> y \<in> set ys \<Longrightarrow> \<exists>x \<in> set xs. P x y"
  by (induction rule: list_all2_induct) auto

lemma distinct_map_eq: "distinct (map f xs) \<Longrightarrow> x \<in> set xs \<Longrightarrow> y \<in> set xs \<Longrightarrow> f x = f y \<Longrightarrow> x = y"
  by (metis distinct_map inj_onD)

lemma js_sort_sorted: "sorted_wrt (\<lambda>a b. cmp a b \<le> 0) xs \<Longrightarrow> js_sort cmp xs = xs"
proof (induction xs)
  case (Cons x xs)
  then show ?case by (cases xs) (simp_all add: js_sort_def)
qed (simp add: js_sort_def)

lemma length_js_sort [simp]: "length (js_sort cmp xs) = length xs"
  by (metis mset_js_sort size_mset)

lemma length_modify_first [simp]: "length (modify_first p f xs) = length xs"
  by (induction xs) auto

lemma sum_list_filter_le:
  fixes f :: "'a \<Rightarrow> int"
  assumes "\<And>x. x \<in> set xs \<Longrightarrow> 0 \<le> f x"
  shows "sum_list (map f (filter p xs)) \<le> sum_list (map f xs)"
  using assms by (induction xs) (auto, smt (verit))

lemma length_filter_map_le:
  assumes "\<And>x. x \<in> set xs \<Longrightarrow> p (f x) \<Longrightarrow> p x"
  shows "length (filter p (map f xs)) \<le> length (filter p xs)"
  using assms by (induction xs) (auto simp: le_SucI)

section \<open>Machines driven by operations\<close>

text \<open>
  A component is a state and a step function on operations; a run folds it over the
  operations. An invariant kept by every step holds after every run, and a reflexive and
  transitive relation that every step respects relates the two ends of every run.
\<close>

locale op_machine =
  fixes step :: "'s \<Rightarrow> 'op \<Rightarrow> 's"
    and inv :: "'s \<Rightarrow> bool"
  assumes inv_step: "inv s \<Longrightarrow> inv (step s a)"
begin

lemma inv_run: "inv s \<Longrightarrow> inv (foldl step s as)"
  by (induction as arbitrary: s) (auto intro: inv_step)

end

locale evolving_machine = op_machine +
  fixes evolves :: "'a \<Rightarrow> 'a \<Rightarrow> bool"
  assumes evolves_refl: "evolves s s"
    and evolves_trans: "evolves s t \<Longrightarrow> evolves t u \<Longrightarrow> evolves s u"
    and evolves_step: "inv s \<Longrightarrow> evolves s (step s a)"
begin

lemma evolves_run: "inv s \<Longrightarrow> evolves s (foldl step s as)"
proof (induction as arbitrary: s)
  case Nil
  show ?case by (simp add: evolves_refl)
next
  case (Cons a as)
  have "evolves s (step s a)" by (rule evolves_step) (rule Cons.prems)
  moreover have "evolves (step s a) (foldl step (step s a) as)"
    by (rule Cons.IH) (rule inv_step, rule Cons.prems)
  ultimately show ?case by (auto intro: evolves_trans)
qed

end

end
