(* ===== verification/Js_Time.thy ===== *)
theory Js_Time
  imports Js_Prelude "HOL-Library.Monad_Syntax"
begin

text \<open>
  ECMAScript's time values, as the sources use them: \<^verbatim>\<open>Date.parse(s)\<close> (also
  \<^verbatim>\<open>new Date(s).getTime()\<close>) is \<open>date_parse\<close>, with \<open>None\<close> for \<^verbatim>\<open>NaN\<close>, and
  \<^verbatim>\<open>new Date(ms).toISOString()\<close> is \<open>to_iso\<close>, with \<open>None\<close> for the \<^verbatim>\<open>RangeError\<close>.
  \<open>date_parse\<close> accepts ECMAScript's date-time string format (date forms, date-times with
  \<^verbatim>\<open>Z\<close> or a numeric offset, six-digit signed years) and returns \<open>None\<close> on every other
  string; what a host does beyond that format, local times included, is left to the host by
  the standard and outside this model. The programs only ever store what \<^verbatim>\<open>toISOString\<close>
  printed; \<open>parse_to_iso\<close> shows that such a text is read back exactly.
\<close>

section \<open>The calendar\<close>

definition leap :: "int \<Rightarrow> bool" where
  "leap y = (y mod 4 = 0 \<and> (y mod 100 \<noteq> 0 \<or> y mod 400 = 0))"

definition day_from_year :: "int \<Rightarrow> int" where
  "day_from_year y =
     365 * (y - 1970) + (y - 1969) div 4 - (y - 1901) div 100 + (y - 1601) div 400"

definition month_lengths :: "int \<Rightarrow> int list" where
  "month_lengths y = [31, if leap y then 29 else 28, 31, 30, 31, 30, 31, 31, 30, 31, 30, 31]"

lemma div_succ:
  fixes a n :: int
  assumes "0 < n"
  shows "(a + 1) div n = a div n + (if (a + 1) mod n = 0 then 1 else 0)"
proof (cases "a mod n = n - 1")
  case True
  moreover have "a = n * (a div n) + a mod n" by simp
  moreover have "n * (a div n + 1) = n * (a div n) + n" by (simp add: distrib_left)
  ultimately have a: "a + 1 = n * (a div n + 1) + 0" by linarith
  with assms have "(a + 1) div n = a div n + 1" "(a + 1) mod n = 0"
    by (auto intro!: int_div_pos_eq int_mod_pos_eq)
  then show ?thesis by simp
next
  case False
  then have r: "0 \<le> a mod n + 1" "a mod n + 1 < n" "a mod n + 1 \<noteq> 0"
    using assms pos_mod_bound [of n a] pos_mod_sign [of n a] by linarith+
  have "a + 1 = n * (a div n) + (a mod n + 1)"
    using mult_div_mod_eq [of n a] by simp
  note pos = this r(1,2)
  have "(a + 1) div n = a div n" by (rule int_div_pos_eq [OF pos])
  moreover have "(a + 1) mod n = a mod n + 1" by (rule int_mod_pos_eq [OF pos])
  ultimately show ?thesis using r by simp
qed

lemma mod_shift:
  fixes k n y :: int
  assumes "(k - 1) mod n = 0"
  shows "(y + 1 - k) mod n = 0 \<longleftrightarrow> y mod n = 0"
proof -
  from assms obtain j where "k - 1 = n * j" by (auto elim: dvdE simp: mod_eq_0_iff_dvd)
  then have "y = n * j + (y + 1 - k)" by simp
  then show ?thesis by (metis mod_eq_0_iff_dvd dvd_add_right_iff dvd_triv_left)
qed

lemma div_shift:
  fixes k n y :: int
  assumes "0 < n" "(k - 1) mod n = 0"
  shows "(y + 1 - k) div n = (y - k) div n + (if y mod n = 0 then 1 else 0)"
proof -
  have "y - k + 1 = y + 1 - k" by simp
  with div_succ [OF assms(1), of "y - k"] mod_shift [OF assms(2), of y] show ?thesis by simp
qed

lemma leap_flags:
  "(P400 \<longrightarrow> P100) \<Longrightarrow> (P100 \<longrightarrow> P4) \<Longrightarrow>
   (if P4 then 1 else 0) - (if P100 then 1 else 0) + (if P400 then 1 else 0)
   = (if P4 \<and> (\<not> P100 \<or> P400) then 1 else (0 :: int))"
  by (cases P4; cases P100; cases P400; simp)

lemma day_from_year_succ: "day_from_year (y + 1) = day_from_year y + sum_list (month_lengths y)"
proof -
  have 4: "(y + 1 - 1969) div 4 = (y - 1969) div 4 + (if y mod 4 = 0 then 1 else 0)"
    by (rule div_shift) simp_all
  have 100: "(y + 1 - 1901) div 100 = (y - 1901) div 100 + (if y mod 100 = 0 then 1 else 0)"
    by (rule div_shift) simp_all
  have 400: "(y + 1 - 1601) div 400 = (y - 1601) div 400 + (if y mod 400 = 0 then 1 else 0)"
    by (rule div_shift) simp_all
  have m: "y mod 400 = 0 \<Longrightarrow> y mod 100 = 0" "y mod 100 = 0 \<Longrightarrow> y mod 4 = 0"
    by (auto simp: mod_eq_0_iff_dvd elim: dvd_trans [rotated])
  have "day_from_year (y + 1) = day_from_year y + 365 + ((if y mod 4 = 0 then 1 else 0)
      - (if y mod 100 = 0 then 1 else 0) + (if y mod 400 = 0 then 1 else 0))"
    unfolding day_from_year_def 4 100 400 by (simp only: algebra_simps)
  note next_year = this
  have months: "sum_list (month_lengths y) = 365 + (if leap y then 1 else 0)"
    by (simp add: month_lengths_def)
  have "day_from_year (y + 1) = day_from_year y + 365 + (if leap y then 1 else 0)"
    unfolding next_year leap_def
    by (rule arg_cong [where f = "(+) (day_from_year y + 365)"], rule leap_flags) (use m in blast)+
  then show ?thesis by (simp only: months add.assoc)
qed

lemma month_lengths_pos: "365 \<le> sum_list (month_lengths y)"
  by (simp add: month_lengths_def)

lemma day_from_year_mono: "x \<le> y \<Longrightarrow> day_from_year x \<le> day_from_year y"
proof -
  have "day_from_year x \<le> day_from_year (x + int n)" for n
  proof (induction n)
    case (Suc n)
    then show ?case
      using day_from_year_succ [of "x + int n"] month_lengths_pos [of "x + int n"]
      by (simp add: algebra_simps)
  qed simp
  from this [of "nat (y - x)"] show "x \<le> y \<Longrightarrow> ?thesis" by simp
qed

text \<open>ECMAScript's YearFromTime: the largest year that starts no later than the day.\<close>

function climb_year :: "int \<Rightarrow> int \<Rightarrow> int" where
  "climb_year y d = (if day_from_year (y + 1) \<le> d then climb_year (y + 1) d else y)"
  by pat_completeness auto
termination
proof (relation "measure (\<lambda>(y, d). nat (d + 1 - day_from_year y))")
  fix y d :: int
  assume "day_from_year (y + 1) \<le> d"
  then show "((y + 1, d), (y, d)) \<in> measure (\<lambda>(y, d). nat (d + 1 - day_from_year y))"
    using day_from_year_succ [of y] month_lengths_pos [of y] by simp
qed simp

declare climb_year.simps [simp del]

definition year_of_day :: "int \<Rightarrow> int" where
  "year_of_day d = climb_year (d * 400 div 146097 + 1968) d"

lemma climb_year_bounds:
  "day_from_year y \<le> d \<Longrightarrow>
   day_from_year (climb_year y d) \<le> d \<and> d < day_from_year (climb_year y d + 1)"
proof (induction y d rule: climb_year.induct)
  case (1 y d)
  then show ?case by (cases "day_from_year (y + 1) \<le> d") (simp_all add: climb_year.simps [of y d])
qed

lemma year_start_bound:
  "4 * a \<le> y - 1969 \<Longrightarrow> y - 1901 < 100 * b + 100 \<Longrightarrow> 400 * c \<le> y - 1601 \<Longrightarrow>
   146097 * (y - 1968) \<le> 400 * d \<Longrightarrow> 365 * (y - 1970) + a - b + c \<le> (d :: int)"
  by (simp add: algebra_simps)

lemma year_of_day_bounds:
  "day_from_year (year_of_day d) \<le> d \<and> d < day_from_year (year_of_day d + 1)"
proof -
  let ?y = "d * 400 div 146097 + 1968"
  have "day_from_year ?y \<le> d"
    unfolding day_from_year_def
  proof (rule year_start_bound)
    show "?y - 1901 < 100 * ((?y - 1901) div 100) + 100"
      using pos_mod_bound [of 100 "?y - 1901"] mult_div_mod_eq [of 100 "?y - 1901"] by simp
    show "146097 * (?y - 1968) \<le> 400 * d"
      using mult_div_mod_eq [of 146097 "d * 400"] by simp
  qed simp_all
  then show ?thesis unfolding year_of_day_def by (rule climb_year_bounds)
qed

lemma year_of_day_unique:
  assumes "day_from_year y \<le> d" "d < day_from_year (y + 1)"
  shows "year_of_day d = y"
proof (rule ccontr)
  assume "year_of_day d \<noteq> y"
  then consider "year_of_day d + 1 \<le> y" | "y + 1 \<le> year_of_day d" by linarith
  then show False
  proof cases
    case 1
    from day_from_year_mono [OF this] year_of_day_bounds [of d] assms show False by linarith
  next
    case 2
    from day_from_year_mono [OF this] year_of_day_bounds [of d] assms show False by linarith
  qed
qed

text \<open>The month and the day of the month: walk the months' lengths.\<close>

fun find_month :: "int list \<Rightarrow> int \<Rightarrow> int \<Rightarrow> int \<times> int" where
  "find_month [] m r = (m, r + 1)"
| "find_month (l # ls) m r = (if r < l then (m, r + 1) else find_month ls (m + 1) (r - l))"

definition days_before :: "int \<Rightarrow> int \<Rightarrow> int" where
  "days_before y m = sum_list (take (nat (m - 1)) (month_lengths y))"

lemma find_month_spec:
  assumes "0 \<le> r" "r < sum_list ls" "find_month ls m r = (m', d)"
  shows "\<exists>i < length ls. m' = m + int i \<and> 1 \<le> d \<and> d \<le> ls ! i \<and> sum_list (take i ls) + d - 1 = r"
  using assms
proof (induction ls m r rule: find_month.induct)
  case (1 m r)
  then show ?case by simp
next
  case (2 l ls m r)
  show ?case
  proof (cases "r < l")
    case True
    with 2 show ?thesis by (intro exI [of _ 0]) auto
  next
    case False
    with 2 obtain i where "i < length ls" "m' = m + 1 + int i" "1 \<le> d" "d \<le> ls ! i"
      "sum_list (take i ls) + d - 1 = r - l" by auto
    then show ?thesis by (intro exI [of _ "Suc i"]) auto
  qed
qed

section \<open>Printing\<close>

fun pad :: "nat \<Rightarrow> int \<Rightarrow> string" where
  "pad 0 i = []"
| "pad (Suc n) i = char_of (nat (48 + i div 10 ^ n mod 10)) # pad n i"

definition iso_year :: "int \<Rightarrow> string" where
  "iso_year y = (if 0 \<le> y \<and> y \<le> 9999 then pad 4 y
                 else if y < 0 then ''-'' @ pad 6 (- y) else ''+'' @ pad 6 y)"

definition ms_per_day :: int where
  "ms_per_day = 86400000"

definition max_time :: int where
  "max_time = 8640000000000000"

definition iso_text :: "int \<Rightarrow> string" where
  "iso_text t =
     (let d = t div ms_per_day; r = t mod ms_per_day; y = year_of_day d;
          (m, dm) = find_month (month_lengths y) 1 (d - day_from_year y)
      in iso_year y @ ''-'' @ pad 2 m @ ''-'' @ pad 2 dm @ ''T'' @ pad 2 (r div 3600000) @ '':''
         @ pad 2 (r div 60000 mod 60) @ '':'' @ pad 2 (r div 1000 mod 60) @ ''.''
         @ pad 3 (r mod 1000) @ ''Z'')"

definition to_iso :: "int \<Rightarrow> string option" where
  "to_iso t = (if \<bar>t\<bar> \<le> max_time then Some (iso_text t) else None)"

section \<open>Parsing\<close>

definition digit_val :: "char \<Rightarrow> int option" where
  "digit_val c =
     (let n = (of_char c :: nat) in if 48 \<le> n \<and> n \<le> 57 then Some (int n - 48) else None)"

fun take_digits :: "nat \<Rightarrow> int \<Rightarrow> string \<Rightarrow> (int \<times> string) option" where
  "take_digits 0 acc s = Some (acc, s)"
| "take_digits (Suc n) acc [] = None"
| "take_digits (Suc n) acc (c # s) =
     (case digit_val c of None \<Rightarrow> None | Some v \<Rightarrow> take_digits n (10 * acc + v) s)"

fun expect :: "char \<Rightarrow> string \<Rightarrow> string option" where
  "expect c [] = None"
| "expect c (c' # s) = (if c' = c then Some s else None)"

fun p_year :: "string \<Rightarrow> (int \<times> string) option" where
  "p_year [] = None"
| "p_year (c # s) =
     (if c = CHR ''+'' then take_digits 6 0 s
      else if c = CHR ''-'' then
        (case take_digits 6 0 s of None \<Rightarrow> None
         | Some (y, r) \<Rightarrow> if y = 0 then None else Some (- y, r))
      else take_digits 4 0 (c # s))"

text \<open>\<^verbatim>\<open>-MM\<close> and \<^verbatim>\<open>-DD\<close>, each 1 when the form leaves it out.\<close>

definition p_part :: "string \<Rightarrow> (int \<times> string) option" where
  "p_part s = (case expect (CHR ''-'') s of None \<Rightarrow> Some (1, s) | Some r \<Rightarrow> take_digits 2 0 r)"

definition p_zone :: "string \<Rightarrow> int option" where
  "p_zone s =
     (if s = ''Z'' then Some 0
      else case s of [] \<Rightarrow> None | c # r \<Rightarrow>
        (if c = CHR ''+'' \<or> c = CHR ''-'' then
           do { (h, r) \<leftarrow> take_digits 2 0 r;
                r \<leftarrow> expect (CHR '':'') r;
                (m, r) \<leftarrow> take_digits 2 0 r;
                if r = [] \<and> h \<le> 23 \<and> m \<le> 59
                then Some ((if c = CHR ''-'' then -1 else 1) * (h * 3600000 + m * 60000)) else None }
         else None))"

definition p_seconds :: "string \<Rightarrow> (int \<times> int \<times> string) option" where
  "p_seconds r =
     (case expect (CHR '':'') r of None \<Rightarrow> Some (0, 0, r) | Some r \<Rightarrow>
        do { (s, r) \<leftarrow> take_digits 2 0 r;
             case expect (CHR ''.'') r of None \<Rightarrow> Some (s, 0, r) | Some r \<Rightarrow>
               do { (ms, r) \<leftarrow> take_digits 3 0 r; Some (s, ms, r) } })"

definition p_time :: "string \<Rightarrow> int option" where
  "p_time s =
     (if s = [] then Some 0 else
        do { r \<leftarrow> expect (CHR ''T'') s;
             (h, r) \<leftarrow> take_digits 2 0 r;
             r \<leftarrow> expect (CHR '':'') r;
             (m, r) \<leftarrow> take_digits 2 0 r;
             (sec, ms, r) \<leftarrow> p_seconds r;
             z \<leftarrow> p_zone r;
             if m \<le> 59 \<and> sec \<le> 59 \<and> (h \<le> 23 \<or> h = 24 \<and> m = 0 \<and> sec = 0 \<and> ms = 0)
             then Some (h * 3600000 + m * 60000 + sec * 1000 + ms - z) else None })"

definition date_parse :: "string \<Rightarrow> int option" where
  "date_parse s =
     do { (y, r) \<leftarrow> p_year s;
          (m, r) \<leftarrow> p_part r;
          if 1 \<le> m \<and> m \<le> 12 then
            do { (d, r) \<leftarrow> p_part r;
                 t \<leftarrow> p_time r;
                 if 1 \<le> d \<and> d \<le> month_lengths y ! nat (m - 1)
                 then let v = (day_from_year y + days_before y m + d - 1) * ms_per_day + t
                      in if \<bar>v\<bar> \<le> max_time then Some v else None
                 else None }
          else None }"

section \<open>Reading back what was printed\<close>

lemma digit_val_char:
  assumes "0 \<le> i" "i < 10"
  shows "digit_val (char_of (nat (48 + i))) = Some i"
proof -
  have "nat (48 + i) < 256" using assms by simp
  then have "(of_char (char_of (nat (48 + i)) :: char) :: nat) = nat (48 + i)" by simp
  moreover have "48 \<le> nat (48 + i)" "nat (48 + i) \<le> 57" "int (nat (48 + i)) - 48 = i"
    using assms by linarith+
  ultimately show ?thesis unfolding digit_val_def Let_def by simp
qed

lemma take_digits_pad:
  "0 \<le> i \<Longrightarrow> take_digits n acc (pad n i @ s) = Some (acc * 10 ^ n + i mod 10 ^ n, s)"
proof (induction n arbitrary: acc)
  case 0
  then show ?case by simp
next
  case (Suc n)
  let ?d = "i div 10 ^ n mod 10"
  have "digit_val (char_of (nat (48 + ?d))) = Some ?d"
    by (rule digit_val_char) simp_all
  moreover have "i mod 10 ^ Suc n = ?d * 10 ^ n + i mod 10 ^ n"
    using zmod_zmult2_eq [of 10 i "10 ^ n"] by (simp add: mult.commute)
  ultimately show ?case
    using Suc.IH [OF Suc.prems, of "10 * acc + ?d"] by (simp add: algebra_simps)
qed

lemma take_digits_pad_small:
  "0 \<le> i \<Longrightarrow> i < 10 ^ n \<Longrightarrow> take_digits n 0 (pad n i @ s) = Some (i, s)"
  by (simp add: take_digits_pad)

lemma digit_char_neq:
  assumes "0 \<le> i" "i < 10"
  shows "char_of (nat (48 + i)) \<noteq> CHR ''+''" "char_of (nat (48 + i)) \<noteq> CHR ''-''"
proof -
  have "digit_val (CHR ''+'') = None" "digit_val (CHR ''-'') = None"
    by (simp_all add: digit_val_def)
  then show "char_of (nat (48 + i)) \<noteq> CHR ''+''" "char_of (nat (48 + i)) \<noteq> CHR ''-''"
    using digit_val_char [OF assms] by (metis option.distinct(1))+
qed

lemma p_year_iso:
  assumes "\<bar>y\<bar> < 10 ^ 6"
  shows "p_year (iso_year y @ s) = Some (y, s)"
proof (cases "0 \<le> y \<and> y \<le> 9999")
  case True
  have 4: "pad 4 y @ s = char_of (nat (48 + y div 10 ^ 3 mod 10)) # (pad 3 y @ s)"
    by (simp add: numeral_eq_Suc)
  have "char_of (nat (48 + y div 10 ^ 3 mod 10)) \<noteq> CHR ''+''"
    "char_of (nat (48 + y div 10 ^ 3 mod 10)) \<noteq> CHR ''-''"
    by (rule digit_char_neq; simp)+
  then have "p_year (pad 4 y @ s) = take_digits 4 0 (pad 4 y @ s)"
    unfolding 4 by simp
  also have "\<dots> = Some (y, s)"
    using True by (intro take_digits_pad_small) auto
  finally show ?thesis using True by (simp add: iso_year_def)
next
  case False
  with assms show ?thesis
    by (auto simp: iso_year_def take_digits_pad_small)
qed

lemma expect_same [simp]: "expect c (c # s) = Some s"
  by simp

declare take_digits.simps [simp del] pad.simps [simp del]

lemma p_time_fields:
  assumes "0 \<le> h" "h < 24" "0 \<le> m" "m < 60" "0 \<le> sec" "sec < 60" "0 \<le> z" "z < 1000"
  shows "p_time (''T'' @ pad 2 h @ '':'' @ pad 2 m @ '':'' @ pad 2 sec @ ''.'' @ pad 3 z @ ''Z'')
    = Some (h * 3600000 + m * 60000 + sec * 1000 + z)"
proof -
  have "take_digits 2 0 (pad 2 h @ t) = Some (h, t)" "take_digits 2 0 (pad 2 m @ t) = Some (m, t)"
    "take_digits 2 0 (pad 2 sec @ t) = Some (sec, t)" "take_digits 3 0 (pad 3 z @ t) = Some (z, t)" for t
    using assms by (auto intro!: take_digits_pad_small)
  then show ?thesis
    using assms by (simp add: p_time_def p_seconds_def p_zone_def)
qed

lemma time_fields:
  fixes r :: int
  shows "r div 3600000 * 3600000 + r div 60000 mod 60 * 60000 + r div 1000 mod 60 * 1000 + r mod 1000 = r"
proof -
  have "r div 60000 = r div 1000 div 60" "r div 3600000 = r div 60000 div 60"
    by (simp_all flip: zdiv_zmult2_eq)
  then show ?thesis
    using mult_div_mod_eq [of 60 "r div 60000"] mult_div_mod_eq [of 60 "r div 1000"]
      mult_div_mod_eq [of 1000 r] by linarith
qed

lemma p_time_iso:
  assumes "0 \<le> r" "r < ms_per_day"
  shows "p_time (''T'' @ pad 2 (r div 3600000) @ '':'' @ pad 2 (r div 60000 mod 60) @ '':''
    @ pad 2 (r div 1000 mod 60) @ ''.'' @ pad 3 (r mod 1000) @ ''Z'') = Some r"
proof -
  have "r div 3600000 \<le> 86399999 div 3600000"
    using assms by (intro zdiv_mono1) (simp_all add: ms_per_day_def)
  then have "r div 3600000 < 24" by simp
  moreover have "0 \<le> r div 3600000" using assms(1) by simp
  moreover have "0 \<le> r div 60000 mod 60" "r div 60000 mod 60 < 60" "0 \<le> r div 1000 mod 60"
    "r div 1000 mod 60 < 60" "0 \<le> r mod 1000" "r mod 1000 < 1000"
    by (rule pos_mod_sign pos_mod_bound; simp)+
  ultimately have "p_time (''T'' @ pad 2 (r div 3600000) @ '':'' @ pad 2 (r div 60000 mod 60) @ '':''
    @ pad 2 (r div 1000 mod 60) @ ''.'' @ pad 3 (r mod 1000) @ ''Z'')
    = Some (r div 3600000 * 3600000 + r div 60000 mod 60 * 60000 + r div 1000 mod 60 * 1000 + r mod 1000)"
    by (intro p_time_fields)
  then show ?thesis by (simp only: time_fields)
qed

text \<open>Every time value of the ECMAScript range is read back from its ISO text.\<close>

lemma days_in_range:
  assumes "\<bar>t\<bar> \<le> max_time"
  shows "\<bar>t div ms_per_day\<bar> \<le> 100000000"
  using assms by (auto simp: max_time_def ms_per_day_def)

lemma year_range:
  assumes "\<bar>d\<bar> \<le> 100000000"
  shows "\<bar>year_of_day d\<bar> < 10 ^ 6"
proof (rule ccontr)
  assume "\<not> ?thesis"
  then consider "1000000 \<le> year_of_day d" | "year_of_day d + 1 \<le> -999999" by force
  then show False
  proof cases
    case 1
    have "100000000 < day_from_year 1000000" by (simp add: day_from_year_def)
    with day_from_year_mono [OF 1] year_of_day_bounds [of d] assms
    show False by linarith
  next
    case 2
    have "day_from_year (-999999) < - 100000000" by (simp add: day_from_year_def)
    with day_from_year_mono [OF 2] year_of_day_bounds [of d] assms
    show False by linarith
  qed
qed

lemma p_part_pad:
  "0 \<le> i \<Longrightarrow> i < 100 \<Longrightarrow> p_part (''-'' @ pad 2 i @ s) = Some (i, s)"
  using take_digits_pad_small [of i 2 s] by (simp add: p_part_def)

lemma month_length_le: "i < 12 \<Longrightarrow> month_lengths y ! i \<le> 31"
  by (auto simp: month_lengths_def less_Suc_eq numeral_eq_Suc)

theorem date_parse_iso_text:
  assumes "\<bar>t\<bar> \<le> max_time"
  shows "date_parse (iso_text t) = Some t"
proof -
  define d r y where "d = t div ms_per_day" and "r = t mod ms_per_day" and "y = year_of_day d"
  obtain m dm where fm: "find_month (month_lengths y) 1 (d - day_from_year y) = (m, dm)"
    by fastforce
  have y: "day_from_year y \<le> d" "d < day_from_year (y + 1)"
    unfolding y_def using year_of_day_bounds by blast+
  have r: "0 \<le> r" "r < ms_per_day" by (simp_all add: r_def ms_per_day_def)
  from y find_month_spec [OF _ _ fm] obtain i where i: "i < 12" "m = 1 + int i" "1 \<le> dm"
    "dm \<le> month_lengths y ! i" "sum_list (take i (month_lengths y)) + dm - 1 = d - day_from_year y"
    unfolding day_from_year_succ by (auto simp: month_lengths_def)
  have dm: "dm < 100" using i(1,4) month_length_le [of i y] by linarith
  have py: "p_year (iso_year y @ s) = Some (y, s)" for s
    using assms unfolding y_def d_def by (intro p_year_iso year_range days_in_range)
  have "day_from_year y + days_before y m + dm - 1 = d"
    using i(2,5) by (simp add: days_before_def)
  then have "(day_from_year y + days_before y m + dm - 1) * ms_per_day + r = t"
    by (simp add: d_def r_def)
  moreover have "iso_text t = iso_year y @ ''-'' @ pad 2 m @ ''-'' @ pad 2 dm @ ''T'' @ pad 2 (r div 3600000) @ '':''
         @ pad 2 (r div 60000 mod 60) @ '':'' @ pad 2 (r div 1000 mod 60) @ ''.''
         @ pad 3 (r mod 1000) @ ''Z''"
    by (simp add: iso_text_def Let_def fm flip: d_def r_def y_def)
  moreover have "p_part (''-'' @ pad 2 m @ s) = Some (m, s)" "p_part (''-'' @ pad 2 dm @ s) = Some (dm, s)" for s
    using i(1-3) dm by (simp_all only: p_part_pad)
  ultimately show ?thesis
    using assms i r p_time_iso [OF r] by (simp only: date_parse_def py) (simp add: Let_def)
qed

corollary parse_to_iso: "to_iso t = Some s \<Longrightarrow> date_parse s = Some t"
  by (auto simp: to_iso_def date_parse_iso_text split: if_splits)

section \<open>The clock the leases use\<close>

text \<open>
  The schedulers and stores write \<^verbatim>\<open>new Date(Date.parse(now) + ms).toISOString()\<close> into a
  record and compare \<^verbatim>\<open>Date.parse\<close> of it with the time of a later operation. The
  interface is that a printed text reads back; what they rely on is the window it gives.
\<close>

locale iso_clock =
  fixes parse :: "string \<Rightarrow> int option"
    and print :: "int \<Rightarrow> string option"
  assumes read_back: "print t = Some s \<Longrightarrow> parse s = Some t"
begin

lemma window:
  "print (t + d) = Some e \<Longrightarrow> parse now = Some n \<Longrightarrow> the (parse e) \<le> the (parse now) \<longleftrightarrow> t + d \<le> n"
  by (simp add: read_back)

lemma print_inj: "print t = Some s \<Longrightarrow> print u = Some s \<Longrightarrow> t = u"
  by (auto dest!: read_back)

end

interpretation iso: iso_clock date_parse to_iso
  by unfold_locales (rule parse_to_iso)

section \<open>Evaluation\<close>

text \<open>Digits by cases: with these equations the examples of the other theories evaluate without
  converting characters to numbers and back.\<close>

definition decimal_char :: "int \<Rightarrow> char" where
  "decimal_char d =
     (if d = 0 then CHR ''0'' else if d = 1 then CHR ''1'' else if d = 2 then CHR ''2'' else if d = 3 then CHR ''3''
      else if d = 4 then CHR ''4'' else if d = 5 then CHR ''5'' else if d = 6 then CHR ''6'' else if d = 7 then CHR ''7''
      else if d = 8 then CHR ''8'' else CHR ''9'')"

lemma decimal_char: "0 \<le> d \<Longrightarrow> d < 10 \<Longrightarrow> char_of (nat (48 + d)) = decimal_char d"
proof -
  assume "0 \<le> d" "d < 10"
  then have "d = 0 \<or> d = 1 \<or> d = 2 \<or> d = 3 \<or> d = 4 \<or> d = 5 \<or> d = 6 \<or> d = 7 \<or> d = 8 \<or> d = 9" by presburger
  then show ?thesis by (elim disjE) (simp_all add: decimal_char_def, code_simp+)
qed

lemma pad_code [code]: "pad 0 i = []" "pad (Suc n) i = decimal_char (i div 10 ^ n mod 10) # pad n i"
  using decimal_char [of "i div 10 ^ n mod 10"] by (simp_all add: pad.simps)

lemma digit_val_code [code]:
  "digit_val (Char b0 b1 b2 b3 b4 b5 b6 b7) =
     (if b4 \<and> b5 \<and> \<not> b6 \<and> \<not> b7 \<and> \<not> (b3 \<and> (b1 \<or> b2))
      then Some ((if b0 then 1 else 0) + (if b1 then 2 else 0) + (if b2 then 4 else 0) + (if b3 then 8 else 0)) else None)"
  by (cases b0; cases b1; cases b2; cases b3; cases b4; cases b5; cases b6; cases b7) (simp_all add: digit_val_def)

end
