(* ===== verification/Workflow_Migration.thy ===== *)
theory Workflow_Migration
  imports Complex_Main Js_Time
begin

text \<open>
  \<^verbatim>\<open>packages/shared/src/controlled-workflow-migration-state.ts\<close>: the portable state machine of
  a controlled migration of a live workflow. An operation is prepared against a grant and a
  manifest, confirmed, leased, checked by a precondition read, dispatched once, read back and,
  when the outcome is not the approved one, rolled back once. The machine is pure: it takes an
  operation and an event and answers with the next operation and the effects the host performs.
  The predicate on lists of protected domains is the one of
  \<^verbatim>\<open>controlled-workflow-canonicalization.ts\<close>.
\<close>

section \<open>Data\<close>

datatype migration_mode = ModeApply | ModeRollback

datatype migration_status =
    MPrepared | MQueued | MRunning | MReconciling | MRollingBack | MCompleted | MRolledBack | MFailed
  | MManualIntervention | MExpired

datatype mutation_result = MutNotStarted | MutSucceeded | MutDefinitivelyFailed | MutAmbiguous | MutTimedOut

datatype readback_result =
  MatchesCandidate | MatchesRollback | MatchesPreMutation | UnexpectedState | ReadUnavailable

datatype rollback_result = RbNotAttempted | RbSucceeded | RbDefinitivelyFailed | RbAmbiguous | RbTimedOut

datatype migration_reason =
    PREPARED | INVALID_OPERATION_ID | INVALID_SOURCE_ROOT_FINGERPRINT | SOURCE_ID_MISMATCH
  | GRANT_IDENTITY_MISMATCH | WORKFLOW_ID_MISMATCH | CANONICALIZATION_VERSION_MISMATCH
  | ARTIFACT_BINDING_MISMATCH | CANONICAL_HASH_MISMATCH | WRAPPER_BINDING_MISMATCH
  | API_ORIGIN_MISMATCH | M_CONFIRMATION_REQUIRED | CONFIRMATION_INVALID | CONFIRMATION_EXPIRED
  | CONFIRMATION_REPLAYED | CONFIRMATION_CONSUMED | LEASE_ACQUIRED | LEASE_CONFLICT
  | STALE_LEASE_RECONCILIATION | PRECONDITION_CONFIRMED | PRECONDITION_MISMATCH
  | PRECONDITION_UNAVAILABLE | CANDIDATE_DISPATCH_RESERVED | ROLLBACK_DISPATCH_RESERVED
  | DISPATCH_CONFLICT | DISPATCH_REPLAYED | DISPATCH_STORE_CORRUPT
  | CANDIDATE_MUTATION_SUCCEEDED | CANDIDATE_MUTATION_FAILED | CANDIDATE_MUTATION_AMBIGUOUS
  | CANDIDATE_MUTATION_TIMED_OUT | CANDIDATE_MUTATION_NOT_STARTED | ROLLBACK_MUTATION_SUCCEEDED
  | ROLLBACK_MUTATION_FAILED | ROLLBACK_MUTATION_AMBIGUOUS | ROLLBACK_MUTATION_TIMED_OUT
  | ROLLBACK_NOT_ATTEMPTED | READBACK_CANDIDATE_CONFIRMED | READBACK_ROLLBACK_CONFIRMED
  | READBACK_PRE_MUTATION_CONFIRMED | READBACK_UNEXPECTED | READBACK_UNAVAILABLE
  | AUTOMATIC_ROLLBACK_REQUIRED | ROLLBACK_READBACK_FAILED | TERMINAL_STATE | INVALID_TRANSITION

record migration_binding =
  mb_sourceId :: string
  mb_sourceRootFingerprint :: string
  mb_grantId :: string
  mb_grantVersion :: int
  mb_workflowId :: string
  mb_mode :: migration_mode
  mb_candidatePath :: string
  mb_candidateSha256 :: string
  mb_rollbackPath :: string
  mb_rollbackSha256 :: string
  mb_manifestPath :: string
  mb_manifestSha256 :: string
  mb_wrapperPath :: string
  mb_wrapperSha256 :: string
  mb_canonicalizationVersion :: int
  mb_candidateCanonicalSha256 :: string
  mb_rollbackCanonicalSha256 :: string
  mb_expectedLiveCanonicalSha256 :: string
  mb_apiOriginFingerprint :: "string option"

datatype executor_classification =
  ClsSucceeded | ClsDefinitivelyFailed | ClsAmbiguous | ClsTimedOut | ClsBlocked

datatype executor_reason =
    X_READ_SUCCEEDED | X_INVALID_INVOCATION | X_CALLER_PROCESS_CONFIGURATION_REJECTED
  | X_EFFECT_NOT_SUPPORTED | X_EFFECT_NOT_LEGAL | X_SOURCE_ID_MISMATCH
  | X_SOURCE_ROOT_FINGERPRINT_MISMATCH | X_GRANT_DISABLED | X_GRANT_IDENTITY_MISMATCH
  | X_WORKFLOW_BINDING_MISMATCH | X_WRAPPER_BINDING_MISMATCH | X_CANONICALIZATION_VERSION_MISMATCH
  | X_CANDIDATE_BINDING_MISMATCH | X_ROLLBACK_BINDING_MISMATCH | X_MANIFEST_BINDING_MISMATCH
  | X_API_ORIGIN_MISMATCH | X_ARTIFACT_PATH_OUTSIDE_GRANT | X_ARTIFACT_HASH_MISMATCH
  | X_ARTIFACT_INVALID | X_MANIFEST_INVALID | X_MANIFEST_EXPANDS_GRANT | X_WRAPPER_NOT_EXECUTABLE
  | X_MUTATION_ALREADY_REQUESTED | X_MUTATION_COMMAND_UNPROVEN | X_MUTATION_DISPATCH_NOT_RESERVED
  | X_MUTATION_DISPATCH_REPLAYED | X_PROCESS_DEFINITIVE_FAILURE | X_PROCESS_AMBIGUOUS
  | X_PROCESS_TIMED_OUT | X_PROCESS_OUTPUT_TRUNCATED | X_MALFORMED_RESPONSE
  | X_RESPONSE_WORKFLOW_ID_MISMATCH | X_PROTECTED_DOMAIN_MISMATCH | X_CREDENTIAL_MATERIAL_DETECTED
  | X_CREDENTIAL_SOURCE_UNAVAILABLE | X_RUNTIME_CONFIGURATION_UNAVAILABLE
  | X_CANONICALIZATION_FAILED | X_INTERNAL_EXECUTOR_FAILURE

datatype read_purpose = PurposePrecondition | PurposeCandidateReadback | PurposeRollbackReadback | PurposeReconciliation

datatype protected_domain =
  DomActivation | DomSettings | DomTags | DomSharing | DomCredentials | DomWebhooks | DomSchedules

datatype domain_state = DomainsUnchanged | DomainsUnverified

text \<open>An exit code is absent (or no integer, which the code treats alike), \<^verbatim>\<open>null\<close> or a number.\<close>

datatype exit_code = ExitAbsent | ExitNull | ExitCode int

record migration_evidence =
  ev_observedCanonicalSha256 :: "string option"
  ev_protectedDomains :: "domain_state option"
  ev_protectedDomainMismatches :: "protected_domain list option"
  ev_mutationResult :: "mutation_result option"
  ev_readbackResult :: "readback_result option"
  ev_rollbackResult :: "rollback_result option"
  ev_durationMs :: "rat option"
  ev_executorClassification :: "executor_classification option"
  ev_executorReasonCode :: "executor_reason option"
  ev_executorExitCode :: exit_code
  ev_readPurpose :: "read_purpose option"
  ev_executorOperationId :: "string option"
  ev_executorWorkflowId :: "string option"

definition no_evidence :: migration_evidence where
  "no_evidence =
     \<lparr>ev_observedCanonicalSha256 = None, ev_protectedDomains = None, ev_protectedDomainMismatches = None,
      ev_mutationResult = None, ev_readbackResult = None, ev_rollbackResult = None, ev_durationMs = None,
      ev_executorClassification = None, ev_executorReasonCode = None, ev_executorExitCode = ExitAbsent,
      ev_readPurpose = None, ev_executorOperationId = None, ev_executorWorkflowId = None\<rparr>"

record operation_lease =
  ol_leaseProof :: "string option"
  ol_owner :: string
  ol_acquiredAt :: string
  ol_expiresAt :: string

record migration_operation =
  mo_operationId :: string
  mo_status :: migration_status
  mo_binding :: migration_binding
  mo_confirmationTokenHash :: "string option"
  mo_confirmationExpiresAt :: string
  mo_confirmationConsumedAt :: "string option"
  mo_createdAt :: string
  mo_updatedAt :: string
  mo_lease :: "operation_lease option"
  mo_candidateUpdateRequests :: nat
  mo_rollbackUpdateRequests :: nat
  mo_readbackRequests :: int
  mo_reason :: "string option"
  mo_reasonCode :: "migration_reason option"
  mo_evidence :: "migration_evidence option"

datatype confirmation_result = ConfConsumed | ConfMissing | ConfInvalid | ConfExpired | ConfReplayed
datatype lease_result = LeaseAcquired | LeaseConflicted
datatype dispatch_result = DispReserved | DispConflict | DispReplayed | DispStoreCorrupt

record readback =
  rd_result :: readback_result
  rd_observedCanonicalSha256 :: "string option"
  rd_protectedDomains :: "domain_state option"
  rd_protectedDomainMismatches :: "protected_domain list option"
  rd_executorClassification :: "executor_classification option"
  rd_executorReasonCode :: "executor_reason option"
  rd_executorExitCode :: exit_code
  rd_readPurpose :: "read_purpose option"
  rd_executorOperationId :: "string option"
  rd_executorWorkflowId :: "string option"

datatype migration_event =
    ConfirmationResult confirmation_result string
  | LeaseResult lease_result string
  | PreconditionReadback readback string
  | CandidateDispatchReserved dispatch_result string
  | RollbackDispatchReserved dispatch_result string
  | MutationResult mutation_result string
  | RollbackResult rollback_result string
  | ReadbackResult readback string
  | LeaseExpiredEvent string
  | RecoveredMutation mutation_result string
  | RecoveredRollback rollback_result string
  | RecoveryResume string

datatype readback_expectation = ExpectCandidate | ExpectRollback | ExpectApprovedState

datatype migration_effect =
    NoEffect
  | PersistOperation migration_operation
  | AcquireLease string string string
  | ReadLiveWorkflow string string read_purpose string
  | ReserveCandidateDispatch string string string string string
  | ReserveRollbackDispatch string string string string string
  | ApplyCandidate string string string string
  | ApplyRollback string string string string bool
  | ReadbackWorkflow string string readback_expectation
  | ReleaseLease string

record advance_decision =
  ad_accepted :: bool
  ad_operation :: migration_operation
  ad_reasonCode :: migration_reason
  ad_effects :: "migration_effect list"

section \<open>The graph of states\<close>

definition terminal_status :: "migration_status \<Rightarrow> bool" where
  "terminal_status s = (s \<in> {MCompleted, MRolledBack, MFailed, MManualIntervention, MExpired})"

primrec legal_state_transitions :: "migration_status \<Rightarrow> migration_status list" where
  "legal_state_transitions MPrepared = [MPrepared, MQueued, MExpired]"
| "legal_state_transitions MQueued = [MQueued, MRunning, MReconciling, MExpired]"
| "legal_state_transitions MRunning =
     [MRunning, MReconciling, MRollingBack, MCompleted, MFailed, MManualIntervention]"
| "legal_state_transitions MReconciling =
     [MReconciling, MRollingBack, MCompleted, MRolledBack, MFailed, MManualIntervention]"
| "legal_state_transitions MRollingBack =
     [MRollingBack, MReconciling, MRolledBack, MFailed, MManualIntervention]"
| "legal_state_transitions MCompleted = [MCompleted]"
| "legal_state_transitions MRolledBack = [MRolledBack]"
| "legal_state_transitions MFailed = [MFailed]"
| "legal_state_transitions MManualIntervention = [MManualIntervention]"
| "legal_state_transitions MExpired = [MExpired]"

definition is_state_transition :: "migration_status \<Rightarrow> migration_status \<Rightarrow> bool" where
  "is_state_transition from to = (to \<in> set (legal_state_transitions from))"

section \<open>Helpers\<close>

definition sha256_char :: "char \<Rightarrow> bool" where
  "sha256_char c = ((CHR ''a'' \<le> c \<and> c \<le> CHR ''f'') \<or> (CHR ''0'' \<le> c \<and> c \<le> CHR ''9''))"

definition is_sha256 :: "string option \<Rightarrow> bool" where
  "is_sha256 v = (case v of None \<Rightarrow> False | Some s \<Rightarrow> length s = 64 \<and> list_all sha256_char s)"

definition is_expired :: "string \<Rightarrow> string \<Rightarrow> bool" where
  "is_expired expiresAt now =
     (case (date_parse expiresAt, date_parse now) of (Some e, Some n) \<Rightarrow> e \<le> n | _ \<Rightarrow> True)"

primrec domain_index :: "protected_domain \<Rightarrow> int" where
  "domain_index DomActivation = 0"
| "domain_index DomSettings = 1"
| "domain_index DomTags = 2"
| "domain_index DomSharing = 3"
| "domain_index DomCredentials = 4"
| "domain_index DomWebhooks = 5"
| "domain_index DomSchedules = 6"

fun increasing_domains :: "int \<Rightarrow> protected_domain list \<Rightarrow> bool" where
  "increasing_domains previous [] = True"
| "increasing_domains previous (d # ds) =
     (previous < domain_index d \<and> increasing_domains (domain_index d) ds)"

definition is_canonical_domain_list :: "protected_domain list option \<Rightarrow> bool" where
  "is_canonical_domain_list v =
     (case v of None \<Rightarrow> False
      | Some ds \<Rightarrow> ds \<noteq> [] \<and> length ds \<le> 7 \<and> increasing_domains (- 1) ds)"

definition current_evidence :: "migration_operation \<Rightarrow> migration_evidence" where
  "current_evidence m = (case mo_evidence m of None \<Rightarrow> no_evidence | Some e \<Rightarrow> e)"

definition transition ::
  "migration_operation \<Rightarrow> migration_status \<Rightarrow> string \<Rightarrow> migration_reason \<Rightarrow> migration_operation" where
  "transition m st tm reason = m\<lparr>mo_status := st, mo_updatedAt := tm, mo_reasonCode := Some reason\<rparr>"

definition no_change :: "migration_operation \<Rightarrow> migration_reason \<Rightarrow> bool \<Rightarrow> advance_decision" where
  "no_change m reason ok =
     \<lparr>ad_accepted = ok, ad_operation = m, ad_reasonCode = reason, ad_effects = [NoEffect]\<rparr>"

definition with_effects ::
  "migration_operation \<Rightarrow> migration_reason \<Rightarrow> migration_effect list \<Rightarrow> advance_decision" where
  "with_effects m reason effects =
     \<lparr>ad_accepted = True, ad_operation = m, ad_reasonCode = reason, ad_effects = effects\<rparr>"

definition persist_then :: "migration_operation \<Rightarrow> migration_effect list \<Rightarrow> migration_effect list" where
  "persist_then m effects = PersistOperation m # effects"

definition release_effects :: "migration_operation \<Rightarrow> migration_effect list" where
  "release_effects m = persist_then m [ReleaseLease (mo_operationId m)]"

text \<open>The two handlers of reads refuse a diagnostic of another operation or workflow, and record
  the same evidence of the read: absent members keep what was recorded, the mismatches of
  protected domains are always replaced.\<close>

definition foreign_read :: "migration_operation \<Rightarrow> readback \<Rightarrow> bool" where
  "foreign_read m r =
     ((truthy (rd_executorOperationId r) \<and> rd_executorOperationId r \<noteq> Some (mo_operationId m))
      \<or> (truthy (rd_executorWorkflowId r) \<and> rd_executorWorkflowId r \<noteq> Some (mb_workflowId (mo_binding m))))"

definition override :: "'a option \<Rightarrow> 'a option \<Rightarrow> 'a option" where
  "override old v = (case v of None \<Rightarrow> old | Some x \<Rightarrow> Some x)"

definition read_evidence :: "migration_operation \<Rightarrow> readback \<Rightarrow> migration_evidence" where
  "read_evidence m r =
     (let e = current_evidence m in
      e\<lparr>ev_readbackResult := Some (rd_result r),
        ev_protectedDomains := Some (if rd_protectedDomains r = Some DomainsUnchanged then DomainsUnchanged
                                     else DomainsUnverified),
        ev_protectedDomainMismatches :=
          (if rd_protectedDomains r = Some DomainsUnverified
              \<and> rd_executorReasonCode r = Some X_PROTECTED_DOMAIN_MISMATCH
              \<and> is_canonical_domain_list (rd_protectedDomainMismatches r)
           then rd_protectedDomainMismatches r else None),
        ev_observedCanonicalSha256 :=
          (if is_sha256 (rd_observedCanonicalSha256 r) then rd_observedCanonicalSha256 r
           else ev_observedCanonicalSha256 e),
        ev_executorClassification := override (ev_executorClassification e) (rd_executorClassification r),
        ev_executorReasonCode := override (ev_executorReasonCode e) (rd_executorReasonCode r),
        ev_executorExitCode :=
          (case rd_executorExitCode r of ExitAbsent \<Rightarrow> ev_executorExitCode e
           | ExitNull \<Rightarrow> ExitNull | ExitCode n \<Rightarrow> ExitCode (max (- 255) (min 255 n))),
        ev_readPurpose := override (ev_readPurpose e) (rd_readPurpose r),
        ev_executorOperationId :=
          (if truthy (rd_executorOperationId r) then rd_executorOperationId r else ev_executorOperationId e),
        ev_executorWorkflowId :=
          (if truthy (rd_executorWorkflowId r) then rd_executorWorkflowId r else ev_executorWorkflowId e)\<rparr>)"

section \<open>Preparation\<close>

record artifact_input =
  ai_path :: string
  ai_sha256 :: string
  ai_canonicalSha256 :: string

record grant_input =
  gi_grantId :: string
  gi_version :: int
  gi_sourceId :: string
  gi_workflowId :: string
  gi_wrapperPath :: string
  gi_wrapperSha256 :: string
  gi_canonicalizationVersion :: int
  gi_apiOriginFingerprint :: "string option"

text \<open>What the preparation reads of the topology manifest.\<close>

record manifest_input =
  mf_workflowId :: string
  mf_canonicalizationVersion :: int
  mf_expectedLiveCanonicalSha256 :: string
  mf_candidateCanonicalSha256 :: string
  mf_rollbackCanonicalSha256 :: string
  mf_candidatePath :: string
  mf_candidateSha256 :: string
  mf_rollbackPath :: string
  mf_rollbackSha256 :: string

record prepare_input =
  pi_operationId :: string
  pi_now :: string
  pi_confirmationExpiresAt :: string
  pi_sourceId :: string
  pi_sourceRootFingerprint :: string
  pi_workflowId :: string
  pi_mode :: migration_mode
  pi_grant :: grant_input
  pi_manifest :: manifest_input
  pi_manifestPath :: string
  pi_manifestSha256 :: string
  pi_candidate :: artifact_input
  pi_rollback :: artifact_input
  pi_wrapperPath :: string
  pi_wrapperSha256 :: string
  pi_apiOriginFingerprint :: "string option"

text \<open>The checks in the order of the code, each with its issue.\<close>

definition prepare_checks :: "prepare_input \<Rightarrow> (bool \<times> migration_reason \<times> string) list" where
  "prepare_checks i =
     (let g = pi_grant i; f = pi_manifest i; c = pi_candidate i; r = pi_rollback i in
      [(trim (pi_operationId i) = [] \<or> 200 < length (pi_operationId i), INVALID_OPERATION_ID, ''operationId''),
       (\<not> is_sha256 (Some (pi_sourceRootFingerprint i)), INVALID_SOURCE_ROOT_FINGERPRINT, ''sourceRootFingerprint''),
       (pi_sourceId i \<noteq> gi_sourceId g, SOURCE_ID_MISMATCH, ''sourceId''),
       (trim (gi_grantId g) = [] \<or> gi_version g < 1, GRANT_IDENTITY_MISMATCH, ''grant''),
       (pi_workflowId i \<noteq> gi_workflowId g \<or> pi_workflowId i \<noteq> mf_workflowId f, WORKFLOW_ID_MISMATCH, ''workflowId''),
       (\<not> (gi_canonicalizationVersion g = 1 \<or> gi_canonicalizationVersion g = 2)
          \<or> gi_canonicalizationVersion g \<noteq> mf_canonicalizationVersion f,
        CANONICALIZATION_VERSION_MISMATCH, ''canonicalizationVersion''),
       (ai_path c \<noteq> mf_candidatePath f \<or> ai_sha256 c \<noteq> mf_candidateSha256 f
          \<or> ai_path r \<noteq> mf_rollbackPath f \<or> ai_sha256 r \<noteq> mf_rollbackSha256 f
          \<or> pi_manifestPath i = [] \<or> \<not> is_sha256 (Some (pi_manifestSha256 i)),
        ARTIFACT_BINDING_MISMATCH, ''artifacts''),
       (ai_canonicalSha256 c \<noteq> mf_candidateCanonicalSha256 f \<or> ai_canonicalSha256 r \<noteq> mf_rollbackCanonicalSha256 f
          \<or> \<not> is_sha256 (Some (mf_expectedLiveCanonicalSha256 f)),
        CANONICAL_HASH_MISMATCH, ''canonicalHashes''),
       (pi_wrapperPath i \<noteq> gi_wrapperPath g \<or> pi_wrapperSha256 i \<noteq> gi_wrapperSha256 g
          \<or> \<not> is_sha256 (Some (pi_wrapperSha256 i)),
        WRAPPER_BINDING_MISMATCH, ''wrapper''),
       (pi_apiOriginFingerprint i \<noteq> gi_apiOriginFingerprint g, API_ORIGIN_MISMATCH, ''apiOriginFingerprint''),
       (is_expired (pi_confirmationExpiresAt i) (pi_now i), CONFIRMATION_EXPIRED, ''confirmationExpiresAt'')])"

definition prepare_issues :: "prepare_input \<Rightarrow> (migration_reason \<times> string) list" where
  "prepare_issues i = take 20 (map snd (filter fst (prepare_checks i)))"

definition prepare_binding :: "prepare_input \<Rightarrow> migration_binding" where
  "prepare_binding i =
     (let g = pi_grant i; f = pi_manifest i; c = pi_candidate i; r = pi_rollback i in
      \<lparr>mb_sourceId = pi_sourceId i, mb_sourceRootFingerprint = pi_sourceRootFingerprint i,
       mb_grantId = gi_grantId g, mb_grantVersion = gi_version g, mb_workflowId = pi_workflowId i,
       mb_mode = pi_mode i, mb_candidatePath = ai_path c, mb_candidateSha256 = ai_sha256 c,
       mb_rollbackPath = ai_path r, mb_rollbackSha256 = ai_sha256 r,
       mb_manifestPath = pi_manifestPath i, mb_manifestSha256 = pi_manifestSha256 i,
       mb_wrapperPath = pi_wrapperPath i, mb_wrapperSha256 = pi_wrapperSha256 i,
       mb_canonicalizationVersion = gi_canonicalizationVersion g,
       mb_candidateCanonicalSha256 = ai_canonicalSha256 c, mb_rollbackCanonicalSha256 = ai_canonicalSha256 r,
       mb_expectedLiveCanonicalSha256 = mf_expectedLiveCanonicalSha256 f,
       mb_apiOriginFingerprint = (if truthy (pi_apiOriginFingerprint i) then pi_apiOriginFingerprint i else None)\<rparr>)"

definition prepared_operation :: "prepare_input \<Rightarrow> migration_operation" where
  "prepared_operation i =
     \<lparr>mo_operationId = pi_operationId i, mo_status = MPrepared, mo_binding = prepare_binding i,
      mo_confirmationTokenHash = None, mo_confirmationExpiresAt = pi_confirmationExpiresAt i,
      mo_confirmationConsumedAt = None, mo_createdAt = pi_now i, mo_updatedAt = pi_now i, mo_lease = None,
      mo_candidateUpdateRequests = 0, mo_rollbackUpdateRequests = 0, mo_readbackRequests = 0,
      mo_reason = None, mo_reasonCode = Some PREPARED,
      mo_evidence = Some (no_evidence\<lparr>ev_protectedDomains := Some DomainsUnchanged\<rparr>)\<rparr>"

record public_evidence =
  pv_operationId :: string
  pv_status :: migration_status
  pv_sourceId :: string
  pv_workflowId :: string
  pv_mode :: migration_mode
  pv_grantId :: string
  pv_grantVersion :: int
  pv_candidatePath :: string
  pv_candidateSha256 :: string
  pv_rollbackPath :: string
  pv_rollbackSha256 :: string
  pv_manifestPath :: string
  pv_manifestSha256 :: string
  pv_wrapperSha256 :: string
  pv_canonicalizationVersion :: int
  pv_candidateCanonicalSha256 :: string
  pv_rollbackCanonicalSha256 :: string
  pv_expectedLiveCanonicalSha256 :: string
  pv_apiOriginFingerprint :: "string option"
  pv_confirmationExpiresAt :: string

definition public_evidence_of :: "string \<Rightarrow> migration_status \<Rightarrow> migration_binding \<Rightarrow> string \<Rightarrow> public_evidence" where
  "public_evidence_of operationId status b expiresAt =
     \<lparr>pv_operationId = operationId, pv_status = status, pv_sourceId = mb_sourceId b,
      pv_workflowId = mb_workflowId b, pv_mode = mb_mode b, pv_grantId = mb_grantId b,
      pv_grantVersion = mb_grantVersion b, pv_candidatePath = mb_candidatePath b,
      pv_candidateSha256 = mb_candidateSha256 b, pv_rollbackPath = mb_rollbackPath b,
      pv_rollbackSha256 = mb_rollbackSha256 b, pv_manifestPath = mb_manifestPath b,
      pv_manifestSha256 = mb_manifestSha256 b, pv_wrapperSha256 = mb_wrapperSha256 b,
      pv_canonicalizationVersion = mb_canonicalizationVersion b,
      pv_candidateCanonicalSha256 = mb_candidateCanonicalSha256 b,
      pv_rollbackCanonicalSha256 = mb_rollbackCanonicalSha256 b,
      pv_expectedLiveCanonicalSha256 = mb_expectedLiveCanonicalSha256 b,
      pv_apiOriginFingerprint = (if truthy (mb_apiOriginFingerprint b) then mb_apiOriginFingerprint b else None),
      pv_confirmationExpiresAt = expiresAt\<rparr>"

datatype prepare_decision =
    PrepareAllowed migration_operation public_evidence "migration_effect list"
  | PrepareRefused migration_reason "(migration_reason \<times> string) list" "migration_effect list"

definition prepare_controlled_workflow_migration :: "prepare_input \<Rightarrow> prepare_decision" where
  "prepare_controlled_workflow_migration i =
     (case prepare_issues i of
        (code, field) # rest \<Rightarrow> PrepareRefused code ((code, field) # rest) [NoEffect]
      | [] \<Rightarrow> PrepareAllowed (prepared_operation i)
               (public_evidence_of (pi_operationId i) MPrepared (prepare_binding i) (pi_confirmationExpiresAt i))
               [PersistOperation (prepared_operation i)])"

section \<open>The handlers of the events\<close>

definition handle_confirmation_result ::
  "migration_operation \<Rightarrow> confirmation_result \<Rightarrow> string \<Rightarrow> advance_decision" where
  "handle_confirmation_result m r tm =
     (if mo_status m \<noteq> MPrepared
      then no_change m (if r = ConfReplayed \<or> truthy (mo_confirmationConsumedAt m) then CONFIRMATION_REPLAYED
                        else INVALID_TRANSITION) False
      else if r = ConfExpired \<or> is_expired (mo_confirmationExpiresAt m) tm
      then let x = transition m MExpired tm CONFIRMATION_EXPIRED
           in with_effects x CONFIRMATION_EXPIRED [PersistOperation x]
      else if truthy (mo_confirmationConsumedAt m) \<or> r = ConfReplayed then no_change m CONFIRMATION_REPLAYED False
      else if r = ConfMissing then no_change m M_CONFIRMATION_REQUIRED False
      else if r = ConfInvalid then no_change m CONFIRMATION_INVALID False
      else let q = transition (m\<lparr>mo_confirmationConsumedAt := Some tm\<rparr>) MQueued tm CONFIRMATION_CONSUMED
           in with_effects q CONFIRMATION_CONSUMED (persist_then q
                [AcquireLease (mo_operationId q) (mb_sourceId (mo_binding q)) (mb_workflowId (mo_binding q))]))"

definition handle_lease_result :: "migration_operation \<Rightarrow> lease_result \<Rightarrow> string \<Rightarrow> advance_decision" where
  "handle_lease_result m r tm =
     (if mo_status m \<noteq> MQueued then no_change m INVALID_TRANSITION False
      else if \<not> truthy (mo_confirmationConsumedAt m) then no_change m M_CONFIRMATION_REQUIRED False
      else if r = LeaseConflicted then no_change m LEASE_CONFLICT False
      else let x = transition (m\<lparr>mo_readbackRequests := mo_readbackRequests m + 1\<rparr>) MRunning tm LEASE_ACQUIRED
           in with_effects x LEASE_ACQUIRED (persist_then x
                [ReadLiveWorkflow (mo_operationId x) (mb_workflowId (mo_binding x)) PurposePrecondition
                   (mb_expectedLiveCanonicalSha256 (mo_binding x))]))"

definition handle_precondition_readback :: "migration_operation \<Rightarrow> readback \<Rightarrow> string \<Rightarrow> advance_decision" where
  "handle_precondition_readback m r tm =
     (if mo_status m \<noteq> MRunning \<or> mo_candidateUpdateRequests m \<noteq> 0 \<or> mo_rollbackUpdateRequests m \<noteq> 0
      then no_change m INVALID_TRANSITION False
      else if foreign_read m r then no_change m INVALID_TRANSITION False
      else let m' = m\<lparr>mo_evidence := Some (read_evidence m r)\<rparr>; b = mo_binding m in
        if rd_result r \<noteq> MatchesPreMutation
        then let code = (if rd_result r = ReadUnavailable then PRECONDITION_UNAVAILABLE else PRECONDITION_MISMATCH);
                 x = transition m' MFailed tm code
             in with_effects x code (release_effects x)
        else let x = transition m' MRunning tm PRECONDITION_CONFIRMED in
          with_effects x PRECONDITION_CONFIRMED (persist_then x
            [if mb_mode b = ModeApply
             then ReserveCandidateDispatch (mo_operationId m) (mb_sourceId b) (mb_workflowId b)
                    (mb_candidateSha256 b) (mb_wrapperSha256 b)
             else ReserveRollbackDispatch (mo_operationId m) (mb_sourceId b) (mb_workflowId b)
                    (mb_rollbackSha256 b) (mb_wrapperSha256 b)]))"

definition dispatch_failure :: "migration_operation \<Rightarrow> dispatch_result \<Rightarrow> string \<Rightarrow> advance_decision" where
  "dispatch_failure m r tm =
     (let code = (if r = DispConflict then DISPATCH_CONFLICT
                  else if r = DispReplayed then DISPATCH_REPLAYED else DISPATCH_STORE_CORRUPT);
          x = transition m MManualIntervention tm code
      in with_effects x code (release_effects x))"

definition handle_candidate_dispatch_reserved ::
  "migration_operation \<Rightarrow> dispatch_result \<Rightarrow> string \<Rightarrow> advance_decision" where
  "handle_candidate_dispatch_reserved m r tm =
     (if mo_status m \<noteq> MRunning \<or> mb_mode (mo_binding m) \<noteq> ModeApply \<or> mo_candidateUpdateRequests m \<noteq> 0
      then no_change m INVALID_TRANSITION False
      else if r \<noteq> DispReserved then dispatch_failure m r tm
      else let x = transition (m\<lparr>mo_candidateUpdateRequests := 1\<rparr>) MRunning tm CANDIDATE_DISPATCH_RESERVED
           in with_effects x CANDIDATE_DISPATCH_RESERVED (persist_then x
                [ApplyCandidate (mo_operationId x) (mb_workflowId (mo_binding x)) (mb_candidatePath (mo_binding x))
                   (mb_candidateSha256 (mo_binding x))]))"

definition standalone_rollback :: "migration_operation \<Rightarrow> bool" where
  "standalone_rollback m = (mb_mode (mo_binding m) = ModeRollback \<and> mo_status m = MRunning)"

definition automatic_rollback :: "migration_operation \<Rightarrow> bool" where
  "automatic_rollback m = (mb_mode (mo_binding m) = ModeApply \<and> mo_status m = MRollingBack)"

definition handle_rollback_dispatch_reserved ::
  "migration_operation \<Rightarrow> dispatch_result \<Rightarrow> string \<Rightarrow> advance_decision" where
  "handle_rollback_dispatch_reserved m r tm =
     (if (\<not> standalone_rollback m \<and> \<not> automatic_rollback m) \<or> mo_rollbackUpdateRequests m \<noteq> 0
      then no_change m INVALID_TRANSITION False
      else if r \<noteq> DispReserved then dispatch_failure m r tm
      else let x = transition (m\<lparr>mo_rollbackUpdateRequests := 1\<rparr>) (mo_status m) tm ROLLBACK_DISPATCH_RESERVED
           in with_effects x ROLLBACK_DISPATCH_RESERVED (persist_then x
                [ApplyRollback (mo_operationId x) (mb_workflowId (mo_binding x)) (mb_rollbackPath (mo_binding x))
                   (mb_rollbackSha256 (mo_binding x)) (automatic_rollback m)]))"

primrec mutation_reason :: "mutation_result \<Rightarrow> migration_reason" where
  "mutation_reason MutNotStarted = CANDIDATE_MUTATION_NOT_STARTED"
| "mutation_reason MutSucceeded = CANDIDATE_MUTATION_SUCCEEDED"
| "mutation_reason MutDefinitivelyFailed = CANDIDATE_MUTATION_FAILED"
| "mutation_reason MutAmbiguous = CANDIDATE_MUTATION_AMBIGUOUS"
| "mutation_reason MutTimedOut = CANDIDATE_MUTATION_TIMED_OUT"

definition handle_mutation_result :: "migration_operation \<Rightarrow> mutation_result \<Rightarrow> string \<Rightarrow> advance_decision" where
  "handle_mutation_result m r tm =
     (if mo_status m \<noteq> MRunning \<or> mb_mode (mo_binding m) \<noteq> ModeApply \<or> mo_candidateUpdateRequests m \<noteq> 1
      then no_change m INVALID_TRANSITION False
      else let code = mutation_reason r;
               m' = m\<lparr>mo_evidence := Some ((current_evidence m)\<lparr>ev_mutationResult := Some r\<rparr>)\<rparr>
        in if r = MutNotStarted \<or> r = MutDefinitivelyFailed
           then let x = transition m' MFailed tm code in with_effects x code (release_effects x)
           else let x = transition (m'\<lparr>mo_readbackRequests := mo_readbackRequests m + 1\<rparr>) MReconciling tm code
                in with_effects x code (persist_then x
                     [ReadbackWorkflow (mo_operationId x) (mb_workflowId (mo_binding x))
                        (if r = MutSucceeded then ExpectCandidate else ExpectApprovedState)]))"

primrec rollback_reason :: "rollback_result \<Rightarrow> migration_reason" where
  "rollback_reason RbNotAttempted = ROLLBACK_NOT_ATTEMPTED"
| "rollback_reason RbSucceeded = ROLLBACK_MUTATION_SUCCEEDED"
| "rollback_reason RbDefinitivelyFailed = ROLLBACK_MUTATION_FAILED"
| "rollback_reason RbAmbiguous = ROLLBACK_MUTATION_AMBIGUOUS"
| "rollback_reason RbTimedOut = ROLLBACK_MUTATION_TIMED_OUT"

definition handle_rollback_result :: "migration_operation \<Rightarrow> rollback_result \<Rightarrow> string \<Rightarrow> advance_decision" where
  "handle_rollback_result m r tm =
     (if (\<not> standalone_rollback m \<and> \<not> automatic_rollback m) \<or> mo_rollbackUpdateRequests m \<noteq> 1
      then no_change m INVALID_TRANSITION False
      else let code = rollback_reason r;
               m' = m\<lparr>mo_evidence := Some ((current_evidence m)\<lparr>ev_rollbackResult := Some r\<rparr>)\<rparr>;
               again = m'\<lparr>mo_readbackRequests := mo_readbackRequests m + 1\<rparr>
        in if r = RbSucceeded
           then let x = transition again MRollingBack tm code
                in with_effects x code (persist_then x
                     [ReadbackWorkflow (mo_operationId x) (mb_workflowId (mo_binding x)) ExpectRollback])
           else if automatic_rollback m
           then let x = transition m' MManualIntervention tm code in with_effects x code (release_effects x)
           else if r = RbAmbiguous \<or> r = RbTimedOut
           then let x = transition again MReconciling tm code
                in with_effects x code (persist_then x
                     [ReadbackWorkflow (mo_operationId x) (mb_workflowId (mo_binding x)) ExpectApprovedState])
           else let x = transition m' MFailed tm code in with_effects x code (release_effects x))"

definition settle ::
  "migration_operation \<Rightarrow> migration_status \<Rightarrow> string \<Rightarrow> migration_reason \<Rightarrow> advance_decision" where
  "settle m st tm code = (let x = transition m st tm code in with_effects x code (release_effects x))"

definition handle_readback_result :: "migration_operation \<Rightarrow> readback \<Rightarrow> string \<Rightarrow> advance_decision" where
  "handle_readback_result m r tm =
     (if mo_status m \<noteq> MReconciling \<and> mo_status m \<noteq> MRollingBack then no_change m INVALID_TRANSITION False
      else if foreign_read m r then no_change m INVALID_TRANSITION False
      else let m' = m\<lparr>mo_evidence := Some (read_evidence m r)\<rparr>; b = mo_binding m;
               unread = (if rd_result r = ReadUnavailable then READBACK_UNAVAILABLE else READBACK_UNEXPECTED) in
        if mo_status m = MRollingBack
        then (if rd_result r = MatchesRollback then settle m' MRolledBack tm READBACK_ROLLBACK_CONFIRMED
              else settle m' MManualIntervention tm ROLLBACK_READBACK_FAILED)
        else if mb_mode b = ModeApply
        then (if rd_result r = MatchesCandidate then settle m' MCompleted tm READBACK_CANDIDATE_CONFIRMED
              else if rd_result r = MatchesRollback then settle m' MRolledBack tm READBACK_ROLLBACK_CONFIRMED
              else if rd_result r = MatchesPreMutation then settle m' MFailed tm READBACK_PRE_MUTATION_CONFIRMED
              else if rd_result r = UnexpectedState \<and> mo_rollbackUpdateRequests m = 0
              then let x = transition m' MRollingBack tm AUTOMATIC_ROLLBACK_REQUIRED
                   in with_effects x AUTOMATIC_ROLLBACK_REQUIRED (persist_then x
                        [ReserveRollbackDispatch (mo_operationId m) (mb_sourceId b) (mb_workflowId b)
                           (mb_rollbackSha256 b) (mb_wrapperSha256 b)])
              else settle m' MManualIntervention tm unread)
        else if rd_result r = MatchesRollback then settle m' MRolledBack tm READBACK_ROLLBACK_CONFIRMED
        else if rd_result r = MatchesPreMutation then settle m' MFailed tm READBACK_PRE_MUTATION_CONFIRMED
        else settle m' MManualIntervention tm unread)"

definition handle_lease_expired :: "migration_operation \<Rightarrow> string \<Rightarrow> advance_decision" where
  "handle_lease_expired m tm =
     (if mo_status m \<noteq> MRunning then no_change m INVALID_TRANSITION False
      else let x = transition (m\<lparr>mo_readbackRequests := mo_readbackRequests m + 1\<rparr>) MReconciling tm STALE_LEASE_RECONCILIATION
           in with_effects x STALE_LEASE_RECONCILIATION (persist_then x
                [ReadLiveWorkflow (mo_operationId x) (mb_workflowId (mo_binding x)) PurposeReconciliation
                   (mb_expectedLiveCanonicalSha256 (mo_binding x))]))"

definition handle_recovered_mutation :: "migration_operation \<Rightarrow> mutation_result \<Rightarrow> string \<Rightarrow> advance_decision" where
  "handle_recovered_mutation m r tm =
     (if mo_status m \<noteq> MReconciling then no_change m INVALID_TRANSITION False
      else if mb_mode (mo_binding m) \<noteq> ModeApply \<or> mo_candidateUpdateRequests m \<noteq> 1
           \<or> ev_mutationResult (current_evidence m) \<noteq> None
      then no_change m INVALID_TRANSITION False
      else handle_mutation_result (m\<lparr>mo_status := MRunning\<rparr>) r tm)"

definition handle_recovered_rollback :: "migration_operation \<Rightarrow> rollback_result \<Rightarrow> string \<Rightarrow> advance_decision" where
  "handle_recovered_rollback m r tm =
     (if mo_status m \<noteq> MReconciling then no_change m INVALID_TRANSITION False
      else if mo_rollbackUpdateRequests m \<noteq> 1 \<or> ev_rollbackResult (current_evidence m) \<noteq> None
      then no_change m INVALID_TRANSITION False
      else handle_rollback_result
             (m\<lparr>mo_status := (if mb_mode (mo_binding m) = ModeApply then MRollingBack else MRunning)\<rparr>) r tm)"

definition handle_recovery_resume :: "migration_operation \<Rightarrow> string \<Rightarrow> advance_decision" where
  "handle_recovery_resume m tm =
     (if mo_status m \<noteq> MReconciling \<and> mo_status m \<noteq> MRollingBack then no_change m INVALID_TRANSITION False
      else let expects_rollback = (mo_status m = MRollingBack
                 \<or> (mo_rollbackUpdateRequests m = 1 \<and> ev_rollbackResult (current_evidence m) = Some RbSucceeded));
               x = transition (m\<lparr>mo_readbackRequests := mo_readbackRequests m + 1\<rparr>) (mo_status m) tm STALE_LEASE_RECONCILIATION
           in with_effects x STALE_LEASE_RECONCILIATION (persist_then x
                [ReadbackWorkflow (mo_operationId x) (mb_workflowId (mo_binding x))
                   (if expects_rollback then ExpectRollback else ExpectApprovedState)]))"

primrec event_time :: "migration_event \<Rightarrow> string" where
  "event_time (ConfirmationResult r tm) = tm"
| "event_time (LeaseResult r tm) = tm"
| "event_time (PreconditionReadback r tm) = tm"
| "event_time (CandidateDispatchReserved r tm) = tm"
| "event_time (RollbackDispatchReserved r tm) = tm"
| "event_time (MutationResult r tm) = tm"
| "event_time (RollbackResult r tm) = tm"
| "event_time (ReadbackResult r tm) = tm"
| "event_time (LeaseExpiredEvent tm) = tm"
| "event_time (RecoveredMutation r tm) = tm"
| "event_time (RecoveredRollback r tm) = tm"
| "event_time (RecoveryResume tm) = tm"

primrec handle_event :: "migration_event \<Rightarrow> migration_operation \<Rightarrow> advance_decision" where
  "handle_event (ConfirmationResult r tm) m = handle_confirmation_result m r tm"
| "handle_event (LeaseResult r tm) m = handle_lease_result m r tm"
| "handle_event (PreconditionReadback r tm) m = handle_precondition_readback m r tm"
| "handle_event (CandidateDispatchReserved r tm) m = handle_candidate_dispatch_reserved m r tm"
| "handle_event (RollbackDispatchReserved r tm) m = handle_rollback_dispatch_reserved m r tm"
| "handle_event (MutationResult r tm) m = handle_mutation_result m r tm"
| "handle_event (RollbackResult r tm) m = handle_rollback_result m r tm"
| "handle_event (ReadbackResult r tm) m = handle_readback_result m r tm"
| "handle_event (LeaseExpiredEvent tm) m = handle_lease_expired m tm"
| "handle_event (RecoveredMutation r tm) m = handle_recovered_mutation m r tm"
| "handle_event (RecoveredRollback r tm) m = handle_recovered_rollback m r tm"
| "handle_event (RecoveryResume tm) m = handle_recovery_resume m tm"

definition advance_controlled_workflow_migration :: "migration_operation \<Rightarrow> migration_event \<Rightarrow> advance_decision" where
  "advance_controlled_workflow_migration m e =
     (if terminal_status (mo_status m) then no_change m TERMINAL_STATE True
      else if mo_status m = MPrepared \<and> is_expired (mo_confirmationExpiresAt m) (event_time e)
      then let x = transition m MExpired (event_time e) CONFIRMATION_EXPIRED
           in with_effects x CONFIRMATION_EXPIRED [PersistOperation x]
      else handle_event e m)"

section \<open>The status shown to callers\<close>

record status_projection =
  sp_operationId :: string
  sp_status :: migration_status
  sp_sourceId :: string
  sp_workflowId :: string
  sp_mode :: migration_mode
  sp_grantId :: string
  sp_grantVersion :: int
  sp_candidatePath :: string
  sp_candidateSha256 :: string
  sp_rollbackPath :: string
  sp_rollbackSha256 :: string
  sp_manifestPath :: string
  sp_manifestSha256 :: string
  sp_wrapperSha256 :: string
  sp_expectedLive :: string
  sp_candidateCanonical :: string
  sp_rollbackCanonical :: string
  sp_observedCanonical :: "string option"
  sp_candidateUpdate :: nat
  sp_rollbackUpdate :: nat
  sp_readback :: int
  sp_protectedDomains :: domain_state
  sp_protectedDomainMismatches :: "protected_domain list option"
  sp_confirmationExpiresAt :: string
  sp_createdAt :: string
  sp_updatedAt :: string
  sp_reasonCode :: "migration_reason option"
  sp_mutationResult :: "mutation_result option"
  sp_readbackResult :: "readback_result option"
  sp_rollbackResult :: "rollback_result option"
  sp_durationMs :: "int option"
  sp_executorClassification :: "executor_classification option"
  sp_executorReasonCode :: "executor_reason option"
  sp_executorExitCode :: exit_code
  sp_readPurpose :: "read_purpose option"
  sp_executorOperationId :: "string option"
  sp_executorWorkflowId :: "string option"

definition js_trunc :: "rat \<Rightarrow> int" where
  "js_trunc q = (if 0 \<le> q then \<lfloor>q\<rfloor> else \<lceil>q\<rceil>)"

definition project_migration_status :: "migration_operation \<Rightarrow> status_projection" where
  "project_migration_status m =
     (let e = current_evidence m; b = mo_binding m in
      \<lparr>sp_operationId = mo_operationId m, sp_status = mo_status m, sp_sourceId = mb_sourceId b,
       sp_workflowId = mb_workflowId b, sp_mode = mb_mode b, sp_grantId = mb_grantId b,
       sp_grantVersion = mb_grantVersion b, sp_candidatePath = mb_candidatePath b,
       sp_candidateSha256 = mb_candidateSha256 b, sp_rollbackPath = mb_rollbackPath b,
       sp_rollbackSha256 = mb_rollbackSha256 b, sp_manifestPath = mb_manifestPath b,
       sp_manifestSha256 = mb_manifestSha256 b, sp_wrapperSha256 = mb_wrapperSha256 b,
       sp_expectedLive = mb_expectedLiveCanonicalSha256 b,
       sp_candidateCanonical = mb_candidateCanonicalSha256 b,
       sp_rollbackCanonical = mb_rollbackCanonicalSha256 b,
       sp_observedCanonical =
         (if is_sha256 (ev_observedCanonicalSha256 e) then ev_observedCanonicalSha256 e else None),
       sp_candidateUpdate = mo_candidateUpdateRequests m, sp_rollbackUpdate = mo_rollbackUpdateRequests m,
       sp_readback = max 0 (min (mo_readbackRequests m) 10000),
       sp_protectedDomains = (case ev_protectedDomains e of None \<Rightarrow> DomainsUnverified | Some d \<Rightarrow> d),
       sp_protectedDomainMismatches =
         (case ev_protectedDomainMismatches e of None \<Rightarrow> None
          | Some ds \<Rightarrow> if ds = [] then None else Some ds),
       sp_confirmationExpiresAt = mo_confirmationExpiresAt m, sp_createdAt = mo_createdAt m,
       sp_updatedAt = mo_updatedAt m, sp_reasonCode = mo_reasonCode m,
       sp_mutationResult = ev_mutationResult e, sp_readbackResult = ev_readbackResult e,
       sp_rollbackResult = ev_rollbackResult e,
       sp_durationMs = map_option (\<lambda>q. max 0 (min (js_trunc q) 900000)) (ev_durationMs e),
       sp_executorClassification = ev_executorClassification e, sp_executorReasonCode = ev_executorReasonCode e,
       sp_executorExitCode =
         (case ev_executorExitCode e of ExitCode n \<Rightarrow> ExitCode (max (- 255) (min 255 n)) | x \<Rightarrow> x),
       sp_readPurpose = ev_readPurpose e,
       sp_executorOperationId =
         (if ev_executorOperationId e = Some (mo_operationId m) then ev_executorOperationId e else None),
       sp_executorWorkflowId =
         (if ev_executorWorkflowId e = Some (mb_workflowId b) then ev_executorWorkflowId e else None)\<rparr>)"

section \<open>One step\<close>

definition applies_candidate :: "migration_effect \<Rightarrow> bool" where
  "applies_candidate x = (case x of ApplyCandidate i w p h \<Rightarrow> True | _ \<Rightarrow> False)"

definition applies_rollback :: "migration_effect \<Rightarrow> bool" where
  "applies_rollback x = (case x of ApplyRollback i w p h b \<Rightarrow> True | _ \<Rightarrow> False)"

definition own_effect :: "migration_operation \<Rightarrow> migration_effect \<Rightarrow> bool" where
  "own_effect m x =
     (case x of
        ApplyCandidate i w p h \<Rightarrow> mb_mode (mo_binding m) = ModeApply \<and> i = mo_operationId m
          \<and> w = mb_workflowId (mo_binding m) \<and> p = mb_candidatePath (mo_binding m) \<and> h = mb_candidateSha256 (mo_binding m)
      | ApplyRollback i w p h b \<Rightarrow> i = mo_operationId m \<and> w = mb_workflowId (mo_binding m)
          \<and> p = mb_rollbackPath (mo_binding m) \<and> h = mb_rollbackSha256 (mo_binding m)
          \<and> b = (mb_mode (mo_binding m) = ModeApply)
      | _ \<Rightarrow> True)"

definition same_identity :: "migration_operation \<Rightarrow> migration_operation \<Rightarrow> bool" where
  "same_identity m x =
     (mo_operationId x = mo_operationId m \<and> mo_binding x = mo_binding m \<and> mo_createdAt x = mo_createdAt m
      \<and> mo_confirmationExpiresAt x = mo_confirmationExpiresAt m)"

text \<open>What is known of an operation in each of its states.\<close>

definition migration_inv :: "migration_operation \<Rightarrow> bool" where
  "migration_inv m =
     ((if mo_status m \<in> {MPrepared, MExpired}
       then mo_candidateUpdateRequests m = 0 \<and> mo_rollbackUpdateRequests m = 0
       else \<exists>t. mo_confirmationConsumedAt m = Some t \<and> \<not> is_expired (mo_confirmationExpiresAt m) t)
      \<and> (mo_status m = MCompleted \<longrightarrow> mb_mode (mo_binding m) = ModeApply
            \<and> ev_readbackResult (current_evidence m) = Some MatchesCandidate)
      \<and> (mo_status m = MRolledBack \<longrightarrow> ev_readbackResult (current_evidence m) = Some MatchesRollback))"

lemmas step_defs = transition_def no_change_def with_effects_def persist_then_def release_effects_def settle_def
  standalone_rollback_def automatic_rollback_def dispatch_failure_def

lemmas effect_defs = applies_candidate_def applies_rollback_def own_effect_def

lemmas handler_defs = handle_confirmation_result_def handle_lease_result_def handle_precondition_readback_def
  handle_candidate_dispatch_reserved_def handle_rollback_dispatch_reserved_def handle_mutation_result_def
  handle_rollback_result_def handle_readback_result_def handle_lease_expired_def handle_recovered_mutation_def
  handle_recovered_rollback_def handle_recovery_resume_def

lemma handle_same_identity: "same_identity m (ad_operation (handle_event e m))"
  by (cases e) (simp_all add: handler_defs step_defs same_identity_def Let_def)

lemma handle_transition: "is_state_transition (mo_status m) (mo_status (ad_operation (handle_event e m)))"
  by (cases "mo_status m"; cases e; cases "mb_mode (mo_binding m)")
     (simp_all add: handler_defs step_defs is_state_transition_def Let_def)

lemma handle_counts:
  "mo_candidateUpdateRequests (ad_operation (handle_event e m))
     = mo_candidateUpdateRequests m + length (filter applies_candidate (ad_effects (handle_event e m)))"
  "mo_rollbackUpdateRequests (ad_operation (handle_event e m))
     = mo_rollbackUpdateRequests m + length (filter applies_rollback (ad_effects (handle_event e m)))"
  by (cases e; simp add: handler_defs step_defs effect_defs Let_def)+

lemma handle_own_effects: "x \<in> set (ad_effects (handle_event e m)) \<Longrightarrow> own_effect m x"
  by (cases e; auto simp: handler_defs step_defs effect_defs Let_def split: if_splits)

lemma handle_apply_status:
  "x \<in> set (ad_effects (handle_event e m)) \<Longrightarrow> applies_candidate x \<or> applies_rollback x \<Longrightarrow>
   mo_status m \<notin> {MPrepared, MExpired}"
  by (cases e; auto simp: handler_defs step_defs effect_defs Let_def split: if_splits)

lemma current_evidence_update [simp]:
  "current_evidence (m\<lparr>mo_evidence := Some e\<rparr>) = e"
  "current_evidence (m\<lparr>mo_status := st\<rparr>) = current_evidence m"
  "current_evidence (m\<lparr>mo_updatedAt := t\<rparr>) = current_evidence m"
  "current_evidence (m\<lparr>mo_reasonCode := r\<rparr>) = current_evidence m"
  "current_evidence (m\<lparr>mo_readbackRequests := n\<rparr>) = current_evidence m"
  by (simp_all add: current_evidence_def)

lemma read_evidence_result [simp]: "ev_readbackResult (read_evidence m r) = Some (rd_result r)"
  by (simp add: read_evidence_def Let_def)

definition confirmed :: "migration_operation \<Rightarrow> bool" where
  "confirmed m = (\<exists>t. mo_confirmationConsumedAt m = Some t \<and> \<not> is_expired (mo_confirmationExpiresAt m) t)"

text \<open>Outside the prepared state a step keeps the confirmation as it is.\<close>

lemma handle_keeps_confirmation:
  "mo_status m \<noteq> MPrepared \<Longrightarrow>
   mo_confirmationConsumedAt (ad_operation (handle_event e m)) = mo_confirmationConsumedAt m"
  by (cases e; simp add: handler_defs step_defs Let_def)

lemma handle_prepared:
  assumes "mo_status m = MPrepared" "\<not> is_expired (mo_confirmationExpiresAt m) (event_time e)"
  shows "ad_operation (handle_event e m) = m \<or> mo_status (ad_operation (handle_event e m)) = MExpired
    \<or> (mo_status (ad_operation (handle_event e m)) = MQueued \<and> confirmed (ad_operation (handle_event e m)))"
  using assms by (cases e; simp add: handler_defs step_defs confirmed_def Let_def)

lemma handle_expired: "mo_status (ad_operation (handle_event e m)) = MExpired \<Longrightarrow> mo_status m \<in> {MPrepared, MExpired}"
  by (cases e; auto simp: handler_defs step_defs Let_def split: if_splits)

lemma handle_completed:
  "mo_status (ad_operation (handle_event e m)) = MCompleted \<Longrightarrow> mo_status m \<noteq> MCompleted \<Longrightarrow>
   mb_mode (mo_binding m) = ModeApply
   \<and> ev_readbackResult (current_evidence (ad_operation (handle_event e m))) = Some MatchesCandidate"
  by (cases e; auto simp: handler_defs step_defs Let_def split: if_splits)

lemma handle_rolled_back:
  "mo_status (ad_operation (handle_event e m)) = MRolledBack \<Longrightarrow> mo_status m \<noteq> MRolledBack \<Longrightarrow>
   ev_readbackResult (current_evidence (ad_operation (handle_event e m))) = Some MatchesRollback"
  by (cases e; auto simp: handler_defs step_defs Let_def split: if_splits)

lemma handle_not_prepared: "mo_status (ad_operation (handle_event e m)) = MPrepared \<Longrightarrow> mo_status m = MPrepared"
  by (cases e; auto simp: handler_defs step_defs Let_def split: if_splits)

lemma handle_inv:
  assumes inv: "migration_inv m" and live: "\<not> terminal_status (mo_status m)"
    and time: "mo_status m = MPrepared \<longrightarrow> \<not> is_expired (mo_confirmationExpiresAt m) (event_time e)"
  shows "migration_inv (ad_operation (handle_event e m))"
proof -
  let ?x = "ad_operation (handle_event e m)"
  have busy: "mo_status m \<notin> {MCompleted, MRolledBack, MFailed, MManualIntervention, MExpired}"
    using live by (simp add: terminal_status_def)
  have evidence: "mo_status ?x = MCompleted \<longrightarrow> mb_mode (mo_binding ?x) = ModeApply
        \<and> ev_readbackResult (current_evidence ?x) = Some MatchesCandidate"
    "mo_status ?x = MRolledBack \<longrightarrow> ev_readbackResult (current_evidence ?x) = Some MatchesRollback"
    using busy handle_completed handle_rolled_back handle_same_identity [of m e]
    by (auto simp: same_identity_def)
  show ?thesis
  proof (cases "mo_status m = MPrepared")
    case True
    then have zero: "mo_candidateUpdateRequests m = 0" "mo_rollbackUpdateRequests m = 0"
      using inv by (simp_all add: migration_inv_def)
    have "filter applies_candidate (ad_effects (handle_event e m)) = []"
      "filter applies_rollback (ad_effects (handle_event e m)) = []"
      using handle_apply_status True by (auto simp: filter_empty_conv)
    then have "mo_candidateUpdateRequests ?x = 0" "mo_rollbackUpdateRequests ?x = 0"
      using handle_counts [of e m] zero by simp_all
    moreover have "?x = m \<or> mo_status ?x = MExpired \<or> (mo_status ?x = MQueued \<and> confirmed ?x)"
      using handle_prepared [OF True, of e] time True by simp
    ultimately show ?thesis using inv evidence by (elim disjE) (simp_all add: migration_inv_def confirmed_def)
  next
    case False
    then have "mo_status ?x \<notin> {MPrepared, MExpired}"
      using handle_not_prepared handle_expired busy by blast
    moreover have "confirmed m" using inv False busy by (simp add: migration_inv_def confirmed_def)
    then have "confirmed ?x"
      using handle_keeps_confirmation [OF False] handle_same_identity [of m e]
      by (simp add: confirmed_def same_identity_def)
    ultimately show ?thesis using evidence by (simp add: migration_inv_def confirmed_def)
  qed
qed

section \<open>Any sequence of events\<close>

lemma advance_cases:
  obtains (settled) "terminal_status (mo_status m)"
      "advance_controlled_workflow_migration m e = no_change m TERMINAL_STATE True"
    | (expires) "mo_status m = MPrepared"
      "advance_controlled_workflow_migration m e =
         with_effects (transition m MExpired (event_time e) CONFIRMATION_EXPIRED) CONFIRMATION_EXPIRED
           [PersistOperation (transition m MExpired (event_time e) CONFIRMATION_EXPIRED)]"
    | (handled) "\<not> terminal_status (mo_status m)"
      "mo_status m = MPrepared \<longrightarrow> \<not> is_expired (mo_confirmationExpiresAt m) (event_time e)"
      "advance_controlled_workflow_migration m e = handle_event e m"
proof (cases "terminal_status (mo_status m)")
  case True
  then show ?thesis using settled by (simp add: advance_controlled_workflow_migration_def)
next
  case False
  then show ?thesis
    using expires handled
    by (cases "mo_status m = MPrepared \<and> is_expired (mo_confirmationExpiresAt m) (event_time e)")
       (auto simp: advance_controlled_workflow_migration_def Let_def)
qed

lemma advance_inv: "migration_inv m \<Longrightarrow> migration_inv (ad_operation (advance_controlled_workflow_migration m e))"
proof (cases rule: advance_cases [of m e])
  case expires
  moreover assume "migration_inv m"
  ultimately show ?thesis by (simp add: migration_inv_def step_defs)
next
  case handled
  moreover assume "migration_inv m"
  ultimately show ?thesis by (simp add: handle_inv)
qed (simp add: no_change_def)

lemma advance_same_identity: "same_identity m (ad_operation (advance_controlled_workflow_migration m e))"
  by (cases rule: advance_cases [of m e]) (simp_all add: handle_same_identity, simp_all add: same_identity_def step_defs)

lemma advance_counts_both:
  "mo_candidateUpdateRequests (ad_operation (advance_controlled_workflow_migration m e))
     = mo_candidateUpdateRequests m + length (filter applies_candidate (ad_effects (advance_controlled_workflow_migration m e)))
   \<and> mo_rollbackUpdateRequests (ad_operation (advance_controlled_workflow_migration m e))
     = mo_rollbackUpdateRequests m + length (filter applies_rollback (ad_effects (advance_controlled_workflow_migration m e)))"
  by (cases rule: advance_cases [of m e]) (simp_all add: handle_counts, simp_all add: step_defs effect_defs)

lemmas advance_counts = advance_counts_both [THEN conjunct1] advance_counts_both [THEN conjunct2]

lemma advance_effects:
  assumes "migration_inv m" "x \<in> set (ad_effects (advance_controlled_workflow_migration m e))"
    "applies_candidate x \<or> applies_rollback x"
  shows "own_effect m x \<and> confirmed m"
proof (cases rule: advance_cases [of m e])
  case handled
  with assms have "own_effect m x" "mo_status m \<notin> {MPrepared, MExpired}"
    using handle_own_effects handle_apply_status by auto
  with assms(1) show ?thesis by (auto simp: migration_inv_def confirmed_def)
qed (use assms(2,3) in \<open>auto simp: step_defs effect_defs\<close>)

fun run_migration :: "migration_operation \<Rightarrow> migration_event list \<Rightarrow> migration_operation \<times> migration_effect list" where
  "run_migration m [] = (m, [])"
| "run_migration m (e # es) =
     (let d = advance_controlled_workflow_migration m e; (m', effects) = run_migration (ad_operation d) es
      in (m', ad_effects d @ effects))"

lemma run_migration_Cons:
  "fst (run_migration m (e # es)) = fst (run_migration (ad_operation (advance_controlled_workflow_migration m e)) es)"
  "snd (run_migration m (e # es)) = ad_effects (advance_controlled_workflow_migration m e)
     @ snd (run_migration (ad_operation (advance_controlled_workflow_migration m e)) es)"
  by (simp_all add: Let_def split: prod.split)

lemma run_inv: "migration_inv m \<Longrightarrow> migration_inv (fst (run_migration m es))"
  by (induction es arbitrary: m) (simp, simp only: run_migration_Cons advance_inv)

lemma run_same_identity: "same_identity m (fst (run_migration m es))"
proof (induction es arbitrary: m)
  case (Cons e es)
  show ?case
    using advance_same_identity [of m e] Cons.IH [of "ad_operation (advance_controlled_workflow_migration m e)"]
    unfolding run_migration_Cons by (simp add: same_identity_def)
qed (simp add: same_identity_def)

lemma run_counts:
  "mo_candidateUpdateRequests (fst (run_migration m es))
     = mo_candidateUpdateRequests m + length (filter applies_candidate (snd (run_migration m es)))"
  "mo_rollbackUpdateRequests (fst (run_migration m es))
     = mo_rollbackUpdateRequests m + length (filter applies_rollback (snd (run_migration m es)))"
  by (induction es arbitrary: m) (simp_all only: run_migration_Cons advance_counts filter_append length_append, simp_all)

definition dispatched_once :: "migration_operation \<Rightarrow> bool" where
  "dispatched_once m = (mo_candidateUpdateRequests m \<le> 1 \<and> mo_rollbackUpdateRequests m \<le> 1)"

lemma handle_dispatched_once: "dispatched_once m \<Longrightarrow> dispatched_once (ad_operation (handle_event e m))"
  by (cases e; simp add: handler_defs step_defs dispatched_once_def Let_def)

lemma advance_dispatched_once:
  "dispatched_once m \<Longrightarrow> dispatched_once (ad_operation (advance_controlled_workflow_migration m e))"
  by (cases rule: advance_cases [of m e]) (simp_all add: handle_dispatched_once, simp_all add: step_defs dispatched_once_def)

lemma run_dispatched_once: "dispatched_once m \<Longrightarrow> dispatched_once (fst (run_migration m es))"
  by (induction es arbitrary: m) (simp, simp only: run_migration_Cons advance_dispatched_once)

lemma run_effects:
  assumes "migration_inv m" "x \<in> set (snd (run_migration m es))" "applies_candidate x \<or> applies_rollback x"
  shows "own_effect m x"
  using assms(1,2)
proof (induction es arbitrary: m)
  case (Cons e es)
  let ?d = "advance_controlled_workflow_migration m e"
  have same: "same_identity m (ad_operation ?d)" by (rule advance_same_identity)
  from Cons.prems(2) consider "x \<in> set (ad_effects ?d)" | "x \<in> set (snd (run_migration (ad_operation ?d) es))"
    unfolding run_migration_Cons by auto
  then show ?case
  proof cases
    case 1
    with advance_effects [OF Cons.prems(1) _ assms(3)] show ?thesis by blast
  next
    case 2
    from Cons.IH [OF advance_inv [OF Cons.prems(1)] this] same show ?thesis
      by (cases x) (simp_all add: same_identity_def own_effect_def)
  qed
qed simp

section \<open>Prepared operations\<close>

lemma prepared_cases:
  assumes "prepare_controlled_workflow_migration i = PrepareAllowed m pub effects"
  shows "m = prepared_operation i" "prepare_issues i = []"
  using assms by (auto simp: prepare_controlled_workflow_migration_def split: list.splits prod.splits)

lemma prepare_issues_none: "prepare_issues i = [] \<longleftrightarrow> (\<forall>c \<in> set (prepare_checks i). \<not> fst c)"
  by (auto simp: prepare_issues_def filter_empty_conv)

lemma prepared_inv: "migration_inv (prepared_operation i)" "dispatched_once (prepared_operation i)"
  by (simp_all add: migration_inv_def dispatched_once_def prepared_operation_def)

lemma prepared_bound:
  assumes "prepare_issues i = []"
  shows "ai_path (pi_candidate i) = mf_candidatePath (pi_manifest i)"
    "ai_sha256 (pi_candidate i) = mf_candidateSha256 (pi_manifest i)"
    "ai_path (pi_rollback i) = mf_rollbackPath (pi_manifest i)"
    "ai_sha256 (pi_rollback i) = mf_rollbackSha256 (pi_manifest i)"
  using assms by (simp_all add: prepare_issues_none prepare_checks_def Let_def)

section \<open>Properties\<close>

definition sample_sha :: "char \<Rightarrow> string" where
  "sample_sha c = replicate 64 c"

definition sample_prepare :: prepare_input where
  "sample_prepare =
     \<lparr>pi_operationId = ''op'', pi_now = ''2026-01-01T12:00:00.000Z'',
      pi_confirmationExpiresAt = ''2026-01-01T12:10:00.000Z'', pi_sourceId = ''src'',
      pi_sourceRootFingerprint = sample_sha (CHR ''0''), pi_workflowId = ''wf'', pi_mode = ModeApply,
      pi_grant = \<lparr>gi_grantId = ''g'', gi_version = 1, gi_sourceId = ''src'', gi_workflowId = ''wf'',
        gi_wrapperPath = ''wrap'', gi_wrapperSha256 = sample_sha (CHR ''1''), gi_canonicalizationVersion = 2,
        gi_apiOriginFingerprint = None\<rparr>,
      pi_manifest = \<lparr>mf_workflowId = ''wf'', mf_canonicalizationVersion = 2,
        mf_expectedLiveCanonicalSha256 = sample_sha (CHR ''2''), mf_candidateCanonicalSha256 = sample_sha (CHR ''3''),
        mf_rollbackCanonicalSha256 = sample_sha (CHR ''2''), mf_candidatePath = ''c.json'',
        mf_candidateSha256 = sample_sha (CHR ''4''), mf_rollbackPath = ''r.json'', mf_rollbackSha256 = sample_sha (CHR ''5'')\<rparr>,
      pi_manifestPath = ''m.json'', pi_manifestSha256 = sample_sha (CHR ''6''),
      pi_candidate = \<lparr>ai_path = ''c.json'', ai_sha256 = sample_sha (CHR ''4''), ai_canonicalSha256 = sample_sha (CHR ''3'')\<rparr>,
      pi_rollback = \<lparr>ai_path = ''r.json'', ai_sha256 = sample_sha (CHR ''5''), ai_canonicalSha256 = sample_sha (CHR ''2'')\<rparr>,
      pi_wrapperPath = ''wrap'', pi_wrapperSha256 = sample_sha (CHR ''1''), pi_apiOriginFingerprint = None\<rparr>"

definition plain_read :: "readback_result \<Rightarrow> readback" where
  "plain_read r =
     \<lparr>rd_result = r, rd_observedCanonicalSha256 = None, rd_protectedDomains = Some DomainsUnchanged,
      rd_protectedDomainMismatches = None, rd_executorClassification = None, rd_executorReasonCode = None,
      rd_executorExitCode = ExitAbsent, rd_readPurpose = None, rd_executorOperationId = None,
      rd_executorWorkflowId = None\<rparr>"

definition sample_time :: string where "sample_time = ''2026-01-01T12:05:00.000Z''"

definition sample_events :: "migration_event list" where
  "sample_events =
     [ConfirmationResult ConfConsumed sample_time, LeaseResult LeaseAcquired sample_time,
      PreconditionReadback (plain_read MatchesPreMutation) sample_time,
      CandidateDispatchReserved DispReserved sample_time, MutationResult MutSucceeded sample_time,
      ReadbackResult (plain_read MatchesCandidate) sample_time]"

lemma sample_prepared:
  "prepare_controlled_workflow_migration sample_prepare =
     PrepareAllowed (prepared_operation sample_prepare)
       (public_evidence_of ''op'' MPrepared (prepare_binding sample_prepare) ''2026-01-01T12:10:00.000Z'')
       [PersistOperation (prepared_operation sample_prepare)]"
proof -
  have "prepare_issues sample_prepare = []" by code_simp
  then show ?thesis by (simp add: prepare_controlled_workflow_migration_def sample_prepare_def)
qed

text \<open>
  C1. A live workflow is changed at most once in each direction, and only as approved: over any
  sequence of events, in any order and with any outcomes, an operation that was prepared asks
  the host to apply its candidate at most once and its rollback at most once; each such request
  names the operation, its workflow and the artifact of the manifest it was prepared with, a
  candidate is applied only in mode apply; and if either was requested, the confirmation was
  consumed before its expiry.
\<close>

theorem migration_dispatches_at_most_once:
  assumes "prepare_controlled_workflow_migration i = PrepareAllowed m pub effects0"
  shows "let (x, effects) = run_migration m events in
     length (filter applies_candidate effects) \<le> 1 \<and> length (filter applies_rollback effects) \<le> 1
     \<and> (\<forall>op w path sha. ApplyCandidate op w path sha \<in> set effects \<longrightarrow>
          pi_mode i = ModeApply \<and> op = pi_operationId i \<and> w = pi_workflowId i
          \<and> path = mf_candidatePath (pi_manifest i) \<and> sha = mf_candidateSha256 (pi_manifest i))
     \<and> (\<forall>op w path sha auto. ApplyRollback op w path sha auto \<in> set effects \<longrightarrow>
          op = pi_operationId i \<and> w = pi_workflowId i
          \<and> path = mf_rollbackPath (pi_manifest i) \<and> sha = mf_rollbackSha256 (pi_manifest i))
     \<and> (list_ex (\<lambda>e. applies_candidate e \<or> applies_rollback e) effects \<longrightarrow>
          (\<exists>t. mo_confirmationConsumedAt x = Some t \<and> \<not> is_expired (pi_confirmationExpiresAt i) t))"
proof -
  have m: "m = prepared_operation i" and issues: "prepare_issues i = []" using prepared_cases [OF assms] by simp_all
  let ?x = "fst (run_migration m events)" and ?effs = "snd (run_migration m events)"
  have zero: "mo_candidateUpdateRequests m = 0" "mo_rollbackUpdateRequests m = 0"
    by (simp_all add: m prepared_operation_def)
  have counts: "mo_candidateUpdateRequests ?x = length (filter applies_candidate ?effs)"
    "mo_rollbackUpdateRequests ?x = length (filter applies_rollback ?effs)"
    using run_counts [of m events] zero by simp_all
  have "dispatched_once ?x" unfolding m by (rule run_dispatched_once) (rule prepared_inv)
  then have once: "length (filter applies_candidate ?effs) \<le> 1" "length (filter applies_rollback ?effs) \<le> 1"
    by (simp_all add: dispatched_once_def counts)
  have own: "own_effect m e" if "e \<in> set ?effs" "applies_candidate e \<or> applies_rollback e" for e
    by (rule run_effects [OF _ that]) (simp add: m prepared_inv)
  have inv: "migration_inv ?x" unfolding m by (rule run_inv) (rule prepared_inv)
  have expiry: "mo_confirmationExpiresAt ?x = pi_confirmationExpiresAt i"
    using run_same_identity [of m events] by (simp add: same_identity_def m prepared_operation_def)
  have "\<exists>t. mo_confirmationConsumedAt ?x = Some t \<and> \<not> is_expired (pi_confirmationExpiresAt i) t"
    if requested: "list_ex (\<lambda>e. applies_candidate e \<or> applies_rollback e) ?effs"
  proof -
    obtain e where "e \<in> set ?effs" "applies_candidate e \<or> applies_rollback e"
      using requested by (auto simp: list_ex_iff)
    then have "filter applies_candidate ?effs \<noteq> [] \<or> filter applies_rollback ?effs \<noteq> []"
      by (auto simp: filter_empty_conv)
    then have "mo_candidateUpdateRequests ?x \<noteq> 0 \<or> mo_rollbackUpdateRequests ?x \<noteq> 0"
      by (simp only: counts length_0_conv)
    with inv expiry show ?thesis by (auto simp: migration_inv_def split: if_splits)
  qed
  moreover have "pi_mode i = ModeApply \<and> op = pi_operationId i \<and> w = pi_workflowId i
      \<and> path = mf_candidatePath (pi_manifest i) \<and> sha = mf_candidateSha256 (pi_manifest i)"
    if "ApplyCandidate op w path sha \<in> set ?effs" for op w path sha
    using own [OF that] prepared_bound [OF issues]
    by (simp add: effect_defs m prepared_operation_def prepare_binding_def Let_def)
  moreover have "op = pi_operationId i \<and> w = pi_workflowId i
      \<and> path = mf_rollbackPath (pi_manifest i) \<and> sha = mf_rollbackSha256 (pi_manifest i)"
    if "ApplyRollback op w path sha auto \<in> set ?effs" for op w path sha auto
    using own [OF that] prepared_bound [OF issues]
    by (simp add: effect_defs m prepared_operation_def prepare_binding_def Let_def)
  ultimately show ?thesis using once unfolding Let_def case_prod_beta by blast
qed

theorem migration_dispatches_at_most_once_witness:
  "length (filter applies_candidate (snd (run_migration (prepared_operation sample_prepare) sample_events))) = 1"
proof -
  let ?effs = "snd (run_migration (prepared_operation sample_prepare) sample_events)"
  have "length (filter applies_candidate ?effs) \<le> 1"
    using migration_dispatches_at_most_once [OF sample_prepared, of sample_events] by (simp add: case_prod_beta)
  moreover have "list_ex applies_candidate ?effs" by code_simp
  then have "filter applies_candidate ?effs \<noteq> []" by (auto simp: filter_empty_conv list_ex_iff)
  then have "length (filter applies_candidate ?effs) \<noteq> 0" by simp
  ultimately show ?thesis by linarith
qed

text \<open>
  C17. The machine keeps to its graph: every step follows an edge that the persistence check
  accepts, keeps the operation's identity (id, binding, creation and expiry of the
  confirmation), and from a terminal state changes nothing and asks for no effect.
\<close>

theorem migration_follows_graph:
  "let d = advance_controlled_workflow_migration m e; x = ad_operation d in
     is_state_transition (mo_status m) (mo_status x)
     \<and> mo_operationId x = mo_operationId m \<and> mo_binding x = mo_binding m \<and> mo_createdAt x = mo_createdAt m
     \<and> mo_confirmationExpiresAt x = mo_confirmationExpiresAt m
     \<and> (terminal_status (mo_status m) \<longrightarrow> x = m \<and> ad_effects d = [NoEffect])"
proof -
  have "is_state_transition (mo_status m) (mo_status (ad_operation (advance_controlled_workflow_migration m e)))"
  proof (cases rule: advance_cases [of m e])
    case settled
    then show ?thesis by (cases "mo_status m") (simp_all add: is_state_transition_def no_change_def)
  next
    case expires
    then show ?thesis by (simp add: is_state_transition_def step_defs)
  next
    case handled
    then show ?thesis by (simp add: handle_transition)
  qed
  moreover have "ad_operation (advance_controlled_workflow_migration m e) = m
      \<and> ad_effects (advance_controlled_workflow_migration m e) = [NoEffect]" if "terminal_status (mo_status m)"
    using that by (simp add: advance_controlled_workflow_migration_def no_change_def)
  ultimately show ?thesis
    using advance_same_identity [of m e] by (simp add: Let_def same_identity_def)
qed

theorem migration_follows_graph_witness:
  "let m = (prepared_operation sample_prepare)\<lparr>mo_status := MCompleted\<rparr>;
       d = advance_controlled_workflow_migration m (LeaseExpiredEvent sample_time)
   in ad_operation d = m \<and> ad_effects d = [NoEffect]"
  using migration_follows_graph [of "(prepared_operation sample_prepare)\<lparr>mo_status := MCompleted\<rparr>" "LeaseExpiredEvent sample_time"]
  by (simp add: Let_def terminal_status_def)

text \<open>
  C21. Success is always evidenced: after any events, an operation that was prepared is shown as
  completed only in mode apply and only with a read that matched the candidate, is shown as
  rolled back only with a read that matched the rollback, and shows at most one update request
  in each direction.
\<close>

theorem migration_success_evidenced:
  assumes "prepare_controlled_workflow_migration i = PrepareAllowed m pub effects0"
  shows "let p = project_migration_status (fst (run_migration m events)) in
     (sp_status p = MCompleted \<longrightarrow> sp_mode p = ModeApply \<and> sp_readbackResult p = Some MatchesCandidate)
     \<and> (sp_status p = MRolledBack \<longrightarrow> sp_readbackResult p = Some MatchesRollback)
     \<and> sp_candidateUpdate p \<le> 1 \<and> sp_rollbackUpdate p \<le> 1
     \<and> sp_operationId p = pi_operationId i \<and> sp_workflowId p = pi_workflowId i"
proof -
  let ?x = "fst (run_migration m events)"
  have m: "m = prepared_operation i" using prepared_cases [OF assms] by simp
  have inv: "migration_inv ?x" unfolding m by (rule run_inv) (rule prepared_inv)
  have once: "dispatched_once ?x" unfolding m by (rule run_dispatched_once) (rule prepared_inv)
  have "same_identity m ?x" by (rule run_same_identity)
  then have ids: "mo_operationId ?x = pi_operationId i" "mb_workflowId (mo_binding ?x) = pi_workflowId i"
    by (simp_all add: same_identity_def m prepared_operation_def prepare_binding_def Let_def)
  have "sp_status (project_migration_status x) = mo_status x"
    "sp_mode (project_migration_status x) = mb_mode (mo_binding x)"
    "sp_readbackResult (project_migration_status x) = ev_readbackResult (current_evidence x)"
    "sp_candidateUpdate (project_migration_status x) = mo_candidateUpdateRequests x"
    "sp_rollbackUpdate (project_migration_status x) = mo_rollbackUpdateRequests x"
    "sp_operationId (project_migration_status x) = mo_operationId x"
    "sp_workflowId (project_migration_status x) = mb_workflowId (mo_binding x)" for x
    by (simp_all add: project_migration_status_def Let_def)
  with inv once ids show ?thesis by (simp add: Let_def migration_inv_def dispatched_once_def)
qed

theorem migration_success_evidenced_witness:
  "let p = project_migration_status (fst (run_migration (prepared_operation sample_prepare) sample_events))
   in sp_status p = MCompleted \<and> sp_readbackResult p = Some MatchesCandidate"
proof -
  let ?p = "project_migration_status (fst (run_migration (prepared_operation sample_prepare) sample_events))"
  have "sp_status ?p = MCompleted" by code_simp
  with migration_success_evidenced [OF sample_prepared, of sample_events] show ?thesis by (simp add: Let_def)
qed

text \<open>
  The automatic rollback does not require that the candidate was ever applied: when the
  lease of a confirmed operation in mode apply expires before the precondition was read, a
  read of a state that is neither approved one makes the machine reserve and apply the
  rollback, although no update of the workflow was ever requested by the operation.
\<close>

theorem rollback_without_candidate:
  assumes "prepare_controlled_workflow_migration i = PrepareAllowed m pub effects0" "pi_mode i = ModeApply"
    and "\<not> is_expired (pi_confirmationExpiresAt i) t1" "t1 \<noteq> []"
    and "rd_result r = UnexpectedState" "\<not> foreign_read m r"
  shows "let (x, effects) = run_migration m
       [ConfirmationResult ConfConsumed t1, LeaseResult LeaseAcquired t2, LeaseExpiredEvent t3,
        ReadbackResult r t4, RollbackDispatchReserved DispReserved t5]
     in mo_candidateUpdateRequests x = 0 \<and> filter applies_candidate effects = []
        \<and> ApplyRollback (pi_operationId i) (pi_workflowId i) (ai_path (pi_rollback i)) (ai_sha256 (pi_rollback i)) True
            \<in> set effects"
proof -
  have m: "m = prepared_operation i" using prepared_cases [OF assms(1)] by simp
  have start: "mo_status m = MPrepared" "mo_confirmationConsumedAt m = None" "mo_candidateUpdateRequests m = 0"
    "mo_rollbackUpdateRequests m = 0" "mo_confirmationExpiresAt m = pi_confirmationExpiresAt i"
    "mb_mode (mo_binding m) = ModeApply" "mo_operationId m = pi_operationId i"
    "mb_workflowId (mo_binding m) = pi_workflowId i" "mb_rollbackPath (mo_binding m) = ai_path (pi_rollback i)"
    "mb_rollbackSha256 (mo_binding m) = ai_sha256 (pi_rollback i)"
    using assms(2) by (simp_all add: m prepared_operation_def prepare_binding_def Let_def)
  let ?live = "\<lambda>st x. mo_status x = st \<and> same_identity m x \<and> mo_candidateUpdateRequests x = 0 \<and> mo_rollbackUpdateRequests x = 0"
  let ?d = "advance_controlled_workflow_migration"
  have step1: "?live MQueued (ad_operation (?d m (ConfirmationResult ConfConsumed t1)))
      \<and> mo_confirmationConsumedAt (ad_operation (?d m (ConfirmationResult ConfConsumed t1))) = Some t1"
    using start assms(3)
    by (simp add: advance_controlled_workflow_migration_def terminal_status_def handle_confirmation_result_def
        step_defs same_identity_def truthy_def Let_def)
  have step2: "?live MRunning (ad_operation (?d x (LeaseResult LeaseAcquired t2)))"
    if "?live MQueued x" "mo_confirmationConsumedAt x = Some t1" for x
    using that assms(4)
    by (simp add: advance_controlled_workflow_migration_def terminal_status_def handle_lease_result_def
        step_defs same_identity_def truthy_def Let_def)
  have step3: "?live MReconciling (ad_operation (?d x (LeaseExpiredEvent t3)))" if "?live MRunning x" for x
    using that
    by (simp add: advance_controlled_workflow_migration_def terminal_status_def handle_lease_expired_def
        step_defs same_identity_def Let_def)
  have step4: "?live MRollingBack (ad_operation (?d x (ReadbackResult r t4)))" if "?live MReconciling x" for x
  proof -
    have "\<not> foreign_read x r" using assms(6) that by (simp add: foreign_read_def same_identity_def)
    then show ?thesis
      using that assms(5) start(6)
      by (simp add: advance_controlled_workflow_migration_def terminal_status_def handle_readback_result_def
          step_defs same_identity_def Let_def)
  qed
  have step5: "mo_candidateUpdateRequests (ad_operation (?d x (RollbackDispatchReserved DispReserved t5))) = 0
      \<and> ApplyRollback (pi_operationId i) (pi_workflowId i) (ai_path (pi_rollback i)) (ai_sha256 (pi_rollback i)) True
          \<in> set (ad_effects (?d x (RollbackDispatchReserved DispReserved t5)))" if "?live MRollingBack x" for x
    using that start(6-10)
    by (simp add: advance_controlled_workflow_migration_def terminal_status_def handle_rollback_dispatch_reserved_def
        step_defs same_identity_def Let_def)
  let ?es = "[ConfirmationResult ConfConsumed t1, LeaseResult LeaseAcquired t2, LeaseExpiredEvent t3,
        ReadbackResult r t4, RollbackDispatchReserved DispReserved t5]"
  have last: "mo_candidateUpdateRequests (fst (run_migration m ?es)) = 0
      \<and> ApplyRollback (pi_operationId i) (pi_workflowId i) (ai_path (pi_rollback i)) (ai_sha256 (pi_rollback i)) True
          \<in> set (snd (run_migration m ?es))"
    using step5 [OF step4 [OF step3 [OF step2 [OF step1 [THEN conjunct1] step1 [THEN conjunct2]]]]]
    by (simp only: run_migration_Cons run_migration.simps(1) fst_conv set_append Un_iff) blast
  then have "length (filter applies_candidate (snd (run_migration m ?es))) = 0"
    using run_counts(1) [of m ?es] start(3) by linarith
  with last show ?thesis unfolding Let_def case_prod_beta length_0_conv by blast
qed

theorem rollback_without_candidate_witness:
  "let (x, effects) = run_migration (prepared_operation sample_prepare)
       [ConfirmationResult ConfConsumed sample_time, LeaseResult LeaseAcquired sample_time,
        LeaseExpiredEvent sample_time, ReadbackResult (plain_read UnexpectedState) sample_time,
        RollbackDispatchReserved DispReserved sample_time]
   in mo_candidateUpdateRequests x = 0 \<and> filter applies_candidate effects = []
      \<and> ApplyRollback ''op'' ''wf'' ''r.json'' (sample_sha (CHR ''5'')) True \<in> set effects"
proof -
  have "\<not> is_expired (pi_confirmationExpiresAt sample_prepare) sample_time" by code_simp
  then show ?thesis
    using rollback_without_candidate [OF sample_prepared, of sample_time "plain_read UnexpectedState" sample_time
        sample_time sample_time sample_time]
    by (simp add: sample_prepare_def sample_time_def plain_read_def foreign_read_def truthy_def)
qed

text \<open>
  Preparation is exact: an operation is prepared if and only if every part of the request
  agrees with the grant and the manifest (source, workflow, canonicalization version,
  artifacts, canonical hashes, wrapper, API origin), the ids and hashes are well formed and the
  confirmation has not expired; it then has sent nothing and must still be confirmed.
\<close>

theorem migration_prepared_exactly:
  "(\<exists>m pub effects. prepare_controlled_workflow_migration i = PrepareAllowed m pub effects
      \<and> mo_status m = MPrepared \<and> mo_confirmationConsumedAt m = None
      \<and> mo_candidateUpdateRequests m = 0 \<and> mo_rollbackUpdateRequests m = 0 \<and> effects = [PersistOperation m])
   \<longleftrightarrow>
     (let g = pi_grant i; f = pi_manifest i; c = pi_candidate i; r = pi_rollback i in
      trim (pi_operationId i) \<noteq> [] \<and> length (pi_operationId i) \<le> 200 \<and> trim (gi_grantId g) \<noteq> [] \<and> 1 \<le> gi_version g
      \<and> pi_sourceId i = gi_sourceId g \<and> pi_workflowId i = gi_workflowId g \<and> pi_workflowId i = mf_workflowId f
      \<and> gi_canonicalizationVersion g \<in> {1, 2} \<and> gi_canonicalizationVersion g = mf_canonicalizationVersion f
      \<and> ai_path c = mf_candidatePath f \<and> ai_sha256 c = mf_candidateSha256 f
      \<and> ai_path r = mf_rollbackPath f \<and> ai_sha256 r = mf_rollbackSha256 f
      \<and> ai_canonicalSha256 c = mf_candidateCanonicalSha256 f \<and> ai_canonicalSha256 r = mf_rollbackCanonicalSha256 f
      \<and> pi_wrapperPath i = gi_wrapperPath g \<and> pi_wrapperSha256 i = gi_wrapperSha256 g
      \<and> pi_apiOriginFingerprint i = gi_apiOriginFingerprint g \<and> pi_manifestPath i \<noteq> []
      \<and> is_sha256 (Some (pi_sourceRootFingerprint i)) \<and> is_sha256 (Some (pi_manifestSha256 i))
      \<and> is_sha256 (Some (mf_expectedLiveCanonicalSha256 f)) \<and> is_sha256 (Some (pi_wrapperSha256 i))
      \<and> \<not> is_expired (pi_confirmationExpiresAt i) (pi_now i))"
proof -
  have "(\<exists>m pub effects. prepare_controlled_workflow_migration i = PrepareAllowed m pub effects
      \<and> mo_status m = MPrepared \<and> mo_confirmationConsumedAt m = None
      \<and> mo_candidateUpdateRequests m = 0 \<and> mo_rollbackUpdateRequests m = 0 \<and> effects = [PersistOperation m])
     \<longleftrightarrow> prepare_issues i = []"
    by (auto simp: prepare_controlled_workflow_migration_def prepared_operation_def split: list.splits)
  then show ?thesis
    unfolding prepare_issues_none prepare_checks_def Let_def by (simp only: list.set ball_simps fst_conv) (auto simp: not_less)
qed

end
