(* ===== verification/Locked_Store.thy ===== *)
theory Locked_Store
  imports Js_Time
begin

text \<open>
  What the file-backed stores of \<^verbatim>\<open>packages/cli/src/agent\<close> share. Each store is one JSON file
  that every operation reads, changes in memory and writes back by a rename, under a lock file
  it creates exclusively, so that one operation is one atomic step on the file. What the file
  system, the clock and the random source answer in one call is a record of the model's
  environment; SHA-256 and the locale's string comparison are arguments.
\<close>

text \<open>The file: absent, unreadable (not JSON, or another version), or its parsed content.\<close>

datatype 'a disk = NoFile | BadFile | Stored 'a

datatype lock_outcome = LockTaken | LockBusy | LockFailed

text \<open>Writing the new file can fail before the rename, or in the \<^verbatim>\<open>chmod\<close> that follows it.\<close>

datatype write_outcome = Saved | NotSaved | SavedThenFailed

record io_env =
  io_lock :: lock_outcome
  io_write :: write_outcome
  io_startNow :: string
  io_openNow :: string
  io_bodyNow :: string
  io_saveNow :: string
  io_random :: string
  io_uuid :: string

definition write_disk :: "io_env \<Rightarrow> 'a \<Rightarrow> 'a disk \<Rightarrow> 'a disk \<times> bool" where
  "write_disk e c d =
     (case io_write e of Saved \<Rightarrow> (Stored c, True) | NotSaved \<Rightarrow> (d, False) | SavedThenFailed \<Rightarrow> (Stored c, False))"

section \<open>A store of one list\<close>

text \<open>
  Several stores keep, beside the time of the last write, one list of records. It is read
  whole or not at all: one record that fails its validation makes the file unreadable. The
  lock is tried once; the callback works on the list in memory, and what it leaves is cut to
  the store's bound and written whatever the callback answers, unless it throws. An answer is
  \<open>None\<close> for an exception, otherwise a failure or a result.
\<close>

type_synonym 'r list_disk = "(string \<times> 'r list) disk"

definition read_list :: "('r \<Rightarrow> bool) \<Rightarrow> 'r list_disk \<Rightarrow> 'r list option" where
  "read_list valid d =
     (case d of NoFile \<Rightarrow> Some [] | BadFile \<Rightarrow> None
      | Stored (updatedAt, rs) \<Rightarrow> if list_all valid rs then Some rs else None)"

definition with_list ::
  "('r \<Rightarrow> bool) \<Rightarrow> ('r list \<Rightarrow> 'r list) \<Rightarrow> 'f \<Rightarrow> 'f \<Rightarrow> io_env \<Rightarrow> 'r list_disk
   \<Rightarrow> ('r list \<Rightarrow> (('f + 'a) \<times> 'r list) option) \<Rightarrow> 'r list_disk \<times> ('f + 'a) option" where
  "with_list valid keep busy corrupt e d callback =
     (case io_lock e of
        LockBusy \<Rightarrow> (d, Some (Inl busy))
      | LockFailed \<Rightarrow> (d, None)
      | LockTaken \<Rightarrow>
          (case read_list valid d of
             None \<Rightarrow> (d, Some (Inl corrupt))
           | Some rs \<Rightarrow>
               (case callback rs of
                  None \<Rightarrow> (d, None)
                | Some (answer, rs') \<Rightarrow>
                    (let (d', ok) = write_disk e (io_saveNow e, keep rs') d
                     in (d', if ok then Some answer else None)))))"

definition answered :: "('f + 'a) option \<Rightarrow> bool" where
  "answered a = (case a of Some (Inr v) \<Rightarrow> True | _ \<Rightarrow> False)"

text \<open>What the list satisfies when the file has one.\<close>

definition on_file :: "('r list \<Rightarrow> bool) \<Rightarrow> 'r list_disk \<Rightarrow> bool" where
  "on_file P d = (case d of Stored (u, rs) \<Rightarrow> P rs | _ \<Rightarrow> True)"

lemma on_file_simps [simp]:
  "on_file P NoFile" "on_file P BadFile" "on_file P (Stored (u, rs)) = P rs"
  by (simp_all add: on_file_def)

lemma on_file_mono: "on_file P d \<Longrightarrow> (\<And>rs. P rs \<Longrightarrow> Q rs) \<Longrightarrow> on_file Q d"
  by (auto simp: on_file_def split: disk.splits)

lemma read_list_Some:
  "read_list valid d = Some rs \<Longrightarrow> list_all valid rs \<and> (rs = [] \<or> (\<exists>u. d = Stored (u, rs)))"
  by (auto simp: read_list_def split: disk.splits if_splits)

lemma read_on_file: "read_list valid d = Some rs \<Longrightarrow> on_file P d \<Longrightarrow> P [] \<Longrightarrow> P rs"
  by (auto simp: read_list_def on_file_def split: disk.splits if_splits)

lemma with_list_answered:
  assumes "answered (snd (with_list valid keep busy corrupt e d callback))"
  obtains rs v rs' where "read_list valid d = Some rs" "callback rs = Some (Inr v, rs')"
    "with_list valid keep busy corrupt e d callback = (Stored (io_saveNow e, keep rs'), Some (Inr v))"
  using assms
  by (auto simp: with_list_def answered_def write_disk_def
        split: lock_outcome.splits option.splits sum.splits write_outcome.splits)

lemma with_list_changed:
  assumes "fst (with_list valid keep busy corrupt e d callback) \<noteq> d"
  obtains rs answer rs' where "read_list valid d = Some rs" "callback rs = Some (answer, rs')"
    "fst (with_list valid keep busy corrupt e d callback) = Stored (io_saveNow e, keep rs')"
  using assms
  by (auto simp: with_list_def write_disk_def Let_def
        split: lock_outcome.splits option.splits write_outcome.splits)

text \<open>
  The contract of a store's bound: it keeps a part of the list. A property of lists that holds
  of the empty list and passes to such parts is kept by every operation whose callback keeps it.
\<close>

locale bounded_list =
  fixes keep :: "'r list \<Rightarrow> 'r list"
  assumes keep_part: "mset (keep rs) \<subseteq># mset rs"
begin

lemma set_keep: "set (keep rs) \<subseteq> set rs"
  by (rule set_submset [OF keep_part])

lemma distinct_keep: "distinct (map f rs) \<Longrightarrow> distinct (map f (keep rs))"
  by (rule distinct_map_submset [OF keep_part])

lemma with_list_keeps:
  assumes "on_file P d" "P []"
    and parts: "\<And>xs ys. P xs \<Longrightarrow> mset ys \<subseteq># mset xs \<Longrightarrow> P ys"
    and step: "\<And>rs answer rs'. read_list valid d = Some rs \<Longrightarrow> P rs \<Longrightarrow> callback rs = Some (answer, rs') \<Longrightarrow> P rs'"
  shows "on_file P (fst (with_list valid keep busy corrupt e d callback))"
proof (cases "read_list valid d")
  case None
  with assms(1) show ?thesis by (simp add: with_list_def split: lock_outcome.splits)
next
  case (Some rs)
  then have "P rs" using read_on_file [OF Some assms(1,2)] by blast
  then have "P (keep rs')" if "callback rs = Some (answer, rs')" for answer rs'
    using step [OF Some _ that] parts keep_part by blast
  with Some assms(1) show ?thesis
    by (auto simp: with_list_def write_disk_def split: lock_outcome.splits option.splits write_outcome.splits)
qed

end

section \<open>The validations shared by the stores\<close>

definition id_start :: "char \<Rightarrow> bool" where
  "id_start c =
     ((CHR ''A'' \<le> c \<and> c \<le> CHR ''Z'') \<or> (CHR ''a'' \<le> c \<and> c \<le> CHR ''z'') \<or> (CHR ''0'' \<le> c \<and> c \<le> CHR ''9''))"

definition id_char :: "char \<Rightarrow> bool" where
  "id_char c = (id_start c \<or> c \<in> set ''._:@/-'')"

definition hex_char :: "char \<Rightarrow> bool" where
  "hex_char c = ((CHR ''a'' \<le> c \<and> c \<le> CHR ''f'') \<or> (CHR ''0'' \<le> c \<and> c \<le> CHR ''9''))"

text \<open>\<^verbatim>\<open>validId\<close>: the expression \<^verbatim>\<open>/^[A-Za-z0-9][A-Za-z0-9._:@/-]*$/\<close> and a length of at
  most 200; \<^verbatim>\<open>validIso\<close>; the expression \<^verbatim>\<open>/^[a-f0-9]{64}$/\<close>.\<close>

definition valid_id :: "string \<Rightarrow> bool" where
  "valid_id s = (s \<noteq> [] \<and> length s \<le> 200 \<and> id_start (hd s) \<and> list_all id_char s)"

definition valid_iso :: "string \<Rightarrow> bool" where
  "valid_iso s = (length s \<le> 40 \<and> date_parse s \<noteq> None)"

definition valid_hash :: "string \<Rightarrow> bool" where
  "valid_hash s = (length s = 64 \<and> list_all hex_char s)"

definition opt_valid :: "(string \<Rightarrow> bool) \<Rightarrow> string option \<Rightarrow> bool" where
  "opt_valid p v = (case v of None \<Rightarrow> True | Some s \<Rightarrow> p s)"

lemmas store_validations = valid_id_def valid_iso_def valid_hash_def opt_valid_def

text \<open>\<^verbatim>\<open>Date.parse(a) <= Date.parse(b)\<close> and a difference in time: false when a side is \<^verbatim>\<open>NaN\<close>.\<close>

definition time_le :: "string \<Rightarrow> string \<Rightarrow> bool" where
  "time_le a b = (case (date_parse a, date_parse b) of (Some x, Some y) \<Rightarrow> x \<le> y | _ \<Rightarrow> False)"

text \<open>\<^verbatim>\<open>Date.parse(a) > Date.parse(now) - span\<close>.\<close>

definition newer_than :: "string \<Rightarrow> string \<Rightarrow> int \<Rightarrow> bool" where
  "newer_than a now span =
     (case (date_parse a, date_parse now) of (Some x, Some y) \<Rightarrow> y - span < x | _ \<Rightarrow> False)"

text \<open>\<^verbatim>\<open>new Date(Date.parse(t) + ms).toISOString()\<close>; \<open>None\<close> is the \<^verbatim>\<open>RangeError\<close>.\<close>

definition time_plus :: "string \<Rightarrow> int \<Rightarrow> string option" where
  "time_plus t ms = (case date_parse t of None \<Rightarrow> None | Some x \<Rightarrow> to_iso (x + ms))"

text \<open>\<^verbatim>\<open>Date.parse(s) <= now\<close> and \<^verbatim>\<open>Date.parse(s) > now\<close>, both false for \<^verbatim>\<open>NaN\<close>.\<close>

definition due_by :: "string \<Rightarrow> int \<Rightarrow> bool" where
  "due_by s now = (case date_parse s of None \<Rightarrow> False | Some x \<Rightarrow> x \<le> now)"

definition lasts_after :: "string \<Rightarrow> int \<Rightarrow> bool" where
  "lasts_after s now = (case date_parse s of None \<Rightarrow> False | Some x \<Rightarrow> now < x)"

text \<open>A concrete environment, in which every operation goes through.\<close>

definition sample_env :: "string \<Rightarrow> io_env" where
  "sample_env t =
     \<lparr>io_lock = LockTaken, io_write = Saved, io_startNow = t, io_openNow = t, io_bodyNow = t, io_saveNow = t,
      io_random = replicate 64 (CHR ''a''), io_uuid = ''u''\<rparr>"

definition sample_hash :: "string \<Rightarrow> string" where
  "sample_hash p = replicate 64 (CHR ''b'')"

definition noon :: string where "noon = ''2026-01-01T12:00:00.000Z''"

end
