(* ===== verification/Migration_Store.thy ===== *)
theory Migration_Store
  imports Workflow_Migration Locked_Store
begin

text \<open>
  \<^verbatim>\<open>packages/cli/src/agent/capability-operation-store.ts\<close>: the file store in which the host of
  a controlled migration keeps its operations. It holds the confirmation's hash, the lease of
  the invocation that executes the operation and a revision for compare-and-set; a step of the
  state machine (\<^verbatim>\<open>Workflow_Migration\<close>) reaches the disk only through
  \<open>transition_capability_operation\<close>.

  Arguments for code outside the model: \<open>hash\<close> is SHA-256 in lower-case hexadecimal, \<open>cmp\<close> is
  \<^verbatim>\<open>localeCompare\<close>. A \<^verbatim>\<open>Date\<close> argument is its time value. An answer is \<open>None\<close> for an
  exception, otherwise the failure's code or the result.
\<close>

section \<open>Data\<close>

record capability_lease =
  ls_leaseProof :: string
  ls_owner :: string
  ls_acquiredAt :: string
  ls_expiresAt :: string

record capability_operation =
  co_operationId :: string
  co_status :: migration_status
  co_binding :: migration_binding
  co_confirmationTokenHash :: string
  co_confirmationExpiresAt :: string
  co_confirmationConsumedAt :: "string option"
  co_createdAt :: string
  co_updatedAt :: string
  co_lease :: "capability_lease option"
  co_candidateUpdateRequests :: nat
  co_rollbackUpdateRequests :: nat
  co_readbackRequests :: int
  co_reason :: "string option"
  co_reasonCode :: "migration_reason option"
  co_evidence :: "migration_evidence option"
  co_revision :: int

text \<open>What the store answers with: no confirmation hash and no lease proof.\<close>

record compact_lease =
  kl_owner :: string
  kl_acquiredAt :: string
  kl_expiresAt :: string

record compact_operation =
  ko_operationId :: string
  ko_status :: migration_status
  ko_binding :: migration_binding
  ko_confirmationExpiresAt :: string
  ko_confirmationConsumedAt :: "string option"
  ko_createdAt :: string
  ko_updatedAt :: string
  ko_lease :: "compact_lease option"
  ko_candidateUpdateRequests :: nat
  ko_rollbackUpdateRequests :: nat
  ko_readbackRequests :: int
  ko_reason :: "string option"
  ko_reasonCode :: "migration_reason option"
  ko_evidence :: "migration_evidence option"
  ko_revision :: int

datatype operation_failure =
    OPERATION_STORE_BUSY | OPERATION_NOT_FOUND | OPERATION_INVALID_STATE | OPERATION_CONFIRMATION_INVALID
  | OPERATION_CONFIRMATION_EXPIRED | OPERATION_CONFIRMATION_REPLAYED | OPERATION_LEASE_CONFLICT
  | OPERATION_REVISION_CONFLICT | OPERATION_IMMUTABLE_MISMATCH | OPERATION_LEASE_INVALID
  | OPERATION_STORE_CORRUPT

text \<open>The file: the time of the last write and the operations.\<close>

type_synonym operation_disk = "(string \<times> capability_operation list) disk"

type_synonym 'a store_answer = "(operation_failure + 'a) option"

section \<open>Validation of what is read\<close>

definition iso_digit :: "char \<Rightarrow> bool" where
  "iso_digit c = (CHR ''0'' \<le> c \<and> c \<le> CHR ''9'')"

text \<open>\<^verbatim>\<open>ISO_DATE\<close>, with \<^verbatim>\<open>d\<close> for a digit.\<close>

definition iso_shape :: "string \<Rightarrow> bool" where
  "iso_shape s =
     list_all2 (\<lambda>p c. if p = CHR ''d'' then iso_digit c else c = p) ''dddd-dd-ddTdd:dd:dd.dddZ'' s"

definition is_iso_date :: "string \<Rightarrow> bool" where
  "is_iso_date s = (iso_shape s \<and> date_parse s \<noteq> None)"

definition is_binding :: "migration_binding \<Rightarrow> bool" where
  "is_binding b =
     (mb_sourceId b \<noteq> [] \<and> valid_hash (mb_sourceRootFingerprint b) \<and> mb_grantId b \<noteq> [] \<and> 1 \<le> mb_grantVersion b
      \<and> mb_workflowId b \<noteq> []
      \<and> mb_candidatePath b \<noteq> [] \<and> mb_rollbackPath b \<noteq> [] \<and> mb_manifestPath b \<noteq> [] \<and> mb_wrapperPath b \<noteq> []
      \<and> mb_canonicalizationVersion b \<in> {1, 2}
      \<and> list_all valid_hash [mb_candidateSha256 b, mb_rollbackSha256 b, mb_manifestSha256 b, mb_wrapperSha256 b,
           mb_candidateCanonicalSha256 b, mb_rollbackCanonicalSha256 b, mb_expectedLiveCanonicalSha256 b]
      \<and> opt_valid valid_hash (mb_apiOriginFingerprint b))"

definition is_evidence :: "migration_evidence option \<Rightarrow> bool" where
  "is_evidence v =
     (case v of
        None \<Rightarrow> True
      | Some e \<Rightarrow>
          opt_valid valid_hash (ev_observedCanonicalSha256 e)
          \<and> (ev_protectedDomainMismatches e = None
             \<or> (ev_protectedDomains e = Some DomainsUnverified
                \<and> ev_executorReasonCode e = Some X_PROTECTED_DOMAIN_MISMATCH
                \<and> is_canonical_domain_list (ev_protectedDomainMismatches e)))
          \<and> (case ev_durationMs e of None \<Rightarrow> True
             | Some q \<Rightarrow> of_int \<lfloor>q\<rfloor> = q \<and> 0 \<le> q \<and> q \<le> 900000))"

definition is_lease :: "capability_lease option \<Rightarrow> bool" where
  "is_lease v =
     (case v of
        None \<Rightarrow> True
      | Some l \<Rightarrow>
          20 \<le> length (ls_leaseProof l) \<and> length (ls_leaseProof l) \<le> 300
          \<and> ls_owner l \<noteq> [] \<and> length (ls_owner l) \<le> 160
          \<and> is_iso_date (ls_acquiredAt l) \<and> is_iso_date (ls_expiresAt l)
          \<and> (case (date_parse (ls_acquiredAt l), date_parse (ls_expiresAt l)) of
               (Some a, Some x) \<Rightarrow> a < x | _ \<Rightarrow> False))"

definition is_record :: "capability_operation \<Rightarrow> bool" where
  "is_record r =
     (co_operationId r \<noteq> [] \<and> length (co_operationId r) \<le> 200 \<and> is_binding (co_binding r)
      \<and> valid_hash (co_confirmationTokenHash r) \<and> is_iso_date (co_confirmationExpiresAt r)
      \<and> opt_valid is_iso_date (co_confirmationConsumedAt r)
      \<and> is_iso_date (co_createdAt r) \<and> is_iso_date (co_updatedAt r) \<and> is_lease (co_lease r)
      \<and> co_candidateUpdateRequests r \<le> 1 \<and> co_rollbackUpdateRequests r \<le> 1
      \<and> 0 \<le> co_readbackRequests r \<and> co_readbackRequests r \<le> 10
      \<and> 0 \<le> co_revision r \<and> co_revision r \<le> 9007199254740991
      \<and> (case co_reason r of None \<Rightarrow> True | Some s \<Rightarrow> length s \<le> 500)
      \<and> is_evidence (co_evidence r))"

section \<open>The store\<close>

definition read_operations :: "operation_disk \<Rightarrow> capability_operation list option" where
  "read_operations d = read_list is_record d"

definition by_creation :: "(string \<Rightarrow> string \<Rightarrow> int) \<Rightarrow> capability_operation \<Rightarrow> capability_operation \<Rightarrow> int" where
  "by_creation cmp a b = cmp (co_createdAt a) (co_createdAt b)"

definition kept_operations ::
  "(string \<Rightarrow> string \<Rightarrow> int) \<Rightarrow> capability_operation list \<Rightarrow> capability_operation list" where
  "kept_operations cmp rs = slice_last 300 (js_sort (by_creation cmp) rs)"

definition with_operations ::
  "(string \<Rightarrow> string \<Rightarrow> int) \<Rightarrow> io_env \<Rightarrow> operation_disk
   \<Rightarrow> (capability_operation list \<Rightarrow> ((operation_failure + 'a) \<times> capability_operation list) option)
   \<Rightarrow> operation_disk \<times> 'a store_answer" where
  "with_operations cmp e d callback =
     with_list is_record (kept_operations cmp) OPERATION_STORE_BUSY OPERATION_STORE_CORRUPT e d callback"

definition compact :: "capability_operation \<Rightarrow> compact_operation" where
  "compact r =
     \<lparr>ko_operationId = co_operationId r, ko_status = co_status r, ko_binding = co_binding r,
      ko_confirmationExpiresAt = co_confirmationExpiresAt r,
      ko_confirmationConsumedAt = co_confirmationConsumedAt r, ko_createdAt = co_createdAt r,
      ko_updatedAt = co_updatedAt r,
      ko_lease = map_option (\<lambda>l. \<lparr>kl_owner = ls_owner l, kl_acquiredAt = ls_acquiredAt l,
                                  kl_expiresAt = ls_expiresAt l\<rparr>) (co_lease r),
      ko_candidateUpdateRequests = co_candidateUpdateRequests r,
      ko_rollbackUpdateRequests = co_rollbackUpdateRequests r, ko_readbackRequests = co_readbackRequests r,
      ko_reason = co_reason r, ko_reasonCode = co_reasonCode r, ko_evidence = co_evidence r,
      ko_revision = co_revision r\<rparr>"

definition operation_with_id :: "string \<Rightarrow> capability_operation list \<Rightarrow> capability_operation option" where
  "operation_with_id i rs = List.find (\<lambda>r. co_operationId r = i) rs"

definition update_operation ::
  "string \<Rightarrow> (capability_operation \<Rightarrow> capability_operation) \<Rightarrow> capability_operation list
   \<Rightarrow> capability_operation list" where
  "update_operation i f rs = modify_first (\<lambda>r. co_operationId r = i) f rs"

section \<open>Preparation and confirmation\<close>

definition confirmation_ttl :: "rat \<Rightarrow> int" where
  "confirmation_ttl q = max 30 (min (js_trunc q) 3600)"

definition create_prepared_capability_operation ::
  "(string \<Rightarrow> string \<Rightarrow> int) \<Rightarrow> (string \<Rightarrow> string) \<Rightarrow> io_env \<Rightarrow> migration_binding \<Rightarrow> rat \<Rightarrow> int
   \<Rightarrow> operation_disk \<Rightarrow> operation_disk \<times> (string \<times> compact_operation) store_answer" where
  "create_prepared_capability_operation cmp hash e b ttl now d =
     with_operations cmp e d (\<lambda>rs.
       case (to_iso (now + confirmation_ttl ttl * 1000), to_iso now) of
         (Some expiry, Some at_now) \<Rightarrow>
           let r = \<lparr>co_operationId = ''cap-op-'' @ io_uuid e, co_status = MPrepared, co_binding = b,
                    co_confirmationTokenHash = hash (io_random e), co_confirmationExpiresAt = expiry,
                    co_confirmationConsumedAt = None, co_createdAt = at_now, co_updatedAt = at_now,
                    co_lease = None, co_candidateUpdateRequests = 0, co_rollbackUpdateRequests = 0,
                    co_readbackRequests = 0, co_reason = None, co_reasonCode = None, co_evidence = None,
                    co_revision = 0\<rparr>
           in Some (Inr (io_random e, compact r), rs @ [r])
       | _ \<Rightarrow> None)"

text \<open>The record made of a prepared operation: \<^verbatim>\<open>...params.operation\<close> without its lease.\<close>

definition record_of :: "migration_operation \<Rightarrow> string \<Rightarrow> capability_operation" where
  "record_of m token_hash =
     \<lparr>co_operationId = mo_operationId m, co_status = mo_status m, co_binding = mo_binding m,
      co_confirmationTokenHash = token_hash, co_confirmationExpiresAt = mo_confirmationExpiresAt m,
      co_confirmationConsumedAt = mo_confirmationConsumedAt m, co_createdAt = mo_createdAt m,
      co_updatedAt = mo_updatedAt m, co_lease = None,
      co_candidateUpdateRequests = mo_candidateUpdateRequests m,
      co_rollbackUpdateRequests = mo_rollbackUpdateRequests m, co_readbackRequests = mo_readbackRequests m,
      co_reason = mo_reason m, co_reasonCode = mo_reasonCode m, co_evidence = mo_evidence m, co_revision = 0\<rparr>"

definition persist_prepared_capability_operation ::
  "(string \<Rightarrow> string \<Rightarrow> int) \<Rightarrow> (string \<Rightarrow> string) \<Rightarrow> io_env \<Rightarrow> migration_operation \<Rightarrow> string
   \<Rightarrow> operation_disk \<Rightarrow> operation_disk \<times> compact_operation store_answer" where
  "persist_prepared_capability_operation cmp hash e m token d =
     with_operations cmp e d (\<lambda>rs.
       if list_ex (\<lambda>r. co_operationId r = mo_operationId m) rs
       then Some (Inl OPERATION_INVALID_STATE, rs)
       else let r = record_of m (hash token)
            in if co_status r \<noteq> MPrepared \<or> \<not> is_record r then Some (Inl OPERATION_INVALID_STATE, rs)
               else Some (Inr (compact r), rs @ [r]))"

definition consume_capability_operation_confirmation ::
  "(string \<Rightarrow> string \<Rightarrow> int) \<Rightarrow> (string \<Rightarrow> string) \<Rightarrow> io_env \<Rightarrow> string \<Rightarrow> string \<Rightarrow> int
   \<Rightarrow> operation_disk \<Rightarrow> operation_disk \<times> compact_operation store_answer" where
  "consume_capability_operation_confirmation cmp hash e i token now d =
     with_operations cmp e d (\<lambda>rs.
       case operation_with_id i rs of
         None \<Rightarrow> Some (Inl OPERATION_NOT_FOUND, rs)
       | Some r \<Rightarrow>
           if truthy (co_confirmationConsumedAt r) then Some (Inl OPERATION_CONFIRMATION_REPLAYED, rs)
           else case to_iso now of
             None \<Rightarrow> None
           | Some at_now \<Rightarrow>
               if due_by (co_confirmationExpiresAt r) now
               then Some (Inl OPERATION_CONFIRMATION_EXPIRED,
                          update_operation i (\<lambda>r. r\<lparr>co_status := MExpired, co_updatedAt := at_now\<rparr>) rs)
               else if co_status r \<noteq> MPrepared then Some (Inl OPERATION_INVALID_STATE, rs)
               else if hash token \<noteq> co_confirmationTokenHash r
               then Some (Inl OPERATION_CONFIRMATION_INVALID, rs)
               else let f = (\<lambda>r. r\<lparr>co_confirmationConsumedAt := Some at_now, co_status := MQueued,
                                  co_updatedAt := at_now, co_revision := co_revision r + 1\<rparr>)
                    in Some (Inr (compact (f r)), update_operation i f rs))"

section \<open>Leases\<close>

definition operation_lease_ms :: "rat \<Rightarrow> int" where
  "operation_lease_ms q = max 5000 (min (js_trunc q) 930000)"

text \<open>\<^verbatim>\<open>expiredOwnLease\<close>: the operation's own lease has run out; it then needs reconciliation.\<close>

definition lapsed :: "int \<Rightarrow> capability_operation \<Rightarrow> bool" where
  "lapsed now r = (case co_lease r of None \<Rightarrow> False | Some l \<Rightarrow> due_by (ls_expiresAt l) now)"

definition holds_lease :: "int \<Rightarrow> capability_operation \<Rightarrow> bool" where
  "holds_lease now r = (case co_lease r of None \<Rightarrow> False | Some l \<Rightarrow> lasts_after (ls_expiresAt l) now)"

definition lapse :: "int \<Rightarrow> capability_operation \<Rightarrow> capability_operation" where
  "lapse now r = (if lapsed now r then r\<lparr>co_status := MReconciling, co_lease := None\<rparr> else r)"

definition same_workflow :: "capability_operation \<Rightarrow> capability_operation \<Rightarrow> bool" where
  "same_workflow a b =
     (mb_sourceId (co_binding a) = mb_sourceId (co_binding b)
      \<and> mb_workflowId (co_binding a) = mb_workflowId (co_binding b))"

definition acquire_capability_operation_lease ::
  "(string \<Rightarrow> string \<Rightarrow> int) \<Rightarrow> io_env \<Rightarrow> string \<Rightarrow> string \<Rightarrow> rat \<Rightarrow> int
   \<Rightarrow> operation_disk \<Rightarrow> operation_disk \<times> (string \<times> compact_operation) store_answer" where
  "acquire_capability_operation_lease cmp e i owner leaseMs now d =
     with_operations cmp e d (\<lambda>rs.
       case operation_with_id i rs of
         None \<Rightarrow> Some (Inl OPERATION_NOT_FOUND, rs)
       | Some r0 \<Rightarrow>
           if holds_lease now r0 then Some (Inl OPERATION_LEASE_CONFLICT, rs)
           else let r = lapse now r0; rs1 = update_operation i (lapse now) rs in
             if co_status r \<noteq> MQueued \<and> co_status r \<noteq> MReconciling
             then Some (Inl OPERATION_INVALID_STATE, rs1)
             else if list_ex (\<lambda>x. co_operationId x \<noteq> co_operationId r \<and> same_workflow x r \<and> holds_lease now x) rs1
             then Some (Inl OPERATION_LEASE_CONFLICT, rs1)
             else case (to_iso now, to_iso (now + operation_lease_ms leaseMs)) of
               (Some at_now, Some expiry) \<Rightarrow>
                 let proof = ''cap-lease-'' @ io_uuid e;
                     f = (\<lambda>x. x\<lparr>co_lease := Some \<lparr>ls_leaseProof = proof, ls_owner = take 160 owner,
                                                   ls_acquiredAt = at_now, ls_expiresAt = expiry\<rparr>,
                                co_status := (if co_status x = MReconciling then MReconciling else MRunning),
                                co_updatedAt := at_now, co_revision := co_revision x + 1\<rparr>)
                 in Some (Inr (proof, compact (f r)), update_operation i f rs1)
             | _ \<Rightarrow> None)"

text \<open>The checks that renewal and release share, in their order.\<close>

definition lease_refusal ::
  "string \<Rightarrow> string \<Rightarrow> int \<Rightarrow> string \<Rightarrow> int \<Rightarrow> capability_operation \<Rightarrow> operation_failure option" where
  "lease_refusal sourceId workflowId revision leaseProof now r =
     (if mb_sourceId (co_binding r) \<noteq> sourceId \<or> mb_workflowId (co_binding r) \<noteq> workflowId
      then Some OPERATION_IMMUTABLE_MISMATCH
      else if co_revision r \<noteq> revision then Some OPERATION_REVISION_CONFLICT
      else case co_lease r of
        None \<Rightarrow> Some OPERATION_LEASE_INVALID
      | Some l \<Rightarrow> if due_by (ls_expiresAt l) now \<or> leaseProof \<noteq> ls_leaseProof l
                  then Some OPERATION_LEASE_INVALID else None)"

definition renew_capability_operation_lease ::
  "(string \<Rightarrow> string \<Rightarrow> int) \<Rightarrow> io_env \<Rightarrow> string \<Rightarrow> string \<Rightarrow> string \<Rightarrow> int \<Rightarrow> string \<Rightarrow> rat \<Rightarrow> int
   \<Rightarrow> operation_disk \<Rightarrow> operation_disk \<times> compact_operation store_answer" where
  "renew_capability_operation_lease cmp e i sourceId workflowId revision leaseProof leaseMs now d =
     with_operations cmp e d (\<lambda>rs.
       case operation_with_id i rs of
         None \<Rightarrow> Some (Inl OPERATION_NOT_FOUND, rs)
       | Some r \<Rightarrow>
           (case lease_refusal sourceId workflowId revision leaseProof now r of
              Some code \<Rightarrow> Some (Inl code, rs)
            | None \<Rightarrow>
                if co_status r \<notin> {MRunning, MReconciling, MRollingBack} then Some (Inl OPERATION_INVALID_STATE, rs)
                else (case (to_iso (now + operation_lease_ms leaseMs), to_iso now) of
                        (Some expiry, Some at_now) \<Rightarrow>
                          let f = (\<lambda>x. x\<lparr>co_lease := map_option (\<lambda>l. l\<lparr>ls_expiresAt := expiry\<rparr>) (co_lease x),
                                         co_updatedAt := at_now, co_revision := co_revision x + 1\<rparr>)
                          in Some (Inr (compact (f r)), update_operation i f rs)
                      | _ \<Rightarrow> None)))"

definition release_capability_operation_lease ::
  "(string \<Rightarrow> string \<Rightarrow> int) \<Rightarrow> io_env \<Rightarrow> string \<Rightarrow> string \<Rightarrow> string \<Rightarrow> int \<Rightarrow> string \<Rightarrow> int
   \<Rightarrow> operation_disk \<Rightarrow> operation_disk \<times> compact_operation store_answer" where
  "release_capability_operation_lease cmp e i sourceId workflowId revision leaseProof now d =
     with_operations cmp e d (\<lambda>rs.
       case operation_with_id i rs of
         None \<Rightarrow> Some (Inl OPERATION_NOT_FOUND, rs)
       | Some r \<Rightarrow>
           (case lease_refusal sourceId workflowId revision leaseProof now r of
              Some code \<Rightarrow> Some (Inl code, rs)
            | None \<Rightarrow>
                (case to_iso now of
                   None \<Rightarrow> None
                 | Some at_now \<Rightarrow>
                     let f = (\<lambda>x. x\<lparr>co_lease := None, co_updatedAt := at_now, co_revision := co_revision x + 1\<rparr>)
                     in Some (Inr (compact (f r)), update_operation i f rs))))"

section \<open>Reads\<close>

definition get_compact_capability_operation ::
  "string \<Rightarrow> operation_disk \<Rightarrow> operation_failure + compact_operation option" where
  "get_compact_capability_operation i d =
     (case read_operations d of
        None \<Rightarrow> Inl OPERATION_STORE_CORRUPT | Some rs \<Rightarrow> Inr (map_option compact (operation_with_id i rs)))"

definition get_capability_operation_record ::
  "string \<Rightarrow> operation_disk \<Rightarrow> operation_failure + capability_operation option" where
  "get_capability_operation_record i d =
     (case read_operations d of
        None \<Rightarrow> Inl OPERATION_STORE_CORRUPT | Some rs \<Rightarrow> Inr (operation_with_id i rs))"

section \<open>Transitions\<close>

text \<open>
  The portable update is an operation of the state machine. Bindings are compared as JSON text;
  all bindings of the program list their members in one order, so this is equality.
\<close>

definition immutable_matches :: "capability_operation \<Rightarrow> migration_operation \<Rightarrow> bool" where
  "immutable_matches r m =
     (co_operationId r = mo_operationId m \<and> co_binding r = mo_binding m
      \<and> co_confirmationExpiresAt r = mo_confirmationExpiresAt m \<and> co_createdAt r = mo_createdAt m
      \<and> (mo_confirmationTokenHash m = None \<or> mo_confirmationTokenHash m = Some (co_confirmationTokenHash r))
      \<and> (mo_confirmationConsumedAt m = None \<or> mo_confirmationConsumedAt m = co_confirmationConsumedAt r))"

definition safe_mutable_record :: "capability_operation \<Rightarrow> migration_operation \<Rightarrow> capability_operation" where
  "safe_mutable_record r m =
     r\<lparr>co_status := mo_status m, co_updatedAt := mo_updatedAt m,
       co_candidateUpdateRequests := mo_candidateUpdateRequests m,
       co_rollbackUpdateRequests := mo_rollbackUpdateRequests m,
       co_readbackRequests := mo_readbackRequests m,
       co_reason := map_option (take 500) (mo_reason m), co_reasonCode := mo_reasonCode m,
       co_evidence := mo_evidence m\<rparr>"

definition requires_lease :: "migration_status \<Rightarrow> bool" where
  "requires_lease s = (s = MRunning \<or> s = MReconciling \<or> s = MRollingBack)"

definition transition_refusal ::
  "string \<Rightarrow> string \<Rightarrow> migration_status \<Rightarrow> int \<Rightarrow> migration_operation \<Rightarrow> string option \<Rightarrow> int
   \<Rightarrow> capability_operation \<Rightarrow> operation_failure option" where
  "transition_refusal sourceId workflowId expected revision nxt leaseProof now r =
     (if mb_sourceId (co_binding r) \<noteq> sourceId \<or> mb_workflowId (co_binding r) \<noteq> workflowId
      then Some OPERATION_IMMUTABLE_MISMATCH
      else if co_revision r \<noteq> revision then Some OPERATION_REVISION_CONFLICT
      else if co_status r \<noteq> expected then Some OPERATION_INVALID_STATE
      else if \<not> immutable_matches r nxt then Some OPERATION_IMMUTABLE_MISMATCH
      else if \<not> is_state_transition (co_status r) (mo_status nxt) then Some OPERATION_INVALID_STATE
      else if co_status r \<noteq> mo_status nxt \<and> terminal_status (co_status r) then Some OPERATION_INVALID_STATE
      else if requires_lease (co_status r)
           \<and> (case co_lease r of
                None \<Rightarrow> True
              | Some l \<Rightarrow> \<not> truthy leaseProof \<or> leaseProof \<noteq> Some (ls_leaseProof l) \<or> due_by (ls_expiresAt l) now)
      then Some OPERATION_LEASE_INVALID
      else None)"

definition transition_capability_operation ::
  "(string \<Rightarrow> string \<Rightarrow> int) \<Rightarrow> io_env \<Rightarrow> string \<Rightarrow> string \<Rightarrow> string \<Rightarrow> migration_status \<Rightarrow> int
   \<Rightarrow> migration_operation \<Rightarrow> string option \<Rightarrow> int
   \<Rightarrow> operation_disk \<Rightarrow> operation_disk \<times> compact_operation store_answer" where
  "transition_capability_operation cmp e i sourceId workflowId expected revision nxt leaseProof now d =
     with_operations cmp e d (\<lambda>rs.
       case operation_with_id i rs of
         None \<Rightarrow> Some (Inl OPERATION_NOT_FOUND, rs)
       | Some r \<Rightarrow>
           (case transition_refusal sourceId workflowId expected revision nxt leaseProof now r of
              Some code \<Rightarrow> Some (Inl code, rs)
            | None \<Rightarrow>
                (case to_iso now of
                   None \<Rightarrow> None
                 | Some at_now \<Rightarrow>
                     let f = (\<lambda>x. (safe_mutable_record x nxt)\<lparr>co_updatedAt := at_now, co_revision := co_revision x + 1\<rparr>)
                     in Some (Inr (compact (f r)), update_operation i f rs))))"

text \<open>\<^verbatim>\<open>asOperation\<close> of \<^verbatim>\<open>n8n-workflow-migration-capability.ts\<close>: the host hands a record to the
  state machine as it is.\<close>

definition as_operation :: "capability_operation \<Rightarrow> migration_operation" where
  "as_operation r =
     \<lparr>mo_operationId = co_operationId r, mo_status = co_status r, mo_binding = co_binding r,
      mo_confirmationTokenHash = Some (co_confirmationTokenHash r),
      mo_confirmationExpiresAt = co_confirmationExpiresAt r,
      mo_confirmationConsumedAt = co_confirmationConsumedAt r, mo_createdAt = co_createdAt r,
      mo_updatedAt = co_updatedAt r,
      mo_lease = map_option (\<lambda>l. \<lparr>ol_leaseProof = Some (ls_leaseProof l), ol_owner = ls_owner l,
                                  ol_acquiredAt = ls_acquiredAt l, ol_expiresAt = ls_expiresAt l\<rparr>) (co_lease r),
      mo_candidateUpdateRequests = co_candidateUpdateRequests r,
      mo_rollbackUpdateRequests = co_rollbackUpdateRequests r, mo_readbackRequests = co_readbackRequests r,
      mo_reason = co_reason r, mo_reasonCode = co_reasonCode r, mo_evidence = co_evidence r\<rparr>"

section \<open>The operations of a store: one id each, one live lease per workflow\<close>

definition leases_exclusive :: "int \<Rightarrow> capability_operation list \<Rightarrow> bool" where
  "leases_exclusive t rs =
     (distinct (map co_operationId rs)
      \<and> (\<forall>x \<in> set rs. \<forall>y \<in> set rs. same_workflow x y \<and> holds_lease t x \<and> holds_lease t y
            \<longrightarrow> co_operationId x = co_operationId y))"

lemma holds_lease_mono: "holds_lease t x \<Longrightarrow> s \<le> t \<Longrightarrow> holds_lease s x"
  by (auto simp: holds_lease_def lasts_after_def split: option.splits)

lemma leases_exclusive_mono: "leases_exclusive s rs \<Longrightarrow> s \<le> t \<Longrightarrow> leases_exclusive t rs"
  unfolding leases_exclusive_def using holds_lease_mono by blast

lemma leases_exclusive_submset: "mset ys \<subseteq># mset xs \<Longrightarrow> leases_exclusive t xs \<Longrightarrow> leases_exclusive t ys"
  unfolding leases_exclusive_def by (meson distinct_map_submset set_submset subsetD)

interpretation operation_list: bounded_list "kept_operations cmp" for cmp
  by unfold_locales (unfold kept_operations_def, metis mset_slice_last mset_js_sort)

lemma operation_with_id_Some: "operation_with_id i rs = Some r \<Longrightarrow> r \<in> set rs \<and> co_operationId r = i"
  by (auto simp: operation_with_id_def dest: find_Some_iff_in)

lemma operation_updated:
  assumes "operation_with_id i rs = Some r" "co_operationId (f r) = i"
  shows "operation_with_id i (update_operation i f rs) = Some (f r)"
    "map co_operationId (update_operation i f rs) = map co_operationId rs"
  using assms find_modify_first_keyed [of co_operationId i rs r f] map_modify_first_keyed [of co_operationId i rs r f]
  by (simp_all add: operation_with_id_def update_operation_def)

lemma set_update_operation:
  assumes "distinct (map co_operationId rs)" "operation_with_id i rs = Some r" "co_operationId (f r) = i"
  shows "set (update_operation i f rs) = insert (f r) {y \<in> set rs. co_operationId y \<noteq> i}"
  unfolding update_operation_def
  by (rule set_modify_first_keyed) (use assms in \<open>simp_all add: operation_with_id_def\<close>)

lemma leases_exclusive_update:
  assumes ex: "leases_exclusive t rs" and found: "operation_with_id i rs = Some r"
    and f: "co_operationId (f r) = co_operationId r" "co_binding (f r) = co_binding r"
    and guard: "holds_lease t (f r) \<Longrightarrow>
      holds_lease t r \<or> (\<forall>x \<in> set rs. co_operationId x \<noteq> i \<and> same_workflow x r \<longrightarrow> \<not> holds_lease t x)"
  shows "leases_exclusive t (update_operation i f rs)"
proof -
  have r: "r \<in> set rs" "co_operationId r = i" using operation_with_id_Some [OF found] by simp_all
  have dist: "distinct (map co_operationId rs)" using ex by (simp add: leases_exclusive_def)
  have only: "\<not> holds_lease t x"
    if "holds_lease t (f r)" "x \<in> set rs" "co_operationId x \<noteq> i" "same_workflow x r" for x
    using guard [OF that(1)] ex r that unfolding leases_exclusive_def by blast
  have elems: "set (update_operation i f rs) = insert (f r) {y \<in> set rs. co_operationId y \<noteq> i}"
    by (rule set_update_operation) (simp_all add: dist found f(1) r(2))
  have wf: "same_workflow x (f r) \<longleftrightarrow> same_workflow x r" "same_workflow (f r) x \<longleftrightarrow> same_workflow x r" for x
    using f(2) by (auto simp: same_workflow_def)
  have "co_operationId x = co_operationId y"
    if x: "x \<in> set (update_operation i f rs)" and y: "y \<in> set (update_operation i f rs)"
      and both: "same_workflow x y" "holds_lease t x" "holds_lease t y" for x y
  proof -
    consider "x = f r" "y = f r" | "x = f r" "y \<in> set rs" "co_operationId y \<noteq> i"
      | "x \<in> set rs" "co_operationId x \<noteq> i" "y = f r" | "x \<in> set rs" "y \<in> set rs"
      using x y unfolding elems by blast
    then show ?thesis
    proof cases
      case 2
      then show ?thesis using only [of y] both wf by (simp add: same_workflow_def)
    next
      case 3
      then show ?thesis using only [of x] both wf by simp
    next
      case 4
      then show ?thesis using ex both unfolding leases_exclusive_def by blast
    qed simp
  qed
  moreover have "distinct (map co_operationId (update_operation i f rs))"
    using dist found f(1) r(2) by (simp add: operation_updated(2))
  ultimately show ?thesis by (simp add: leases_exclusive_def)
qed

lemma leases_exclusive_new:
  assumes "leases_exclusive t rs" "co_operationId r \<notin> co_operationId ` set rs" "co_lease r = None"
  shows "leases_exclusive t (rs @ [r])"
  using assms by (auto simp: leases_exclusive_def holds_lease_def)

abbreviation operation_inv :: "int \<Rightarrow> operation_disk \<Rightarrow> bool" where
  "operation_inv t \<equiv> on_file (leases_exclusive t)"

lemma leases_exclusive_Nil [simp]: "leases_exclusive t []"
  by (simp add: leases_exclusive_def)

lemma operation_inv_mono: "operation_inv s d \<Longrightarrow> s \<le> t \<Longrightarrow> operation_inv t d"
  by (erule on_file_mono) (rule leases_exclusive_mono)

lemma read_operations_inv:
  "operation_inv t d \<Longrightarrow> read_operations d = Some rs \<Longrightarrow> leases_exclusive t rs \<and> list_all is_record rs"
  unfolding read_operations_def using read_on_file read_list_Some leases_exclusive_Nil by blast

lemma with_operations_inv:
  assumes "operation_inv t d"
    and "\<And>rs answer rs'. read_operations d = Some rs \<Longrightarrow> leases_exclusive t rs \<Longrightarrow> list_all is_record rs
           \<Longrightarrow> callback rs = Some (answer, rs') \<Longrightarrow> leases_exclusive t rs'"
  shows "operation_inv t (fst (with_operations cmp e d callback))"
  unfolding with_operations_def
  by (rule operation_list.with_list_keeps [OF assms(1)])
     (simp, metis leases_exclusive_submset,
      metis assms(2) read_operations_def read_list_Some)

section \<open>Every operation of the store keeps the leases exclusive\<close>

lemma create_prepared_inv:
  assumes "operation_inv t d" "\<And>rs. read_operations d = Some rs \<Longrightarrow> ''cap-op-'' @ io_uuid e \<notin> co_operationId ` set rs"
  shows "operation_inv t (fst (create_prepared_capability_operation cmp hash e b ttl now d))"
  unfolding create_prepared_capability_operation_def
  by (rule with_operations_inv [OF assms(1)])
     (use assms(2) in \<open>auto simp: Let_def intro!: leases_exclusive_new split: option.splits\<close>)

lemma persist_prepared_inv:
  "operation_inv t d \<Longrightarrow> operation_inv t (fst (persist_prepared_capability_operation cmp hash e m token d))"
  unfolding persist_prepared_capability_operation_def
  by (rule with_operations_inv)
     (auto simp: Let_def record_of_def list_ex_iff intro!: leases_exclusive_new split: if_splits)

lemma consume_confirmation_inv:
  "operation_inv t d \<Longrightarrow> operation_inv t (fst (consume_capability_operation_confirmation cmp hash e i token now d))"
  unfolding consume_capability_operation_confirmation_def
  by (rule with_operations_inv)
     (auto simp: Let_def holds_lease_def intro!: leases_exclusive_update split: option.splits if_splits)

lemma release_operation_inv:
  "operation_inv t d
   \<Longrightarrow> operation_inv t (fst (release_capability_operation_lease cmp e i s w v proof now d))"
  unfolding release_capability_operation_lease_def
  by (rule with_operations_inv)
     (auto simp: Let_def holds_lease_def intro!: leases_exclusive_update split: option.splits if_splits)

lemma transition_operation_inv:
  "operation_inv t d
   \<Longrightarrow> operation_inv t (fst (transition_capability_operation cmp e i s w st v nxt proof now d))"
  unfolding transition_capability_operation_def
  by (rule with_operations_inv)
     (auto simp: Let_def safe_mutable_record_def holds_lease_def intro!: leases_exclusive_update
       split: option.splits if_splits)

lemma live_lease_holds:
  assumes "is_record r" "lease_refusal s w v proof now r = None"
  shows "holds_lease now r"
  using assms
  by (auto simp: lease_refusal_def holds_lease_def due_by_def lasts_after_def is_record_def is_lease_def
        split: option.splits if_splits)

lemma renew_lease_inv:
  "operation_inv now d
   \<Longrightarrow> operation_inv now (fst (renew_capability_operation_lease cmp e i s w v proof ms now d))"
  unfolding renew_capability_operation_lease_def
proof (rule with_operations_inv, assumption)
  fix rs answer rs'
  assume ex: "leases_exclusive now rs" and recs: "list_all is_record rs"
    and c: "(case operation_with_id i rs of
         None \<Rightarrow> Some (Inl OPERATION_NOT_FOUND, rs)
       | Some r \<Rightarrow>
           (case lease_refusal s w v proof now r of
              Some code \<Rightarrow> Some (Inl code, rs)
            | None \<Rightarrow>
                if co_status r \<notin> {MRunning, MReconciling, MRollingBack} then Some (Inl OPERATION_INVALID_STATE, rs)
                else (case (to_iso (now + operation_lease_ms ms), to_iso now) of
                        (Some expiry, Some at_now) \<Rightarrow>
                          let f = (\<lambda>x. x\<lparr>co_lease := map_option (\<lambda>l. l\<lparr>ls_expiresAt := expiry\<rparr>) (co_lease x),
                                         co_updatedAt := at_now, co_revision := co_revision x + 1\<rparr>)
                          in Some (Inr (compact (f r)), update_operation i f rs)
                      | _ \<Rightarrow> None))) = Some (answer, rs')"
  show "leases_exclusive now rs'"
  proof (cases "rs' = rs")
    case False
    then obtain r where r: "operation_with_id i rs = Some r" using c by (auto split: option.splits)
    with c False have live: "lease_refusal s w v proof now r = None" by (auto split: option.splits)
    have "is_record r" using recs operation_with_id_Some [OF r] by (auto simp: list_all_iff)
    then have "holds_lease now r" using live by (rule live_lease_holds)
    with c False r live ex show ?thesis
      by (auto simp: Let_def intro!: leases_exclusive_update split: option.splits if_splits)
  qed (simp add: ex)
qed

lemma lapse_simps [simp]:
  "co_operationId (lapse now r) = co_operationId r" "co_binding (lapse now r) = co_binding r"
  by (simp_all add: lapse_def)

lemma lapse_holds: "holds_lease t (lapse now r) \<Longrightarrow> holds_lease t r"
  by (auto simp: lapse_def holds_lease_def split: if_splits)

lemma acquire_lease_inv:
  "operation_inv now d
   \<Longrightarrow> operation_inv now (fst (acquire_capability_operation_lease cmp e i owner ms now d))"
  unfolding acquire_capability_operation_lease_def
proof (rule with_operations_inv, assumption)
  fix rs answer rs'
  let ?f = "\<lambda>proof at_now expiry x. x\<lparr>co_lease := Some \<lparr>ls_leaseProof = proof, ls_owner = take 160 owner,
                                                   ls_acquiredAt = at_now, ls_expiresAt = expiry\<rparr>,
                                co_status := (if co_status x = MReconciling then MReconciling else MRunning),
                                co_updatedAt := at_now, co_revision := co_revision x + 1\<rparr> :: capability_operation"
  assume ex: "leases_exclusive now rs"
    and c: "(case operation_with_id i rs of
         None \<Rightarrow> Some (Inl OPERATION_NOT_FOUND, rs)
       | Some r0 \<Rightarrow>
           if holds_lease now r0 then Some (Inl OPERATION_LEASE_CONFLICT, rs)
           else let r = lapse now r0; rs1 = update_operation i (lapse now) rs in
             if co_status r \<noteq> MQueued \<and> co_status r \<noteq> MReconciling
             then Some (Inl OPERATION_INVALID_STATE, rs1)
             else if list_ex (\<lambda>x. co_operationId x \<noteq> co_operationId r \<and> same_workflow x r \<and> holds_lease now x) rs1
             then Some (Inl OPERATION_LEASE_CONFLICT, rs1)
             else case (to_iso now, to_iso (now + operation_lease_ms ms)) of
               (Some at_now, Some expiry) \<Rightarrow>
                 let proof = ''cap-lease-'' @ io_uuid e; f = ?f proof at_now expiry
                 in Some (Inr (proof, compact (f r)), update_operation i f rs1)
             | _ \<Rightarrow> None) = Some (answer, rs')"
  show "leases_exclusive now rs'"
  proof (cases "rs' = rs")
    case False
    then obtain r0 where r0: "operation_with_id i rs = Some r0" using c by (auto split: option.splits)
    let ?rs1 = "update_operation i (lapse now) rs"
    have r0i: "co_operationId r0 = i" using operation_with_id_Some [OF r0] by simp
    have ex1: "leases_exclusive now ?rs1"
      by (rule leases_exclusive_update [OF ex r0]) (auto dest: lapse_holds)
    have r1: "operation_with_id i ?rs1 = Some (lapse now r0)"
      by (rule operation_updated(1) [OF r0]) (simp add: r0i)
    show ?thesis
    proof (cases "rs' = ?rs1")
      case False
      with c r0 \<open>rs' \<noteq> rs\<close> obtain at_now expiry where
        rs': "rs' = update_operation i (?f (''cap-lease-'' @ io_uuid e) at_now expiry) ?rs1"
        and free: "\<not> list_ex (\<lambda>x. co_operationId x \<noteq> i \<and> same_workflow x (lapse now r0) \<and> holds_lease now x) ?rs1"
        by (auto simp: Let_def r0i split: option.splits if_splits)
      show ?thesis unfolding rs'
        by (rule leases_exclusive_update [OF ex1 r1]) (use free in \<open>auto simp: list_ex_iff\<close>)
    qed (simp add: ex1)
  qed (simp add: ex)
qed

section \<open>Runs of the store\<close>

text \<open>One call of the store; the answer is kept as far as it was a success.\<close>

datatype operation_call =
    CreatePrepared migration_binding rat
  | PersistPrepared migration_operation string
  | ConsumeConfirmation string string
  | AcquireOperationLease string string rat
  | RenewOperationLease string string string int string rat
  | ReleaseOperationLease string string string int string
  | TransitionOperation string string string migration_status int migration_operation "string option"

primrec run_call ::
  "(string \<Rightarrow> string \<Rightarrow> int) \<Rightarrow> (string \<Rightarrow> string) \<Rightarrow> io_env \<Rightarrow> int \<Rightarrow> operation_call
   \<Rightarrow> operation_disk \<Rightarrow> operation_disk \<times> bool" where
  "run_call cmp hash e now (CreatePrepared b ttl) d =
     map_prod id answered (create_prepared_capability_operation cmp hash e b ttl now d)"
| "run_call cmp hash e now (PersistPrepared m token) d =
     map_prod id answered (persist_prepared_capability_operation cmp hash e m token d)"
| "run_call cmp hash e now (ConsumeConfirmation i token) d =
     map_prod id answered (consume_capability_operation_confirmation cmp hash e i token now d)"
| "run_call cmp hash e now (AcquireOperationLease i owner ms) d =
     map_prod id answered (acquire_capability_operation_lease cmp e i owner ms now d)"
| "run_call cmp hash e now (RenewOperationLease i s w v proof ms) d =
     map_prod id answered (renew_capability_operation_lease cmp e i s w v proof ms now d)"
| "run_call cmp hash e now (ReleaseOperationLease i s w v proof) d =
     map_prod id answered (release_capability_operation_lease cmp e i s w v proof now d)"
| "run_call cmp hash e now (TransitionOperation i s w st v nxt proof) d =
     map_prod id answered (transition_capability_operation cmp e i s w st v nxt proof now d)"

text \<open>The id made from a new UUID is no id of the store.\<close>

definition fresh_uuid :: "io_env \<Rightarrow> operation_disk \<Rightarrow> bool" where
  "fresh_uuid e d =
     (case read_operations d of None \<Rightarrow> True
      | Some rs \<Rightarrow> list_all (\<lambda>r. co_operationId r \<noteq> ''cap-op-'' @ io_uuid e) rs)"

text \<open>The states of the file at time \<open>t\<close>, when the clock does not run backwards.\<close>

inductive operation_store_at ::
  "(string \<Rightarrow> string \<Rightarrow> int) \<Rightarrow> (string \<Rightarrow> string) \<Rightarrow> int \<Rightarrow> operation_disk \<Rightarrow> bool"
  for cmp hash where
  no_store: "operation_store_at cmp hash t NoFile"
| store_call: "operation_store_at cmp hash s d \<Longrightarrow> s \<le> now \<Longrightarrow> fresh_uuid e d
    \<Longrightarrow> operation_store_at cmp hash now (fst (run_call cmp hash e now c d))"

lemma run_call_inv:
  assumes "operation_inv now d" "fresh_uuid e d"
  shows "operation_inv now (fst (run_call cmp hash e now c d))"
proof (cases c)
  case (CreatePrepared b ttl)
  have "operation_inv now (fst (create_prepared_capability_operation cmp hash e b ttl now d))"
    by (rule create_prepared_inv) (use assms in \<open>auto simp: fresh_uuid_def list_all_iff\<close>)
  then show ?thesis by (simp add: CreatePrepared)
qed (use assms in \<open>simp_all add: persist_prepared_inv consume_confirmation_inv acquire_lease_inv renew_lease_inv
       release_operation_inv transition_operation_inv\<close>)

lemma operation_store_at_inv: "operation_store_at cmp hash t d \<Longrightarrow> operation_inv t d"
proof (induction rule: operation_store_at.induct)
  case (no_store t)
  show ?case by simp
next
  case (store_call s d now e c)
  show ?case by (rule run_call_inv [OF operation_inv_mono [OF store_call.IH]]) (use store_call.hyps in simp_all)
qed

text \<open>
  C5. Two operations on the same workflow of the same source never hold an unexpired lease at
  once, as long as time does not run backwards: from an absent file, after any calls of the store
  with any file-system failures and any other arguments, made at times each of which is not
  before the one of the call before it, and with UUIDs that give new operations ids that are not on
  file, two stored operations with leases that last beyond the present time are the same operation.
  (A time that was read before the lock was waited for can break the assumption; that an overlap is
  then possible is \<open>stale_renewal_overlaps\<close>.)
\<close>

theorem workflow_lease_exclusive:
  assumes "operation_store_at cmp hash now (Stored (u, rs))"
    and "x \<in> set rs" "y \<in> set rs" "same_workflow x y" "holds_lease now x" "holds_lease now y"
  shows "x = y"
proof -
  have ex: "leases_exclusive now rs" using operation_store_at_inv [OF assms(1)] by simp
  then have "co_operationId x = co_operationId y" using assms(2-6) unfolding leases_exclusive_def by blast
  moreover have "distinct (map co_operationId rs)" using ex by (simp add: leases_exclusive_def)
  ultimately show ?thesis using assms(2,3) distinct_map_eq [of co_operationId] by blast
qed

section \<open>A step of the state machine, stored\<close>

lemma handle_keeps:
  "mo_confirmationTokenHash (ad_operation (handle_event e m)) = mo_confirmationTokenHash m"
  "mo_lease (ad_operation (handle_event e m)) = mo_lease m"
  "mo_reason (ad_operation (handle_event e m)) = mo_reason m"
  by (cases e; simp add: handler_defs step_defs Let_def)+

definition persists_only :: "migration_operation \<Rightarrow> migration_effect \<Rightarrow> bool" where
  "persists_only m y = (case y of PersistOperation x \<Rightarrow> x = m | _ \<Rightarrow> True)"

lemma persists_only_all:
  "list_all (persists_only (ad_operation (handle_event e m))) (ad_effects (handle_event e m))"
  by (cases e; simp add: handler_defs step_defs persists_only_def Let_def)

lemma handle_persists:
  assumes "PersistOperation x \<in> set (ad_effects (handle_event e m))"
  shows "x = ad_operation (handle_event e m)"
proof -
  have "persists_only (ad_operation (handle_event e m)) (PersistOperation x)"
    using persists_only_all [of e m] assms unfolding list_all_iff by blast
  then show ?thesis by (simp add: persists_only_def)
qed

lemma advance_busy:
  assumes "PersistOperation x \<in> set (ad_effects (advance_controlled_workflow_migration m e))" "mo_status m \<noteq> MPrepared"
  shows "\<not> terminal_status (mo_status m)" "x = ad_operation (handle_event e m)"
proof -
  show busy: "\<not> terminal_status (mo_status m)"
    using assms(1) by (auto simp: advance_controlled_workflow_migration_def no_change_def split: if_splits)
  with assms show "x = ad_operation (handle_event e m)"
    using handle_persists [of x e m] by (simp add: advance_controlled_workflow_migration_def)
qed

lemma as_operation_simps [simp]:
  "mo_operationId (as_operation r) = co_operationId r" "mo_status (as_operation r) = co_status r"
  "mo_binding (as_operation r) = co_binding r"
  "mo_confirmationTokenHash (as_operation r) = Some (co_confirmationTokenHash r)"
  "mo_confirmationExpiresAt (as_operation r) = co_confirmationExpiresAt r"
  "mo_confirmationConsumedAt (as_operation r) = co_confirmationConsumedAt r"
  "mo_createdAt (as_operation r) = co_createdAt r" "mo_reason (as_operation r) = co_reason r"
  "mo_candidateUpdateRequests (as_operation r) = co_candidateUpdateRequests r"
  "mo_rollbackUpdateRequests (as_operation r) = co_rollbackUpdateRequests r"
  "mo_readbackRequests (as_operation r) = co_readbackRequests r" "mo_evidence (as_operation r) = co_evidence r"
  by (simp_all add: as_operation_def)

definition owns_lease :: "int \<Rightarrow> string option \<Rightarrow> capability_operation \<Rightarrow> bool" where
  "owns_lease now leaseProof r =
     (case co_lease r of None \<Rightarrow> False
      | Some l \<Rightarrow> truthy leaseProof \<and> leaseProof = Some (ls_leaseProof l) \<and> \<not> due_by (ls_expiresAt l) now)"

lemma machine_step_not_refused:
  assumes persist: "PersistOperation x \<in> set (ad_effects (advance_controlled_workflow_migration (as_operation r) e))"
    and st: "co_status r \<noteq> MPrepared" and lease: "requires_lease (co_status r) \<Longrightarrow> owns_lease now leaseProof r"
  shows "transition_refusal (mb_sourceId (co_binding r)) (mb_workflowId (co_binding r)) (co_status r)
           (co_revision r) x leaseProof now r = None"
proof -
  let ?m = "as_operation r"
  have busy: "\<not> terminal_status (co_status r)" and x: "x = ad_operation (handle_event e ?m)"
    using advance_busy [OF persist] st by simp_all
  have "immutable_matches r x"
    using handle_same_identity [of ?m e] handle_keeps [of e ?m] handle_keeps_confirmation [of ?m e] st
    by (simp add: immutable_matches_def same_identity_def x)
  moreover have "is_state_transition (co_status r) (mo_status x)"
    using handle_transition [of ?m e] by (simp add: x)
  ultimately show ?thesis using busy lease
    by (auto simp: transition_refusal_def owns_lease_def split: option.splits)
qed

definition stored_step :: "capability_operation \<Rightarrow> migration_operation \<Rightarrow> string \<Rightarrow> capability_operation" where
  "stored_step r x at_now = (safe_mutable_record r x)\<lparr>co_updatedAt := at_now, co_revision := co_revision r + 1\<rparr>"

lemma stored_step_view:
  assumes persist: "PersistOperation x \<in> set (ad_effects (advance_controlled_workflow_migration (as_operation r) e))"
    and st: "co_status r \<noteq> MPrepared" and "is_record r"
  shows "as_operation (stored_step r x at_now) = x\<lparr>mo_updatedAt := at_now\<rparr>"
proof -
  let ?m = "as_operation r"
  have x: "x = ad_operation (handle_event e ?m)" using advance_busy [OF persist] st by simp
  have "mo_reason x = co_reason r" "mo_confirmationTokenHash x = Some (co_confirmationTokenHash r)"
    "mo_lease x = mo_lease ?m" "mo_confirmationConsumedAt x = co_confirmationConsumedAt r" "same_identity ?m x"
    using handle_keeps [of e ?m] handle_same_identity [of ?m e] handle_keeps_confirmation [of ?m e] st
    by (simp_all add: x)
  moreover have "map_option (take 500) (co_reason r) = co_reason r"
    using assms(3) by (auto simp: is_record_def split: option.splits)
  ultimately show ?thesis
    by (intro migration_operation.equality)
       (simp_all add: as_operation_def stored_step_def safe_mutable_record_def same_identity_def)
qed

lemma handle_counts_bounded:
  "mo_candidateUpdateRequests m \<le> 1 \<Longrightarrow> mo_candidateUpdateRequests (ad_operation (handle_event e m)) \<le> 1"
  "mo_rollbackUpdateRequests m \<le> 1 \<Longrightarrow> mo_rollbackUpdateRequests (ad_operation (handle_event e m)) \<le> 1"
  "0 \<le> mo_readbackRequests m \<Longrightarrow> 0 \<le> mo_readbackRequests (ad_operation (handle_event e m))"
  by (cases e; simp add: handler_defs step_defs Let_def)+

lemma is_evidence_current: "is_evidence (mo_evidence m) \<Longrightarrow> is_evidence (Some (current_evidence m))"
  by (cases "mo_evidence m") (simp_all add: current_evidence_def no_evidence_def is_evidence_def opt_valid_def)

lemma hex_is_sha256_char: "hex_char = sha256_char"
  by (rule ext) (simp add: hex_char_def sha256_char_def)

lemma sha256_valid: "is_sha256 v \<Longrightarrow> opt_valid valid_hash v"
  by (auto simp: is_sha256_def opt_valid_def valid_hash_def hex_is_sha256_char split: option.splits)

lemma is_evidence_read:
  assumes "is_evidence (mo_evidence m)"
  shows "is_evidence (Some (read_evidence m r))"
  using is_evidence_current [OF assms] sha256_valid [of "rd_observedCanonicalSha256 r"]
  by (simp add: is_evidence_def read_evidence_def Let_def override_def)

lemma handle_evidence:
  assumes "is_evidence (mo_evidence m)"
  shows "is_evidence (mo_evidence (ad_operation (handle_event e m)))"
proof -
  have "is_evidence (Some ((current_evidence m)\<lparr>ev_mutationResult := a\<rparr>))"
    "is_evidence (Some ((current_evidence m)\<lparr>ev_rollbackResult := b\<rparr>))" for a b
    using is_evidence_current [OF assms] by (simp_all add: is_evidence_def)
  moreover have "current_evidence (m\<lparr>mo_status := st\<rparr>) = current_evidence m" for st by simp
  ultimately show ?thesis
    using assms is_evidence_read [OF assms] by (cases e; simp add: handler_defs step_defs Let_def)
qed

lemma stored_step_valid:
  assumes persist: "PersistOperation x \<in> set (ad_effects (advance_controlled_workflow_migration (as_operation r) e))"
    and st: "co_status r \<noteq> MPrepared" and rec: "is_record r"
    and at_now: "is_iso_date at_now" and rev: "co_revision r < 9007199254740991"
  shows "is_record (stored_step r x at_now) \<longleftrightarrow> mo_readbackRequests x \<le> 10"
proof -
  have x: "x = ad_operation (handle_event e (as_operation r))" using advance_busy [OF persist] st by simp
  have "is_evidence (mo_evidence x)" "mo_candidateUpdateRequests x \<le> 1" "mo_rollbackUpdateRequests x \<le> 1"
    "0 \<le> mo_readbackRequests x" "mo_reason x = co_reason r"
    unfolding x using rec handle_evidence [of "as_operation r" e] handle_counts_bounded [of "as_operation r" e]
      handle_keeps [of e "as_operation r"]
    by (simp_all add: is_record_def)
  then show ?thesis using rec at_now rev
    by (auto simp: is_record_def stored_step_def safe_mutable_record_def split: option.splits)
qed

lemma kept_operations_few:
  "length rs \<le> 300 \<Longrightarrow> kept_operations cmp rs = js_sort (by_creation cmp) rs"
  unfolding kept_operations_def by (rule slice_last_id) (metis mset_js_sort size_mset)

lemma option_ext: "(\<And>y. a = Some y \<longleftrightarrow> b = Some y) \<Longrightarrow> a = b"
  by (cases a; cases b) auto

lemma operation_with_id_kept:
  assumes "distinct (map co_operationId rs)" "length rs \<le> 300"
  shows "operation_with_id i (kept_operations cmp rs) = operation_with_id i rs"
proof -
  have kept: "kept_operations cmp rs = js_sort (by_creation cmp) rs" by (rule kept_operations_few [OF assms(2)])
  have dist: "distinct (map co_operationId (js_sort (by_creation cmp) rs))"
    using assms(1) by (simp add: distinct_js_sort)
  have "operation_with_id i (js_sort (by_creation cmp) rs) = Some r \<longleftrightarrow> operation_with_id i rs = Some r" for r
    unfolding operation_with_id_def find_key_iff [OF dist] find_key_iff [OF assms(1)] by simp
  then show ?thesis unfolding kept by (rule option_ext)
qed

lemma transition_stored:
  assumes "io_lock e = LockTaken" "io_write e = Saved" "read_operations d = Some rs"
    and "operation_with_id i rs = Some r" "to_iso now = Some at_now"
    and "transition_refusal s w st v nxt proof now r = None"
  shows "transition_capability_operation cmp e i s w st v nxt proof now d =
    (Stored (io_saveNow e, kept_operations cmp
       (update_operation i (\<lambda>x. (safe_mutable_record x nxt)\<lparr>co_updatedAt := at_now, co_revision := co_revision x + 1\<rparr>) rs)),
     Some (Inr (compact (stored_step r nxt at_now))))"
  using assms by (simp add: transition_capability_operation_def with_operations_def with_list_def write_disk_def read_operations_def stored_step_def)

text \<open>
  C8. The store carries out the state machine: for an operation of a reachable store that is no
  longer prepared, in a call that gets the lock and is written, and with the live lease where its
  state needs one, the operation that a step of the machine asks to persist is accepted at the
  current revision; what is stored afterwards is that operation, with the time of the write,
  one revision later, and every other operation is as before.
\<close>

theorem migration_store_refines_machine:
  assumes "operation_store_at cmp hash t d" "read_operations d = Some rs" "length rs \<le> 300"
    and "io_lock e = LockTaken" "io_write e = Saved" "to_iso now = Some at_now"
    and "operation_with_id i rs = Some r" "co_status r \<noteq> MPrepared"
    and "requires_lease (co_status r) \<Longrightarrow> owns_lease now leaseProof r"
    and "PersistOperation x \<in> set (ad_effects (advance_controlled_workflow_migration (as_operation r) ev))"
  shows "\<exists>rs' r'. transition_capability_operation cmp e i (mb_sourceId (co_binding r)) (mb_workflowId (co_binding r))
             (co_status r) (co_revision r) x leaseProof now d = (Stored (io_saveNow e, rs'), Some (Inr (compact r')))
           \<and> operation_with_id i rs' = Some r' \<and> as_operation r' = x\<lparr>mo_updatedAt := at_now\<rparr>
           \<and> co_revision r' = co_revision r + 1
           \<and> (\<forall>j. j \<noteq> i \<longrightarrow> operation_with_id j rs' = operation_with_id j rs)"
proof -
  let ?f = "\<lambda>y. (safe_mutable_record y x)\<lparr>co_updatedAt := at_now, co_revision := co_revision y + 1\<rparr>"
  let ?rs' = "update_operation i ?f rs"
  have ex: "leases_exclusive t rs" and recs: "list_all is_record rs"
    using read_operations_inv [OF operation_store_at_inv [OF assms(1)] assms(2)] by simp_all
  have r: "r \<in> set rs" "co_operationId r = i" using operation_with_id_Some [OF assms(7)] by simp_all
  have dist: "distinct (map co_operationId rs)" using ex by (simp add: leases_exclusive_def)
  have f: "?f r = stored_step r x at_now" "co_operationId (?f r) = i"
    by (simp_all add: stored_step_def safe_mutable_record_def r(2))
  have ids: "map co_operationId ?rs' = map co_operationId rs"
    by (rule operation_updated(2) [where f = ?f, OF assms(7) f(2)])
  have same: "operation_with_id j (kept_operations cmp ?rs') = operation_with_id j ?rs'" for j
    by (rule operation_with_id_kept) (use dist ids assms(3) in \<open>simp_all add: update_operation_def\<close>)
  have others: "operation_with_id j ?rs' = operation_with_id j rs" if "j \<noteq> i" for j
  proof -
    have "operation_with_id j ?rs' = Some y \<longleftrightarrow> operation_with_id j rs = Some y" for y
      unfolding operation_with_id_def find_key_iff [OF dist]
        find_key_iff [OF dist [folded ids]] set_update_operation [where f = ?f, OF dist assms(7) f(2)]
      using that f(2) by auto
    then show ?thesis by (rule option_ext)
  qed
  have run: "transition_capability_operation cmp e i (mb_sourceId (co_binding r)) (mb_workflowId (co_binding r))
      (co_status r) (co_revision r) x leaseProof now d
      = (Stored (io_saveNow e, kept_operations cmp ?rs'), Some (Inr (compact (stored_step r x at_now))))"
    by (rule transition_stored [OF assms(4,5,2,7,6)])
       (rule machine_step_not_refused [OF assms(10,8)], rule assms(9))
  have "is_record r" using recs r by (simp add: list_all_iff)
  then have "as_operation (stored_step r x at_now) = x\<lparr>mo_updatedAt := at_now\<rparr>"
    by (rule stored_step_view [OF assms(10,8)])
  moreover have "operation_with_id i ?rs' = Some (stored_step r x at_now)"
    using operation_updated(1) [where f = ?f, OF assms(7) f(2)] f(1) by simp
  moreover have "co_revision (stored_step r x at_now) = co_revision r + 1" by (simp add: stored_step_def)
  ultimately show ?thesis using run same others by fastforce
qed

section \<open>What is prepared is what is read\<close>

lemma persist_prepared_stored:
  assumes "persist_prepared_capability_operation cmp hash e m token d = (d', Some (Inr k))" "read_operations d = Some rs"
  shows "d' = Stored (io_saveNow e, kept_operations cmp (rs @ [record_of m (hash token)]))"
    "k = compact (record_of m (hash token))" "is_record (record_of m (hash token))"
    "mo_operationId m \<notin> co_operationId ` set rs"
  using assms
  by (auto simp: persist_prepared_capability_operation_def with_operations_def with_list_def write_disk_def read_operations_def Let_def list_ex_iff
        split: lock_outcome.splits write_outcome.splits if_splits)

text \<open>
  C30. Preparing round-trips through the file: when the store of a reachable file with room for it
  accepts a prepared operation, the next read of that id answers with exactly this operation,
  with the hash of the confirmation token in the place of the token and without a lease, and
  the compact read answers with what the preparation answered.
\<close>

theorem prepared_operation_round_trip:
  assumes "operation_store_at cmp hash t d" "read_operations d = Some rs" "length rs < 300"
    and "persist_prepared_capability_operation cmp hash e m token d = (d', Some (Inr k))"
  shows "\<exists>r. get_capability_operation_record (mo_operationId m) d' = Inr (Some r)
           \<and> as_operation r = m\<lparr>mo_confirmationTokenHash := Some (hash token), mo_lease := None\<rparr>
           \<and> get_compact_capability_operation (mo_operationId m) d' = Inr (Some k)"
proof -
  let ?r = "record_of m (hash token)"
  note stored = persist_prepared_stored [OF assms(4,2)]
  have ex: "leases_exclusive t rs" and recs: "list_all is_record rs"
    using read_operations_inv [OF operation_store_at_inv [OF assms(1)] assms(2)] by simp_all
  then have dist: "distinct (map co_operationId (rs @ [?r]))"
    using stored(4) by (simp add: leases_exclusive_def record_of_def)
  have "set (kept_operations cmp (rs @ [?r])) \<subseteq> set (rs @ [?r])"
    by (rule operation_list.set_keep)
  then have "list_all is_record (kept_operations cmp (rs @ [?r]))"
    using recs stored(3) unfolding list_all_iff by auto
  then have read: "read_operations d' = Some (kept_operations cmp (rs @ [?r]))"
    by (simp add: read_operations_def read_list_def stored(1))
  have "operation_with_id (mo_operationId m) (rs @ [?r]) = Some ?r"
    unfolding operation_with_id_def find_key_iff [OF dist] by (simp add: record_of_def)
  then have "operation_with_id (mo_operationId m) (kept_operations cmp (rs @ [?r])) = Some ?r"
    using operation_with_id_kept [OF dist] assms(3) by simp
  moreover have "as_operation ?r = m\<lparr>mo_confirmationTokenHash := Some (hash token), mo_lease := None\<rparr>"
    by (simp add: as_operation_def record_of_def)
  ultimately show ?thesis
    using read stored(2) by (simp add: get_capability_operation_record_def get_compact_capability_operation_def)
qed

section \<open>Revisions\<close>

text \<open>The calls that name the revision they expect, and those that prepare an operation.\<close>

primrec expects_revision :: "string \<Rightarrow> int \<Rightarrow> operation_call \<Rightarrow> bool" where
  "expects_revision i v (CreatePrepared b ttl) = False"
| "expects_revision i v (PersistPrepared m token) = False"
| "expects_revision i v (ConsumeConfirmation j token) = False"
| "expects_revision i v (AcquireOperationLease j owner ms) = False"
| "expects_revision i v (RenewOperationLease j s w u proof ms) = (j = i \<and> u = v)"
| "expects_revision i v (ReleaseOperationLease j s w u proof) = (j = i \<and> u = v)"
| "expects_revision i v (TransitionOperation j s w st u nxt proof) = (j = i \<and> u = v)"

definition prepares :: "string \<Rightarrow> io_env \<Rightarrow> operation_call \<Rightarrow> bool" where
  "prepares i e c =
     (case c of CreatePrepared b ttl \<Rightarrow> ''cap-op-'' @ io_uuid e = i
      | PersistPrepared m token \<Rightarrow> mo_operationId m = i | _ \<Rightarrow> False)"

definition revision_above :: "string \<Rightarrow> int \<Rightarrow> capability_operation list \<Rightarrow> bool" where
  "revision_above i v rs = (\<forall>r \<in> set rs. co_operationId r = i \<longrightarrow> v < co_revision r)"

abbreviation stored_above :: "string \<Rightarrow> int \<Rightarrow> operation_disk \<Rightarrow> bool" where
  "stored_above i v \<equiv> on_file (revision_above i v)"

lemma revision_above_update:
  assumes "revision_above i v rs" "operation_with_id j rs = Some r"
    and "co_operationId (f r) = co_operationId r" "co_revision r \<le> co_revision (f r)"
  shows "revision_above i v (update_operation j f rs)"
proof -
  have "r \<in> set rs" using operation_with_id_Some [OF assms(2)] by simp
  then have "co_operationId r = i \<longrightarrow> v < co_revision r" using assms(1) by (simp add: revision_above_def)
  moreover have "x \<in> set rs \<or> x = f r" if "x \<in> set (update_operation j f rs)" for x
    using that assms(2) set_modify_first unfolding update_operation_def operation_with_id_def by fastforce
  ultimately show ?thesis using assms(1,3,4) unfolding revision_above_def by fastforce
qed

lemma revision_above_part: "revision_above i v xs \<Longrightarrow> mset ys \<subseteq># mset xs \<Longrightarrow> revision_above i v ys"
  unfolding revision_above_def using set_submset by blast

lemma with_operations_above:
  assumes "stored_above i v d"
    and "\<And>rs answer rs'. revision_above i v rs \<Longrightarrow> callback rs = Some (answer, rs') \<Longrightarrow> revision_above i v rs'"
  shows "stored_above i v (fst (with_operations cmp e d callback))"
  unfolding with_operations_def
  by (rule operation_list.with_list_keeps [OF assms(1)])
     (simp add: revision_above_def, metis revision_above_part, metis assms(2))

lemma lapse_revision [simp]: "co_revision (lapse now r) = co_revision r"
  by (simp add: lapse_def)

lemma acquire_above:
  assumes "revision_above i v rs" "operation_with_id j rs = Some r0"
    and "co_operationId (f (lapse now r0)) = co_operationId r0" "co_revision r0 \<le> co_revision (f (lapse now r0))"
  shows "revision_above i v (update_operation j (lapse now) rs)"
    "revision_above i v (update_operation j f (update_operation j (lapse now) rs))"
proof -
  show one: "revision_above i v (update_operation j (lapse now) rs)"
    by (rule revision_above_update [OF assms(1,2)]) simp_all
  have j: "co_operationId r0 = j" using operation_with_id_Some [OF assms(2)] by simp
  have "operation_with_id j (update_operation j (lapse now) rs) = Some (lapse now r0)"
    by (rule operation_updated(1) [OF assms(2)]) (simp add: j)
  then show "revision_above i v (update_operation j f (update_operation j (lapse now) rs))"
    by (rule revision_above_update [OF one]) (use assms(3,4) in simp_all)
qed

lemma stored_above_call:
  assumes above: "stored_above i v d" and "\<not> prepares i e c"
  shows "stored_above i v (fst (run_call cmp hash e now c d))"
proof (cases c)
  case (CreatePrepared b ttl)
  then show ?thesis using assms
    by (simp add: create_prepared_capability_operation_def)
       (rule with_operations_above, assumption,
        auto simp: Let_def prepares_def revision_above_def split: option.splits)
next
  case (PersistPrepared m token)
  then show ?thesis using assms
    by (simp add: persist_prepared_capability_operation_def)
       (rule with_operations_above, assumption,
        auto simp: Let_def prepares_def revision_above_def record_of_def split: if_splits)
next
  case (ConsumeConfirmation j token)
  then show ?thesis using above
    by (simp add: consume_capability_operation_confirmation_def)
       (rule with_operations_above, assumption,
        auto simp: Let_def intro!: revision_above_update split: option.splits if_splits)
next
  case (AcquireOperationLease j owner ms)
  then show ?thesis using above
    by (simp add: acquire_capability_operation_lease_def)
       (rule with_operations_above, assumption,
        auto simp: Let_def intro: acquire_above(1) intro!: acquire_above(2) split: option.splits if_splits)
next
  case (RenewOperationLease j s w u p ms)
  then show ?thesis using above
    by (simp add: renew_capability_operation_lease_def)
       (rule with_operations_above, assumption,
        auto simp: Let_def intro!: revision_above_update split: option.splits if_splits)
next
  case (ReleaseOperationLease j s w u p)
  then show ?thesis using above
    by (simp add: release_capability_operation_lease_def)
       (rule with_operations_above, assumption,
        auto simp: Let_def intro!: revision_above_update split: option.splits if_splits)
next
  case (TransitionOperation j s w st u nxt p)
  then show ?thesis using above
    by (simp add: transition_capability_operation_def)
       (rule with_operations_above, assumption,
        auto simp: Let_def safe_mutable_record_def intro!: revision_above_update split: option.splits if_splits)
qed

lemma with_operations_answered:
  assumes "answered (snd (with_operations cmp e d callback))"
  obtains rs v rs' where "read_operations d = Some rs" "callback rs = Some (Inr v, rs')"
    "fst (with_operations cmp e d callback) = Stored (io_saveNow e, kept_operations cmp rs')"
  using assms unfolding with_operations_def read_operations_def
  by (elim with_list_answered) (metis fst_conv)

text \<open>A call that names the current revision moves it on; one that names an older one is refused.\<close>

lemma revision_update_above:
  assumes "leases_exclusive t rs" "operation_with_id i rs = Some r"
    and "co_operationId (f r) = co_operationId r" "co_revision r < co_revision (f r)"
  shows "revision_above i (co_revision r) (kept_operations cmp (update_operation i f rs))"
proof -
  have i: "co_operationId r = i" using operation_with_id_Some [OF assms(2)] by simp
  have "set (update_operation i f rs) = insert (f r) {y \<in> set rs. co_operationId y \<noteq> i}"
    by (rule set_update_operation) (use assms i in \<open>simp_all add: leases_exclusive_def\<close>)
  then have "revision_above i (co_revision r) (update_operation i f rs)"
    using assms(4) by (simp add: revision_above_def)
  then show ?thesis using revision_above_part [OF _ operation_list.keep_part] by simp
qed

lemma expects_revision_moves:
  assumes inv: "operation_inv t d" and c: "expects_revision i v c" and ok: "snd (run_call cmp hash e now c d)"
  shows "stored_above i v (fst (run_call cmp hash e now c d))"
proof (cases c)
  case (RenewOperationLease j s w u p ms)
  with c have eq: "j = i" "u = v" by simp_all
  have "answered (snd (renew_capability_operation_lease cmp e i s w v p ms now d))"
    using ok by (simp add: RenewOperationLease eq)
  then show ?thesis unfolding RenewOperationLease eq run_call.simps fst_map_prod id_apply renew_capability_operation_lease_def
    by (rule with_operations_answered)
       (use read_operations_inv [OF inv] in \<open>auto simp: Let_def lease_refusal_def
          intro!: revision_update_above split: option.splits if_splits\<close>)
next
  case (ReleaseOperationLease j s w u p)
  with c have eq: "j = i" "u = v" by simp_all
  have "answered (snd (release_capability_operation_lease cmp e i s w v p now d))"
    using ok by (simp add: ReleaseOperationLease eq)
  then show ?thesis unfolding ReleaseOperationLease eq run_call.simps fst_map_prod id_apply release_capability_operation_lease_def
    by (rule with_operations_answered)
       (use read_operations_inv [OF inv] in \<open>auto simp: Let_def lease_refusal_def
          intro!: revision_update_above split: option.splits if_splits\<close>)
next
  case (TransitionOperation j s w st u nxt p)
  with c have eq: "j = i" "u = v" by simp_all
  have "answered (snd (transition_capability_operation cmp e i s w st v nxt p now d))"
    using ok by (simp add: TransitionOperation eq)
  then show ?thesis unfolding TransitionOperation eq run_call.simps fst_map_prod id_apply transition_capability_operation_def
    by (rule with_operations_answered)
       (use read_operations_inv [OF inv] in \<open>auto simp: Let_def transition_refusal_def safe_mutable_record_def
          intro!: revision_update_above split: option.splits if_splits\<close>)
qed (use c in simp_all)

lemma stale_call_refused:
  assumes "stored_above i v d" "expects_revision i v c"
  shows "\<not> snd (run_call cmp hash e now c d)"
proof
  assume ok: "snd (run_call cmp hash e now c d)"
  have old: "co_revision r \<noteq> v" if "read_operations d = Some rs" "operation_with_id i rs = Some r" for rs r
    using read_on_file [OF that(1) [unfolded read_operations_def] assms(1)] operation_with_id_Some [OF that(2)]
    by (auto simp: revision_above_def)
  show False
  proof (cases c)
    case (RenewOperationLease j s w u p ms)
    with assms(2) have eq: "j = i" "u = v" by simp_all
    have "answered (snd (renew_capability_operation_lease cmp e i s w v p ms now d))"
      using ok by (simp add: RenewOperationLease eq)
    then show False unfolding renew_capability_operation_lease_def
      by (rule with_operations_answered)
         (use old in \<open>auto simp: Let_def lease_refusal_def split: option.splits if_splits\<close>)
  next
    case (ReleaseOperationLease j s w u p)
    with assms(2) have eq: "j = i" "u = v" by simp_all
    have "answered (snd (release_capability_operation_lease cmp e i s w v p now d))"
      using ok by (simp add: ReleaseOperationLease eq)
    then show False unfolding release_capability_operation_lease_def
      by (rule with_operations_answered)
         (use old in \<open>auto simp: Let_def lease_refusal_def split: option.splits if_splits\<close>)
  next
    case (TransitionOperation j s w st u nxt p)
    with assms(2) have eq: "j = i" "u = v" by simp_all
    have "answered (snd (transition_capability_operation cmp e i s w st v nxt p now d))"
      using ok by (simp add: TransitionOperation eq)
    then show False unfolding transition_capability_operation_def
      by (rule with_operations_answered)
         (use old in \<open>auto simp: Let_def transition_refusal_def split: option.splits if_splits\<close>)
  qed (use assms(2) in simp_all)
qed

definition run_calls ::
  "(string \<Rightarrow> string \<Rightarrow> int) \<Rightarrow> (string \<Rightarrow> string) \<Rightarrow> (io_env \<times> int \<times> operation_call) list
   \<Rightarrow> operation_disk \<Rightarrow> operation_disk" where
  "run_calls cmp hash cs d = foldl (\<lambda>d (e, now, c). fst (run_call cmp hash e now c d)) d cs"

lemma stored_above_run:
  "stored_above i v d \<Longrightarrow> list_all (\<lambda>(e, now, c). \<not> prepares i e c) cs \<Longrightarrow> stored_above i v (run_calls cmp hash cs d)"
proof (induction cs arbitrary: d)
  case Nil
  then show ?case by (simp add: run_calls_def)
next
  case (Cons x cs)
  obtain e now c where x: "x = (e, now, c)" by (cases x)
  have "stored_above i v (fst (run_call cmp hash e now c d))"
    by (rule stored_above_call [OF Cons.prems(1)]) (use Cons.prems(2) x in simp)
  from Cons.IH [OF this] show ?case using Cons.prems(2) by (simp add: run_calls_def x)
qed

text \<open>
  Compare-and-set: of the callers that read one revision of an operation, at most one changes
  it. After a call of a reachable store that names the revision it expects (a transition, a
  renewal or a release) has succeeded, no later call that names the same revision of the same
  operation succeeds, whatever other calls come between, unless one of them prepares a new
  operation under the id after the old one has left the file.
\<close>

theorem revision_spent_once:
  assumes "operation_store_at cmp hash t d"
    and "expects_revision i v first" "snd (run_call cmp hash e now first d)"
    and "list_all (\<lambda>(e, now, c). \<not> prepares i e c) between"
    and "expects_revision i v second"
  shows "\<not> snd (run_call cmp hash e' now' second
           (run_calls cmp hash between (fst (run_call cmp hash e now first d))))"
  by (rule stale_call_refused [OF stored_above_run [OF
        expects_revision_moves [OF operation_store_at_inv [OF assms(1)] assms(2,3)] assms(4)] assms(5)])

section \<open>The bound on readbacks\<close>

text \<open>
  The eleventh readback makes the whole store unreadable. The machine counts the readbacks of
  a recovered operation without a bound, and the store does not validate the operation it is
  handed, but the reader accepts at most ten: recovering once more an operation with ten
  readbacks is accepted and stored, and from then on every operation, also those of other
  workflows, is answered with the corruption of the store.
\<close>

theorem eleventh_readback_corrupts_store:
  assumes "read_operations d = Some rs" "length rs \<le> 300"
    and "io_lock e = LockTaken" "io_write e = Saved" "to_iso now = Some at_now"
    and "operation_with_id i rs = Some r" "co_status r \<in> {MReconciling, MRollingBack}" "co_readbackRequests r = 10"
    and "owns_lease now leaseProof r"
  shows "let decision = advance_controlled_workflow_migration (as_operation r) (RecoveryResume tm);
             (d', answer) = transition_capability_operation cmp e i (mb_sourceId (co_binding r)) (mb_workflowId (co_binding r))
               (co_status r) (co_revision r) (ad_operation decision) leaseProof now d
         in PersistOperation (ad_operation decision) \<in> set (ad_effects decision) \<and> answered answer
            \<and> (\<forall>j. get_capability_operation_record j d' = Inl OPERATION_STORE_CORRUPT)"
proof -
  let ?d = "advance_controlled_workflow_migration (as_operation r) (RecoveryResume tm)"
  let ?x = "ad_operation ?d"
  let ?f = "\<lambda>y. (safe_mutable_record y ?x)\<lparr>co_updatedAt := at_now, co_revision := co_revision y + 1\<rparr>"
  let ?rs' = "kept_operations cmp (update_operation i ?f rs)"
  have persist: "PersistOperation ?x \<in> set (ad_effects ?d)" and eleven: "mo_readbackRequests ?x = 11"
    using assms(7,8)
    by (auto simp: advance_controlled_workflow_migration_def terminal_status_def handle_recovery_resume_def
          step_defs Let_def)
  have "co_status r \<noteq> MPrepared" using assms(7) by auto
  then have run: "transition_capability_operation cmp e i (mb_sourceId (co_binding r)) (mb_workflowId (co_binding r))
      (co_status r) (co_revision r) ?x leaseProof now d
      = (Stored (io_saveNow e, ?rs'), Some (Inr (compact (stored_step r ?x at_now))))"
    by (intro transition_stored [OF assms(3,4,1,6,5)] machine_step_not_refused [OF persist]) (simp_all add: assms(9))
  have "?f r \<in> set (update_operation i ?f rs)"
    unfolding update_operation_def
    by (rule find_modify_first [where f = ?f]) (use assms(6) in \<open>simp add: operation_with_id_def\<close>)
  moreover have "kept_operations cmp (update_operation i ?f rs) = js_sort (by_creation cmp) (update_operation i ?f rs)"
    by (rule kept_operations_few) (simp add: update_operation_def assms(2))
  ultimately have "?f r \<in> set ?rs'" by simp
  moreover have "\<not> is_record (?f r)" by (simp add: is_record_def safe_mutable_record_def eleven)
  ultimately have "read_operations (Stored (io_saveNow e, ?rs')) = None"
    unfolding read_operations_def read_list_def list_all_iff disk.case prod.case by meson
  then have "get_capability_operation_record j (Stored (io_saveNow e, ?rs')) = Inl OPERATION_STORE_CORRUPT" for j
    unfolding get_capability_operation_record_def by (simp only: option.case)
  moreover have "answered (Some (Inr k))" for k :: compact_operation by (simp add: answered_def)
  ultimately show ?thesis unfolding Let_def run prod.case using persist by blast
qed

section \<open>A concrete store\<close>

definition sample_order :: "string \<Rightarrow> string \<Rightarrow> int" where
  "sample_order a b = (if a < b then - 1 else if a = b then 0 else 1)"

definition store_env :: io_env where
  "store_env = (sample_env noon)\<lparr>io_uuid := replicate 36 (CHR ''f'')\<rparr>"

text \<open>2026-01-01T12:05:00.000Z.\<close>

definition store_now :: int where "store_now = 1767269100000"

definition sample_proof :: string where
  "sample_proof = ''cap-lease-'' @ replicate 36 (CHR ''f'')"

definition sample_record :: capability_operation where
  "sample_record =
     \<lparr>co_operationId = ''op'', co_status = MRunning, co_binding = prepare_binding sample_prepare,
      co_confirmationTokenHash = sample_hash [], co_confirmationExpiresAt = ''2026-01-01T12:10:00.000Z'',
      co_confirmationConsumedAt = Some sample_time, co_createdAt = noon, co_updatedAt = sample_time,
      co_lease = Some \<lparr>ls_leaseProof = sample_proof, ls_owner = ''worker'',
                       ls_acquiredAt = sample_time, ls_expiresAt = ''2026-01-01T12:06:00.000Z''\<rparr>,
      co_candidateUpdateRequests = 0, co_rollbackUpdateRequests = 0, co_readbackRequests = 0, co_reason = None,
      co_reasonCode = Some PREPARED,
      co_evidence = Some (no_evidence\<lparr>ev_protectedDomains := Some DomainsUnchanged\<rparr>), co_revision = 2\<rparr>"

definition prepared_record :: "string \<Rightarrow> capability_operation" where
  "prepared_record i = record_of (prepared_operation (sample_prepare\<lparr>pi_operationId := i\<rparr>)) (sample_hash [])"

definition queued_record :: "string \<Rightarrow> capability_operation" where
  "queued_record i =
     (prepared_record i)\<lparr>co_status := MQueued, co_confirmationConsumedAt := Some sample_time,
                         co_updatedAt := sample_time, co_revision := 1\<rparr>"

text \<open>Two operations on one workflow, of which the first has the lease when the second asks for it.\<close>

abbreviation "sample_call c d \<equiv> fst (run_call sample_order sample_hash store_env store_now c d)"

abbreviation "sample_queued \<equiv> Stored (noon, [queued_record ''op''])"
abbreviation "sample_running \<equiv> Stored (noon, [sample_record])"
abbreviation "sample_both \<equiv> Stored (noon, [sample_record, queued_record ''op2''])"

definition sample_operation :: "string \<Rightarrow> migration_operation" where
  "sample_operation i = prepared_operation (sample_prepare\<lparr>pi_operationId := i\<rparr>)"

lemma sample_persisted:
  "persist_prepared_capability_operation sample_order sample_hash store_env (sample_operation ''op'') ''token'' NoFile
     = (Stored (noon, [prepared_record ''op'']), Some (Inr (compact (prepared_record ''op''))))"
  by code_simp

lemma sample_call_values:
  "sample_call (PersistPrepared (sample_operation ''op'') ''token'') NoFile = Stored (noon, [prepared_record ''op''])"
  "sample_call (ConsumeConfirmation ''op'' ''token'') (Stored (noon, [prepared_record ''op''])) = sample_queued"
  "sample_call (AcquireOperationLease ''op'' ''worker'' 60000) sample_queued = sample_running"
  "sample_call (PersistPrepared (sample_operation ''op2'') ''token'') sample_running
     = Stored (noon, [sample_record, prepared_record ''op2''])"
  "sample_call (ConsumeConfirmation ''op2'' ''token'') (Stored (noon, [sample_record, prepared_record ''op2''])) = sample_both"
  "sample_call (AcquireOperationLease ''op2'' ''worker'' 60000) sample_both = sample_both"
  by code_simp+

lemma sample_call_at:
  assumes "operation_store_at sample_order sample_hash store_now d" "fresh_uuid store_env d" "sample_call c d = d'"
  shows "operation_store_at sample_order sample_hash store_now d'"
  using store_call [OF assms(1) order_refl assms(2), of c] assms(3) by simp

lemma fresh_samples:
  "fresh_uuid store_env NoFile" "fresh_uuid store_env (Stored (noon, [prepared_record ''op'']))"
  "fresh_uuid store_env sample_queued" "fresh_uuid store_env sample_running"
  "fresh_uuid store_env (Stored (noon, [sample_record, prepared_record ''op2'']))"
  by code_simp+

lemma sample_running_at: "operation_store_at sample_order sample_hash store_now sample_running"
  by (rule sample_call_at [OF _ fresh_samples(3) sample_call_values(3)],
      rule sample_call_at [OF _ fresh_samples(2) sample_call_values(2)],
      rule sample_call_at [OF no_store fresh_samples(1) sample_call_values(1)])

lemma sample_both_at: "operation_store_at sample_order sample_hash store_now sample_both"
  by (rule sample_call_at [OF _ fresh_samples(5) sample_call_values(5)],
      rule sample_call_at [OF sample_running_at fresh_samples(4) sample_call_values(4)])

theorem workflow_lease_exclusive_witness:
  "holds_lease store_now sample_record \<and> \<not> holds_lease store_now (queued_record ''op2'')"
proof -
  note once = workflow_lease_exclusive [OF sample_both_at, of sample_record "queued_record ''op2''"]
  have held: "holds_lease store_now sample_record" by code_simp
  have "sample_record \<noteq> queued_record ''op2''" "same_workflow sample_record (queued_record ''op2'')" by code_simp+
  with once held show ?thesis by auto
qed

text \<open>
  Finding: the time of a call is read, or given by the caller, before the lock is waited for. A
  renewal that carries a time before the expiry of its lease revives the lease although another
  operation on the workflow has meanwhile taken it, and both are held.
\<close>

lemma stale_renewal_overlaps:
  "let taken = fst (run_call sample_order sample_hash store_env (store_now + 90000)
         (AcquireOperationLease ''op2'' ''other'' 60000) sample_both);
       revived = fst (run_call sample_order sample_hash store_env (store_now + 30000)
         (RenewOperationLease ''op'' ''src'' ''wf'' 2 sample_proof 180000) taken)
   in (case revived of
         Stored (u, rs) \<Rightarrow> map co_operationId (filter (holds_lease (store_now + 90000)) rs) \<in> {[''op'', ''op2''], [''op2'', ''op'']}
       | _ \<Rightarrow> False)"
  by code_simp

theorem prepared_operation_round_trip_witness:
  "\<exists>r. get_capability_operation_record ''op'' (Stored (noon, [prepared_record ''op''])) = Inr (Some r)
     \<and> mo_status (as_operation r) = MPrepared \<and> mo_confirmationTokenHash (as_operation r) = Some (sample_hash [])"
proof -
  from prepared_operation_round_trip [OF no_store _ _ sample_persisted] obtain r where
    r: "get_capability_operation_record (mo_operationId (sample_operation ''op'')) (Stored (noon, [prepared_record ''op''])) = Inr (Some r)"
    "as_operation r = (sample_operation ''op'')\<lparr>mo_confirmationTokenHash := Some (sample_hash ''token''), mo_lease := None\<rparr>"
    by (auto simp: read_operations_def read_list_def)
  have "mo_status (as_operation r) = MPrepared" "mo_confirmationTokenHash (as_operation r) = Some (sample_hash [])"
    unfolding r(2) by (simp_all add: sample_operation_def prepared_operation_def sample_hash_def)
  moreover have "mo_operationId (sample_operation ''op'') = ''op''" by code_simp
  ultimately show ?thesis using r(1) by auto
qed

definition sample_step :: migration_operation where
  "sample_step =
     ad_operation (advance_controlled_workflow_migration (as_operation sample_record)
       (PreconditionReadback (plain_read MatchesPreMutation) sample_time))"

lemma sample_facts:
  "read_operations sample_running = Some [sample_record]" "operation_with_id ''op'' [sample_record] = Some sample_record"
  "to_iso store_now = Some sample_time" "owns_lease store_now (Some sample_proof) sample_record"
  by code_simp+

theorem migration_store_refines_machine_witness:
  "\<exists>rs' r'. fst (transition_capability_operation sample_order store_env ''op'' ''src'' ''wf'' MRunning 2 sample_step
              (Some sample_proof) store_now sample_running) = Stored (noon, rs')
     \<and> operation_with_id ''op'' rs' = Some r' \<and> co_reasonCode r' = Some PRECONDITION_CONFIRMED"
proof -
  let ?p = "Some sample_proof"
  let ?e = "PreconditionReadback (plain_read MatchesPreMutation) sample_time"
  have "list_ex (\<lambda>y. y = PersistOperation sample_step)
      (ad_effects (advance_controlled_workflow_migration (as_operation sample_record) ?e))" by code_simp
  then have persist: "PersistOperation sample_step \<in> set (ad_effects (advance_controlled_workflow_migration (as_operation sample_record) ?e))"
    by (auto simp: list_ex_iff)
  have env: "io_lock store_env = LockTaken" "io_write store_env = Saved" "io_saveNow store_env = noon"
    "mb_sourceId (co_binding sample_record) = ''src''" "mb_workflowId (co_binding sample_record) = ''wf''"
    "co_status sample_record = MRunning" "co_revision sample_record = 2"
    "mo_reasonCode sample_step = Some PRECONDITION_CONFIRMED" by code_simp+
  have "\<exists>rs' r'. transition_capability_operation sample_order store_env ''op'' (mb_sourceId (co_binding sample_record))
        (mb_workflowId (co_binding sample_record)) (co_status sample_record) (co_revision sample_record) sample_step ?p store_now
        sample_running = (Stored (io_saveNow store_env, rs'), Some (Inr (compact r')))
      \<and> operation_with_id ''op'' rs' = Some r' \<and> as_operation r' = sample_step\<lparr>mo_updatedAt := sample_time\<rparr>
      \<and> co_revision r' = co_revision sample_record + 1
      \<and> (\<forall>j. j \<noteq> ''op'' \<longrightarrow> operation_with_id j rs' = operation_with_id j [sample_record])"
    by (rule migration_store_refines_machine [OF sample_running_at sample_facts(1) _ env(1,2) sample_facts(3,2) _ _ persist])
       (simp_all add: env sample_facts)
  then obtain rs' r' where run: "transition_capability_operation sample_order store_env ''op'' ''src'' ''wf'' MRunning 2 sample_step
      ?p store_now sample_running = (Stored (noon, rs'), Some (Inr (compact r')))"
    and r': "operation_with_id ''op'' rs' = Some r'" "as_operation r' = sample_step\<lparr>mo_updatedAt := sample_time\<rparr>"
    unfolding env by blast
  have "mo_reasonCode (as_operation r') = mo_reasonCode sample_step" by (simp add: r'(2))
  then have "co_reasonCode r' = Some PRECONDITION_CONFIRMED" by (simp add: as_operation_def env)
  with run r'(1) show ?thesis by simp
qed

theorem revision_spent_once_witness:
  "snd (run_call sample_order sample_hash store_env store_now
          (RenewOperationLease ''op'' ''src'' ''wf'' 2 sample_proof 60000) sample_running)
   \<and> \<not> snd (run_call sample_order sample_hash store_env store_now
          (ReleaseOperationLease ''op'' ''src'' ''wf'' 2 sample_proof)
          (run_calls sample_order sample_hash [(store_env, store_now, AcquireOperationLease ''op'' ''worker'' 60000)]
             (fst (run_call sample_order sample_hash store_env store_now
                (RenewOperationLease ''op'' ''src'' ''wf'' 2 sample_proof 60000) sample_running))))"
proof (rule conjI)
  show ok: "snd (run_call sample_order sample_hash store_env store_now
          (RenewOperationLease ''op'' ''src'' ''wf'' 2 sample_proof 60000) sample_running)"
    by code_simp
  show "\<not> snd (run_call sample_order sample_hash store_env store_now
          (ReleaseOperationLease ''op'' ''src'' ''wf'' 2 sample_proof)
          (run_calls sample_order sample_hash [(store_env, store_now, AcquireOperationLease ''op'' ''worker'' 60000)]
             (fst (run_call sample_order sample_hash store_env store_now
                (RenewOperationLease ''op'' ''src'' ''wf'' 2 sample_proof 60000) sample_running))))"
    by (rule revision_spent_once [OF sample_running_at _ ok]) (simp_all add: prepares_def)
qed

definition recovering_record :: capability_operation where
  "recovering_record = sample_record\<lparr>co_status := MReconciling, co_readbackRequests := 10\<rparr>"

theorem eleventh_readback_corrupts_store_witness:
  "let decision = advance_controlled_workflow_migration (as_operation recovering_record) (RecoveryResume sample_time);
       (d', answer) = transition_capability_operation sample_order store_env ''op'' ''src'' ''wf'' MReconciling 2
         (ad_operation decision) (Some sample_proof) store_now (Stored (noon, [queued_record ''op2'', recovering_record]))
   in answered answer \<and> get_capability_operation_record ''op2'' d' = Inl OPERATION_STORE_CORRUPT"
proof -
  have read: "read_operations (Stored (noon, [queued_record ''op2'', recovering_record])) = Some [queued_record ''op2'', recovering_record]"
    "operation_with_id ''op'' [queued_record ''op2'', recovering_record] = Some recovering_record"
    "owns_lease store_now (Some sample_proof) recovering_record" by code_simp+
  have env: "io_lock store_env = LockTaken" "io_write store_env = Saved" "co_readbackRequests recovering_record = 10"
    "mb_sourceId (co_binding recovering_record) = ''src''" "mb_workflowId (co_binding recovering_record) = ''wf''"
    "co_status recovering_record = MReconciling" "co_revision recovering_record = 2" by code_simp+
  have "co_status recovering_record \<in> {MReconciling, MRollingBack}" by (simp add: env)
  from eleventh_readback_corrupts_store [OF read(1) _ env(1,2) sample_facts(3) read(2) this env(3) read(3), where cmp = sample_order and tm = sample_time]
  show ?thesis unfolding env by (simp add: Let_def case_prod_beta)
qed

end
