(* ===== verification/Mutation_Dispatch.thy ===== *)
theory Mutation_Dispatch
  imports Locked_Store
begin

text \<open>
  \<^verbatim>\<open>packages/cli/src/agent/capability-mutation-dispatch-store.ts\<close>: the ledger that authorises
  the one live mutation of an operation. The host reserves a dispatch, which mints a one-time
  authorization; the executor consumes it just before it spawns the process, and the outcome
  it observed is recorded. A reservation or a dispatch whose process was lost is marked for
  reconciliation. The ledger is the file store of \<open>Locked_Store\<close>; \<open>hash\<close> is SHA-256 in
  lower-case hexadecimal and \<open>cmp\<close> is \<^verbatim>\<open>localeCompare\<close>.
\<close>

section \<open>Data\<close>

datatype dispatch_kind = CandidateDispatch | RollbackDispatch

datatype dispatch_status = DReserved | DDispatched | DOutcomeRecorded | DReconciliationRequired

datatype dispatch_outcome = OutSucceeded | OutDefinitivelyFailed | OutAmbiguous | OutTimedOut

record mutation_dispatch =
  md_dispatchId :: string
  md_operationId :: string
  md_sourceId :: string
  md_workflowId :: string
  md_kind :: dispatch_kind
  md_status :: dispatch_status
  md_artifactSha256 :: string
  md_wrapperSha256 :: string
  md_authorizationDigest :: string
  md_createdAt :: string
  md_updatedAt :: string
  md_outcome :: "dispatch_outcome option"

text \<open>What the callers name of a dispatch, and what they are answered: all but the digest.\<close>

record dispatch_binding =
  db_operationId :: string
  db_sourceId :: string
  db_workflowId :: string
  db_kind :: dispatch_kind
  db_artifactSha256 :: string
  db_wrapperSha256 :: string

record compact_dispatch =
  kd_dispatchId :: string
  kd_binding :: dispatch_binding
  kd_status :: dispatch_status
  kd_createdAt :: string
  kd_updatedAt :: string
  kd_outcome :: "dispatch_outcome option"

datatype dispatch_failure =
    DISPATCH_STORE_BUSY | DISPATCH_LEDGER_CORRUPT | DISPATCH_NOT_FOUND | DISPATCH_RESERVED_ALREADY
  | DISPATCH_AUTHORIZATION_INVALID | DISPATCH_CONSUMED_ALREADY | DISPATCH_BINDING_MISMATCH | DISPATCH_INVALID_STATE

type_synonym dispatch_disk = "mutation_dispatch list_disk"

type_synonym 'a dispatch_answer = "(dispatch_failure + 'a) option"

definition binding_of :: "mutation_dispatch \<Rightarrow> dispatch_binding" where
  "binding_of r =
     \<lparr>db_operationId = md_operationId r, db_sourceId = md_sourceId r, db_workflowId = md_workflowId r,
      db_kind = md_kind r, db_artifactSha256 = md_artifactSha256 r, db_wrapperSha256 = md_wrapperSha256 r\<rparr>"

definition compact_dispatch_of :: "mutation_dispatch \<Rightarrow> compact_dispatch" where
  "compact_dispatch_of r =
     \<lparr>kd_dispatchId = md_dispatchId r, kd_binding = binding_of r, kd_status = md_status r,
      kd_createdAt = md_createdAt r, kd_updatedAt = md_updatedAt r, kd_outcome = md_outcome r\<rparr>"

section \<open>The ledger\<close>

definition dispatch_id_ok :: "string \<Rightarrow> bool" where
  "dispatch_id_ok s = (0 < length s \<and> length s \<le> 200)"

definition dispatch_valid :: "mutation_dispatch \<Rightarrow> bool" where
  "dispatch_valid r =
     (dispatch_id_ok (md_dispatchId r) \<and> dispatch_id_ok (md_operationId r) \<and> dispatch_id_ok (md_sourceId r)
      \<and> dispatch_id_ok (md_workflowId r) \<and> valid_hash (md_artifactSha256 r) \<and> valid_hash (md_wrapperSha256 r)
      \<and> valid_hash (md_authorizationDigest r))"

definition kept_dispatches ::
  "(string \<Rightarrow> string \<Rightarrow> int) \<Rightarrow> mutation_dispatch list \<Rightarrow> mutation_dispatch list" where
  "kept_dispatches cmp rs = slice_last 300 (js_sort (\<lambda>a b. cmp (md_createdAt a) (md_createdAt b)) rs)"

definition with_dispatches ::
  "(string \<Rightarrow> string \<Rightarrow> int) \<Rightarrow> io_env \<Rightarrow> dispatch_disk
   \<Rightarrow> (mutation_dispatch list \<Rightarrow> ((dispatch_failure + 'a) \<times> mutation_dispatch list) option)
   \<Rightarrow> dispatch_disk \<times> 'a dispatch_answer" where
  "with_dispatches cmp e d callback =
     with_list dispatch_valid (kept_dispatches cmp) DISPATCH_STORE_BUSY DISPATCH_LEDGER_CORRUPT e d callback"

definition dispatch_with_id :: "string \<Rightarrow> mutation_dispatch list \<Rightarrow> mutation_dispatch option" where
  "dispatch_with_id i rs = List.find (\<lambda>r. md_dispatchId r = i) rs"

definition update_dispatch ::
  "string \<Rightarrow> (mutation_dispatch \<Rightarrow> mutation_dispatch) \<Rightarrow> mutation_dispatch list \<Rightarrow> mutation_dispatch list" where
  "update_dispatch i f rs = modify_first (\<lambda>r. md_dispatchId r = i) f rs"

definition reserved_dispatch :: "(string \<Rightarrow> string) \<Rightarrow> io_env \<Rightarrow> dispatch_binding \<Rightarrow> mutation_dispatch" where
  "reserved_dispatch hash e b =
     \<lparr>md_dispatchId = ''dispatch-'' @ io_uuid e, md_operationId = db_operationId b, md_sourceId = db_sourceId b,
      md_workflowId = db_workflowId b, md_kind = db_kind b, md_status = DReserved,
      md_artifactSha256 = db_artifactSha256 b, md_wrapperSha256 = db_wrapperSha256 b,
      md_authorizationDigest = hash (io_random e), md_createdAt = io_bodyNow e, md_updatedAt = io_bodyNow e,
      md_outcome = None\<rparr>"

definition reserve_capability_mutation_dispatch ::
  "(string \<Rightarrow> string \<Rightarrow> int) \<Rightarrow> (string \<Rightarrow> string) \<Rightarrow> io_env \<Rightarrow> dispatch_binding
   \<Rightarrow> dispatch_disk \<Rightarrow> dispatch_disk \<times> (string \<times> compact_dispatch) dispatch_answer" where
  "reserve_capability_mutation_dispatch cmp hash e b d =
     (if \<not> list_all dispatch_id_ok [db_operationId b, db_sourceId b, db_workflowId b]
         \<or> \<not> valid_hash (db_artifactSha256 b) \<or> \<not> valid_hash (db_wrapperSha256 b)
      then (d, Some (Inl DISPATCH_BINDING_MISMATCH))
      else with_dispatches cmp e d (\<lambda>rs.
        if list_ex (\<lambda>r. md_operationId r = db_operationId b \<and> md_kind r = db_kind b) rs
        then Some (Inl DISPATCH_RESERVED_ALREADY, rs)
        else let r = reserved_dispatch hash e b
             in Some (Inr (io_random e, compact_dispatch_of r), rs @ [r])))"

definition consume_capability_mutation_dispatch ::
  "(string \<Rightarrow> string \<Rightarrow> int) \<Rightarrow> (string \<Rightarrow> string) \<Rightarrow> io_env \<Rightarrow> string \<Rightarrow> string \<Rightarrow> dispatch_binding
   \<Rightarrow> dispatch_disk \<Rightarrow> dispatch_disk \<times> compact_dispatch dispatch_answer" where
  "consume_capability_mutation_dispatch cmp hash e i authorization b d =
     with_dispatches cmp e d (\<lambda>rs.
       case dispatch_with_id i rs of
         None \<Rightarrow> Some (Inl DISPATCH_NOT_FOUND, rs)
       | Some r \<Rightarrow>
           if md_status r \<noteq> DReserved then Some (Inl DISPATCH_CONSUMED_ALREADY, rs)
           else if binding_of r \<noteq> b then Some (Inl DISPATCH_BINDING_MISMATCH, rs)
           else if hash authorization \<noteq> md_authorizationDigest r then Some (Inl DISPATCH_AUTHORIZATION_INVALID, rs)
           else let f = (\<lambda>r. r\<lparr>md_status := DDispatched, md_updatedAt := io_bodyNow e\<rparr>)
                in Some (Inr (compact_dispatch_of (f r)), update_dispatch i f rs))"

definition record_capability_mutation_dispatch_outcome ::
  "(string \<Rightarrow> string \<Rightarrow> int) \<Rightarrow> io_env \<Rightarrow> string \<Rightarrow> dispatch_binding \<Rightarrow> dispatch_outcome
   \<Rightarrow> dispatch_disk \<Rightarrow> dispatch_disk \<times> compact_dispatch dispatch_answer" where
  "record_capability_mutation_dispatch_outcome cmp e i b outcome d =
     with_dispatches cmp e d (\<lambda>rs.
       case dispatch_with_id i rs of
         None \<Rightarrow> Some (Inl DISPATCH_NOT_FOUND, rs)
       | Some r \<Rightarrow>
           if md_status r \<noteq> DDispatched then Some (Inl DISPATCH_INVALID_STATE, rs)
           else if binding_of r \<noteq> b then Some (Inl DISPATCH_BINDING_MISMATCH, rs)
           else let f = (\<lambda>r. r\<lparr>md_status := DOutcomeRecorded, md_outcome := Some outcome, md_updatedAt := io_bodyNow e\<rparr>)
                in Some (Inr (compact_dispatch_of (f r)), update_dispatch i f rs))"

text \<open>The executor's closure: the authorization it still holds, empty once it has been used.\<close>

definition dispatch_consumer ::
  "(string \<Rightarrow> string \<Rightarrow> int) \<Rightarrow> (string \<Rightarrow> string) \<Rightarrow> io_env \<Rightarrow> string \<Rightarrow> dispatch_binding
   \<Rightarrow> string \<times> dispatch_disk \<Rightarrow> (string \<times> dispatch_disk) \<times> unit dispatch_answer" where
  "dispatch_consumer cmp hash e i b s =
     (case s of (authorization, d) \<Rightarrow>
        if authorization = [] then (([], d), Some (Inl DISPATCH_CONSUMED_ALREADY))
        else case consume_capability_mutation_dispatch cmp hash e i authorization b d of
          (d', None) \<Rightarrow> ((authorization, d'), None)
        | (d', Some (Inl code)) \<Rightarrow> (([], d'), Some (Inl code))
        | (d', Some (Inr v)) \<Rightarrow> (([], d'), Some (Inr ())))"

definition require_mutation_dispatch_reconciliation ::
  "(string \<Rightarrow> string \<Rightarrow> int) \<Rightarrow> io_env \<Rightarrow> string \<Rightarrow> dispatch_disk \<Rightarrow> dispatch_disk \<times> compact_dispatch dispatch_answer" where
  "require_mutation_dispatch_reconciliation cmp e i d =
     with_dispatches cmp e d (\<lambda>rs.
       case dispatch_with_id i rs of
         None \<Rightarrow> Some (Inl DISPATCH_NOT_FOUND, rs)
       | Some r \<Rightarrow>
           let f = (\<lambda>r. r\<lparr>md_status := DReconciliationRequired, md_updatedAt := io_bodyNow e\<rparr>)
           in Some (Inr (compact_dispatch_of (f r)), update_dispatch i f rs))"

text \<open>The clock is read once for each record that changes: \<open>clock n\<close> is its \<open>n\<close>-th reading.\<close>

definition pending_dispatch :: "mutation_dispatch \<Rightarrow> bool" where
  "pending_dispatch r = (md_status r = DReserved \<or> md_status r = DDispatched)"

fun reconcile_dispatches ::
  "(nat \<Rightarrow> string) \<Rightarrow> nat \<Rightarrow> mutation_dispatch list \<Rightarrow> mutation_dispatch list \<times> mutation_dispatch list" where
  "reconcile_dispatches clock n [] = ([], [])"
| "reconcile_dispatches clock n (r # rs) =
     (if pending_dispatch r
      then let r' = r\<lparr>md_status := DReconciliationRequired, md_updatedAt := clock n\<rparr>;
               (rs', updated) = reconcile_dispatches clock (Suc n) rs
           in (r' # rs', r' # updated)
      else let (rs', updated) = reconcile_dispatches clock n rs in (r # rs', updated))"

definition reconcile_pending_capability_mutation_dispatches ::
  "(string \<Rightarrow> string \<Rightarrow> int) \<Rightarrow> io_env \<Rightarrow> (nat \<Rightarrow> string)
   \<Rightarrow> dispatch_disk \<Rightarrow> dispatch_disk \<times> compact_dispatch list dispatch_answer" where
  "reconcile_pending_capability_mutation_dispatches cmp e clock d =
     with_dispatches cmp e d (\<lambda>rs.
       let (rs', updated) = reconcile_dispatches clock 0 rs
       in Some (Inr (map compact_dispatch_of updated), rs'))"

definition get_compact_capability_mutation_dispatch ::
  "string \<Rightarrow> dispatch_disk \<Rightarrow> dispatch_failure + compact_dispatch option" where
  "get_compact_capability_mutation_dispatch i d =
     (case read_list dispatch_valid d of
        None \<Rightarrow> Inl DISPATCH_LEDGER_CORRUPT | Some rs \<Rightarrow> Inr (map_option compact_dispatch_of (dispatch_with_id i rs)))"

definition get_capability_mutation_dispatch_record ::
  "string \<Rightarrow> dispatch_disk \<Rightarrow> dispatch_failure + mutation_dispatch option" where
  "get_capability_mutation_dispatch_record i d =
     (case read_list dispatch_valid d of
        None \<Rightarrow> Inl DISPATCH_LEDGER_CORRUPT | Some rs \<Rightarrow> Inr (dispatch_with_id i rs))"

definition find_capability_mutation_dispatch_record ::
  "string \<Rightarrow> dispatch_kind \<Rightarrow> dispatch_disk \<Rightarrow> dispatch_failure + mutation_dispatch option" where
  "find_capability_mutation_dispatch_record i k d =
     (case read_list dispatch_valid d of
        None \<Rightarrow> Inl DISPATCH_LEDGER_CORRUPT
      | Some rs \<Rightarrow> Inr (List.find (\<lambda>r. md_operationId r = i \<and> md_kind r = k) rs))"

section \<open>Runs of the ledger\<close>

datatype dispatch_call =
    Reserve dispatch_binding
  | Consume string string dispatch_binding
  | RecordOutcome string dispatch_binding dispatch_outcome
  | RequireReconciliation string
  | ReconcilePending "nat \<Rightarrow> string"

primrec run_dispatch ::
  "(string \<Rightarrow> string \<Rightarrow> int) \<Rightarrow> (string \<Rightarrow> string) \<Rightarrow> io_env \<Rightarrow> dispatch_call \<Rightarrow> dispatch_disk
   \<Rightarrow> dispatch_disk \<times> bool" where
  "run_dispatch cmp hash e (Reserve b) d =
     map_prod id answered (reserve_capability_mutation_dispatch cmp hash e b d)"
| "run_dispatch cmp hash e (Consume i authorization b) d =
     map_prod id answered (consume_capability_mutation_dispatch cmp hash e i authorization b d)"
| "run_dispatch cmp hash e (RecordOutcome i b outcome) d =
     map_prod id answered (record_capability_mutation_dispatch_outcome cmp e i b outcome d)"
| "run_dispatch cmp hash e (RequireReconciliation i) d =
     map_prod id answered (require_mutation_dispatch_reconciliation cmp e i d)"
| "run_dispatch cmp hash e (ReconcilePending clock) d =
     map_prod id answered (reconcile_pending_capability_mutation_dispatches cmp e clock d)"

text \<open>The final ledger and the consumptions that were granted: the authorization and the binding.\<close>

definition granted :: "dispatch_call \<Rightarrow> bool \<Rightarrow> (string \<times> dispatch_binding) list" where
  "granted c ok = (case c of Consume i authorization b \<Rightarrow> if ok then [(authorization, b)] else [] | _ \<Rightarrow> [])"

fun run_dispatches ::
  "(string \<Rightarrow> string \<Rightarrow> int) \<Rightarrow> (string \<Rightarrow> string) \<Rightarrow> (io_env \<times> dispatch_call) list \<Rightarrow> dispatch_disk
   \<Rightarrow> dispatch_disk \<times> (string \<times> dispatch_binding) list" where
  "run_dispatches cmp hash [] d = (d, [])"
| "run_dispatches cmp hash ((e, c) # cs) d =
     (let (d', ok) = run_dispatch cmp hash e c d; (d'', grants) = run_dispatches cmp hash cs d'
      in (d'', granted c ok @ grants))"

definition is_reserve :: "dispatch_call \<Rightarrow> bool" where
  "is_reserve c = (case c of Reserve b \<Rightarrow> True | _ \<Rightarrow> False)"

definition mutation_key :: "mutation_dispatch \<Rightarrow> string \<times> dispatch_kind" where
  "mutation_key r = (md_operationId r, md_kind r)"

text \<open>A ledger of at most \<open>n\<close> records, one for an operation and a kind of mutation; the
  reservation of an operation's mutation that is no longer open.\<close>

definition small_ledger :: "nat \<Rightarrow> mutation_dispatch list \<Rightarrow> bool" where
  "small_ledger n rs = (length rs \<le> n \<and> distinct (map mutation_key rs))"

definition spent :: "string \<times> dispatch_kind \<Rightarrow> mutation_dispatch list \<Rightarrow> bool" where
  "spent key rs = (\<exists>r \<in> set rs. mutation_key r = key \<and> md_status r \<noteq> DReserved)"

interpretation dispatch_list: bounded_list "kept_dispatches cmp" for cmp
  by unfold_locales (unfold kept_dispatches_def, metis mset_slice_last mset_js_sort)

lemma set_kept_dispatches: "length rs \<le> 300 \<Longrightarrow> set (kept_dispatches cmp rs) = set rs"
  by (simp add: kept_dispatches_def slice_last_id)

lemma small_ledger_part: "small_ledger n xs \<Longrightarrow> mset ys \<subseteq># mset xs \<Longrightarrow> small_ledger n ys"
  unfolding small_ledger_def using distinct_map_submset size_mset_mono by (metis le_trans size_mset)

text \<open>What a call does to a record: nothing, or it ends its reservation.\<close>

definition advanced :: "mutation_dispatch \<Rightarrow> mutation_dispatch \<Rightarrow> bool" where
  "advanced r r' =
     (r' = r \<or> (binding_of r' = binding_of r \<and> md_authorizationDigest r' = md_authorizationDigest r
                 \<and> md_status r' \<noteq> DReserved))"

lemma advanced_refl [simp]: "advanced r r"
  by (simp add: advanced_def)

lemma advanced_same:
  assumes "advanced r r'"
  shows "binding_of r' = binding_of r" "md_authorizationDigest r' = md_authorizationDigest r"
  by (cases "r' = r", simp, use assms in \<open>simp add: advanced_def\<close>)+

lemma advanced_key: "advanced r r' \<Longrightarrow> mutation_key r' = mutation_key r"
  by (auto simp: advanced_def binding_of_def mutation_key_def)

lemma list_all2_advanced_keys: "list_all2 advanced rs rs' \<Longrightarrow> map mutation_key rs' = map mutation_key rs"
  by (induction rule: list_all2_induct) (simp_all add: advanced_key)

lemma update_advanced: "(\<And>r. advanced r (f r)) \<Longrightarrow> list_all2 advanced rs (update_dispatch i f rs)"
  unfolding update_dispatch_def by (rule list_all2_modify_first) simp_all

lemma reconcile_advanced: "list_all2 advanced rs (fst (reconcile_dispatches clock n rs))"
  by (induction rs arbitrary: n) (simp_all add: advanced_def binding_of_def Let_def case_prod_beta)

text \<open>A call leaves the file, advances records, or appends one reservation for a new key.\<close>

definition ledger_step ::
  "(string \<Rightarrow> string) \<Rightarrow> io_env \<Rightarrow> dispatch_call \<Rightarrow> mutation_dispatch list \<Rightarrow> mutation_dispatch list \<Rightarrow> bool" where
  "ledger_step hash e c rs rs' =
     (list_all2 advanced rs rs'
      \<or> (\<exists>b. c = Reserve b \<and> rs' = rs @ [reserved_dispatch hash e b]
            \<and> (db_operationId b, db_kind b) \<notin> mutation_key ` set rs))"

lemma ledger_step_refl [simp]: "ledger_step hash e c rs rs"
  by (simp add: ledger_step_def list_all2_refl)

lemma with_dispatches_step:
  assumes "\<And>rs answer rs'. callback rs = Some (answer, rs') \<Longrightarrow> ledger_step hash e c rs rs'"
    and "fst (with_dispatches cmp e d callback) \<noteq> d"
  shows "\<exists>rs rs'. read_list dispatch_valid d = Some rs
    \<and> fst (with_dispatches cmp e d callback) = Stored (io_saveNow e, kept_dispatches cmp rs') \<and> ledger_step hash e c rs rs'"
  using assms(2) unfolding with_dispatches_def by (elim with_list_changed) (metis assms(1))

lemma run_dispatch_step:
  assumes "fst (run_dispatch cmp hash e c d) \<noteq> d"
  shows "\<exists>rs rs'. read_list dispatch_valid d = Some rs
    \<and> fst (run_dispatch cmp hash e c d) = Stored (io_saveNow e, kept_dispatches cmp rs') \<and> ledger_step hash e c rs rs'"
proof (cases c)
  case (Reserve b)
  have *: "ledger_step hash e c rs rs'"
    if "(if list_ex (\<lambda>r. md_operationId r = db_operationId b \<and> md_kind r = db_kind b) rs
        then Some (Inl DISPATCH_RESERVED_ALREADY, rs)
        else let r = reserved_dispatch hash e b
             in Some (Inr (io_random e, compact_dispatch_of r), rs @ [r])) = Some (answer, rs')" for rs answer rs'
    using that by (auto simp: ledger_step_def Reserve Let_def list_ex_iff mutation_key_def list_all2_refl split: if_splits)
  show ?thesis
    using assms with_dispatches_step [OF *]
    by (simp add: Reserve reserve_capability_mutation_dispatch_def split: if_splits)
next
  case (Consume i a b)
  show ?thesis using assms
    unfolding Consume run_dispatch.simps fst_map_prod id_apply consume_capability_mutation_dispatch_def
    by (rule with_dispatches_step [rotated])
       (auto simp: ledger_step_def Let_def list_all2_refl advanced_def binding_of_def
         intro!: update_advanced split: option.splits if_splits)
next
  case (RecordOutcome i b v)
  show ?thesis using assms
    unfolding RecordOutcome run_dispatch.simps fst_map_prod id_apply record_capability_mutation_dispatch_outcome_def
    by (rule with_dispatches_step [rotated])
       (auto simp: ledger_step_def Let_def list_all2_refl advanced_def binding_of_def
         intro!: update_advanced split: option.splits if_splits)
next
  case (RequireReconciliation i)
  show ?thesis using assms
    unfolding RequireReconciliation run_dispatch.simps fst_map_prod id_apply require_mutation_dispatch_reconciliation_def
    by (rule with_dispatches_step [rotated])
       (auto simp: ledger_step_def Let_def list_all2_refl advanced_def binding_of_def
         intro!: update_advanced split: option.splits if_splits)
next
  case (ReconcilePending clock)
  show ?thesis using assms
    unfolding ReconcilePending run_dispatch.simps fst_map_prod id_apply reconcile_pending_capability_mutation_dispatches_def
    by (rule with_dispatches_step [rotated])
       (use reconcile_advanced in \<open>auto simp: ledger_step_def Let_def case_prod_beta\<close>)
qed

lemma ledger_step_small:
  assumes "ledger_step hash e c rs rs'" "small_ledger n rs"
  shows "small_ledger (n + (if is_reserve c then 1 else 0)) rs'"
  using assms
  by (auto simp: ledger_step_def small_ledger_def is_reserve_def list_all2_advanced_keys mutation_key_def
        reserved_dispatch_def dest: list_all2_lengthD)

lemma spentI: "r \<in> set rs \<Longrightarrow> mutation_key r = key \<Longrightarrow> md_status r \<noteq> DReserved \<Longrightarrow> spent key rs"
  unfolding spent_def by blast

lemma ledger_step_spent:
  assumes "ledger_step hash e c rs rs'" "spent key rs"
  shows "spent key rs'"
proof -
  obtain r where r: "r \<in> set rs" "mutation_key r = key" "md_status r \<noteq> DReserved"
    using assms(2) by (auto simp: spent_def)
  then have "\<exists>r' \<in> set rs'. advanced r r'"
    using assms(1) unfolding ledger_step_def
    by (elim disjE exE conjE) (erule (1) list_all2_left, force)
  then obtain r' where "r' \<in> set rs'" "advanced r r'" by blast
  then show ?thesis using r advanced_key [of r r'] by (auto simp: spent_def advanced_def)
qed

definition spent_on :: "string \<times> dispatch_kind \<Rightarrow> dispatch_disk \<Rightarrow> bool" where
  "spent_on key d = (\<exists>u rs. d = Stored (u, rs) \<and> spent key rs)"

lemma run_dispatch_small:
  assumes "on_file (small_ledger n) d"
  shows "on_file (small_ledger (n + (if is_reserve c then 1 else 0))) (fst (run_dispatch cmp hash e c d))"
proof (cases "fst (run_dispatch cmp hash e c d) = d")
  case True
  with assms show ?thesis by (auto intro: on_file_mono simp: small_ledger_def)
next
  case False
  then obtain rs rs' where step: "read_list dispatch_valid d = Some rs" "ledger_step hash e c rs rs'"
    and d': "fst (run_dispatch cmp hash e c d) = Stored (io_saveNow e, kept_dispatches cmp rs')"
    using run_dispatch_step by blast
  have "small_ledger n rs" by (rule read_on_file [OF step(1) assms]) (simp add: small_ledger_def)
  from small_ledger_part [OF ledger_step_small [OF step(2) this] dispatch_list.keep_part]
  show ?thesis by (simp add: d')
qed

lemma run_dispatch_spent:
  assumes "on_file (small_ledger n) d" "n + (if is_reserve c then 1 else 0) \<le> 300" "spent_on key d"
  shows "spent_on key (fst (run_dispatch cmp hash e c d))"
proof (cases "fst (run_dispatch cmp hash e c d) = d")
  case False
  then obtain rs rs' where step: "read_list dispatch_valid d = Some rs" "ledger_step hash e c rs rs'"
    and d': "fst (run_dispatch cmp hash e c d) = Stored (io_saveNow e, kept_dispatches cmp rs')"
    using run_dispatch_step by blast
  have "small_ledger n rs" by (rule read_on_file [OF step(1) assms(1)]) (simp add: small_ledger_def)
  from ledger_step_small [OF step(2) this] assms(2) have "length rs' \<le> 300" by (auto simp: small_ledger_def)
  moreover have "spent key rs" using assms(3) step(1) by (auto simp: spent_on_def read_list_def split: if_splits)
  then have "spent key rs'" by (rule ledger_step_spent [OF step(2)])
  ultimately show ?thesis unfolding spent_on_def d' by (auto simp: spent_def set_kept_dispatches)
qed (use assms in simp)

lemma consume_granted:
  assumes "answered (snd (consume_capability_mutation_dispatch cmp hash e i a b d))"
  obtains rs r where "read_list dispatch_valid d = Some rs" "dispatch_with_id i rs = Some r" "md_status r = DReserved"
    "binding_of r = b" "hash a = md_authorizationDigest r"
    "fst (consume_capability_mutation_dispatch cmp hash e i a b d) =
       Stored (io_saveNow e, kept_dispatches cmp (update_dispatch i (\<lambda>r. r\<lparr>md_status := DDispatched, md_updatedAt := io_bodyNow e\<rparr>) rs))"
  using assms unfolding consume_capability_mutation_dispatch_def with_dispatches_def
  by (elim with_list_answered) (auto simp: Let_def split: option.splits if_splits)

lemma dispatch_with_id_Some: "dispatch_with_id i rs = Some r \<Longrightarrow> r \<in> set rs \<and> md_dispatchId r = i"
  by (auto simp: dispatch_with_id_def dest: find_Some_iff_in)

lemma consume_spends:
  assumes small: "on_file (small_ledger n) d" "n \<le> 300"
    and ok: "answered (snd (consume_capability_mutation_dispatch cmp hash e i a b d))"
  shows "\<not> spent_on (db_operationId b, db_kind b) d"
    "spent_on (db_operationId b, db_kind b) (fst (consume_capability_mutation_dispatch cmp hash e i a b d))"
proof -
  let ?f = "\<lambda>r. r\<lparr>md_status := DDispatched, md_updatedAt := io_bodyNow e\<rparr> :: mutation_dispatch"
  from consume_granted [OF ok] obtain rs r where r: "read_list dispatch_valid d = Some rs"
      "dispatch_with_id i rs = Some r" "md_status r = DReserved" "binding_of r = b"
    and d': "fst (consume_capability_mutation_dispatch cmp hash e i a b d)
       = Stored (io_saveNow e, kept_dispatches cmp (update_dispatch i ?f rs))" by blast
  have key: "mutation_key r = (db_operationId b, db_kind b)" using r(4) by (auto simp: binding_of_def mutation_key_def)
  have sm: "small_ledger n rs" by (rule read_on_file [OF r(1) small(1)]) (simp add: small_ledger_def)
  have mem: "r \<in> set rs" using dispatch_with_id_Some [OF r(2)] by simp
  have "x = r" if "x \<in> set rs" "mutation_key x = mutation_key r" for x
    using sm distinct_map_eq [OF _ that(1) mem that(2)] by (simp add: small_ledger_def)
  then have "\<not> spent (mutation_key r) rs" using r(3) unfolding spent_def by blast
  then show "\<not> spent_on (db_operationId b, db_kind b) d"
    using r(1) key by (auto simp: spent_on_def read_list_def split: if_splits)
  have "?f r \<in> set (update_dispatch i ?f rs)"
    unfolding update_dispatch_def
    by (rule find_modify_first [where f = ?f]) (use r(2) in \<open>simp add: dispatch_with_id_def\<close>)
  then have "spent (mutation_key r) (update_dispatch i ?f rs)" by (rule spentI) (simp_all add: mutation_key_def)
  moreover have "length (update_dispatch i ?f rs) \<le> 300" using sm small(2) by (simp add: small_ledger_def update_dispatch_def)
  ultimately show "spent_on (db_operationId b, db_kind b) (fst (consume_capability_mutation_dispatch cmp hash e i a b d))"
    unfolding spent_on_def d' by (auto simp: spent_def set_kept_dispatches key)
qed

definition binding_key :: "dispatch_binding \<Rightarrow> string \<times> dispatch_kind" where
  "binding_key b = (db_operationId b, db_kind b)"

lemma granted_spends:
  assumes "on_file (small_ledger n) d" "n \<le> 300" "(a, b) \<in> set (granted c (snd (run_dispatch cmp hash e c d)))"
  shows "\<not> spent_on (binding_key b) d \<and> spent_on (binding_key b) (fst (run_dispatch cmp hash e c d))
    \<and> granted c (snd (run_dispatch cmp hash e c d)) = [(a, b)]"
proof -
  obtain i where c: "c = Consume i a b" and ok: "snd (run_dispatch cmp hash e c d)"
    using assms(3) by (auto simp: granted_def split: dispatch_call.splits if_splits)
  then have "answered (snd (consume_capability_mutation_dispatch cmp hash e i a b d))" by simp
  from consume_spends [OF assms(1,2) this] show ?thesis using ok by (simp add: c granted_def binding_key_def)
qed

lemma run_grants_bound:
  "on_file (small_ledger n) d \<Longrightarrow> n + length (filter is_reserve (map snd cs)) \<le> 300 \<Longrightarrow>
   length (filter (\<lambda>g. binding_key (snd g) = key) (snd (run_dispatches cmp hash cs d)))
     \<le> (if spent_on key d then 0 else 1)"
proof (induction cs arbitrary: d n)
  case (Cons x cs)
  obtain e c where x: "x = (e, c)" by (cases x)
  let ?d' = "fst (run_dispatch cmp hash e c d)" and ?g = "granted c (snd (run_dispatch cmp hash e c d))"
  let ?n = "n + (if is_reserve c then 1 else 0)"
  have bound: "?n + length (filter is_reserve (map snd cs)) \<le> 300"
    using Cons.prems(2) by (simp add: x split: if_splits)
  have rest: "length (filter (\<lambda>g. binding_key (snd g) = key) (snd (run_dispatches cmp hash cs ?d')))
      \<le> (if spent_on key ?d' then 0 else 1)"
    by (rule Cons.IH [OF run_dispatch_small [OF Cons.prems(1)] bound])
  have run: "snd (run_dispatches cmp hash (x # cs) d) = ?g @ snd (run_dispatches cmp hash cs ?d')"
    by (simp add: x Let_def case_prod_beta)
  show ?case
  proof (cases "\<exists>g \<in> set ?g. binding_key (snd g) = key")
    case True
    then obtain a b where ab: "(a, b) \<in> set ?g" "binding_key b = key" by auto
    have "n \<le> 300" using Cons.prems(2) by simp
    from granted_spends [OF Cons.prems(1) this ab(1)] rest show ?thesis unfolding run by (simp add: ab(2))
  next
    case False
    then have "filter (\<lambda>g. binding_key (snd g) = key) ?g = []" by (simp add: filter_empty_conv)
    moreover have "spent_on key d \<Longrightarrow> spent_on key ?d'"
      by (rule run_dispatch_spent [OF Cons.prems(1)]) (use bound in simp_all)
    ultimately show ?thesis using rest unfolding run by (auto split: if_splits)
  qed
qed simp

text \<open>Where the authority of a record comes from.\<close>

definition minted :: "(string \<Rightarrow> string) \<Rightarrow> (io_env \<times> dispatch_call) set \<Rightarrow> mutation_dispatch list \<Rightarrow> bool" where
  "minted hash H rs =
     (\<forall>r \<in> set rs. \<exists>e. (e, Reserve (binding_of r)) \<in> H \<and> md_authorizationDigest r = hash (io_random e))"

lemma minted_part: "minted hash H xs \<Longrightarrow> mset ys \<subseteq># mset xs \<Longrightarrow> minted hash H ys"
  unfolding minted_def using set_submset by blast

lemma ledger_step_minted:
  assumes "ledger_step hash e c rs rs'" "minted hash H rs" "(e, c) \<in> H"
  shows "minted hash H rs'"
proof -
  have "\<exists>e. (e, Reserve (binding_of r')) \<in> H \<and> md_authorizationDigest r' = hash (io_random e)"
    if r': "r' \<in> set rs'" for r'
  proof (cases "list_all2 advanced rs rs'")
    case True
    obtain r where r: "r \<in> set rs" "advanced r r'" using list_all2_right [OF True r'] by blast
    show ?thesis using r(1) assms(2) unfolding minted_def advanced_same [OF r(2)] by blast
  next
    case False
    then obtain b where b: "c = Reserve b" "rs' = rs @ [reserved_dispatch hash e b]"
      using assms(1) unfolding ledger_step_def by blast
    have "binding_of (reserved_dispatch hash e b) = b"
      "md_authorizationDigest (reserved_dispatch hash e b) = hash (io_random e)"
      by (simp_all add: reserved_dispatch_def binding_of_def)
    moreover have "r' \<in> set rs \<or> r' = reserved_dispatch hash e b" using r' b(2) by auto
    ultimately show ?thesis using b(1) assms(2,3) unfolding minted_def by metis
  qed
  then show ?thesis unfolding minted_def by blast
qed

lemma run_dispatch_minted:
  assumes "on_file (minted hash H) d" "(e, c) \<in> H"
  shows "on_file (minted hash H) (fst (run_dispatch cmp hash e c d))"
proof (cases "fst (run_dispatch cmp hash e c d) = d")
  case False
  then obtain rs rs' where step: "read_list dispatch_valid d = Some rs" "ledger_step hash e c rs rs'"
    and d': "fst (run_dispatch cmp hash e c d) = Stored (io_saveNow e, kept_dispatches cmp rs')"
    using run_dispatch_step by blast
  have "minted hash H rs" by (rule read_on_file [OF step(1) assms(1)]) (simp add: minted_def)
  from minted_part [OF ledger_step_minted [OF step(2) this assms(2)] dispatch_list.keep_part]
  show ?thesis by (simp add: d')
qed (simp add: assms)

lemma run_grants_minted:
  "on_file (minted hash H) d \<Longrightarrow> set cs \<subseteq> H \<Longrightarrow> (a, b) \<in> set (snd (run_dispatches cmp hash cs d))
   \<Longrightarrow> \<exists>e. (e, Reserve b) \<in> H \<and> hash a = hash (io_random e)"
proof (induction cs arbitrary: d)
  case (Cons x cs)
  obtain e c where x: "x = (e, c)" by (cases x)
  have next_inv: "on_file (minted hash H) (fst (run_dispatch cmp hash e c d))"
    by (rule run_dispatch_minted [OF Cons.prems(1)]) (use Cons.prems(2) x in simp)
  show ?case
  proof (cases "(a, b) \<in> set (granted c (snd (run_dispatch cmp hash e c d)))")
    case True
    then obtain i where "c = Consume i a b" "snd (run_dispatch cmp hash e c d)"
      by (auto simp: granted_def split: dispatch_call.splits if_splits)
    then have "answered (snd (consume_capability_mutation_dispatch cmp hash e i a b d))" by simp
    from consume_granted [OF this] obtain rs r where r: "read_list dispatch_valid d = Some rs"
        "dispatch_with_id i rs = Some r" "binding_of r = b" "hash a = md_authorizationDigest r" by blast
    have "minted hash H rs" by (rule read_on_file [OF r(1) Cons.prems(1)]) (simp add: minted_def)
    then show ?thesis using dispatch_with_id_Some [OF r(2)] r(3,4) unfolding minted_def by metis
  next
    case False
    then have "(a, b) \<in> set (snd (run_dispatches cmp hash cs (fst (run_dispatch cmp hash e c d))))"
      using Cons.prems(3) by (simp add: x Let_def case_prod_beta)
    from Cons.IH [OF next_inv _ this] show ?thesis using Cons.prems(2) by simp
  qed
qed simp

text \<open>
  C2. A live mutation is authorised at most once: in every run of the ledger from its first use
  with at most 300 reservations (the bound of the file), with any interleaving of reservations,
  consumptions, outcomes and recoveries and with any failures of the file system, at most one
  consumption is granted for an operation and a kind of mutation; and every consumption that is
  granted names exactly the source, workflow and artifact hashes of an earlier reservation and
  presents an authorization with the hash of the one that reservation minted.
\<close>

theorem mutation_authorised_at_most_once:
  assumes "length (filter is_reserve (map snd cs)) \<le> 300"
  shows "length (filter (\<lambda>(a, b). db_operationId b = i \<and> db_kind b = k) (snd (run_dispatches cmp hash cs NoFile))) \<le> 1
    \<and> (\<forall>(a, b) \<in> set (snd (run_dispatches cmp hash cs NoFile)).
         \<exists>e. (e, Reserve b) \<in> set cs \<and> hash a = hash (io_random e))"
proof (rule conjI)
  have once: "length (filter (\<lambda>g. binding_key (snd g) = (i, k)) (snd (run_dispatches cmp hash cs NoFile))) \<le> 1"
    using run_grants_bound [of 0 NoFile cs "(i, k)" cmp hash] assms by (simp add: spent_on_def)
  have eq: "(\<lambda>g. binding_key (snd g) = (i, k)) = (\<lambda>(a, b). db_operationId b = i \<and> db_kind b = k)"
    by (rule ext) (simp add: binding_key_def case_prod_beta)
  show "length (filter (\<lambda>(a, b). db_operationId b = i \<and> db_kind b = k)
      (snd (run_dispatches cmp hash cs NoFile))) \<le> 1" by (rule once [unfolded eq])
  show "\<forall>(a, b) \<in> set (snd (run_dispatches cmp hash cs NoFile)). \<exists>e. (e, Reserve b) \<in> set cs \<and> hash a = hash (io_random e)"
    using run_grants_minted [of hash "set cs" NoFile cs] by auto
qed

section \<open>The authority of one reservation\<close>

lemma with_list_taken:
  assumes "io_lock e = LockTaken" "io_write e = Saved" "read_list valid d = Some rs" "callback rs = Some (answer, rs')"
  shows "with_list valid keep busy corrupt e d callback = (Stored (io_saveNow e, keep rs'), Some answer)"
  using assms by (simp add: with_list_def write_disk_def)

lemma same_key: "md_operationId r = db_operationId b \<and> md_kind r = db_kind b \<longleftrightarrow> mutation_key r = binding_key b"
  by (auto simp: mutation_key_def binding_key_def)

lemma reserve_granted:
  assumes "reserve_capability_mutation_dispatch cmp hash e b d = (d', Some (Inr (a, k)))" "read_list dispatch_valid d = Some rs"
  shows "d' = Stored (io_saveNow e, kept_dispatches cmp (rs @ [reserved_dispatch hash e b]))"
    "a = io_random e" "k = compact_dispatch_of (reserved_dispatch hash e b)"
    "binding_key b \<notin> mutation_key ` set rs"
    "list_all dispatch_id_ok [db_operationId b, db_sourceId b, db_workflowId b]"
    "valid_hash (db_artifactSha256 b)" "valid_hash (db_wrapperSha256 b)"
  using assms
  by (auto simp: reserve_capability_mutation_dispatch_def with_dispatches_def with_list_def write_disk_def Let_def
        list_ex_iff mutation_key_def binding_key_def
        split: lock_outcome.splits write_outcome.splits if_splits)

lemma length_kept_dispatches: "length (kept_dispatches cmp rs) = min 300 (length rs)"
  unfolding kept_dispatches_def by (subst length_slice_last) simp_all

text \<open>
  A reservation's authority works exactly once. After a reservation that the ledger has
  granted in a file with room for it and under a new dispatch id, a consumption under the
  answered id, with the answered authorization and the same binding, is granted; the same call
  again is refused as a replay; and the record found for the operation and kind is the
  dispatched one.
\<close>

theorem reserved_authority_used_once:
  assumes "reserve_capability_mutation_dispatch cmp hash e b d = (d', Some (Inr (a, k)))"
    and "read_list dispatch_valid d = Some rs" "length rs < 300"
    and "distinct (map md_dispatchId rs)" "\<forall>r \<in> set rs. md_dispatchId r \<noteq> ''dispatch-'' @ io_uuid e"
    and "length (io_uuid e) \<le> 191" "valid_hash (hash (io_random e))"
    and "io_lock e1 = LockTaken" "io_write e1 = Saved" "io_lock e2 = LockTaken" "io_write e2 = Saved"
  shows "let (d1, first) = consume_capability_mutation_dispatch cmp hash e1 (kd_dispatchId k) a b d';
             (d2, second) = consume_capability_mutation_dispatch cmp hash e2 (kd_dispatchId k) a b d1
         in first = Some (Inr (k\<lparr>kd_status := DDispatched, kd_updatedAt := io_bodyNow e1\<rparr>))
            \<and> second = Some (Inl DISPATCH_CONSUMED_ALREADY)
            \<and> (\<exists>r. find_capability_mutation_dispatch_record (db_operationId b) (db_kind b) d2 = Inr (Some r)
                   \<and> md_status r = DDispatched \<and> binding_of r = b)"
proof -
  note g = reserve_granted [OF assms(1,2)]
  let ?r = "reserved_dispatch hash e b"
  define i where "i = ''dispatch-'' @ io_uuid e"
  let ?f = "\<lambda>r. r\<lparr>md_status := DDispatched, md_updatedAt := io_bodyNow e1\<rparr> :: mutation_dispatch"
  let ?ks = "kept_dispatches cmp (rs @ [?r])"
  let ?us = "update_dispatch i ?f ?ks"
  have r_simps: "md_dispatchId ?r = i" "md_status ?r = DReserved" "binding_of ?r = b"
    "md_authorizationDigest ?r = hash (io_random e)" "dispatch_valid (?f ?r) = dispatch_valid ?r"
    by (simp_all add: reserved_dispatch_def binding_of_def dispatch_valid_def i_def)
  have fresh: "\<forall>r \<in> set rs. md_dispatchId r \<noteq> i" using assms(5) by (simp add: i_def)
  have few: "length (rs @ [?r]) \<le> 300" using assms(3) by simp
  have set_ks: "set ?ks = insert ?r (set rs)" using set_kept_dispatches [OF few] by simp
  have len_us: "length ?us \<le> 300" by (simp add: update_dispatch_def length_kept_dispatches)
  have ids: "distinct (map md_dispatchId ?ks)"
    by (rule dispatch_list.distinct_keep) (use assms(4) fresh r_simps(1) in auto)
  have found: "dispatch_with_id i ?ks = Some ?r"
    unfolding dispatch_with_id_def find_key_iff [OF ids] by (simp add: set_ks r_simps)
  have set_us: "set ?us = insert (?f ?r) (set rs)"
  proof -
    have "set ?us = insert (?f ?r) {y \<in> set ?ks. md_dispatchId y \<noteq> i}"
      unfolding update_dispatch_def
      by (rule set_modify_first_keyed [OF ids]) (use found r_simps(1) in \<open>simp_all add: dispatch_with_id_def\<close>)
    then show ?thesis using fresh r_simps(1) unfolding set_ks by auto
  qed
  have "dispatch_valid ?r" using g(5-7) assms(6,7)
    by (simp add: dispatch_valid_def reserved_dispatch_def dispatch_id_ok_def)
  then have valid: "list_all dispatch_valid ?ks" "list_all dispatch_valid (kept_dispatches cmp ?us)"
    using read_list_Some [OF assms(2)] set_kept_dispatches [OF len_us, of cmp] set_us set_ks r_simps(5)
    by (auto simp: list_all_iff)
  have k: "kd_dispatchId k = i" unfolding g(3) by (simp add: compact_dispatch_of_def r_simps)
  have read1: "read_list dispatch_valid d' = Some ?ks" unfolding g(1) read_list_def using valid(1) by simp
  have first: "consume_capability_mutation_dispatch cmp hash e1 (kd_dispatchId k) a b d'
      = (Stored (io_saveNow e1, kept_dispatches cmp ?us), Some (Inr (compact_dispatch_of (?f ?r))))"
    unfolding consume_capability_mutation_dispatch_def with_dispatches_def
    by (rule with_list_taken [OF assms(8,9) read1]) (simp add: k found r_simps g(2))
  have read2: "read_list dispatch_valid (Stored (io_saveNow e1, kept_dispatches cmp ?us)) = Some (kept_dispatches cmp ?us)"
    unfolding read_list_def using valid(2) by simp
  have set_kus: "set (kept_dispatches cmp ?us) = insert (?f ?r) (set rs)"
    using set_kept_dispatches [OF len_us, of cmp] set_us by simp
  have "dispatch_with_id i (kept_dispatches cmp ?us) = Some (?f ?r)"
    unfolding dispatch_with_id_def by (rule find_unique) (use fresh r_simps(1) set_kus in auto)
  then have second: "consume_capability_mutation_dispatch cmp hash e2 (kd_dispatchId k) a b
        (Stored (io_saveNow e1, kept_dispatches cmp ?us))
      = (Stored (io_saveNow e2, kept_dispatches cmp (kept_dispatches cmp ?us)), Some (Inl DISPATCH_CONSUMED_ALREADY))"
    unfolding consume_capability_mutation_dispatch_def with_dispatches_def
    by (intro with_list_taken [OF assms(10,11) read2]) (simp add: k)
  have set_kkus: "set (kept_dispatches cmp (kept_dispatches cmp ?us)) = insert (?f ?r) (set rs)"
    using set_kept_dispatches [of "kept_dispatches cmp ?us" cmp] set_kus by (simp add: length_kept_dispatches)
  have "read_list dispatch_valid (Stored (io_saveNow e2, kept_dispatches cmp (kept_dispatches cmp ?us)))
      = Some (kept_dispatches cmp (kept_dispatches cmp ?us))"
    unfolding read_list_def using valid(2) set_kkus set_kus by (simp add: list_all_iff)
  moreover have "List.find (\<lambda>r. md_operationId r = db_operationId b \<and> md_kind r = db_kind b)
      (kept_dispatches cmp (kept_dispatches cmp ?us)) = Some (?f ?r)"
  proof (rule find_unique)
    show "?f ?r \<in> set (kept_dispatches cmp (kept_dispatches cmp ?us))" by (simp add: set_kkus)
    show "md_operationId (?f ?r) = db_operationId b \<and> md_kind (?f ?r) = db_kind b" by (simp add: reserved_dispatch_def)
    show "y = ?f ?r" if "y \<in> set (kept_dispatches cmp (kept_dispatches cmp ?us))"
      "md_operationId y = db_operationId b \<and> md_kind y = db_kind b" for y
      using that g(4) unfolding set_kkus by (auto simp: mutation_key_def binding_key_def rev_image_eqI)
  qed
  moreover have "binding_of (?f ?r) = b" using r_simps(3) by (simp add: binding_of_def)
  ultimately have final: "find_capability_mutation_dispatch_record (db_operationId b) (db_kind b)
        (Stored (io_saveNow e2, kept_dispatches cmp (kept_dispatches cmp ?us))) = Inr (Some (?f ?r))"
    "md_status (?f ?r) = DDispatched" "binding_of (?f ?r) = b"
    by (simp_all add: find_capability_mutation_dispatch_record_def)
  have "compact_dispatch_of (?f ?r) = k\<lparr>kd_status := DDispatched, kd_updatedAt := io_bodyNow e1\<rparr>"
    unfolding g(3) by (simp add: compact_dispatch_of_def binding_of_def)
  then show ?thesis unfolding first second Let_def prod.case using final by metis
qed

section \<open>The bound of the ledger\<close>

text \<open>
  The bound of the file undoes the single reservation. In a full ledger, in the order of
  creation, one reservation for another mutation pushes the oldest record out; the mutation of
  that record, whether or not it was dispatched, is then reserved again without a conflict.
\<close>

theorem evicted_mutation_reserved_again:
  assumes "read_list dispatch_valid d = Some (old # rest)" "length rest = 299"
    and "mutation_key old = binding_key b" "binding_key b \<notin> mutation_key ` set rest"
    and "sorted_wrt (\<lambda>x y. cmp (md_createdAt x) (md_createdAt y) \<le> 0) (old # rest)"
    and "\<forall>x \<in> set (old # rest). cmp (md_createdAt x) (io_bodyNow e1) \<le> 0"
    and "reserve_capability_mutation_dispatch cmp hash e1 b1 d = (d1, Some (Inr granted1))"
    and "dispatch_valid (reserved_dispatch hash e1 b1)" "dispatch_valid (reserved_dispatch hash e2 b)"
    and "io_lock e2 = LockTaken" "io_write e2 = Saved"
  shows "\<not> answered (snd (reserve_capability_mutation_dispatch cmp hash e2 b d))
    \<and> answered (snd (reserve_capability_mutation_dispatch cmp hash e2 b d1))"
proof (rule conjI)
  let ?r1 = "reserved_dispatch hash e1 b1"
  obtain a1 k1 where g: "granted1 = (a1, k1)" by (cases granted1)
  note granted = reserve_granted [OF assms(7) [unfolded g] assms(1)]
  have "sorted_wrt (\<lambda>x y. cmp (md_createdAt x) (md_createdAt y) \<le> 0) ((old # rest) @ [?r1])"
    using assms(5,6) by (auto simp: sorted_wrt_append reserved_dispatch_def)
  then have "kept_dispatches cmp ((old # rest) @ [?r1]) = slice_last 300 ((old # rest) @ [?r1])"
    unfolding kept_dispatches_def by (simp only: js_sort_sorted)
  also have "\<dots> = rest @ [?r1]" by (simp add: slice_last_def assms(2))
  finally have kept: "d1 = Stored (io_saveNow e1, rest @ [?r1])" using granted(1) by simp
  have "list_all dispatch_valid rest" using read_list_Some [OF assms(1)] by simp
  then have read: "read_list dispatch_valid d1 = Some (rest @ [?r1])"
    unfolding kept read_list_def using assms(8) by simp
  have "binding_key b \<noteq> mutation_key ?r1"
    using granted(4) assms(3) by (auto simp: reserved_dispatch_def mutation_key_def binding_key_def)
  then have free: "\<not> list_ex (\<lambda>r. md_operationId r = db_operationId b \<and> md_kind r = db_kind b) (rest @ [?r1])"
    using assms(4) unfolding list_ex_iff same_key by (auto simp: image_iff)
  have form: "list_all dispatch_id_ok [db_operationId b, db_sourceId b, db_workflowId b]"
    "valid_hash (db_artifactSha256 b)" "valid_hash (db_wrapperSha256 b)"
    using assms(9) by (simp_all add: dispatch_valid_def reserved_dispatch_def)
  show "answered (snd (reserve_capability_mutation_dispatch cmp hash e2 b d1))"
    using form free assms(10,11) read
    by (simp add: reserve_capability_mutation_dispatch_def with_dispatches_def with_list_def write_disk_def
          answered_def Let_def)
  show "\<not> answered (snd (reserve_capability_mutation_dispatch cmp hash e2 b d))"
  proof
    assume "answered (snd (reserve_capability_mutation_dispatch cmp hash e2 b d))"
    then obtain a k where "reserve_capability_mutation_dispatch cmp hash e2 b d
        = (fst (reserve_capability_mutation_dispatch cmp hash e2 b d), Some (Inr (a, k)))"
      by (cases "reserve_capability_mutation_dispatch cmp hash e2 b d")
         (auto simp: answered_def split: option.splits sum.splits)
    from reserve_granted(4) [OF this assms(1)] show False using assms(3) by simp
  qed
qed

section \<open>A concrete ledger\<close>

definition sample_binding :: "string \<Rightarrow> dispatch_binding" where
  "sample_binding i =
     \<lparr>db_operationId = i, db_sourceId = ''src'', db_workflowId = ''wf'', db_kind = CandidateDispatch,
      db_artifactSha256 = replicate 64 (CHR ''1''), db_wrapperSha256 = replicate 64 (CHR ''2'')\<rparr>"

definition sample_dispatch_calls :: "(io_env \<times> dispatch_call) list" where
  "sample_dispatch_calls =
     [(sample_env noon, Reserve (sample_binding ''op'')),
      (sample_env noon, Consume ''dispatch-u'' (io_random (sample_env noon)) (sample_binding ''op'')),
      (sample_env noon, Consume ''dispatch-u'' (io_random (sample_env noon)) (sample_binding ''op'')),
      (sample_env noon, Reserve (sample_binding ''op''))]"

theorem mutation_authorised_at_most_once_witness:
  "length (filter (\<lambda>(a, b). db_operationId b = ''op'' \<and> db_kind b = CandidateDispatch)
      (snd (run_dispatches (\<lambda>a b. 0) sample_hash sample_dispatch_calls NoFile))) = 1"
proof -
  let ?g = "snd (run_dispatches (\<lambda>a b. 0) sample_hash sample_dispatch_calls NoFile)"
  have "length (filter is_reserve (map snd sample_dispatch_calls)) \<le> 300" by code_simp
  from mutation_authorised_at_most_once [OF this, of "''op''" CandidateDispatch "\<lambda>a b. 0" sample_hash]
  have "length (filter (\<lambda>(a, b). db_operationId b = ''op'' \<and> db_kind b = CandidateDispatch) ?g) \<le> 1" by blast
  moreover have "length (filter (\<lambda>(a, b). db_operationId b = ''op'' \<and> db_kind b = CandidateDispatch) ?g) \<noteq> 0"
    by code_simp
  ultimately show ?thesis by linarith
qed

theorem reserved_authority_used_once_witness:
  "let (d', answer) = reserve_capability_mutation_dispatch (\<lambda>a b. 0) sample_hash (sample_env noon) (sample_binding ''op'') NoFile;
       (d1, first) = consume_capability_mutation_dispatch (\<lambda>a b. 0) sample_hash (sample_env noon) ''dispatch-u''
         (io_random (sample_env noon)) (sample_binding ''op'') d'
   in answered answer \<and> answered first"
proof -
  let ?e = "sample_env noon"
  let ?k = "compact_dispatch_of (reserved_dispatch sample_hash ?e (sample_binding ''op''))"
  let ?d = "Stored (noon, [reserved_dispatch sample_hash ?e (sample_binding ''op'')])"
  have granted: "reserve_capability_mutation_dispatch (\<lambda>a b. 0) sample_hash ?e (sample_binding ''op'') NoFile
      = (?d, Some (Inr (io_random ?e, ?k)))" by code_simp
  have env: "length (io_uuid ?e) \<le> 191" "valid_hash (sample_hash (io_random ?e))" "io_lock ?e = LockTaken"
    "io_write ?e = Saved" "kd_dispatchId ?k = ''dispatch-u''" by code_simp+
  have "read_list dispatch_valid NoFile = Some []" by (simp add: read_list_def)
  from reserved_authority_used_once [OF granted this _ _ _ env(1,2,3,4,3,4)]
  show ?thesis unfolding granted env(5) Let_def prod.case by (simp add: answered_def case_prod_beta)
qed

definition old_dispatch :: mutation_dispatch where
  "old_dispatch = (reserved_dispatch sample_hash (sample_env noon) (sample_binding ''old''))\<lparr>md_status := DDispatched\<rparr>"

definition full_ledger :: dispatch_disk where
  "full_ledger =
     Stored (noon, old_dispatch # replicate 299 (reserved_dispatch sample_hash (sample_env noon) (sample_binding ''other'')))"

theorem evicted_mutation_reserved_again_witness:
  "\<exists>d1 v. reserve_capability_mutation_dispatch (\<lambda>a b. 0) sample_hash (sample_env noon) (sample_binding ''next'') full_ledger
        = (d1, Some (Inr v))
     \<and> answered (snd (reserve_capability_mutation_dispatch (\<lambda>a b. 0) sample_hash (sample_env noon) (sample_binding ''old'') d1))"
proof -
  let ?e = "sample_env noon"
  let ?rest = "replicate 299 (reserved_dispatch sample_hash ?e (sample_binding ''other''))"
  have valid: "dispatch_valid old_dispatch" "dispatch_valid (reserved_dispatch sample_hash ?e (sample_binding ''other''))"
    "dispatch_valid (reserved_dispatch sample_hash ?e (sample_binding ''next''))"
    "dispatch_valid (reserved_dispatch sample_hash ?e (sample_binding ''old''))" by code_simp+
  have read: "read_list dispatch_valid full_ledger = Some (old_dispatch # ?rest)"
    by (simp add: full_ledger_def read_list_def valid list_all_iff)
  have env: "io_lock ?e = LockTaken" "io_write ?e = Saved" by code_simp+
  have keys: "mutation_key old_dispatch = binding_key (sample_binding ''old'')"
    "binding_key (sample_binding ''old'') \<notin> mutation_key ` set ?rest"
    "\<not> list_ex (\<lambda>r. md_operationId r = db_operationId (sample_binding ''next'') \<and> md_kind r = db_kind (sample_binding ''next''))
       (old_dispatch # ?rest)"
    by (simp_all add: old_dispatch_def reserved_dispatch_def mutation_key_def binding_key_def sample_binding_def list_ex_iff)
  have form: "list_all dispatch_id_ok [db_operationId (sample_binding ''next''), db_sourceId (sample_binding ''next''),
      db_workflowId (sample_binding ''next'')]" "valid_hash (db_artifactSha256 (sample_binding ''next''))"
    "valid_hash (db_wrapperSha256 (sample_binding ''next''))" by code_simp+
  obtain d1 v where granted: "reserve_capability_mutation_dispatch (\<lambda>a b. 0) sample_hash ?e (sample_binding ''next'') full_ledger
      = (d1, Some (Inr v))"
    using read env keys(3) form
    by (simp add: reserve_capability_mutation_dispatch_def with_dispatches_def with_list_def write_disk_def Let_def)
  have "answered (snd (reserve_capability_mutation_dispatch (\<lambda>a b. 0) sample_hash ?e (sample_binding ''old'') d1))"
    using evicted_mutation_reserved_again [OF read _ keys(1,2) _ _ granted valid(3,4) env] by simp
  with granted show ?thesis by blast
qed

end
