(* ===== verification/Migration_Host.thy ===== *)
theory Migration_Host
  imports Migration_Store Mutation_Dispatch
begin

text \<open>
  \<^verbatim>\<open>packages/cli/src/agent/n8n-workflow-migration-capability.ts\<close>: how the host executes a prepared
  migration. It consumes the confirmation, takes the lease, and then performs the effects of the
  state machine (\<open>Workflow_Migration\<close>) one after the other, the stored ones in the operation store
  (\<open>Migration_Store\<close>), the reservations in the ledger (\<open>Mutation_Dispatch\<close>), the reads and writes of
  the live workflow through the executor, and feeds what it learns back as the next event, for at
  most 16 rounds. After a crash it continues from the ledger.

  Arguments for what is outside: the executor is any function from the effect, the operation, the
  grant and the authority to mutate to a new ledger (it consumes the dispatch there) and a result;
  the registered sources, the grants, the clock and the environment of each store call are
  functions of the world. No other process changes the two files during one execution.
\<close>

section \<open>The world and the state of an execution\<close>

record migration_grant =
  mg_grantId :: string
  mg_version :: int
  mg_enabled :: bool
  mg_sourceId :: string
  mg_workflowId :: string
  mg_wrapperSha256 :: string
  mg_operationTimeoutMs :: int

record migration_source =
  ms_sourceId :: string
  ms_rootPath :: string
  ms_rootFingerprint :: string
  ms_enabled :: bool

datatype migration_failure =
    CapabilityNotConfigured | GrantNotFound | GrantMismatch | SourceNotFound
  | ArtifactInvalid | ManifestInvalid | CanonicalizationFailed | OperationNotFound
  | OperationConflict | ConfirmationRequired | ConfirmationInvalid | ConfirmationExpired
  | ConfirmationReplayed | LeaseConflict | DispatchConflict | ReconciliationRequired
  | ManualInterventionRequired | OperationStoreCorrupt | DispatchStoreCorrupt | IterationLimit

text \<open>The kinds of effect an executor performs, and its answer as far as the host looks at it.\<close>

datatype effect_type = TypeReadLive | TypeApplyCandidate | TypeApplyRollback | TypeReadback | TypeUnknown

record executor_result =
  xr_effect :: effect_type
  xr_classification :: executor_classification
  xr_workflowId :: string
  xr_operationId :: string
  xr_exitCode :: "int option"
  xr_observedCanonicalSha256 :: "string option"
  xr_readbackResult :: "readback_result option"
  xr_readPurpose :: "read_purpose option"
  xr_protectedDomains :: "domain_state option"
  xr_protectedDomainMismatches :: "protected_domain list option"
  xr_reasonCode :: executor_reason

text \<open>The authority to mutate is the pair of a dispatch and its authorization.\<close>

type_synonym authority = "string \<times> string"

record host_world =
  hw_cmp :: "string \<Rightarrow> string \<Rightarrow> int"
  hw_hash :: "string \<Rightarrow> string"
  hw_source :: "string \<Rightarrow> migration_source option"
  hw_grants :: "migration_grant list"
  hw_owner :: string
  hw_io :: "nat \<Rightarrow> io_env"
  hw_now :: "nat \<Rightarrow> int"
  hw_executor :: "migration_effect \<Rightarrow> migration_operation \<Rightarrow> migration_grant \<Rightarrow> authority option \<Rightarrow> dispatch_disk
    \<Rightarrow> dispatch_disk \<times> executor_result option"

record execute_request =
  xq_sourceId :: string
  xq_operationId :: string
  xq_mode :: migration_mode
  xq_confirmationToken :: "string option"

text \<open>
  The state: the two files, how often the clock was read, the operation as last loaded, the
  dispatch this execution has reserved, its proof of the lease, and the calls of the executor.
\<close>

record host_state =
  ht_operations :: operation_disk
  ht_ledger :: dispatch_disk
  ht_clock :: nat
  ht_current :: capability_operation
  ht_pending :: "(authority \<times> dispatch_kind) option"
  ht_proof :: "string option"
  ht_calls :: "(migration_operation \<times> migration_effect \<times> authority option) list"

text \<open>An execution ends early with a failure it returns, or with an exception.\<close>

datatype host_stop = StopBlocked migration_failure | StopThrown

type_synonym 'a host = "host_state \<Rightarrow> host_state \<times> (host_stop + 'a)"

definition host_return :: "'a \<Rightarrow> 'a host" where
  "host_return a s = (s, Inr a)"

definition host_stop :: "host_stop \<Rightarrow> 'a host" where
  "host_stop x s = (s, Inl x)"

definition host_bind :: "'a host \<Rightarrow> ('a \<Rightarrow> 'b host) \<Rightarrow> 'b host" where
  "host_bind m f s = (case m s of (s', Inl x) \<Rightarrow> (s', Inl x) | (s', Inr a) \<Rightarrow> f a s')"

section \<open>Calls of the clock, the store and the ledger\<close>

definition operation_failure_code :: "operation_failure \<Rightarrow> migration_failure" where
  "operation_failure_code f =
     (if f = OPERATION_STORE_CORRUPT then OperationStoreCorrupt
      else if f = OPERATION_CONFIRMATION_EXPIRED then ConfirmationExpired
      else if f = OPERATION_CONFIRMATION_REPLAYED then ConfirmationReplayed
      else if f = OPERATION_CONFIRMATION_INVALID then ConfirmationInvalid
      else if f = OPERATION_LEASE_CONFLICT \<or> f = OPERATION_LEASE_INVALID then LeaseConflict
      else OperationConflict)"

definition dispatch_failure_code :: "dispatch_failure \<Rightarrow> migration_failure" where
  "dispatch_failure_code f = (if f = DISPATCH_LEDGER_CORRUPT then DispatchStoreCorrupt else DispatchConflict)"

text \<open>\<^verbatim>\<open>env.now()\<close>, and its \<^verbatim>\<open>toISOString()\<close>, which throws out of the range of dates.\<close>

definition read_clock :: "host_world \<Rightarrow> int host" where
  "read_clock w s = (s\<lparr>ht_clock := ht_clock s + 1\<rparr>, Inr (hw_now w (ht_clock s)))"

definition read_iso :: "host_world \<Rightarrow> string host" where
  "read_iso w = host_bind (read_clock w) (\<lambda>now. case to_iso now of None \<Rightarrow> host_stop StopThrown | Some t \<Rightarrow> host_return t)"

definition store_call ::
  "host_world \<Rightarrow> (io_env \<Rightarrow> int \<Rightarrow> operation_disk \<Rightarrow> operation_disk \<times> 'a store_answer) \<Rightarrow> 'a host" where
  "store_call w f s =
     (let n = ht_clock s; (d, answer) = f (hw_io w n) (hw_now w n) (ht_operations s);
          s' = s\<lparr>ht_operations := d, ht_clock := n + 1\<rparr>
      in case answer of
           None \<Rightarrow> (s', Inl StopThrown)
         | Some (Inl code) \<Rightarrow> (s', Inl (StopBlocked (operation_failure_code code)))
         | Some (Inr a) \<Rightarrow> (s', Inr a))"

definition ledger_call ::
  "host_world \<Rightarrow> (io_env \<Rightarrow> dispatch_disk \<Rightarrow> dispatch_disk \<times> 'a dispatch_answer) \<Rightarrow> (dispatch_failure + 'a) host" where
  "ledger_call w f s =
     (let n = ht_clock s; (d, answer) = f (hw_io w n) (ht_ledger s); s' = s\<lparr>ht_ledger := d, ht_clock := n + 1\<rparr>
      in case answer of None \<Rightarrow> (s', Inl StopThrown) | Some a \<Rightarrow> (s', Inr a))"

definition advance_now :: "host_world \<Rightarrow> (string \<Rightarrow> migration_event) \<Rightarrow> advance_decision host" where
  "advance_now w event = host_bind (read_iso w) (\<lambda>t s.
     (s, Inr (advance_controlled_workflow_migration (as_operation (ht_current s)) (event t))))"

text \<open>The operation is loaded again after every change.\<close>

definition reload :: "unit host" where
  "reload s =
     (case get_capability_operation_record (co_operationId (ht_current s)) (ht_operations s) of
        Inr (Some r) \<Rightarrow> (s\<lparr>ht_current := r\<rparr>, Inr ())
      | _ \<Rightarrow> (s, Inl (StopBlocked OperationStoreCorrupt)))"

definition current_binding :: "host_state \<Rightarrow> migration_binding" where
  "current_binding s = co_binding (ht_current s)"

definition persist :: "host_world \<Rightarrow> migration_operation \<Rightarrow> unit host" where
  "persist w nxt s =
     host_bind
       (store_call w (\<lambda>e now. transition_capability_operation (hw_cmp w) e (co_operationId (ht_current s))
          (mb_sourceId (current_binding s)) (mb_workflowId (current_binding s)) (co_status (ht_current s))
          (co_revision (ht_current s)) nxt (ht_proof s) now))
       (\<lambda>_. reload) s"

definition release_lease_of :: "host_world \<Rightarrow> unit host" where
  "release_lease_of w s =
     host_bind
       (store_call w (\<lambda>e now. release_capability_operation_lease (hw_cmp w) e (co_operationId (ht_current s))
          (mb_sourceId (current_binding s)) (mb_workflowId (current_binding s)) (co_revision (ht_current s))
          (the (ht_proof s)) now))
       (\<lambda>_. reload) s"

definition lease_duration :: "migration_grant \<Rightarrow> rat" where
  "lease_duration g = of_int (mg_operationTimeoutMs g + 30000)"

definition renew_lease :: "host_world \<Rightarrow> migration_grant \<Rightarrow> unit host" where
  "renew_lease w g s =
     host_bind
       (store_call w (\<lambda>e now. renew_capability_operation_lease (hw_cmp w) e (co_operationId (ht_current s))
          (mb_sourceId (current_binding s)) (mb_workflowId (current_binding s)) (co_revision (ht_current s))
          (the (ht_proof s)) (lease_duration g) now))
       (\<lambda>_. reload) s"

section \<open>What the executor's answer means\<close>

primrec classified_mutation :: "executor_classification \<Rightarrow> mutation_result" where
  "classified_mutation ClsSucceeded = MutSucceeded"
| "classified_mutation ClsAmbiguous = MutAmbiguous"
| "classified_mutation ClsTimedOut = MutTimedOut"
| "classified_mutation ClsBlocked = MutNotStarted"
| "classified_mutation ClsDefinitivelyFailed = MutDefinitivelyFailed"

primrec as_rollback :: "mutation_result \<Rightarrow> rollback_result" where
  "as_rollback MutSucceeded = RbSucceeded"
| "as_rollback MutAmbiguous = RbAmbiguous"
| "as_rollback MutTimedOut = RbTimedOut"
| "as_rollback MutNotStarted = RbNotAttempted"
| "as_rollback MutDefinitivelyFailed = RbDefinitivelyFailed"

definition known_id :: "string \<Rightarrow> string option" where
  "known_id i = (if i = ''unknown'' then None else Some i)"

definition result_readback :: "executor_result \<Rightarrow> read_purpose \<Rightarrow> readback" where
  "result_readback r purpose =
     \<lparr>rd_result = (case xr_readbackResult r of
          Some x \<Rightarrow> if xr_classification r = ClsSucceeded then x else ReadUnavailable | None \<Rightarrow> ReadUnavailable),
      rd_observedCanonicalSha256 = (if truthy (xr_observedCanonicalSha256 r) then xr_observedCanonicalSha256 r else None),
      rd_protectedDomains = xr_protectedDomains r,
      rd_protectedDomainMismatches = (if xr_protectedDomainMismatches r = Some [] then None else xr_protectedDomainMismatches r),
      rd_executorClassification = Some (xr_classification r), rd_executorReasonCode = Some (xr_reasonCode r),
      rd_executorExitCode = (case xr_exitCode r of None \<Rightarrow> ExitNull | Some n \<Rightarrow> ExitCode n),
      rd_readPurpose = Some purpose, rd_executorOperationId = known_id (xr_operationId r),
      rd_executorWorkflowId = known_id (xr_workflowId r)\<rparr>"

definition to_migration_event :: "executor_result \<Rightarrow> string \<Rightarrow> migration_event" where
  "to_migration_event r tm =
     (if xr_effect r = TypeApplyCandidate then MutationResult (classified_mutation (xr_classification r)) tm
      else if xr_effect r = TypeApplyRollback
      then RollbackResult (as_rollback (classified_mutation (xr_classification r))) tm
      else if xr_effect r = TypeReadLive \<and> xr_readPurpose r = Some PurposePrecondition
      then PreconditionReadback (result_readback r PurposePrecondition) tm
      else ReadbackResult (result_readback r
             (if xr_readPurpose r = Some PurposeReconciliation then PurposeReconciliation else PurposeCandidateReadback)) tm)"

primrec type_of_effect :: "migration_effect \<Rightarrow> effect_type" where
  "type_of_effect NoEffect = TypeUnknown"
| "type_of_effect (PersistOperation m) = TypeUnknown"
| "type_of_effect (AcquireLease a b c) = TypeUnknown"
| "type_of_effect (ReadLiveWorkflow a b c d) = TypeReadLive"
| "type_of_effect (ReserveCandidateDispatch a b c d f) = TypeUnknown"
| "type_of_effect (ReserveRollbackDispatch a b c d f) = TypeUnknown"
| "type_of_effect (ApplyCandidate a b c d) = TypeApplyCandidate"
| "type_of_effect (ApplyRollback a b c d f) = TypeApplyRollback"
| "type_of_effect (ReadbackWorkflow a b c) = TypeReadback"
| "type_of_effect (ReleaseLease a) = TypeUnknown"

definition matches_invocation :: "host_state \<Rightarrow> migration_effect \<Rightarrow> executor_result \<Rightarrow> bool" where
  "matches_invocation s e r =
     (xr_operationId r = co_operationId (ht_current s) \<and> xr_workflowId r = mb_workflowId (current_binding s)
      \<and> xr_effect r = type_of_effect e)"

text \<open>A read that answers nothing but that it failed.\<close>

definition unavailable_read :: readback where
  "unavailable_read =
     \<lparr>rd_result = ReadUnavailable, rd_observedCanonicalSha256 = None, rd_protectedDomains = None,
      rd_protectedDomainMismatches = None, rd_executorClassification = None, rd_executorReasonCode = None,
      rd_executorExitCode = ExitAbsent, rd_readPurpose = None, rd_executorOperationId = None, rd_executorWorkflowId = None\<rparr>"

text \<open>
  The event that follows: what the ledger forces, else what the executor reports when its answer is
  about this call, else the worst.
\<close>

definition mutation_event :: "migration_effect \<Rightarrow> mutation_result \<Rightarrow> string \<Rightarrow> migration_event" where
  "mutation_event e r tm =
     (if type_of_effect e = TypeApplyRollback then RollbackResult (as_rollback r) tm else MutationResult r tm)"

definition event_after :: "migration_effect \<Rightarrow> mutation_result option \<Rightarrow> bool \<Rightarrow> executor_result \<Rightarrow> string \<Rightarrow> migration_event" where
  "event_after e forced matched r tm =
     (let mutates = (type_of_effect e = TypeApplyCandidate \<or> type_of_effect e = TypeApplyRollback) in
      if forced \<noteq> None \<and> mutates then mutation_event e (the forced) tm
      else if matched then to_migration_event r tm
      else if mutates then mutation_event e MutAmbiguous tm
      else (case e of
              ReadLiveWorkflow i wid purpose sha \<Rightarrow>
                if purpose = PurposePrecondition then PreconditionReadback unavailable_read tm
                else ReadbackResult unavailable_read tm
            | _ \<Rightarrow> ReadbackResult unavailable_read tm))"

section \<open>Performing one effect\<close>

definition reserved_result :: "dispatch_failure + 'a \<Rightarrow> dispatch_result" where
  "reserved_result r =
     (case r of
        Inr x \<Rightarrow> DispReserved
      | Inl f \<Rightarrow> if f = DISPATCH_LEDGER_CORRUPT then DispStoreCorrupt
                 else if f = DISPATCH_CONSUMED_ALREADY then DispReplayed else DispConflict)"

definition reservation_event :: "dispatch_kind \<Rightarrow> dispatch_result \<Rightarrow> string \<Rightarrow> migration_event" where
  "reservation_event k r tm =
     (case k of CandidateDispatch \<Rightarrow> CandidateDispatchReserved r tm | RollbackDispatch \<Rightarrow> RollbackDispatchReserved r tm)"

definition reserve_dispatch ::
  "host_world \<Rightarrow> dispatch_kind \<Rightarrow> string \<Rightarrow> string \<Rightarrow> string \<Rightarrow> string \<Rightarrow> advance_decision host" where
  "reserve_dispatch w k operationId workflowId artifact wrapper s =
     host_bind
       (ledger_call w (\<lambda>e. reserve_capability_mutation_dispatch (hw_cmp w) (hw_hash w) e
          \<lparr>db_operationId = operationId, db_sourceId = mb_sourceId (current_binding s), db_workflowId = workflowId, db_kind = k,
           db_artifactSha256 = artifact, db_wrapperSha256 = wrapper\<rparr>))
       (\<lambda>r s. advance_now w (reservation_event k (reserved_result r))
          (case r of Inr (authorization, x) \<Rightarrow> s\<lparr>ht_pending := Some ((kd_dispatchId x, authorization), k)\<rparr> | Inl f \<Rightarrow> s)) s"

text \<open>What an effect changes, and the digest of the artifact it applies.\<close>

definition applied_kind :: "migration_effect \<Rightarrow> (dispatch_kind \<times> string) option" where
  "applied_kind e =
     (case e of
        ApplyCandidate i wid path sha \<Rightarrow> Some (CandidateDispatch, sha)
      | ApplyRollback i wid path sha auto \<Rightarrow> Some (RollbackDispatch, sha)
      | _ \<Rightarrow> None)"

definition dispatch_outcome_of :: "executor_classification \<Rightarrow> dispatch_outcome" where
  "dispatch_outcome_of c =
     (case c of ClsSucceeded \<Rightarrow> OutSucceeded | ClsDefinitivelyFailed \<Rightarrow> OutDefinitivelyFailed
      | ClsTimedOut \<Rightarrow> OutTimedOut | ClsAmbiguous \<Rightarrow> OutAmbiguous | ClsBlocked \<Rightarrow> OutAmbiguous)"

primrec recorded_mutation :: "dispatch_outcome \<Rightarrow> mutation_result" where
  "recorded_mutation OutSucceeded = MutSucceeded"
| "recorded_mutation OutDefinitivelyFailed = MutDefinitivelyFailed"
| "recorded_mutation OutAmbiguous = MutAmbiguous"
| "recorded_mutation OutTimedOut = MutTimedOut"

definition required :: "(dispatch_failure + 'a) \<Rightarrow> unit host" where
  "required r = (case r of Inl f \<Rightarrow> host_stop (StopBlocked (dispatch_failure_code f)) | Inr x \<Rightarrow> host_return ())"

text \<open>
  After the executor ran a mutation the ledger says what is known of it: dispatched, its outcome is
  recorded; still reserved, the mutation was not made and the reservation is closed; anything
  else is taken from the ledger.
\<close>

definition settle_dispatch ::
  "host_world \<Rightarrow> dispatch_kind \<Rightarrow> string \<Rightarrow> string \<Rightarrow> executor_result \<Rightarrow> bool \<Rightarrow> mutation_result option host" where
  "settle_dispatch w k sha dispatchId result matched s =
     (let b = current_binding s; blocked = (xr_classification result = ClsBlocked) in
      case find_capability_mutation_dispatch_record (co_operationId (ht_current s)) k (ht_ledger s) of
        Inl f \<Rightarrow> (s, Inl (StopBlocked DispatchStoreCorrupt))
      | Inr None \<Rightarrow> (s, Inl (StopBlocked DispatchConflict))
      | Inr (Some d) \<Rightarrow>
          if md_status d = DDispatched
          then host_bind
            (ledger_call w (\<lambda>e. record_capability_mutation_dispatch_outcome (hw_cmp w) e dispatchId
               \<lparr>db_operationId = co_operationId (ht_current s), db_sourceId = mb_sourceId b, db_workflowId = mb_workflowId b,
                db_kind = k, db_artifactSha256 = sha, db_wrapperSha256 = mb_wrapperSha256 b\<rparr>
               (if \<not> matched \<or> blocked then OutAmbiguous else dispatch_outcome_of (xr_classification result))))
            (\<lambda>r. host_bind (required r) (\<lambda>_. host_return None)) s
          else if md_status d = DReserved
          then host_bind (ledger_call w (\<lambda>e. require_mutation_dispatch_reconciliation (hw_cmp w) e (md_dispatchId d)))
            (\<lambda>r. host_bind (required r)
               (\<lambda>_. host_return (Some (if matched \<and> blocked then MutNotStarted else MutAmbiguous)))) s
          else (s, Inr (Some (if md_status d = DOutcomeRecorded
                              then case md_outcome d of Some o1 \<Rightarrow> recorded_mutation o1 | None \<Rightarrow> MutAmbiguous
                              else MutAmbiguous))))"

definition run_executor ::
  "host_world \<Rightarrow> migration_grant \<Rightarrow> migration_effect \<Rightarrow> authority option \<Rightarrow> executor_result host" where
  "run_executor w g e consumer s =
     (let m = as_operation (ht_current s); (d, result) = hw_executor w e m g consumer (ht_ledger s);
          s' = s\<lparr>ht_ledger := d, ht_calls := ht_calls s @ [(m, e, consumer)]\<rparr>
      in case result of None \<Rightarrow> (s', Inl StopThrown) | Some r \<Rightarrow> (s', Inr r))"

definition call_executor ::
  "host_world \<Rightarrow> migration_grant \<Rightarrow> migration_effect \<Rightarrow> authority option \<Rightarrow> advance_decision host" where
  "call_executor w g e consumer =
     host_bind (renew_lease w g) (\<lambda>_.
     host_bind (run_executor w g e consumer) (\<lambda>r s.
     host_bind (case (applied_kind e, consumer) of
                  (Some (k, sha), Some (dispatchId, authorization)) \<Rightarrow>
                    settle_dispatch w k sha dispatchId r (matches_invocation s e r)
                | _ \<Rightarrow> host_return None) (\<lambda>forced s.
       advance_now w (event_after e forced (matches_invocation s e r) r) s) s))"

definition execute_effect :: "host_world \<Rightarrow> migration_grant \<Rightarrow> migration_effect \<Rightarrow> advance_decision host" where
  "execute_effect w g e s =
     (case applied_kind e of
        None \<Rightarrow> call_executor w g e None s
      | Some (k, sha) \<Rightarrow>
          (case ht_pending s of
             Some (authority, k') \<Rightarrow>
               if k' = k then call_executor w g e (Some authority) s
               else advance_now w (mutation_event e MutAmbiguous) s
           | None \<Rightarrow> advance_now w (mutation_event e MutAmbiguous) s))"

text \<open>An effect that leads to no event leaves the next decision as it was.\<close>

definition perform_effect ::
  "host_world \<Rightarrow> migration_grant \<Rightarrow> migration_effect \<Rightarrow> advance_decision option \<Rightarrow> advance_decision option host" where
  "perform_effect w g e nxt =
     (case e of
        NoEffect \<Rightarrow> host_return nxt
      | AcquireLease i src wid \<Rightarrow> host_return nxt
      | PersistOperation m \<Rightarrow> host_bind (persist w m) (\<lambda>_. host_return nxt)
      | ReleaseLease i \<Rightarrow> host_bind (release_lease_of w) (\<lambda>_. host_return nxt)
      | ReserveCandidateDispatch i src wid artifact wrapper \<Rightarrow>
          host_bind (reserve_dispatch w CandidateDispatch i wid artifact wrapper) (\<lambda>d. host_return (Some d))
      | ReserveRollbackDispatch i src wid artifact wrapper \<Rightarrow>
          host_bind (reserve_dispatch w RollbackDispatch i wid artifact wrapper) (\<lambda>d. host_return (Some d))
      | _ \<Rightarrow> host_bind (execute_effect w g e) (\<lambda>d. host_return (Some d)))"

primrec perform_effects ::
  "host_world \<Rightarrow> migration_grant \<Rightarrow> migration_effect list \<Rightarrow> advance_decision option \<Rightarrow> advance_decision option host" where
  "perform_effects w g [] nxt = host_return nxt"
| "perform_effects w g (e # es) nxt = host_bind (perform_effect w g e nxt) (perform_effects w g es)"

text \<open>The rounds: at most \<open>n\<close>, ending early without a decision or in a terminal state.\<close>

definition max_iterations :: nat where "max_iterations = 16"

primrec host_loop :: "nat \<Rightarrow> host_world \<Rightarrow> migration_grant \<Rightarrow> advance_decision option \<Rightarrow> advance_decision option host" where
  "host_loop 0 w g d = host_return d"
| "host_loop (Suc n) w g d =
     (case d of
        None \<Rightarrow> host_return None
      | Some x \<Rightarrow> host_bind (perform_effects w g (ad_effects x) None) (\<lambda>nxt s.
          if terminal_status (co_status (ht_current s)) then (s, Inr nxt) else host_loop n w g nxt s))"

definition finish :: "advance_decision option \<Rightarrow> capability_operation host" where
  "finish d s =
     (case get_capability_operation_record (co_operationId (ht_current s)) (ht_operations s) of
        Inr (Some r) \<Rightarrow>
          if \<not> terminal_status (co_status r) \<and> d \<noteq> None then (s, Inl (StopBlocked IterationLimit)) else (s, Inr r)
      | _ \<Rightarrow> (s, Inl (StopBlocked OperationStoreCorrupt)))"

section \<open>An execution\<close>

text \<open>What an interrupted execution left: \<^verbatim>\<open>recoverDecision\<close>.\<close>

definition open_mutation :: "capability_operation \<Rightarrow> dispatch_kind option" where
  "open_mutation r =
     (let v = (case co_evidence r of None \<Rightarrow> no_evidence | Some e \<Rightarrow> e) in
      if co_rollbackUpdateRequests r = 1 \<and> ev_rollbackResult v = None then Some RollbackDispatch
      else if co_candidateUpdateRequests r = 1 \<and> ev_mutationResult v = None then Some CandidateDispatch
      else None)"

definition recovered_event :: "dispatch_kind \<Rightarrow> mutation_result \<Rightarrow> string \<Rightarrow> migration_event" where
  "recovered_event k r tm =
     (case k of CandidateDispatch \<Rightarrow> RecoveredMutation r tm | RollbackDispatch \<Rightarrow> RecoveredRollback (as_rollback r) tm)"

definition advance_some :: "host_world \<Rightarrow> (string \<Rightarrow> migration_event) \<Rightarrow> advance_decision option host" where
  "advance_some w event = host_bind (advance_now w event) (\<lambda>d. host_return (Some d))"

definition recover_dispatch :: "host_world \<Rightarrow> dispatch_kind \<Rightarrow> mutation_dispatch \<Rightarrow> advance_decision option host" where
  "recover_dispatch w k d =
     (case (md_status d, md_outcome d) of
        (DOutcomeRecorded, Some o1) \<Rightarrow> advance_some w (recovered_event k (recorded_mutation o1))
      | (DOutcomeRecorded, None) \<Rightarrow> host_return None
      | (DReconciliationRequired, _) \<Rightarrow> advance_some w (recovered_event k MutAmbiguous)
      | _ \<Rightarrow> host_bind (ledger_call w (\<lambda>e. require_mutation_dispatch_reconciliation (hw_cmp w) e (md_dispatchId d)))
               (\<lambda>r. host_bind (required r) (\<lambda>_. advance_some w (recovered_event k MutAmbiguous))))"

definition recover_decision :: "host_world \<Rightarrow> advance_decision option host" where
  "recover_decision w s =
     (case open_mutation (ht_current s) of
        None \<Rightarrow> (s, Inr None)
      | Some k \<Rightarrow>
          (case find_capability_mutation_dispatch_record (co_operationId (ht_current s)) k (ht_ledger s) of
             Inl f \<Rightarrow> advance_some w (reservation_event k DispStoreCorrupt) s
           | Inr None \<Rightarrow> (s, Inr None)
           | Inr (Some d) \<Rightarrow> recover_dispatch w k d s))"

text \<open>The confirmation: the decision it leads to, and the operation as queued.\<close>

definition confirm_operation ::
  "host_world \<Rightarrow> string option \<Rightarrow> (advance_decision option \<times> migration_operation option) host" where
  "confirm_operation w token s =
     (if co_status (ht_current s) \<noteq> MPrepared then (s, Inr (None, None))
      else if \<not> truthy token then (s, Inl (StopBlocked ConfirmationRequired))
      else host_bind (advance_now w (ConfirmationResult ConfConsumed)) (\<lambda>portable.
           host_bind (store_call w (\<lambda>e now. consume_capability_operation_confirmation (hw_cmp w) (hw_hash w) e
              (co_operationId (ht_current s)) (the token) now)) (\<lambda>_.
           host_bind reload (\<lambda>_ s'. (s', Inr (Some portable, Some (as_operation (ht_current s'))))))) s)"

text \<open>The lease: taken for an operation that is queued, is to be reconciled, or was left behind.\<close>

definition in_work :: "migration_status \<Rightarrow> bool" where
  "in_work st = (st = MRunning \<or> st = MReconciling \<or> st = MRollingBack)"

definition acquire_lease_of ::
  "host_world \<Rightarrow> migration_grant \<Rightarrow> advance_decision option \<Rightarrow> migration_operation option \<Rightarrow> advance_decision option host" where
  "acquire_lease_of w g d queued s =
     host_bind (store_call w (\<lambda>e now. acquire_capability_operation_lease (hw_cmp w) e (co_operationId (ht_current s))
        (hw_owner w) (lease_duration g) now))
       (\<lambda>acquired s. host_bind reload (\<lambda>_ s.
          if co_status (ht_current s) = MRunning \<and> co_readbackRequests (ht_current s) = 0 \<and> queued \<noteq> None
          then host_bind (read_iso w) (\<lambda>t s.
            (s, Inr (Some (advance_controlled_workflow_migration (the queued) (LeaseResult LeaseAcquired t))))) s
          else (s, Inr d)) (s\<lparr>ht_proof := Some (fst acquired)\<rparr>)) s"

definition take_lease ::
  "host_world \<Rightarrow> migration_grant \<Rightarrow> advance_decision option \<Rightarrow> migration_operation option \<Rightarrow> advance_decision option host" where
  "take_lease w g d queued =
     host_bind (read_clock w) (\<lambda>now s.
       let r = ht_current s; expired = lapsed now r
       in if in_work (co_status r) \<and> co_lease r \<noteq> None \<and> \<not> expired then (s, Inl (StopBlocked LeaseConflict))
          else if co_status r = MQueued \<or> co_status r = MReconciling
             \<or> ((co_status r = MRunning \<or> co_status r = MRollingBack) \<and> expired)
          then acquire_lease_of w g d
                 (if co_status r = MQueued \<and> queued = None then Some (as_operation r) else queued) s
          else (s, Inr d))"

definition start_decision :: "host_world \<Rightarrow> advance_decision option \<Rightarrow> advance_decision option host" where
  "start_decision w d s =
     (if ht_proof s = None then (s, Inl (StopBlocked ReconciliationRequired))
      else if d \<noteq> None then (s, Inr d)
      else host_bind (recover_decision w)
             (\<lambda>r. if r = None then advance_some w RecoveryResume else host_return r) s)"

definition run_operation :: "host_world \<Rightarrow> migration_grant \<Rightarrow> string option \<Rightarrow> capability_operation host" where
  "run_operation w g token =
     host_bind (confirm_operation w token) (\<lambda>(d, queued).
     host_bind (take_lease w g d queued) (\<lambda>d.
     host_bind (start_decision w d) (\<lambda>d.
     host_bind (host_loop max_iterations w g d) finish)))"

text \<open>The checks before anything is changed.\<close>

definition find_controlled_workflow_grant :: "migration_grant list \<Rightarrow> string \<Rightarrow> string \<Rightarrow> migration_grant option" where
  "find_controlled_workflow_grant gs sourceId workflowId =
     List.find (\<lambda>g. mg_enabled g \<and> mg_sourceId g = sourceId \<and> mg_workflowId g = workflowId) gs"

definition exact_grant :: "host_world \<Rightarrow> string \<Rightarrow> string \<Rightarrow> migration_failure + migration_grant" where
  "exact_grant w sourceId workflowId =
     (if hw_grants w = [] then Inl CapabilityNotConfigured
      else case find_controlled_workflow_grant (hw_grants w) sourceId workflowId of None \<Rightarrow> Inl GrantNotFound | Some g \<Rightarrow> Inr g)"

definition load_bound_operation ::
  "string \<Rightarrow> string \<Rightarrow> migration_mode option \<Rightarrow> operation_disk \<Rightarrow> migration_failure + capability_operation" where
  "load_bound_operation sourceId operationId mode d =
     (case get_capability_operation_record operationId d of
        Inl f \<Rightarrow> Inl (operation_failure_code f)
      | Inr None \<Rightarrow> Inl OperationNotFound
      | Inr (Some r) \<Rightarrow>
          if mb_sourceId (co_binding r) \<noteq> sourceId \<or> (mode \<noteq> None \<and> mode \<noteq> Some (mb_mode (co_binding r)))
          then Inl GrantMismatch else Inr r)"

definition authorize_execution ::
  "host_world \<Rightarrow> execute_request \<Rightarrow> operation_disk \<Rightarrow> dispatch_disk \<Rightarrow> migration_failure + (capability_operation \<times> migration_grant)" where
  "authorize_execution w q d ledger =
     (case hw_source w (xq_sourceId q) of
        None \<Rightarrow> Inl SourceNotFound
      | Some src \<Rightarrow>
          if \<not> ms_enabled src then Inl SourceNotFound
          else case load_bound_operation (xq_sourceId q) (xq_operationId q) (Some (xq_mode q)) d of
            Inl f \<Rightarrow> Inl f
          | Inr r \<Rightarrow>
              let b = co_binding r in
              if ms_rootFingerprint src \<noteq> mb_sourceRootFingerprint b then Inl GrantMismatch
              else case exact_grant w (mb_sourceId b) (mb_workflowId b) of
                Inl f \<Rightarrow> Inl f
              | Inr g \<Rightarrow>
                  if mg_grantId g \<noteq> mb_grantId b \<or> mg_version g \<noteq> mb_grantVersion b \<or> mg_wrapperSha256 g \<noteq> mb_wrapperSha256 b
                  then Inl GrantMismatch
                  else if truthy (co_confirmationConsumedAt r) \<and> truthy (xq_confirmationToken q) then Inl ConfirmationReplayed
                  else if terminal_status (co_status r)
                  then Inl (if co_status r = MManualIntervention then ManualInterventionRequired else OperationConflict)
                  else case find_capability_mutation_dispatch_record (co_operationId r)
                         (if mb_mode b = ModeRollback then RollbackDispatch else CandidateDispatch) ledger of
                    Inl f \<Rightarrow> Inl DispatchStoreCorrupt
                  | Inr x \<Rightarrow> Inr (r, g))"

definition execute_controlled_workflow_migration ::
  "host_world \<Rightarrow> execute_request \<Rightarrow> operation_disk \<Rightarrow> dispatch_disk
   \<Rightarrow> host_state option \<times> (host_stop + status_projection)" where
  "execute_controlled_workflow_migration w q d ledger =
     (case authorize_execution w q d ledger of
        Inl f \<Rightarrow> (None, Inl (StopBlocked f))
      | Inr (r, g) \<Rightarrow>
          (case run_operation w g (xq_confirmationToken q)
                  \<lparr>ht_operations = d, ht_ledger = ledger, ht_clock = 0, ht_current = r, ht_pending = None, ht_proof = None,
                   ht_calls = []\<rparr> of
             (s, Inl x) \<Rightarrow> (Some s, Inl x)
           | (s, Inr final) \<Rightarrow> (Some s, Inr (project_migration_status (as_operation final)))))"

definition get_controlled_workflow_migration_status ::
  "host_world \<Rightarrow> string \<Rightarrow> string \<Rightarrow> migration_mode option \<Rightarrow> operation_disk \<Rightarrow> migration_failure + status_projection" where
  "get_controlled_workflow_migration_status w sourceId operationId mode d =
     (case load_bound_operation sourceId operationId mode d of
        Inl f \<Rightarrow> Inl f
      | Inr r \<Rightarrow>
          (case hw_source w sourceId of
             None \<Rightarrow> Inl GrantMismatch
           | Some src \<Rightarrow>
               if \<not> ms_enabled src \<or> ms_rootFingerprint src \<noteq> mb_sourceRootFingerprint (co_binding r) then Inl GrantMismatch
               else Inr (project_migration_status (as_operation r))))"

section \<open>Progress of the machine\<close>

text \<open>How far an effect is from the end: each round brings the migration nearer.\<close>

definition effect_rank :: "migration_status \<Rightarrow> nat \<Rightarrow> migration_effect \<Rightarrow> nat" where
  "effect_rank st rollbacks e =
     (case e of
        ReadLiveWorkflow i wid purpose sha \<Rightarrow> 7
      | ReserveCandidateDispatch i src wid artifact wrapper \<Rightarrow> 6
      | ApplyCandidate i wid path sha \<Rightarrow> 5
      | ReadbackWorkflow i wid expected \<Rightarrow> if st = MReconciling \<and> rollbacks = 0 then 4 else 1
      | ReserveRollbackDispatch i src wid artifact wrapper \<Rightarrow> 3
      | ApplyRollback i wid path sha auto \<Rightarrow> 2
      | _ \<Rightarrow> 0)"

definition rank_in :: "migration_operation \<Rightarrow> migration_effect \<Rightarrow> nat" where
  "rank_in m e = effect_rank (mo_status m) (mo_rollbackUpdateRequests m) e"

definition silent :: "migration_effect \<Rightarrow> bool" where
  "silent e = (case e of NoEffect \<Rightarrow> True | AcquireLease a b c \<Rightarrow> True | ReleaseLease i \<Rightarrow> True | _ \<Rightarrow> False)"

text \<open>A decision has rank at most \<open>n\<close>: it persists, and then does one thing of at most that rank.\<close>

definition decision_within :: "nat \<Rightarrow> advance_decision \<Rightarrow> bool" where
  "decision_within n d =
     (ad_effects d = [NoEffect] \<or> ad_effects d = [PersistOperation (ad_operation d)]
      \<or> (\<exists>e. ad_effects d = [PersistOperation (ad_operation d), e]
           \<and> (silent e \<or> (0 < rank_in (ad_operation d) e \<and> rank_in (ad_operation d) e \<le> n))))"

lemmas rank_defs = decision_within_def rank_in_def effect_rank_def silent_def

text \<open>The event that an effect is answered with.\<close>

definition answers :: "migration_effect \<Rightarrow> migration_event \<Rightarrow> bool" where
  "answers e ev =
     (case e of
        ReadLiveWorkflow i wid purpose sha \<Rightarrow> (\<exists>r t. ev = PreconditionReadback r t \<or> ev = ReadbackResult r t)
      | ReserveCandidateDispatch i src wid artifact wrapper \<Rightarrow> (\<exists>r t. ev = CandidateDispatchReserved r t)
      | ApplyCandidate i wid path sha \<Rightarrow> (\<exists>r t. ev = MutationResult r t)
      | ReadbackWorkflow i wid expected \<Rightarrow> (\<exists>r t. ev = ReadbackResult r t)
      | ReserveRollbackDispatch i src wid artifact wrapper \<Rightarrow> (\<exists>r t. ev = RollbackDispatchReserved r t)
      | ApplyRollback i wid path sha auto \<Rightarrow> (\<exists>r t. ev = RollbackResult r t)
      | _ \<Rightarrow> False)"

lemma handle_within: "decision_within 7 (handle_event ev m)"
  by (cases ev; simp add: handler_defs step_defs rank_defs Let_def)

lemma advance_within: "decision_within 7 (advance_controlled_workflow_migration m ev)"
  using handle_within [of ev m]
  by (simp add: advance_controlled_workflow_migration_def no_change_def with_effects_def decision_within_def Let_def)

lemma within_mono: "decision_within k d \<Longrightarrow> k \<le> n \<Longrightarrow> decision_within n d"
  unfolding decision_within_def by (meson le_trans)

lemma answers_within:
  "decision_within 6 (handle_precondition_readback m r t)"
  "decision_within 5 (handle_candidate_dispatch_reserved m x t)"
  "decision_within 4 (handle_mutation_result m y t)"
  "decision_within 3 (handle_readback_result m r t)"
  "\<not> (mo_status m = MReconciling \<and> mo_rollbackUpdateRequests m = 0) \<Longrightarrow> decision_within 0 (handle_readback_result m r t)"
  "decision_within 2 (handle_rollback_dispatch_reserved m x t)"
  "decision_within 1 (handle_rollback_result m z t)"
  by (simp_all add: handler_defs step_defs rank_defs Let_def) auto

lemma handle_descends:
  assumes "answers e ev" "0 < rank_in m e"
  shows "decision_within (rank_in m e - 1) (handle_event ev m)"
  using assms answers_within [of m] within_mono [OF answers_within(4), of 6 m]
  by (cases e) (auto simp: answers_def rank_in_def effect_rank_def)

lemma advance_descends:
  "answers e ev \<Longrightarrow> 0 < rank_in m e \<Longrightarrow> decision_within (rank_in m e - 1) (advance_controlled_workflow_migration m ev)"
  using handle_descends [of e ev m]
  by (simp add: advance_controlled_workflow_migration_def no_change_def with_effects_def decision_within_def Let_def)

section \<open>Rules for executions\<close>

definition safe :: "(host_state \<Rightarrow> bool) \<Rightarrow> 'a host \<Rightarrow> ('a \<Rightarrow> host_state \<Rightarrow> bool) \<Rightarrow> (host_state \<Rightarrow> bool) \<Rightarrow> bool" where
  "safe P m Q E =
     (\<forall>s. P s \<longrightarrow> (case m s of (s', Inl x) \<Rightarrow> x \<noteq> StopBlocked IterationLimit \<and> E s' | (s', Inr a) \<Rightarrow> Q a s'))"

lemma safeI: "(\<And>s. P s \<Longrightarrow> (case m s of (s', Inl x) \<Rightarrow> x \<noteq> StopBlocked IterationLimit \<and> E s' | (s', Inr a) \<Rightarrow> Q a s')) \<Longrightarrow> safe P m Q E"
  by (simp add: safe_def)

lemma safeD: "safe P m Q E \<Longrightarrow> P s \<Longrightarrow> case m s of (s', Inl x) \<Rightarrow> x \<noteq> StopBlocked IterationLimit \<and> E s' | (s', Inr a) \<Rightarrow> Q a s'"
  by (simp add: safe_def)

lemma safeD_Inl: "safe P m Q E \<Longrightarrow> P s \<Longrightarrow> m s = (s', Inl x) \<Longrightarrow> x \<noteq> StopBlocked IterationLimit \<and> E s'"
  by (force simp: safe_def)

lemma safeD_Inr: "safe P m Q E \<Longrightarrow> P s \<Longrightarrow> m s = (s', Inr a) \<Longrightarrow> Q a s'"
  by (force simp: safe_def)

lemma safe_weaken:
  assumes "safe P m Q E" "\<And>s. P' s \<Longrightarrow> P s" "\<And>a s. Q a s \<Longrightarrow> Q' a s"
  shows "safe P' m Q' E"
  unfolding safe_def
proof (intro allI impI)
  fix s
  assume "P' s"
  with assms(1,2) have "case m s of (s', Inl x) \<Rightarrow> x \<noteq> StopBlocked IterationLimit \<and> E s' | (s', Inr a) \<Rightarrow> Q a s'"
    by (simp add: safe_def)
  then show "case m s of (s', Inl x) \<Rightarrow> x \<noteq> StopBlocked IterationLimit \<and> E s' | (s', Inr a) \<Rightarrow> Q' a s'"
    using assms(3) by (auto split: prod.splits sum.splits)
qed

lemma safe_bind:
  assumes "safe P m Q E" "\<And>a. safe (Q a) (f a) R E"
  shows "safe P (host_bind m f) R E"
  unfolding safe_def
proof (intro allI impI)
  fix s
  assume p: "P s"
  obtain s1 r where m: "m s = (s1, r)" by (cases "m s")
  show "case host_bind m f s of (s', Inl x) \<Rightarrow> x \<noteq> StopBlocked IterationLimit \<and> E s' | (s', Inr a) \<Rightarrow> R a s'"
  proof (cases r)
    case (Inl x)
    then show ?thesis using safeD_Inl [OF assms(1) p] m by (simp add: host_bind_def)
  next
    case (Inr a)
    then have "Q a s1" using safeD_Inr [OF assms(1) p] m by simp
    with assms(2) [of a] have "case f a s1 of (s', Inl x) \<Rightarrow> x \<noteq> StopBlocked IterationLimit \<and> E s' | (s', Inr b) \<Rightarrow> R b s'"
      by (simp add: safe_def)
    then show ?thesis using m Inr by (simp add: host_bind_def)
  qed
qed

lemma safe_return [intro]: "(\<And>s. P s \<Longrightarrow> Q a s) \<Longrightarrow> safe P (host_return a) Q E"
  by (simp add: safe_def host_return_def)

lemma safe_if: "(b \<Longrightarrow> safe P m Q E) \<Longrightarrow> (\<not> b \<Longrightarrow> safe P n Q E) \<Longrightarrow> safe P (if b then m else n) Q E"
  by simp

text \<open>A computation whose parameters are read from the state is safe if it is at every state.\<close>

lemma safe_at: "(\<And>s0. P s0 \<Longrightarrow> safe (\<lambda>s. s = s0) (m s0) Q E) \<Longrightarrow> safe P (\<lambda>s. m s s) Q E"
  by (simp add: safe_def)

section \<open>What the calls of an execution keep\<close>

abbreviation ids :: "operation_disk \<Rightarrow> bool" where
  "ids \<equiv> on_file (\<lambda>rs. distinct (map co_operationId rs))"

lemma distinct_updated:
  assumes "distinct (map co_operationId rs)" "operation_with_id i rs = Some r" "co_operationId (f r) = i"
  shows "distinct (map co_operationId (kept_operations cmp (update_operation i f rs)))"
    "r' \<in> set (kept_operations cmp (update_operation i f rs)) \<Longrightarrow> co_operationId r' = i \<Longrightarrow> r' = f r"
proof -
  have d: "distinct (map co_operationId (update_operation i f rs))"
    using assms operation_updated(2) [of i rs r f] by simp
  show "distinct (map co_operationId (kept_operations cmp (update_operation i f rs)))"
    by (rule distinct_map_submset [OF operation_list.keep_part d])
  assume "r' \<in> set (kept_operations cmp (update_operation i f rs))" "co_operationId r' = i"
  then show "r' = f r"
    using set_submset [OF operation_list.keep_part] set_update_operation [where f = f, OF assms] by blast
qed

lemma updated_by:
  assumes "with_operations cmp e d callback = (d', Some (Inr v))" "ids d"
    and "\<And>rs rs'. read_operations d = Some rs \<Longrightarrow> distinct (map co_operationId rs) \<Longrightarrow> callback rs = Some (Inr v, rs') \<Longrightarrow>
      \<exists>r f rs0. distinct (map co_operationId rs0) \<and> operation_with_id i rs0 = Some r \<and> co_operationId (f r) = i
        \<and> rs' = update_operation i f rs0 \<and> P (f r)"
  shows "ids d' \<and> (\<forall>r'. get_capability_operation_record i d' = Inr (Some r') \<longrightarrow> P r')"
proof -
  from assms(1) have "answered (snd (with_operations cmp e d callback))" by (simp add: answered_def)
  then obtain rs u rs' where c: "read_operations d = Some rs" "callback rs = Some (Inr u, rs')"
    "fst (with_operations cmp e d callback) = Stored (io_saveNow e, kept_operations cmp rs')"
    "with_operations cmp e d callback = (Stored (io_saveNow e, kept_operations cmp rs'), Some (Inr u))"
    unfolding with_operations_def read_operations_def by (elim with_list_answered) auto
  have "distinct (map co_operationId rs)"
    using read_on_file [OF c(1) [unfolded read_operations_def] assms(2)] by simp
  moreover have "callback rs = Some (Inr v, rs')" "d' = Stored (io_saveNow e, kept_operations cmp rs')"
    using c assms(1) by simp_all
  ultimately obtain r f rs0 where u: "distinct (map co_operationId rs0)" "operation_with_id i rs0 = Some r" "co_operationId (f r) = i"
    "rs' = update_operation i f rs0" "P (f r)" "d' = Stored (io_saveNow e, kept_operations cmp rs')"
    using assms(3) [OF c(1)] by blast
  have "P r'" if "get_capability_operation_record i d' = Inr (Some r')" for r'
  proof -
    have "operation_with_id i (kept_operations cmp (update_operation i f rs0)) = Some r'"
      using that u(4,6) by (auto simp: get_capability_operation_record_def read_operations_def read_list_def split: option.splits if_splits)
    from operation_with_id_Some [OF this] have "r' = f r" using distinct_updated(2) [where f = f, OF u(1-3)] by blast
    then show ?thesis using u(5) by simp
  qed
  moreover have "ids d'" using distinct_updated(1) [where f = f, OF u(1-3)] u(4,6) by simp
  ultimately show ?thesis by blast
qed

lemma transition_updates:
  assumes "transition_capability_operation cmp e i s w st v nxt proof now d = (d', Some (Inr k))" "ids d"
  shows "ids d' \<and> (\<forall>r'. get_capability_operation_record i d' = Inr (Some r')
    \<longrightarrow> co_status r' = mo_status nxt \<and> co_rollbackUpdateRequests r' = mo_rollbackUpdateRequests nxt)"
  using assms(1) unfolding transition_capability_operation_def
proof (rule updated_by [OF _ assms(2)])
  fix rs rs'
  let ?f = "\<lambda>at_now x. (safe_mutable_record x nxt)\<lparr>co_updatedAt := at_now, co_revision := co_revision x + 1\<rparr>"
  assume "read_operations d = Some rs" "distinct (map co_operationId rs)"
    "(case operation_with_id i rs of None \<Rightarrow> Some (Inl OPERATION_NOT_FOUND, rs)
      | Some r \<Rightarrow> (case transition_refusal s w st v nxt proof now r of Some code \<Rightarrow> Some (Inl code, rs)
         | None \<Rightarrow> (case to_iso now of None \<Rightarrow> None
            | Some at_now \<Rightarrow> let f = ?f at_now in Some (Inr (compact (f r)), update_operation i f rs)))) = Some (Inr k, rs')"
  then obtain r at_now where "distinct (map co_operationId rs)" "operation_with_id i rs = Some r"
    "rs' = update_operation i (?f at_now) rs"
    by (auto simp: Let_def split: option.splits)
  then show "\<exists>r f rs0. distinct (map co_operationId rs0) \<and> operation_with_id i rs0 = Some r \<and> co_operationId (f r) = i
      \<and> rs' = update_operation i f rs0
      \<and> co_status (f r) = mo_status nxt \<and> co_rollbackUpdateRequests (f r) = mo_rollbackUpdateRequests nxt"
    using operation_with_id_Some by (intro exI [of _ r] exI [of _ "?f at_now"] exI [of _ rs]) (simp add: safe_mutable_record_def)
qed

text \<open>A renewed or released operation keeps its state and its requests.\<close>

definition same_progress :: "capability_operation \<Rightarrow> capability_operation \<Rightarrow> bool" where
  "same_progress c r = (co_status r = co_status c \<and> co_rollbackUpdateRequests r = co_rollbackUpdateRequests c)"

lemma current_found:
  assumes "get_capability_operation_record i d = Inr (Some c)" "read_operations d = Some rs" "operation_with_id i rs = Some r"
  shows "r = c"
  using assms by (simp add: get_capability_operation_record_def)

lemma renew_updates:
  assumes "renew_capability_operation_lease cmp e i s w v proof ms now d = (d', Some (Inr k))" "ids d"
    and "get_capability_operation_record i d = Inr (Some c)"
  shows "ids d' \<and> (\<forall>r'. get_capability_operation_record i d' = Inr (Some r') \<longrightarrow> same_progress c r')"
  using assms(1) unfolding renew_capability_operation_lease_def
proof (rule updated_by [OF _ assms(2)])
  fix rs rs'
  let ?f = "\<lambda>expiry at_now x. x\<lparr>co_lease := map_option (\<lambda>l. l\<lparr>ls_expiresAt := expiry\<rparr>) (co_lease x),
     co_updatedAt := at_now, co_revision := co_revision x + 1\<rparr>"
  assume rs: "read_operations d = Some rs" "distinct (map co_operationId rs)"
    and "(case operation_with_id i rs of None \<Rightarrow> Some (Inl OPERATION_NOT_FOUND, rs)
      | Some r \<Rightarrow> (case lease_refusal s w v proof now r of Some code \<Rightarrow> Some (Inl code, rs)
         | None \<Rightarrow> if co_status r \<notin> {MRunning, MReconciling, MRollingBack} then Some (Inl OPERATION_INVALID_STATE, rs)
             else (case (to_iso (now + operation_lease_ms ms), to_iso now) of
               (Some expiry, Some at_now) \<Rightarrow> let f = ?f expiry at_now in Some (Inr (compact (f r)), update_operation i f rs)
             | _ \<Rightarrow> None))) = Some (Inr k, rs')"
  then obtain r expiry at_now where r: "operation_with_id i rs = Some r" "rs' = update_operation i (?f expiry at_now) rs"
    by (auto simp: Let_def split: option.splits if_splits)
  then show "\<exists>r f rs0. distinct (map co_operationId rs0) \<and> operation_with_id i rs0 = Some r \<and> co_operationId (f r) = i
      \<and> rs' = update_operation i f rs0 \<and> same_progress c (f r)"
    using operation_with_id_Some [OF r(1)] rs current_found [OF assms(3) rs(1) r(1)]
    by (intro exI [of _ r] exI [of _ "?f expiry at_now"] exI [of _ rs]) (simp add: same_progress_def)
qed

lemma release_updates:
  assumes "release_capability_operation_lease cmp e i s w v proof now d = (d', Some (Inr k))" "ids d"
    and "get_capability_operation_record i d = Inr (Some c)"
  shows "ids d' \<and> (\<forall>r'. get_capability_operation_record i d' = Inr (Some r') \<longrightarrow> same_progress c r')"
  using assms(1) unfolding release_capability_operation_lease_def
proof (rule updated_by [OF _ assms(2)])
  fix rs rs'
  let ?f = "\<lambda>at_now x. x\<lparr>co_lease := None, co_updatedAt := at_now, co_revision := co_revision x + 1\<rparr>"
  assume rs: "read_operations d = Some rs" "distinct (map co_operationId rs)"
    and "(case operation_with_id i rs of None \<Rightarrow> Some (Inl OPERATION_NOT_FOUND, rs)
      | Some r \<Rightarrow> (case lease_refusal s w v proof now r of Some code \<Rightarrow> Some (Inl code, rs)
         | None \<Rightarrow> (case to_iso now of None \<Rightarrow> None
             | Some at_now \<Rightarrow> let f = ?f at_now in Some (Inr (compact (f r)), update_operation i f rs)))) = Some (Inr k, rs')"
  then obtain r at_now where r: "operation_with_id i rs = Some r" "rs' = update_operation i (?f at_now) rs"
    by (auto simp: Let_def split: option.splits)
  then show "\<exists>r f rs0. distinct (map co_operationId rs0) \<and> operation_with_id i rs0 = Some r \<and> co_operationId (f r) = i
      \<and> rs' = update_operation i f rs0 \<and> same_progress c (f r)"
    using operation_with_id_Some [OF r(1)] rs current_found [OF assms(3) rs(1) r(1)]
    by (intro exI [of _ r] exI [of _ "?f at_now"] exI [of _ rs]) (simp add: same_progress_def)
qed

lemma consume_updates:
  assumes "consume_capability_operation_confirmation cmp hash e i token now d = (d', Some (Inr k))" "ids d"
  shows "ids d'"
proof -
  have "ids d' \<and> (\<forall>r'. get_capability_operation_record i d' = Inr (Some r') \<longrightarrow> True)"
    using assms(1) unfolding consume_capability_operation_confirmation_def
  proof (rule updated_by [OF _ assms(2)])
    fix rs rs'
    let ?f = "\<lambda>at_now r. r\<lparr>co_confirmationConsumedAt := Some at_now, co_status := MQueued, co_updatedAt := at_now,
      co_revision := co_revision r + 1\<rparr>"
    assume rs: "distinct (map co_operationId rs)"
      and "(case operation_with_id i rs of None \<Rightarrow> Some (Inl OPERATION_NOT_FOUND, rs)
       | Some r \<Rightarrow> if truthy (co_confirmationConsumedAt r) then Some (Inl OPERATION_CONFIRMATION_REPLAYED, rs)
           else case to_iso now of None \<Rightarrow> None
           | Some at_now \<Rightarrow>
               if due_by (co_confirmationExpiresAt r) now
               then Some (Inl OPERATION_CONFIRMATION_EXPIRED, update_operation i (\<lambda>r. r\<lparr>co_status := MExpired, co_updatedAt := at_now\<rparr>) rs)
               else if co_status r \<noteq> MPrepared then Some (Inl OPERATION_INVALID_STATE, rs)
               else if hash token \<noteq> co_confirmationTokenHash r then Some (Inl OPERATION_CONFIRMATION_INVALID, rs)
               else let f = ?f at_now in Some (Inr (compact (f r)), update_operation i f rs)) = Some (Inr k, rs')"
    then obtain r at_now where r: "operation_with_id i rs = Some r" "rs' = update_operation i (?f at_now) rs"
      by (auto simp: Let_def split: option.splits if_splits)
    then show "\<exists>r f rs0. distinct (map co_operationId rs0) \<and> operation_with_id i rs0 = Some r \<and> co_operationId (f r) = i
        \<and> rs' = update_operation i f rs0 \<and> True"
      using operation_with_id_Some [OF r(1)] rs
      by (intro exI [of _ r] exI [of _ "?f at_now"] exI [of _ rs]) simp
  qed
  then show ?thesis by simp
qed

lemma acquire_updates:
  assumes "acquire_capability_operation_lease cmp e i owner ms now d = (d', Some (Inr k))" "ids d"
  shows "ids d'"
proof -
  have "ids d' \<and> (\<forall>r'. get_capability_operation_record i d' = Inr (Some r') \<longrightarrow> True)"
    using assms(1) unfolding acquire_capability_operation_lease_def
  proof (rule updated_by [OF _ assms(2)])
    fix rs rs'
    let ?f = "\<lambda>at_now expiry x. x\<lparr>co_lease := Some \<lparr>ls_leaseProof = ''cap-lease-'' @ io_uuid e, ls_owner = take 160 owner,
        ls_acquiredAt = at_now, ls_expiresAt = expiry\<rparr>,
      co_status := (if co_status x = MReconciling then MReconciling else MRunning),
      co_updatedAt := at_now, co_revision := co_revision x + 1\<rparr>"
    let ?lapsed = "update_operation i (lapse now) rs"
    assume rs: "distinct (map co_operationId rs)"
      and "(case operation_with_id i rs of None \<Rightarrow> Some (Inl OPERATION_NOT_FOUND, rs)
       | Some r0 \<Rightarrow>
           if holds_lease now r0 then Some (Inl OPERATION_LEASE_CONFLICT, rs)
           else let r = lapse now r0; rs1 = ?lapsed in
             if co_status r \<noteq> MQueued \<and> co_status r \<noteq> MReconciling then Some (Inl OPERATION_INVALID_STATE, rs1)
             else if list_ex (\<lambda>x. co_operationId x \<noteq> co_operationId r \<and> same_workflow x r \<and> holds_lease now x) rs1
             then Some (Inl OPERATION_LEASE_CONFLICT, rs1)
             else case (to_iso now, to_iso (now + operation_lease_ms ms)) of
               (Some at_now, Some expiry) \<Rightarrow>
                 let proof = ''cap-lease-'' @ io_uuid e;
                     f = (\<lambda>x. x\<lparr>co_lease := Some \<lparr>ls_leaseProof = proof, ls_owner = take 160 owner,
                                                   ls_acquiredAt = at_now, ls_expiresAt = expiry\<rparr>,
                                co_status := (if co_status x = MReconciling then MReconciling else MRunning),
                                co_updatedAt := at_now, co_revision := co_revision x + 1\<rparr>)
                 in Some (Inr (proof, compact (f r)), update_operation i f rs1)
             | _ \<Rightarrow> None) = Some (Inr k, rs')"
    then obtain r0 at_now expiry where r: "operation_with_id i rs = Some r0" "rs' = update_operation i (?f at_now expiry) ?lapsed"
      by (auto simp: Let_def split: option.splits if_splits)
    have id: "co_operationId (lapse now r0) = i" using operation_with_id_Some [OF r(1)] by (simp add: lapse_def)
    note lapsed = operation_updated [where f = "lapse now", OF r(1) id]
    show "\<exists>r f rs0. distinct (map co_operationId rs0) \<and> operation_with_id i rs0 = Some r \<and> co_operationId (f r) = i
        \<and> rs' = update_operation i f rs0 \<and> True"
      using rs lapsed id r(2) by (intro exI [of _ "lapse now r0"] exI [of _ "?f at_now expiry"] exI [of _ ?lapsed]) simp
  qed
  then show ?thesis by simp
qed

section \<open>One execution\<close>

text \<open>
  The calls of the executor so far: each nearer to the end than the one before, and a mutation only
  with the authority of a dispatch.
\<close>

definition call_ranks :: "host_state \<Rightarrow> nat list" where
  "call_ranks s = map (\<lambda>(m, e, a). rank_in m e) (ht_calls s)"

definition calls_ok :: "host_state \<Rightarrow> bool" where
  "calls_ok s =
     (sorted_wrt (>) (call_ranks s)
      \<and> (\<forall>(m, e, a) \<in> set (ht_calls s). type_of_effect e \<noteq> TypeUnknown \<and> (applied_kind e \<noteq> None \<longrightarrow> a \<noteq> None)))"

definition stored :: "host_state \<Rightarrow> bool" where
  "stored s = (get_capability_operation_record (co_operationId (ht_current s)) (ht_operations s) = Inr (Some (ht_current s)))"

text \<open>Between two effects: every call made had a rank above \<open>n\<close>.\<close>

definition good :: "nat \<Rightarrow> host_state \<Rightarrow> bool" where
  "good n s = (ids (ht_operations s) \<and> stored s \<and> calls_ok s \<and> (\<forall>k \<in> set (call_ranks s). n < k))"

lemma good_calls: "good n s \<Longrightarrow> calls_ok s"
  by (simp add: good_def)

lemma good_mono: "good n s \<Longrightarrow> k \<le> n \<Longrightarrow> good k s"
  by (force simp: good_def)

lemma good_frame [simp]:
  "good n (s\<lparr>ht_clock := c\<rparr>) = good n s" "good n (s\<lparr>ht_ledger := l\<rparr>) = good n s"
  "good n (s\<lparr>ht_pending := p\<rparr>) = good n s" "good n (s\<lparr>ht_proof := q\<rparr>) = good n s"
  by (simp_all add: good_def stored_def calls_ok_def call_ranks_def)

lemma calls_ok_frame [simp]:
  "calls_ok (s\<lparr>ht_clock := c\<rparr>) = calls_ok s" "calls_ok (s\<lparr>ht_ledger := l\<rparr>) = calls_ok s"
  "calls_ok (s\<lparr>ht_operations := d\<rparr>) = calls_ok s" "calls_ok (s\<lparr>ht_current := r\<rparr>) = calls_ok s"
  "calls_ok (s\<lparr>ht_pending := p\<rparr>) = calls_ok s" "calls_ok (s\<lparr>ht_proof := q\<rparr>) = calls_ok s"
  by (simp_all add: calls_ok_def call_ranks_def)

text \<open>Where an execution stands: the invariant, and the operation at hand.\<close>

definition stands :: "nat \<Rightarrow> (capability_operation \<Rightarrow> bool) \<Rightarrow> host_state \<Rightarrow> bool" where
  "stands n P s = (good n s \<and> P (ht_current s))"

lemma code_not_limit [simp]: "operation_failure_code f \<noteq> IterationLimit" "dispatch_failure_code g \<noteq> IterationLimit"
  by (simp_all add: operation_failure_code_def dispatch_failure_code_def)

lemma safe_clock: "safe (stands n P) (read_clock w) (\<lambda>_. stands n P) calls_ok"
  by (simp add: safe_def read_clock_def stands_def)

lemma safe_iso: "safe (stands n P) (read_iso w) (\<lambda>_. stands n P) calls_ok"
  unfolding read_iso_def
  by (rule safe_bind [OF safe_clock])
     (auto simp: safe_def host_stop_def host_return_def stands_def good_calls split: option.splits)

lemma safe_ledger: "safe (stands n P) (ledger_call w f) (\<lambda>_. stands n P) calls_ok"
  by (auto simp: safe_def ledger_call_def stands_def good_calls Let_def split: prod.splits option.splits)

lemma safe_required: "safe (stands n P) (required r) (\<lambda>_. stands n P) calls_ok"
  by (auto simp: safe_def required_def host_stop_def host_return_def stands_def good_calls split: sum.splits)

text \<open>A change of the store followed by the reload.\<close>

lemma safe_change:
  assumes "\<And>e now d' v. f e now (ht_operations s0) = (d', Some (Inr v)) \<Longrightarrow>
      ids d' \<and> (\<forall>r'. get_capability_operation_record (co_operationId (ht_current s0)) d' = Inr (Some r') \<longrightarrow> P r')"
    and "good n s0"
  shows "safe (\<lambda>s. s = s0) (host_bind (store_call w f) (\<lambda>_. reload)) (\<lambda>_. stands n P) calls_ok"
proof (rule safe_bind [where Q = "\<lambda>_ s. ids (ht_operations s) \<and> calls_ok s \<and> (\<forall>k \<in> set (call_ranks s). n < k)
    \<and> (\<forall>r'. get_capability_operation_record (co_operationId (ht_current s)) (ht_operations s) = Inr (Some r') \<longrightarrow> P r')"])
  show "safe (\<lambda>s. s = s0) (store_call w f) (\<lambda>_ s. ids (ht_operations s) \<and> calls_ok s \<and> (\<forall>k \<in> set (call_ranks s). n < k)
    \<and> (\<forall>r'. get_capability_operation_record (co_operationId (ht_current s)) (ht_operations s) = Inr (Some r') \<longrightarrow> P r')) calls_ok"
    using assms by (auto simp: safe_def store_call_def Let_def good_def call_ranks_def split: prod.splits option.splits sum.splits)
next
  fix a :: 'a
  have id: "co_operationId r = i" if "get_capability_operation_record i d = Inr (Some r)" for i d r
    using that operation_with_id_Some by (auto simp: get_capability_operation_record_def split: option.splits)
  show "safe (\<lambda>s. ids (ht_operations s) \<and> calls_ok s \<and> (\<forall>k \<in> set (call_ranks s). n < k)
    \<and> (\<forall>r'. get_capability_operation_record (co_operationId (ht_current s)) (ht_operations s) = Inr (Some r') \<longrightarrow> P r'))
    reload (\<lambda>_. stands n P) calls_ok"
    unfolding safe_def reload_def
    by (auto simp: stands_def good_def stored_def id call_ranks_def split: sum.splits option.splits)
qed

definition progress :: "migration_status \<Rightarrow> nat \<Rightarrow> capability_operation \<Rightarrow> bool" where
  "progress st rollbacks r = (co_status r = st \<and> co_rollbackUpdateRequests r = rollbacks)"

lemma progress_same: "progress st k c \<Longrightarrow> same_progress c r \<Longrightarrow> progress st k r"
  by (simp add: progress_def same_progress_def)

lemma stands_good: "stands n (\<lambda>_. True) = good n"
  by (rule ext) (simp add: stands_def)

lemma stands_stored: "stands n P s \<Longrightarrow> good n s \<and> ids (ht_operations s)
    \<and> get_capability_operation_record (co_operationId (ht_current s)) (ht_operations s) = Inr (Some (ht_current s))"
  by (simp add: stands_def good_def stored_def)

lemma safe_persist:
  "safe (stands n P) (persist w x) (\<lambda>_. stands n (progress (mo_status x) (mo_rollbackUpdateRequests x))) calls_ok"
  unfolding persist_def [abs_def]
  by (rule safe_at, rule safe_change) (use stands_stored transition_updates in \<open>fastforce simp: progress_def\<close>)+

lemma safe_renew: "safe (stands n (progress st k)) (renew_lease w g) (\<lambda>_. stands n (progress st k)) calls_ok"
  unfolding renew_lease_def [abs_def]
proof (rule safe_at, rule safe_change)
  fix s0 e now d' v
  assume s: "stands n (progress st k) s0" and "renew_capability_operation_lease (hw_cmp w) e (co_operationId (ht_current s0))
    (mb_sourceId (current_binding s0)) (mb_workflowId (current_binding s0)) (co_revision (ht_current s0)) (the (ht_proof s0))
    (lease_duration g) now (ht_operations s0) = (d', Some (Inr v))"
  then show "ids d' \<and> (\<forall>r'. get_capability_operation_record (co_operationId (ht_current s0)) d' = Inr (Some r') \<longrightarrow> progress st k r')"
    using renew_updates stands_stored [OF s] progress_same s by (fastforce simp: stands_def)
qed (simp add: stands_def)

lemma safe_release: "safe (stands n (\<lambda>_. True)) (release_lease_of w) (\<lambda>_. stands n (\<lambda>_. True)) calls_ok"
  unfolding release_lease_of_def [abs_def]
  by (rule safe_at, rule safe_change) (use stands_stored release_updates in \<open>fastforce\<close>)+

lemma safe_advance:
  "safe (stands n P) (advance_now w ev)
     (\<lambda>d s. stands n P s \<and> (\<exists>t. d = advance_controlled_workflow_migration (as_operation (ht_current s)) (ev t))) calls_ok"
  unfolding advance_now_def by (rule safe_bind [OF safe_iso]) (auto simp: safe_def)

lemma answers_event_after:
  assumes "matched \<Longrightarrow> xr_effect r = type_of_effect e" "type_of_effect e \<noteq> TypeUnknown"
  shows "answers e (event_after e forced matched r t)" "applied_kind e \<noteq> None \<Longrightarrow> answers e (mutation_event e x t)"
  using assms
  by (cases e; auto simp: answers_def event_after_def mutation_event_def to_migration_event_def applied_kind_def Let_def)+

lemma answers_reservation:
  "answers (ReserveCandidateDispatch i a b c d) (reservation_event CandidateDispatch r t)"
  "answers (ReserveRollbackDispatch i a b c d) (reservation_event RollbackDispatch r t)"
  by (auto simp: answers_def reservation_event_def)

text \<open>The decision after an effect of rank \<open>k\<close> is nearer to the end.\<close>

abbreviation nearer :: "nat \<Rightarrow> advance_decision \<Rightarrow> host_state \<Rightarrow> bool" where
  "nearer k d s \<equiv> \<exists>j < k. good j s \<and> decision_within j d"

lemma advanced_nearer:
  assumes "stands n (progress st rb) s" "k - 1 \<le> n" "answers e ev" "effect_rank st rb e = k" "0 < k"
  shows "nearer k (advance_controlled_workflow_migration (as_operation (ht_current s)) ev) s"
proof -
  have "rank_in (as_operation (ht_current s)) e = k"
    using assms(1,4) by (simp add: rank_in_def stands_def progress_def)
  then have "decision_within (k - 1) (advance_controlled_workflow_migration (as_operation (ht_current s)) ev)"
    using advance_descends [OF assms(3), of "as_operation (ht_current s)"] assms(5) by simp
  moreover have "good (k - 1) s" using assms(1,2) good_mono by (auto simp: stands_def)
  ultimately show ?thesis using assms(5) by (intro exI [of _ "k - 1"]) simp
qed

lemma safe_settle: "safe (stands n P) (settle_dispatch w k sha i r m) (\<lambda>_. stands n P) calls_ok"
proof (rule safeI)
  fix s
  assume s: "stands n P s"
  have closed: "safe (stands n P) (host_bind (ledger_call w f) (\<lambda>r. host_bind (required r) (\<lambda>_. host_return x))) (\<lambda>_. stands n P) calls_ok"
    for f :: "io_env \<Rightarrow> dispatch_disk \<Rightarrow> dispatch_disk \<times> compact_dispatch dispatch_answer" and x :: "mutation_result option"
    by (rule safe_bind [OF safe_ledger], rule safe_bind [OF safe_required], rule safe_return)
  then have "case host_bind (ledger_call w f) (\<lambda>r. host_bind (required r) (\<lambda>_. host_return x)) s of
      (s', Inl x) \<Rightarrow> x \<noteq> StopBlocked IterationLimit \<and> calls_ok s' | (s', Inr a) \<Rightarrow> stands n P s'"
    for f :: "io_env \<Rightarrow> dispatch_disk \<Rightarrow> dispatch_disk \<times> compact_dispatch dispatch_answer" and x :: "mutation_result option"
    using s by (simp add: safe_def)
  moreover have "calls_ok s" using s by (simp add: stands_def good_def)
  ultimately show "case settle_dispatch w k sha i r m s of
      (s', Inl x) \<Rightarrow> x \<noteq> StopBlocked IterationLimit \<and> calls_ok s' | (s', Inr a) \<Rightarrow> stands n P s'"
    using s by (simp add: settle_dispatch_def Let_def split: sum.splits option.splits)
qed

lemma safe_executor:
  assumes "effect_rank st rb e = k" "0 < k" "type_of_effect e \<noteq> TypeUnknown" "applied_kind e \<noteq> None \<longrightarrow> a \<noteq> None"
  shows "safe (stands k (progress st rb)) (run_executor w g e a) (\<lambda>_. stands (k - 1) (progress st rb)) calls_ok"
proof (rule safeI)
  fix s
  assume s: "stands k (progress st rb) s"
  then have r: "rank_in (as_operation (ht_current s)) e = k" using assms(1) by (simp add: rank_in_def stands_def progress_def)
  obtain l x where x: "hw_executor w e (as_operation (ht_current s)) g a (ht_ledger s) = (l, x)" by fastforce
  let ?s = "s\<lparr>ht_ledger := l, ht_calls := ht_calls s @ [(as_operation (ht_current s), e, a)]\<rparr>"
  have ranks: "call_ranks ?s = call_ranks s @ [k]" by (simp add: call_ranks_def r)
  have "calls_ok ?s" using s assms(3,4) unfolding calls_ok_def ranks
    by (auto simp: stands_def good_def calls_ok_def sorted_wrt_append)
  moreover have "\<forall>j \<in> set (call_ranks ?s). k - 1 < j"
    unfolding ranks using s assms(2) by (auto simp: stands_def good_def)
  ultimately have "calls_ok ?s \<and> stands (k - 1) (progress st rb) ?s"
    using s by (simp add: stands_def good_def stored_def)
  then show "case run_executor w g e a s of
      (s', Inl x) \<Rightarrow> x \<noteq> StopBlocked IterationLimit \<and> calls_ok s' | (s', Inr r) \<Rightarrow> stands (k - 1) (progress st rb) s'"
    by (simp add: run_executor_def x Let_def split: option.splits)
qed

lemma safe_call:
  assumes "effect_rank st rb e = k" "0 < k" "type_of_effect e \<noteq> TypeUnknown" "applied_kind e \<noteq> None \<longrightarrow> a \<noteq> None"
  shows "safe (stands k (progress st rb)) (call_executor w g e a) (nearer k) calls_ok"
  unfolding call_executor_def
proof (rule safe_bind [OF safe_renew], rule safe_bind [OF safe_executor [OF assms]])
  fix r
  show "safe (stands (k - 1) (progress st rb))
     (\<lambda>s. host_bind (case (applied_kind e, a) of
          (Some (k', sha), Some (i, authorization)) \<Rightarrow> settle_dispatch w k' sha i r (matches_invocation s e r)
        | _ \<Rightarrow> host_return None)
        (\<lambda>forced s. advance_now w (event_after e forced (matches_invocation s e r) r) s) s) (nearer k) calls_ok"
  proof (rule safe_at, rule safe_bind)
    fix s0 :: host_state
    assume s0: "stands (k - 1) (progress st rb) s0"
    have "safe (stands (k - 1) (progress st rb)) (case (applied_kind e, a) of
          (Some (k', sha), Some (i, authorization)) \<Rightarrow> settle_dispatch w k' sha i r (matches_invocation s0 e r)
        | _ \<Rightarrow> host_return None) (\<lambda>_. stands (k - 1) (progress st rb)) calls_ok"
      by (auto simp: safe_settle split: option.splits)
    then show "safe (\<lambda>s. s = s0) (case (applied_kind e, a) of
          (Some (k', sha), Some (i, authorization)) \<Rightarrow> settle_dispatch w k' sha i r (matches_invocation s0 e r)
        | _ \<Rightarrow> host_return None) (\<lambda>_. stands (k - 1) (progress st rb)) calls_ok"
      by (rule safe_weaken) (use s0 in simp_all)
  next
    fix s0 and forced :: "mutation_result option"
    show "safe (stands (k - 1) (progress st rb)) (\<lambda>s. advance_now w (event_after e forced (matches_invocation s e r) r) s)
       (nearer k) calls_ok"
    proof (rule safe_at [where m = "\<lambda>s0. advance_now w (event_after e forced (matches_invocation s0 e r) r)"])
      fix s1
      assume s1: "stands (k - 1) (progress st rb) s1"
      have answers: "answers e (event_after e forced (matches_invocation s1 e r) r t)" for t
        by (rule answers_event_after) (simp_all add: matches_invocation_def assms(3))
      show "safe (\<lambda>s. s = s1) (advance_now w (event_after e forced (matches_invocation s1 e r) r)) (nearer k) calls_ok"
      proof (rule safe_weaken [OF safe_advance])
        fix s assume "s = s1"
        then show "stands (k - 1) (progress st rb) s" using s1 by simp
      next
        fix d s
        assume "stands (k - 1) (progress st rb) s
          \<and> (\<exists>t. d = advance_controlled_workflow_migration (as_operation (ht_current s)) (event_after e forced (matches_invocation s1 e r) r t))"
        then show "nearer k d s" using advanced_nearer [OF _ _ answers assms(1,2)] by blast
      qed
    qed
  qed
qed

lemma safe_advance_nearer:
  assumes "\<And>t. answers e (ev t)" "effect_rank st rb e = k" "0 < k"
  shows "safe (stands k (progress st rb)) (advance_now w ev) (nearer k) calls_ok"
proof (rule safe_weaken [OF safe_advance])
  fix d s
  assume "stands k (progress st rb) s \<and> (\<exists>t. d = advance_controlled_workflow_migration (as_operation (ht_current s)) (ev t))"
  then show "nearer k d s" using advanced_nearer [OF _ _ assms] by fastforce
qed

lemma safe_execute:
  assumes "effect_rank st rb e = k" "0 < k" "type_of_effect e \<noteq> TypeUnknown"
  shows "safe (stands k (progress st rb)) (execute_effect w g e) (nearer k) calls_ok"
proof (cases "applied_kind e")
  case None
  then show ?thesis using safe_call [OF assms, of None] by (simp add: execute_effect_def safe_def)
next
  case (Some ks)
  then obtain k' sha where ks: "applied_kind e = Some (k', sha)" by (cases ks) simp
  have early: "safe (stands k (progress st rb)) (advance_now w (mutation_event e MutAmbiguous)) (nearer k) calls_ok"
    by (rule safe_advance_nearer [OF _ assms(1,2)]) (rule answers_event_after(2) [of True "undefined\<lparr>xr_effect := type_of_effect e\<rparr>"], simp_all add: ks assms(3))
  have call: "safe (stands k (progress st rb)) (call_executor w g e (Some a)) (nearer k) calls_ok" for a
    by (rule safe_call [OF assms]) simp
  show ?thesis
    unfolding safe_def
  proof (intro allI impI)
    fix s
    assume "stands k (progress st rb) s"
    then show "case execute_effect w g e s of (s', Inl x) \<Rightarrow> x \<noteq> StopBlocked IterationLimit \<and> calls_ok s' | (s', Inr d) \<Rightarrow> nearer k d s'"
      using early call unfolding safe_def by (simp add: execute_effect_def ks split: option.splits prod.splits)
  qed
qed

lemma safe_reserve:
  assumes "effect_rank st rb e = n" "0 < n" "\<And>r t. answers e (reservation_event k r t)"
  shows "safe (stands n (progress st rb)) (reserve_dispatch w k i wid artifact wrapper) (nearer n) calls_ok"
  unfolding reserve_dispatch_def [abs_def]
proof (rule safe_at, rule safe_bind)
  fix s0
  assume s0: "stands n (progress st rb) s0"
  show "safe (\<lambda>s. s = s0) (ledger_call w (\<lambda>e. reserve_capability_mutation_dispatch (hw_cmp w) (hw_hash w) e
       \<lparr>db_operationId = i, db_sourceId = mb_sourceId (current_binding s0), db_workflowId = wid, db_kind = k,
        db_artifactSha256 = artifact, db_wrapperSha256 = wrapper\<rparr>)) (\<lambda>_. stands n (progress st rb)) calls_ok"
    by (rule safe_weaken [OF safe_ledger]) (use s0 in simp_all)
next
  fix s0 and r :: "dispatch_failure + string \<times> compact_dispatch"
  have "safe (stands n (progress st rb)) (advance_now w (reservation_event k (reserved_result r))) (nearer n) calls_ok"
    by (rule safe_advance_nearer [OF assms(3) assms(1,2)])
  moreover have "stands n (progress st rb) (case r of Inr (authorization, x) \<Rightarrow> s\<lparr>ht_pending := Some ((kd_dispatchId x, authorization), k)\<rparr> | Inl f \<Rightarrow> s)"
    if "stands n (progress st rb) s" for s
    using that by (simp add: stands_def split: sum.splits prod.splits)
  ultimately show "safe (stands n (progress st rb)) (\<lambda>s. advance_now w (reservation_event k (reserved_result r))
      (case r of Inr (authorization, x) \<Rightarrow> s\<lparr>ht_pending := Some ((kd_dispatchId x, authorization), k)\<rparr> | Inl f \<Rightarrow> s)) (nearer n) calls_ok"
    by (simp add: safe_def)
qed

text \<open>One round: its decision is carried out and the next one, if any, is nearer to the end.\<close>

abbreviation next_nearer :: "nat \<Rightarrow> advance_decision option \<Rightarrow> host_state \<Rightarrow> bool" where
  "next_nearer n nxt s \<equiv> good 0 s \<and> (\<forall>d. nxt = Some d \<longrightarrow> nearer n d s)"

lemma nearer_next: "nearer n d s \<Longrightarrow> n \<le> k \<Longrightarrow> next_nearer k (Some d) s"
  using good_mono [of _ s 0] by force

lemma safe_some:
  assumes "safe P m (nearer n) calls_ok" "n \<le> k"
  shows "safe P (host_bind m (\<lambda>d. host_return (Some d))) (next_nearer k) calls_ok"
  by (rule safe_bind [OF assms(1)]) (rule safe_return, rule nearer_next [OF _ assms(2)])

lemma safe_ranked:
  assumes "effect_rank st rb e = k" "0 < k"
  shows "safe (stands k (progress st rb)) (perform_effect w g e nxt) (next_nearer k) calls_ok"
proof (cases "type_of_effect e = TypeUnknown")
  case True
  then consider i a b c d where "e = ReserveCandidateDispatch i a b c d" | i a b c d where "e = ReserveRollbackDispatch i a b c d"
    using assms by (cases e) (auto simp: effect_rank_def)
  then show ?thesis
  proof cases
    case 1
    show ?thesis unfolding perform_effect_def 1 migration_effect.case
      by (rule safe_some [OF safe_reserve [OF assms]]) (simp_all add: 1 answers_reservation)
  next
    case 2
    show ?thesis unfolding perform_effect_def 2 migration_effect.case
      by (rule safe_some [OF safe_reserve [OF assms]]) (simp_all add: 2 answers_reservation)
  qed
next
  case False
  then have "perform_effect w g e nxt = host_bind (execute_effect w g e) (\<lambda>d. host_return (Some d))"
    by (cases e) (simp_all add: perform_effect_def)
  then show ?thesis using safe_some [OF safe_execute [OF assms False]] by simp
qed

lemma safe_silent:
  assumes "silent e"
  shows "safe (stands n (\<lambda>_. True)) (perform_effect w g e None) (\<lambda>nxt s. nxt = None \<and> stands n (\<lambda>_. True) s) calls_ok"
proof -
  have "safe (stands n (\<lambda>_. True)) (host_bind (release_lease_of w) (\<lambda>_. host_return None))
      (\<lambda>nxt s. nxt = None \<and> stands n (\<lambda>_. True) s) calls_ok"
    by (rule safe_bind [OF safe_release], rule safe_return) simp
  with assms show ?thesis by (cases e) (auto simp: silent_def perform_effect_def)
qed

lemma safe_persist_effect:
  "safe (stands n P) (perform_effect w g (PersistOperation x) None)
     (\<lambda>nxt s. nxt = None \<and> stands n (progress (mo_status x) (mo_rollbackUpdateRequests x)) s) calls_ok"
  by (simp add: perform_effect_def) (rule safe_bind [OF safe_persist], auto)

lemma stands_mono: "stands n P s \<Longrightarrow> k \<le> n \<Longrightarrow> stands k P s"
  using good_mono by (auto simp: stands_def)

lemma safe_round:
  assumes "decision_within n d"
  shows "safe (good n) (perform_effects w g (ad_effects d) None) (next_nearer n) calls_ok"
proof -
  let ?m = "ad_operation d"
  have persist: "safe (good n) (perform_effect w g (PersistOperation ?m) None)
      (\<lambda>nxt s. nxt = None \<and> stands n (progress (mo_status ?m) (mo_rollbackUpdateRequests ?m)) s) calls_ok"
    using safe_persist_effect [where P = "\<lambda>_. True"] by (simp add: stands_good)
  have none: "next_nearer n None s" if "good n s" for s
    using good_mono [OF that] by simp
  consider "ad_effects d = [NoEffect]" | "ad_effects d = [PersistOperation ?m]"
    | e where "ad_effects d = [PersistOperation ?m, e]" "silent e"
    | e where "ad_effects d = [PersistOperation ?m, e]" "0 < rank_in ?m e" "rank_in ?m e \<le> n"
    using assms by (auto simp: decision_within_def)
  then show ?thesis
  proof cases
    case 1
    then show ?thesis
      using none by (simp add: safe_def host_bind_def host_return_def perform_effect_def)
  next
    case 2
    show ?thesis unfolding 2 perform_effects.simps
    proof (rule safe_bind [OF persist], rule safe_return)
      fix a :: "advance_decision option" and s
      assume "a = None \<and> stands n (progress (mo_status ?m) (mo_rollbackUpdateRequests ?m)) s"
      then show "next_nearer n a s" using none by (simp add: stands_def)
    qed
  next
    case 3
    show ?thesis unfolding 3(1) perform_effects.simps
    proof (rule safe_bind [OF persist])
      fix a :: "advance_decision option"
      have "safe (stands n (\<lambda>_. True)) (host_bind (perform_effect w g e None) (\<lambda>nxt. host_return nxt)) (next_nearer n) calls_ok"
        by (rule safe_bind [OF safe_silent [OF 3(2)]], rule safe_return) (use none in \<open>auto simp: stands_good\<close>)
      then have "safe (\<lambda>s. a = None \<and> stands n (progress (mo_status ?m) (mo_rollbackUpdateRequests ?m)) s)
          (host_bind (perform_effect w g e None) (\<lambda>nxt. host_return nxt)) (next_nearer n) calls_ok"
        by (rule safe_weaken) (simp_all add: stands_def)
      then show "safe (\<lambda>s. a = None \<and> stands n (progress (mo_status ?m) (mo_rollbackUpdateRequests ?m)) s)
          (host_bind (perform_effect w g e a) host_return) (next_nearer n) calls_ok"
        by (auto simp: safe_def)
    qed
  next
    case 4
    let ?k = "rank_in ?m e"
    show ?thesis unfolding 4(1) perform_effects.simps
    proof (rule safe_bind [OF persist])
      fix a :: "advance_decision option"
      have "safe (\<lambda>s. a = None \<and> stands n (progress (mo_status ?m) (mo_rollbackUpdateRequests ?m)) s)
          (perform_effect w g e a) (next_nearer ?k) calls_ok"
        by (rule safe_weaken [OF safe_ranked [OF _ 4(2)]]) (use 4(3) stands_mono in \<open>auto simp: rank_in_def\<close>)
      moreover have "safe (next_nearer ?k nxt) (host_return nxt) (next_nearer n) calls_ok" for nxt
        by (rule safe_return) (use 4(3) in force)
      ultimately show "safe (\<lambda>s. a = None \<and> stands n (progress (mo_status ?m) (mo_rollbackUpdateRequests ?m)) s)
          (host_bind (perform_effect w g e a) host_return) (next_nearer n) calls_ok"
        by (rule safe_bind)
    qed
  qed
qed

text \<open>The rounds: with more rounds left than the rank of the decision, they end by themselves.\<close>

abbreviation ended :: "advance_decision option \<Rightarrow> host_state \<Rightarrow> bool" where
  "ended nxt s \<equiv> good 0 s \<and> (nxt = None \<or> terminal_status (co_status (ht_current s)))"

lemma safe_loop:
  "decision_within n d \<Longrightarrow> n < fuel \<Longrightarrow> safe (good n) (host_loop fuel w g (Some d)) ended calls_ok"
proof (induction fuel arbitrary: n d)
  case (Suc fuel)
  have rest: "safe (next_nearer n nxt) (\<lambda>s. if terminal_status (co_status (ht_current s)) then (s, Inr nxt) else host_loop fuel w g nxt s)
      ended calls_ok" for nxt
  proof (cases nxt)
    case None
    then show ?thesis by (cases fuel) (auto simp: safe_def host_return_def)
  next
    case (Some x)
    show ?thesis
      unfolding safe_def
    proof (intro allI impI)
      fix s
      assume s: "next_nearer n nxt s"
      then obtain j where j: "j < n" "good j s" "decision_within j x" using Some by blast
      have "safe (good j) (host_loop fuel w g (Some x)) ended calls_ok"
        by (rule Suc.IH [OF j(3)]) (use j(1) Suc.prems(2) in simp)
      then show "case if terminal_status (co_status (ht_current s)) then (s, Inr nxt) else host_loop fuel w g nxt s of
          (s', Inl x) \<Rightarrow> x \<noteq> StopBlocked IterationLimit \<and> calls_ok s' | (s', Inr a) \<Rightarrow> ended a s'"
        using j(2) s Some by (auto simp: safe_def)
    qed
  qed
  show ?case unfolding host_loop.simps option.case
    by (rule safe_bind [OF safe_round [OF Suc.prems(1)] rest])
qed simp

lemma safe_finish: "safe (ended d) (finish d) (\<lambda>_. calls_ok) calls_ok"
  by (auto simp: safe_def finish_def good_def stored_def)

text \<open>The way to the first decision.\<close>

definition ready :: "advance_decision option \<Rightarrow> host_state \<Rightarrow> bool" where
  "ready d s = (good 7 s \<and> (\<forall>x. d = Some x \<longrightarrow> decision_within 7 x))"

lemma ready_None: "ready None s = good 7 s"
  by (simp add: ready_def)

lemma safe_advance_some: "safe (good 7) (advance_some w ev) (\<lambda>d s. d \<noteq> None \<and> ready d s) calls_ok"
  unfolding advance_some_def
  by (rule safe_bind [OF safe_advance [of 7 "\<lambda>_. True", unfolded stands_good]], rule safe_return)
     (auto simp: ready_def advance_within)

definition held :: "nat \<Rightarrow> host_state \<Rightarrow> bool" where
  "held n s = (ids (ht_operations s) \<and> calls_ok s \<and> (\<forall>k \<in> set (call_ranks s). n < k))"

lemma held_frame [simp]: "held n (s\<lparr>ht_proof := q\<rparr>) = held n s"
  by (simp add: held_def call_ranks_def)

lemma safe_store_held:
  assumes "\<And>e now d d' v. f e now d = (d', Some (Inr v)) \<Longrightarrow> ids d \<Longrightarrow> ids d'"
  shows "safe (good n) (store_call w f) (\<lambda>_. held n) calls_ok"
proof (rule safeI)
  fix s
  assume s: "good n s"
  obtain d answer where a: "f (hw_io w (ht_clock s)) (hw_now w (ht_clock s)) (ht_operations s) = (d, answer)" by fastforce
  have "ids d" if "answer = Some (Inr v)" for v using assms a that s by (simp add: good_def)
  then show "case store_call w f s of (s', Inl x) \<Rightarrow> x \<noteq> StopBlocked IterationLimit \<and> calls_ok s' | (s', Inr v) \<Rightarrow> held n s'"
    using s by (simp add: store_call_def a Let_def good_def held_def call_ranks_def split: option.splits sum.splits)
qed

lemma safe_pure: "(A \<Longrightarrow> safe P m Q E) \<Longrightarrow> safe (\<lambda>s. P s \<and> A) m Q E"
  by (simp add: safe_def)

lemma safe_reload: "safe (held n) reload (\<lambda>_. good n) calls_ok"
proof -
  have id: "co_operationId r = i" if "get_capability_operation_record i d = Inr (Some r)" for i d r
    using that operation_with_id_Some by (auto simp: get_capability_operation_record_def split: option.splits)
  show ?thesis unfolding safe_def reload_def
    by (auto simp: held_def good_def stored_def id call_ranks_def split: sum.splits option.splits)
qed

lemma safe_confirm: "safe (good 7) (confirm_operation w token) (\<lambda>(d, q). ready d) calls_ok"
proof (rule safeI)
  fix s
  assume s: "good 7 s"
  let ?f = "\<lambda>e now. consume_capability_operation_confirmation (hw_cmp w) (hw_hash w) e (co_operationId (ht_current s)) (the token) now"
  let ?portable = "advance_now w (ConfirmationResult ConfConsumed)"
  have "safe (good 7) (host_bind ?portable (\<lambda>portable. host_bind (store_call w ?f) (\<lambda>_. host_bind reload
      (\<lambda>_ s'. (s', Inr (Some portable, Some (as_operation (ht_current s')))))))) (\<lambda>(d, q). ready d) calls_ok"
  proof (rule safe_bind [where Q = "\<lambda>d s. good 7 s \<and> decision_within 7 d"])
    show "safe (good 7) ?portable (\<lambda>d s. good 7 s \<and> decision_within 7 d) calls_ok"
      by (rule safe_weaken [OF safe_advance [of 7 "\<lambda>_. True", unfolded stands_good]]) (auto simp: advance_within)
  next
    fix d
    show "safe (\<lambda>s. good 7 s \<and> decision_within 7 d) (host_bind (store_call w ?f) (\<lambda>_. host_bind reload
      (\<lambda>_ s'. (s', Inr (Some d, Some (as_operation (ht_current s'))))))) (\<lambda>(d, q). ready d) calls_ok"
    proof (rule safe_pure, rule safe_bind [OF safe_store_held], erule consume_updates, assumption, rule safe_bind [OF safe_reload])
      assume "decision_within 7 d"
      then show "safe (good 7) (\<lambda>s'. (s', Inr (Some d, Some (as_operation (ht_current s'))))) (\<lambda>(d, q). ready d) calls_ok"
        by (simp add: safe_def ready_def)
    qed
  qed
  with s show "case confirm_operation w token s of
      (s', Inl x) \<Rightarrow> x \<noteq> StopBlocked IterationLimit \<and> calls_ok s' | (s', Inr a) \<Rightarrow> (case a of (d, q) \<Rightarrow> ready d) s'"
    by (simp add: confirm_operation_def ready_None good_calls safe_def)
qed

lemma safe_acquire: "safe (ready d) (acquire_lease_of w g d queued) ready calls_ok"
  unfolding safe_def
proof (intro allI impI)
  fix s
  assume s: "ready d s"
  let ?after = "\<lambda>s. if co_status (ht_current s) = MRunning \<and> co_readbackRequests (ht_current s) = 0 \<and> queued \<noteq> None
      then host_bind (read_iso w) (\<lambda>t s.
        (s, Inr (Some (advance_controlled_workflow_migration (the queued) (LeaseResult LeaseAcquired t))))) s
      else (s, Inr d)"
  have clock: "safe (good 7) (read_iso w) (\<lambda>_. good 7) calls_ok"
    using safe_iso [of 7 "\<lambda>_. True"] by (simp add: stands_good)
  have "safe (good 7) (host_bind (read_iso w) (\<lambda>t s.
        (s, Inr (Some (advance_controlled_workflow_migration (the queued) (LeaseResult LeaseAcquired t)))))) ready calls_ok"
    by (rule safe_bind [OF clock]) (simp add: safe_def ready_def advance_within)
  then have after: "safe (good 7) ?after ready calls_ok"
    using s by (simp add: safe_def ready_def)
  have "safe (held 7) (host_bind reload (\<lambda>_. ?after)) ready calls_ok"
    by (rule safe_bind [OF safe_reload after])
  then have "safe (held 7) (\<lambda>s. host_bind reload (\<lambda>_. ?after) (s\<lparr>ht_proof := p\<rparr>)) ready calls_ok" for p
    by (simp add: safe_def)
  then have "safe (good 7) (host_bind (store_call w (\<lambda>e now. acquire_capability_operation_lease (hw_cmp w) e (co_operationId (ht_current s))
      (hw_owner w) (lease_duration g) now)) (\<lambda>acquired s. host_bind reload (\<lambda>_. ?after) (s\<lparr>ht_proof := Some (fst acquired)\<rparr>))) ready calls_ok"
    by (intro safe_bind [OF safe_store_held]) (erule acquire_updates)
  then show "case acquire_lease_of w g d queued s of (s', Inl x) \<Rightarrow> x \<noteq> StopBlocked IterationLimit \<and> calls_ok s' | (s', Inr a) \<Rightarrow> ready a s'"
    using s by (simp add: safe_def ready_def acquire_lease_of_def)
qed

lemma ready_calls: "ready d s \<Longrightarrow> calls_ok s"
  by (simp add: ready_def good_def)

lemma safe_take_lease: "safe (ready d) (take_lease w g d queued) ready calls_ok"
  unfolding take_lease_def
proof (rule safe_bind [where Q = "\<lambda>_. ready d"])
  show "safe (ready d) (read_clock w) (\<lambda>_. ready d) calls_ok"
    by (simp add: safe_def read_clock_def ready_def)
next
  fix now
  have lease: "ready d s \<Longrightarrow> case acquire_lease_of w g d q s of
      (s', Inl x) \<Rightarrow> x \<noteq> StopBlocked IterationLimit \<and> calls_ok s' | (s', Inr a) \<Rightarrow> ready a s'" for q s
    by (rule safeD [OF safe_acquire])
  show "safe (ready d) (\<lambda>s.
       let r = ht_current s; expired = lapsed now r
       in if in_work (co_status r) \<and> co_lease r \<noteq> None \<and> \<not> expired then (s, Inl (StopBlocked LeaseConflict))
          else if co_status r = MQueued \<or> co_status r = MReconciling
             \<or> ((co_status r = MRunning \<or> co_status r = MRollingBack) \<and> expired)
          then acquire_lease_of w g d
                 (if co_status r = MQueued \<and> queued = None then Some (as_operation r) else queued) s
          else (s, Inr d)) ready calls_ok"
    by (rule safeI) (simp only: Let_def split: if_split, simp add: lease ready_calls)
qed

lemma safe_recover: "safe (good 7) (recover_decision w) ready calls_ok"
proof (rule safeI)
  fix s
  assume s: "good 7 s"
  have advance: "safe (good 7) (advance_some w ev) ready calls_ok" for ev
    by (rule safe_weaken [OF safe_advance_some]) simp_all
  have "safe (good 7) (host_bind (ledger_call w f) (\<lambda>r. host_bind (required r) (\<lambda>_. advance_some w ev))) ready calls_ok"
    for f :: "io_env \<Rightarrow> dispatch_disk \<Rightarrow> dispatch_disk \<times> compact_dispatch dispatch_answer" and ev
    by (rule safe_bind [OF safe_ledger [of 7 "\<lambda>_. True", unfolded stands_good]],
        rule safe_bind [OF safe_required [of 7 "\<lambda>_. True", unfolded stands_good] advance])
  with advance have dispatch: "safe (good 7) (recover_dispatch w k x) ready calls_ok" for k x
    by (cases "md_status x"; cases "md_outcome x")
       (simp_all add: recover_dispatch_def safe_return ready_None)
  from s advance dispatch show "case recover_decision w s of
      (s', Inl x) \<Rightarrow> x \<noteq> StopBlocked IterationLimit \<and> calls_ok s' | (s', Inr d) \<Rightarrow> ready d s'"
    by (simp add: recover_decision_def safe_def ready_None split: option.splits sum.splits)
qed

lemma safe_start: "safe (ready d) (start_decision w d) (\<lambda>d s. d \<noteq> None \<and> ready d s) calls_ok"
proof -
  have "safe (ready r) (if r = None then advance_some w RecoveryResume else host_return r) (\<lambda>d s. d \<noteq> None \<and> ready d s) calls_ok" for r
    using safe_advance_some [of w RecoveryResume] by (auto simp: ready_None [abs_def] safe_def host_return_def)
  then have "safe (good 7) (host_bind (recover_decision w) (\<lambda>r. if r = None then advance_some w RecoveryResume else host_return r))
      (\<lambda>d s. d \<noteq> None \<and> ready d s) calls_ok"
    by (rule safe_bind [OF safe_recover])
  then show ?thesis
    by (auto simp: safe_def start_decision_def ready_def good_def)
qed

lemma safe_run: "safe (good 7) (run_operation w g token) (\<lambda>_. calls_ok) calls_ok"
  unfolding run_operation_def
proof (rule safe_bind [OF safe_confirm])
  fix a :: "advance_decision option \<times> migration_operation option"
  obtain d q where a: "a = (d, q)" by fastforce
  have loop: "safe (\<lambda>s. d \<noteq> None \<and> ready d s) (host_bind (host_loop max_iterations w g d) finish) (\<lambda>_. calls_ok) calls_ok" for d
  proof (rule safe_bind [OF _ safe_finish])
    show "safe (\<lambda>s. d \<noteq> None \<and> ready d s) (host_loop max_iterations w g d) ended calls_ok"
      using safe_loop [of 7 _ max_iterations w g] by (cases d) (auto simp: safe_def ready_def max_iterations_def)
  qed
  show "safe (case a of (d, q) \<Rightarrow> ready d) (case a of (d, queued) \<Rightarrow> host_bind (take_lease w g d queued)
     (\<lambda>d. host_bind (start_decision w d) (\<lambda>d. host_bind (host_loop max_iterations w g d) finish))) (\<lambda>_. calls_ok) calls_ok"
    unfolding a prod.case by (rule safe_bind [OF safe_take_lease], rule safe_bind [OF safe_start loop])
qed

section \<open>Where an authority comes from\<close>

text \<open>The ledgers of an execution: what its own operations and the executor make of the first one.\<close>

inductive host_ledger :: "host_world \<Rightarrow> dispatch_disk \<Rightarrow> dispatch_disk \<Rightarrow> bool" for w first where
  ledger_start: "host_ledger w first first"
| ledger_reserve: "host_ledger w first l \<Longrightarrow>
    host_ledger w first (fst (reserve_capability_mutation_dispatch (hw_cmp w) (hw_hash w) (hw_io w n) b l))"
| ledger_outcome: "host_ledger w first l \<Longrightarrow>
    host_ledger w first (fst (record_capability_mutation_dispatch_outcome (hw_cmp w) (hw_io w n) i b out l))"
| ledger_reconcile: "host_ledger w first l \<Longrightarrow>
    host_ledger w first (fst (require_mutation_dispatch_reconciliation (hw_cmp w) (hw_io w n) i l))"
| ledger_executor: "host_ledger w first l \<Longrightarrow> host_ledger w first (fst (hw_executor w e m g a l))"

text \<open>The authority is what a reservation of this kind for this operation answered, on a ledger of
  the execution.\<close>

definition reserved_authority :: "host_world \<Rightarrow> dispatch_disk \<Rightarrow> string \<Rightarrow> dispatch_kind \<Rightarrow> authority \<Rightarrow> bool" where
  "reserved_authority w first i k a \<longleftrightarrow>
     (\<exists>l n b l' x. host_ledger w first l \<and> db_operationId b = i \<and> db_kind b = k
        \<and> reserve_capability_mutation_dispatch (hw_cmp w) (hw_hash w) (hw_io w n) b l = (l', Some (Inr (snd a, x)))
        \<and> kd_dispatchId x = fst a)"

definition authorised :: "host_world \<Rightarrow> dispatch_disk \<Rightarrow> string \<Rightarrow> host_state \<Rightarrow> bool" where
  "authorised w first i s \<longleftrightarrow>
     host_ledger w first (ht_ledger s) \<and> co_operationId (ht_current s) = i
     \<and> (\<forall>a k. ht_pending s = Some (a, k) \<longrightarrow> reserved_authority w first i k a)
     \<and> (\<forall>(m, e, a) \<in> set (ht_calls s). \<forall>k sha. applied_kind e = Some (k, sha) \<longrightarrow>
          (\<exists>x. a = Some x \<and> reserved_authority w first i k x))"










lemma authorised_frame [simp]:
  "authorised w first i (s\<lparr>ht_clock := c\<rparr>) = authorised w first i s"
  "authorised w first i (s\<lparr>ht_operations := d\<rparr>) = authorised w first i s"
  "authorised w first i (s\<lparr>ht_proof := q\<rparr>) = authorised w first i s"
  by (simp_all add: authorised_def)


































section \<open>Properties\<close>

lemma authorized_start:
  assumes "authorize_execution w q d ledger = Inr (r, g)" "ids d"
  shows "good 7 \<lparr>ht_operations = d, ht_ledger = ledger, ht_clock = 0, ht_current = r, ht_pending = None, ht_proof = None, ht_calls = []\<rparr>"
proof -
  from assms(1) have "get_capability_operation_record (xq_operationId q) d = Inr (Some r)"
    by (auto simp: authorize_execution_def load_bound_operation_def exact_grant_def Let_def split: option.splits sum.splits if_splits)
  moreover from this have "co_operationId r = xq_operationId q"
    using operation_with_id_Some by (auto simp: get_capability_operation_record_def split: option.splits)
  ultimately show ?thesis using assms(2) by (simp add: good_def stored_def calls_ok_def call_ranks_def)
qed

lemma refused_not_limit: "authorize_execution w q d ledger = Inl f \<Longrightarrow> f \<noteq> IterationLimit"
  by (auto simp: authorize_execution_def load_bound_operation_def exact_grant_def Let_def split: option.splits sum.splits if_splits)

lemma execution_safe:
  assumes "ids d"
  shows "snd (execute_controlled_workflow_migration w q d ledger) \<noteq> Inl (StopBlocked IterationLimit)"
    "fst (execute_controlled_workflow_migration w q d ledger) = Some s \<Longrightarrow> calls_ok s"
proof -
  let ?x = "execute_controlled_workflow_migration w q d ledger"
  have "snd ?x \<noteq> Inl (StopBlocked IterationLimit) \<and> (\<forall>s. fst ?x = Some s \<longrightarrow> calls_ok s)"
  proof (cases "authorize_execution w q d ledger")
    case (Inl f)
    then show ?thesis using refused_not_limit by (auto simp: execute_controlled_workflow_migration_def)
  next
    case (Inr a)
    then obtain r g where a: "authorize_execution w q d ledger = Inr (r, g)" by (cases a) simp
    from safeD [OF safe_run authorized_start [OF a assms], of w g "xq_confirmationToken q"]
    show ?thesis by (auto simp: execute_controlled_workflow_migration_def a split: prod.splits sum.splits)
  qed
  then show "snd ?x \<noteq> Inl (StopBlocked IterationLimit)" "fst ?x = Some s \<Longrightarrow> calls_ok s" by simp_all
qed

lemma distinct_decreasing: "sorted_wrt (>) xs \<Longrightarrow> distinct (xs :: nat list)"
  by (induction xs) auto

lemma call_rank:
  assumes "calls_ok s" "(m, e, a) \<in> set (ht_calls s)"
  shows "rank_in m e \<in> {1, 2, 4, 5, 7}" "type_of_effect e = TypeApplyCandidate \<Longrightarrow> rank_in m e = 5"
    "type_of_effect e = TypeApplyRollback \<Longrightarrow> rank_in m e = 2"
proof -
  have "type_of_effect e \<noteq> TypeUnknown" using assms by (auto simp: calls_ok_def)
  then show "rank_in m e \<in> {1, 2, 4, 5, 7}" by (cases e) (simp_all add: rank_in_def effect_rank_def)
  show "type_of_effect e = TypeApplyCandidate \<Longrightarrow> rank_in m e = 5" "type_of_effect e = TypeApplyRollback \<Longrightarrow> rank_in m e = 2"
    by (cases e; simp add: rank_in_def effect_rank_def)+
qed


text \<open>
  C9. An execution ends by itself: for every executor, clock and behaviour of the two files, the rounds
  of the host come to their end before the limit of 16 stops them, so an execution never fails
  with the iteration limit, and it calls the executor at most five times.
\<close>

theorem migration_execution_ends:
  assumes "on_file (\<lambda>rs. distinct (map co_operationId rs)) d"
  shows "snd (execute_controlled_workflow_migration w q d ledger) \<noteq> Inl (StopBlocked IterationLimit)
    \<and> (\<forall>s. fst (execute_controlled_workflow_migration w q d ledger) = Some s \<longrightarrow> length (ht_calls s) \<le> 5)"
proof (intro conjI allI impI)
  show "snd (execute_controlled_workflow_migration w q d ledger) \<noteq> Inl (StopBlocked IterationLimit)"
    by (rule execution_safe(1) [OF assms])
  fix s
  assume "fst (execute_controlled_workflow_migration w q d ledger) = Some s"
  then have ok: "calls_ok s" by (rule execution_safe(2) [OF assms])
  then have "distinct (call_ranks s)" by (auto simp: calls_ok_def intro: distinct_decreasing)
  then have "length (ht_calls s) = card (set (call_ranks s))" unfolding call_ranks_def by (metis distinct_card length_map)
  also have "\<dots> \<le> card {1, 2, 4, 5, 7 :: nat}"
    by (rule card_mono) (use call_rank(1) [OF ok] in \<open>auto simp: call_ranks_def\<close>)
  also have "\<dots> = 5" by simp
  finally show "length (ht_calls s) \<le> 5" .
qed


section \<open>A concrete execution\<close>

definition host_source :: migration_source where
  "host_source = \<lparr>ms_sourceId = ''src'', ms_rootPath = ''/r'', ms_rootFingerprint = sample_sha (CHR ''0''), ms_enabled = True\<rparr>"

definition host_grant :: migration_grant where
  "host_grant = \<lparr>mg_grantId = ''g'', mg_version = 1, mg_enabled = True, mg_sourceId = ''src'', mg_workflowId = ''wf'',
     mg_wrapperSha256 = sample_sha (CHR ''1''), mg_operationTimeoutMs = 60000\<rparr>"

definition host_answer :: "effect_type \<Rightarrow> readback_result option \<Rightarrow> read_purpose option \<Rightarrow> executor_result" where
  "host_answer t r purpose =
     \<lparr>xr_effect = t, xr_classification = ClsSucceeded, xr_workflowId = ''wf'', xr_operationId = ''op'', xr_exitCode = Some 0,
      xr_observedCanonicalSha256 = None, xr_readbackResult = r, xr_readPurpose = purpose, xr_protectedDomains = Some DomainsUnchanged,
      xr_protectedDomainMismatches = None, xr_reasonCode = X_READ_SUCCEEDED\<rparr>"

text \<open>An executor that consumes its authority and finds what was approved.\<close>

definition host_executor ::
  "migration_effect \<Rightarrow> migration_operation \<Rightarrow> migration_grant \<Rightarrow> authority option \<Rightarrow> dispatch_disk
   \<Rightarrow> dispatch_disk \<times> executor_result option" where
  "host_executor e m g a l =
     (case (e, a) of
        (ApplyCandidate i wid path sha, Some (dispatchId, authorization)) \<Rightarrow>
          (snd (fst (dispatch_consumer sample_order sample_hash store_env dispatchId
             \<lparr>db_operationId = i, db_sourceId = ''src'', db_workflowId = wid, db_kind = CandidateDispatch,
              db_artifactSha256 = sha, db_wrapperSha256 = sample_sha (CHR ''1'')\<rparr> (authorization, l))),
           Some (host_answer TypeApplyCandidate None None))
      | (ReadLiveWorkflow i wid purpose sha, _) \<Rightarrow>
          (l, Some (host_answer TypeReadLive (Some MatchesPreMutation) (Some PurposePrecondition)))
      | _ \<Rightarrow> (l, Some (host_answer TypeReadback (Some MatchesCandidate) None)))"

definition host_sample :: host_world where
  "host_sample = \<lparr>hw_cmp = sample_order, hw_hash = sample_hash,
     hw_source = (\<lambda>i. if i = ''src'' then Some host_source else None), hw_grants = [host_grant], hw_owner = ''migration-1'',
     hw_io = (\<lambda>n. store_env), hw_now = (\<lambda>n. store_now), hw_executor = host_executor\<rparr>"

definition host_request :: execute_request where
  "host_request = \<lparr>xq_sourceId = ''src'', xq_operationId = ''op'', xq_mode = ModeApply, xq_confirmationToken = None\<rparr>"

abbreviation host_run :: "host_state option \<times> (host_stop + status_projection)" where
  "host_run \<equiv> execute_controlled_workflow_migration host_sample host_request (Stored (noon, [queued_record ''op''])) NoFile"

lemma host_completes:
  "(case host_run of
      (Some s, Inr p) \<Rightarrow> sp_status p = MCompleted
        \<and> map (\<lambda>(m, e, a). type_of_effect e) (ht_calls s) = [TypeReadLive, TypeApplyCandidate, TypeReadback]
    | _ \<Rightarrow> False)"
  by code_simp

theorem migration_execution_ends_witness:
  "\<exists>s p. host_run = (Some s, Inr p) \<and> sp_status p = MCompleted \<and> length (ht_calls s) \<le> 5"
proof -
  obtain s p where run: "host_run = (Some s, Inr p)" and st: "sp_status p = MCompleted"
    using host_completes by (auto split: prod.splits option.splits sum.splits)
  moreover have "on_file (\<lambda>rs. distinct (map co_operationId rs)) (Stored (noon, [queued_record ''op'']))" by simp
  ultimately show ?thesis
    using migration_execution_ends [of "Stored (noon, [queued_record ''op''])" host_sample host_request NoFile] by simp
qed


end
