(* ===== verification/Repository_Scheduler.thy ===== *)
theory Repository_Scheduler
  imports Locked_Store
begin

text \<open>
  \<^verbatim>\<open>packages/cli/src/agent/workbench-repository-scheduler.ts\<close>: the queue of work on the
  repositories (sources) of a machine. Readers of a source may hold leases together, a
  mutation holds its source alone; requests wait in the order of their time and id, leases
  expire, and every operation is one atomic step on the store's file (\<^verbatim>\<open>Locked_Store\<close>).

  Arguments that stand for code outside this model: \<open>hash\<close> is SHA-256 in hexadecimal, \<open>cmp\<close>
  is \<^verbatim>\<open>localeCompare\<close>, and \<open>session\<close> is the answer of the session store for the request's
  session (its locked sources, or \<open>None\<close> when it is missing or unreadable).
\<close>

section \<open>Data\<close>

datatype schedule_class = ReadShared | MutationExclusive

datatype schedule_status = SQueued | SLeased | SCompleted | SCancelled | STimedOut

record schedule_request =
  sq_requestId :: string
  sq_sessionId :: string
  sq_sourceId :: string
  sq_class :: schedule_class
  sq_operationKind :: string
  sq_status :: schedule_status
  sq_enqueuedAt :: string
  sq_updatedAt :: string
  sq_leaseOwner :: "string option"
  sq_leaseProofHash :: "string option"
  sq_leaseAcquiredAt :: "string option"
  sq_leaseExpiresAt :: "string option"
  sq_completedAt :: "string option"
  sq_cancelledAt :: "string option"
  sq_timedOutAt :: "string option"

datatype scheduler_failure =
    SCHEDULER_BUSY | SCHEDULER_CORRUPT | SCHEDULER_INVALID_INPUT | SCHEDULER_SESSION_NOT_FOUND
  | SCHEDULER_SOURCE_NOT_OWNED | SCHEDULER_DUPLICATE_CONFLICT | SCHEDULER_REQUEST_NOT_FOUND
  | SCHEDULER_NOT_ELIGIBLE | SCHEDULER_LEASE_CONFLICT | SCHEDULER_LEASE_PROOF_INVALID

text \<open>The file's content is the time of its last write and the requests.\<close>

type_synonym scheduler_disk = "(string \<times> schedule_request list) disk"

definition terminal :: "schedule_request \<Rightarrow> bool" where
  "terminal r = (sq_status r \<in> {SCompleted, SCancelled, STimedOut})"

definition valid_request :: "schedule_request \<Rightarrow> bool" where
  "valid_request r =
     (valid_id (sq_requestId r) \<and> valid_id (sq_sessionId r) \<and> valid_id (sq_sourceId r)
      \<and> 0 < length (sq_operationKind r) \<and> length (sq_operationKind r) \<le> 120
      \<and> valid_iso (sq_enqueuedAt r) \<and> valid_iso (sq_updatedAt r)
      \<and> opt_valid valid_id (sq_leaseOwner r) \<and> opt_valid valid_hash (sq_leaseProofHash r)
      \<and> opt_valid valid_iso (sq_leaseAcquiredAt r) \<and> opt_valid valid_iso (sq_leaseExpiresAt r))"

section \<open>The store\<close>

definition read_store :: "scheduler_disk \<Rightarrow> schedule_request list option" where
  "read_store d =
     (case d of NoFile \<Rightarrow> Some [] | BadFile \<Rightarrow> None
      | Stored (updatedAt, rs) \<Rightarrow> if list_all valid_request rs then Some rs else None)"

definition max_requests :: "int option \<Rightarrow> nat" where
  "max_requests configured =
     (let n = (case configured of None \<Rightarrow> 1000 | Some m \<Rightarrow> if m = 0 then 1000 else m)
      in nat (max 20 (min n 5000)))"

definition by_time :: "(string \<Rightarrow> string \<Rightarrow> int) \<Rightarrow> schedule_request \<Rightarrow> schedule_request \<Rightarrow> int" where
  "by_time cmp a b = cmp (sq_enqueuedAt a) (sq_enqueuedAt b)"

definition by_time_id :: "(string \<Rightarrow> string \<Rightarrow> int) \<Rightarrow> schedule_request \<Rightarrow> schedule_request \<Rightarrow> int" where
  "by_time_id cmp a b = (if by_time cmp a b \<noteq> 0 then by_time cmp a b else cmp (sq_requestId a) (sq_requestId b))"

definition retained ::
  "(string \<Rightarrow> string \<Rightarrow> int) \<Rightarrow> int option \<Rightarrow> schedule_request list \<Rightarrow> schedule_request list" where
  "retained cmp configured rs =
     js_sort (by_time_id cmp)
       (slice_last (max_requests configured) (js_sort (by_time cmp) (filter terminal rs))
        @ filter (\<lambda>r. \<not> terminal r) rs)"

definition persist_store ::
  "(string \<Rightarrow> string \<Rightarrow> int) \<Rightarrow> int option \<Rightarrow> io_env \<Rightarrow> schedule_request list \<Rightarrow> scheduler_disk
   \<Rightarrow> scheduler_disk \<times> bool" where
  "persist_store cmp configured e rs d = write_disk e (io_saveNow e, retained cmp configured rs) d"

definition clear_lease :: "schedule_request \<Rightarrow> schedule_request" where
  "clear_lease r = r\<lparr>sq_leaseOwner := None, sq_leaseProofHash := None, sq_leaseAcquiredAt := None,
                     sq_leaseExpiresAt := None\<rparr>"

definition requeue_expired :: "string \<Rightarrow> schedule_request \<Rightarrow> schedule_request" where
  "requeue_expired now r =
     (if sq_status r = SLeased \<and> truthy (sq_leaseExpiresAt r) \<and> time_le (the (sq_leaseExpiresAt r)) now
      then clear_lease (r\<lparr>sq_status := SQueued, sq_updatedAt := now\<rparr>) else r)"

definition time_out_queued :: "string \<Rightarrow> schedule_request \<Rightarrow> schedule_request" where
  "time_out_queued now r =
     (if sq_status r = SQueued
         \<and> (case (date_parse (sq_enqueuedAt r), date_parse now) of
              (Some a, Some n) \<Rightarrow> a + 15 * 60000 \<le> n | _ \<Rightarrow> False)
      then r\<lparr>sq_status := STimedOut, sq_timedOutAt := Some now, sq_updatedAt := now\<rparr> else r)"

definition recover_expired_leases :: "string \<Rightarrow> schedule_request list \<Rightarrow> schedule_request list" where
  "recover_expired_leases now rs = map (\<lambda>r. time_out_queued now (requeue_expired now r)) rs"

definition prune_terminal_entries :: "string \<Rightarrow> schedule_request list \<Rightarrow> schedule_request list" where
  "prune_terminal_entries now rs =
     filter (\<lambda>r. \<not> terminal r \<or> newer_than (sq_updatedAt r) now (2 * 60 * 60000)) rs"

definition open_store :: "string \<Rightarrow> schedule_request list \<Rightarrow> schedule_request list" where
  "open_store now rs = prune_terminal_entries now (recover_expired_leases now rs)"

text \<open>A callback returns its answer and, when it persists, the requests it leaves in memory. An
  exception in it (\<open>None\<close>) and a failed write both answer \<^verbatim>\<open>SCHEDULER_CORRUPT\<close>.\<close>

type_synonym 'a callback =
  "schedule_request list \<Rightarrow> ((scheduler_failure + 'a) \<times> schedule_request list option) option"

definition with_store ::
  "(string \<Rightarrow> string \<Rightarrow> int) \<Rightarrow> int option \<Rightarrow> io_env \<Rightarrow> scheduler_disk \<Rightarrow> 'a callback
   \<Rightarrow> scheduler_disk \<times> (scheduler_failure + 'a)" where
  "with_store cmp configured e d callback =
     (case io_lock e of
        LockBusy \<Rightarrow> (d, Inl SCHEDULER_BUSY)
      | LockFailed \<Rightarrow> (d, Inl SCHEDULER_CORRUPT)
      | LockTaken \<Rightarrow>
          (case read_store d of
             None \<Rightarrow> (d, Inl SCHEDULER_CORRUPT)
           | Some rs \<Rightarrow>
               (case callback (open_store (io_openNow e) rs) of
                  None \<Rightarrow> (d, Inl SCHEDULER_CORRUPT)
                | Some (answer, None) \<Rightarrow> (d, answer)
                | Some (answer, Some rs') \<Rightarrow>
                    (let (d', ok) = persist_store cmp configured e rs' d
                     in (d', if ok then answer else Inl SCHEDULER_CORRUPT)))))"

section \<open>Eligibility\<close>

definition earlier_than :: "schedule_request \<Rightarrow> schedule_request \<Rightarrow> bool" where
  "earlier_than a b =
     (sq_enqueuedAt a < sq_enqueuedAt b
      \<or> (sq_enqueuedAt a = sq_enqueuedAt b \<and> sq_requestId a < sq_requestId b))"

definition eligible :: "schedule_request \<Rightarrow> schedule_request list \<Rightarrow> bool" where
  "eligible r rs =
     (sq_status r = SQueued
      \<and> (let same = filter (\<lambda>x. sq_sourceId x = sq_sourceId r) rs;
             earlier = filter (\<lambda>x. earlier_than x r) same
         in if sq_class r = MutationExclusive
            then \<not> list_ex (\<lambda>x. sq_status x = SLeased) same \<and> \<not> list_ex (\<lambda>x. sq_status x = SQueued) earlier
            else \<not> list_ex (\<lambda>x. sq_class x = MutationExclusive \<and> sq_status x = SQueued) earlier
               \<and> \<not> list_ex (\<lambda>x. sq_class x = MutationExclusive \<and> sq_status x = SLeased) same))"

section \<open>Operations\<close>

definition request_with_id :: "string \<Rightarrow> schedule_request list \<Rightarrow> schedule_request option" where
  "request_with_id i rs = List.find (\<lambda>r. sq_requestId r = i) rs"

definition update_request ::
  "string \<Rightarrow> (schedule_request \<Rightarrow> schedule_request) \<Rightarrow> schedule_request list \<Rightarrow> schedule_request list" where
  "update_request i f rs = modify_first (\<lambda>r. sq_requestId r = i) f rs"

record enqueue_input =
  eq_requestId :: "string option"
  eq_sessionId :: string
  eq_sourceId :: string
  eq_class :: schedule_class
  eq_operationKind :: string
  eq_now :: "string option"

definition enqueue_repository_work ::
  "(string \<Rightarrow> string \<Rightarrow> int) \<Rightarrow> int option \<Rightarrow> string list option \<Rightarrow> io_env \<Rightarrow> enqueue_input \<Rightarrow> scheduler_disk
   \<Rightarrow> scheduler_disk \<times> (scheduler_failure + bool \<times> schedule_request)" where
  "enqueue_repository_work cmp configured session e i d =
     (let requestId = or_else (eq_requestId i) (''schedule-'' @ io_uuid e);
          timestamp = or_else (eq_now i) (io_startNow e)
      in if \<not> valid_id requestId \<or> \<not> valid_id (eq_sessionId i) \<or> \<not> valid_id (eq_sourceId i)
            \<or> length (eq_operationKind i) = 0 \<or> 120 < length (eq_operationKind i) \<or> \<not> valid_iso timestamp
         then (d, Inl SCHEDULER_INVALID_INPUT)
         else case session of
           None \<Rightarrow> (d, Inl SCHEDULER_SESSION_NOT_FOUND)
         | Some lockedSourceIds \<Rightarrow>
             if eq_sourceId i \<notin> set lockedSourceIds then (d, Inl SCHEDULER_SOURCE_NOT_OWNED)
             else with_store cmp configured e d (\<lambda>rs.
               case request_with_id requestId rs of
                 Some x \<Rightarrow>
                   if terminal x then Some (Inr (False, x), None)
                   else if sq_sessionId x = eq_sessionId i \<and> sq_sourceId x = eq_sourceId i
                        \<and> sq_class x = eq_class i \<and> sq_operationKind x = eq_operationKind i
                   then Some (Inr (False, x), None)
                   else Some (Inl SCHEDULER_DUPLICATE_CONFLICT, None)
               | None \<Rightarrow>
                   let r = \<lparr>sq_requestId = requestId, sq_sessionId = eq_sessionId i, sq_sourceId = eq_sourceId i,
                            sq_class = eq_class i, sq_operationKind = eq_operationKind i, sq_status = SQueued,
                            sq_enqueuedAt = timestamp, sq_updatedAt = timestamp, sq_leaseOwner = None,
                            sq_leaseProofHash = None, sq_leaseAcquiredAt = None, sq_leaseExpiresAt = None,
                            sq_completedAt = None, sq_cancelledAt = None, sq_timedOutAt = None\<rparr>
                   in Some (Inr (True, r), Some (rs @ [r]))))"

definition claim_lease_ms :: "int option \<Rightarrow> int" where
  "claim_lease_ms v =
     (let ms = (case v of None \<Rightarrow> 60000 | Some m \<Rightarrow> if m = 0 then 60000 else m)
      in max 5000 (min ms (16 * 60000)))"

definition claim_repository_work ::
  "(string \<Rightarrow> string \<Rightarrow> int) \<Rightarrow> (string \<Rightarrow> string) \<Rightarrow> int option \<Rightarrow> io_env \<Rightarrow> string \<Rightarrow> string \<Rightarrow> int option
   \<Rightarrow> string option \<Rightarrow> scheduler_disk \<Rightarrow> scheduler_disk \<times> (scheduler_failure + schedule_request \<times> string)" where
  "claim_repository_work cmp hash configured e requestId workerId leaseMs now d =
     (let timestamp = or_else now (io_startNow e) in
      if \<not> valid_id requestId \<or> \<not> valid_id workerId \<or> \<not> valid_iso timestamp
      then (d, Inl SCHEDULER_INVALID_INPUT)
      else with_store cmp configured e d (\<lambda>rs.
        case request_with_id requestId rs of
          None \<Rightarrow> Some (Inl SCHEDULER_REQUEST_NOT_FOUND, None)
        | Some r \<Rightarrow>
            if \<not> eligible r rs then Some (Inl SCHEDULER_NOT_ELIGIBLE, None)
            else case time_plus timestamp (claim_lease_ms leaseMs) of
              None \<Rightarrow> None
            | Some expiry \<Rightarrow>
                let f = (\<lambda>r. r\<lparr>sq_status := SLeased, sq_leaseOwner := Some workerId,
                               sq_leaseProofHash := Some (hash (io_random e)),
                               sq_leaseAcquiredAt := Some timestamp, sq_leaseExpiresAt := Some expiry,
                               sq_updatedAt := timestamp\<rparr>)
                in Some (Inr (f r, io_random e), Some (update_request requestId f rs))))"

definition complete_repository_work ::
  "(string \<Rightarrow> string \<Rightarrow> int) \<Rightarrow> (string \<Rightarrow> string) \<Rightarrow> int option \<Rightarrow> io_env \<Rightarrow> string \<Rightarrow> string
   \<Rightarrow> string option \<Rightarrow> scheduler_disk \<Rightarrow> scheduler_disk \<times> (scheduler_failure + schedule_request)" where
  "complete_repository_work cmp hash configured e requestId leaseProof now d =
     (let timestamp = or_else now (io_startNow e) in
      if \<not> valid_id requestId \<or> length leaseProof < 32 \<or> \<not> valid_iso timestamp
      then (d, Inl SCHEDULER_INVALID_INPUT)
      else with_store cmp configured e d (\<lambda>rs.
        case request_with_id requestId rs of
          None \<Rightarrow> Some (Inl SCHEDULER_REQUEST_NOT_FOUND, None)
        | Some r \<Rightarrow>
            if sq_status r \<noteq> SLeased then Some (Inl SCHEDULER_LEASE_CONFLICT, None)
            else if sq_leaseProofHash r \<noteq> Some (hash leaseProof)
            then Some (Inl SCHEDULER_LEASE_PROOF_INVALID, None)
            else let f = (\<lambda>r. clear_lease (r\<lparr>sq_status := SCompleted, sq_completedAt := Some timestamp,
                                         sq_updatedAt := timestamp\<rparr>))
              in Some (Inr (f r), Some (update_request requestId f rs))))"

definition cancel_request :: "string \<Rightarrow> schedule_request \<Rightarrow> schedule_request" where
  "cancel_request timestamp r =
     clear_lease (r\<lparr>sq_status := SCancelled, sq_cancelledAt := Some timestamp, sq_updatedAt := timestamp\<rparr>)"

definition cancel_repository_work ::
  "(string \<Rightarrow> string \<Rightarrow> int) \<Rightarrow> int option \<Rightarrow> io_env \<Rightarrow> string \<Rightarrow> string option
   \<Rightarrow> scheduler_disk \<Rightarrow> scheduler_disk \<times> (scheduler_failure + schedule_request)" where
  "cancel_repository_work cmp configured e requestId now d =
     (let timestamp = or_else now (io_startNow e) in
      if \<not> valid_id requestId \<or> \<not> valid_iso timestamp then (d, Inl SCHEDULER_INVALID_INPUT)
      else with_store cmp configured e d (\<lambda>rs.
        case request_with_id requestId rs of
          None \<Rightarrow> Some (Inl SCHEDULER_REQUEST_NOT_FOUND, None)
        | Some r \<Rightarrow>
            if terminal r then Some (Inr r, None)
            else Some (Inr (cancel_request timestamp r),
                       Some (update_request requestId (cancel_request timestamp) rs))))"

definition cancel_session_scheduler_requests ::
  "(string \<Rightarrow> string \<Rightarrow> int) \<Rightarrow> int option \<Rightarrow> io_env \<Rightarrow> string
   \<Rightarrow> scheduler_disk \<Rightarrow> scheduler_disk \<times> (scheduler_failure + string list)" where
  "cancel_session_scheduler_requests cmp configured e sessionId d =
     (if \<not> valid_id sessionId then (d, Inl SCHEDULER_INVALID_INPUT)
      else with_store cmp configured e d (\<lambda>rs.
        let hit = (\<lambda>r. sq_sessionId r = sessionId \<and> \<not> terminal r);
            cancelled = map sq_requestId (filter hit rs);
            rs' = map (\<lambda>r. if hit r then cancel_request (io_bodyNow e) r else r) rs
        in Some (Inr cancelled, if cancelled \<noteq> [] then Some rs' else None)))"

definition list_repository_schedule ::
  "io_env \<Rightarrow> string option \<Rightarrow> scheduler_disk \<Rightarrow> scheduler_failure + schedule_request list" where
  "list_repository_schedule e sourceId d =
     (case read_store d of
        None \<Rightarrow> Inl SCHEDULER_CORRUPT
      | Some rs \<Rightarrow> Inr (filter (\<lambda>r. \<not> truthy sourceId \<or> Some (sq_sourceId r) = sourceId)
                              (recover_expired_leases (io_openNow e) rs)))"

definition recover_repository_scheduler ::
  "(string \<Rightarrow> string \<Rightarrow> int) \<Rightarrow> int option \<Rightarrow> io_env
   \<Rightarrow> scheduler_disk \<Rightarrow> scheduler_disk \<times> (scheduler_failure + string list \<times> schedule_request list)" where
  "recover_repository_scheduler cmp configured e d =
     with_store cmp configured e d (\<lambda>rs.
       Some (Inr (map sq_requestId (filter (\<lambda>r. sq_status r = SQueued) rs),
                  filter (\<lambda>r. sq_status r = SQueued \<or> sq_status r = SLeased) rs), Some rs))"

section \<open>The invariant of the stored requests\<close>

definition scheduler_inv :: "schedule_request list \<Rightarrow> bool" where
  "scheduler_inv rs =
     (distinct (map sq_requestId rs)
      \<and> (\<forall>x \<in> set rs. \<forall>y \<in> set rs. sq_sourceId x = sq_sourceId y \<and> sq_status x = SLeased \<and> sq_status y = SLeased
            \<and> sq_class x = MutationExclusive \<longrightarrow> sq_requestId x = sq_requestId y))"

lemma scheduler_inv_submset: "mset ys \<subseteq># mset xs \<Longrightarrow> scheduler_inv xs \<Longrightarrow> scheduler_inv ys"
  unfolding scheduler_inv_def by (meson distinct_map_submset set_submset subsetD)

lemma scheduler_inv_mset: "mset ys = mset xs \<Longrightarrow> scheduler_inv xs \<Longrightarrow> scheduler_inv ys"
  by (rule scheduler_inv_submset [of _ xs]) simp_all

lemma mset_retained: "mset (retained cmp c rs) \<subseteq># mset rs"
proof -
  let ?old = "slice_last (max_requests c) (js_sort (by_time cmp) (filter terminal rs))"
  have "mset ?old \<subseteq># mset (filter terminal rs)"
    by (metis mset_slice_last mset_js_sort)
  then have "mset ?old + mset (filter (\<lambda>r. \<not> terminal r) rs)
      \<subseteq># mset (filter terminal rs) + mset (filter (\<lambda>r. \<not> terminal r) rs)"
    by (rule subset_mset.add_right_mono)
  then show ?thesis unfolding mset_filter_split retained_def mset_js_sort mset_append .
qed

text \<open>A change of each request that keeps its identity and adds no lease.\<close>

definition lowers :: "(schedule_request \<Rightarrow> schedule_request) \<Rightarrow> bool" where
  "lowers f = (\<forall>r. sq_requestId (f r) = sq_requestId r \<and> sq_sourceId (f r) = sq_sourceId r
                   \<and> sq_class (f r) = sq_class r \<and> (sq_status (f r) = SLeased \<longrightarrow> sq_status r = SLeased))"

lemma lowers_recover: "lowers (\<lambda>r. time_out_queued now (requeue_expired now r))"
  by (simp add: lowers_def time_out_queued_def requeue_expired_def clear_lease_def)

lemma lowers_cancel: "lowers (\<lambda>r. if hit r then cancel_request t r else r)" "lowers (cancel_request t)"
  by (simp_all add: lowers_def cancel_request_def clear_lease_def)

lemma scheduler_inv_map:
  assumes "lowers f" "scheduler_inv rs"
  shows "scheduler_inv (map f rs)"
proof -
  have "sq_requestId \<circ> f = sq_requestId" using assms(1) by (auto simp: lowers_def)
  with assms show ?thesis unfolding scheduler_inv_def lowers_def by simp
qed

lemma update_request_map:
  "distinct (map sq_requestId rs) \<Longrightarrow>
   update_request i f rs = map (\<lambda>r. if sq_requestId r = i then f r else r) rs"
proof (induction rs)
  case (Cons r rs)
  have "map (\<lambda>r. if sq_requestId r = i then f r else r) rs = rs" if "sq_requestId r = i"
    using Cons.prems that by (intro map_idI) (auto simp: rev_image_eqI)
  with Cons show ?case by (auto simp: update_request_def)
qed (simp add: update_request_def)

lemma scheduler_inv_update_lowers:
  assumes "lowers f" "scheduler_inv rs"
  shows "scheduler_inv (update_request i f rs)"
proof -
  have "lowers (\<lambda>r. if sq_requestId r = i then f r else r)" using assms(1) by (simp add: lowers_def)
  moreover have "distinct (map sq_requestId rs)" using assms(2) by (simp add: scheduler_inv_def)
  ultimately show ?thesis using assms(2) by (simp add: update_request_map scheduler_inv_map)
qed

lemma scheduler_inv_open: "scheduler_inv rs \<Longrightarrow> scheduler_inv (open_store now rs)"
  unfolding open_store_def recover_expired_leases_def prune_terminal_entries_def
  by (rule scheduler_inv_submset [of _ "map (\<lambda>r. time_out_queued now (requeue_expired now r)) rs"])
     (simp_all add: scheduler_inv_map lowers_recover)

lemma scheduler_inv_new:
  assumes "scheduler_inv rs" "request_with_id (sq_requestId r) rs = None" "sq_status r \<noteq> SLeased"
  shows "scheduler_inv (rs @ [r])"
proof -
  have "sq_requestId r \<notin> sq_requestId ` set rs"
    using assms(2) by (force simp: request_with_id_def find_None_iff)
  with assms(1,3) show ?thesis by (auto simp: scheduler_inv_def)
qed

lemma eligible_no_conflict:
  assumes "eligible r rs" "x \<in> set rs" "sq_sourceId x = sq_sourceId r" "sq_status x = SLeased"
  shows "sq_class x = ReadShared \<and> sq_class r = ReadShared"
  using assms
  by (cases "sq_class x"; cases "sq_class r") (auto simp: eligible_def Let_def list_ex_iff)

lemma scheduler_inv_lease:
  assumes inv: "scheduler_inv rs" and found: "request_with_id i rs = Some r" and ok: "eligible r rs"
    and f: "sq_requestId (f r) = sq_requestId r" "sq_sourceId (f r) = sq_sourceId r" "sq_class (f r) = sq_class r"
  shows "scheduler_inv (update_request i f rs)"
proof -
  have dist: "distinct (map sq_requestId rs)" using inv by (simp add: scheduler_inv_def)
  have i: "sq_requestId r = i" using found by (auto simp: request_with_id_def dest: find_Some_iff_in)
  have elems: "set (update_request i f rs) = insert (f r) {y \<in> set rs. sq_requestId y \<noteq> i}"
    unfolding update_request_def
    by (rule set_modify_first_keyed) (use dist found f(1) i in \<open>simp_all add: request_with_id_def\<close>)
  have keyed: "sq_requestId (f x) = sq_requestId x" if "x \<in> set rs" "sq_requestId x = i" for x
  proof -
    have "r \<in> set rs" using found by (auto simp: request_with_id_def dest: find_Some_iff_in)
    then have "x = r" using dist that i by (metis distinct_map inj_on_eq_iff)
    then show ?thesis using f(1) by simp
  qed
  have "map sq_requestId (update_request i f rs) = map sq_requestId rs"
    unfolding update_request_map [OF dist] using keyed by (auto simp: o_def)
  then have "distinct (map sq_requestId (update_request i f rs))" using dist by simp
  moreover have "sq_requestId x = sq_requestId y"
    if x: "x \<in> set (update_request i f rs)" and y: "y \<in> set (update_request i f rs)"
      and same: "sq_sourceId x = sq_sourceId y" "sq_status x = SLeased" "sq_status y = SLeased"
      and excl: "sq_class x = MutationExclusive" for x y
  proof -
    have shared: "sq_class z = ReadShared \<and> sq_class (f r) = ReadShared"
      if "z \<in> set rs" "sq_sourceId z = sq_sourceId (f r)" "sq_status z = SLeased" for z
      using eligible_no_conflict [OF ok] that f by simp
    consider "x = f r" "y = f r" | "x = f r" "y \<in> set rs" | "x \<in> set rs" "y = f r" | "x \<in> set rs" "y \<in> set rs"
      using x y unfolding elems by blast
    then show ?thesis
    proof cases
      case 1
      then show ?thesis by simp
    next
      case 2
      then show ?thesis using shared [of y] same excl by simp
    next
      case 3
      then show ?thesis using shared [of x] same excl by simp
    next
      case 4
      then show ?thesis using inv same excl unfolding scheduler_inv_def by blast
    qed
  qed
  ultimately show ?thesis by (simp add: scheduler_inv_def)
qed

section \<open>The store as a transition system\<close>

definition disk_inv :: "scheduler_disk \<Rightarrow> bool" where
  "disk_inv d = (case d of Stored (t, rs) \<Rightarrow> scheduler_inv rs | _ \<Rightarrow> True)"

lemma read_store_inv: "disk_inv d \<Longrightarrow> read_store d = Some rs \<Longrightarrow> scheduler_inv rs"
  by (auto simp: disk_inv_def read_store_def scheduler_inv_def split: disk.splits prod.splits if_splits)

lemma with_store_inv:
  assumes "disk_inv d"
    and "\<And>rs answer rs'. scheduler_inv rs \<Longrightarrow> callback rs = Some (answer, Some rs') \<Longrightarrow> scheduler_inv rs'"
  shows "disk_inv (fst (with_store cmp c e d callback))"
proof (cases "io_lock e = LockTaken \<and> read_store d \<noteq> None")
  case False
  with assms(1) show ?thesis by (cases "io_lock e"; auto simp: with_store_def split: option.splits)
next
  case True
  then obtain rs where rs: "read_store d = Some rs" by auto
  then have "scheduler_inv (open_store (io_openNow e) rs)"
    using assms(1) by (simp add: read_store_inv scheduler_inv_open)
  then have "scheduler_inv (retained cmp c rs')"
    if "callback (open_store (io_openNow e) rs) = Some (answer, Some rs')" for answer rs'
    using assms(2) that mset_retained scheduler_inv_submset by blast
  with True rs assms(1) show ?thesis
    by (auto simp: with_store_def persist_store_def write_disk_def disk_inv_def
        split: option.splits write_outcome.splits)
qed

text \<open>One operation, by any caller and in any environment.\<close>

inductive scheduler_step ::
  "(string \<Rightarrow> string \<Rightarrow> int) \<Rightarrow> (string \<Rightarrow> string) \<Rightarrow> scheduler_disk \<Rightarrow> scheduler_disk \<Rightarrow> bool"
  for cmp hash where
  enqueue: "enqueue_repository_work cmp c session e i d = (d', a) \<Longrightarrow> scheduler_step cmp hash d d'"
| claim: "claim_repository_work cmp hash c e rid wid ms now d = (d', a) \<Longrightarrow> scheduler_step cmp hash d d'"
| complete: "complete_repository_work cmp hash c e rid p now d = (d', a) \<Longrightarrow> scheduler_step cmp hash d d'"
| cancel: "cancel_repository_work cmp c e rid now d = (d', a) \<Longrightarrow> scheduler_step cmp hash d d'"
| cancel_session: "cancel_session_scheduler_requests cmp c e sid d = (d', a) \<Longrightarrow> scheduler_step cmp hash d d'"
| recover: "recover_repository_scheduler cmp c e d = (d', a) \<Longrightarrow> scheduler_step cmp hash d d'"

inductive scheduler_reachable ::
  "(string \<Rightarrow> string \<Rightarrow> int) \<Rightarrow> (string \<Rightarrow> string) \<Rightarrow> scheduler_disk \<Rightarrow> bool"
  for cmp hash where
  start: "scheduler_reachable cmp hash NoFile"
| step: "scheduler_reachable cmp hash d \<Longrightarrow> scheduler_step cmp hash d d' \<Longrightarrow> scheduler_reachable cmp hash d'"

lemma enqueue_inv: "disk_inv d \<Longrightarrow> disk_inv (fst (enqueue_repository_work cmp c session e i d))"
  unfolding enqueue_repository_work_def Let_def
  by (auto intro!: with_store_inv scheduler_inv_new split: option.splits if_splits)

lemma claim_inv: "disk_inv d \<Longrightarrow> disk_inv (fst (claim_repository_work cmp hash c e rid wid ms now d))"
  unfolding claim_repository_work_def Let_def
  by (auto intro!: with_store_inv scheduler_inv_lease split: option.splits if_splits)

lemma complete_inv: "disk_inv d \<Longrightarrow> disk_inv (fst (complete_repository_work cmp hash c e rid p now d))"
  unfolding complete_repository_work_def Let_def
  by (auto intro!: with_store_inv scheduler_inv_update_lowers simp: lowers_def clear_lease_def
      split: option.splits if_splits)

lemma cancel_inv: "disk_inv d \<Longrightarrow> disk_inv (fst (cancel_repository_work cmp c e rid now d))"
  unfolding cancel_repository_work_def Let_def
  by (auto intro!: with_store_inv scheduler_inv_update_lowers lowers_cancel split: option.splits if_splits)

lemma cancel_session_inv: "disk_inv d \<Longrightarrow> disk_inv (fst (cancel_session_scheduler_requests cmp c e sid d))"
  unfolding cancel_session_scheduler_requests_def Let_def
  by (auto intro!: with_store_inv scheduler_inv_map lowers_cancel split: if_splits)

lemma recover_inv: "disk_inv d \<Longrightarrow> disk_inv (fst (recover_repository_scheduler cmp c e d))"
  unfolding recover_repository_scheduler_def by (auto intro!: with_store_inv)

lemma scheduler_step_inv:
  assumes "scheduler_step cmp hash d d'" "disk_inv d"
  shows "disk_inv d'"
  using assms(1)
proof cases
  case (enqueue c session e i a)
  then show ?thesis using assms(2) enqueue_inv by (metis fst_conv)
next
  case (claim c e rid wid ms now a)
  then show ?thesis using assms(2) claim_inv by (metis fst_conv)
next
  case (complete c e rid p now a)
  then show ?thesis using assms(2) complete_inv by (metis fst_conv)
next
  case (cancel c e rid now a)
  then show ?thesis using assms(2) cancel_inv by (metis fst_conv)
next
  case (cancel_session c e sid a)
  then show ?thesis using assms(2) cancel_session_inv by (metis fst_conv)
next
  case (recover c e a)
  then show ?thesis using assms(2) recover_inv by (metis fst_conv)
qed

lemma scheduler_reachable_inv: "scheduler_reachable cmp hash d \<Longrightarrow> disk_inv d"
proof (induction rule: scheduler_reachable.induct)
  case start
  show ?case by (simp add: disk_inv_def)
qed (rule scheduler_step_inv)

section \<open>What a successful operation saw\<close>

lemma with_store_Inr:
  assumes "with_store cmp c e d callback = (d', Inr a)"
  obtains rs where "read_store d = Some rs"
    "\<exists>saved. callback (open_store (io_openNow e) rs) = Some (Inr a, saved)
       \<and> d' = (case saved of None \<Rightarrow> d | Some rs' \<Rightarrow> Stored (io_saveNow e, retained cmp c rs'))"
  using assms that
  by (force simp: with_store_def persist_store_def write_disk_def
      split: lock_outcome.splits option.splits write_outcome.splits prod.splits)

lemma request_with_id_Some: "request_with_id i rs = Some r \<Longrightarrow> r \<in> set rs \<and> sq_requestId r = i"
  by (auto simp: request_with_id_def dest: find_Some_iff_in)

lemma claim_Inr:
  assumes "claim_repository_work cmp hash c e rid wid ms now d = (d', Inr (r', p))"
  obtains rs r where "read_store d = Some rs"
    "request_with_id rid (open_store (io_openNow e) rs) = Some r"
    "eligible r (open_store (io_openNow e) rs)"
    "sq_requestId r' = rid" "sq_status r' = SLeased" "sq_sourceId r' = sq_sourceId r" "sq_class r' = sq_class r"
    "sq_enqueuedAt r' = sq_enqueuedAt r" "sq_leaseOwner r' = Some wid" "sq_leaseProofHash r' = Some (hash p)"
    "p = io_random e"
proof -
  from assms obtain rs where "read_store d = Some rs" and cb:
    "\<exists>saved. (case request_with_id rid (open_store (io_openNow e) rs) of
          None \<Rightarrow> Some (Inl SCHEDULER_REQUEST_NOT_FOUND, None)
        | Some r \<Rightarrow>
            if \<not> eligible r (open_store (io_openNow e) rs) then Some (Inl SCHEDULER_NOT_ELIGIBLE, None)
            else case time_plus (or_else now (io_startNow e)) (claim_lease_ms ms) of
              None \<Rightarrow> None
            | Some expiry \<Rightarrow>
                let f = (\<lambda>r. r\<lparr>sq_status := SLeased, sq_leaseOwner := Some wid,
                               sq_leaseProofHash := Some (hash (io_random e)),
                               sq_leaseAcquiredAt := Some (or_else now (io_startNow e)), sq_leaseExpiresAt := Some expiry,
                               sq_updatedAt := or_else now (io_startNow e)\<rparr>)
                in Some (Inr (f r, io_random e), Some (update_request rid f (open_store (io_openNow e) rs))))
        = Some (Inr (r', p), saved)"
    by (auto simp: claim_repository_work_def Let_def split: if_splits elim!: with_store_Inr)
  then show ?thesis
    by (auto simp: Let_def split: option.splits if_splits intro!: that dest: request_with_id_Some)
qed

lemma complete_Inr:
  assumes "complete_repository_work cmp hash c e rid p now d = (d', Inr r')"
  obtains rs r where "read_store d = Some rs"
    "request_with_id rid (open_store (io_openNow e) rs) = Some r" "sq_status r = SLeased"
    "sq_leaseProofHash r = Some (hash p)" "sq_status r' = SCompleted" "sq_leaseOwner r' = None"
    "sq_requestId r' = rid"
proof -
  from assms obtain rs where "read_store d = Some rs" and cb:
    "\<exists>saved. (case request_with_id rid (open_store (io_openNow e) rs) of
          None \<Rightarrow> Some (Inl SCHEDULER_REQUEST_NOT_FOUND, None)
        | Some r \<Rightarrow>
            if sq_status r \<noteq> SLeased then Some (Inl SCHEDULER_LEASE_CONFLICT, None)
            else if sq_leaseProofHash r \<noteq> Some (hash p) then Some (Inl SCHEDULER_LEASE_PROOF_INVALID, None)
            else let f = (\<lambda>r. clear_lease (r\<lparr>sq_status := SCompleted, sq_completedAt := Some (or_else now (io_startNow e)),
                                         sq_updatedAt := or_else now (io_startNow e)\<rparr>))
              in Some (Inr (f r), Some (update_request rid f (open_store (io_openNow e) rs))))
        = Some (Inr r', saved)"
    by (auto simp: complete_repository_work_def Let_def split: if_splits elim!: with_store_Inr)
  then show ?thesis
    by (auto simp: Let_def clear_lease_def split: option.splits if_splits intro!: that dest: request_with_id_Some)
qed

text \<open>A request that is leased once the store is open was stored with an unexpired lease.\<close>

lemma opened_leased:
  assumes "r \<in> set (open_store now rs)" "sq_status r = SLeased"
  shows "r \<in> set rs \<and> \<not> (truthy (sq_leaseExpiresAt r) \<and> time_le (the (sq_leaseExpiresAt r)) now)"
proof -
  from assms(1) obtain x where x: "x \<in> set rs" "r = time_out_queued now (requeue_expired now x)"
    by (auto simp: open_store_def prune_terminal_entries_def recover_expired_leases_def)
  then show ?thesis
    using assms(2) by (auto simp: time_out_queued_def requeue_expired_def clear_lease_def split: if_splits)
qed

text \<open>Among the queued requests of a source there is a first one, and nothing queued is
  earlier than it.\<close>

lemma first_queued:
  assumes "x \<in> set rs" "sq_sourceId x = s" "sq_status x = SQueued"
  obtains r where "r \<in> set rs" "sq_sourceId r = s" "sq_status r = SQueued"
    "\<forall>y \<in> set rs. sq_sourceId y = s \<and> sq_status y = SQueued \<longrightarrow> \<not> earlier_than y r"
proof -
  define Q where "Q = {y \<in> set rs. sq_sourceId y = s \<and> sq_status y = SQueued}"
  have fin: "finite Q" "Q \<noteq> {}" using assms by (auto simp: Q_def)
  define t where "t = Min (sq_enqueuedAt ` Q)"
  have "t \<in> sq_enqueuedAt ` Q" unfolding t_def using fin by (intro Min_in) simp_all
  then have "\<exists>y \<in> Q. sq_enqueuedAt y = t" by blast
  moreover have "\<forall>y \<in> Q. t \<le> sq_enqueuedAt y" using fin(1) unfolding t_def by (auto intro: Min_le)
  ultimately have t: "\<forall>y \<in> Q. t \<le> sq_enqueuedAt y" "\<exists>y \<in> Q. sq_enqueuedAt y = t" by simp_all
  define R where "R = {y \<in> Q. sq_enqueuedAt y = t}"
  have finR: "finite R" "R \<noteq> {}" using fin t(2) by (auto simp: R_def)
  define i where "i = Min (sq_requestId ` R)"
  have "i \<in> sq_requestId ` R" unfolding i_def using finR by (intro Min_in) simp_all
  then obtain r where r: "r \<in> R" "sq_requestId r = i" by blast
  have i: "\<forall>y \<in> R. i \<le> sq_requestId y" using finR(1) unfolding i_def by (auto intro: Min_le)
  have "\<not> earlier_than y r" if "y \<in> Q" for y
    using that r t(1) i unfolding earlier_than_def R_def by fastforce
  then show ?thesis using r that by (auto simp: R_def Q_def)
qed

lemma first_queued_eligible:
  assumes "r \<in> set rs" "sq_status r = SQueued"
    and "\<forall>y \<in> set rs. sq_sourceId y = sq_sourceId r \<and> sq_status y = SQueued \<longrightarrow> \<not> earlier_than y r"
    and "\<forall>y \<in> set rs. sq_sourceId y = sq_sourceId r \<longrightarrow> sq_status y \<noteq> SLeased"
  shows "eligible r rs"
  using assms by (auto simp: eligible_def Let_def list_ex_iff)

section \<open>Properties\<close>

definition sample_cmp :: "string \<Rightarrow> string \<Rightarrow> int" where
  "sample_cmp a b = (if a < b then - 1 else if a = b then 0 else 1)"

definition sample_enqueue :: "string \<Rightarrow> schedule_class \<Rightarrow> enqueue_input" where
  "sample_enqueue i c =
     \<lparr>eq_requestId = Some i, eq_sessionId = ''ses'', eq_sourceId = ''src'', eq_class = c, eq_operationKind = ''edit'',
      eq_now = None\<rparr>"

definition sample_enqueued :: scheduler_disk where
  "sample_enqueued = fst (enqueue_repository_work sample_cmp None (Some [''src'']) (sample_env noon)
     (sample_enqueue ''m'' MutationExclusive) NoFile)"

definition sample_claimed :: "scheduler_disk \<times> (scheduler_failure + schedule_request \<times> string)" where
  "sample_claimed = claim_repository_work sample_cmp sample_hash None (sample_env noon) ''m'' ''w'' None None sample_enqueued"

text \<open>
  C4. A mutation holds its source alone: whatever operations were applied, by any callers,
  with any clock readings, lock failures and failed writes, a stored leased mutation is the
  only leased request of its source.
\<close>

theorem mutation_lease_exclusive:
  assumes "scheduler_reachable cmp hash (Stored (t, rs))"
    and "x \<in> set rs" "y \<in> set rs" "sq_sourceId x = sq_sourceId y"
    and "sq_status x = SLeased" "sq_status y = SLeased" "sq_class x = MutationExclusive"
  shows "x = y"
proof -
  have inv: "scheduler_inv rs" using scheduler_reachable_inv [OF assms(1)] by (simp add: disk_inv_def)
  then have "sq_requestId x = sq_requestId y" using assms(2-) unfolding scheduler_inv_def by blast
  then show ?thesis using inv assms(2,3) unfolding scheduler_inv_def by (metis distinct_map inj_on_eq_iff)
qed

definition stored_requests :: "scheduler_disk \<Rightarrow> schedule_request list" where
  "stored_requests d = (case d of Stored (t, rs) \<Rightarrow> rs | _ \<Rightarrow> [])"

lemma sample_claimed_leased:
  "map (\<lambda>r. (sq_status r, sq_class r)) (stored_requests (fst sample_claimed)) = [(SLeased, MutationExclusive)]"
  by code_simp

theorem mutation_lease_exclusive_witness:
  "\<exists>x \<in> set (stored_requests (fst sample_claimed)). sq_status x = SLeased
     \<and> (\<forall>y \<in> set (stored_requests (fst sample_claimed)). sq_status y = SLeased \<and> sq_sourceId x = sq_sourceId y \<longrightarrow> x = y)"
proof -
  obtain t rs where d: "fst sample_claimed = Stored (t, rs)" and st: "map (\<lambda>r. (sq_status r, sq_class r)) rs = [(SLeased, MutationExclusive)]"
    using sample_claimed_leased by (cases "fst sample_claimed") (auto simp: stored_requests_def)
  have "scheduler_step sample_cmp sample_hash NoFile sample_enqueued"
    unfolding sample_enqueued_def by (rule scheduler_step.enqueue [OF prod.collapse [symmetric]])
  moreover have "scheduler_step sample_cmp sample_hash sample_enqueued (Stored (t, rs))"
    unfolding d [symmetric] sample_claimed_def by (rule scheduler_step.claim [OF prod.collapse [symmetric]])
  ultimately have reach: "scheduler_reachable sample_cmp sample_hash (Stored (t, rs))"
    by (meson scheduler_reachable.intros)
  from st obtain x where x: "rs = [x]" "sq_status x = SLeased" "sq_class x = MutationExclusive" by auto
  have "\<forall>y \<in> set rs. sq_status y = SLeased \<and> sq_sourceId x = sq_sourceId y \<longrightarrow> x = y"
  proof (intro ballI impI)
    fix y assume "y \<in> set rs" "sq_status y = SLeased \<and> sq_sourceId x = sq_sourceId y"
    then show "x = y" using x by (intro mutation_lease_exclusive [OF reach]) simp_all
  qed
  then show ?thesis unfolding stored_requests_def d using x by (intro bexI [of _ x]) simp_all
qed

text \<open>
  C23. A claim never overtakes: when it succeeds, its request was queued in the store as the
  operation opened it, any request of the same source that is leased there, and any that is
  queued earlier (by time, then id), is a read like itself; and the lease it returns carries
  the hash of the proof it hands out.
\<close>

theorem claim_never_overtakes:
  assumes "claim_repository_work cmp hash c e rid wid ms now d = (d', Inr (r', p))"
  shows "\<exists>rs r. read_store d = Some rs \<and> r \<in> set (open_store (io_openNow e) rs) \<and> sq_requestId r = rid
    \<and> sq_status r = SQueued
    \<and> (\<forall>x \<in> set (open_store (io_openNow e) rs). sq_sourceId x = sq_sourceId r
          \<and> (sq_status x = SLeased \<or> sq_status x = SQueued \<and> earlier_than x r)
          \<longrightarrow> sq_class x = ReadShared \<and> sq_class r = ReadShared)
    \<and> sq_requestId r' = rid \<and> sq_status r' = SLeased \<and> sq_class r' = sq_class r
    \<and> sq_leaseOwner r' = Some wid \<and> sq_leaseProofHash r' = Some (hash p)"
proof -
  obtain rs r where rs: "read_store d = Some rs"
    and found: "request_with_id rid (open_store (io_openNow e) rs) = Some r"
    and ok: "eligible r (open_store (io_openNow e) rs)"
    and r': "sq_requestId r' = rid" "sq_status r' = SLeased" "sq_class r' = sq_class r"
      "sq_leaseOwner r' = Some wid" "sq_leaseProofHash r' = Some (hash p)"
    using assms by (rule claim_Inr) (rule that)
  have r: "r \<in> set (open_store (io_openNow e) rs)" "sq_requestId r = rid" "sq_status r = SQueued"
    using request_with_id_Some [OF found] ok by (simp_all add: eligible_def)
  have "sq_class x = ReadShared \<and> sq_class r = ReadShared"
    if "x \<in> set (open_store (io_openNow e) rs)" "sq_sourceId x = sq_sourceId r"
      "sq_status x = SLeased \<or> sq_status x = SQueued \<and> earlier_than x r" for x
    using ok that
    by (cases "sq_class x"; cases "sq_class r") (auto simp: eligible_def Let_def list_ex_iff)
  with rs r r' show ?thesis by blast
qed

lemma sample_claimed_Inr:
  "case snd sample_claimed of Inl f \<Rightarrow> False | Inr (r, p) \<Rightarrow> sq_requestId r = ''m''"
  by code_simp

theorem claim_never_overtakes_witness:
  "\<exists>r' p. snd sample_claimed = Inr (r', p) \<and> sq_leaseProofHash r' = Some (sample_hash p)"
proof -
  obtain r' p where a: "snd sample_claimed = Inr (r', p)"
    using sample_claimed_Inr by (auto split: sum.splits prod.splits)
  then have "sample_claimed = (fst sample_claimed, Inr (r', p))" by (metis prod.collapse)
  then have "claim_repository_work sample_cmp sample_hash None (sample_env noon) ''m'' ''w'' None None sample_enqueued
      = (fst sample_claimed, Inr (r', p))" by (simp only: sample_claimed_def)
  from claim_never_overtakes [OF this] a show ?thesis by auto
qed

text \<open>
  C26. The queue never gets stuck: when the opened store has a queued request of a source and
  no leased one, some queued request of the source can be claimed by any worker: with the
  lock taken, the write going through and an expiry that is a valid time, its claim succeeds.
\<close>

theorem scheduler_never_stuck:
  assumes "read_store d = Some rs" "disk_inv d"
    and "io_lock e = LockTaken" "io_write e = Saved"
    and "x \<in> set (open_store (io_openNow e) rs)" "sq_sourceId x = s" "sq_status x = SQueued"
    and "\<forall>y \<in> set (open_store (io_openNow e) rs). sq_sourceId y = s \<longrightarrow> sq_status y \<noteq> SLeased"
    and "valid_id wid" "valid_iso (or_else now (io_startNow e))"
    and "time_plus (or_else now (io_startNow e)) (claim_lease_ms ms) = Some expiry"
  shows "\<exists>r d' r'. r \<in> set (open_store (io_openNow e) rs) \<and> sq_sourceId r = s \<and> sq_status r = SQueued
    \<and> claim_repository_work cmp hash c e (sq_requestId r) wid ms now d = (d', Inr (r', io_random e))
    \<and> sq_requestId r' = sq_requestId r \<and> sq_status r' = SLeased \<and> sq_leaseExpiresAt r' = Some expiry"
proof -
  let ?os = "open_store (io_openNow e) rs"
  obtain r where r: "r \<in> set ?os" "sq_sourceId r = s" "sq_status r = SQueued"
    and first: "\<forall>y \<in> set ?os. sq_sourceId y = s \<and> sq_status y = SQueued \<longrightarrow> \<not> earlier_than y r"
    using assms(5-7) by (rule first_queued)
  have ok: "eligible r ?os"
    using r first assms(8) by (intro first_queued_eligible) simp_all
  have "distinct (map sq_requestId ?os)"
    using read_store_inv [OF assms(2,1)] scheduler_inv_open by (simp add: scheduler_inv_def)
  then have "y = r" if "y \<in> set ?os" "sq_requestId y = sq_requestId r" for y
    using r(1) that by (metis distinct_map inj_on_eq_iff)
  then have found: "request_with_id (sq_requestId r) ?os = Some r"
    using r(1) unfolding request_with_id_def by (cases "List.find (\<lambda>x. sq_requestId x = sq_requestId r) ?os")
      (auto simp: find_None_iff dest: find_Some_iff_in)
  obtain x0 where "x0 \<in> set rs" "r = time_out_queued (io_openNow e) (requeue_expired (io_openNow e) x0)"
    using r(1) by (auto simp: open_store_def prune_terminal_entries_def recover_expired_leases_def)
  moreover have "list_all valid_request rs"
    using assms(1) by (auto simp: read_store_def split: disk.splits prod.splits if_splits)
  ultimately have "valid_id (sq_requestId r)"
    by (auto simp: list_all_iff valid_request_def time_out_queued_def requeue_expired_def clear_lease_def)
  then show ?thesis
    using assms(1,3,4,9-11) r found ok
    by (intro exI [of _ r])
       (auto simp: claim_repository_work_def Let_def with_store_def persist_store_def write_disk_def
          split: prod.splits dest: request_with_id_Some)
qed

lemma sample_enqueued_store:
  "case sample_enqueued of Stored (t, rs) \<Rightarrow>
     list_all valid_request rs \<and> scheduler_inv rs \<and> map sq_status (open_store noon rs) = [SQueued]
     \<and> map sq_sourceId (open_store noon rs) = [''src''] | _ \<Rightarrow> False"
  by code_simp

theorem scheduler_never_stuck_witness:
  "\<exists>i d' r'. claim_repository_work sample_cmp sample_hash None (sample_env noon) i ''w'' None None sample_enqueued
       = (d', Inr (r', io_random (sample_env noon))) \<and> sq_status r' = SLeased"
proof -
  obtain t rs where d: "sample_enqueued = Stored (t, rs)" "list_all valid_request rs" "scheduler_inv rs"
    "map sq_status (open_store noon rs) = [SQueued]" "map sq_sourceId (open_store noon rs) = [''src'']"
    using sample_enqueued_store by (auto split: disk.splits)
  then obtain x where x: "open_store noon rs = [x]" "sq_status x = SQueued" "sq_sourceId x = ''src''"
    by (cases "open_store noon rs") auto
  have env: "io_lock (sample_env noon) = LockTaken" "io_write (sample_env noon) = Saved"
    "io_openNow (sample_env noon) = noon" "io_startNow (sample_env noon) = noon"
    by (simp_all add: sample_env_def)
  have "valid_id ''w''" "valid_iso (or_else None noon)" by code_simp+
  moreover obtain expiry where "time_plus (or_else None noon) (claim_lease_ms None) = Some expiry"
  proof -
    have "time_plus (or_else None noon) (claim_lease_ms None) \<noteq> None" by code_simp
    then show ?thesis using that by blast
  qed
  moreover have "read_store sample_enqueued = Some rs" "disk_inv sample_enqueued"
    unfolding read_store_def disk_inv_def d(1) using d(2,3) by simp_all
  ultimately have "\<exists>r d' r'. r \<in> set (open_store (io_openNow (sample_env noon)) rs) \<and> sq_sourceId r = ''src''
    \<and> sq_status r = SQueued
    \<and> claim_repository_work sample_cmp sample_hash None (sample_env noon) (sq_requestId r) ''w'' None None sample_enqueued
        = (d', Inr (r', io_random (sample_env noon)))
    \<and> sq_requestId r' = sq_requestId r \<and> sq_status r' = SLeased \<and> sq_leaseExpiresAt r' = Some expiry"
    using x by (intro scheduler_never_stuck [where x = x]) (simp_all add: env)
  then show ?thesis by blast
qed

text \<open>
  Only the holder of an unexpired lease completes work: when a completion succeeds, the
  request was stored as leased, its lease had not expired when the operation opened the store,
  and its recorded hash is that of the given proof; the completed request carries no lease.
\<close>

theorem completion_needs_live_proof:
  assumes "complete_repository_work cmp hash c e rid p now d = (d', Inr r')"
  shows "\<exists>rs r. read_store d = Some rs \<and> r \<in> set rs \<and> sq_requestId r = rid \<and> sq_status r = SLeased
    \<and> \<not> (truthy (sq_leaseExpiresAt r) \<and> time_le (the (sq_leaseExpiresAt r)) (io_openNow e))
    \<and> sq_leaseProofHash r = Some (hash p)
    \<and> sq_requestId r' = rid \<and> sq_status r' = SCompleted \<and> sq_leaseOwner r' = None"
proof -
  obtain rs r where rs: "read_store d = Some rs"
    and found: "request_with_id rid (open_store (io_openNow e) rs) = Some r" and st: "sq_status r = SLeased"
    and rest: "sq_leaseProofHash r = Some (hash p)" "sq_status r' = SCompleted" "sq_leaseOwner r' = None"
      "sq_requestId r' = rid"
    using assms by (rule complete_Inr) (rule that)
  have "r \<in> set (open_store (io_openNow e) rs)" "sq_requestId r = rid"
    using request_with_id_Some [OF found] by simp_all
  with opened_leased [OF _ st] rs st rest show ?thesis by blast
qed

lemma sample_completed:
  "case snd (complete_repository_work sample_cmp sample_hash None (sample_env noon) ''m'' (replicate 64 (CHR ''a'')) None
       (fst sample_claimed)) of Inl f \<Rightarrow> False | Inr r \<Rightarrow> True"
  by code_simp

theorem completion_needs_live_proof_witness:
  "\<exists>r'. snd (complete_repository_work sample_cmp sample_hash None (sample_env noon) ''m'' (replicate 64 (CHR ''a'')) None
       (fst sample_claimed)) = Inr r' \<and> sq_status r' = SCompleted"
proof -
  let ?res = "complete_repository_work sample_cmp sample_hash None (sample_env noon) ''m'' (replicate 64 (CHR ''a'')) None
       (fst sample_claimed)"
  obtain r' where r': "snd ?res = Inr r'" using sample_completed by (auto split: sum.splits)
  then have "?res = (fst ?res, Inr r')" by (metis prod.collapse)
  from completion_needs_live_proof [OF this] r' show ?thesis by auto
qed

end
