(* ===== verification/Js_Map.thy ===== *)
theory Js_Map
  imports Js_Prelude
begin

text \<open>
  JavaScript's \<^verbatim>\<open>Map\<close> with string keys. Iteration order is insertion order and setting an
  existing key keeps its place, so a map is an association list with distinct keys; the
  lookup function it stands for is \<open>map_of\<close>. The components see it through the interface
  \<open>keyed_store\<close>, interpreted on these operations.
\<close>

type_synonym 'v js_map = "(string \<times> 'v) list"

definition jm_get :: "'v js_map \<Rightarrow> string \<Rightarrow> 'v option" where
  "jm_get m k = map_of m k"

definition jm_has :: "'v js_map \<Rightarrow> string \<Rightarrow> bool" where
  "jm_has m k = (jm_get m k \<noteq> None)"

fun jm_set :: "string \<Rightarrow> 'v \<Rightarrow> 'v js_map \<Rightarrow> 'v js_map" where
  "jm_set k v [] = [(k, v)]"
| "jm_set k v ((k', v') # m) = (if k' = k then (k, v) # m else (k', v') # jm_set k v m)"

definition jm_delete :: "string \<Rightarrow> 'v js_map \<Rightarrow> 'v js_map" where
  "jm_delete k m = filter (\<lambda>e. fst e \<noteq> k) m"

definition jm_values :: "'v js_map \<Rightarrow> 'v list" where
  "jm_values m = map snd m"

definition jm_size :: "'v js_map \<Rightarrow> nat" where
  "jm_size m = length m"

definition jm_wf :: "'v js_map \<Rightarrow> bool" where
  "jm_wf m = distinct (map fst m)"

text \<open>What the clients rely on: a lookup after an update or a deletion, the values as the
  range of the lookup, the size, and that well-formedness is kept.\<close>

locale keyed_store =
  fixes get :: "'m \<Rightarrow> string \<Rightarrow> 'v option"
    and put :: "string \<Rightarrow> 'v \<Rightarrow> 'm \<Rightarrow> 'm"
    and delete :: "string \<Rightarrow> 'm \<Rightarrow> 'm"
    and vals :: "'m \<Rightarrow> 'v list"
    and size_of :: "'m \<Rightarrow> nat"
    and wf :: "'m \<Rightarrow> bool"
  assumes get_put: "get (put k v m) k' = (if k' = k then Some v else get m k')"
    and get_delete: "get (delete k m) k' = (if k' = k then None else get m k')"
    and vals_get: "wf m \<Longrightarrow> v \<in> set (vals m) \<longleftrightarrow> (\<exists>k. get m k = Some v)"
    and size_put: "size_of (put k v m) = (if get m k = None then Suc (size_of m) else size_of m)"
    and wf_put: "wf m \<Longrightarrow> wf (put k v m)"
    and wf_delete: "wf m \<Longrightarrow> wf (delete k m)"
begin

text \<open>A property of every entry survives the storing of a good entry and any deletion.\<close>

definition entries :: "(string \<Rightarrow> 'v \<Rightarrow> bool) \<Rightarrow> 'm \<Rightarrow> bool" where
  "entries P m = (\<forall>k v. get m k = Some v \<longrightarrow> P k v)"

lemma entries_put: "entries P m \<Longrightarrow> P k v \<Longrightarrow> entries P (put k v m)"
  by (simp add: entries_def get_put)

lemma entries_delete: "entries P m \<Longrightarrow> entries P (delete k m)"
  by (simp add: entries_def get_delete)

lemma entries_vals: "wf m \<Longrightarrow> entries (\<lambda>k v. P v) m \<longleftrightarrow> (\<forall>v \<in> set (vals m). P v)"
  by (auto simp: entries_def vals_get)

lemma put_keeps_keys: "get m k' \<noteq> None \<Longrightarrow> get (put k v m) k' \<noteq> None"
  by (simp add: get_put)

lemma size_put_le: "size_of (put k v m) \<le> Suc (size_of m)"
  by (simp add: size_put)

end

lemma map_of_jm_set: "map_of (jm_set k v m) k' = (if k' = k then Some v else map_of m k')"
  by (induction k v m rule: jm_set.induct) auto

lemma map_of_jm_delete: "map_of (jm_delete k m) k' = (if k' = k then None else map_of m k')"
  by (induction m) (auto simp: jm_delete_def)

lemma keys_jm_set: "fst ` set (jm_set k v m) = insert k (fst ` set m)"
  by (induction k v m rule: jm_set.induct) auto

lemma jm_wf_set: "jm_wf m \<Longrightarrow> jm_wf (jm_set k v m)"
  by (induction k v m rule: jm_set.induct) (auto simp: jm_wf_def keys_jm_set)

lemma jm_wf_delete: "jm_wf m \<Longrightarrow> jm_wf (jm_delete k m)"
  by (induction m) (auto simp: jm_wf_def jm_delete_def)

lemma length_jm_set:
  "length (jm_set k v m) = (if map_of m k = None then Suc (length m) else length m)"
  by (induction k v m rule: jm_set.induct) auto

lemma jm_values_iff: "jm_wf m \<Longrightarrow> v \<in> set (jm_values m) \<longleftrightarrow> (\<exists>k. map_of m k = Some v)"
  by (force simp: jm_wf_def jm_values_def map_of_eq_Some_iff)

interpretation jm: keyed_store jm_get jm_set jm_delete jm_values jm_size jm_wf
proof unfold_locales
  fix k k' :: string and v :: 'v and m :: "'v js_map"
  show "jm_get (jm_set k v m) k' = (if k' = k then Some v else jm_get m k')"
    by (simp add: jm_get_def map_of_jm_set)
  show "jm_get (jm_delete k m) k' = (if k' = k then None else jm_get m k')"
    by (simp add: jm_get_def map_of_jm_delete)
  show "v \<in> set (jm_values m) \<longleftrightarrow> (\<exists>k. jm_get m k = Some v)" if "jm_wf m"
    using that by (simp add: jm_get_def jm_values_iff)
  show "jm_size (jm_set k v m) = (if jm_get m k = None then Suc (jm_size m) else jm_size m)"
    by (simp add: jm_size_def jm_get_def length_jm_set)
qed (auto intro: jm_wf_set jm_wf_delete)

lemmas jm_laws = jm.get_put jm.get_delete jm.size_put

lemma jm_wf_Nil [simp]: "jm_wf []"
  by (simp add: jm_wf_def)

lemma jm_get_Nil [simp]: "jm_get [] k = None"
  by (simp add: jm_get_def)

lemma jm_values_Nil [simp]: "jm_values [] = []"
  by (simp add: jm_values_def)

lemma jm_size_Nil [simp]: "jm_size [] = 0"
  by (simp add: jm_size_def)

text \<open>Counting the values that satisfy a predicate before and after an update.\<close>

lemma jm_values_set_new:
  "jm_get m k = None \<Longrightarrow> jm_values (jm_set k v m) = jm_values m @ [v]"
  by (induction k v m rule: jm_set.induct)
     (auto simp: jm_values_def jm_get_def split: if_splits)

lemma count_jm_set:
  assumes "jm_wf m"
  shows "length (filter p (jm_values (jm_set k v m))) + (case jm_get m k of None \<Rightarrow> 0 | Some w \<Rightarrow> (if p w then 1 else 0))
    = length (filter p (jm_values m)) + (if p v then 1 else 0)"
  using assms
proof (induction k v m rule: jm_set.induct)
  case (1 k v)
  then show ?case by (simp add: jm_values_def jm_get_def)
next
  case (2 k v k' v' m)
  show ?case
  proof (cases "k' = k")
    case True
    then show ?thesis by (auto simp: jm_values_def jm_get_def)
  next
    case False
    with 2 show ?thesis
      by (auto simp: jm_values_def jm_get_def jm_wf_def split: option.splits)
  qed
qed

end
