(* ===== verification/Global_Budget.thy ===== *)
theory Global_Budget
  imports Locked_Store Js_Map
begin

text \<open>
  \<^verbatim>\<open>packages/cli/src/agent/workbench-global-budget-store.ts\<close>: the machine-wide budget of
  concurrent work. A lease takes a cost from the global, the repository's and the worker
  class's budget until it is released, cancelled or expires. Every operation is one atomic step
  on the store's file (\<^verbatim>\<open>Locked_Store\<close>); \<open>hash\<close> is SHA-256 in hexadecimal. An operation's
  result is \<open>None\<close> when it throws: \<^verbatim>\<open>withLock\<close> passes on what its callback throws.
\<close>

section \<open>Data\<close>

datatype worker_class = WorkStatus | WorkApproval | WorkRead | WorkMutation

datatype budget_lease_status = BudgetActive | BudgetReleased | BudgetExpired | BudgetCancelled

record class_limits =
  cl_status :: int
  cl_approval :: int
  cl_read :: int
  cl_mutation :: int

record budget_limits =
  bl_global :: int
  bl_perRepository :: int
  bl_perClass :: class_limits

record limits_config =
  cf_global :: "int option"
  cf_perRepository :: "int option"
  cf_status :: "int option"
  cf_approval :: "int option"
  cf_read :: "int option"
  cf_mutation :: "int option"

record budget_lease =
  gl_leaseId :: string
  gl_requestId :: string
  gl_sessionId :: string
  gl_sourceId :: string
  gl_workerClass :: worker_class
  gl_cost :: int
  gl_status :: budget_lease_status
  gl_acquiredAt :: string
  gl_updatedAt :: string
  gl_expiresAt :: string
  gl_leaseProofHash :: string
  gl_releasedAt :: "string option"
  gl_expiredAt :: "string option"
  gl_cancelledAt :: "string option"

record budget_store =
  gs_updatedAt :: string
  gs_limits :: budget_limits
  gs_leases :: "budget_lease list"

datatype budget_failure =
    BUDGET_BUSY | BUDGET_CORRUPT | BUDGET_INVALID_INPUT | BUDGET_EXHAUSTED | BUDGET_DUPLICATE_CONFLICT
  | BUDGET_LEASE_NOT_FOUND | BUDGET_LEASE_PROOF_INVALID

type_synonym budget_disk = "budget_store disk"

type_synonym 'a answer = "(budget_failure + 'a) option"

primrec class_limit :: "class_limits \<Rightarrow> worker_class \<Rightarrow> int" where
  "class_limit l WorkStatus = cl_status l"
| "class_limit l WorkApproval = cl_approval l"
| "class_limit l WorkRead = cl_read l"
| "class_limit l WorkMutation = cl_mutation l"

definition valid_positive_integer :: "int \<Rightarrow> bool" where
  "valid_positive_integer n = (0 < n \<and> n \<le> 10000)"

definition limits_for :: "limits_config option \<Rightarrow> budget_limits" where
  "limits_for c =
     (let pick = (\<lambda>f d. case c of None \<Rightarrow> d | Some x \<Rightarrow> (case f x of None \<Rightarrow> d | Some n \<Rightarrow> n))
      in \<lparr>bl_global = pick cf_global 8, bl_perRepository = pick cf_perRepository 4,
          bl_perClass = \<lparr>cl_status = pick cf_status 2, cl_approval = pick cf_approval 2,
                         cl_read = pick cf_read 4, cl_mutation = pick cf_mutation 2\<rparr>\<rparr>)"

definition valid_limits :: "budget_limits \<Rightarrow> bool" where
  "valid_limits l =
     (valid_positive_integer (bl_global l) \<and> valid_positive_integer (bl_perRepository l)
      \<and> valid_positive_integer (cl_status (bl_perClass l)) \<and> valid_positive_integer (cl_approval (bl_perClass l))
      \<and> valid_positive_integer (cl_read (bl_perClass l)) \<and> valid_positive_integer (cl_mutation (bl_perClass l)))"

definition valid_lease :: "budget_lease \<Rightarrow> bool" where
  "valid_lease l =
     (valid_id (gl_leaseId l) \<and> valid_id (gl_requestId l) \<and> valid_id (gl_sessionId l) \<and> valid_id (gl_sourceId l)
      \<and> valid_positive_integer (gl_cost l)
      \<and> valid_iso (gl_acquiredAt l) \<and> valid_iso (gl_updatedAt l) \<and> valid_iso (gl_expiresAt l)
      \<and> valid_hash (gl_leaseProofHash l)
      \<and> opt_valid valid_iso (gl_releasedAt l) \<and> opt_valid valid_iso (gl_expiredAt l)
      \<and> opt_valid valid_iso (gl_cancelledAt l))"

section \<open>The store\<close>

definition epoch :: string where "epoch = ''1970-01-01T00:00:00.000Z''"

definition read_budget :: "limits_config option \<Rightarrow> budget_disk \<Rightarrow> budget_store option" where
  "read_budget c d =
     (case d of
        NoFile \<Rightarrow> Some \<lparr>gs_updatedAt = epoch, gs_limits = limits_for c, gs_leases = []\<rparr>
      | BadFile \<Rightarrow> None
      | Stored s \<Rightarrow>
          if valid_iso (gs_updatedAt s) \<and> valid_limits (gs_limits s) \<and> list_all valid_lease (gs_leases s)
          then Some s else None)"

definition expire_lease :: "string \<Rightarrow> budget_lease \<Rightarrow> budget_lease" where
  "expire_lease now l = l\<lparr>gl_status := BudgetExpired, gl_updatedAt := now, gl_expiredAt := Some now\<rparr>"

definition expire_leases :: "string \<Rightarrow> budget_lease list \<Rightarrow> budget_lease list" where
  "expire_leases now ls =
     map (\<lambda>l. if gl_status l = BudgetActive \<and> time_le (gl_expiresAt l) now then expire_lease now l else l) ls"

definition prune_terminal_leases :: "string \<Rightarrow> budget_lease list \<Rightarrow> budget_lease list" where
  "prune_terminal_leases now ls =
     filter (\<lambda>l. gl_status l = BudgetActive \<or> newer_than (gl_updatedAt l) now (60 * 60000)) ls"

definition open_budget :: "string \<Rightarrow> budget_store \<Rightarrow> budget_store" where
  "open_budget now s = s\<lparr>gs_leases := prune_terminal_leases now (expire_leases now (gs_leases s))\<rparr>"

definition active_cost :: "(budget_lease \<Rightarrow> bool) \<Rightarrow> budget_lease list \<Rightarrow> int" where
  "active_cost p ls = sum_list (map gl_cost (filter (\<lambda>l. gl_status l = BudgetActive \<and> p l) ls))"

record utilization =
  ut_globalUsed :: int
  ut_globalLimit :: int
  ut_byClass :: class_limits
  ut_classLimits :: class_limits
  ut_byRepository :: "int js_map"
  ut_perRepositoryLimit :: int

definition add_repository_cost :: "int js_map \<Rightarrow> budget_lease \<Rightarrow> int js_map" where
  "add_repository_cost m l =
     jm_set (gl_sourceId l) ((case jm_get m (gl_sourceId l) of None \<Rightarrow> 0 | Some c \<Rightarrow> c) + gl_cost l) m"

definition project_utilization :: "budget_store \<Rightarrow> utilization" where
  "project_utilization s =
     (let used = (\<lambda>c. active_cost (\<lambda>l. gl_workerClass l = c) (gs_leases s)) in
      \<lparr>ut_globalUsed = active_cost (\<lambda>l. True) (gs_leases s), ut_globalLimit = bl_global (gs_limits s),
       ut_byClass = \<lparr>cl_status = used WorkStatus, cl_approval = used WorkApproval, cl_read = used WorkRead,
                     cl_mutation = used WorkMutation\<rparr>,
       ut_classLimits = bl_perClass (gs_limits s),
       ut_byRepository = foldl add_repository_cost [] (filter (\<lambda>l. gl_status l = BudgetActive) (gs_leases s)),
       ut_perRepositoryLimit = bl_perRepository (gs_limits s)\<rparr>)"

text \<open>A callback throws (\<open>None\<close>), or answers, writing the given store first when there is one.\<close>

definition with_lock ::
  "io_env \<Rightarrow> limits_config option \<Rightarrow> budget_disk \<Rightarrow>
   (budget_store \<Rightarrow> ((budget_failure + 'a) \<times> budget_store option) option) \<Rightarrow> budget_disk \<times> 'a answer" where
  "with_lock e c d callback =
     (case io_lock e of
        LockBusy \<Rightarrow> (d, Some (Inl BUDGET_BUSY))
      | LockFailed \<Rightarrow> (d, None)
      | LockTaken \<Rightarrow>
          (case read_budget c d of
             None \<Rightarrow> (d, Some (Inl BUDGET_CORRUPT))
           | Some s \<Rightarrow>
               (case callback s of
                  None \<Rightarrow> (d, None)
                | Some (answer, None) \<Rightarrow> (d, Some answer)
                | Some (answer, Some s') \<Rightarrow>
                    (let (d', ok) = write_disk e s' d in (d', if ok then Some answer else None)))))"

section \<open>Operations\<close>

record acquire_input =
  aq_requestId :: string
  aq_sessionId :: string
  aq_sourceId :: string
  aq_workerClass :: worker_class
  aq_cost :: "int option"
  aq_leaseMs :: "int option"
  aq_now :: "string option"

definition or_default :: "'a option \<Rightarrow> 'a \<Rightarrow> 'a" where
  "or_default v d = (case v of None \<Rightarrow> d | Some x \<Rightarrow> x)"

definition keep_newest :: "int \<Rightarrow> budget_lease list \<Rightarrow> budget_lease list" where
  "keep_newest maxLeases ls =
     (if maxLeases < int (length ls)
      then (if 0 \<le> maxLeases then slice_last (nat maxLeases) ls else drop (nat (- maxLeases)) ls)
      else ls)"

definition acquire_workbench_budget ::
  "(string \<Rightarrow> string) \<Rightarrow> limits_config option \<Rightarrow> int option \<Rightarrow> io_env \<Rightarrow> acquire_input \<Rightarrow> budget_disk
   \<Rightarrow> budget_disk \<times> (budget_lease \<times> string \<times> utilization) answer" where
  "acquire_workbench_budget hash c maxLeases e i d =
     (let cost = or_default (aq_cost i) 1; leaseMs = or_default (aq_leaseMs i) 60000 in
      if \<not> valid_id (aq_requestId i) \<or> \<not> valid_id (aq_sessionId i) \<or> \<not> valid_id (aq_sourceId i)
      then (d, Some (Inl BUDGET_INVALID_INPUT))
      else if \<not> valid_positive_integer cost \<or> leaseMs \<le> 0 \<or> 16 * 60000 < leaseMs
      then (d, Some (Inl BUDGET_INVALID_INPUT))
      else with_lock e c d (\<lambda>s0.
        let now = or_default (aq_now i) (io_openNow e);
            s = open_budget now s0;
            ls = gs_leases s;
            limits = gs_limits s
        in if list_ex (\<lambda>l. gl_requestId l = aq_requestId i \<and> gl_status l = BudgetActive) ls
           then Some (Inl BUDGET_DUPLICATE_CONFLICT, None)
           else if bl_global limits < active_cost (\<lambda>l. True) ls + cost
                 \<or> bl_perRepository limits < active_cost (\<lambda>l. gl_sourceId l = aq_sourceId i) ls + cost
                 \<or> class_limit (bl_perClass limits) (aq_workerClass i)
                     < active_cost (\<lambda>l. gl_workerClass l = aq_workerClass i) ls + cost
           then Some (Inl BUDGET_EXHAUSTED, None)
           else case time_plus now leaseMs of
             None \<Rightarrow> None
           | Some expiry \<Rightarrow>
               let l = \<lparr>gl_leaseId = io_uuid e, gl_requestId = aq_requestId i, gl_sessionId = aq_sessionId i,
                        gl_sourceId = aq_sourceId i, gl_workerClass = aq_workerClass i, gl_cost = cost,
                        gl_status = BudgetActive, gl_acquiredAt = now, gl_updatedAt = now, gl_expiresAt = expiry,
                        gl_leaseProofHash = hash (io_random e), gl_releasedAt = None, gl_expiredAt = None,
                        gl_cancelledAt = None\<rparr>;
                   s' = s\<lparr>gs_leases := keep_newest (or_default maxLeases 1000) (ls @ [l]), gs_updatedAt := now\<rparr>
               in Some (Inr (l, io_random e, project_utilization s'), Some s')))"

definition finish_lease :: "bool \<Rightarrow> string \<Rightarrow> budget_lease \<Rightarrow> budget_lease" where
  "finish_lease cancelled now l =
     (if cancelled then l\<lparr>gl_status := BudgetCancelled, gl_updatedAt := now, gl_cancelledAt := Some now\<rparr>
      else l\<lparr>gl_status := BudgetReleased, gl_updatedAt := now, gl_releasedAt := Some now\<rparr>)"

definition release_workbench_budget ::
  "(string \<Rightarrow> string) \<Rightarrow> limits_config option \<Rightarrow> io_env \<Rightarrow> string \<Rightarrow> string \<Rightarrow> bool \<Rightarrow> string option
   \<Rightarrow> budget_disk \<Rightarrow> budget_disk \<times> budget_lease answer" where
  "release_workbench_budget hash c e leaseId leaseProof cancelled now0 d =
     (if \<not> valid_id leaseId \<or> length leaseProof < 32 then (d, Some (Inl BUDGET_INVALID_INPUT))
      else with_lock e c d (\<lambda>s0.
        let now = or_default now0 (io_openNow e); s = open_budget now s0 in
        case List.find (\<lambda>l. gl_leaseId l = leaseId) (gs_leases s) of
          None \<Rightarrow> Some (Inl BUDGET_LEASE_NOT_FOUND, None)
        | Some l \<Rightarrow>
            if gl_leaseProofHash l \<noteq> hash leaseProof then Some (Inl BUDGET_LEASE_PROOF_INVALID, None)
            else if gl_status l \<noteq> BudgetActive then Some (Inr l, Some (s\<lparr>gs_updatedAt := now\<rparr>))
            else Some (Inr (finish_lease cancelled now l),
                   Some (s\<lparr>gs_leases := modify_first (\<lambda>l. gl_leaseId l = leaseId) (finish_lease cancelled now) (gs_leases s),
                           gs_updatedAt := now\<rparr>))))"

definition expire_session_budget_leases ::
  "limits_config option \<Rightarrow> io_env \<Rightarrow> string \<Rightarrow> budget_disk \<Rightarrow> budget_disk \<times> nat answer" where
  "expire_session_budget_leases c e sessionId d =
     (if \<not> valid_id sessionId then (d, Some (Inl BUDGET_INVALID_INPUT))
      else with_lock e c d (\<lambda>s0.
        let now = io_openNow e; s = open_budget now s0;
            hit = (\<lambda>l. gl_sessionId l = sessionId \<and> gl_status l = BudgetActive);
            expired = length (filter hit (gs_leases s))
        in Some (Inr expired,
             if 0 < expired
             then Some (s\<lparr>gs_leases := map (\<lambda>l. if hit l then expire_lease now l else l) (gs_leases s), gs_updatedAt := now\<rparr>)
             else None)))"

definition recover_workbench_budgets ::
  "limits_config option \<Rightarrow> io_env \<Rightarrow> budget_disk \<Rightarrow> budget_disk \<times> (int \<times> utilization) answer" where
  "recover_workbench_budgets c e d =
     with_lock e c d (\<lambda>s0.
       let now = io_openNow e; s = (open_budget now s0)\<lparr>gs_updatedAt := now\<rparr>;
           count = (\<lambda>ls. int (length (filter (\<lambda>l. gl_status l = BudgetActive) ls)))
       in Some (Inr (count (gs_leases s0) - count (gs_leases s), project_utilization s), Some s))"

section \<open>Costs\<close>

definition nonneg_costs :: "budget_lease list \<Rightarrow> bool" where
  "nonneg_costs ls = list_all (\<lambda>l. 0 \<le> gl_cost l) ls"

lemma active_cost_Nil [simp]: "active_cost p [] = 0"
  by (simp add: active_cost_def)

lemma active_cost_Cons:
  "active_cost p (l # ls) = (if gl_status l = BudgetActive \<and> p l then gl_cost l else 0) + active_cost p ls"
  by (simp add: active_cost_def)

lemma active_cost_append: "active_cost p (xs @ ys) = active_cost p xs + active_cost p ys"
  by (simp add: active_cost_def)

lemma active_cost_nonneg: "nonneg_costs ls \<Longrightarrow> 0 \<le> active_cost p ls"
  by (induction ls) (auto simp: nonneg_costs_def active_cost_Cons)

lemma active_cost_sum_mset:
  "active_cost p xs = sum_mset (image_mset gl_cost (filter_mset (\<lambda>l. gl_status l = BudgetActive \<and> p l) (mset xs)))"
  by (induction xs) (simp_all add: active_cost_Cons)

lemma active_cost_mset: "mset xs = mset ys \<Longrightarrow> active_cost p xs = active_cost p ys"
  by (simp only: active_cost_sum_mset)

lemma active_cost_submset:
  assumes "mset ys \<subseteq># mset xs" "nonneg_costs xs"
  shows "active_cost p ys \<le> active_cost p xs"
proof -
  obtain rest where "mset xs = mset ys + rest" using assms(1) unfolding mset_subset_eq_exists_conv by blast
  moreover obtain zs where "mset zs = rest" using ex_mset by blast
  ultimately have eq: "mset xs = mset (ys @ zs)" by simp
  then have "set zs \<subseteq> set xs" by (metis mset_eq_setD set_append sup_ge2)
  then have "nonneg_costs zs" using assms(2) by (auto simp: nonneg_costs_def list_all_iff)
  then show ?thesis using active_cost_mset [OF eq, of p] active_cost_nonneg [of zs p] by (simp add: active_cost_append)
qed

text \<open>A change that keeps what a lease is charged to and activates none.\<close>

definition retires :: "(budget_lease \<Rightarrow> budget_lease) \<Rightarrow> bool" where
  "retires f = (\<forall>l. gl_cost (f l) = gl_cost l \<and> gl_sourceId (f l) = gl_sourceId l \<and> gl_workerClass (f l) = gl_workerClass l
                 \<and> (gl_status (f l) = BudgetActive \<longrightarrow> gl_status l = BudgetActive))"

lemma retires_change:
  "retires (expire_lease now)" "retires (finish_lease b now)"
  "retires f \<Longrightarrow> retires (\<lambda>l. if p l then f l else l)"
  by (simp_all add: retires_def expire_lease_def finish_lease_def)

text \<open>The three kinds of budget, as predicates on leases with their limits.\<close>

definition within_limits :: "budget_limits \<Rightarrow> budget_lease list \<Rightarrow> bool" where
  "within_limits lim ls =
     (active_cost (\<lambda>l. True) ls \<le> bl_global lim
      \<and> (\<forall>s. active_cost (\<lambda>l. gl_sourceId l = s) ls \<le> bl_perRepository lim)
      \<and> (\<forall>c. active_cost (\<lambda>l. gl_workerClass l = c) ls \<le> class_limit (bl_perClass lim) c))"

lemma within_limits_mono:
  assumes "within_limits lim xs"
    and "\<And>p. p \<in> {\<lambda>l. True} \<union> range (\<lambda>s l. gl_sourceId l = s) \<union> range (\<lambda>c l. gl_workerClass l = c)
           \<Longrightarrow> active_cost p ys \<le> active_cost p xs"
  shows "within_limits lim ys"
proof -
  have "active_cost (\<lambda>l. True) ys \<le> active_cost (\<lambda>l. True) xs" by (rule assms(2)) simp
  moreover have "active_cost (\<lambda>l. gl_sourceId l = s) ys \<le> active_cost (\<lambda>l. gl_sourceId l = s) xs" for s
    by (rule assms(2)) blast
  moreover have "active_cost (\<lambda>l. gl_workerClass l = c) ys \<le> active_cost (\<lambda>l. gl_workerClass l = c) xs" for c
    by (rule assms(2)) blast
  ultimately show ?thesis using assms(1) unfolding within_limits_def by (meson order_trans)
qed

lemma active_cost_retires:
  assumes "retires f" "nonneg_costs ls" "\<And>l. p (f l) = p l"
  shows "active_cost p (map f ls) \<le> active_cost p ls"
  using assms(2)
proof (induction ls)
  case (Cons l ls)
  have "gl_cost (f l) = gl_cost l" "gl_status (f l) = BudgetActive \<longrightarrow> gl_status l = BudgetActive"
    using assms(1) by (simp_all add: retires_def)
  with Cons assms(3) [of l] show ?case by (auto simp: active_cost_Cons nonneg_costs_def)
qed simp

definition budget_inv :: "budget_store \<Rightarrow> bool" where
  "budget_inv s =
     (nonneg_costs (gs_leases s) \<and> (valid_limits (gs_limits s) \<longrightarrow> within_limits (gs_limits s) (gs_leases s)))"

lemma budget_inv_submset:
  assumes "budget_inv s" "mset ls \<subseteq># mset (gs_leases s)" "gs_limits s' = gs_limits s" "gs_leases s' = ls"
  shows "budget_inv s'"
proof -
  have nonneg: "nonneg_costs (gs_leases s)" using assms(1) by (simp add: budget_inv_def)
  then have "nonneg_costs ls"
    using set_submset [OF assms(2)] unfolding nonneg_costs_def list_all_iff by blast
  moreover have "within_limits (gs_limits s) (gs_leases s) \<Longrightarrow> within_limits (gs_limits s) ls"
    by (erule within_limits_mono) (rule active_cost_submset [OF assms(2) nonneg])
  ultimately show ?thesis using assms(1,3,4) by (simp add: budget_inv_def)
qed

lemma budget_inv_map:
  assumes "budget_inv s" "retires f" "gs_limits s' = gs_limits s" "gs_leases s' = map f (gs_leases s)"
  shows "budget_inv s'"
proof -
  have nonneg: "nonneg_costs (gs_leases s)" using assms(1) by (simp add: budget_inv_def)
  then have "nonneg_costs (map f (gs_leases s))"
    using assms(2) by (simp add: nonneg_costs_def list_all_iff retires_def)
  moreover have "within_limits (gs_limits s) (gs_leases s) \<Longrightarrow> within_limits (gs_limits s) (map f (gs_leases s))"
    by (erule within_limits_mono, rule active_cost_retires [OF assms(2) nonneg])
       (use assms(2) in \<open>auto simp: retires_def\<close>)
  ultimately show ?thesis using assms(1,3,4) by (simp add: budget_inv_def)
qed

lemma budget_inv_open:
  assumes "budget_inv s"
  shows "budget_inv (open_budget now s)"
proof -
  let ?s = "s\<lparr>gs_leases := expire_leases now (gs_leases s)\<rparr>"
  have "budget_inv ?s"
    by (rule budget_inv_map [OF assms, of "\<lambda>l. if gl_status l = BudgetActive \<and> time_le (gl_expiresAt l) now
            then expire_lease now l else l"])
       (simp_all add: expire_leases_def retires_change)
  then show ?thesis
    by (rule budget_inv_submset) (simp_all add: open_budget_def prune_terminal_leases_def)
qed

lemma budget_inv_updatedAt [simp]: "budget_inv (s\<lparr>gs_updatedAt := t\<rparr>) = budget_inv s"
  by (simp add: budget_inv_def)

lemma modify_first_retires:
  assumes "retires f" "nonneg_costs ls" "\<And>l. p (f l) = p l"
  shows "active_cost p (modify_first q f ls) \<le> active_cost p ls"
  using assms(2)
proof (induction ls)
  case (Cons l ls)
  have "gl_cost (f l) = gl_cost l" "gl_status (f l) = BudgetActive \<longrightarrow> gl_status l = BudgetActive"
    using assms(1) by (simp_all add: retires_def)
  with Cons assms(3) [of l] show ?case by (auto simp: active_cost_Cons nonneg_costs_def)
qed simp

lemma budget_inv_modify:
  assumes "budget_inv s" "retires f"
  shows "budget_inv (s\<lparr>gs_leases := modify_first q f (gs_leases s)\<rparr>)"
proof -
  have nonneg: "nonneg_costs (gs_leases s)" using assms(1) by (simp add: budget_inv_def)
  then have "nonneg_costs (modify_first q f (gs_leases s))"
    using assms(2) by (induction "gs_leases s") (auto simp: nonneg_costs_def list_all_iff retires_def dest!: set_modify_first find_Some_iff_in)
  moreover have "within_limits (gs_limits s) (gs_leases s) \<Longrightarrow> within_limits (gs_limits s) (modify_first q f (gs_leases s))"
    by (erule within_limits_mono, rule modify_first_retires [OF assms(2) nonneg])
       (use assms(2) in \<open>auto simp: retires_def\<close>)
  ultimately show ?thesis using assms(1) by (simp add: budget_inv_def)
qed

lemma mset_keep_newest: "mset (keep_newest n ls) \<subseteq># mset ls"
proof -
  have "mset (drop k ls) \<subseteq># mset ls" for k
  proof -
    have "mset (drop k ls) \<subseteq># mset (take k ls) + mset (drop k ls)" by (rule mset_subset_eq_add_right)
    then show ?thesis by (metis append_take_drop_id mset_append)
  qed
  then show ?thesis by (simp add: keep_newest_def mset_slice_last)
qed

lemma budget_inv_acquire:
  assumes "budget_inv s" "0 < gl_cost l" "gl_status l = BudgetActive"
    and "active_cost (\<lambda>l. True) (gs_leases s) + gl_cost l \<le> bl_global (gs_limits s)"
    and "active_cost (\<lambda>x. gl_sourceId x = gl_sourceId l) (gs_leases s) + gl_cost l \<le> bl_perRepository (gs_limits s)"
    and "active_cost (\<lambda>x. gl_workerClass x = gl_workerClass l) (gs_leases s) + gl_cost l
           \<le> class_limit (bl_perClass (gs_limits s)) (gl_workerClass l)"
  shows "budget_inv (s\<lparr>gs_leases := gs_leases s @ [l]\<rparr>)"
  using assms
  by (auto simp: budget_inv_def within_limits_def nonneg_costs_def active_cost_append active_cost_Cons)

section \<open>The store as a machine\<close>

definition budget_disk_inv :: "budget_disk \<Rightarrow> bool" where
  "budget_disk_inv d = (case d of Stored s \<Rightarrow> budget_inv s | _ \<Rightarrow> True)"

lemma read_budget_inv: "budget_disk_inv d \<Longrightarrow> read_budget c d = Some s \<Longrightarrow> budget_inv s"
proof (cases d)
  case NoFile
  have "valid_limits l \<Longrightarrow> 0 \<le> class_limit (bl_perClass l) w" for l w
    by (cases w) (simp_all add: valid_limits_def valid_positive_integer_def)
  moreover assume "read_budget c d = Some s"
  ultimately show ?thesis
    using NoFile by (auto simp: read_budget_def budget_inv_def nonneg_costs_def within_limits_def
        valid_limits_def valid_positive_integer_def)
qed (auto simp: budget_disk_inv_def read_budget_def split: if_splits)

lemma with_lock_inv:
  assumes "budget_disk_inv d"
    and "\<And>s answer s'. budget_inv s \<Longrightarrow> callback s = Some (answer, Some s') \<Longrightarrow> budget_inv s'"
  shows "budget_disk_inv (fst (with_lock e c d callback))"
proof (cases "io_lock e = LockTaken \<and> read_budget c d \<noteq> None")
  case False
  with assms(1) show ?thesis by (cases "io_lock e"; auto simp: with_lock_def split: option.splits)
next
  case True
  then obtain s where s: "read_budget c d = Some s" by auto
  with assms have "budget_inv s'" if "callback s = Some (answer, Some s')" for answer s'
    using that read_budget_inv by blast
  with True s assms(1) show ?thesis
    by (auto simp: with_lock_def write_disk_def budget_disk_inv_def split: option.splits write_outcome.splits)
qed

datatype budget_op =
    AcquireBudget "limits_config option" "int option" io_env acquire_input
  | ReleaseBudget "limits_config option" io_env string string bool "string option"
  | ExpireSession "limits_config option" io_env string
  | RecoverBudgets "limits_config option" io_env

fun budget_step :: "(string \<Rightarrow> string) \<Rightarrow> budget_disk \<Rightarrow> budget_op \<Rightarrow> budget_disk" where
  "budget_step hash d (AcquireBudget c m e i) = fst (acquire_workbench_budget hash c m e i d)"
| "budget_step hash d (ReleaseBudget c e i p b now) = fst (release_workbench_budget hash c e i p b now d)"
| "budget_step hash d (ExpireSession c e i) = fst (expire_session_budget_leases c e i d)"
| "budget_step hash d (RecoverBudgets c e) = fst (recover_workbench_budgets c e d)"

lemma acquire_budget_inv:
  assumes "budget_disk_inv d"
  shows "budget_disk_inv (fst (acquire_workbench_budget hash c m e i d))"
proof -
  let ?now = "or_default (aq_now i) (io_openNow e)"
  have new: "budget_inv ((open_budget ?now s)\<lparr>gs_leases := keep_newest n (gs_leases (open_budget ?now s) @ [l])\<rparr>)"
    if "budget_inv s" "0 < gl_cost l" "gl_status l = BudgetActive"
      "active_cost (\<lambda>l. True) (gs_leases (open_budget ?now s)) + gl_cost l \<le> bl_global (gs_limits (open_budget ?now s))"
      "active_cost (\<lambda>x. gl_sourceId x = gl_sourceId l) (gs_leases (open_budget ?now s)) + gl_cost l
         \<le> bl_perRepository (gs_limits (open_budget ?now s))"
      "active_cost (\<lambda>x. gl_workerClass x = gl_workerClass l) (gs_leases (open_budget ?now s)) + gl_cost l
         \<le> class_limit (bl_perClass (gs_limits (open_budget ?now s))) (gl_workerClass l)"
    for s l n
    by (rule budget_inv_submset [OF budget_inv_acquire [OF budget_inv_open [OF that(1)] that(2-6)]])
       (use mset_keep_newest [of n "gs_leases (open_budget ?now s) @ [l]"] in simp_all)
  show ?thesis
    unfolding acquire_workbench_budget_def Let_def
    by (auto intro!: with_lock_inv [OF assms] new assms simp: valid_positive_integer_def
        split: if_splits option.splits)
qed

lemma release_budget_inv:
  "budget_disk_inv d \<Longrightarrow> budget_disk_inv (fst (release_workbench_budget hash c e i p b now d))"
  unfolding release_workbench_budget_def Let_def
  by (auto intro!: with_lock_inv budget_inv_modify budget_inv_open retires_change
      split: if_splits option.splits)

lemma expire_session_inv:
  assumes "budget_disk_inv d"
  shows "budget_disk_inv (fst (expire_session_budget_leases c e i d))"
proof -
  have "budget_inv ((open_budget now s)\<lparr>gs_leases := map (\<lambda>l. if hit l then expire_lease now l else l)
      (gs_leases (open_budget now s)), gs_updatedAt := now\<rparr>)" if "budget_inv s" for s now hit
    by (rule budget_inv_map [OF budget_inv_open [OF that] retires_change(3) [OF retires_change(1)]]) simp_all
  then show ?thesis
    unfolding expire_session_budget_leases_def Let_def
    by (auto intro!: with_lock_inv [OF assms] assms split: if_splits)
qed

lemma recover_budget_inv: "budget_disk_inv d \<Longrightarrow> budget_disk_inv (fst (recover_workbench_budgets c e d))"
  unfolding recover_workbench_budgets_def Let_def by (auto intro!: with_lock_inv budget_inv_open)

interpretation budget: op_machine "budget_step hash" budget_disk_inv
proof unfold_locales
  fix d a assume "budget_disk_inv d"
  then show "budget_disk_inv (budget_step hash d a)"
    by (cases a)
       (simp_all add: acquire_budget_inv release_budget_inv expire_session_inv recover_budget_inv)
qed

section \<open>Properties\<close>

definition sample_acquire :: "string \<Rightarrow> int \<Rightarrow> acquire_input" where
  "sample_acquire i cost =
     \<lparr>aq_requestId = i, aq_sessionId = ''ses'', aq_sourceId = ''src'', aq_workerClass = WorkRead, aq_cost = Some cost,
      aq_leaseMs = None, aq_now = None\<rparr>"

definition budget_env :: "string \<Rightarrow> io_env" where
  "budget_env i = (sample_env noon)\<lparr>io_uuid := i\<rparr>"

definition sample_proof_text :: string where
  "sample_proof_text = replicate 64 (CHR ''a'')"

definition stored_budget :: "budget_disk \<Rightarrow> budget_store" where
  "stored_budget d = (case d of Stored s \<Rightarrow> s
     | _ \<Rightarrow> \<lparr>gs_updatedAt = epoch, gs_limits = limits_for None, gs_leases = []\<rparr>)"

text \<open>
  C7. The budgets hold: in every store that any sequence of operations leaves, under any
  clocks, lock failures and failed writes, the costs of the active leases stay within the
  store's global limit, within its limit for each repository and within that of each class.
\<close>

theorem budget_never_exceeded:
  assumes "foldl (budget_step hash) NoFile ops = Stored s" "valid_limits (gs_limits s)"
  shows "active_cost (\<lambda>l. True) (gs_leases s) \<le> bl_global (gs_limits s)
    \<and> (\<forall>source. active_cost (\<lambda>l. gl_sourceId l = source) (gs_leases s) \<le> bl_perRepository (gs_limits s))
    \<and> (\<forall>c. active_cost (\<lambda>l. gl_workerClass l = c) (gs_leases s) \<le> class_limit (bl_perClass (gs_limits s)) c)"
proof -
  have "budget_disk_inv (foldl (budget_step hash) NoFile ops)"
    by (rule budget.inv_run) (simp add: budget_disk_inv_def)
  then have "budget_inv s" unfolding assms(1) by (simp add: budget_disk_inv_def)
  with assms(2) show ?thesis by (simp add: budget_inv_def within_limits_def)
qed

theorem budget_never_exceeded_witness:
  "\<exists>s. foldl (budget_step sample_hash) NoFile
       [AcquireBudget None None (budget_env ''l1'') (sample_acquire ''a'' 3),
        AcquireBudget None None (budget_env ''l2'') (sample_acquire ''b'' 2)] = Stored s
     \<and> active_cost (\<lambda>l. True) (gs_leases s) \<le> 8 \<and> 0 < length (gs_leases s)"
proof -
  let ?d = "foldl (budget_step sample_hash) NoFile
       [AcquireBudget None None (budget_env ''l1'') (sample_acquire ''a'' 3),
        AcquireBudget None None (budget_env ''l2'') (sample_acquire ''b'' 2)]"
  have "(case ?d of Stored s \<Rightarrow> True | _ \<Rightarrow> False)" by code_simp
  then have d: "?d = Stored (stored_budget ?d)" by (cases ?d) (simp_all add: stored_budget_def)
  have lim: "valid_limits (gs_limits (stored_budget ?d)) \<and> bl_global (gs_limits (stored_budget ?d)) = 8
      \<and> 0 < length (gs_leases (stored_budget ?d))" by code_simp
  then have "valid_limits (gs_limits (stored_budget ?d))" by simp
  from budget_never_exceeded [OF d this] lim d show ?thesis by (intro exI [of _ "stored_budget ?d"]) simp
qed

lemma with_lock_Inr:
  assumes "with_lock e c d callback = (d', Some (Inr a))"
  obtains s where "read_budget c d = Some s"
    "\<exists>saved. callback s = Some (Inr a, saved) \<and> d' = (case saved of None \<Rightarrow> d | Some s' \<Rightarrow> Stored s')"
  using assms that
  by (force simp: with_lock_def write_disk_def split: lock_outcome.splits option.splits write_outcome.splits prod.splits)

lemma acquire_Inr:
  assumes "acquire_workbench_budget hash c m e i d = (d', Some (Inr (l, p, u)))" "read_budget c d = Some s"
  shows "d' = Stored ((open_budget (or_default (aq_now i) (io_openNow e)) s)
           \<lparr>gs_leases := keep_newest (or_default m 1000) (gs_leases (open_budget (or_default (aq_now i) (io_openNow e)) s) @ [l]),
            gs_updatedAt := or_default (aq_now i) (io_openNow e)\<rparr>)
    \<and> gl_leaseId l = io_uuid e \<and> gl_status l = BudgetActive"
  using assms
  by (auto simp: acquire_workbench_budget_def Let_def split: if_splits option.splits elim!: with_lock_Inr)

text \<open>What an acquisition answers is active and charged to who asked, and it is on file unless the bound
  of the file is negative.\<close>

lemma acquire_charges:
  assumes "acquire_workbench_budget hash c m e i d = (d', Some (Inr (l, p, u)))"
  shows "gl_status l = BudgetActive \<and> gl_requestId l = aq_requestId i \<and> gl_sessionId l = aq_sessionId i
    \<and> gl_sourceId l = aq_sourceId i \<and> gl_workerClass l = aq_workerClass i \<and> gl_leaseProofHash l = hash p
    \<and> (0 \<le> or_default m 1000 \<longrightarrow> (\<exists>s. d' = Stored s \<and> l \<in> set (gs_leases s)))"
proof -
  have newest: "l \<in> set (keep_newest n (ls @ [l]))" if "0 \<le> n" for n and ls :: "budget_lease list"
    using that by (auto simp: keep_newest_def slice_last_def)
  show ?thesis
    using assms newest
    by (auto simp: acquire_workbench_budget_def Let_def split: if_splits option.splits elim!: with_lock_Inr)
qed

lemma open_budget_ids:
  "x \<in> set (gs_leases (open_budget t s)) \<Longrightarrow> \<exists>y \<in> set (gs_leases s). gl_leaseId x = gl_leaseId y"
  by (force simp: open_budget_def prune_terminal_leases_def expire_leases_def expire_lease_def)

text \<open>
  A full store evicts leases that are still active: when the opened store already holds as
  many leases as are kept, a successful acquisition drops the oldest one even if it is active.
  Its cost no longer counts, and its holder can no longer release it.
\<close>

theorem full_store_evicts_active_lease:
  assumes "acquire_workbench_budget hash c m e i d = (d', Some (Inr (l, p, u)))"
    and "read_budget c d = Some s"
    and "gs_leases (open_budget (or_default (aq_now i) (io_openNow e)) s) = old # rest"
    and "gl_status old = BudgetActive" "or_default m 1000 = int (length (old # rest))"
    and "\<forall>x \<in> set (rest @ [l]). gl_leaseId x \<noteq> gl_leaseId old"
    and "valid_id (gl_leaseId old)" "32 \<le> length proof_text" "io_lock e' = LockTaken" "read_budget c' d' \<noteq> None"
  shows "active_cost (\<lambda>x. True) (gs_leases (stored_budget d'))
           = active_cost (\<lambda>x. True) (old # rest) - gl_cost old + gl_cost l
    \<and> release_workbench_budget hash c' e' (gl_leaseId old) proof_text b now d' = (d', Some (Inl BUDGET_LEASE_NOT_FOUND))"
proof -
  let ?now = "or_default (aq_now i) (io_openNow e)"
  have "nat (1 + int (length rest)) = Suc (length rest)" by linarith
  then have "keep_newest (or_default m 1000) (old # rest @ [l]) = rest @ [l]"
    unfolding assms(5) by (simp add: keep_newest_def slice_last_def)
  with acquire_Inr [OF assms(1,2)] assms(3) obtain s' where s': "d' = Stored s'" "gs_leases s' = rest @ [l]"
    and l: "gl_status l = BudgetActive" by auto
  then have rd: "read_budget c' d' = Some s'" using assms(10) by (auto simp: read_budget_def split: if_splits)
  have "gl_leaseId x \<noteq> gl_leaseId old" if "x \<in> set (gs_leases (open_budget t s'))" for x t
    using open_budget_ids [OF that] assms(6) unfolding s'(2) by metis
  then have "List.find (\<lambda>x. gl_leaseId x = gl_leaseId old) (gs_leases (open_budget t s')) = None" for t
    by (auto simp: find_None_iff)
  then have "release_workbench_budget hash c' e' (gl_leaseId old) proof_text b now d' = (d', Some (Inl BUDGET_LEASE_NOT_FOUND))"
    using assms(7,8,9) rd by (simp add: release_workbench_budget_def with_lock_def Let_def)
  then show ?thesis
    using s' l assms(4) by (simp add: stored_budget_def active_cost_append active_cost_Cons)
qed

definition one_lease :: budget_disk where
  "one_lease = fst (acquire_workbench_budget sample_hash None (Some 1) (budget_env ''l1'') (sample_acquire ''a'' 2) NoFile)"

definition two_leases :: "budget_disk \<times> (budget_lease \<times> string \<times> utilization) answer" where
  "two_leases = acquire_workbench_budget sample_hash None (Some 1) (budget_env ''l2'') (sample_acquire ''b'' 1) one_lease"

theorem full_store_evicts_active_lease_witness:
  "snd (release_workbench_budget sample_hash None (budget_env ''x'') ''l1'' sample_proof_text False None (fst two_leases))
     = Some (Inl BUDGET_LEASE_NOT_FOUND)"
proof -
  have shape: "(case snd two_leases of Some (Inr (l, p, u)) \<Rightarrow> gl_leaseId l = ''l2'' | _ \<Rightarrow> False)
     \<and> read_budget None one_lease \<noteq> None \<and> read_budget None (fst two_leases) \<noteq> None
     \<and> (case read_budget None one_lease of None \<Rightarrow> False | Some s \<Rightarrow>
          map (\<lambda>l. (gl_leaseId l, gl_status l)) (gs_leases (open_budget noon s)) = [(''l1'', BudgetActive)])"
    by code_simp
  then obtain l p u s where a: "snd two_leases = Some (Inr (l, p, u))" "gl_leaseId l = ''l2''"
    and rd: "read_budget None one_lease = Some s" and rd2: "read_budget None (fst two_leases) \<noteq> None"
    and ls: "map (\<lambda>l. (gl_leaseId l, gl_status l)) (gs_leases (open_budget noon s)) = [(''l1'', BudgetActive)]"
    by (auto split: option.splits sum.splits prod.splits)
  have acq: "acquire_workbench_budget sample_hash None (Some 1) (budget_env ''l2'') (sample_acquire ''b'' 1) one_lease
      = (fst two_leases, Some (Inr (l, p, u)))"
    using a(1) unfolding two_leases_def by (metis prod.collapse)
  from ls obtain old where old: "gs_leases (open_budget noon s) = [old]" "gl_leaseId old = ''l1''" "gl_status old = BudgetActive"
    by auto
  have now: "or_default (aq_now (sample_acquire ''b'' 1)) (io_openNow (budget_env ''l2'')) = noon"
    by (simp add: or_default_def sample_acquire_def budget_env_def sample_env_def)
  have opened: "gs_leases (open_budget (or_default (aq_now (sample_acquire ''b'' 1)) (io_openNow (budget_env ''l2''))) s) = [old]"
    unfolding now by (rule old(1))
  have ids: "valid_id ''l1''" "or_default (Some 1) 1000 = int (length [old])" "32 \<le> length sample_proof_text"
    "io_lock (budget_env ''x'') = LockTaken" "\<forall>x \<in> set ([] @ [l]). gl_leaseId x \<noteq> gl_leaseId old"
    using a(2) old(2)
    by (code_simp, simp_all add: or_default_def sample_proof_text_def budget_env_def sample_env_def)
  from full_store_evicts_active_lease
    [OF acq rd opened old(3) ids(2,5) _ ids(3,4) rd2, unfolded old(2), OF ids(1), of False None]
  show ?thesis by simp
qed

lemma with_lock_unreadable:
  "read_budget c d = None \<Longrightarrow> fst (with_lock e c d callback) = d"
  by (cases "io_lock e") (simp_all add: with_lock_def)

lemma budget_step_unreadable:
  assumes "\<And>c. read_budget c d = None"
  shows "budget_step hash d a = d"
  using assms
  by (cases a)
     (simp_all add: acquire_workbench_budget_def release_workbench_budget_def expire_session_budget_leases_def
        recover_workbench_budgets_def with_lock_unreadable Let_def)

text \<open>
  An unreadable time given to a release destroys the store: the release succeeds and writes
  it as the time of the store, after which no operation whatsoever changes the file again and
  every operation that gets the lock answers \<^verbatim>\<open>BUDGET_CORRUPT\<close>.
\<close>

theorem release_with_unreadable_time_destroys_store:
  assumes "release_workbench_budget hash c e i p b (Some t) d = (d', Some (Inr l))" "\<not> valid_iso t"
  shows "foldl (budget_step hash) d' ops = d'
    \<and> (io_lock e' = LockTaken \<longrightarrow> recover_workbench_budgets c' e' d' = (d', Some (Inl BUDGET_CORRUPT)))"
proof -
  have "\<exists>s. d' = Stored s \<and> gs_updatedAt s = t"
    using assms(1)
    by (auto simp: release_workbench_budget_def Let_def or_default_def split: if_splits option.splits elim!: with_lock_Inr)
  then have unreadable: "read_budget k d' = None" for k
    using assms(2) by (auto simp: read_budget_def)
  have "foldl (budget_step hash) d' ops = d'"
    by (induction ops) (simp_all add: budget_step_unreadable [OF unreadable])
  with unreadable show ?thesis by (simp add: recover_workbench_budgets_def with_lock_def)
qed

theorem release_with_unreadable_time_destroys_store_witness:
  "let d' = fst (release_workbench_budget sample_hash None (budget_env ''x'') ''l1'' sample_proof_text False (Some ''later'') one_lease)
   in foldl (budget_step sample_hash) d' [RecoverBudgets None (budget_env ''y'')] = d'
      \<and> recover_workbench_budgets None (budget_env ''y'') d' = (d', Some (Inl BUDGET_CORRUPT))"
proof -
  let ?r = "release_workbench_budget sample_hash None (budget_env ''x'') ''l1'' sample_proof_text False (Some ''later'') one_lease"
  have "(case snd ?r of Some (Inr l) \<Rightarrow> True | _ \<Rightarrow> False)" by code_simp
  then obtain l where "snd ?r = Some (Inr l)" by (auto split: option.splits sum.splits)
  then have r: "?r = (fst ?r, Some (Inr l))" by (metis prod.collapse)
  have "\<not> valid_iso ''later''" by code_simp
  moreover have "io_lock (budget_env ''y'') = LockTaken" by (simp add: budget_env_def sample_env_def)
  ultimately show ?thesis
    using release_with_unreadable_time_destroys_store [OF r] by (simp only: Let_def) blast
qed

end
