(* ===== verification/Session_Store.thy ===== *)
theory Session_Store
  imports Complex_Main Repository_Scheduler Global_Budget
begin

text \<open>
  \<^verbatim>\<open>packages/cli/src/agent/workbench-session-store.ts\<close>: the file of the work sessions. A session
  locks a fixed set of sources, is changed by compare-and-set on its revision, and accumulates
  resource counters; completing it cancels its requests in the repository scheduler and expires
  its leases of the global budget. An exception inside the lock answers
  \<^verbatim>\<open>SESSION_STORE_CORRUPT\<close>. Of the clock readings of one call, \<open>io_bodyNow\<close> is that of the body,
  \<open>io_openNow\<close> that of the retention before the write and \<open>io_saveNow\<close> the time of the file.
\<close>

section \<open>Data\<close>

datatype session_status = SessActive | SessPaused | SessCompleted | SessRecoveryRequired

datatype session_approval_status = ApprNone | ApprRequired | ApprSatisfied | ApprRejected | ApprExpired

datatype session_action_status = ActStarted | ActCompleted | ActFailed | ActBlocked

record session_approval =
  sa_status :: session_approval_status
  sa_reasonCode :: "string option"
  sa_updatedAt :: string

record session_action =
  sx_kind :: string
  sx_status :: session_action_status
  sx_at :: string
  sx_requestId :: "string option"

record session_counters =
  sc_toolCalls :: int
  sc_actionRoundTrips :: int
  sc_packetsCompleted :: int
  sc_repairAttempts :: int
  sc_validationJobs :: int
  sc_bytesRead :: int
  sc_bytesWritten :: int

record work_session =
  ws_sessionId :: string
  ws_revision :: int
  ws_status :: session_status
  ws_lockedSourceIds :: "string list"
  ws_activeRunId :: "string option"
  ws_activeTaskId :: "string option"
  ws_approval :: session_approval
  ws_lastAction :: "session_action option"
  ws_resources :: session_counters
  ws_createdAt :: string
  ws_updatedAt :: string

datatype session_failure =
    SESSION_STORE_BUSY | SESSION_STORE_CORRUPT | SESSION_NOT_FOUND | SESSION_DUPLICATE_CONFLICT
  | SESSION_REVISION_CONFLICT | SESSION_SOURCE_DRIFT | SESSION_INVALID_INPUT

text \<open>A member of a patch: absent, \<^verbatim>\<open>null\<close> or a value.\<close>

datatype 'a patched = Keep | Clear | SetTo 'a

record session_delta =
  sd_toolCalls :: "rat option"
  sd_actionRoundTrips :: "rat option"
  sd_packetsCompleted :: "rat option"
  sd_repairAttempts :: "rat option"
  sd_validationJobs :: "rat option"
  sd_bytesRead :: "rat option"
  sd_bytesWritten :: "rat option"

record session_patch =
  sp_expectedRevision :: rat
  sp_newStatus :: "session_status option"
  sp_activeRunId :: "string patched"
  sp_activeTaskId :: "string patched"
  sp_approval :: "(session_approval_status \<times> string option) option"
  sp_lastAction :: "session_action patched"
  sp_resourceDelta :: "session_delta option"
  sp_now :: string

type_synonym session_disk = "work_session list_disk"

section \<open>Validation\<close>

definition max_safe_integer :: int where "max_safe_integer = 9007199254740991"

definition empty_counters :: session_counters where
  "empty_counters =
     \<lparr>sc_toolCalls = 0, sc_actionRoundTrips = 0, sc_packetsCompleted = 0, sc_repairAttempts = 0, sc_validationJobs = 0,
      sc_bytesRead = 0, sc_bytesWritten = 0\<rparr>"

definition valid_optional_text :: "string option \<Rightarrow> nat \<Rightarrow> bool" where
  "valid_optional_text v n = (case v of None \<Rightarrow> True | Some s \<Rightarrow> 0 < length s \<and> length s \<le> n)"

definition valid_counter :: "int \<Rightarrow> bool" where
  "valid_counter n = (0 \<le> n \<and> n \<le> max_safe_integer)"

definition counter_list :: "session_counters \<Rightarrow> int list" where
  "counter_list c =
     [sc_toolCalls c, sc_actionRoundTrips c, sc_packetsCompleted c, sc_repairAttempts c, sc_validationJobs c,
      sc_bytesRead c, sc_bytesWritten c]"

definition valid_counters :: "session_counters \<Rightarrow> bool" where
  "valid_counters c = list_all valid_counter (counter_list c)"

definition valid_approval :: "session_approval \<Rightarrow> bool" where
  "valid_approval a = (valid_optional_text (sa_reasonCode a) 120 \<and> valid_iso (sa_updatedAt a))"

definition valid_last_action :: "session_action option \<Rightarrow> bool" where
  "valid_last_action v =
     (case v of None \<Rightarrow> True
      | Some a \<Rightarrow> 0 < length (sx_kind a) \<and> length (sx_kind a) \<le> 120 \<and> valid_iso (sx_at a)
                  \<and> valid_optional_text (sx_requestId a) 200)"

definition normalize_locked_sources :: "string list \<Rightarrow> string list option" where
  "normalize_locked_sources v =
     (if v = [] \<or> 32 < length v \<or> \<not> list_all valid_id v then None
      else let unique = sort (uniq v) in if length unique = length v then Some unique else None)"

definition valid_session :: "work_session \<Rightarrow> bool" where
  "valid_session r =
     (valid_id (ws_sessionId r) \<and> 0 \<le> ws_revision r \<and> ws_revision r \<le> max_safe_integer
      \<and> normalize_locked_sources (ws_lockedSourceIds r) \<noteq> None
      \<and> valid_optional_text (ws_activeRunId r) 200 \<and> valid_optional_text (ws_activeTaskId r) 200
      \<and> valid_approval (ws_approval r) \<and> valid_last_action (ws_lastAction r) \<and> valid_counters (ws_resources r)
      \<and> valid_iso (ws_createdAt r) \<and> valid_iso (ws_updatedAt r))"

section \<open>The file\<close>

definition read_sessions :: "session_disk \<Rightarrow> work_session list option" where
  "read_sessions d =
     map_option (map (\<lambda>r. r\<lparr>ws_lockedSourceIds := sort (ws_lockedSourceIds r)\<rparr>)) (read_list valid_session d)"

definition max_records :: "int option \<Rightarrow> nat" where
  "max_records configured =
     (let n = (case configured of None \<Rightarrow> 500 | Some m \<Rightarrow> if m = 0 then 500 else m) in nat (max 10 (min n 2000)))"

definition retention_order ::
  "(string \<Rightarrow> string \<Rightarrow> int) \<Rightarrow> (work_session \<Rightarrow> string) \<Rightarrow> work_session \<Rightarrow> work_session \<Rightarrow> int" where
  "retention_order cmp tm a b =
     (if cmp (tm a) (tm b) \<noteq> 0 then cmp (tm a) (tm b) else cmp (ws_sessionId a) (ws_sessionId b))"

definition session_eligible :: "string \<Rightarrow> work_session \<Rightarrow> bool" where
  "session_eligible now s =
     (ws_status s = SessActive
      \<or> newer_than (ws_updatedAt s) now (if ws_status s = SessCompleted then 2 * 3600000 else 7 * 24 * 3600000))"

definition retain_bounded_sessions ::
  "(string \<Rightarrow> string \<Rightarrow> int) \<Rightarrow> string \<Rightarrow> nat \<Rightarrow> work_session list \<Rightarrow> work_session list" where
  "retain_bounded_sessions cmp now n rs =
     (let live = filter (session_eligible now) rs;
          active = slice_last n (js_sort (retention_order cmp ws_updatedAt) (filter (\<lambda>s. ws_status s = SessActive) live));
          inactive = js_sort (retention_order cmp ws_createdAt) (filter (\<lambda>s. ws_status s \<noteq> SessActive) live)
      in if n \<le> length active then active else active @ slice_last (n - length active) inactive)"

text \<open>The lock is tried for 250 milliseconds and a lock file older than 30 seconds is removed: which
  of these happens is the outcome \<open>io_lock\<close>.\<close>

definition with_sessions ::
  "(string \<Rightarrow> string \<Rightarrow> int) \<Rightarrow> int option \<Rightarrow> io_env \<Rightarrow> session_disk
   \<Rightarrow> (work_session list \<Rightarrow> (session_failure + 'a) \<times> work_session list option)
   \<Rightarrow> session_disk \<times> (session_failure + 'a)" where
  "with_sessions cmp configured e d callback =
     (case io_lock e of
        LockBusy \<Rightarrow> (d, Inl SESSION_STORE_BUSY)
      | LockFailed \<Rightarrow> (d, Inl SESSION_STORE_CORRUPT)
      | LockTaken \<Rightarrow>
          (case read_sessions d of
             None \<Rightarrow> (d, Inl SESSION_STORE_CORRUPT)
           | Some rs \<Rightarrow>
               (case callback rs of
                  (answer, None) \<Rightarrow> (d, answer)
                | (answer, Some rs') \<Rightarrow>
                    (let (d', ok) = write_disk e
                           (io_saveNow e, retain_bounded_sessions cmp (io_openNow e) (max_records configured) rs') d
                     in (d', if ok then answer else Inl SESSION_STORE_CORRUPT)))))"

section \<open>Operations\<close>

definition session_with_id :: "string \<Rightarrow> work_session list \<Rightarrow> work_session option" where
  "session_with_id i rs = List.find (\<lambda>r. ws_sessionId r = i) rs"

definition update_session :: "string \<Rightarrow> (work_session \<Rightarrow> work_session) \<Rightarrow> work_session list \<Rightarrow> work_session list" where
  "update_session i f rs = modify_first (\<lambda>r. ws_sessionId r = i) f rs"

text \<open>\<^verbatim>\<open>undefined\<close> stands for the sum when the delta is no safe counter or the sum is not safe.\<close>

definition add_counter :: "int \<Rightarrow> rat option \<Rightarrow> int option" where
  "add_counter current delta =
     (case delta of
        None \<Rightarrow> Some current
      | Some q \<Rightarrow>
          if of_int \<lfloor>q\<rfloor> \<noteq> q \<or> \<not> valid_counter \<lfloor>q\<rfloor> then None
          else if current + \<lfloor>q\<rfloor> \<le> max_safe_integer then Some (current + \<lfloor>q\<rfloor>) else None)"

definition no_delta :: session_delta where
  "no_delta = \<lparr>sd_toolCalls = None, sd_actionRoundTrips = None, sd_packetsCompleted = None, sd_repairAttempts = None,
               sd_validationJobs = None, sd_bytesRead = None, sd_bytesWritten = None\<rparr>"

definition add_counters :: "session_counters \<Rightarrow> session_delta \<Rightarrow> session_counters option" where
  "add_counters c q =
     (case (add_counter (sc_toolCalls c) (sd_toolCalls q), add_counter (sc_actionRoundTrips c) (sd_actionRoundTrips q),
            add_counter (sc_packetsCompleted c) (sd_packetsCompleted q), add_counter (sc_repairAttempts c) (sd_repairAttempts q),
            add_counter (sc_validationJobs c) (sd_validationJobs q), add_counter (sc_bytesRead c) (sd_bytesRead q),
            add_counter (sc_bytesWritten c) (sd_bytesWritten q)) of
        (Some a, Some b, Some x, Some y, Some v, Some r, Some w) \<Rightarrow>
          Some \<lparr>sc_toolCalls = a, sc_actionRoundTrips = b, sc_packetsCompleted = x, sc_repairAttempts = y,
                sc_validationJobs = v, sc_bytesRead = r, sc_bytesWritten = w\<rparr>
      | _ \<Rightarrow> None)"

record create_session_input =
  ci_sessionId :: "string option"
  ci_lockedSourceIds :: "string list"
  ci_activeRunId :: "string option"
  ci_activeTaskId :: "string option"
  ci_now :: "string option"

definition created_session :: "string \<Rightarrow> string list \<Rightarrow> string \<Rightarrow> create_session_input \<Rightarrow> work_session" where
  "created_session sessionId sources timestamp i =
     \<lparr>ws_sessionId = sessionId, ws_revision = 0, ws_status = SessActive, ws_lockedSourceIds = sources,
      ws_activeRunId = ci_activeRunId i, ws_activeTaskId = ci_activeTaskId i,
      ws_approval = \<lparr>sa_status = ApprNone, sa_reasonCode = None, sa_updatedAt = timestamp\<rparr>,
      ws_lastAction = None, ws_resources = empty_counters, ws_createdAt = timestamp, ws_updatedAt = timestamp\<rparr>"

definition create_workbench_session ::
  "(string \<Rightarrow> string \<Rightarrow> int) \<Rightarrow> int option \<Rightarrow> io_env \<Rightarrow> create_session_input
   \<Rightarrow> session_disk \<Rightarrow> session_disk \<times> (session_failure + bool \<times> work_session)" where
  "create_workbench_session cmp configured e i d =
     (let sessionId = or_else (ci_sessionId i) (''session-'' @ io_uuid e);
          timestamp = or_else (ci_now i) (io_bodyNow e)
      in case normalize_locked_sources (ci_lockedSourceIds i) of
           None \<Rightarrow> (d, Inl SESSION_INVALID_INPUT)
         | Some sources \<Rightarrow>
             if \<not> valid_id sessionId \<or> \<not> valid_iso timestamp \<or> \<not> valid_optional_text (ci_activeRunId i) 200
                \<or> \<not> valid_optional_text (ci_activeTaskId i) 200
             then (d, Inl SESSION_INVALID_INPUT)
             else with_sessions cmp configured e d (\<lambda>rs.
               case session_with_id sessionId rs of
                 Some x \<Rightarrow>
                   if ws_lockedSourceIds x \<noteq> sources then (Inl SESSION_SOURCE_DRIFT, None)
                   else if ws_activeRunId x = ci_activeRunId i \<and> ws_activeTaskId x = ci_activeTaskId i
                   then (Inr (False, x), None) else (Inl SESSION_DUPLICATE_CONFLICT, None)
               | None \<Rightarrow>
                   let r = created_session sessionId sources timestamp i
                   in (Inr (True, r), Some (rs @ [r]))))"

definition get_workbench_session :: "string \<Rightarrow> session_disk \<Rightarrow> session_failure + work_session option" where
  "get_workbench_session i d =
     (if \<not> valid_id i then Inl SESSION_INVALID_INPUT
      else case read_sessions d of None \<Rightarrow> Inl SESSION_STORE_CORRUPT | Some rs \<Rightarrow> Inr (session_with_id i rs))"

definition list_workbench_sessions ::
  "string option \<Rightarrow> session_status option \<Rightarrow> session_disk \<Rightarrow> session_failure + work_session list" where
  "list_workbench_sessions sourceId status d =
     (case read_sessions d of
        None \<Rightarrow> Inl SESSION_STORE_CORRUPT
      | Some rs \<Rightarrow>
          Inr (filter (\<lambda>s. (\<not> truthy sourceId \<or> the sourceId \<in> set (ws_lockedSourceIds s))
                         \<and> (status = None \<or> Some (ws_status s) = status)) rs))"

primrec apply_patch :: "'a patched \<Rightarrow> 'a option \<Rightarrow> 'a option" where
  "apply_patch Keep current = current"
| "apply_patch Clear current = None"
| "apply_patch (SetTo v) current = Some v"

definition safe_revision :: "rat \<Rightarrow> bool" where
  "safe_revision q = (of_int \<lfloor>q\<rfloor> = q \<and> 0 \<le> q \<and> \<lfloor>q\<rfloor> \<le> max_safe_integer)"

text \<open>The session that the update leaves, or its refusal.\<close>

definition next_session :: "session_patch \<Rightarrow> work_session \<Rightarrow> session_failure + work_session" where
  "next_session p s =
     (if of_int (ws_revision s) \<noteq> sp_expectedRevision p then Inl SESSION_REVISION_CONFLICT
      else let runId = apply_patch (sp_activeRunId p) (ws_activeRunId s); taskId = apply_patch (sp_activeTaskId p) (ws_activeTaskId s) in
        if \<not> valid_optional_text runId 200 \<or> \<not> valid_optional_text taskId 200 then Inl SESSION_INVALID_INPUT
        else case add_counters (ws_resources s) (case sp_resourceDelta p of None \<Rightarrow> no_delta | Some q \<Rightarrow> q) of
          None \<Rightarrow> Inl SESSION_INVALID_INPUT
        | Some resources \<Rightarrow>
            if \<not> valid_counters resources then Inl SESSION_INVALID_INPUT
            else Inr (s\<lparr>ws_revision := ws_revision s + 1,
                        ws_status := (case sp_newStatus p of None \<Rightarrow> ws_status s | Some st \<Rightarrow> st),
                        ws_activeRunId := runId, ws_activeTaskId := taskId,
                        ws_approval := (case sp_approval p of None \<Rightarrow> ws_approval s
                           | Some (st, reason) \<Rightarrow> \<lparr>sa_status = st, sa_reasonCode = reason, sa_updatedAt = sp_now p\<rparr>),
                        ws_lastAction := apply_patch (sp_lastAction p) (ws_lastAction s),
                        ws_resources := resources, ws_updatedAt := sp_now p\<rparr>))"

definition valid_patch :: "session_patch \<Rightarrow> bool" where
  "valid_patch p =
     (safe_revision (sp_expectedRevision p) \<and> valid_iso (sp_now p)
      \<and> (case sp_approval p of None \<Rightarrow> True | Some (st, reason) \<Rightarrow> valid_optional_text reason 120)
      \<and> (case sp_lastAction p of SetTo a \<Rightarrow> valid_last_action (Some a) | _ \<Rightarrow> True))"

definition update_session_file ::
  "(string \<Rightarrow> string \<Rightarrow> int) \<Rightarrow> int option \<Rightarrow> io_env \<Rightarrow> string \<Rightarrow> session_patch
   \<Rightarrow> session_disk \<Rightarrow> session_disk \<times> (session_failure + work_session)" where
  "update_session_file cmp configured e i p d =
     (if \<not> valid_id i \<or> \<not> valid_patch p then (d, Inl SESSION_INVALID_INPUT)
      else with_sessions cmp configured e d (\<lambda>rs.
        case session_with_id i rs of
          None \<Rightarrow> (Inl SESSION_NOT_FOUND, None)
        | Some s \<Rightarrow>
            (case next_session p s of
               Inl code \<Rightarrow> (Inl code, None)
             | Inr s' \<Rightarrow> (Inr s', Some (update_session i (\<lambda>x. s') rs)))))"

text \<open>
  The files of one machine that completing a session touches. The options object handed on to the
  other two stores carries their own limits; each store has its own lock and clock readings.
\<close>

record session_files =
  sf_sessions :: session_disk
  sf_scheduler :: scheduler_disk
  sf_budget :: budget_disk

definition expire_session_dependents ::
  "(string \<Rightarrow> string \<Rightarrow> int) \<Rightarrow> int option \<Rightarrow> limits_config option \<Rightarrow> io_env \<Rightarrow> io_env \<Rightarrow> string
   \<Rightarrow> session_files \<Rightarrow> session_files \<times> unit option" where
  "expire_session_dependents cmp maxRequests limits e1 e2 i fs =
     (let (sched, cancelled) = cancel_session_scheduler_requests cmp maxRequests e1 i (sf_scheduler fs);
          (budget, expired) = expire_session_budget_leases limits e2 i (sf_budget fs)
      in (fs\<lparr>sf_scheduler := sched, sf_budget := budget\<rparr>, map_option (\<lambda>a. ()) expired))"

text \<open>\<open>None\<close> is an exception, which only the budget store lets through.\<close>

definition update_workbench_session ::
  "(string \<Rightarrow> string \<Rightarrow> int) \<Rightarrow> int option \<Rightarrow> int option \<Rightarrow> limits_config option \<Rightarrow> io_env \<Rightarrow> io_env \<Rightarrow> io_env
   \<Rightarrow> string \<Rightarrow> session_patch \<Rightarrow> session_files \<Rightarrow> session_files \<times> (session_failure + work_session) option" where
  "update_workbench_session cmp configured maxRequests limits e e1 e2 i p fs =
     (let (d', answer) = update_session_file cmp configured e i p (sf_sessions fs); fs' = fs\<lparr>sf_sessions := d'\<rparr> in
      case answer of
        Inl code \<Rightarrow> (fs', Some (Inl code))
      | Inr s \<Rightarrow>
          if sp_newStatus p = Some SessCompleted
          then case expire_session_dependents cmp maxRequests limits e1 e2 i fs' of
                 (fs'', None) \<Rightarrow> (fs'', None)
               | (fs'', Some u) \<Rightarrow> (fs'', Some (Inr s))
          else (fs', Some (Inr s)))"

definition recover_workbench_sessions :: "session_disk \<Rightarrow> session_failure + work_session list" where
  "recover_workbench_sessions d =
     (case read_sessions d of
        None \<Rightarrow> Inl SESSION_STORE_CORRUPT | Some rs \<Rightarrow> Inr (filter (\<lambda>s. ws_status s \<noteq> SessCompleted) rs))"

text \<open>The answer counts the sessions scanned, deleted and the active ones retained.\<close>

definition prune_workbench_sessions ::
  "(string \<Rightarrow> string \<Rightarrow> int) \<Rightarrow> int option \<Rightarrow> io_env \<Rightarrow> session_disk
   \<Rightarrow> session_disk \<times> (session_failure + nat \<times> nat \<times> nat)" where
  "prune_workbench_sessions cmp configured e d =
     with_sessions cmp configured e d (\<lambda>rs.
       let kept = retain_bounded_sessions cmp (io_bodyNow e) (max_records configured) rs
       in (Inr (length rs, length rs - length kept, length (filter (\<lambda>s. ws_status s = SessActive) kept)),
           if length kept \<noteq> length rs then Some kept else None))"

text \<open>\<^verbatim>\<open>enqueueRepositoryWork\<close> on the two files: it looks the session up without its lock.\<close>

definition session_sources :: "string \<Rightarrow> session_disk \<Rightarrow> string list option" where
  "session_sources i d =
     (case get_workbench_session i d of Inr (Some s) \<Rightarrow> Some (ws_lockedSourceIds s) | _ \<Rightarrow> None)"

definition enqueue_session_work ::
  "(string \<Rightarrow> string \<Rightarrow> int) \<Rightarrow> int option \<Rightarrow> io_env \<Rightarrow> enqueue_input \<Rightarrow> session_files
   \<Rightarrow> session_files \<times> (scheduler_failure + bool \<times> schedule_request)" where
  "enqueue_session_work cmp configured e i fs =
     (let (d', answer) = enqueue_repository_work cmp configured (session_sources (eq_sessionId i) (sf_sessions fs)) e i
                           (sf_scheduler fs)
      in (fs\<lparr>sf_scheduler := d'\<rparr>, answer))"

section \<open>What the retention and the lock keep\<close>

lemma retained_part: "mset (retain_bounded_sessions cmp now n rs) \<subseteq># mset rs"
proof -
  let ?live = "filter (session_eligible now) rs"
  let ?active = "js_sort (retention_order cmp ws_updatedAt) (filter (\<lambda>s. ws_status s = SessActive) ?live)"
  let ?rest = "js_sort (retention_order cmp ws_createdAt) (filter (\<lambda>s. \<not> ws_status s = SessActive) ?live)"
  have "mset ?active + mset ?rest = mset ?live" by (simp only: mset_js_sort mset_filter_split)
  moreover have "mset ?live \<subseteq># mset rs" by (simp add: multiset_filter_subset)
  ultimately have all: "mset ?active + mset ?rest \<subseteq># mset rs" by (simp only:)
  have "mset (slice_last n ?active) + mset (slice_last k ?rest) \<subseteq># mset rs" for k
    by (rule subset_mset.order_trans [OF subset_mset.add_mono [OF mset_slice_last mset_slice_last] all])
  moreover have "mset (slice_last n ?active) \<subseteq># mset rs"
    using subset_mset.order_trans [OF mset_slice_last subset_mset.order_trans [OF mset_subset_eq_add_left all]] .
  ultimately show ?thesis
    unfolding retain_bounded_sessions_def Let_def by (simp only: mset_append split: if_split) blast
qed

lemma retained_length: "0 < n \<Longrightarrow> length (retain_bounded_sessions cmp now n rs) \<le> n"
  by (auto simp: retain_bounded_sessions_def Let_def length_slice_last)

lemma retained_all_active:
  assumes "length (filter (\<lambda>s. ws_status s = SessActive) rs) \<le> n" "s \<in> set rs" "ws_status s = SessActive"
  shows "s \<in> set (retain_bounded_sessions cmp now n rs)"
proof -
  let ?active = "filter (\<lambda>s. ws_status s = SessActive) (filter (session_eligible now) rs)"
  have "?active = filter (\<lambda>s. ws_status s = SessActive) rs"
    by (auto simp: session_eligible_def intro: filter_cong)
  with assms show ?thesis by (simp add: retain_bounded_sessions_def Let_def slice_last_id)
qed

interpretation session_list: bounded_list "retain_bounded_sessions cmp now n"
  by unfold_locales (rule retained_part)

lemma max_records_pos: "0 < max_records c"
  by (simp add: max_records_def Let_def)

lemma with_sessions_Inr:
  assumes "with_sessions cmp c e d callback = (d', Inr a)"
  obtains rs where "read_sessions d = Some rs" "io_lock e = LockTaken"
    "\<exists>saved. callback rs = (Inr a, saved)
       \<and> d' = (case saved of None \<Rightarrow> d
               | Some rs' \<Rightarrow> Stored (io_saveNow e, retain_bounded_sessions cmp (io_openNow e) (max_records c) rs'))"
  using assms that
  by (force simp: with_sessions_def write_disk_def
      split: lock_outcome.splits option.splits write_outcome.splits prod.splits)

lemma with_sessions_cases:
  obtains "fst (with_sessions cmp c e d callback) = d"
  | rs answer rs' where "read_sessions d = Some rs" "callback rs = (answer, Some rs')"
      "fst (with_sessions cmp c e d callback)
         = Stored (io_saveNow e, retain_bounded_sessions cmp (io_openNow e) (max_records c) rs')"
  by (cases "fst (with_sessions cmp c e d callback) = d")
     (auto simp: with_sessions_def write_disk_def
        split: lock_outcome.splits option.splits write_outcome.splits prod.splits)

section \<open>The store as a machine\<close>

datatype session_op =
    CreateSession "int option" io_env create_session_input
  | UpdateSession "int option" io_env string session_patch
  | PruneSessions "int option" io_env

primrec session_step :: "(string \<Rightarrow> string \<Rightarrow> int) \<Rightarrow> session_disk \<Rightarrow> session_op \<Rightarrow> session_disk" where
  "session_step cmp d (CreateSession c e i) = fst (create_workbench_session cmp c e i d)"
| "session_step cmp d (UpdateSession c e i p) = fst (update_session_file cmp c e i p d)"
| "session_step cmp d (PruneSessions c e) = fst (prune_workbench_sessions cmp c e d)"

text \<open>How a session changes: it stays as it is, up to the order of its sources, or its revision
  grows; its identity, its sources and its creation never change and its counters never fall.\<close>

definition counters_grow :: "session_counters \<Rightarrow> session_counters \<Rightarrow> bool" where
  "counters_grow a b = list_all2 (\<le>) (counter_list a) (counter_list b)"

definition session_grows :: "work_session \<Rightarrow> work_session \<Rightarrow> bool" where
  "session_grows a b =
     (ws_sessionId b = ws_sessionId a \<and> set (ws_lockedSourceIds b) = set (ws_lockedSourceIds a)
      \<and> ws_createdAt b = ws_createdAt a \<and> ws_revision a \<le> ws_revision b
      \<and> (ws_revision b = ws_revision a \<longrightarrow> b\<lparr>ws_lockedSourceIds := []\<rparr> = a\<lparr>ws_lockedSourceIds := []\<rparr>)
      \<and> counters_grow (ws_resources a) (ws_resources b))"

lemma counters_grow_refl [simp]: "counters_grow a a"
  by (simp add: counters_grow_def list_all2_refl)

lemma session_grows_refl [simp]: "session_grows s s"
  by (simp add: session_grows_def)

lemma session_grows_trans: "session_grows a b \<Longrightarrow> session_grows b c \<Longrightarrow> session_grows a c"
  by (auto simp: session_grows_def counters_grow_def counter_list_def)

lemma add_counter_grows: "add_counter n q = Some m \<Longrightarrow> n \<le> m"
  by (auto simp: add_counter_def valid_counter_def split: option.splits if_splits)

lemma add_counters_grow: "add_counters c q = Some c' \<Longrightarrow> counters_grow c c'"
  by (auto simp: add_counters_def counters_grow_def counter_list_def add_counter_grows split: option.splits)

lemma next_session_Inr:
  assumes "next_session p s = Inr s'"
  shows "of_int (ws_revision s) = sp_expectedRevision p \<and> ws_revision s' = ws_revision s + 1
    \<and> ws_sessionId s' = ws_sessionId s \<and> ws_lockedSourceIds s' = ws_lockedSourceIds s
    \<and> ws_createdAt s' = ws_createdAt s \<and> counters_grow (ws_resources s) (ws_resources s')
    \<and> valid_counters (ws_resources s') \<and> ws_updatedAt s' = sp_now p
    \<and> ws_status s' = (case sp_newStatus p of None \<Rightarrow> ws_status s | Some st \<Rightarrow> st)"
  using assms by (auto simp: next_session_def Let_def add_counters_grow split: if_splits option.splits)

lemma next_session_grows: "next_session p s = Inr s' \<Longrightarrow> session_grows s s'"
  by (auto simp: session_grows_def dest!: next_session_Inr)

text \<open>What a step does to the list it reads: nothing that is kept, one new session, or the change of one.\<close>

definition new_session :: "work_session \<Rightarrow> bool" where
  "new_session r =
     (ws_revision r = 0 \<and> ws_status r = SessActive \<and> ws_resources r = empty_counters \<and> ws_updatedAt r = ws_createdAt r
      \<and> valid_session r \<and> sorted (ws_lockedSourceIds r) \<and> distinct (ws_lockedSourceIds r))"

lemma normalize_Some:
  assumes "normalize_locked_sources v = Some u"
  shows "u = sort v \<and> v \<noteq> [] \<and> length v \<le> 32 \<and> list_all valid_id v \<and> distinct v"
proof -
  from assms have u: "u = sort (uniq v)" "length (uniq v) = length v" "v \<noteq> []" "length v \<le> 32" "list_all valid_id v"
    unfolding normalize_locked_sources_def Let_def by (auto split: if_splits)
  have "card (set v) = length v" using u(2) by (metis distinct_card distinct_uniq set_uniq)
  then have "distinct v" by (rule card_distinct)
  with u show ?thesis by simp
qed

lemma normalize_sort: "normalize_locked_sources v \<noteq> None \<Longrightarrow> normalize_locked_sources (sort v) \<noteq> None"
proof -
  assume "normalize_locked_sources v \<noteq> None"
  then obtain u where "normalize_locked_sources v = Some u" by blast
  from normalize_Some [OF this] have v: "v \<noteq> []" "length v \<le> 32" "list_all valid_id v" "distinct v" by blast+
  from v(1) have "sort v \<noteq> []" by (metis length_0_conv length_sort)
  with v show ?thesis by (simp add: normalize_locked_sources_def list_all_iff)
qed

lemma session_with_id_Some: "session_with_id i rs = Some s \<Longrightarrow> s \<in> set rs \<and> ws_sessionId s = i"
  by (auto simp: session_with_id_def dest: find_Some_iff_in)

lemma with_sessions_changed:
  assumes "fst (with_sessions cmp c e d callback) \<noteq> d"
  obtains rs answer rs' where "read_sessions d = Some rs" "callback rs = (answer, Some rs')"
      "fst (with_sessions cmp c e d callback)
         = Stored (io_saveNow e, retain_bounded_sessions cmp (io_openNow e) (max_records c) rs')"
  by (rule with_sessions_cases [of cmp c e d callback]) (use assms that in blast)+

lemma new_created:
  assumes "normalize_locked_sources v = Some sources" "valid_id i" "valid_iso t"
    "valid_optional_text (ci_activeRunId inp) 200" "valid_optional_text (ci_activeTaskId inp) 200"
  shows "new_session (created_session i sources t inp)"
proof -
  have "normalize_locked_sources sources \<noteq> None"
    using assms(1) normalize_sort [of v] by (auto dest: normalize_Some)
  then show ?thesis
    using assms normalize_Some [OF assms(1)]
    by (simp add: new_session_def created_session_def valid_session_def valid_approval_def valid_last_action_def
        valid_counters_def counter_list_def valid_counter_def empty_counters_def max_safe_integer_def
        valid_optional_text_def)
qed

lemma create_changed:
  assumes "fst (create_workbench_session cmp c e i d) \<noteq> d"
  obtains rs r where "read_sessions d = Some rs" "new_session r" "session_with_id (ws_sessionId r) rs = None"
    "ws_sessionId r = or_else (ci_sessionId i) (''session-'' @ io_uuid e)"
    "fst (create_workbench_session cmp c e i d)
       = Stored (io_saveNow e, retain_bounded_sessions cmp (io_openNow e) (max_records c) (rs @ [r]))"
proof -
  define j where "j = or_else (ci_sessionId i) (''session-'' @ io_uuid e)"
  define t where "t = or_else (ci_now i) (io_bodyNow e)"
  from assms obtain sources where src: "normalize_locked_sources (ci_lockedSourceIds i) = Some sources"
    by (cases "normalize_locked_sources (ci_lockedSourceIds i)") (simp_all add: create_workbench_session_def Let_def)
  have ok: "valid_id j" "valid_iso t" "valid_optional_text (ci_activeRunId i) 200" "valid_optional_text (ci_activeTaskId i) 200"
    using assms unfolding create_workbench_session_def Let_def j_def [symmetric] t_def [symmetric]
    by (auto simp: src split: if_splits)
  define cb where "cb = (\<lambda>rs. case session_with_id j rs of
       Some x \<Rightarrow>
         if ws_lockedSourceIds x \<noteq> sources then (Inl SESSION_SOURCE_DRIFT, None)
         else if ws_activeRunId x = ci_activeRunId i \<and> ws_activeTaskId x = ci_activeTaskId i
         then (Inr (False, x), None) else (Inl SESSION_DUPLICATE_CONFLICT, None)
     | None \<Rightarrow> (Inr (True, created_session j sources t i), Some (rs @ [created_session j sources t i])))"
  have eq: "create_workbench_session cmp c e i d = with_sessions cmp c e d cb"
    using ok src unfolding create_workbench_session_def Let_def j_def [symmetric] t_def [symmetric] cb_def by simp
  from assms [unfolded eq] obtain rs answer rs' where rs: "read_sessions d = Some rs" "cb rs = (answer, Some rs')"
    "fst (with_sessions cmp c e d cb)
       = Stored (io_saveNow e, retain_bounded_sessions cmp (io_openNow e) (max_records c) rs')"
    by (rule with_sessions_changed)
  from rs(2) have "session_with_id j rs = None \<and> rs' = rs @ [created_session j sources t i]"
    by (auto simp: cb_def split: option.splits if_splits)
  with rs eq show thesis
    by (intro that [OF rs(1) new_created [OF src ok]]) (simp_all add: created_session_def j_def)
qed

lemma update_changed:
  assumes "fst (update_session_file cmp c e i p d) \<noteq> d"
  obtains rs s s' where "read_sessions d = Some rs" "session_with_id i rs = Some s" "next_session p s = Inr s'" "valid_patch p"
    "fst (update_session_file cmp c e i p d)
       = Stored (io_saveNow e, retain_bounded_sessions cmp (io_openNow e) (max_records c) (update_session i (\<lambda>x. s') rs))"
proof -
  define cb where "cb = (\<lambda>rs. case session_with_id i rs of
       None \<Rightarrow> (Inl SESSION_NOT_FOUND, None)
     | Some s \<Rightarrow> (case next_session p s of Inl code \<Rightarrow> (Inl code, None)
         | Inr s' \<Rightarrow> (Inr s', Some (update_session i (\<lambda>x. s') rs))))"
  have ok: "valid_patch p" and eq: "update_session_file cmp c e i p d = with_sessions cmp c e d cb"
    using assms by (auto simp: update_session_file_def cb_def split: if_splits)
  from assms [unfolded eq] obtain rs answer rs' where rs: "read_sessions d = Some rs" "cb rs = (answer, Some rs')"
    "fst (with_sessions cmp c e d cb)
       = Stored (io_saveNow e, retain_bounded_sessions cmp (io_openNow e) (max_records c) rs')"
    by (rule with_sessions_changed)
  from rs(2) obtain s where s: "session_with_id i rs = Some s" by (cases "session_with_id i rs") (simp_all add: cb_def)
  with rs(2) obtain s' where s': "next_session p s = Inr s'" by (cases "next_session p s") (simp_all add: cb_def)
  have "rs' = update_session i (\<lambda>x. s') rs" using rs(2) s s' by (simp add: cb_def)
  with rs eq ok s s' show thesis by (intro that [OF rs(1)]) simp_all
qed

lemma prune_changed:
  assumes "fst (prune_workbench_sessions cmp c e d) \<noteq> d"
  obtains rs where "read_sessions d = Some rs"
    "fst (prune_workbench_sessions cmp c e d)
       = Stored (io_saveNow e, retain_bounded_sessions cmp (io_openNow e) (max_records c)
                   (retain_bounded_sessions cmp (io_bodyNow e) (max_records c) rs))"
  using assms unfolding prune_workbench_sessions_def Let_def
  by (elim with_sessions_changed) (auto split: if_splits)

section \<open>The invariants\<close>

definition session_ok :: "int \<Rightarrow> work_session \<Rightarrow> bool" where
  "session_ok n r = (valid_session r \<and> ws_revision r \<le> n)"

definition sessions_ok :: "int \<Rightarrow> session_disk \<Rightarrow> bool" where
  "sessions_ok n d = (d \<noteq> BadFile \<and> on_file (list_all (session_ok n)) d)"

lemma sessions_ok_read: "sessions_ok n d \<Longrightarrow> read_sessions d \<noteq> None"
  by (cases d) (auto simp: sessions_ok_def on_file_def read_sessions_def read_list_def list_all_iff session_ok_def)

lemma valid_session_sorted:
  "valid_session r \<Longrightarrow> valid_session (r\<lparr>ws_lockedSourceIds := sort (ws_lockedSourceIds r)\<rparr>)"
  unfolding valid_session_def by (simp add: normalize_sort)

lemma read_sessions_ok:
  "sessions_ok n d \<Longrightarrow> read_sessions d = Some rs \<Longrightarrow> list_all (session_ok n) rs"
  by (cases d) (auto simp: sessions_ok_def on_file_def read_sessions_def read_list_def list_all_iff session_ok_def
      valid_session_sorted split: if_splits)

lemma apply_patch_text:
  "valid_optional_text (apply_patch q v) n \<longleftrightarrow>
     (case q of Keep \<Rightarrow> valid_optional_text v n | Clear \<Rightarrow> True | SetTo x \<Rightarrow> valid_optional_text (Some x) n)"
  by (cases q) (simp_all add: valid_optional_text_def)

lemma next_session_valid:
  assumes "next_session p s = Inr s'" "valid_patch p" "valid_session s" "ws_revision s < max_safe_integer"
  shows "valid_session s'"
proof -
  have "valid_last_action (apply_patch (sp_lastAction p) (ws_lastAction s))"
    using assms(2,3) by (cases "sp_lastAction p") (simp_all add: valid_patch_def valid_session_def valid_last_action_def)
  moreover have "valid_approval (case sp_approval p of None \<Rightarrow> ws_approval s
      | Some (st, reason) \<Rightarrow> \<lparr>sa_status = st, sa_reasonCode = reason, sa_updatedAt = sp_now p\<rparr>)"
    using assms(2,3) by (cases "sp_approval p") (auto simp: valid_patch_def valid_session_def valid_approval_def)
  ultimately show ?thesis
    using assms by (auto simp: next_session_def Let_def valid_session_def valid_patch_def split: if_splits option.splits)
qed

lemma sessions_ok_write:
  "list_all (session_ok m) rs \<Longrightarrow> sessions_ok m (Stored (t, retain_bounded_sessions cmp now k rs))"
  using session_list.set_keep [of cmp now k rs] by (auto simp: sessions_ok_def list_all_iff)

lemma sessions_ok_mono: "sessions_ok n d \<Longrightarrow> n \<le> m \<Longrightarrow> sessions_ok m d"
  unfolding sessions_ok_def by (fastforce elim!: on_file_mono simp: list_all_iff session_ok_def)

lemma session_step_ok:
  assumes "sessions_ok n d" "0 \<le> n" "n < max_safe_integer"
  shows "sessions_ok (n + 1) (session_step cmp d a)"
proof (cases "session_step cmp d a = d")
  case True
  then show ?thesis using sessions_ok_mono [OF assms(1), of "n + 1"] by simp
next
  case False
  have rs: "list_all (session_ok n) rs \<and> list_all (session_ok (n + 1)) rs" if "read_sessions d = Some rs" for rs
    using read_sessions_ok [OF assms(1) that] by (auto simp: list_all_iff session_ok_def)
  show ?thesis
  proof (cases a)
    case (CreateSession c e i)
    have "fst (create_workbench_session cmp c e i d) \<noteq> d" using False by (simp add: CreateSession)
    then obtain xs r where x: "read_sessions d = Some xs" "new_session r"
      "fst (create_workbench_session cmp c e i d)
         = Stored (io_saveNow e, retain_bounded_sessions cmp (io_openNow e) (max_records c) (xs @ [r]))"
      by (rule create_changed) blast
    then have "list_all (session_ok (n + 1)) (xs @ [r])"
      using rs [OF x(1)] assms(2) by (simp add: new_session_def session_ok_def)
    then show ?thesis using x(3) by (simp add: CreateSession sessions_ok_write)
  next
    case (UpdateSession c e i p)
    have "fst (update_session_file cmp c e i p d) \<noteq> d" using False by (simp add: UpdateSession)
    then obtain xs s s' where x: "read_sessions d = Some xs" "session_with_id i xs = Some s" "next_session p s = Inr s'"
      "valid_patch p" "fst (update_session_file cmp c e i p d)
         = Stored (io_saveNow e, retain_bounded_sessions cmp (io_openNow e) (max_records c) (update_session i (\<lambda>x. s') xs))"
      by (rule update_changed)
    have s: "session_ok n s" using rs [OF x(1)] session_with_id_Some [OF x(2)] by (auto simp: list_all_iff)
    then have "session_ok (n + 1) s'"
      using next_session_valid [OF x(3,4)] next_session_Inr [OF x(3)] assms(3) by (simp add: session_ok_def)
    then have "list_all (session_ok (n + 1)) (update_session i (\<lambda>x. s') xs)"
      using rs [OF x(1)] by (auto simp: list_all_iff update_session_def dest!: set_modify_first)
    then show ?thesis using x(5) by (simp add: UpdateSession sessions_ok_write)
  next
    case (PruneSessions c e)
    have "fst (prune_workbench_sessions cmp c e d) \<noteq> d" using False by (simp add: PruneSessions)
    then obtain xs where x: "read_sessions d = Some xs"
      "fst (prune_workbench_sessions cmp c e d)
         = Stored (io_saveNow e, retain_bounded_sessions cmp (io_openNow e) (max_records c)
                     (retain_bounded_sessions cmp (io_bodyNow e) (max_records c) xs))"
      by (rule prune_changed)
    have "list_all (session_ok (n + 1)) (retain_bounded_sessions cmp (io_bodyNow e) (max_records c) xs)"
      using rs [OF x(1)] session_list.set_keep by (fastforce simp: list_all_iff)
    then show ?thesis using x(2) by (simp add: PruneSessions sessions_ok_write)
  qed
qed

lemma session_run_ok:
  "int (length ops) \<le> max_safe_integer \<Longrightarrow> sessions_ok (int (length ops)) (foldl (session_step cmp) NoFile ops)"
proof (induction ops rule: rev_induct)
  case Nil
  show ?case by (simp add: sessions_ok_def)
next
  case (snoc a ops)
  then show ?case using session_step_ok [of "int (length ops)"] by (simp add: add.commute)
qed

text \<open>One step on the list of a file: each session of the new list grew out of one of the old, or is new.\<close>

primrec creates :: "session_op \<Rightarrow> string option" where
  "creates (CreateSession c e i) = Some (or_else (ci_sessionId i) (''session-'' @ io_uuid e))"
| "creates (UpdateSession c e i p) = None"
| "creates (PruneSessions c e) = None"

definition sessions_follow :: "session_op \<Rightarrow> work_session list \<Rightarrow> work_session list \<Rightarrow> bool" where
  "sessions_follow a xs ys =
     list_all (\<lambda>y. list_ex (\<lambda>x. session_grows x y) xs
                   \<or> (new_session y \<and> creates a = Some (ws_sessionId y) \<and> ws_sessionId y \<notin> ws_sessionId ` set xs)) ys"

definition file_sessions :: "session_disk \<Rightarrow> work_session list" where
  "file_sessions d = (case d of Stored (t, rs) \<Rightarrow> rs | _ \<Rightarrow> [])"

lemma read_file_sessions:
  "read_sessions d = Some rs \<Longrightarrow> rs = map (\<lambda>r. r\<lparr>ws_lockedSourceIds := sort (ws_lockedSourceIds r)\<rparr>) (file_sessions d)"
  by (cases d) (auto simp: read_sessions_def read_list_def file_sessions_def split: if_splits)

lemma follow_read: "read_sessions d = Some rs \<Longrightarrow> r \<in> set rs \<Longrightarrow> list_ex (\<lambda>x. session_grows x r) (file_sessions d)"
  unfolding list_ex_iff session_grows_def by (drule read_file_sessions) fastforce

lemma read_ids: "read_sessions d = Some rs \<Longrightarrow> map ws_sessionId rs = map ws_sessionId (file_sessions d)"
  by (auto dest!: read_file_sessions)

lemma session_step_follows:
  assumes "distinct (map ws_sessionId (file_sessions d))"
  shows "distinct (map ws_sessionId (file_sessions (session_step cmp d a)))
       \<and> sessions_follow a (file_sessions d) (file_sessions (session_step cmp d a))"
proof (cases "session_step cmp d a = d")
  case True
  have "sessions_follow a xs xs" for xs by (auto simp: sessions_follow_def list_all_iff list_ex_iff intro: session_grows_refl)
  with True assms show ?thesis by simp
next
  case False
  have kept: "distinct (map ws_sessionId (retain_bounded_sessions cmp now k ys))
      \<and> sessions_follow a xs (retain_bounded_sessions cmp now k ys)"
    if "distinct (map ws_sessionId ys)" "sessions_follow a xs ys" for xs ys now k
    using session_list.distinct_keep [OF that(1)] session_list.set_keep [of cmp now k ys] that(2)
    by (auto simp: sessions_follow_def list_all_iff)
  have ids: "distinct (map ws_sessionId rs) \<and> sessions_follow a (file_sessions d) rs" if "read_sessions d = Some rs" for rs
    using assms read_ids [OF that] follow_read [OF that] by (auto simp: sessions_follow_def list_all_iff)
  have stored [simp]: "file_sessions (Stored (t, rs)) = rs" for t rs by (simp add: file_sessions_def)
  show ?thesis
  proof (cases a)
    case (CreateSession c e i)
    have "fst (create_workbench_session cmp c e i d) \<noteq> d" using False by (simp add: CreateSession)
    then obtain xs r where x: "read_sessions d = Some xs" "new_session r" "session_with_id (ws_sessionId r) xs = None"
      "ws_sessionId r = or_else (ci_sessionId i) (''session-'' @ io_uuid e)"
      "fst (create_workbench_session cmp c e i d)
         = Stored (io_saveNow e, retain_bounded_sessions cmp (io_openNow e) (max_records c) (xs @ [r]))"
      by (rule create_changed)
    have "ws_sessionId r \<notin> ws_sessionId ` set xs"
      using x(3) by (force simp: session_with_id_def find_None_iff)
    moreover have "ws_sessionId ` set xs = ws_sessionId ` set (file_sessions d)"
      using arg_cong [OF read_ids [OF x(1)], of set] by simp
    ultimately have "distinct (map ws_sessionId (xs @ [r])) \<and> sessions_follow a (file_sessions d) (xs @ [r])"
      using ids [OF x(1)] x(2,4) by (simp add: sessions_follow_def CreateSession)
    then show ?thesis using kept [of "xs @ [r]" "file_sessions d"] x(5) by (simp add: CreateSession)
  next
    case (UpdateSession c e i p)
    have "fst (update_session_file cmp c e i p d) \<noteq> d" using False by (simp add: UpdateSession)
    then obtain xs s s' where x: "read_sessions d = Some xs" "session_with_id i xs = Some s" "next_session p s = Inr s'"
      "fst (update_session_file cmp c e i p d)
         = Stored (io_saveNow e, retain_bounded_sessions cmp (io_openNow e) (max_records c) (update_session i (\<lambda>x. s') xs))"
      by (rule update_changed)
    have s: "s \<in> set xs" "ws_sessionId s' = i" using session_with_id_Some [OF x(2)] next_session_Inr [OF x(3)] by simp_all
    have "map ws_sessionId (update_session i (\<lambda>x. s') xs) = map ws_sessionId xs"
      unfolding update_session_def by (rule map_modify_first_keyed [OF x(2) [unfolded session_with_id_def] s(2)])
    moreover have "list_ex (\<lambda>y. session_grows y s') (file_sessions d)"
      using follow_read [OF x(1) s(1)] next_session_grows [OF x(3)] by (auto simp: list_ex_iff intro: session_grows_trans)
    then have "sessions_follow a (file_sessions d) (update_session i (\<lambda>x. s') xs)"
      using ids [OF x(1)] by (auto simp: sessions_follow_def list_all_iff update_session_def dest!: set_modify_first)
    ultimately show ?thesis using kept [of "update_session i (\<lambda>x. s') xs" "file_sessions d"] ids [OF x(1)] x(4)
      by (simp add: UpdateSession)
  next
    case (PruneSessions c e)
    have "fst (prune_workbench_sessions cmp c e d) \<noteq> d" using False by (simp add: PruneSessions)
    then obtain xs where x: "read_sessions d = Some xs"
      "fst (prune_workbench_sessions cmp c e d)
         = Stored (io_saveNow e, retain_bounded_sessions cmp (io_openNow e) (max_records c)
                     (retain_bounded_sessions cmp (io_bodyNow e) (max_records c) xs))"
      by (rule prune_changed)
    have "distinct (map ws_sessionId xs)" "sessions_follow a (file_sessions d) xs" using ids [OF x(1)] by simp_all
    note kept [OF this]
    then show ?thesis
      using kept [of "retain_bounded_sessions cmp (io_bodyNow e) (max_records c) xs" "file_sessions d"] x(2)
      by (simp add: PruneSessions)
  qed
qed

lemma session_run_distinct: "distinct (map ws_sessionId (file_sessions (foldl (session_step cmp) NoFile ops)))"
  by (induction ops rule: rev_induct) (simp add: file_sessions_def, simp add: session_step_follows)

section \<open>What completing a session leaves in the other stores\<close>

lemma recover_terminal: "terminal r \<Longrightarrow> time_out_queued now (requeue_expired now r) = r"
  by (auto simp: terminal_def time_out_queued_def requeue_expired_def)

lemma recover_session: "sq_sessionId (time_out_queued now (requeue_expired now r)) = sq_sessionId r"
  by (simp add: time_out_queued_def requeue_expired_def clear_lease_def)

definition session_ended :: "string \<Rightarrow> string \<Rightarrow> schedule_request list \<Rightarrow> bool" where
  "session_ended t i rs = list_all (\<lambda>r. sq_sessionId r = i \<longrightarrow> terminal r) (open_store t rs)"

lemma session_ended_closed: "list_all (\<lambda>r. sq_sessionId r = i \<longrightarrow> terminal r) rs \<Longrightarrow> session_ended t i rs"
  unfolding session_ended_def open_store_def prune_terminal_entries_def recover_expired_leases_def
  by (auto simp: list_all_iff recover_session recover_terminal)

lemma all_changed: "x \<in> set (map f xs) \<Longrightarrow> (\<And>y. P (f y)) \<Longrightarrow> P x"
  by auto

lemma read_store_content: "read_store d = Some rs \<Longrightarrow> d = NoFile \<or> (\<exists>u. d = Stored (u, rs))"
  by (cases d) (auto simp: read_store_def split: if_splits)

lemma read_budget_content: "read_budget c d = Some s \<Longrightarrow> d = NoFile \<or> d = Stored s"
  by (cases d) (auto simp: read_budget_def split: if_splits)

lemma on_file_content: "d = NoFile \<or> (\<exists>u. d = Stored (u, rs)) \<Longrightarrow> P rs \<Longrightarrow> on_file P d"
  by auto

lemma cancel_session_clears:
  assumes "cancel_session_scheduler_requests cmp c e i d = (d', Inr ids)"
  shows "on_file (session_ended (io_openNow e) i) d'"
proof -
  let ?hit = "\<lambda>r. sq_sessionId r = i \<and> \<not> terminal r"
  let ?change = "\<lambda>r. if ?hit r then cancel_request (io_bodyNow e) r else r"
  define cb where "cb = (\<lambda>rs. let cancelled = map sq_requestId (filter ?hit rs)
      in Some (Inr cancelled :: scheduler_failure + string list, if cancelled \<noteq> [] then Some (map ?change rs) else None))"
  have "with_store cmp c e d cb = (d', Inr ids)"
    using assms unfolding cancel_session_scheduler_requests_def Let_def cb_def by (simp split: if_splits)
  then obtain rs where rs: "read_store d = Some rs" and "\<exists>saved. cb (open_store (io_openNow e) rs) = Some (Inr ids, saved)
       \<and> d' = (case saved of None \<Rightarrow> d | Some rs' \<Rightarrow> Stored (io_saveNow e, retained cmp c rs'))"
    by (rule with_store_Inr)
  then obtain saved where d': "d' = (case saved of None \<Rightarrow> d | Some rs' \<Rightarrow> Stored (io_saveNow e, retained cmp c rs'))"
    and "cb (open_store (io_openNow e) rs) = Some (Inr ids, saved)" by blast
  then have saved: "saved = (if filter ?hit (open_store (io_openNow e) rs) \<noteq> []
        then Some (map ?change (open_store (io_openNow e) rs)) else None)"
    unfolding cb_def Let_def by (simp del: filter_empty_conv)
  show ?thesis
  proof (cases "filter ?hit (open_store (io_openNow e) rs) = []")
    case True
    then have "session_ended (io_openNow e) i rs" by (auto simp: session_ended_def list_all_iff filter_empty_conv)
    then have "on_file (session_ended (io_openNow e) i) d"
      by (rule on_file_content [OF read_store_content [OF rs]])
    moreover have "saved = None" using True saved by simp
    ultimately show ?thesis unfolding d' by (simp only: option.case)
  next
    case False
    let ?rs' = "retained cmp c (map ?change (open_store (io_openNow e) rs))"
    have change: "sq_sessionId (?change y) = i \<longrightarrow> terminal (?change y)" for y
      by (simp add: cancel_request_def clear_lease_def terminal_def)
    have closed: "sq_sessionId x = i \<longrightarrow> terminal x" if x: "x \<in> set ?rs'" for x
      by (rule all_changed [OF subsetD [OF set_submset [OF mset_retained] x], where P = "\<lambda>x. sq_sessionId x = i \<longrightarrow> terminal x"])
         (rule change)
    have "session_ended (io_openNow e) i ?rs'"
      by (rule session_ended_closed) (use closed in \<open>simp only: list_all_iff, blast\<close>)
    with False saved d' show ?thesis by simp
  qed
qed

definition budget_ended :: "string \<Rightarrow> string \<Rightarrow> budget_disk \<Rightarrow> bool" where
  "budget_ended t i d =
     (case d of Stored s \<Rightarrow> list_all (\<lambda>l. gl_sessionId l = i \<longrightarrow> gl_status l \<noteq> BudgetActive) (gs_leases (open_budget t s))
      | _ \<Rightarrow> True)"

lemma open_active: "l \<in> set (gs_leases (open_budget t s)) \<Longrightarrow> gl_status l = BudgetActive \<Longrightarrow> l \<in> set (gs_leases s)"
  by (auto simp: open_budget_def prune_terminal_leases_def expire_leases_def expire_lease_def split: if_splits)

lemma expire_session_clears:
  assumes "expire_session_budget_leases c e i d = (d', Some (Inr n))"
  shows "budget_ended (io_openNow e) i d'"
proof -
  let ?t = "io_openNow e"
  let ?hit = "\<lambda>l. gl_sessionId l = i \<and> gl_status l = BudgetActive"
  let ?s' = "\<lambda>s. (open_budget ?t s)\<lparr>gs_leases := map (\<lambda>l. if ?hit l then expire_lease ?t l else l) (gs_leases (open_budget ?t s)),
                  gs_updatedAt := ?t\<rparr>"
  define cb where "cb = (\<lambda>s. let expired = length (filter ?hit (gs_leases (open_budget ?t s)))
      in Some (Inr expired :: budget_failure + nat, if 0 < expired then Some (?s' s) else None))"
  have "with_lock e c d cb = (d', Some (Inr n))"
    using assms unfolding expire_session_budget_leases_def Let_def cb_def by (simp split: if_splits)
  then obtain s where s: "read_budget c d = Some s" and
    "\<exists>saved. cb s = Some (Inr n, saved) \<and> d' = (case saved of None \<Rightarrow> d | Some s' \<Rightarrow> Stored s')"
    by (rule with_lock_Inr)
  then obtain saved where "cb s = Some (Inr n, saved)" "d' = (case saved of None \<Rightarrow> d | Some s' \<Rightarrow> Stored s')" by blast
  then have d': "d' = (if filter ?hit (gs_leases (open_budget ?t s)) \<noteq> [] then Stored (?s' s) else d)"
    unfolding cb_def Let_def by (cases saved) (auto simp del: filter_empty_conv split: if_split_asm)
  show ?thesis
  proof (cases "filter ?hit (gs_leases (open_budget ?t s)) = []")
    case True
    then have "list_all (\<lambda>l. gl_sessionId l = i \<longrightarrow> gl_status l \<noteq> BudgetActive) (gs_leases (open_budget ?t s))"
      by (auto simp: list_all_iff filter_empty_conv)
    moreover have "d' = d" using True d' by simp
    ultimately show ?thesis using read_budget_content [OF s] by (elim disjE) (simp_all add: budget_ended_def)
  next
    case False
    let ?change = "\<lambda>l. if ?hit l then expire_lease ?t l else l"
    have change: "\<not> ?hit (?change y)" for y by (simp add: expire_lease_def)
    have "gl_sessionId l = i \<longrightarrow> gl_status l \<noteq> BudgetActive" if "l \<in> set (gs_leases (open_budget ?t (?s' s)))" for l
    proof (intro impI notI)
      assume l: "gl_sessionId l = i" "gl_status l = BudgetActive"
      have "gs_leases (?s' s) = map ?change (gs_leases (open_budget ?t s))" by simp
      with open_active [OF that l(2)] have "l \<in> set (map ?change (gs_leases (open_budget ?t s)))" by (simp only:)
      then have "\<not> ?hit l" by (rule all_changed) (rule change)
      with l show False by blast
    qed
    with False d' show ?thesis by (simp add: budget_ended_def list_all_iff)
  qed
qed

section \<open>Properties\<close>

text \<open>
  C28. The session store never makes its own file unreadable: after any sequence of up to
  \<open>2^53 - 1\<close> creations, updates and prunings, under any clocks, inputs, lock outcomes and failed
  writes, every session on file passes the validation of the next read.
\<close>

theorem session_store_stays_readable:
  assumes "int (length ops) \<le> max_safe_integer"
  shows "read_sessions (foldl (session_step cmp) NoFile ops) \<noteq> None"
  by (rule sessions_ok_read [OF session_run_ok [OF assms]])

definition sample_create :: "string \<Rightarrow> string list \<Rightarrow> create_session_input" where
  "sample_create i sources =
     \<lparr>ci_sessionId = Some i, ci_lockedSourceIds = sources, ci_activeRunId = None, ci_activeTaskId = None, ci_now = None\<rparr>"

definition sample_patch :: "rat \<Rightarrow> session_status \<Rightarrow> session_patch" where
  "sample_patch n st =
     \<lparr>sp_expectedRevision = n, sp_newStatus = Some st, sp_activeRunId = SetTo ''run'', sp_activeTaskId = Keep,
      sp_approval = None, sp_lastAction = Keep, sp_resourceDelta = None, sp_now = noon\<rparr>"

definition sample_cmp2 :: "string \<Rightarrow> string \<Rightarrow> int" where
  "sample_cmp2 a b = (if a < b then -1 else if a = b then 0 else 1)"

definition sample_session_ops :: "session_op list" where
  "sample_session_ops =
     [CreateSession None (sample_env noon) (sample_create ''ses'' [''web'', ''api'']),
      UpdateSession None (sample_env noon) ''ses'' (sample_patch 0 SessPaused)]"

lemma sample_session_run:
  "map (\<lambda>s. (ws_revision s, ws_status s, ws_lockedSourceIds s, ws_activeRunId s))
     (file_sessions (foldl (session_step sample_cmp2) NoFile sample_session_ops))
   = [(1, SessPaused, [''api'', ''web''], Some ''run'')]"
  by code_simp

theorem session_store_stays_readable_witness:
  "read_sessions (foldl (session_step sample_cmp2) NoFile sample_session_ops) \<noteq> None
   \<and> length (file_sessions (foldl (session_step sample_cmp2) NoFile sample_session_ops)) = 1"
  using session_store_stays_readable [of sample_session_ops sample_cmp2]
    arg_cong [OF sample_session_run, of length]
  by (simp add: sample_session_ops_def max_safe_integer_def)

text \<open>
  What a session is bound to never changes: in any run from an absent file, session ids stay
  distinct and each session on file after a step either is a fresh one under an id that was not on
  file (active, revision 0, all counters zero), or grew out of the session with its id: the
  same locked sources and creation time, no smaller revision or counter, and with the same revision
  no change at all.
\<close>

theorem session_bindings_fixed:
  "let xs = file_sessions (foldl (session_step cmp) NoFile ops);
       ys = file_sessions (session_step cmp (foldl (session_step cmp) NoFile ops) a)
   in distinct (map ws_sessionId ys) \<and> sessions_follow a xs ys"
  by (simp add: session_step_follows session_run_distinct)

definition beyond :: "rat \<Rightarrow> string \<Rightarrow> session_disk \<Rightarrow> bool" where
  "beyond q i d =
     (distinct (map ws_sessionId (file_sessions d))
      \<and> list_all (\<lambda>s. ws_sessionId s = i \<longrightarrow> q < of_int (ws_revision s)) (file_sessions d))"

lemma beyond_step:
  assumes "beyond q i d" "creates a \<noteq> Some i"
  shows "beyond q i (session_step cmp d a)"
proof -
  note f = session_step_follows [of d cmp a]
  have "q < of_int (ws_revision y)" if y: "y \<in> set (file_sessions (session_step cmp d a))" "ws_sessionId y = i" for y
  proof -
    obtain x where "x \<in> set (file_sessions d)" "session_grows x y"
    proof -
      have "sessions_follow a (file_sessions d) (file_sessions (session_step cmp d a))"
        using f assms(1) by (simp add: beyond_def)
      from this [unfolded sessions_follow_def list_all_iff list_ex_iff, rule_format, OF y(1)] assms(2) y(2)
      show thesis by (metis that)
    qed
    then have "q < of_int (ws_revision x)" "ws_revision x \<le> ws_revision y"
      using assms(1) y(2) by (auto simp: beyond_def list_all_iff session_grows_def)
    then show ?thesis by (meson of_int_le_iff less_le_trans)
  qed
  with f assms(1) show ?thesis by (auto simp: beyond_def list_all_iff)
qed

lemma beyond_run: "beyond q i d \<Longrightarrow> list_all (\<lambda>a. creates a \<noteq> Some i) ops \<Longrightarrow> beyond q i (foldl (session_step cmp) d ops)"
  by (induction ops arbitrary: d) (simp_all add: beyond_step)

lemma update_Inr:
  assumes "update_session_file cmp c e i p d = (d', Inr s')"
  obtains rs s where "read_sessions d = Some rs" "session_with_id i rs = Some s" "next_session p s = Inr s'" "valid_id i"
    "valid_patch p" "d' = Stored (io_saveNow e, retain_bounded_sessions cmp (io_openNow e) (max_records c) (update_session i (\<lambda>x. s') rs))"
proof -
  have ok: "valid_id i" "valid_patch p" using assms by (auto simp: update_session_file_def split: if_splits)
  have "with_sessions cmp c e d (\<lambda>rs. case session_with_id i rs of
        None \<Rightarrow> (Inl SESSION_NOT_FOUND, None)
      | Some s \<Rightarrow> (case next_session p s of Inl code \<Rightarrow> (Inl code, None)
          | Inr s' \<Rightarrow> (Inr s', Some (update_session i (\<lambda>x. s') rs)))) = (d', Inr s')"
    using assms ok by (simp add: update_session_file_def)
  then show thesis
    by (rule with_sessions_Inr) (auto split: option.splits sum.splits intro!: that ok)
qed

lemma updated_beyond:
  assumes "update_session_file cmp c e i p d = (d', Inr s')" "distinct (map ws_sessionId (file_sessions d))"
  shows "beyond (sp_expectedRevision p) i d'"
proof -
  from assms(1) obtain rs s where rs: "read_sessions d = Some rs" "session_with_id i rs = Some s" "next_session p s = Inr s'"
    and d': "d' = Stored (io_saveNow e, retain_bounded_sessions cmp (io_openNow e) (max_records c) (update_session i (\<lambda>x. s') rs))"
    by (rule update_Inr)
  have s: "s \<in> set rs" "ws_sessionId s' = i" using session_with_id_Some [OF rs(2)] next_session_Inr [OF rs(3)] by simp_all
  have ids: "distinct (map ws_sessionId rs)" using assms(2) read_ids [OF rs(1)] by simp
  have set: "set (update_session i (\<lambda>x. s') rs) = insert s' {y \<in> set rs. ws_sessionId y \<noteq> i}"
    unfolding update_session_def
    by (rule set_modify_first_keyed [OF ids rs(2) [unfolded session_with_id_def] s(2)])
  have "distinct (map ws_sessionId (update_session i (\<lambda>x. s') rs))"
    using ids map_modify_first_keyed [OF rs(2) [unfolded session_with_id_def] s(2)] by (simp add: update_session_def)
  moreover have "sp_expectedRevision p < of_int (ws_revision s')"
    using next_session_Inr [OF rs(3)] by (metis less_add_one of_int_less_iff)
  ultimately show ?thesis
    using session_list.set_keep [of cmp "io_openNow e" "max_records c" "update_session i (\<lambda>x. s') rs"]
    by (auto simp: beyond_def d' file_sessions_def list_all_iff set intro: session_list.distinct_keep)
qed

text \<open>
  A revision is spent once: when an update of a session that expected some revision has
  succeeded, then whatever operations follow (short of creating a session under this id again), no
  update that expects the same revision succeeds.
\<close>

theorem session_revision_spent_once:
  assumes "update_session_file cmp c e i p (foldl (session_step cmp) NoFile before) = (d, Inr s)"
    and "list_all (\<lambda>a. creates a \<noteq> Some i) ops"
    and "sp_expectedRevision p' = sp_expectedRevision p"
  shows "snd (update_session_file cmp c' e' i p' (foldl (session_step cmp) d ops)) \<noteq> Inr s'"
proof
  let ?d = "foldl (session_step cmp) d ops"
  assume "snd (update_session_file cmp c' e' i p' ?d) = Inr s'"
  then have "update_session_file cmp c' e' i p' ?d = (fst (update_session_file cmp c' e' i p' ?d), Inr s')"
    by (simp add: prod_eq_iff)
  then obtain rs x where x: "read_sessions ?d = Some rs" "session_with_id i rs = Some x" "next_session p' x = Inr s'"
    by (rule update_Inr)
  have b: "beyond (sp_expectedRevision p) i ?d"
    by (rule beyond_run [OF updated_beyond [OF assms(1) session_run_distinct] assms(2)])
  obtain y where "y \<in> set (file_sessions ?d)" "ws_sessionId y = i" "ws_revision y = ws_revision x"
    using session_with_id_Some [OF x(2)] read_file_sessions [OF x(1)] by force
  with b have "sp_expectedRevision p < of_int (ws_revision x)" by (auto simp: beyond_def list_all_iff)
  with next_session_Inr [OF x(3)] assms(3) show False by simp
qed

theorem session_revision_spent_once_witness:
  "\<nexists>s. snd (update_session_file sample_cmp2 None (sample_env noon) ''ses'' (sample_patch 0 SessCompleted)
      (foldl (session_step sample_cmp2) NoFile sample_session_ops)) = Inr s"
proof -
  let ?d0 = "foldl (session_step sample_cmp2) NoFile (take 1 sample_session_ops)"
  let ?u = "update_session_file sample_cmp2 None (sample_env noon) ''ses'' (sample_patch 0 SessPaused) ?d0"
  have "(case snd ?u of Inl f \<Rightarrow> False | Inr s \<Rightarrow> True)" by code_simp
  then obtain s1 where "snd ?u = Inr s1" by (cases "snd ?u") auto
  then have "?u = (fst ?u, Inr s1)" by (simp add: prod_eq_iff)
  from session_revision_spent_once [OF this, of "[]" "sample_patch 0 SessCompleted" None "sample_env noon"]
  show ?thesis by (simp add: sample_session_ops_def sample_patch_def)
qed

text \<open>
  C16. Completing a session releases what it holds on the machine: when an update to completed
  succeeds and the scheduler and the budget answer their part, then the session's every request is
  finished in the scheduler as the next operation at that time opens it, and none of its budget
  leases is active, so that neither a mutation lock nor worker capacity stays with it.
\<close>

theorem completed_session_releases_everything:
  assumes "update_workbench_session cmp c maxRequests limits e e1 e2 i p fs = (fs', Some (Inr s))"
    and "sp_newStatus p = Some SessCompleted"
    and "cancel_session_scheduler_requests cmp maxRequests e1 i (sf_scheduler fs) = (d1, Inr ids)"
    and "expire_session_budget_leases limits e2 i (sf_budget fs) = (d2, Some (Inr n))"
  shows "ws_status s = SessCompleted
    \<and> on_file (session_ended (io_openNow e1) i) (sf_scheduler fs') \<and> budget_ended (io_openNow e2) i (sf_budget fs')"
proof -
  obtain d' where upd: "update_session_file cmp c e i p (sf_sessions fs) = (d', Inr s)"
    and fs': "sf_scheduler fs' = d1" "sf_budget fs' = d2"
    using assms by (auto simp: update_workbench_session_def expire_session_dependents_def Let_def
        split: prod.splits sum.splits)
  from upd obtain x where "next_session p x = Inr s" by (rule update_Inr)
  with assms(2) have "ws_status s = SessCompleted" by (auto dest: next_session_Inr)
  with fs' cancel_session_clears [OF assms(3)] expire_session_clears [OF assms(4)] show ?thesis by simp
qed

definition sample_files :: session_files where
  "sample_files =
     \<lparr>sf_sessions = fst (create_workbench_session sample_cmp2 None (sample_env noon) (sample_create ''ses'' [''src'']) NoFile),
      sf_scheduler = fst (enqueue_repository_work sample_cmp2 None (Some [''src'']) (sample_env noon)
        \<lparr>eq_requestId = Some ''m'', eq_sessionId = ''ses'', eq_sourceId = ''src'', eq_class = MutationExclusive,
         eq_operationKind = ''write'', eq_now = None\<rparr> NoFile),
      sf_budget = fst (acquire_workbench_budget sample_hash None None (budget_env ''l1'') (sample_acquire ''a'' 3) NoFile)\<rparr>"

lemma sample_completed_files:
  "(case cancel_session_scheduler_requests sample_cmp2 None (sample_env noon) ''ses'' (sf_scheduler sample_files) of
      (d, Inr ids) \<Rightarrow> ids = [''m''] | _ \<Rightarrow> False)
   \<and> (case expire_session_budget_leases None (sample_env noon) ''ses'' (sf_budget sample_files) of
      (d, Some (Inr n)) \<Rightarrow> n = 1 | _ \<Rightarrow> False)
   \<and> (case update_workbench_session sample_cmp2 None None None (sample_env noon) (sample_env noon) (sample_env noon) ''ses''
        (sample_patch 0 SessCompleted) sample_files of (fs, Some (Inr s)) \<Rightarrow> True | _ \<Rightarrow> False)"
  by code_simp

theorem completed_session_releases_everything_witness:
  "\<exists>fs' s. update_workbench_session sample_cmp2 None None None (sample_env noon) (sample_env noon) (sample_env noon) ''ses''
        (sample_patch 0 SessCompleted) sample_files = (fs', Some (Inr s))
     \<and> on_file (session_ended noon ''ses'') (sf_scheduler fs') \<and> budget_ended noon ''ses'' (sf_budget fs')"
proof -
  obtain d1 where d1: "cancel_session_scheduler_requests sample_cmp2 None (sample_env noon) ''ses'' (sf_scheduler sample_files)
      = (d1, Inr [''m''])"
    using conjunct1 [OF sample_completed_files] by (auto split: prod.splits sum.splits)
  obtain d2 where d2: "expire_session_budget_leases None (sample_env noon) ''ses'' (sf_budget sample_files) = (d2, Some (Inr 1))"
  proof -
    let ?r = "expire_session_budget_leases None (sample_env noon) ''ses'' (sf_budget sample_files)"
    show thesis
      using conjunct1 [OF conjunct2 [OF sample_completed_files]] that [of "fst ?r"]
      by (cases ?r; cases "snd ?r"; cases "the (snd ?r)") simp_all
  qed
  obtain fs' s where "update_workbench_session sample_cmp2 None None None (sample_env noon) (sample_env noon) (sample_env noon) ''ses''
        (sample_patch 0 SessCompleted) sample_files = (fs', Some (Inr s))"
  proof -
    let ?r = "update_workbench_session sample_cmp2 None None None (sample_env noon) (sample_env noon) (sample_env noon) ''ses''
        (sample_patch 0 SessCompleted) sample_files"
    show thesis
      using conjunct2 [OF conjunct2 [OF sample_completed_files]] that [of "fst ?r"]
      by (cases ?r; cases "snd ?r"; cases "the (snd ?r)") simp_all
  qed
  from this completed_session_releases_everything [OF this _ d1 d2] show ?thesis
    by (simp add: sample_patch_def sample_env_def)
qed

lemma session_sources_Some:
  assumes "session_sources i d = Some sources"
  obtains s where "s \<in> set (file_sessions d)" "ws_sessionId s = i" "set sources = set (ws_lockedSourceIds s)"
proof -
  from assms obtain rs s where rs: "read_sessions d = Some rs" "session_with_id i rs = Some s" "sources = ws_lockedSourceIds s"
    by (auto simp: session_sources_def get_workbench_session_def split: if_splits option.splits)
  have s: "s \<in> set rs" "ws_sessionId s = i" using session_with_id_Some [OF rs(2)] by simp_all
  from s(1) obtain x where x: "x \<in> set (file_sessions d)" "s = x\<lparr>ws_lockedSourceIds := sort (ws_lockedSourceIds x)\<rparr>"
    unfolding read_file_sessions [OF rs(1)] set_map image_iff by blast
  show thesis by (rule that [OF x(1)]) (use s(2) rs(3) in \<open>simp_all add: x(2)\<close>)
qed

definition enqueue_callback ::
  "string \<Rightarrow> string \<Rightarrow> enqueue_input \<Rightarrow> schedule_request list
   \<Rightarrow> ((scheduler_failure + bool \<times> schedule_request) \<times> schedule_request list option) option" where
  "enqueue_callback requestId timestamp i rs =
     (case request_with_id requestId rs of
        Some x \<Rightarrow>
          if terminal x then Some (Inr (False, x), None)
          else if sq_sessionId x = eq_sessionId i \<and> sq_sourceId x = eq_sourceId i
               \<and> sq_class x = eq_class i \<and> sq_operationKind x = eq_operationKind i
          then Some (Inr (False, x), None)
          else Some (Inl SCHEDULER_DUPLICATE_CONFLICT, None)
      | None \<Rightarrow>
          let r = \<lparr>sq_requestId = requestId, sq_sessionId = eq_sessionId i, sq_sourceId = eq_sourceId i,
                   sq_class = eq_class i, sq_operationKind = eq_operationKind i, sq_status = SQueued,
                   sq_enqueuedAt = timestamp, sq_updatedAt = timestamp, sq_leaseOwner = None,
                   sq_leaseProofHash = None, sq_leaseAcquiredAt = None, sq_leaseExpiresAt = None,
                   sq_completedAt = None, sq_cancelledAt = None, sq_timedOutAt = None\<rparr>
          in Some (Inr (True, r), Some (rs @ [r])))"

lemma enqueue_valid:
  assumes "valid_id (or_else (eq_requestId i) (''schedule-'' @ io_uuid e))" "valid_id (eq_sessionId i)" "valid_id (eq_sourceId i)"
    and "0 < length (eq_operationKind i)" "length (eq_operationKind i) \<le> 120" "valid_iso (or_else (eq_now i) (io_startNow e))"
    and "eq_sourceId i \<in> set sources"
  shows "enqueue_repository_work cmp c (Some sources) e i d =
    with_store cmp c e d (enqueue_callback (or_else (eq_requestId i) (''schedule-'' @ io_uuid e))
                            (or_else (eq_now i) (io_startNow e)) i)"
  using assms unfolding enqueue_repository_work_def Let_def enqueue_callback_def by simp

lemma enqueue_created:
  assumes "enqueue_repository_work cmp c session e i d = (d', Inr (True, r))"
  obtains sources where "session = Some sources" "eq_sourceId i \<in> set sources"
    "sq_sessionId r = eq_sessionId i" "sq_sourceId r = eq_sourceId i" "sq_status r = SQueued"
proof -
  let ?q = "or_else (eq_requestId i) (''schedule-'' @ io_uuid e)"
  let ?t = "or_else (eq_now i) (io_startNow e)"
  obtain sources where s: "session = Some sources" "eq_sourceId i \<in> set sources"
    and ok: "valid_id ?q" "valid_id (eq_sessionId i)" "valid_id (eq_sourceId i)" "0 < length (eq_operationKind i)"
      "length (eq_operationKind i) \<le> 120" "valid_iso ?t"
    using assms by (auto simp: enqueue_repository_work_def Let_def split: if_splits option.splits)
  have "with_store cmp c e d (enqueue_callback ?q ?t i) = (d', Inr (True, r))"
    using assms s enqueue_valid [OF ok s(2)] by simp
  then obtain rs where "\<exists>saved. enqueue_callback ?q ?t i (open_store (io_openNow e) rs) = Some (Inr (True, r), saved)
       \<and> d' = (case saved of None \<Rightarrow> d | Some rs' \<Rightarrow> Stored (io_saveNow e, retained cmp c rs'))"
    by (rule with_store_Inr)
  then have "sq_sessionId r = eq_sessionId i \<and> sq_sourceId r = eq_sourceId i \<and> sq_status r = SQueued"
    by (auto simp: enqueue_callback_def Let_def split: option.splits if_splits)
  then show thesis by (elim conjE) (rule that [OF s])
qed

text \<open>
  Work enters the scheduler only under a session on file and for a source that this session
  has locked; the session file itself is only read.
\<close>

theorem work_bound_to_session_sources:
  assumes "enqueue_session_work cmp c e i fs = (fs', Inr (True, r))"
  shows "sf_sessions fs' = sf_sessions fs \<and> sq_status r = SQueued
    \<and> (\<exists>s \<in> set (file_sessions (sf_sessions fs)). ws_sessionId s = sq_sessionId r \<and> sq_sourceId r \<in> set (ws_lockedSourceIds s))"
proof -
  from assms obtain d' where enq: "enqueue_repository_work cmp c (session_sources (eq_sessionId i) (sf_sessions fs)) e i
      (sf_scheduler fs) = (d', Inr (True, r))" and fs': "sf_sessions fs' = sf_sessions fs"
    by (auto simp: enqueue_session_work_def split: prod.splits)
  from enq obtain sources where s: "session_sources (eq_sessionId i) (sf_sessions fs) = Some sources" "eq_sourceId i \<in> set sources"
    "sq_sessionId r = eq_sessionId i" "sq_sourceId r = eq_sourceId i" "sq_status r = SQueued"
    by (rule enqueue_created)
  from s(1) obtain x where x: "x \<in> set (file_sessions (sf_sessions fs))" "ws_sessionId x = eq_sessionId i"
    "set sources = set (ws_lockedSourceIds x)" by (rule session_sources_Some)
  have "ws_sessionId x = sq_sessionId r \<and> sq_sourceId r \<in> set (ws_lockedSourceIds x)"
    using s x by simp
  with fs' s(5) x(1) show ?thesis by blast
qed

definition sample_enqueue :: "string \<Rightarrow> enqueue_input" where
  "sample_enqueue i =
     \<lparr>eq_requestId = Some i, eq_sessionId = ''ses'', eq_sourceId = ''src'', eq_class = ReadShared, eq_operationKind = ''read'',
      eq_now = None\<rparr>"

theorem work_bound_to_session_sources_witness:
  "\<exists>r. snd (enqueue_session_work sample_cmp2 None (sample_env noon) (sample_enqueue ''q'') sample_files) = Inr (True, r)
     \<and> (\<exists>s \<in> set (file_sessions (sf_sessions sample_files)). ws_sessionId s = sq_sessionId r)"
proof -
  let ?r = "enqueue_session_work sample_cmp2 None (sample_env noon) (sample_enqueue ''q'') sample_files"
  have "(case snd ?r of Inr (b, r) \<Rightarrow> b | _ \<Rightarrow> False)" by code_simp
  then obtain r where "snd ?r = Inr (True, r)" by (cases "snd ?r") auto
  then have r: "?r = (fst ?r, Inr (True, r))" by (simp add: prod_eq_iff)
  from work_bound_to_session_sources [OF r] r show ?thesis by (metis snd_conv)
qed

text \<open>
  Finding: completing a session does not stop it. The scheduler looks only at the session's
  sources: as long as the completed session is on file, a new request under it for one of its
  sources is accepted and queued, after its other requests have been cancelled.
\<close>

theorem completed_session_still_enqueues:
  assumes "read_sessions (sf_sessions fs) = Some ss" "session_with_id (eq_sessionId i) ss = Some s"
    and "ws_status s = SessCompleted" "eq_sourceId i \<in> set (ws_lockedSourceIds s)"
    and "read_store (sf_scheduler fs) = Some rs" "eq_requestId i = Some q" "valid_id q" "valid_id (eq_sessionId i)"
    and "valid_id (eq_sourceId i)" "0 < length (eq_operationKind i)" "length (eq_operationKind i) \<le> 120"
    and "request_with_id q (open_store (io_openNow e) rs) = None" "valid_iso (or_else (eq_now i) (io_startNow e))"
    and "io_lock e = LockTaken" "io_write e = Saved"
  shows "\<exists>fs' r. enqueue_session_work cmp c e i fs = (fs', Inr (True, r)) \<and> sq_requestId r = q \<and> sq_status r = SQueued
    \<and> sq_sessionId r = ws_sessionId s"
proof -
  have src: "session_sources (eq_sessionId i) (sf_sessions fs) = Some (ws_lockedSourceIds s)"
    using assms(1,2,8) by (simp add: session_sources_def get_workbench_session_def)
  have q: "or_else (eq_requestId i) (''schedule-'' @ io_uuid e) = q"
    using assms(6,7) by (auto simp: or_else_def truthy_def valid_id_def)
  have "enqueue_repository_work cmp c (Some (ws_lockedSourceIds s)) e i (sf_scheduler fs)
      = with_store cmp c e (sf_scheduler fs) (enqueue_callback q (or_else (eq_now i) (io_startNow e)) i)"
    using enqueue_valid [of i e, unfolded q, OF assms(7-11,13,4)] .
  moreover have "ws_sessionId s = eq_sessionId i" using session_with_id_Some [OF assms(2)] by simp
  ultimately show ?thesis
    using assms(5,12,14,15) src
    by (auto simp: enqueue_session_work_def with_store_def enqueue_callback_def Let_def persist_store_def write_disk_def)
qed

definition sample_completed_session :: session_files where
  "sample_completed_session =
     sample_files\<lparr>sf_sessions := fst (update_session_file sample_cmp2 None (sample_env noon) ''ses''
                                   (sample_patch 0 SessCompleted) (sf_sessions sample_files))\<rparr>"

lemma sample_completed_parts:
  "(case read_sessions (sf_sessions sample_completed_session) of None \<Rightarrow> False
    | Some ss \<Rightarrow> (case session_with_id ''ses'' ss of None \<Rightarrow> False
        | Some s \<Rightarrow> ws_status s = SessCompleted \<and> ws_lockedSourceIds s = [''src'']))
   \<and> (case read_store (sf_scheduler sample_completed_session) of None \<Rightarrow> False
      | Some rs \<Rightarrow> request_with_id ''q'' (open_store noon rs) = None)
   \<and> valid_id ''q'' \<and> valid_id ''ses'' \<and> valid_id ''src'' \<and> valid_iso noon"
  by code_simp

theorem completed_session_still_enqueues_witness:
  "\<exists>fs' r. enqueue_session_work sample_cmp2 None (sample_env noon) (sample_enqueue ''q'') sample_completed_session
      = (fs', Inr (True, r)) \<and> sq_requestId r = ''q'' \<and> sq_status r = SQueued"
proof -
  obtain ss s rs where p: "read_sessions (sf_sessions sample_completed_session) = Some ss" "session_with_id ''ses'' ss = Some s"
    "ws_status s = SessCompleted" "ws_lockedSourceIds s = [''src'']"
    "read_store (sf_scheduler sample_completed_session) = Some rs" "request_with_id ''q'' (open_store noon rs) = None"
    "valid_id ''q''" "valid_id ''ses''" "valid_id ''src''" "valid_iso noon"
    using sample_completed_parts by (simp split: option.splits)
  show ?thesis
    using completed_session_still_enqueues [of sample_completed_session ss "sample_enqueue ''q''" s rs "''q''" "sample_env noon"
        sample_cmp2 None] p
    by (simp add: sample_enqueue_def sample_env_def or_else_def truthy_def) blast
qed

end
