(* ===== verification/Source_Identity.thy ===== *)
theory Source_Identity
  imports Js_Map
begin

text \<open>
  \<^verbatim>\<open>packages/shared/src/mastermind-source-identity.ts\<close>: the aliases under which the product's
  own repositories were known before they were renamed, and the resolver that maps an id or a
  label to the identity it stands for; with its use on the configured sources,
  \<^verbatim>\<open>resolveConfiguredSourceId\<close> of \<^verbatim>\<open>packages/cli/src/agent/config.ts\<close>.

  The resolver of the code is a closure over the checked aliases: \<open>create_source_identity_resolver\<close>
  returns it as a function, or the error of \<^verbatim>\<open>assertOneToOne\<close>. \<^verbatim>\<open>toLocaleLowerCase\<close>
  is the root locale's mapping on code units below 256.
\<close>

section \<open>Data\<close>

record source_identity =
  si_id :: string
  si_label :: string
  si_branch :: "string option"

record source_alias =
  al_legacyId :: string
  al_legacyLabel :: string
  al_canonicalId :: string
  al_canonicalLabel :: string
  al_branch :: "string option"

datatype source_resolution =
    Canonical source_identity
  | Aliased source_identity source_identity
  | Unknown string
  | Ambiguous string "source_identity list"

text \<open>The members of a configured source the resolver is given.\<close>

record configured_source =
  cs_id :: string
  cs_label :: string
  cs_branchName :: "string option"

definition built_in_aliases :: "source_alias list" where
  "built_in_aliases =
     [\<lparr> al_legacyId = ''prochattools-mastermind'', al_legacyLabel = ''Workbench Private'',
        al_canonicalId = ''prochattools-mastermind'', al_canonicalLabel = ''Mastermind Private'',
        al_branch = None \<rparr>,
      \<lparr> al_legacyId = ''prochattools-workbench'', al_legacyLabel = ''Workbench'',
        al_canonicalId = ''prochattools-mastermind'', al_canonicalLabel = ''Mastermind'',
        al_branch = None \<rparr>,
      \<lparr> al_legacyId = ''prochattools-mastermind-codex-recovered-v138-provider-dra'',
        al_legacyLabel = ''Workbench Private (codex/recovered-v138-provider-dra)'',
        al_canonicalId = ''prochattools-mastermind-codex-recovered-v138-provider-dra'',
        al_canonicalLabel = ''Mastermind Private (codex/recovered-v138-provider-dra)'',
        al_branch = Some ''codex/recovered-v138-provider-dra'' \<rparr>]"

section \<open>Matching\<close>

definition lower_char :: "char \<Rightarrow> char" where
  "lower_char c = (let n = of_char c :: nat in
     if 65 \<le> n \<and> n \<le> 90 \<or> 192 \<le> n \<and> n \<le> 222 \<and> n \<noteq> 215 then char_of (n + 32) else c)"

definition normalize_name :: "string \<Rightarrow> string" where
  "normalize_name value = map lower_char (trim value)"

definition matches_identity :: "string \<Rightarrow> source_identity \<Rightarrow> bool" where
  "matches_identity input i = (normalize_name input = normalize_name (si_id i)
     \<or> normalize_name input = normalize_name (si_label i))"

definition make_identity :: "string \<Rightarrow> string \<Rightarrow> string option \<Rightarrow> source_identity" where
  "make_identity i label branch =
     (if truthy branch then \<lparr> si_id = i, si_label = label, si_branch = branch \<rparr>
      else \<lparr> si_id = i, si_label = label, si_branch = None \<rparr>)"

definition legacy_identity :: "source_alias \<Rightarrow> source_identity" where
  "legacy_identity a = make_identity (al_legacyId a) (al_legacyLabel a) (al_branch a)"

definition canonical_identity :: "source_alias \<Rightarrow> source_identity" where
  "canonical_identity a = make_identity (al_canonicalId a) (al_canonicalLabel a) (al_branch a)"

text \<open>The loop of \<^verbatim>\<open>assertOneToOne\<close>, over the legacy id and the legacy label of each alias.\<close>

fun check_keys :: "(string \<Rightarrow> string option) \<Rightarrow> (string \<times> string) list \<Rightarrow> string option" where
  "check_keys seen [] = None"
| "check_keys seen ((key, canonicalId) # rest) =
     (let normalized = normalize_name key; existing = seen normalized in
      if truthy existing \<and> existing \<noteq> Some canonicalId
      then Some (''Ambiguous source alias mapping for '' @ key)
      else check_keys (seen(normalized \<mapsto> canonicalId)) rest)"

definition assert_one_to_one :: "source_alias list \<Rightarrow> string option" where
  "assert_one_to_one aliases = check_keys Map.empty
     (concat (map (\<lambda>a. [(al_legacyId a, al_canonicalId a), (al_legacyLabel a, al_canonicalId a)]) aliases))"

section \<open>The resolver\<close>

definition alias_matches :: "string \<Rightarrow> source_alias \<Rightarrow> bool" where
  "alias_matches input a = (normalize_name input = normalize_name (al_legacyId a)
     \<or> normalize_name input = normalize_name (al_legacyLabel a)
     \<or> normalize_name input = normalize_name (al_canonicalId a)
     \<or> normalize_name input = normalize_name (al_canonicalLabel a))"

definition resolve_identity ::
    "source_alias list \<Rightarrow> string \<Rightarrow> source_identity list \<Rightarrow> source_resolution" where
  "resolve_identity aliases input available =
     (let candidates = filter (matches_identity input) available in
      if length candidates > 1 then Ambiguous input candidates
      else let aliasMatches = filter (alias_matches input) aliases in
        if length aliasMatches > 1 then Ambiguous input (map canonical_identity aliasMatches)
        else case aliasMatches of
            [] \<Rightarrow> (case candidates of [c] \<Rightarrow> Canonical c | _ \<Rightarrow> Unknown input)
          | m # _ \<Rightarrow>
              if normalize_name input = normalize_name (al_canonicalId m)
                 \<or> normalize_name input = normalize_name (al_canonicalLabel m)
              then Canonical (canonical_identity m)
              else Aliased (canonical_identity m) (legacy_identity m))"

definition create_source_identity_resolver ::
    "source_alias list \<Rightarrow> string + (string \<Rightarrow> source_identity list \<Rightarrow> source_resolution)" where
  "create_source_identity_resolver aliases =
     (case assert_one_to_one aliases of
        Some err \<Rightarrow> Inl err
      | None \<Rightarrow> Inr (resolve_identity aliases))"

text \<open>
  \<^verbatim>\<open>resolveConfiguredSourceId\<close>: an exception is \<open>Inl\<close> of its message. The module's
  resolver is built from the built-in aliases when the module loads
  (\<open>built_in_resolver\<close>: this does not throw).
\<close>

definition source_identities :: "configured_source list \<Rightarrow> source_identity list" where
  "source_identities sources = map (\<lambda>s. \<lparr> si_id = cs_id s, si_label = cs_label s,
     si_branch = (if truthy (cs_branchName s) then cs_branchName s else None) \<rparr>) sources"

definition find_source :: "string \<Rightarrow> configured_source list \<Rightarrow> configured_source option" where
  "find_source i sources = List.find (\<lambda>s. cs_id s = i) sources"

definition resolve_configured_source_id :: "string \<Rightarrow> configured_source list \<Rightarrow> string + string" where
  "resolve_configured_source_id sourceId sources =
     (let not_found = Inl (''Source not found: '' @ sourceId) in
      case resolve_identity built_in_aliases sourceId (source_identities sources) of
        Ambiguous _ _ \<Rightarrow> Inl (''Ambiguous sourceId: '' @ sourceId)
      | Unknown _ \<Rightarrow> not_found
      | Canonical i \<Rightarrow>
          (case find_source (si_id i) sources of Some s \<Rightarrow> Inr (cs_id s) | None \<Rightarrow> not_found)
      | Aliased i legacy \<Rightarrow>
          (case find_source (si_id i) sources of
             Some s \<Rightarrow> Inr (cs_id s)
           | None \<Rightarrow> (case find_source (si_id legacy) sources of
                        Some s \<Rightarrow> Inr (cs_id s) | None \<Rightarrow> not_found)))"

section \<open>Lemmas\<close>

lemma built_in_resolver:
  "create_source_identity_resolver built_in_aliases = Inr (resolve_identity built_in_aliases)"
proof -
  have "assert_one_to_one built_in_aliases = None" by code_simp
  then show ?thesis by (simp add: create_source_identity_resolver_def)
qed

lemma filter_Cons_in: "filter p xs = y # ys \<Longrightarrow> y \<in> set xs \<and> p y"
  by (metis filter_is_subset list.set_intros(1) mem_Collect_eq set_filter)

lemma find_source_Some: "find_source i sources = Some s \<Longrightarrow> s \<in> set sources \<and> cs_id s = i"
  unfolding find_source_def by (drule find_Some_iff_in) simp

lemma find_source_None: "find_source i sources = None \<longleftrightarrow> i \<notin> cs_id ` set sources"
  by (auto simp: find_source_def find_None_iff)

definition names_source :: "string \<Rightarrow> configured_source \<Rightarrow> bool" where
  "names_source input s = (normalize_name input = normalize_name (cs_id s)
     \<or> normalize_name input = normalize_name (cs_label s))"

lemma filter_source_identities:
  "filter (matches_identity input) (source_identities sources)
   = source_identities (filter (names_source input) sources)"
  by (induction sources) (simp_all add: source_identities_def matches_identity_def names_source_def)

lemma source_identities_simps [simp]:
  "source_identities [] = []"
  "length (source_identities xs) = length xs"
  "source_identities (x # xs) = \<lparr> si_id = cs_id x, si_label = cs_label x,
     si_branch = (if truthy (cs_branchName x) then cs_branchName x else None) \<rparr> # source_identities xs"
  by (simp_all add: source_identities_def)

text \<open>An input that is no alias: the resolver picks the only source it names.\<close>

lemma resolve_identity_plain:
  assumes "filter (alias_matches input) aliases = []"
  shows "resolve_identity aliases input available =
    (case filter (matches_identity input) available of
       [] \<Rightarrow> Unknown input | [c] \<Rightarrow> Canonical c | cs \<Rightarrow> Ambiguous input cs)"
  using assms by (auto simp: resolve_identity_def Let_def split: list.splits)

lemma resolve_configured_plain:
  assumes "filter (alias_matches input) built_in_aliases = []"
  shows "resolve_configured_source_id input sources =
    (case filter (names_source input) sources of
       [] \<Rightarrow> Inl (''Source not found: '' @ input)
     | [s] \<Rightarrow> Inr (cs_id s)
     | _ \<Rightarrow> Inl (''Ambiguous sourceId: '' @ input))"
proof (cases "filter (names_source input) sources")
  case Nil
  then show ?thesis
    by (simp add: resolve_configured_source_id_def resolve_identity_plain[OF assms]
        filter_source_identities)
next
  case (Cons s rest)
  show ?thesis
  proof (cases rest)
    case Nil
    have "s \<in> set sources" using filter_Cons_in[OF Cons] by blast
    then obtain s' where "find_source (cs_id s) sources = Some s'"
      using find_source_None by (cases "find_source (cs_id s) sources") auto
    then show ?thesis
      using Cons Nil find_source_Some
      by (simp add: resolve_configured_source_id_def resolve_identity_plain[OF assms]
          filter_source_identities)
  next
    case (Cons s2 rest2)
    then show ?thesis
      using \<open>filter (names_source input) sources = s # rest\<close>
      by (simp add: resolve_configured_source_id_def resolve_identity_plain[OF assms]
          filter_source_identities)
  qed
qed

lemma identity_ids [simp]:
  "si_id (canonical_identity a) = al_canonicalId a" "si_id (legacy_identity a) = al_legacyId a"
  by (simp_all add: canonical_identity_def legacy_identity_def make_identity_def)

lemma resolve_identity_alias:
  assumes "filter (alias_matches input) aliases = a # rest"
  shows "(\<exists>cs. resolve_identity aliases input available = Ambiguous input cs)
    \<or> resolve_identity aliases input available = Canonical (canonical_identity a)
    \<or> resolve_identity aliases input available = Aliased (canonical_identity a) (legacy_identity a)"
  using assms by (simp add: resolve_identity_def Let_def)

section \<open>Properties\<close>

text \<open>
  Outside the built-in names the resolution of a configured source is exact: it returns an
  id just when exactly one configured source has the input as its id or label, up to case and
  surrounding white space, and then that source's id, with two distinct errors otherwise.
\<close>

theorem source_resolution_exact:
  assumes "\<not> list_ex (alias_matches input) built_in_aliases"
  shows "resolve_configured_source_id input sources =
    (case filter (names_source input) sources of
       [] \<Rightarrow> Inl (''Source not found: '' @ input)
     | [s] \<Rightarrow> Inr (cs_id s)
     | _ \<Rightarrow> Inl (''Ambiguous sourceId: '' @ input))"
proof (rule resolve_configured_plain)
  show "filter (alias_matches input) built_in_aliases = []"
    using assms by (simp add: list_ex_iff filter_empty_conv)
qed

text \<open>
  A resolved id always is the id of a configured source, whatever the input, and the source
  is one the input names or one that a built-in alias of the input renames.
\<close>

theorem source_resolution_sound:
  assumes "resolve_configured_source_id input sources = Inr i"
  shows "\<exists>s \<in> set sources. cs_id s = i
    \<and> (names_source input s \<or> (\<exists>a \<in> set built_in_aliases. alias_matches input a
         \<and> i \<in> {al_canonicalId a, al_legacyId a}))"
proof (cases "filter (alias_matches input) built_in_aliases")
  case Nil
  note plain = resolve_configured_plain[OF Nil, of sources]
  obtain s where s: "filter (names_source input) sources = [s]" "i = cs_id s"
  proof (cases "filter (names_source input) sources")
    case Nil
    then show ?thesis using assms plain by simp
  next
    case (Cons s rest)
    then show ?thesis using assms plain that by (cases rest) simp_all
  qed
  have "s \<in> set sources \<and> names_source input s"
    by (rule filter_Cons_in[OF s(1)])
  then show ?thesis using s by (intro bexI[of _ s]) simp_all
next
  case (Cons a rest)
  have a: "a \<in> set built_in_aliases" "alias_matches input a"
    using filter_Cons_in[OF Cons] by auto
  have "(i = al_canonicalId a \<or> i = al_legacyId a) \<and> i \<in> cs_id ` set sources"
    using resolve_identity_alias[OF Cons, of "source_identities sources"]
  proof (elim disjE exE)
    fix cs
    assume "resolve_identity built_in_aliases input (source_identities sources) = Ambiguous input cs"
    then show ?thesis using assms by (simp add: resolve_configured_source_id_def Let_def)
  next
    assume c: "resolve_identity built_in_aliases input (source_identities sources)
      = Canonical (canonical_identity a)"
    show ?thesis
    proof (cases "find_source (al_canonicalId a) sources")
      case None
      then show ?thesis using assms c by (simp add: resolve_configured_source_id_def Let_def)
    next
      case (Some s)
      then have "i = cs_id s" using assms c by (simp add: resolve_configured_source_id_def Let_def)
      then show ?thesis using find_source_Some[OF Some] by blast
    qed
  next
    assume c: "resolve_identity built_in_aliases input (source_identities sources)
      = Aliased (canonical_identity a) (legacy_identity a)"
    consider s where "find_source (al_canonicalId a) sources = Some s" "i = cs_id s"
      | s where "find_source (al_legacyId a) sources = Some s" "i = cs_id s"
      using assms c
      by (cases "find_source (al_canonicalId a) sources"; cases "find_source (al_legacyId a) sources")
        (simp_all add: resolve_configured_source_id_def Let_def)
    then show ?thesis
    proof cases
      case 1
      then show ?thesis using find_source_Some[OF 1(1)] by blast
    next
      case 2
      then show ?thesis using find_source_Some[OF 2(1)] by blast
    qed
  qed
  then obtain s where "s \<in> set sources" "cs_id s = i" "i = al_canonicalId a \<or> i = al_legacyId a"
    by auto
  then show ?thesis using a by (intro bexI[of _ s] conjI disjI2 bexI[of _ a]) simp_all
qed

text \<open>
  The canonical id of the product's own repository can never be resolved: two built-in
  aliases lead to it, so whatever is configured every spelling of it is an ambiguous source,
  also the id a resolution has just returned.
\<close>

theorem canonical_source_id_ambiguous:
  assumes "normalize_name input = ''prochattools-mastermind''"
  shows "resolve_configured_source_id input sources = Inl (''Ambiguous sourceId: '' @ input)"
proof -
  have "map (\<lambda>a. normalize_name (al_canonicalId a) = ''prochattools-mastermind'') built_in_aliases
    = [True, True, False]"
    by code_simp
  then have "1 < length (filter (alias_matches input) built_in_aliases)"
    using assms by (simp add: built_in_aliases_def alias_matches_def)
  then have "\<exists>cs. resolve_identity built_in_aliases input (source_identities sources) = Ambiguous input cs"
    by (simp add: resolve_identity_def Let_def)
  then show ?thesis
    by (auto simp: resolve_configured_source_id_def Let_def)
qed

theorem source_resolution_exact_witness:
  "resolve_configured_source_id '' Other '' [\<lparr> cs_id = ''other'', cs_label = ''Docs'', cs_branchName = None \<rparr>]
     = Inr ''other''"
proof -
  have "\<not> list_ex (alias_matches '' Other '') built_in_aliases" by code_simp
  moreover have "filter (names_source '' Other '')
      [\<lparr> cs_id = ''other'', cs_label = ''Docs'', cs_branchName = None \<rparr>]
    = [\<lparr> cs_id = ''other'', cs_label = ''Docs'', cs_branchName = None \<rparr>]"
    by code_simp
  ultimately show ?thesis by (simp add: source_resolution_exact)
qed

theorem source_resolution_sound_witness:
  "\<exists>s \<in> set [\<lparr> cs_id = ''prochattools-workbench'', cs_label = ''W'', cs_branchName = None \<rparr>].
     cs_id s = ''prochattools-workbench'' \<and> (names_source ''workbench'' s \<or>
       (\<exists>a \<in> set built_in_aliases. alias_matches ''workbench'' a
         \<and> ''prochattools-workbench'' \<in> {al_canonicalId a, al_legacyId a}))"
proof (rule source_resolution_sound)
  show "resolve_configured_source_id ''workbench''
      [\<lparr> cs_id = ''prochattools-workbench'', cs_label = ''W'', cs_branchName = None \<rparr>]
    = Inr ''prochattools-workbench''"
    by code_simp
qed

theorem canonical_source_id_ambiguous_witness:
  "resolve_configured_source_id ''prochattools-mastermind''
     [\<lparr> cs_id = ''prochattools-mastermind'', cs_label = ''Mastermind'', cs_branchName = None \<rparr>]
   = Inl (''Ambiguous sourceId: '' @ ''prochattools-mastermind'')"
proof (rule canonical_source_id_ambiguous)
  show "normalize_name ''prochattools-mastermind'' = ''prochattools-mastermind''" by code_simp
qed

end
