(* ===== verification/Admission.thy ===== *)
theory Admission
  imports Session_Store Source_Identity
begin

text \<open>
  \<^verbatim>\<open>packages/cli/src/agent/workbench-admission-orchestrator.ts\<close> and the diagnostics it leaves,
  \<^verbatim>\<open>workbench-session-admission-diagnostics.ts\<close>: before an operation runs for a session it is
  admitted, which takes a budget lease (\<^verbatim>\<open>Global_Budget\<close>) and, for an operation on a
  repository, a place in its queue and a lease on it (\<^verbatim>\<open>Repository_Scheduler\<close>).

  The call is a sequence of atomic steps on three files with other processes running between
  them: an argument \<open>others\<close> says what these make of the files before each step
  (\<open>quiet\<close> when they do nothing). Each step has its own environment. An answer is \<open>None\<close> for an
  exception. Of the failures' texts only the one of a failed execution is kept.
\<close>

section \<open>Data\<close>

datatype admission_operation =
    OpStatus | OpApproval | OpRead | OpGit | OpInstall | OpIndex | OpWrite | OpMigrationExecute | OpDestructive

record admission_classification =
  ac_workerClass :: worker_class
  ac_repositoryClass :: "schedule_class option"

datatype admission_code =
    ADMISSION_INVALID_SESSION | ADMISSION_SOURCE_NOT_OWNED | ADMISSION_BUDGET_REJECTED
  | ADMISSION_REPOSITORY_REJECTED | ADMISSION_EXECUTION_FAILED

datatype admission_cause =
    NoCause | SessionCause session_failure | BudgetCause budget_failure
  | RepositoryCause scheduler_failure | ExecutionError string

type_synonym admission_failure = "admission_code \<times> admission_cause"

record admission_options =
  ao_workerId :: "string option"
  ao_leaseMs :: "int option"
  ao_now :: "string option"
  ao_limits :: "limits_config option"
  ao_maxLeases :: "int option"
  ao_maxRequests :: "int option"

record admission_input =
  ai_requestId :: "string option"
  ai_sessionId :: string
  ai_sourceId :: string
  ai_operation :: admission_operation
  ai_operationKind :: string
  ai_cost :: "int option"

record admission_lease =
  ad_requestId :: string
  ad_sessionId :: string
  ad_sourceId :: string
  ad_operation :: admission_operation
  ad_operationKind :: string
  ad_workerClass :: worker_class
  ad_repositoryClass :: "schedule_class option"
  ad_budgetLeaseId :: string
  ad_budgetLeaseProof :: string
  ad_repositoryRequestId :: "string option"
  ad_repositoryLeaseProof :: "string option"

primrec classify_operation :: "admission_operation \<Rightarrow> admission_classification" where
  "classify_operation OpStatus = \<lparr>ac_workerClass = WorkStatus, ac_repositoryClass = None\<rparr>"
| "classify_operation OpApproval = \<lparr>ac_workerClass = WorkApproval, ac_repositoryClass = None\<rparr>"
| "classify_operation OpRead = \<lparr>ac_workerClass = WorkRead, ac_repositoryClass = Some ReadShared\<rparr>"
| "classify_operation OpGit = \<lparr>ac_workerClass = WorkMutation, ac_repositoryClass = Some MutationExclusive\<rparr>"
| "classify_operation OpInstall = \<lparr>ac_workerClass = WorkMutation, ac_repositoryClass = Some MutationExclusive\<rparr>"
| "classify_operation OpIndex = \<lparr>ac_workerClass = WorkMutation, ac_repositoryClass = Some MutationExclusive\<rparr>"
| "classify_operation OpWrite = \<lparr>ac_workerClass = WorkMutation, ac_repositoryClass = Some MutationExclusive\<rparr>"
| "classify_operation OpMigrationExecute =
     \<lparr>ac_workerClass = WorkMutation, ac_repositoryClass = Some MutationExclusive\<rparr>"
| "classify_operation OpDestructive =
     \<lparr>ac_workerClass = WorkMutation, ac_repositoryClass = Some MutationExclusive\<rparr>"

section \<open>Diagnostics\<close>

datatype admission_predicate =
    Pred_session_not_found | Pred_session_store_error | Pred_expired | Pred_inactive | Pred_source_mismatch
  | Pred_budget_rejected | Pred_repository_rejected | Pred_execution_failed

record admission_diagnostic =
  dg_createdAt :: string
  dg_requestId :: "string option"
  dg_sessionId :: string
  dg_sourceId :: string
  dg_operation :: admission_operation
  dg_operationKind :: string
  dg_code :: admission_code
  dg_predicate :: admission_predicate

text \<open>
  The file holds the time of its last write and a list, in which \<open>None\<close> is a value that
  \<^verbatim>\<open>isDiagnostic\<close> rejects. It has no lock.
\<close>

type_synonym diagnostics_disk = "(string \<times> admission_diagnostic option list) disk"

definition max_diagnostics :: nat where "max_diagnostics = 256"

fun diagnostics_of :: "admission_diagnostic option list \<Rightarrow> admission_diagnostic list" where
  "diagnostics_of [] = []"
| "diagnostics_of (None # xs) = diagnostics_of xs"
| "diagnostics_of (Some x # xs) = x # diagnostics_of xs"

definition read_diagnostics :: "diagnostics_disk \<Rightarrow> admission_diagnostic list" where
  "read_diagnostics d =
     (case d of Stored (u, items) \<Rightarrow> slice_last max_diagnostics (diagnostics_of items) | _ \<Rightarrow> [])"

definition persist_diagnostics ::
  "io_env \<Rightarrow> admission_diagnostic list \<Rightarrow> diagnostics_disk \<Rightarrow> diagnostics_disk \<times> bool" where
  "persist_diagnostics e records d =
     write_disk e (io_saveNow e, map Some (slice_last max_diagnostics records)) d"

definition record_admission_diagnostic ::
  "io_env \<Rightarrow> (string \<Rightarrow> admission_diagnostic) \<Rightarrow> diagnostics_disk \<Rightarrow> diagnostics_disk" where
  "record_admission_diagnostic e diagnostic d =
     fst (persist_diagnostics e (read_diagnostics d @ [diagnostic (io_bodyNow e)]) d)"

section \<open>Admission\<close>

record admission_state =
  as_files :: session_files
  as_diagnostics :: diagnostics_disk

datatype admission_point =
    AtBudget | AtEnqueue | AtClaim | AtCancel | AtRelease | AtRepository | AtFallback | AtBudgetRelease

type_synonym interference = "admission_point \<Rightarrow> session_files \<Rightarrow> session_files"

definition quiet :: interference where "quiet p fs = fs"

record admission_env =
  ade_uuid :: string
  ade_budget :: io_env
  ade_enqueue :: io_env
  ade_claim :: io_env
  ade_cancel :: io_env
  ade_release :: io_env
  ade_diagnostic :: io_env

definition record_admission_failure ::
  "io_env \<Rightarrow> string option \<Rightarrow> admission_input \<Rightarrow> admission_code \<Rightarrow> admission_predicate
   \<Rightarrow> diagnostics_disk \<Rightarrow> diagnostics_disk" where
  "record_admission_failure e requestId i code pred d =
     record_admission_diagnostic e (\<lambda>now.
       \<lparr>dg_createdAt = now, dg_requestId = requestId, dg_sessionId = ai_sessionId i, dg_sourceId = ai_sourceId i,
        dg_operation = ai_operation i, dg_operationKind = ai_operationKind i, dg_code = code, dg_predicate = pred\<rparr>) d"

text \<open>A refusal: the files as they are, the diagnostic, and the answer.\<close>

definition refuse_admission ::
  "admission_env \<Rightarrow> string option \<Rightarrow> admission_input \<Rightarrow> admission_code \<Rightarrow> admission_predicate \<Rightarrow> admission_cause
   \<Rightarrow> session_files \<Rightarrow> diagnostics_disk \<Rightarrow> admission_state \<times> (admission_failure + admission_lease) option" where
  "refuse_admission e requestId i code pred cause fs d =
     (\<lparr>as_files = fs, as_diagnostics = record_admission_failure (ade_diagnostic e) requestId i code pred d\<rparr>,
      Some (Inl (code, cause)))"

text \<open>The session's check, with the predicate and the cause of its refusal.\<close>

definition admission_session ::
  "string \<Rightarrow> session_disk \<Rightarrow> (admission_predicate \<times> admission_cause) + work_session" where
  "admission_session sessionId d =
     (case get_workbench_session sessionId d of
        Inl f \<Rightarrow> Inl (Pred_session_store_error, SessionCause f)
      | Inr None \<Rightarrow> Inl (Pred_session_not_found, NoCause)
      | Inr (Some s) \<Rightarrow>
          if ws_status s \<noteq> SessActive
          then Inl (if ws_status s = SessCompleted then Pred_expired else Pred_inactive, NoCause)
          else Inr s)"

definition owns_source :: "configured_source list \<Rightarrow> work_session \<Rightarrow> string \<Rightarrow> bool" where
  "owns_source sources s sourceId =
     list_ex (\<lambda>locked. locked = sourceId \<or> resolve_configured_source_id locked sources = Inr sourceId)
       (ws_lockedSourceIds s)"

definition admission_budget_input ::
  "admission_options \<Rightarrow> admission_input \<Rightarrow> string \<Rightarrow> acquire_input" where
  "admission_budget_input opts i requestId =
     \<lparr>aq_requestId = requestId, aq_sessionId = ai_sessionId i, aq_sourceId = ai_sourceId i,
      aq_workerClass = ac_workerClass (classify_operation (ai_operation i)), aq_cost = ai_cost i,
      aq_leaseMs = ao_leaseMs opts, aq_now = ao_now opts\<rparr>"

definition admission_enqueue_input ::
  "admission_options \<Rightarrow> admission_input \<Rightarrow> string \<Rightarrow> schedule_class \<Rightarrow> enqueue_input" where
  "admission_enqueue_input opts i requestId cls =
     \<lparr>eq_requestId = Some requestId, eq_sessionId = ai_sessionId i, eq_sourceId = ai_sourceId i,
      eq_class = cls, eq_operationKind = ai_operationKind i, eq_now = ao_now opts\<rparr>"

definition admission_granted ::
  "admission_input \<Rightarrow> string \<Rightarrow> budget_lease \<Rightarrow> string \<Rightarrow> string option \<Rightarrow> admission_lease" where
  "admission_granted i requestId lease leaseProof repositoryProof =
     \<lparr>ad_requestId = requestId, ad_sessionId = ai_sessionId i, ad_sourceId = ai_sourceId i,
      ad_operation = ai_operation i, ad_operationKind = ai_operationKind i,
      ad_workerClass = ac_workerClass (classify_operation (ai_operation i)),
      ad_repositoryClass = ac_repositoryClass (classify_operation (ai_operation i)),
      ad_budgetLeaseId = gl_leaseId lease, ad_budgetLeaseProof = leaseProof,
      ad_repositoryRequestId =
        (if ac_repositoryClass (classify_operation (ai_operation i)) = None \<or> requestId = [] then None
         else Some requestId),
      ad_repositoryLeaseProof = (if truthy repositoryProof then repositoryProof else None)\<rparr>"

definition admission_id :: "string \<Rightarrow> admission_input \<Rightarrow> string" where
  "admission_id uuid i = or_else (ai_requestId i) (''admission-'' @ uuid)"

text \<open>Cancelling what was taken, on the two paths of a refusal by the scheduler.\<close>

definition give_back_budget ::
  "(string \<Rightarrow> string) \<Rightarrow> admission_options \<Rightarrow> io_env \<Rightarrow> budget_lease \<Rightarrow> string
   \<Rightarrow> session_files \<Rightarrow> session_files \<times> budget_lease answer" where
  "give_back_budget hash opts e lease leaseProof fs =
     (let (d', answer) = release_workbench_budget hash (ao_limits opts) e (gl_leaseId lease) leaseProof True
                           (ao_now opts) (sf_budget fs)
      in (fs\<lparr>sf_budget := d'\<rparr>, answer))"

definition acquire_repository ::
  "(string \<Rightarrow> string \<Rightarrow> int) \<Rightarrow> (string \<Rightarrow> string) \<Rightarrow> admission_options \<Rightarrow> admission_env \<Rightarrow> interference
   \<Rightarrow> admission_input \<Rightarrow> string \<Rightarrow> schedule_class \<Rightarrow> budget_lease \<Rightarrow> string \<Rightarrow> session_files \<Rightarrow> diagnostics_disk
   \<Rightarrow> admission_state \<times> (admission_failure + admission_lease) option" where
  "acquire_repository cmp hash opts e others i requestId cls lease leaseProof fs0 d =
     (let (fs1, queued) = enqueue_session_work cmp (ao_maxRequests opts) (ade_enqueue e)
                            (admission_enqueue_input opts i requestId cls) (others AtEnqueue fs0) in
      case queued of
        Inl f \<Rightarrow>
          (let (fs2, released) = give_back_budget hash opts (ade_release e) lease leaseProof (others AtRelease fs1) in
           if released = None then (\<lparr>as_files = fs2, as_diagnostics = d\<rparr>, None)
           else refuse_admission e (ai_requestId i) i ADMISSION_REPOSITORY_REJECTED Pred_repository_rejected
                  (RepositoryCause f) fs2 d)
      | Inr q \<Rightarrow>
          (let before = others AtClaim fs1;
               (d2, claimed) = claim_repository_work cmp hash (ao_maxRequests opts) (ade_claim e) requestId
                                 (or_else (ao_workerId opts) ''workbench-admission'') (ao_leaseMs opts) (ao_now opts)
                                 (sf_scheduler before);
               fs2 = before\<lparr>sf_scheduler := d2\<rparr>
           in case claimed of
             Inl f \<Rightarrow>
               (let cancelling = others AtCancel fs2;
                    d3 = fst (cancel_repository_work cmp (ao_maxRequests opts) (ade_cancel e) requestId (ao_now opts)
                                (sf_scheduler cancelling));
                    (fs4, released) = give_back_budget hash opts (ade_release e) lease leaseProof
                                        (others AtRelease (cancelling\<lparr>sf_scheduler := d3\<rparr>))
                in if released = None then (\<lparr>as_files = fs4, as_diagnostics = d\<rparr>, None)
                   else refuse_admission e (Some requestId) i ADMISSION_REPOSITORY_REJECTED Pred_repository_rejected
                          (RepositoryCause f) fs4 d)
           | Inr (r, repositoryProof) \<Rightarrow>
               (\<lparr>as_files = fs2, as_diagnostics = d\<rparr>,
                Some (Inr (admission_granted i requestId lease leaseProof (Some repositoryProof))))))"

definition acquire_workbench_admission ::
  "(string \<Rightarrow> string \<Rightarrow> int) \<Rightarrow> (string \<Rightarrow> string) \<Rightarrow> configured_source list \<Rightarrow> admission_options \<Rightarrow> admission_env
   \<Rightarrow> interference \<Rightarrow> admission_input \<Rightarrow> admission_state
   \<Rightarrow> admission_state \<times> (admission_failure + admission_lease) option" where
  "acquire_workbench_admission cmp hash sources opts e others i st =
     (let fs = as_files st; d = as_diagnostics st in
      case admission_session (ai_sessionId i) (sf_sessions fs) of
        Inl (pred, cause) \<Rightarrow>
          refuse_admission e (ai_requestId i) i ADMISSION_INVALID_SESSION pred cause fs d
      | Inr s \<Rightarrow>
          if \<not> owns_source sources s (ai_sourceId i)
          then refuse_admission e (ai_requestId i) i ADMISSION_SOURCE_NOT_OWNED Pred_source_mismatch NoCause fs d
          else
            (let requestId = admission_id (ade_uuid e) i;
                 before = others AtBudget fs;
                 (b, answer) = acquire_workbench_budget hash (ao_limits opts) (ao_maxLeases opts) (ade_budget e)
                                 (admission_budget_input opts i requestId) (sf_budget before);
                 fs1 = before\<lparr>sf_budget := b\<rparr>
             in case answer of
               None \<Rightarrow> (\<lparr>as_files = fs1, as_diagnostics = d\<rparr>, None)
             | Some (Inl f) \<Rightarrow>
                 refuse_admission e (ai_requestId i) i ADMISSION_BUDGET_REJECTED Pred_budget_rejected (BudgetCause f) fs1 d
             | Some (Inr (lease, leaseProof, u)) \<Rightarrow>
                 (case ac_repositoryClass (classify_operation (ai_operation i)) of
                    None \<Rightarrow>
                      (\<lparr>as_files = fs1, as_diagnostics = d\<rparr>, Some (Inr (admission_granted i requestId lease leaseProof None)))
                  | Some cls \<Rightarrow> acquire_repository cmp hash opts e others i requestId cls lease leaseProof fs1 d)))"

section \<open>Release\<close>

record release_env =
  re_repository :: io_env
  re_fallback :: io_env
  re_budget :: io_env

text \<open>
  The repository's half of a release, with the failure it leaves. A lease that the store
  already took back is answered with \<^verbatim>\<open>SCHEDULER_LEASE_CONFLICT\<close>, and then the request is
  cancelled without its proof.
\<close>

definition release_repository ::
  "(string \<Rightarrow> string \<Rightarrow> int) \<Rightarrow> (string \<Rightarrow> string) \<Rightarrow> admission_options \<Rightarrow> release_env \<Rightarrow> interference
   \<Rightarrow> bool \<Rightarrow> string \<Rightarrow> string option \<Rightarrow> session_files \<Rightarrow> session_files \<times> scheduler_failure option" where
  "release_repository cmp hash opts e others cancelled requestId leaseProof fs0 =
     (let fs = others AtRepository fs0;
          (d1, answer) =
            (if cancelled
             then cancel_repository_work cmp (ao_maxRequests opts) (re_repository e) requestId (ao_now opts) (sf_scheduler fs)
             else if truthy leaseProof
             then complete_repository_work cmp hash (ao_maxRequests opts) (re_repository e) requestId (the leaseProof)
                    (ao_now opts) (sf_scheduler fs)
             else (sf_scheduler fs, Inl SCHEDULER_LEASE_PROOF_INVALID));
          fs1 = fs\<lparr>sf_scheduler := d1\<rparr>
      in case answer of
           Inr r \<Rightarrow> (fs1, None)
         | Inl f \<Rightarrow>
             if f = SCHEDULER_LEASE_CONFLICT
             then (let fs2 = others AtFallback fs1;
                       (d2, fallback) = cancel_repository_work cmp (ao_maxRequests opts) (re_fallback e) requestId
                                          (ao_now opts) (sf_scheduler fs2)
                   in (fs2\<lparr>sf_scheduler := d2\<rparr>, case fallback of Inl g \<Rightarrow> Some f | Inr r \<Rightarrow> None))
             else (fs1, Some f))"

definition release_workbench_admission ::
  "(string \<Rightarrow> string \<Rightarrow> int) \<Rightarrow> (string \<Rightarrow> string) \<Rightarrow> admission_options \<Rightarrow> release_env \<Rightarrow> interference
   \<Rightarrow> bool \<Rightarrow> admission_lease \<Rightarrow> session_files \<Rightarrow> session_files \<times> (admission_failure + unit) option" where
  "release_workbench_admission cmp hash opts e others cancelled lease fs0 =
     (let (fs1, repositoryFailure) =
            (if truthy (ad_repositoryRequestId lease)
             then release_repository cmp hash opts e others cancelled (the (ad_repositoryRequestId lease))
                    (ad_repositoryLeaseProof lease) fs0
             else (fs0, None));
          fs2 = others AtBudgetRelease fs1;
          (b, budgetResult) = release_workbench_budget hash (ao_limits opts) (re_budget e) (ad_budgetLeaseId lease)
                                (ad_budgetLeaseProof lease) cancelled (ao_now opts) (sf_budget fs2);
          fs3 = fs2\<lparr>sf_budget := b\<rparr>
      in case budgetResult of
           None \<Rightarrow> (fs3, None)
         | Some answer \<Rightarrow>
             (fs3, Some (case repositoryFailure of
                Some f \<Rightarrow> Inl (ADMISSION_REPOSITORY_REJECTED, RepositoryCause f)
              | None \<Rightarrow> (case answer of
                  Inl f \<Rightarrow> Inl (ADMISSION_BUDGET_REJECTED, BudgetCause f)
                | Inr l \<Rightarrow> Inr ()))))"

section \<open>Execution\<close>

text \<open>
  The operation itself is an argument: what it and the other processes make of the files while
  it runs, and its result or the message of what it throws. When the release throws, the
  \<^verbatim>\<open>catch\<close> of the execution catches that too (\<open>release_error\<close> is its message) and releases again,
  as cancelled; an exception there ends the call.
\<close>

record execution_env =
  ee_acquire :: admission_env
  ee_release :: release_env
  ee_cancel :: release_env
  ee_diagnostic :: io_env
  ee_release_error :: string

definition execution_failed ::
  "(string \<Rightarrow> string \<Rightarrow> int) \<Rightarrow> (string \<Rightarrow> string) \<Rightarrow> admission_options \<Rightarrow> execution_env \<Rightarrow> interference
   \<Rightarrow> admission_input \<Rightarrow> admission_lease \<Rightarrow> string \<Rightarrow> session_files \<Rightarrow> diagnostics_disk
   \<Rightarrow> admission_state \<times> (admission_failure + 't) option" where
  "execution_failed cmp hash opts e others i lease err fs d =
     (let (fs', released) = release_workbench_admission cmp hash opts (ee_cancel e) others True lease fs in
      if released = None then (\<lparr>as_files = fs', as_diagnostics = d\<rparr>, None)
      else (\<lparr>as_files = fs', as_diagnostics = record_admission_failure (ee_diagnostic e) (ai_requestId i) i
                              ADMISSION_EXECUTION_FAILED Pred_execution_failed d\<rparr>,
            Some (Inl (ADMISSION_EXECUTION_FAILED, ExecutionError err))))"

definition execute_with_workbench_admission ::
  "(string \<Rightarrow> string \<Rightarrow> int) \<Rightarrow> (string \<Rightarrow> string) \<Rightarrow> configured_source list \<Rightarrow> admission_options \<Rightarrow> execution_env
   \<Rightarrow> interference \<Rightarrow> (session_files \<Rightarrow> session_files \<times> (string + 't)) \<Rightarrow> admission_input \<Rightarrow> admission_state
   \<Rightarrow> admission_state \<times> (admission_failure + 't) option" where
  "execute_with_workbench_admission cmp hash sources opts e others execute i st =
     (case acquire_workbench_admission cmp hash sources opts (ee_acquire e) others i st of
        (st1, None) \<Rightarrow> (st1, None)
      | (st1, Some (Inl f)) \<Rightarrow> (st1, Some (Inl f))
      | (st1, Some (Inr lease)) \<Rightarrow>
          (case execute (as_files st1) of
             (fs2, Inl err) \<Rightarrow> execution_failed cmp hash opts e others i lease err fs2 (as_diagnostics st1)
           | (fs2, Inr result) \<Rightarrow>
               (case release_workbench_admission cmp hash opts (ee_release e) others False lease fs2 of
                  (fs3, None) \<Rightarrow>
                    execution_failed cmp hash opts e others i lease (ee_release_error e) fs3 (as_diagnostics st1)
                | (fs3, Some (Inl f)) \<Rightarrow>
                    (\<lparr>as_files = fs3, as_diagnostics = record_admission_failure (ee_diagnostic e) (ai_requestId i) i (fst f)
                         (if fst f = ADMISSION_REPOSITORY_REJECTED then Pred_repository_rejected else Pred_budget_rejected)
                         (as_diagnostics st1)\<rparr>, Some (Inl f))
                | (fs3, Some (Inr u)) \<Rightarrow>
                    (\<lparr>as_files = fs3, as_diagnostics = as_diagnostics st1\<rparr>, Some (Inr result)))))"

section \<open>What a release closes\<close>

definition closed_request :: "string \<Rightarrow> schedule_request list \<Rightarrow> bool" where
  "closed_request i rs = list_all (\<lambda>r. sq_requestId r = i \<longrightarrow> terminal r) rs"

text \<open>The same once the file is opened at a time: a request that waited too long is closed then.\<close>

definition request_closed :: "string \<Rightarrow> string \<Rightarrow> schedule_request list \<Rightarrow> bool" where
  "request_closed t i rs = closed_request i (open_store t rs)"

lemma recover_id: "sq_requestId (time_out_queued now (requeue_expired now r)) = sq_requestId r"
  by (simp add: time_out_queued_def requeue_expired_def clear_lease_def)

lemma request_closed_mono: "closed_request i rs \<Longrightarrow> request_closed t i rs"
  unfolding request_closed_def closed_request_def open_store_def prune_terminal_entries_def recover_expired_leases_def
  by (auto simp: list_all_iff recover_id recover_terminal)

lemma with_store_closes:
  assumes "disk_inv d" "with_store cmp c e d cb = (d', Inr a)"
    and step: "\<And>rs saved. scheduler_inv rs \<Longrightarrow> cb rs = Some (Inr a, saved)
      \<Longrightarrow> closed_request i (case saved of None \<Rightarrow> rs | Some rs' \<Rightarrow> rs')"
  shows "on_file (request_closed (io_openNow e) i) d'"
proof -
  from assms(2) obtain rs where rs: "read_store d = Some rs" and
    "\<exists>saved. cb (open_store (io_openNow e) rs) = Some (Inr a, saved)
       \<and> d' = (case saved of None \<Rightarrow> d | Some rs' \<Rightarrow> Stored (io_saveNow e, retained cmp c rs'))"
    by (rule with_store_Inr)
  then obtain saved where cb: "cb (open_store (io_openNow e) rs) = Some (Inr a, saved)"
    and d': "d' = (case saved of None \<Rightarrow> d | Some rs' \<Rightarrow> Stored (io_saveNow e, retained cmp c rs'))" by blast
  have closed: "closed_request i (case saved of None \<Rightarrow> open_store (io_openNow e) rs | Some rs' \<Rightarrow> rs')"
    by (rule step [OF scheduler_inv_open [OF read_store_inv [OF assms(1) rs]] cb])
  show ?thesis
  proof (cases saved)
    case None
    with closed have "request_closed (io_openNow e) i rs" by (simp add: request_closed_def)
    then have "on_file (request_closed (io_openNow e) i) d" by (rule on_file_content [OF read_store_content [OF rs]])
    with None d' show ?thesis by simp
  next
    case (Some rs')
    have "closed_request i (retained cmp c rs')"
      using closed Some set_submset [OF mset_retained, of cmp c rs'] by (auto simp: closed_request_def list_all_iff)
    with Some d' show ?thesis by (simp add: request_closed_mono)
  qed
qed

lemma closed_update:
  assumes "scheduler_inv rs" "\<And>r. terminal (f r)"
  shows "closed_request i (update_request i f rs)"
  using assms by (auto simp: scheduler_inv_def update_request_map closed_request_def list_all_iff)

lemma closed_found:
  assumes "scheduler_inv rs" "request_with_id i rs = Some r" "terminal r"
  shows "closed_request i rs"
  unfolding closed_request_def list_all_iff
proof (intro ballI impI)
  fix x assume x: "x \<in> set rs" "sq_requestId x = i"
  have r: "r \<in> set rs" "sq_requestId r = i" using request_with_id_Some [OF assms(2)] by simp_all
  have "x = r" using assms(1) x r unfolding scheduler_inv_def by (metis distinct_map inj_on_eq_iff)
  with assms(3) show "terminal x" by simp
qed

lemma complete_closes:
  assumes "disk_inv d" "complete_repository_work cmp hash c e i p now d = (d', Inr r')"
  shows "on_file (request_closed (io_openNow e) i) d'"
proof -
  let ?t = "or_else now (io_startNow e)"
  let ?f = "\<lambda>r. clear_lease (r\<lparr>sq_status := SCompleted, sq_completedAt := Some ?t, sq_updatedAt := ?t\<rparr>)"
  define cb where "cb = (\<lambda>rs. case request_with_id i rs of
          None \<Rightarrow> Some (Inl SCHEDULER_REQUEST_NOT_FOUND, None)
        | Some r \<Rightarrow>
            if sq_status r \<noteq> SLeased then Some (Inl SCHEDULER_LEASE_CONFLICT, None)
            else if sq_leaseProofHash r \<noteq> Some (hash p)
            then Some (Inl SCHEDULER_LEASE_PROOF_INVALID, None)
            else Some (Inr (?f r), Some (update_request i ?f rs)))"
  have "with_store cmp c e d cb = (d', Inr r')"
    using assms(2) unfolding complete_repository_work_def Let_def cb_def by (simp split: if_splits)
  then show ?thesis
  proof (rule with_store_closes [OF assms(1)])
    fix rs saved assume inv: "scheduler_inv rs" and "cb rs = Some (Inr r', saved)"
    then have "saved = Some (update_request i ?f rs)"
      unfolding cb_def by (auto split: option.splits if_splits)
    moreover have "closed_request i (update_request i ?f rs)"
      by (rule closed_update [OF inv]) (simp add: terminal_def clear_lease_def)
    ultimately show "closed_request i (case saved of None \<Rightarrow> rs | Some rs' \<Rightarrow> rs')" by simp
  qed
qed

lemma cancel_closes:
  assumes "disk_inv d" "cancel_repository_work cmp c e i now d = (d', Inr r')"
  shows "on_file (request_closed (io_openNow e) i) d'"
proof -
  let ?f = "cancel_request (or_else now (io_startNow e))"
  define cb where "cb = (\<lambda>rs. case request_with_id i rs of
          None \<Rightarrow> Some (Inl SCHEDULER_REQUEST_NOT_FOUND, None)
        | Some r \<Rightarrow>
            if terminal r then Some (Inr r, None)
            else Some (Inr (?f r), Some (update_request i ?f rs)))"
  have "with_store cmp c e d cb = (d', Inr r')"
    using assms(2) unfolding cancel_repository_work_def Let_def cb_def by (simp split: if_splits)
  then show ?thesis
  proof (rule with_store_closes [OF assms(1)])
    fix rs saved assume inv: "scheduler_inv rs" and "cb rs = Some (Inr r', saved)"
    then obtain r where r: "request_with_id i rs = Some r"
      and saved: "saved = (if terminal r then None else Some (update_request i ?f rs))"
      unfolding cb_def by (auto split: option.splits if_splits)
    have "closed_request i (update_request i ?f rs)"
      by (rule closed_update [OF inv]) (simp add: terminal_def cancel_request_def clear_lease_def)
    with saved closed_found [OF inv r] show "closed_request i (case saved of None \<Rightarrow> rs | Some rs' \<Rightarrow> rs')"
      by (simp split: if_split)
  qed
qed

text \<open>The lease that a budget file finds under an id is not active.\<close>

definition budget_closed :: "string \<Rightarrow> budget_disk \<Rightarrow> bool" where
  "budget_closed i d = (case d of Stored s \<Rightarrow>
     (case List.find (\<lambda>l. gl_leaseId l = i) (gs_leases s) of None \<Rightarrow> True | Some l \<Rightarrow> gl_status l \<noteq> BudgetActive)
   | _ \<Rightarrow> True)"

lemma find_modify_first_self:
  "List.find p xs = Some x \<Longrightarrow> (\<And>y. p (f y) = p y) \<Longrightarrow> List.find p (modify_first p f xs) = Some (f x)"
  by (induction xs) (auto split: if_splits)

lemma finish_lease_closed [simp]:
  "gl_status (finish_lease b now l) \<noteq> BudgetActive" "gl_leaseId (finish_lease b now l) = gl_leaseId l"
  by (simp_all add: finish_lease_def)

lemma release_budget_closes:
  assumes "release_workbench_budget hash c e i p b now0 d = (d', Some (Inr l'))"
  shows "budget_closed i d'"
proof -
  define now where "now = or_default now0 (io_openNow e)"
  define cb where "cb = (\<lambda>s0. let s = open_budget now s0 in
        case List.find (\<lambda>l. gl_leaseId l = i) (gs_leases s) of
          None \<Rightarrow> Some (Inl BUDGET_LEASE_NOT_FOUND, None)
        | Some l \<Rightarrow>
            if gl_leaseProofHash l \<noteq> hash p then Some (Inl BUDGET_LEASE_PROOF_INVALID, None)
            else if gl_status l \<noteq> BudgetActive then Some (Inr l, Some (s\<lparr>gs_updatedAt := now\<rparr>))
            else Some (Inr (finish_lease b now l),
                   Some (s\<lparr>gs_leases := modify_first (\<lambda>l. gl_leaseId l = i) (finish_lease b now) (gs_leases s),
                           gs_updatedAt := now\<rparr>)))"
  have "with_lock e c d cb = (d', Some (Inr l'))"
    using assms unfolding release_workbench_budget_def Let_def cb_def now_def by (simp split: if_splits)
  then obtain s where "\<exists>saved. cb s = Some (Inr l', saved) \<and> d' = (case saved of None \<Rightarrow> d | Some s' \<Rightarrow> Stored s')"
    by (rule with_lock_Inr)
  then obtain saved where saved: "cb s = Some (Inr l', saved)" "d' = (case saved of None \<Rightarrow> d | Some s' \<Rightarrow> Stored s')"
    by blast
  then obtain l where l: "List.find (\<lambda>l. gl_leaseId l = i) (gs_leases (open_budget now s)) = Some l"
    unfolding cb_def Let_def by (auto split: option.splits)
  show ?thesis
  proof (cases "gl_status l = BudgetActive")
    case True
    then have "d' = Stored ((open_budget now s)\<lparr>gs_leases := modify_first (\<lambda>l. gl_leaseId l = i) (finish_lease b now)
        (gs_leases (open_budget now s)), gs_updatedAt := now\<rparr>)"
      using saved l unfolding cb_def Let_def by (auto split: if_splits)
    moreover have "List.find (\<lambda>l. gl_leaseId l = i) (modify_first (\<lambda>l. gl_leaseId l = i) (finish_lease b now)
        (gs_leases (open_budget now s))) = Some (finish_lease b now l)"
      by (rule find_modify_first_self [OF l]) simp
    ultimately show ?thesis by (simp add: budget_closed_def)
  next
    case False
    then have "d' = Stored ((open_budget now s)\<lparr>gs_updatedAt := now\<rparr>)"
      using saved l unfolding cb_def Let_def by (auto split: if_splits)
    with False l show ?thesis by (simp add: budget_closed_def)
  qed
qed

text \<open>A repository's half of a release that leaves no failure.\<close>

lemma release_repository_closes:
  assumes "disk_inv (sf_scheduler fs)"
    and "release_repository cmp hash opts e quiet cancelled i p fs = (fs', None)"
  shows "sf_budget fs' = sf_budget fs
    \<and> (\<exists>t \<in> {io_openNow (re_repository e), io_openNow (re_fallback e)}. on_file (request_closed t i) (sf_scheduler fs'))"
proof -
  let ?first = "if cancelled
      then cancel_repository_work cmp (ao_maxRequests opts) (re_repository e) i (ao_now opts) (sf_scheduler fs)
      else if truthy p
      then complete_repository_work cmp hash (ao_maxRequests opts) (re_repository e) i (the p) (ao_now opts) (sf_scheduler fs)
      else (sf_scheduler fs, Inl SCHEDULER_LEASE_PROOF_INVALID)"
  obtain d1 answer where first: "?first = (d1, answer)" by (cases ?first)
  have inv1: "disk_inv d1"
    using assms(1) first complete_inv cancel_inv by (metis (no_types, lifting) fst_conv)
  show ?thesis
  proof (cases answer)
    case (Inr r)
    have "on_file (request_closed (io_openNow (re_repository e)) i) d1"
      using first Inr cancel_closes [OF assms(1)] complete_closes [OF assms(1)] by (simp split: if_splits)
    moreover have "fs' = fs\<lparr>sf_scheduler := d1\<rparr>"
      using assms(2) unfolding release_repository_def Let_def quiet_def first Inr by simp
    ultimately show ?thesis by simp
  next
    case (Inl f)
    obtain d2 fallback where second:
      "cancel_repository_work cmp (ao_maxRequests opts) (re_fallback e) i (ao_now opts) d1 = (d2, fallback)"
      by (cases "cancel_repository_work cmp (ao_maxRequests opts) (re_fallback e) i (ao_now opts) d1")
    have "\<exists>r. fallback = Inr r" and fs': "fs' = fs\<lparr>sf_scheduler := d2\<rparr>"
      using assms(2) second unfolding release_repository_def Let_def quiet_def first Inl
      by (cases "f = SCHEDULER_LEASE_CONFLICT"; cases fallback; simp)+
    then have "on_file (request_closed (io_openNow (re_fallback e)) i) d2"
      using cancel_closes [OF inv1] second by blast
    with fs' show ?thesis by simp
  qed
qed

section \<open>What an admission saw\<close>

lemma refuse_admission_Inl [simp]: "snd (refuse_admission e rid i code pred cause fs d) = Some (Inl (code, cause))"
  by (simp add: refuse_admission_def)

lemma refuse_admission_neq [simp]: "refuse_admission e rid i code pred cause fs d \<noteq> (st, Some (Inr lease))"
  by (simp add: refuse_admission_def)

lemma acquire_repository_Inr:
  assumes "acquire_repository cmp hash opts e others i q cls l p fs0 d = (st', Some (Inr lease))"
  obtains fs1 x r proof2 d2 where
    "enqueue_session_work cmp (ao_maxRequests opts) (ade_enqueue e) (admission_enqueue_input opts i q cls)
       (others AtEnqueue fs0) = (fs1, Inr x)"
    "claim_repository_work cmp hash (ao_maxRequests opts) (ade_claim e) q
       (or_else (ao_workerId opts) ''workbench-admission'') (ao_leaseMs opts) (ao_now opts)
       (sf_scheduler (others AtClaim fs1)) = (d2, Inr (r, proof2))"
    "as_files st' = (others AtClaim fs1)\<lparr>sf_scheduler := d2\<rparr>"
    "lease = admission_granted i q l p (Some proof2)"
proof -
  obtain fs1 queued where enq: "enqueue_session_work cmp (ao_maxRequests opts) (ade_enqueue e)
      (admission_enqueue_input opts i q cls) (others AtEnqueue fs0) = (fs1, queued)" by (meson surj_pair)
  obtain d2 claimed where claim: "claim_repository_work cmp hash (ao_maxRequests opts) (ade_claim e) q
      (or_else (ao_workerId opts) ''workbench-admission'') (ao_leaseMs opts) (ao_now opts)
      (sf_scheduler (others AtClaim fs1)) = (d2, claimed)" by (meson surj_pair)
  note unfolded = assms[unfolded acquire_repository_def enq Let_def prod.case]
  obtain x where x: "queued = Inr x"
    using unfolded by (cases queued) (auto split: prod.splits if_splits)
  obtain r proof2 where r: "claimed = Inr (r, proof2)"
    using unfolded unfolding x sum.case claim prod.case
    by (cases claimed) (auto split: prod.splits if_splits)
  have "as_files st' = (others AtClaim fs1)\<lparr>sf_scheduler := d2\<rparr>" "lease = admission_granted i q l p (Some proof2)"
    using unfolded unfolding x sum.case claim r prod.case by auto
  with enq claim show thesis unfolding x r by (rule that)
qed

lemma acquire_admission_Inr:
  assumes "acquire_workbench_admission cmp hash sources opts e others i st = (st', Some (Inr lease))"
  obtains s b l p u where
    "admission_session (ai_sessionId i) (sf_sessions (as_files st)) = Inr s" "owns_source sources s (ai_sourceId i)"
    "acquire_workbench_budget hash (ao_limits opts) (ao_maxLeases opts) (ade_budget e)
       (admission_budget_input opts i (admission_id (ade_uuid e) i))
       (sf_budget (others AtBudget (as_files st))) = (b, Some (Inr (l, p, u)))"
    "case ac_repositoryClass (classify_operation (ai_operation i)) of
       None \<Rightarrow> as_files st' = (others AtBudget (as_files st))\<lparr>sf_budget := b\<rparr>
         \<and> lease = admission_granted i (admission_id (ade_uuid e) i) l p None
     | Some cls \<Rightarrow> acquire_repository cmp hash opts e others i (admission_id (ade_uuid e) i)
         cls l p ((others AtBudget (as_files st))\<lparr>sf_budget := b\<rparr>) (as_diagnostics st) = (st', Some (Inr lease))"
proof -
  define q where "q = admission_id (ade_uuid e) i"
  obtain b answer where budget: "acquire_workbench_budget hash (ao_limits opts) (ao_maxLeases opts) (ade_budget e)
      (admission_budget_input opts i q) (sf_budget (others AtBudget (as_files st))) = (b, answer)" by (meson surj_pair)
  note unfolded = assms[unfolded acquire_workbench_admission_def Let_def, folded q_def, unfolded budget prod.case]
  obtain s where s: "admission_session (ai_sessionId i) (sf_sessions (as_files st)) = Inr s"
    using unfolded by (cases "admission_session (ai_sessionId i) (sf_sessions (as_files st))") (auto split: prod.splits)
  have own: "owns_source sources s (ai_sourceId i)"
    using unfolded unfolding s sum.case by (cases "owns_source sources s (ai_sourceId i)") simp_all
  obtain l p u where l: "answer = Some (Inr (l, p, u))"
    using unfolded own unfolding s sum.case
    by (cases answer; cases "the answer") (auto split: prod.splits)
  show thesis
    using that[of s b l p u] s own budget unfolded unfolding l q_def[symmetric]
    by (cases "ac_repositoryClass (classify_operation (ai_operation i))") auto
qed

lemma admission_session_Inr:
  assumes "admission_session i d = Inr s"
  obtains x where "x \<in> set (file_sessions d)" "ws_sessionId x = i" "ws_status x = SessActive"
    "set (ws_lockedSourceIds x) = set (ws_lockedSourceIds s)"
proof -
  from assms obtain rs where rs: "read_sessions d = Some rs" "session_with_id i rs = Some s" "ws_status s = SessActive"
    by (auto simp: admission_session_def get_workbench_session_def split: if_splits option.splits sum.splits)
  have s: "s \<in> set rs" "ws_sessionId s = i" using session_with_id_Some [OF rs(2)] by simp_all
  from s(1) obtain x where x: "x \<in> set (file_sessions d)" "s = x\<lparr>ws_lockedSourceIds := sort (ws_lockedSourceIds x)\<rparr>"
    unfolding read_file_sessions [OF rs(1)] set_map image_iff by blast
  show thesis by (rule that [OF x(1)]) (use s(2) rs(3) in \<open>simp_all add: x(2)\<close>)
qed

section \<open>Other processes\<close>

text \<open>
  Other processes run scheduler operations only, and none of them enqueues under the id of this
  admission (a random UUID unless the caller names one): whatever a file then holds under it was
  there before, for the same source and of the same class.
\<close>

definition others_respect ::
  "(string \<Rightarrow> string \<Rightarrow> int) \<Rightarrow> (string \<Rightarrow> string) \<Rightarrow> string \<Rightarrow> interference \<Rightarrow> bool" where
  "others_respect cmp hash q others =
     (\<forall>p fs. (scheduler_reachable cmp hash (sf_scheduler fs) \<longrightarrow> scheduler_reachable cmp hash (sf_scheduler (others p fs)))
        \<and> (\<forall>r \<in> set (stored_requests (sf_scheduler (others p fs))). sq_requestId r = q \<longrightarrow>
             (\<exists>r0 \<in> set (stored_requests (sf_scheduler fs)).
                sq_requestId r0 = q \<and> sq_sourceId r0 = sq_sourceId r \<and> sq_class r0 = sq_class r)))"

lemma quiet_respects [simp]: "others_respect cmp hash q quiet"
  by (auto simp: others_respect_def quiet_def)

lemma read_stored: "read_store d = Some rs \<Longrightarrow> stored_requests d = rs"
  by (cases d) (auto simp: read_store_def stored_requests_def split: if_splits)

lemma retained_open: "r \<in> set rs \<Longrightarrow> \<not> terminal r \<Longrightarrow> r \<in> set (retained cmp c rs)"
  by (simp add: retained_def)

lemma opened_origin:
  assumes "r \<in> set (open_store t rs)"
  shows "\<exists>r0 \<in> set rs. sq_requestId r0 = sq_requestId r \<and> sq_sourceId r0 = sq_sourceId r \<and> sq_class r0 = sq_class r
    \<and> sq_enqueuedAt r0 = sq_enqueuedAt r"
proof -
  from assms obtain x where "x \<in> set rs" "r = time_out_queued t (requeue_expired t x)"
    by (auto simp: open_store_def prune_terminal_entries_def recover_expired_leases_def)
  then show ?thesis
    by (intro bexI [of _ x]) (simp_all add: time_out_queued_def requeue_expired_def clear_lease_def)
qed

text \<open>A new request is on file with its source and class, and it is the only one of its id.\<close>

lemma enqueue_fresh:
  assumes "enqueue_repository_work cmp c session e i d = (d', Inr x)" "eq_requestId i = Some q" "q \<noteq> []"
    and fresh: "q \<notin> sq_requestId ` set (stored_requests d)"
    and r: "r \<in> set (stored_requests d')" "sq_requestId r = q"
  shows "sq_sourceId r = eq_sourceId i \<and> sq_class r = eq_class i"
proof -
  let ?t = "or_else (eq_now i) (io_startNow e)"
  let ?q = "or_else (eq_requestId i) (''schedule-'' @ io_uuid e)"
  have q: "?q = q" using assms(2,3) by (simp add: or_else_def truthy_def)
  obtain sources where s: "session = Some sources" "eq_sourceId i \<in> set sources"
    and ok: "valid_id ?q" "valid_id (eq_sessionId i)" "valid_id (eq_sourceId i)" "0 < length (eq_operationKind i)"
      "length (eq_operationKind i) \<le> 120" "valid_iso ?t"
    using assms(1) by (auto simp: enqueue_repository_work_def Let_def split: if_splits option.splits)
  have "with_store cmp c e d (enqueue_callback q ?t i) = (d', Inr x)"
    using assms(1) s enqueue_valid [OF ok s(2)] unfolding q by simp
  then obtain rs where rs: "read_store d = Some rs" and
    "\<exists>saved. enqueue_callback q ?t i (open_store (io_openNow e) rs) = Some (Inr x, saved)
       \<and> d' = (case saved of None \<Rightarrow> d | Some rs' \<Rightarrow> Stored (io_saveNow e, retained cmp c rs'))"
    by (rule with_store_Inr)
  then obtain saved where cb: "enqueue_callback q ?t i (open_store (io_openNow e) rs) = Some (Inr x, saved)"
    and d': "d' = (case saved of None \<Rightarrow> d | Some rs' \<Rightarrow> Stored (io_saveNow e, retained cmp c rs'))" by blast
  have no: "sq_requestId y \<noteq> q" if "y \<in> set (open_store (io_openNow e) rs)" for y
    using opened_origin [OF that] fresh read_stored [OF rs] by (metis image_eqI)
  then have "request_with_id q (open_store (io_openNow e) rs) = None"
    by (auto simp: request_with_id_def find_None_iff)
  then obtain new where saved: "saved = Some (open_store (io_openNow e) rs @ [new])"
    and new: "sq_sourceId new = eq_sourceId i" "sq_class new = eq_class i"
    using cb by (auto simp: enqueue_callback_def Let_def)
  have "r \<in> set (retained cmp c (open_store (io_openNow e) rs @ [new]))"
    using r(1) d' saved by (simp add: stored_requests_def)
  then have "r \<in> set (open_store (io_openNow e) rs @ [new])"
    by (rule subsetD [OF set_submset [OF mset_retained]])
  then have "r = new" using no r(2) by auto
  then show ?thesis using new by simp
qed

text \<open>What a claim leaves on file, and where the claimed request comes from.\<close>

lemma claim_stores:
  assumes "claim_repository_work cmp hash c e rid wid ms now d = (d', Inr (r', p))"
  obtains t rs r0 where "d' = Stored (t, rs)" "r' \<in> set rs"
    "r0 \<in> set (stored_requests d)" "sq_requestId r0 = rid" "sq_sourceId r0 = sq_sourceId r'" "sq_class r0 = sq_class r'"
    "sq_requestId r' = rid" "sq_status r' = SLeased" "sq_leaseProofHash r' = Some (hash p)"
proof -
  let ?t = "or_else now (io_startNow e)"
  let ?f = "\<lambda>x r. r\<lparr>sq_status := SLeased, sq_leaseOwner := Some wid,
                   sq_leaseProofHash := Some (hash (io_random e)),
                   sq_leaseAcquiredAt := Some ?t, sq_leaseExpiresAt := Some x, sq_updatedAt := ?t\<rparr>"
  define cb where "cb = (\<lambda>rs. case request_with_id rid rs of
          None \<Rightarrow> Some (Inl SCHEDULER_REQUEST_NOT_FOUND, None)
        | Some r \<Rightarrow>
            if \<not> eligible r rs then Some (Inl SCHEDULER_NOT_ELIGIBLE, None)
            else case time_plus ?t (claim_lease_ms ms) of
              None \<Rightarrow> None
            | Some expiry \<Rightarrow> Some (Inr (?f expiry r, io_random e), Some (update_request rid (?f expiry) rs)))"
  have "with_store cmp c e d cb = (d', Inr (r', p))"
    using assms unfolding claim_repository_work_def Let_def cb_def by (simp split: if_splits)
  then obtain rs where rs: "read_store d = Some rs" and
    "\<exists>saved. cb (open_store (io_openNow e) rs) = Some (Inr (r', p), saved)
       \<and> d' = (case saved of None \<Rightarrow> d | Some rs' \<Rightarrow> Stored (io_saveNow e, retained cmp c rs'))"
    by (rule with_store_Inr)
  then obtain saved where cb: "cb (open_store (io_openNow e) rs) = Some (Inr (r', p), saved)"
    and d': "d' = (case saved of None \<Rightarrow> d | Some rs' \<Rightarrow> Stored (io_saveNow e, retained cmp c rs'))" by blast
  obtain r x where r: "request_with_id rid (open_store (io_openNow e) rs) = Some r" "r' = ?f x r" "p = io_random e"
    "saved = Some (update_request rid (?f x) (open_store (io_openNow e) rs))"
  proof (cases "request_with_id rid (open_store (io_openNow e) rs)")
    case None
    then show ?thesis using cb by (simp add: cb_def)
  next
    case (Some r)
    then have "eligible r (open_store (io_openNow e) rs)" using cb by (simp add: cb_def split: if_splits)
    with Some cb obtain x where x: "time_plus ?t (claim_lease_ms ms) = Some x"
      by (cases "time_plus ?t (claim_lease_ms ms)") (simp_all add: cb_def)
    have "cb (open_store (io_openNow e) rs)
        = Some (Inr (?f x r, io_random e), Some (update_request rid (?f x) (open_store (io_openNow e) rs)))"
      using Some x \<open>eligible r (open_store (io_openNow e) rs)\<close> by (simp add: cb_def)
    then have "?f x r = r' \<and> io_random e = p
        \<and> Some (update_request rid (?f x) (open_store (io_openNow e) rs)) = saved"
      unfolding cb by (simp only: option.inject prod.inject sum.inject)
    then show ?thesis by (elim conjE) (rule that [OF Some, of x]; rule sym, assumption)
  qed
  have found: "r \<in> set (open_store (io_openNow e) rs)" "sq_requestId r = rid"
    using request_with_id_Some [OF r(1)] by simp_all
  have "r' \<in> set (update_request rid (?f x) (open_store (io_openNow e) rs))"
    unfolding r(2) update_request_def by (rule find_modify_first [OF r(1) [unfolded request_with_id_def]])
  moreover have "\<not> terminal r'" using r(2) by (simp add: terminal_def)
  ultimately have "r' \<in> set (retained cmp c (update_request rid (?f x) (open_store (io_openNow e) rs)))"
    by (rule retained_open)
  moreover obtain r0 where "r0 \<in> set rs" "sq_requestId r0 = sq_requestId r" "sq_sourceId r0 = sq_sourceId r" "sq_class r0 = sq_class r"
    using opened_origin [OF found(1)] by blast
  ultimately show thesis
    using that[of "io_saveNow e" "retained cmp c (update_request rid (?f x) (open_store (io_openNow e) rs))" r0]
      d' r found read_stored [OF rs] by simp
qed

text \<open>
  A release that answers success leaves nothing of the admission behind, whether it
  completes or cancels, with or without its lease still being alive: the request is closed in
  the queue and the budget lease is no longer active.
\<close>

lemma release_admission_closes:
  assumes "disk_inv (sf_scheduler fs)"
    and "release_workbench_admission cmp hash opts e quiet cancelled lease fs = (fs', Some (Inr ()))"
  shows "budget_closed (ad_budgetLeaseId lease) (sf_budget fs') \<and> sf_sessions fs' = sf_sessions fs
    \<and> (truthy (ad_repositoryRequestId lease) \<longrightarrow>
         (\<exists>t \<in> {io_openNow (re_repository e), io_openNow (re_fallback e)}.
            on_file (request_closed t (the (ad_repositoryRequestId lease))) (sf_scheduler fs')))"
proof -
  let ?half = "if truthy (ad_repositoryRequestId lease)
      then release_repository cmp hash opts e quiet cancelled (the (ad_repositoryRequestId lease))
             (ad_repositoryLeaseProof lease) fs
      else (fs, None)"
  obtain fs1 failure where half: "?half = (fs1, failure)" by (cases ?half)
  obtain b answer where budget: "release_workbench_budget hash (ao_limits opts) (re_budget e) (ad_budgetLeaseId lease)
      (ad_budgetLeaseProof lease) cancelled (ao_now opts) (sf_budget fs1) = (b, answer)" by (meson surj_pair)
  have ok: "failure = None \<and> (\<exists>l. answer = Some (Inr l)) \<and> fs' = fs1\<lparr>sf_budget := b\<rparr>"
    using assms(2) unfolding release_workbench_admission_def half quiet_def Let_def
    by (simp add: budget split: option.splits sum.splits)
  then obtain l where "answer = Some (Inr l)" by blast
  then have "budget_closed (ad_budgetLeaseId lease) (sf_budget fs')"
    using ok budget release_budget_closes by fastforce
  moreover have "sf_sessions fs1 = sf_sessions fs"
    using half
    by (auto simp: release_repository_def Let_def quiet_def split: if_splits prod.splits sum.splits)
  moreover have "\<exists>t \<in> {io_openNow (re_repository e), io_openNow (re_fallback e)}.
      on_file (request_closed t (the (ad_repositoryRequestId lease))) (sf_scheduler fs')"
    if "truthy (ad_repositoryRequestId lease)"
    using half that ok release_repository_closes [OF assms(1), of cmp hash opts e cancelled] by simp
  ultimately show ?thesis using ok by simp
qed

text \<open>The budget's half is the last step, so that its lease is closed whatever others do.\<close>

lemma release_ends_budget:
  assumes "release_workbench_admission cmp hash opts e others cancelled lease fs = (fs', Some (Inr ()))"
  shows "budget_closed (ad_budgetLeaseId lease) (sf_budget fs')"
proof -
  let ?half = "if truthy (ad_repositoryRequestId lease)
      then release_repository cmp hash opts e others cancelled (the (ad_repositoryRequestId lease))
             (ad_repositoryLeaseProof lease) fs
      else (fs, None)"
  obtain fs1 failure where half: "?half = (fs1, failure)" by (cases ?half)
  obtain b answer where budget: "release_workbench_budget hash (ao_limits opts) (re_budget e) (ad_budgetLeaseId lease)
      (ad_budgetLeaseProof lease) cancelled (ao_now opts) (sf_budget (others AtBudgetRelease fs1)) = (b, answer)"
    by (meson surj_pair)
  have "(\<exists>l. answer = Some (Inr l)) \<and> sf_budget fs' = b"
    using assms unfolding release_workbench_admission_def half Let_def
    by (auto simp: budget split: option.splits sum.splits)
  then show ?thesis using budget release_budget_closes by fastforce
qed

lemma enqueue_session_inv: "disk_inv (sf_scheduler fs) \<Longrightarrow> disk_inv (sf_scheduler (fst (enqueue_session_work cmp c e i fs)))"
  using enqueue_inv [of "sf_scheduler fs" cmp c _ e i] by (simp add: enqueue_session_work_def split: prod.splits) (metis fst_conv)

lemma give_back_scheduler [simp]: "sf_scheduler (fst (give_back_budget hash opts e l p fs)) = sf_scheduler fs"
  by (simp add: give_back_budget_def split: prod.splits)

lemma give_back_scheduler_eq: "give_back_budget hash opts e l p fs = (fs', a) \<Longrightarrow> sf_scheduler fs' = sf_scheduler fs"
  using give_back_scheduler [of hash opts e l p fs] by simp

lemma acquire_repository_keeps_inv:
  assumes "disk_inv (sf_scheduler fs)"
  shows "disk_inv (sf_scheduler (as_files (fst (acquire_repository cmp hash opts e quiet i q cls l p fs d))))"
proof -
  obtain fs1 queued where enq: "enqueue_session_work cmp (ao_maxRequests opts) (ade_enqueue e)
      (admission_enqueue_input opts i q cls) fs = (fs1, queued)" by (meson surj_pair)
  have inv1: "disk_inv (sf_scheduler fs1)" using enqueue_session_inv [OF assms] enq by (metis fst_conv)
  obtain d2 claimed where claim: "claim_repository_work cmp hash (ao_maxRequests opts) (ade_claim e) q
      (or_else (ao_workerId opts) ''workbench-admission'') (ao_leaseMs opts) (ao_now opts) (sf_scheduler fs1) = (d2, claimed)"
    by (meson surj_pair)
  have inv2: "disk_inv d2" using claim_inv [OF inv1] claim by (metis fst_conv)
  show ?thesis
    using inv1 inv2 cancel_inv [OF inv2]
    unfolding acquire_repository_def quiet_def enq Let_def prod.case claim refuse_admission_def
    by (cases queued; cases claimed) (auto split: prod.splits dest!: give_back_scheduler_eq)
qed

lemma acquire_keeps_inv:
  assumes "disk_inv (sf_scheduler (as_files st))"
  shows "disk_inv (sf_scheduler (as_files (fst (acquire_workbench_admission cmp hash sources opts e quiet i st))))"
  using assms acquire_repository_keeps_inv
  by (auto simp: acquire_workbench_admission_def refuse_admission_def quiet_def Let_def split: prod.splits sum.splits option.splits)

text \<open>The answer and the files without the diagnostics.\<close>

definition decided :: "admission_state \<times> 'a \<Rightarrow> session_files \<times> 'a" where
  "decided r = (as_files (fst r), snd r)"

lemma acquire_repository_decided:
  "decided (acquire_repository cmp hash opts (e\<lparr>ade_diagnostic := e'\<rparr>) others i q cls l p fs d)
   = decided (acquire_repository cmp hash opts e others i q cls l p fs d')"
  by (simp add: decided_def acquire_repository_def refuse_admission_def Let_def split: prod.splits sum.splits)

section \<open>Properties\<close>

text \<open>
  C27. An admission is bound to its session: it is granted only for a session that is on file and
  active and that has the source among its locked sources, by its id or by a configured alias of
  it; and the budget lease whose id and proof it hands out is one the acquisition answered active,
  charged to that session, source, request and worker class, stored under the digest of that proof,
  and on the file the acquisition wrote, unless the configured bound of that file is negative.
\<close>

theorem admission_bound_to_session:
  assumes "acquire_workbench_admission cmp hash sources opts e others i st = (st', Some (Inr lease))"
  shows "(\<exists>s \<in> set (file_sessions (sf_sessions (as_files st))).
      ws_sessionId s = ad_sessionId lease \<and> ws_status s = SessActive
      \<and> (\<exists>locked \<in> set (ws_lockedSourceIds s). locked = ad_sourceId lease
           \<or> resolve_configured_source_id locked sources = Inr (ad_sourceId lease)))
    \<and> (\<exists>b l p u. acquire_workbench_budget hash (ao_limits opts) (ao_maxLeases opts) (ade_budget e)
          (admission_budget_input opts i (ad_requestId lease)) (sf_budget (others AtBudget (as_files st)))
            = (b, Some (Inr (l, p, u)))
        \<and> gl_leaseId l = ad_budgetLeaseId lease \<and> p = ad_budgetLeaseProof lease
        \<and> gl_status l = BudgetActive \<and> gl_sessionId l = ad_sessionId lease \<and> gl_sourceId l = ad_sourceId lease
        \<and> gl_requestId l = ad_requestId lease \<and> gl_workerClass l = ad_workerClass lease
        \<and> gl_leaseProofHash l = hash (ad_budgetLeaseProof lease)
        \<and> (0 \<le> or_default (ao_maxLeases opts) 1000 \<longrightarrow> (\<exists>f. b = Stored f \<and> l \<in> set (gs_leases f))))"
proof -
  from assms obtain s b l p u where s: "admission_session (ai_sessionId i) (sf_sessions (as_files st)) = Inr s"
      "owns_source sources s (ai_sourceId i)"
    and budget: "acquire_workbench_budget hash (ao_limits opts) (ao_maxLeases opts) (ade_budget e)
       (admission_budget_input opts i (admission_id (ade_uuid e) i))
       (sf_budget (others AtBudget (as_files st))) = (b, Some (Inr (l, p, u)))"
    and rest: "case ac_repositoryClass (classify_operation (ai_operation i)) of
       None \<Rightarrow> as_files st' = (others AtBudget (as_files st))\<lparr>sf_budget := b\<rparr>
         \<and> lease = admission_granted i (admission_id (ade_uuid e) i) l p None
     | Some cls \<Rightarrow> acquire_repository cmp hash opts e others i (admission_id (ade_uuid e) i)
         cls l p ((others AtBudget (as_files st))\<lparr>sf_budget := b\<rparr>) (as_diagnostics st) = (st', Some (Inr lease))"
    by (rule acquire_admission_Inr)
  obtain proof2 where lease: "lease = admission_granted i (admission_id (ade_uuid e) i) l p proof2"
    using rest
    by (cases "ac_repositoryClass (classify_operation (ai_operation i))") (auto elim: acquire_repository_Inr)
  obtain x where x: "x \<in> set (file_sessions (sf_sessions (as_files st)))" "ws_sessionId x = ai_sessionId i"
    "ws_status x = SessActive" "set (ws_lockedSourceIds x) = set (ws_lockedSourceIds s)"
    using s(1) by (rule admission_session_Inr)
  have "\<exists>locked \<in> set (ws_lockedSourceIds x). locked = ai_sourceId i
      \<or> resolve_configured_source_id locked sources = Inr (ai_sourceId i)"
    using s(2) x(4) by (auto simp: owns_source_def list_ex_iff)
  moreover note charged = acquire_charges [OF budget, unfolded admission_budget_input_def acquire_input.simps]
  ultimately show ?thesis
    using x budget unfolding lease admission_granted_def
    by (intro conjI bexI [of _ x] exI [of _ b] exI [of _ l] exI [of _ p] exI [of _ u]) simp_all
qed

text \<open>
  C6. An admitted mutation holds its source alone, as long as its request id is used by nobody else:
  when a mutating operation is admitted on a queue that scheduler operations made and that has no
  request of the admission's id (a random UUID, unless the caller names an id), while other processes
  run, between the steps of the call, any scheduler operations that enqueue nothing under that id,
  then the scheduler's file holds a leased request of the admission's id, source and proof, and
  nothing else is leased on that source.
\<close>

theorem admitted_mutation_alone:
  assumes "acquire_workbench_admission cmp hash sources opts e others i st = (st', Some (Inr lease))"
    and "ad_repositoryClass lease = Some MutationExclusive"
    and "scheduler_reachable cmp hash (sf_scheduler (as_files st))"
    and "others_respect cmp hash (ad_requestId lease) others"
    and "ad_requestId lease \<notin> sq_requestId ` set (stored_requests (sf_scheduler (as_files st)))"
  shows "\<exists>t rs r. sf_scheduler (as_files st') = Stored (t, rs) \<and> r \<in> set rs
    \<and> sq_requestId r = ad_requestId lease \<and> sq_sourceId r = ad_sourceId lease \<and> sq_status r = SLeased
    \<and> sq_leaseProofHash r = Some (hash (or_else (ad_repositoryLeaseProof lease) []))
    \<and> (\<forall>y \<in> set rs. sq_sourceId y = ad_sourceId lease \<and> sq_status y = SLeased \<longrightarrow> y = r)"
proof -
  define q where "q = admission_id (ade_uuid e) i"
  from assms(1) obtain s b l p u where
    budget: "acquire_workbench_budget hash (ao_limits opts) (ao_maxLeases opts) (ade_budget e)
       (admission_budget_input opts i q) (sf_budget (others AtBudget (as_files st))) = (b, Some (Inr (l, p, u)))"
    and rest: "case ac_repositoryClass (classify_operation (ai_operation i)) of
       None \<Rightarrow> as_files st' = (others AtBudget (as_files st))\<lparr>sf_budget := b\<rparr> \<and> lease = admission_granted i q l p None
     | Some cls \<Rightarrow> acquire_repository cmp hash opts e others i q
         cls l p ((others AtBudget (as_files st))\<lparr>sf_budget := b\<rparr>) (as_diagnostics st) = (st', Some (Inr lease))"
    unfolding q_def by (rule acquire_admission_Inr)
  have cls: "ac_repositoryClass (classify_operation (ai_operation i)) = Some MutationExclusive"
    using assms(2) rest
    by (cases "ac_repositoryClass (classify_operation (ai_operation i))")
      (auto simp: admission_granted_def elim: acquire_repository_Inr)
  let ?fs0 = "(others AtBudget (as_files st))\<lparr>sf_budget := b\<rparr>"
  from rest cls have "acquire_repository cmp hash opts e others i q MutationExclusive l p ?fs0 (as_diagnostics st)
      = (st', Some (Inr lease))" by simp
  then obtain fs1 x r proof2 d2 where
    enq: "enqueue_session_work cmp (ao_maxRequests opts) (ade_enqueue e)
       (admission_enqueue_input opts i q MutationExclusive) (others AtEnqueue ?fs0) = (fs1, Inr x)"
    and claim: "claim_repository_work cmp hash (ao_maxRequests opts) (ade_claim e) q
       (or_else (ao_workerId opts) ''workbench-admission'') (ao_leaseMs opts) (ao_now opts)
       (sf_scheduler (others AtClaim fs1)) = (d2, Inr (r, proof2))"
    and st': "as_files st' = (others AtClaim fs1)\<lparr>sf_scheduler := d2\<rparr>"
    and lease: "lease = admission_granted i q l p (Some proof2)"
    by (rule acquire_repository_Inr)
  have id: "ad_requestId lease = q" "ad_sourceId lease = ai_sourceId i" by (simp_all add: lease admission_granted_def)
  have respect: "scheduler_reachable cmp hash (sf_scheduler fs) \<Longrightarrow> scheduler_reachable cmp hash (sf_scheduler (others k fs))"
    for k fs using assms(4) unfolding others_respect_def by blast
  have same: "\<exists>y0 \<in> set (stored_requests (sf_scheduler fs)).
        sq_requestId y0 = q \<and> sq_sourceId y0 = sq_sourceId y \<and> sq_class y0 = sq_class y"
      if "y \<in> set (stored_requests (sf_scheduler (others k fs)))" "sq_requestId y = q" for k fs y
    using assms(4) that unfolding others_respect_def id by blast
  have reach0: "scheduler_reachable cmp hash (sf_scheduler (others AtEnqueue ?fs0))"
    using assms(3) respect by simp
  obtain d1 where enq1: "enqueue_repository_work cmp (ao_maxRequests opts)
      (session_sources (ai_sessionId i) (sf_sessions (others AtEnqueue ?fs0))) (ade_enqueue e)
      (admission_enqueue_input opts i q MutationExclusive) (sf_scheduler (others AtEnqueue ?fs0)) = (d1, Inr x)"
    and fs1: "sf_scheduler fs1 = d1"
    using enq by (auto simp: enqueue_session_work_def admission_enqueue_input_def split: prod.splits)
  have reach1: "scheduler_reachable cmp hash (sf_scheduler (others AtClaim fs1))"
    using scheduler_reachable.step [OF reach0 scheduler_step.enqueue [OF enq1]] fs1 respect by simp
  have reach2: "scheduler_reachable cmp hash d2"
    by (rule scheduler_reachable.step [OF reach1 scheduler_step.claim [OF claim]])
  have unused: "q \<notin> sq_requestId ` set (stored_requests (sf_scheduler (others k fs)))"
    if "q \<notin> sq_requestId ` set (stored_requests (sf_scheduler fs))" for k fs
  proof
    assume "q \<in> sq_requestId ` set (stored_requests (sf_scheduler (others k fs)))"
    then obtain y where "y \<in> set (stored_requests (sf_scheduler (others k fs)))" "sq_requestId y = q" by auto
    from same [OF this] that show False by auto
  qed
  have fresh: "q \<notin> sq_requestId ` set (stored_requests (sf_scheduler (others AtEnqueue ?fs0)))"
    by (rule unused) (use unused assms(5) id in simp)
  from claim obtain t rs r0 where d2: "d2 = Stored (t, rs)" "r \<in> set rs"
    and r0: "r0 \<in> set (stored_requests (sf_scheduler (others AtClaim fs1)))" "sq_requestId r0 = q"
      "sq_sourceId r0 = sq_sourceId r" "sq_class r0 = sq_class r"
    and r: "sq_requestId r = q" "sq_status r = SLeased" "sq_leaseProofHash r = Some (hash proof2)"
    by (rule claim_stores)
  have qn: "q \<noteq> []" using claim by (auto simp: claim_repository_work_def valid_id_def Let_def)
  obtain r1 where r1: "r1 \<in> set (stored_requests d1)" "sq_requestId r1 = q"
    "sq_sourceId r1 = sq_sourceId r" "sq_class r1 = sq_class r"
    using same[OF r0(1,2)] r0(3,4) fs1 by auto
  have own: "sq_sourceId r = ai_sourceId i" "sq_class r = MutationExclusive"
    using enqueue_fresh [OF enq1 _ qn fresh r1(1,2)] r1(3,4) by (simp_all add: admission_enqueue_input_def)
  have inv: "scheduler_inv rs" using scheduler_reachable_inv [OF reach2] d2 by (simp add: disk_inv_def)
  have alone: "y = r" if "y \<in> set rs" "sq_sourceId y = ai_sourceId i" "sq_status y = SLeased" for y
  proof -
    have "sq_requestId r = sq_requestId y" using inv d2(2) that own r(2) unfolding scheduler_inv_def by metis
    then show ?thesis using inv d2(2) that(1) unfolding scheduler_inv_def by (metis distinct_map inj_on_eq_iff)
  qed
  have "sq_leaseProofHash r = Some (hash (or_else (ad_repositoryLeaseProof lease) []))"
    using r(3) by (simp add: lease admission_granted_def truthy_def or_else_def)
  moreover have "sf_scheduler (as_files st') = Stored (t, rs)" using st' d2(1) by simp
  moreover have "\<forall>y \<in> set rs. sq_sourceId y = ai_sourceId i \<and> sq_status y = SLeased \<longrightarrow> y = r"
    using alone by blast
  ultimately show ?thesis
    unfolding id
    using d2(2) r(1,2) own(1)
    by (intro exI [of _ t] exI [of _ rs] exI [of _ r] conjI)
qed

text \<open>
  C15. What is returned was executed once, under an admission, and the admission was released, whatever
  other processes do between the steps of the call: the result is that of the operation on the
  files the admission left, the files after the call are those of the release of that admission from
  the files the operation left, and the budget lease is no longer active on them. If no other process
  runs between the steps and the queue is well formed before the call and after the operation, the
  request is closed too, in the queue as it is read at the time of the release: completed,
  cancelled, or timed out by the recovery that every reading starts with.
\<close>

theorem returned_result_admitted_and_released:
  assumes "execute_with_workbench_admission cmp hash sources opts e others execute i st = (st', Some (Inr result))"
  shows "\<exists>st1 lease fs2.
      acquire_workbench_admission cmp hash sources opts (ee_acquire e) others i st = (st1, Some (Inr lease))
    \<and> execute (as_files st1) = (fs2, Inr result)
    \<and> release_workbench_admission cmp hash opts (ee_release e) others False lease fs2 = (as_files st', Some (Inr ()))
    \<and> budget_closed (ad_budgetLeaseId lease) (sf_budget (as_files st'))
    \<and> (others = quiet \<and> disk_inv (sf_scheduler (as_files st))
         \<and> (disk_inv (sf_scheduler (as_files st1)) \<longrightarrow> disk_inv (sf_scheduler fs2))
         \<and> truthy (ad_repositoryRequestId lease) \<longrightarrow>
         (\<exists>t \<in> {io_openNow (re_repository (ee_release e)), io_openNow (re_fallback (ee_release e))}.
            on_file (request_closed t (the (ad_repositoryRequestId lease))) (sf_scheduler (as_files st'))))"
proof -
  obtain st1 answer where acq: "acquire_workbench_admission cmp hash sources opts (ee_acquire e) others i st = (st1, answer)"
    by (meson surj_pair)
  note unfolded = assms(1)[unfolded execute_with_workbench_admission_def acq prod.case]
  obtain lease where lease: "answer = Some (Inr lease)"
    using unfolded by (cases answer; cases "the answer") auto
  obtain fs2 outcome where run: "execute (as_files st1) = (fs2, outcome)" by (meson surj_pair)
  have failed: "execution_failed cmp hash opts e others i lease err fs d \<noteq> (st', Some (Inr result))" for err fs d
    by (auto simp: execution_failed_def Let_def split: prod.splits if_splits)
  have outcome: "outcome = Inr result"
    using unfolded failed unfolding lease option.case sum.case run prod.case
    by (cases outcome) (auto split: prod.splits option.splits sum.splits)
  obtain fs3 released where rel:
    "release_workbench_admission cmp hash opts (ee_release e) others False lease fs2 = (fs3, released)" by (meson surj_pair)
  have ok: "released = Some (Inr ())" "as_files st' = fs3"
    using unfolded failed unfolding lease option.case sum.case run prod.case outcome rel
    by (cases released; cases "the released"; auto)+
  have "\<exists>t \<in> {io_openNow (re_repository (ee_release e)), io_openNow (re_fallback (ee_release e))}.
        on_file (request_closed t (the (ad_repositoryRequestId lease))) (sf_scheduler fs3)"
    if "others = quiet" "disk_inv (sf_scheduler (as_files st))"
      "disk_inv (sf_scheduler (as_files st1)) \<longrightarrow> disk_inv (sf_scheduler fs2)" "truthy (ad_repositoryRequestId lease)"
  proof -
    have "disk_inv (sf_scheduler (as_files st1))"
      using acquire_keeps_inv [OF that(2), of cmp hash sources opts "ee_acquire e" i] acq that(1) by simp
    with that(3) have "disk_inv (sf_scheduler fs2)" by simp
    from release_admission_closes [OF this rel [unfolded ok(1) that(1)]] that(4) show ?thesis by simp
  qed
  then show ?thesis
    using acq run rel release_ends_budget [OF rel [unfolded ok(1)]] unfolding ok outcome lease by blast
qed

text \<open>
  Diagnostics never change an admission: whatever is on file of them, readable or not, and
  however recording them goes, the answer and the other files are the same.
\<close>

theorem diagnostics_never_decide:
  "decided (acquire_workbench_admission cmp hash sources opts (e\<lparr>ade_diagnostic := e'\<rparr>) others i
      (st\<lparr>as_diagnostics := d\<rparr>))
   = decided (acquire_workbench_admission cmp hash sources opts e others i st)"
proof (cases "admission_session (ai_sessionId i) (sf_sessions (as_files st))")
  case (Inl f)
  then show ?thesis
    by (cases f) (simp add: acquire_workbench_admission_def refuse_admission_def decided_def Let_def)
next
  case (Inr s)
  obtain b answer where budget: "acquire_workbench_budget hash (ao_limits opts) (ao_maxLeases opts) (ade_budget e)
      (admission_budget_input opts i (admission_id (ade_uuid e) i))
      (sf_budget (others AtBudget (as_files st))) = (b, answer)" by (meson surj_pair)
  show ?thesis
    using acquire_repository_decided [where e = e and e' = e' and d = d and d' = "as_diagnostics st"]
    by (cases answer; cases "the answer"; cases "ac_repositoryClass (classify_operation (ai_operation i))")
      (simp_all add: acquire_workbench_admission_def Inr refuse_admission_def decided_def Let_def budget split: prod.split)
qed

text \<open>
  A mutation that outlives its lease is not overtaken at once: for fifteen minutes after it was
  queued no later request of its source is leased to anybody, whether its own lease has
  expired meanwhile or not, since an expired mutation goes back to its place in the queue.
\<close>

theorem mutation_not_overtaken:
  assumes "claim_repository_work cmp hash c e rid wid ms now d = (d', Inr (r', p))"
    and "x \<in> set (stored_requests d)" "sq_class x = MutationExclusive" "sq_status x \<in> {SQueued, SLeased}"
    and "sq_sourceId x = sq_sourceId r'" "sq_requestId x \<noteq> rid"
    and "date_parse (sq_enqueuedAt x) = Some a" "date_parse (io_openNow e) = Some n" "n < a + 15 * 60000"
  shows "\<not> earlier_than x r'"
proof
  assume earlier: "earlier_than x r'"
  let ?t = "io_openNow e"
  from assms(1) obtain rs r where rs: "read_store d = Some rs" and r: "request_with_id rid (open_store ?t rs) = Some r"
    "eligible r (open_store ?t rs)" "sq_requestId r' = rid" "sq_sourceId r' = sq_sourceId r" "sq_class r' = sq_class r"
    "sq_enqueuedAt r' = sq_enqueuedAt r"
    by (rule claim_Inr)
  define x' where "x' = time_out_queued ?t (requeue_expired ?t x)"
  have x': "sq_sourceId x' = sq_sourceId x" "sq_class x' = MutationExclusive" "sq_requestId x' = sq_requestId x"
    "sq_enqueuedAt x' = sq_enqueuedAt x" "sq_status x' \<in> {SQueued, SLeased}"
    using assms(3,4,7,8,9) by (auto simp: x'_def time_out_queued_def requeue_expired_def clear_lease_def)
  have "x' \<in> set (open_store ?t rs)"
    using assms(2) x'(5) read_stored [OF rs]
    by (auto simp: open_store_def prune_terminal_entries_def recover_expired_leases_def terminal_def x'_def)
  moreover have "sq_requestId r = rid" using request_with_id_Some [OF r(1)] by simp
  then have "earlier_than x' r" using earlier r x' by (simp add: earlier_than_def)
  moreover have "sq_sourceId x' = sq_sourceId r" using assms(5) r x' by simp
  ultimately show False
    using r(2) x'(2,5) by (auto simp: eligible_def Let_def list_ex_iff split: if_splits)
qed

section \<open>A concrete admission\<close>

definition sample_admission_state :: admission_state where
  "sample_admission_state =
     \<lparr>as_files = sample_files\<lparr>sf_scheduler := NoFile, sf_budget := NoFile\<rparr>, as_diagnostics = BadFile\<rparr>"

definition sample_admission_env :: "string \<Rightarrow> string \<Rightarrow> admission_env" where
  "sample_admission_env t uuid =
     (let e = (sample_env t)\<lparr>io_uuid := uuid\<rparr> in
      \<lparr>ade_uuid = uuid, ade_budget = e, ade_enqueue = e, ade_claim = e, ade_cancel = e, ade_release = e, ade_diagnostic = e\<rparr>)"

definition sample_admission_options :: admission_options where
  "sample_admission_options =
     \<lparr>ao_workerId = None, ao_leaseMs = None, ao_now = None, ao_limits = None, ao_maxLeases = None, ao_maxRequests = None\<rparr>"

definition sample_admission_input :: "admission_operation \<Rightarrow> admission_input" where
  "sample_admission_input operation =
     \<lparr>ai_requestId = None, ai_sessionId = ''ses'', ai_sourceId = ''src'', ai_operation = operation,
      ai_operationKind = ''write_file'', ai_cost = None\<rparr>"

definition sample_admission ::
  "string \<Rightarrow> string \<Rightarrow> admission_state \<Rightarrow> admission_state \<times> (admission_failure + admission_lease) option" where
  "sample_admission t uuid st =
     acquire_workbench_admission sample_cmp2 sample_hash [] sample_admission_options (sample_admission_env t uuid) quiet
       (sample_admission_input OpWrite) st"

lemma sample_admission_granted:
  "(case sample_admission noon ''u1'' sample_admission_state of (st, Some (Inr lease)) \<Rightarrow>
       ad_requestId lease = ''admission-u1'' \<and> ad_repositoryClass lease = Some MutationExclusive
     | _ \<Rightarrow> False)"
  by code_simp

theorem admission_bound_to_session_witness:
  "\<exists>st' lease. sample_admission noon ''u1'' sample_admission_state = (st', Some (Inr lease))
     \<and> (\<exists>s \<in> set (file_sessions (sf_sessions (as_files sample_admission_state))). ws_sessionId s = ad_sessionId lease)"
proof -
  obtain st' lease where r: "sample_admission noon ''u1'' sample_admission_state = (st', Some (Inr lease))"
    using sample_admission_granted by (auto split: prod.splits option.splits sum.splits)
  from admission_bound_to_session [OF r [unfolded sample_admission_def]] r show ?thesis by blast
qed

theorem admitted_mutation_alone_witness:
  "\<exists>st' lease. sample_admission noon ''u1'' sample_admission_state = (st', Some (Inr lease))
     \<and> (\<exists>t rs r. sf_scheduler (as_files st') = Stored (t, rs) \<and> r \<in> set rs \<and> sq_status r = SLeased
          \<and> sq_requestId r = ad_requestId lease)"
proof -
  obtain st' lease where r: "sample_admission noon ''u1'' sample_admission_state = (st', Some (Inr lease))"
    "ad_repositoryClass lease = Some MutationExclusive"
    using sample_admission_granted by (auto split: prod.splits option.splits sum.splits)
  have none: "sf_scheduler (as_files sample_admission_state) = NoFile" by (simp add: sample_admission_state_def)
  from admitted_mutation_alone [OF r(1) [unfolded sample_admission_def] r(2)] r(1) show ?thesis
    by (simp add: none scheduler_reachable.start stored_requests_def) blast
qed

definition sample_execution_env :: "string \<Rightarrow> write_outcome \<Rightarrow> execution_env" where
  "sample_execution_env t write =
     (let r = \<lparr>re_repository = sample_env t, re_fallback = sample_env t, re_budget = (sample_env t)\<lparr>io_write := write\<rparr>\<rparr> in
      \<lparr>ee_acquire = sample_admission_env noon ''u1'', ee_release = r,
       ee_cancel = r\<lparr>re_budget := sample_env t\<rparr>, ee_diagnostic = sample_env t, ee_release_error = ''ENOSPC''\<rparr>)"

definition sample_execution :: "string \<Rightarrow> write_outcome \<Rightarrow> admission_state \<times> (admission_failure + string) option" where
  "sample_execution t write =
     execute_with_workbench_admission sample_cmp2 sample_hash [] sample_admission_options (sample_execution_env t write)
       quiet (\<lambda>fs. (fs, Inr ''written'')) (sample_admission_input OpWrite) sample_admission_state"

lemma sample_execution_result: "snd (sample_execution noon Saved) = Some (Inr ''written'')"
  by code_simp

theorem returned_result_admitted_and_released_witness:
  "\<exists>st1 lease. acquire_workbench_admission sample_cmp2 sample_hash [] sample_admission_options
        (sample_admission_env noon ''u1'') quiet (sample_admission_input OpWrite) sample_admission_state
      = (st1, Some (Inr lease))
     \<and> budget_closed (ad_budgetLeaseId lease) (sf_budget (as_files (fst (sample_execution noon Saved))))
     \<and> (truthy (ad_repositoryRequestId lease) \<longrightarrow>
          (\<exists>t. on_file (request_closed t (the (ad_repositoryRequestId lease)))
             (sf_scheduler (as_files (fst (sample_execution noon Saved))))))"
proof -
  have run: "sample_execution noon Saved = (fst (sample_execution noon Saved), Some (Inr ''written''))"
    using sample_execution_result by (simp add: prod_eq_iff)
  have inv: "disk_inv (sf_scheduler (as_files sample_admission_state))"
    by (simp add: sample_admission_state_def disk_inv_def)
  obtain st1 lease fs2 where x: "acquire_workbench_admission sample_cmp2 sample_hash [] sample_admission_options
        (sample_admission_env noon ''u1'') quiet (sample_admission_input OpWrite) sample_admission_state = (st1, Some (Inr lease))"
      "(as_files st1, Inr ''written'') = (fs2, Inr ''written'' :: string + string)"
      "budget_closed (ad_budgetLeaseId lease) (sf_budget (as_files (fst (sample_execution noon Saved))))"
      "disk_inv (sf_scheduler (as_files st1)) \<longrightarrow> disk_inv (sf_scheduler fs2)
       \<Longrightarrow> truthy (ad_repositoryRequestId lease)
       \<Longrightarrow> \<exists>t. on_file (request_closed t (the (ad_repositoryRequestId lease)))
             (sf_scheduler (as_files (fst (sample_execution noon Saved))))"
    using returned_result_admitted_and_released [OF run [unfolded sample_execution_def]] inv
    unfolding sample_execution_def [symmetric] by (auto simp: sample_execution_env_def Let_def)
  then show ?thesis by auto
qed

text \<open>
  A scheduler's file with a mutation admitted at noon, whose lease of a minute it holds, and a
  second one queued a second later.
\<close>

definition sample_mutation :: "string \<Rightarrow> string \<Rightarrow> schedule_status \<Rightarrow> string option \<Rightarrow> schedule_request" where
  "sample_mutation i t st expiry =
     \<lparr>sq_requestId = i, sq_sessionId = ''ses'', sq_sourceId = ''src'', sq_class = MutationExclusive,
      sq_operationKind = ''write'', sq_status = st, sq_enqueuedAt = t, sq_updatedAt = t,
      sq_leaseOwner = map_option (\<lambda>x. ''w'') expiry, sq_leaseProofHash = map_option sample_hash expiry,
      sq_leaseAcquiredAt = map_option (\<lambda>x. t) expiry, sq_leaseExpiresAt = expiry,
      sq_completedAt = None, sq_cancelledAt = None, sq_timedOutAt = None\<rparr>"

definition sample_waiting :: scheduler_disk where
  "sample_waiting = Stored (noon,
     [sample_mutation ''m'' noon SLeased (Some ''2026-01-01T12:01:00.000Z''),
      sample_mutation ''n'' ''2026-01-01T12:00:01.000Z'' SQueued None])"

lemma sample_waiting_requests:
  "map (\<lambda>r. (sq_requestId r, sq_class r, sq_status r, sq_sourceId r, sq_enqueuedAt r)) (stored_requests sample_waiting)
   = [(''m'', MutationExclusive, SLeased, ''src'', noon),
      (''n'', MutationExclusive, SQueued, ''src'', ''2026-01-01T12:00:01.000Z'')]"
  by code_simp

definition after_ten_minutes :: string where "after_ten_minutes = ''2026-01-01T12:10:00.000Z''"

lemma sample_first_claims:
  "(case claim_repository_work sample_cmp2 sample_hash None (sample_env after_ten_minutes) ''m'' ''w'' None None
      sample_waiting of (d, Inr (r, p)) \<Rightarrow> sq_sourceId r = ''src'' | _ \<Rightarrow> False)"
  by code_simp

text \<open>Ten minutes later the queue's second request is still behind the first.\<close>

theorem mutation_not_overtaken_witness:
  "\<exists>d' r' p. claim_repository_work sample_cmp2 sample_hash None (sample_env after_ten_minutes) ''m'' ''w'' None None
      sample_waiting = (d', Inr (r', p))
   \<and> (\<exists>x \<in> set (stored_requests sample_waiting). sq_requestId x = ''n'' \<and> \<not> earlier_than x r')"
proof -
  obtain d' r' p where c: "claim_repository_work sample_cmp2 sample_hash None (sample_env after_ten_minutes) ''m'' ''w''
      None None sample_waiting = (d', Inr (r', p))" "sq_sourceId r' = ''src''"
    using sample_first_claims by (auto split: prod.splits sum.splits)
  obtain y x where xs: "stored_requests sample_waiting = [y, x]" "sq_requestId x = ''n''" "sq_class x = MutationExclusive"
    "sq_status x = SQueued" "sq_sourceId x = ''src''" "sq_enqueuedAt x = ''2026-01-01T12:00:01.000Z''"
    using sample_waiting_requests by (auto simp: map_eq_Cons_conv)
  have times: "map_option (\<lambda>a. map_option (\<lambda>n. n < a + 15 * 60000) (date_parse after_ten_minutes))
      (date_parse ''2026-01-01T12:00:01.000Z'') = Some (Some True)" by code_simp
  obtain a n where an: "date_parse (sq_enqueuedAt x) = Some a" "date_parse after_ten_minutes = Some n" "n < a + 15 * 60000"
    using times xs(6) by auto
  have "\<not> earlier_than x r'"
  proof (rule mutation_not_overtaken [OF c(1)])
    show "sq_requestId x \<noteq> ''m''" using xs(2) by simp
    show "date_parse (io_openNow (sample_env after_ten_minutes)) = Some n" using an(2) by (simp add: sample_env_def)
  qed (use xs c(2) an in simp_all)
  with c xs show ?thesis by auto
qed

section \<open>What outlives an admission\<close>

text \<open>
  Finding: an admission is never renewed while its operation runs. Fifteen minutes after it was
  queued an expired mutation that is still running is timed out of the queue, and the next
  mutation of the same source gets the lease beside it.
\<close>

lemma long_mutation_overlapped:
  "(case claim_repository_work sample_cmp2 sample_hash None (sample_env after_ten_minutes) ''n'' ''w'' None None sample_waiting of
      (d, Inl f) \<Rightarrow> f = SCHEDULER_NOT_ELIGIBLE | _ \<Rightarrow> False)"
  "(case claim_repository_work sample_cmp2 sample_hash None (sample_env ''2026-01-01T12:15:00.000Z'') ''n'' ''w'' None None
      sample_waiting of (d, Inr (r, p)) \<Rightarrow> sq_status r = SLeased \<and> sq_class r = MutationExclusive \<and> sq_sourceId r = ''src'' | _ \<Rightarrow> False)"
  by code_simp+

text \<open>
  Finding: when the budget file cannot be written at the end, a mutation that succeeded is
  reported as a failed execution: the release's exception is taken for the operation's.
\<close>

lemma success_reported_as_failure:
  "snd (sample_execution noon NotSaved) = Some (Inl (ADMISSION_EXECUTION_FAILED, ExecutionError ''ENOSPC''))"
  by code_simp

end
