(* ===== verification/Packet_Store.thy ===== *)
theory Packet_Store
  imports Complex_Main Locked_Store
begin

text \<open>
  \<^verbatim>\<open>packages/cli/src/agent/workbench-packet-store.ts\<close>: the file in which the packets of work
  wait for a worker. A packet is reserved once, claimed by one worker under a lease, renewed,
  and finished with the token of that lease; a lease that runs out is recovered, and the packets
  of a run can be paused, resumed and cancelled.

  The store keeps of a packet only its identity apart: the other members are of a type \<open>'b\<close>
  that no operation reads. Every typed record passes \<^verbatim>\<open>isPacketRecord\<close>, whose checks are those of
  the types; a file that cannot be read counts as empty. \<open>now\<close> is the time value of the
  \<^verbatim>\<open>Date\<close> an operation reads, \<open>cmp\<close> is \<^verbatim>\<open>localeCompare\<close>.
\<close>

section \<open>Data\<close>

datatype packet_status = PQueued | PRunning | PPaused | PCompleted | PFailed | PCancelled

datatype packet_control = ControlPause | ControlCancel

record 'b work_packet =
  wp_packetId :: string
  wp_idempotencyKey :: string
  wp_runId :: string
  wp_sourceId :: string
  wp_taskId :: string
  wp_content :: 'b

record 'b packet_record =
  pr_packet :: "'b work_packet"
  pr_status :: packet_status
  pr_exactPaths :: "string list"
  pr_reservedAt :: string
  pr_updatedAt :: string
  pr_startedAt :: "string option"
  pr_completedAt :: "string option"
  pr_failedAt :: "string option"
  pr_cancelledAt :: "string option"
  pr_failureReason :: "string option"
  pr_commitHash :: "string option"
  pr_controlRequested :: "packet_control option"
  pr_controlReason :: "string option"
  pr_pausedAt :: "string option"
  pr_leaseOwner :: "string option"
  pr_leaseToken :: "string option"
  pr_leaseAcquiredAt :: "string option"
  pr_leaseExpiresAt :: "string option"
  pr_claimAttempt :: int

record compact_packet_lease =
  cp_packetId :: string
  cp_runId :: string
  cp_sourceId :: string
  cp_taskId :: string
  cp_status :: packet_status
  cp_exactPaths :: "string list"
  cp_reservedAt :: string
  cp_updatedAt :: string
  cp_startedAt :: "string option"
  cp_claimAttempt :: int
  cp_leaseOwner :: "string option"
  cp_leaseToken :: "string option"
  cp_leaseAcquiredAt :: "string option"
  cp_leaseExpiresAt :: "string option"

datatype packet_failure =
    PACKET_STORE_BUSY | PACKET_ID_CONFLICT | IDEMPOTENCY_KEY_CONFLICT | PACKET_NOT_FOUND | PACKET_NOT_QUEUED
  | LEASE_OWNER_INVALID | LEASE_INVALID | PACKET_NOT_RUNNING

type_synonym 'b packet_disk = "'b packet_record list_disk"

type_synonym 'a packet_answer = "(packet_failure + 'a) option"

abbreviation packet_id :: "'b packet_record \<Rightarrow> string" where
  "packet_id r \<equiv> wp_packetId (pr_packet r)"

abbreviation packet_key :: "'b packet_record \<Rightarrow> string" where
  "packet_key r \<equiv> wp_idempotencyKey (pr_packet r)"

definition compact_workbench_packet_lease_record :: "bool \<Rightarrow> 'b packet_record \<Rightarrow> compact_packet_lease" where
  "compact_workbench_packet_lease_record includeLeaseToken r =
     \<lparr>cp_packetId = wp_packetId (pr_packet r), cp_runId = wp_runId (pr_packet r),
      cp_sourceId = wp_sourceId (pr_packet r), cp_taskId = wp_taskId (pr_packet r), cp_status = pr_status r,
      cp_exactPaths = pr_exactPaths r, cp_reservedAt = pr_reservedAt r, cp_updatedAt = pr_updatedAt r,
      cp_startedAt = pr_startedAt r, cp_claimAttempt = pr_claimAttempt r, cp_leaseOwner = pr_leaseOwner r,
      cp_leaseToken = (if includeLeaseToken then pr_leaseToken r else None),
      cp_leaseAcquiredAt = pr_leaseAcquiredAt r, cp_leaseExpiresAt = pr_leaseExpiresAt r\<rparr>"

section \<open>The file\<close>

definition read_packets :: "'b packet_disk \<Rightarrow> 'b packet_record list" where
  "read_packets d =
     (case d of NoFile \<Rightarrow> [] | BadFile \<Rightarrow> []
      | Stored (updatedAt, rs) \<Rightarrow> map (\<lambda>r. r\<lparr>pr_claimAttempt := max 0 (pr_claimAttempt r)\<rparr>) rs)"

definition kept_packets :: "(string \<Rightarrow> string \<Rightarrow> int) \<Rightarrow> 'b packet_record list \<Rightarrow> 'b packet_record list" where
  "kept_packets cmp rs = slice_last 500 (js_sort (\<lambda>a b. cmp (pr_reservedAt a) (pr_reservedAt b)) rs)"

text \<open>
  The lock is tried once; \<open>busy\<close> is what an operation answers when another holds it. The callback
  throws (\<open>None\<close>), or answers with the packets it persists, if it persists any.
\<close>

definition with_packets ::
  "(string \<Rightarrow> string \<Rightarrow> int) \<Rightarrow> io_env \<Rightarrow> 'a \<Rightarrow> 'b packet_disk
   \<Rightarrow> ('b packet_record list \<Rightarrow> ('a \<times> 'b packet_record list option) option)
   \<Rightarrow> 'b packet_disk \<times> 'a option" where
  "with_packets cmp e busy d callback =
     (case io_lock e of
        LockBusy \<Rightarrow> (d, Some busy)
      | LockFailed \<Rightarrow> (d, None)
      | LockTaken \<Rightarrow>
          (case callback (read_packets d) of
             None \<Rightarrow> (d, None)
           | Some (answer, None) \<Rightarrow> (d, Some answer)
           | Some (answer, Some rs) \<Rightarrow>
               (let (d', ok) = write_disk e (io_saveNow e, kept_packets cmp rs) d
                in (d', if ok then Some answer else None))))"

text \<open>\<^verbatim>\<open>findIndex\<close> and the write at that index are \<open>List.find\<close> and \<open>modify_first\<close> with the same test.\<close>

definition packet_with_id :: "string \<Rightarrow> 'b packet_record list \<Rightarrow> 'b packet_record option" where
  "packet_with_id i rs = List.find (\<lambda>r. packet_id r = i) rs"

definition update_packet ::
  "string \<Rightarrow> ('b packet_record \<Rightarrow> 'b packet_record) \<Rightarrow> 'b packet_record list \<Rightarrow> 'b packet_record list" where
  "update_packet i f rs = modify_first (\<lambda>r. packet_id r = i) f rs"

section \<open>Reservation, reads and the direct status update\<close>

definition reserve_workbench_packet ::
  "(string \<Rightarrow> string \<Rightarrow> int) \<Rightarrow> io_env \<Rightarrow> 'b work_packet \<Rightarrow> string list \<Rightarrow> int
   \<Rightarrow> 'b packet_disk \<Rightarrow> 'b packet_disk \<times> (bool \<times> 'b packet_record) packet_answer" where
  "reserve_workbench_packet cmp e p exactPaths now d =
     with_packets cmp e (Inl PACKET_STORE_BUSY) d (\<lambda>rs.
       case packet_with_id (wp_packetId p) rs of
         Some r \<Rightarrow>
           if packet_key r = wp_idempotencyKey p \<and> wp_runId (pr_packet r) = wp_runId p
           then Some (Inr (False, r), None) else Some (Inl PACKET_ID_CONFLICT, None)
       | None \<Rightarrow>
           if list_ex (\<lambda>r. packet_key r = wp_idempotencyKey p) rs then Some (Inl IDEMPOTENCY_KEY_CONFLICT, None)
           else case to_iso now of
             None \<Rightarrow> None
           | Some at_now \<Rightarrow>
               let r = \<lparr>pr_packet = p, pr_status = PQueued, pr_exactPaths = uniq exactPaths, pr_reservedAt = at_now,
                        pr_updatedAt = at_now, pr_startedAt = None, pr_completedAt = None, pr_failedAt = None,
                        pr_cancelledAt = None, pr_failureReason = None, pr_commitHash = None,
                        pr_controlRequested = None, pr_controlReason = None, pr_pausedAt = None,
                        pr_leaseOwner = None, pr_leaseToken = None, pr_leaseAcquiredAt = None,
                        pr_leaseExpiresAt = None, pr_claimAttempt = 0\<rparr>
               in Some (Inr (True, r), Some (rs @ [r])))"

definition get_workbench_packet_record :: "string \<Rightarrow> 'b packet_disk \<Rightarrow> 'b packet_record option" where
  "get_workbench_packet_record i d = packet_with_id i (read_packets d)"

definition moved_to ::
  "packet_status \<Rightarrow> string option \<Rightarrow> string option \<Rightarrow> string \<Rightarrow> 'b packet_record \<Rightarrow> 'b packet_record" where
  "moved_to st failureReason commitHash at_now r =
     r\<lparr>pr_status := st, pr_updatedAt := at_now,
       pr_startedAt := (if st = PRunning \<and> \<not> truthy (pr_startedAt r) then Some at_now else pr_startedAt r),
       pr_completedAt := (if st = PCompleted then Some at_now else pr_completedAt r),
       pr_failedAt := (if st = PFailed then Some at_now else pr_failedAt r),
       pr_cancelledAt := (if st = PCancelled then Some at_now else pr_cancelledAt r),
       pr_failureReason := (if st = PFailed then failureReason else pr_failureReason r),
       pr_commitHash := (if st = PCompleted \<and> truthy commitHash then commitHash else pr_commitHash r)\<rparr>"

definition update_workbench_packet_status ::
  "(string \<Rightarrow> string \<Rightarrow> int) \<Rightarrow> io_env \<Rightarrow> string \<Rightarrow> packet_status \<Rightarrow> string option \<Rightarrow> string option \<Rightarrow> int
   \<Rightarrow> 'b packet_disk \<Rightarrow> 'b packet_disk \<times> 'b packet_record option option" where
  "update_workbench_packet_status cmp e i st failureReason commitHash now d =
     with_packets cmp e None d (\<lambda>rs.
       case packet_with_id i rs of
         None \<Rightarrow> Some (None, None)
       | Some r \<Rightarrow>
           (case to_iso now of
              None \<Rightarrow> None
            | Some at_now \<Rightarrow>
                let f = moved_to st failureReason commitHash at_now
                in Some (Some (f r), Some (update_packet i f rs))))"

definition list_workbench_packet_records ::
  "(string \<Rightarrow> string \<Rightarrow> int) \<Rightarrow> string option \<Rightarrow> string option \<Rightarrow> rat option \<Rightarrow> 'b packet_disk \<Rightarrow> 'b packet_record list" where
  "list_workbench_packet_records cmp runId sourceId limit d =
     (let n = (case limit of None \<Rightarrow> 10 | Some q \<Rightarrow> if q = 0 then 10 else q);
          bounded = nat \<lfloor>max 1 (min 20 n)\<rfloor>
      in take bounded (js_sort (\<lambda>a b. cmp (pr_updatedAt b) (pr_updatedAt a))
           (filter (\<lambda>r. \<not> truthy sourceId \<or> Some (wp_sourceId (pr_packet r)) = sourceId)
             (filter (\<lambda>r. \<not> truthy runId \<or> Some (wp_runId (pr_packet r)) = runId) (read_packets d)))))"

section \<open>Leases\<close>

text \<open>\<open>None\<close> is an absent number or one that is not finite.\<close>

definition bounded_lease_ms :: "rat option \<Rightarrow> int" where
  "bounded_lease_ms v = (case v of None \<Rightarrow> 60000 | Some q \<Rightarrow> if q = 0 then 60000 else max 5000 (min 300000 \<lfloor>q\<rfloor>))"

definition clear_lease :: "'b packet_record \<Rightarrow> 'b packet_record" where
  "clear_lease r = r\<lparr>pr_leaseOwner := None, pr_leaseToken := None, pr_leaseAcquiredAt := None, pr_leaseExpiresAt := None\<rparr>"

text \<open>\<^verbatim>\<open>leaseActive\<close>: a token, and an end of the lease that lies after \<open>now\<close>.\<close>

definition lease_active :: "int \<Rightarrow> 'b packet_record \<Rightarrow> bool" where
  "lease_active now r =
     (truthy (pr_leaseToken r) \<and> (case pr_leaseExpiresAt r of None \<Rightarrow> False | Some t \<Rightarrow> lasts_after t now))"

definition matches_scope ::
  "string option \<Rightarrow> string option \<Rightarrow> string option \<Rightarrow> 'b packet_record \<Rightarrow> bool" where
  "matches_scope packetId sourceId runId r =
     ((\<not> truthy packetId \<or> Some (packet_id r) = packetId)
      \<and> (\<not> truthy sourceId \<or> Some (wp_sourceId (pr_packet r)) = sourceId)
      \<and> (\<not> truthy runId \<or> Some (wp_runId (pr_packet r)) = runId))"

definition claimed_packet :: "string \<Rightarrow> string \<Rightarrow> string \<Rightarrow> string \<Rightarrow> 'b packet_record \<Rightarrow> 'b packet_record" where
  "claimed_packet workerId token at_now expiry r =
     r\<lparr>pr_status := PRunning, pr_startedAt := Some (or_else (pr_startedAt r) at_now), pr_updatedAt := at_now,
       pr_leaseOwner := Some workerId, pr_leaseToken := Some token, pr_leaseAcquiredAt := Some at_now,
       pr_leaseExpiresAt := Some expiry, pr_claimAttempt := pr_claimAttempt r + 1\<rparr>"

text \<open>
  Which packet a claim takes: the answer when it takes none, or the test that finds the packet.
  A packet named by its id that is running under no active lease goes back to the queue before
  it is taken.
\<close>

definition claim_choice ::
  "string \<Rightarrow> string option \<Rightarrow> string option \<Rightarrow> string option \<Rightarrow> int \<Rightarrow> 'b packet_record list
   \<Rightarrow> (packet_failure + bool \<times> 'b packet_record) + ('b packet_record \<Rightarrow> bool)" where
  "claim_choice workerId packetId sourceId runId now rs =
     (let scope = matches_scope packetId sourceId runId in
      if truthy packetId
      then case List.find scope rs of
             None \<Rightarrow> Inl (Inl PACKET_NOT_FOUND)
           | Some r \<Rightarrow>
               if pr_status r = PRunning
               then if lease_active now r \<and> pr_leaseOwner r = Some workerId then Inl (Inr (False, r))
                    else if lease_active now r then Inl (Inl PACKET_NOT_QUEUED)
                    else Inr scope
               else if pr_status r \<noteq> PQueued then Inl (Inl PACKET_NOT_QUEUED)
               else Inr scope
      else case List.find (\<lambda>r. scope r \<and> pr_status r = PRunning \<and> pr_leaseOwner r = Some workerId \<and> lease_active now r) rs of
             Some r \<Rightarrow> Inl (Inr (False, r))
           | None \<Rightarrow>
               if list_ex (\<lambda>r. pr_status r = PQueued \<and> scope r) rs
               then Inr (\<lambda>r. pr_status r = PQueued \<and> scope r)
               else Inl (Inl PACKET_NOT_FOUND))"

definition requeued_for_claim :: "string \<Rightarrow> 'b packet_record \<Rightarrow> 'b packet_record" where
  "requeued_for_claim at_now r =
     (if pr_status r = PRunning then (clear_lease r)\<lparr>pr_status := PQueued, pr_updatedAt := at_now\<rparr> else r)"

definition lease_token :: "io_env \<Rightarrow> string" where
  "lease_token e = ''lease-'' @ io_uuid e"

definition claim_next_workbench_packet ::
  "(string \<Rightarrow> string \<Rightarrow> int) \<Rightarrow> io_env \<Rightarrow> string \<Rightarrow> string option \<Rightarrow> string option \<Rightarrow> string option \<Rightarrow> rat option \<Rightarrow> int
   \<Rightarrow> 'b packet_disk \<Rightarrow> 'b packet_disk \<times> (bool \<times> 'b packet_record) packet_answer" where
  "claim_next_workbench_packet cmp e worker packetId sourceId runId leaseMs now d =
     (let workerId = trim worker in
      if workerId = [] \<or> 160 < length workerId then (d, Some (Inl LEASE_OWNER_INVALID))
      else with_packets cmp e (Inl PACKET_STORE_BUSY) d (\<lambda>rs.
        case claim_choice workerId packetId sourceId runId now rs of
          Inl answer \<Rightarrow> Some (answer, None)
        | Inr chosen \<Rightarrow>
            (case (List.find chosen rs, to_iso now, to_iso (now + bounded_lease_ms leaseMs)) of
               (Some r, Some at_now, Some expiry) \<Rightarrow>
                 let f = (\<lambda>r. claimed_packet workerId (lease_token e) at_now expiry (requeued_for_claim at_now r))
                 in Some (Inr (True, f r), Some (modify_first chosen f rs))
             | _ \<Rightarrow> None)))"

text \<open>The checks that renewal, release and the end of the execution share, in their order.\<close>

definition packet_lease_refusal :: "string \<Rightarrow> 'b packet_record \<Rightarrow> packet_failure option" where
  "packet_lease_refusal leaseToken r =
     (if pr_status r \<noteq> PRunning then Some PACKET_NOT_RUNNING
      else if leaseToken = [] \<or> pr_leaseToken r \<noteq> Some leaseToken then Some LEASE_INVALID else None)"

definition with_leased_packet ::
  "(string \<Rightarrow> string \<Rightarrow> int) \<Rightarrow> io_env \<Rightarrow> string \<Rightarrow> string \<Rightarrow> ('b packet_record \<Rightarrow> 'b packet_record) option
   \<Rightarrow> 'b packet_disk \<Rightarrow> 'b packet_disk \<times> 'b packet_record packet_answer" where
  "with_leased_packet cmp e i leaseToken change d =
     with_packets cmp e (Inl PACKET_STORE_BUSY) d (\<lambda>rs.
       case packet_with_id i rs of
         None \<Rightarrow> Some (Inl PACKET_NOT_FOUND, None)
       | Some r \<Rightarrow>
           (case packet_lease_refusal leaseToken r of
              Some code \<Rightarrow> Some (Inl code, None)
            | None \<Rightarrow> (case change of None \<Rightarrow> None | Some f \<Rightarrow> Some (Inr (f r), Some (update_packet i f rs)))))"

definition renew_workbench_packet_lease ::
  "(string \<Rightarrow> string \<Rightarrow> int) \<Rightarrow> io_env \<Rightarrow> string \<Rightarrow> string \<Rightarrow> rat option \<Rightarrow> int
   \<Rightarrow> 'b packet_disk \<Rightarrow> 'b packet_disk \<times> 'b packet_record packet_answer" where
  "renew_workbench_packet_lease cmp e i leaseToken leaseMs now d =
     with_leased_packet cmp e i leaseToken
       (case (to_iso now, to_iso (now + bounded_lease_ms leaseMs)) of
          (Some at_now, Some expiry) \<Rightarrow> Some (\<lambda>r. r\<lparr>pr_updatedAt := at_now, pr_leaseExpiresAt := Some expiry\<rparr>)
        | _ \<Rightarrow> None) d"

definition release_workbench_packet_lease ::
  "(string \<Rightarrow> string \<Rightarrow> int) \<Rightarrow> io_env \<Rightarrow> string \<Rightarrow> string \<Rightarrow> bool option \<Rightarrow> int
   \<Rightarrow> 'b packet_disk \<Rightarrow> 'b packet_disk \<times> 'b packet_record packet_answer" where
  "release_workbench_packet_lease cmp e i leaseToken requeue now d =
     with_leased_packet cmp e i leaseToken
       (case to_iso now of
          None \<Rightarrow> None
        | Some at_now \<Rightarrow> Some (\<lambda>r. clear_lease
            (r\<lparr>pr_status := (if requeue = Some False then PCancelled else PQueued), pr_updatedAt := at_now,
               pr_cancelledAt := (if requeue = Some False then Some at_now else pr_cancelledAt r)\<rparr>))) d"

datatype execution_end = EndCompleted | EndFailed | EndPaused | EndCancelled

primrec end_status :: "execution_end \<Rightarrow> packet_status" where
  "end_status EndCompleted = PCompleted"
| "end_status EndFailed = PFailed"
| "end_status EndPaused = PPaused"
| "end_status EndCancelled = PCancelled"

definition finalize_workbench_packet_execution ::
  "(string \<Rightarrow> string \<Rightarrow> int) \<Rightarrow> io_env \<Rightarrow> string \<Rightarrow> string \<Rightarrow> execution_end \<Rightarrow> string option \<Rightarrow> string option \<Rightarrow> int
   \<Rightarrow> 'b packet_disk \<Rightarrow> 'b packet_disk \<times> 'b packet_record packet_answer" where
  "finalize_workbench_packet_execution cmp e i leaseToken st failureReason commitHash now d =
     with_leased_packet cmp e i leaseToken
       (case to_iso now of
          None \<Rightarrow> None
        | Some at_now \<Rightarrow> Some (\<lambda>r. clear_lease
            (r\<lparr>pr_status := end_status st, pr_updatedAt := at_now,
               pr_completedAt := (if st = EndCompleted then Some at_now else pr_completedAt r),
               pr_failedAt := (if st = EndFailed then Some at_now else pr_failedAt r),
               pr_pausedAt := (if st = EndPaused then Some at_now else pr_pausedAt r),
               pr_cancelledAt := (if st = EndCancelled then Some at_now else pr_cancelledAt r),
               pr_failureReason :=
                 (if st = EndFailed then Some (or_else failureReason ''Packet execution failed.'') else None),
               pr_commitHash := (if st = EndCompleted then commitHash else pr_commitHash r),
               pr_controlRequested := None, pr_controlReason := None\<rparr>))) d"

section \<open>Recovery and control\<close>

definition stale_packet :: "int \<Rightarrow> 'b packet_record \<Rightarrow> bool" where
  "stale_packet now r =
     (pr_status r = PRunning \<and> truthy (pr_leaseExpiresAt r)
      \<and> (case pr_leaseExpiresAt r of None \<Rightarrow> False | Some t \<Rightarrow> due_by t now))"

definition recovered_packet :: "string \<Rightarrow> 'b packet_record \<Rightarrow> 'b packet_record" where
  "recovered_packet at_now r =
     (let cancel = (pr_controlRequested r = Some ControlCancel) in
      clear_lease
        (r\<lparr>pr_status := (if cancel then PCancelled else PQueued), pr_updatedAt := at_now,
           pr_cancelledAt := (if cancel then Some at_now else pr_cancelledAt r),
           pr_failureReason :=
             (if cancel then None else Some ''Recovered stale execution lease after timeout or restart.''),
           pr_controlRequested := None\<rparr>))"

text \<open>\<^verbatim>\<open>store.packets.map\<close> with a list of the ids it changed; nothing is written when it is empty.\<close>

definition change_packets ::
  "('b packet_record \<Rightarrow> bool) \<Rightarrow> ('b packet_record \<Rightarrow> 'b packet_record) \<Rightarrow> 'b packet_record list
   \<Rightarrow> (string list \<times> 'b packet_record list option)" where
  "change_packets affected f rs =
     (let ids = map packet_id (filter affected rs)
      in (ids, if ids = [] then None else Some (map (\<lambda>r. if affected r then f r else r) rs)))"

definition recover_stale_workbench_packet_leases ::
  "(string \<Rightarrow> string \<Rightarrow> int) \<Rightarrow> io_env \<Rightarrow> int \<Rightarrow> 'b packet_disk \<Rightarrow> 'b packet_disk \<times> string list option" where
  "recover_stale_workbench_packet_leases cmp e now d =
     with_packets cmp e [] d (\<lambda>rs.
       case to_iso now of
         None \<Rightarrow> None
       | Some at_now \<Rightarrow> Some (change_packets (stale_packet now) (recovered_packet at_now) rs))"

definition recover_interrupted_workbench_packet ::
  "(string \<Rightarrow> string \<Rightarrow> int) \<Rightarrow> io_env \<Rightarrow> string \<Rightarrow> string \<Rightarrow> int
   \<Rightarrow> 'b packet_disk \<Rightarrow> 'b packet_disk \<times> 'b packet_record option option" where
  "recover_interrupted_workbench_packet cmp e i failureReason now d =
     with_packets cmp e None d (\<lambda>rs.
       case packet_with_id i rs of
         None \<Rightarrow> Some (None, None)
       | Some r \<Rightarrow>
           if pr_status r \<noteq> PRunning then Some (Some r, None)
           else case to_iso now of
             None \<Rightarrow> None
           | Some at_now \<Rightarrow>
               let f = (\<lambda>r. clear_lease (r\<lparr>pr_status := PFailed, pr_updatedAt := at_now, pr_failedAt := Some at_now,
                                           pr_failureReason := Some failureReason\<rparr>))
               in Some (Some (f r), Some (update_packet i f rs)))"

datatype run_action = ActPause | ActResume | ActCancel

primrec affected_status :: "run_action \<Rightarrow> packet_status \<Rightarrow> bool" where
  "affected_status ActPause st = (st = PQueued \<or> st = PRunning)"
| "affected_status ActCancel st = (st = PQueued \<or> st = PPaused \<or> st = PRunning)"
| "affected_status ActResume st = (st = PPaused)"

definition affected_packet :: "string \<Rightarrow> run_action \<Rightarrow> 'b packet_record \<Rightarrow> bool" where
  "affected_packet runId act r = (wp_runId (pr_packet r) = runId \<and> affected_status act (pr_status r))"

primrec controlled_packet ::
  "string option \<Rightarrow> string \<Rightarrow> run_action \<Rightarrow> 'b packet_record \<Rightarrow> 'b packet_record" where
  "controlled_packet reason at_now ActPause r =
     (if pr_status r = PQueued
      then clear_lease (r\<lparr>pr_status := PPaused, pr_pausedAt := Some at_now, pr_updatedAt := at_now,
                          pr_controlRequested := None, pr_controlReason := reason\<rparr>)
      else r\<lparr>pr_controlRequested := Some ControlPause, pr_controlReason := reason, pr_updatedAt := at_now\<rparr>)"
| "controlled_packet reason at_now ActCancel r =
     (if pr_status r = PQueued \<or> pr_status r = PPaused
      then clear_lease (r\<lparr>pr_status := PCancelled, pr_cancelledAt := Some at_now, pr_updatedAt := at_now,
                          pr_controlRequested := None, pr_controlReason := reason\<rparr>)
      else r\<lparr>pr_controlRequested := Some ControlCancel, pr_controlReason := reason, pr_updatedAt := at_now\<rparr>)"
| "controlled_packet reason at_now ActResume r =
     clear_lease (r\<lparr>pr_status := PQueued, pr_updatedAt := at_now, pr_controlRequested := None, pr_controlReason := None\<rparr>)"

definition control_workbench_packets_for_run ::
  "(string \<Rightarrow> string \<Rightarrow> int) \<Rightarrow> io_env \<Rightarrow> string \<Rightarrow> run_action \<Rightarrow> string option \<Rightarrow> int
   \<Rightarrow> 'b packet_disk \<Rightarrow> 'b packet_disk \<times> string list option" where
  "control_workbench_packets_for_run cmp e runId act reason now d =
     with_packets cmp e [] d (\<lambda>rs.
       case to_iso now of
         None \<Rightarrow> None
       | Some at_now \<Rightarrow> Some (change_packets (affected_packet runId act) (controlled_packet reason at_now act) rs))"

section \<open>Runs of the store\<close>

datatype 'b packet_call =
    ReservePacket "'b work_packet" "string list"
  | UpdateStatus string packet_status "string option" "string option"
  | ClaimPacket string "string option" "string option" "string option" "rat option"
  | RenewPacket string string "rat option"
  | ReleasePacket string string "bool option"
  | FinalizePacket string string execution_end "string option" "string option"
  | RecoverStale
  | RecoverInterrupted string string
  | ControlRun string run_action "string option"

text \<open>The file after the call, and whether the call was answered with a success.\<close>

primrec run_packet ::
  "(string \<Rightarrow> string \<Rightarrow> int) \<Rightarrow> io_env \<Rightarrow> int \<Rightarrow> 'b packet_call \<Rightarrow> 'b packet_disk \<Rightarrow> 'b packet_disk \<times> bool" where
  "run_packet cmp e now (ReservePacket p paths) d =
     map_prod id answered (reserve_workbench_packet cmp e p paths now d)"
| "run_packet cmp e now (UpdateStatus i st reason hash) d =
     map_prod id (\<lambda>a. a \<noteq> None) (update_workbench_packet_status cmp e i st reason hash now d)"
| "run_packet cmp e now (ClaimPacket w i s r ms) d =
     map_prod id answered (claim_next_workbench_packet cmp e w i s r ms now d)"
| "run_packet cmp e now (RenewPacket i t ms) d = map_prod id answered (renew_workbench_packet_lease cmp e i t ms now d)"
| "run_packet cmp e now (ReleasePacket i t q) d = map_prod id answered (release_workbench_packet_lease cmp e i t q now d)"
| "run_packet cmp e now (FinalizePacket i t st reason hash) d =
     map_prod id answered (finalize_workbench_packet_execution cmp e i t st reason hash now d)"
| "run_packet cmp e now RecoverStale d = map_prod id (\<lambda>a. a \<noteq> None) (recover_stale_workbench_packet_leases cmp e now d)"
| "run_packet cmp e now (RecoverInterrupted i reason) d =
     map_prod id (\<lambda>a. a \<noteq> None) (recover_interrupted_workbench_packet cmp e i reason now d)"
| "run_packet cmp e now (ControlRun i act reason) d =
     map_prod id (\<lambda>a. a \<noteq> None) (control_workbench_packets_for_run cmp e i act reason now d)"

definition run_packets ::
  "(string \<Rightarrow> string \<Rightarrow> int) \<Rightarrow> (io_env \<times> int \<times> 'b packet_call) list \<Rightarrow> 'b packet_disk \<Rightarrow> 'b packet_disk" where
  "run_packets cmp cs d = foldl (\<lambda>d (e, now, c). fst (run_packet cmp e now c d)) d cs"

definition finished :: "'b packet_record \<Rightarrow> bool" where
  "finished r = (pr_status r \<in> {PCompleted, PFailed, PCancelled})"

definition is_update :: "'b packet_call \<Rightarrow> bool" where
  "is_update c = (case c of UpdateStatus i st reason hash \<Rightarrow> True | _ \<Rightarrow> False)"

text \<open>
  What one call does to a packet: its identity stays, the count of its claims does not fall, a
  finished packet is left alone by all but the direct status update, and a token that is not
  the old one is the one made in this call.
\<close>

definition packet_changed :: "io_env \<Rightarrow> 'c packet_call \<Rightarrow> 'b packet_record \<Rightarrow> 'b packet_record \<Rightarrow> bool" where
  "packet_changed e c r r' =
     (pr_packet r' = pr_packet r \<and> pr_claimAttempt r \<le> pr_claimAttempt r'
      \<and> (finished r \<and> \<not> is_update c \<longrightarrow> r' = r)
      \<and> (pr_leaseToken r' = None \<or> pr_leaseToken r' = pr_leaseToken r
         \<or> pr_leaseToken r' = Some (lease_token e)))"

definition packet_step :: "io_env \<Rightarrow> 'b packet_call \<Rightarrow> 'b packet_record list \<Rightarrow> 'b packet_record list \<Rightarrow> bool" where
  "packet_step e c rs rs' =
     (list_all2 (packet_changed e c) rs rs'
      \<or> (\<exists>r paths. c = ReservePacket (pr_packet r) paths \<and> rs' = rs @ [r] \<and> packet_id r \<notin> packet_id ` set rs \<and> packet_key r \<notin> packet_key ` set rs
            \<and> pr_claimAttempt r = 0 \<and> pr_leaseToken r = None))"

interpretation packet_list: bounded_list "kept_packets cmp" for cmp
  by unfold_locales (unfold kept_packets_def, metis mset_slice_last mset_js_sort)

lemma packet_changed_refl [simp]: "packet_changed e c r r"
  by (simp add: packet_changed_def)

lemma packet_step_refl [simp]: "packet_step e c rs rs"
  by (simp add: packet_step_def list_all2_refl)

lemma clear_lease_simps [simp]:
  "pr_packet (clear_lease r) = pr_packet r" "pr_status (clear_lease r) = pr_status r"
  "pr_claimAttempt (clear_lease r) = pr_claimAttempt r" "pr_leaseToken (clear_lease r) = None"
  by (simp_all add: clear_lease_def)

lemma packet_with_id_Some: "packet_with_id i rs = Some r \<Longrightarrow> r \<in> set rs \<and> packet_id r = i"
  by (auto simp: packet_with_id_def dest: find_Some_iff_in)

text \<open>A call leaves the file or persists a step from what it read.\<close>

definition packet_effect :: "(string \<Rightarrow> string \<Rightarrow> int) \<Rightarrow> io_env \<Rightarrow> 'b packet_call \<Rightarrow> 'b packet_disk \<Rightarrow> 'b packet_disk \<Rightarrow> bool" where
  "packet_effect cmp e c d d' =
     (d' = d \<or> (\<exists>rs'. d' = Stored (io_saveNow e, kept_packets cmp rs') \<and> packet_step e c (read_packets d) rs'))"

lemma with_packets_effect:
  assumes "\<And>answer rs'. callback (read_packets d) = Some (answer, Some rs') \<Longrightarrow> packet_step e c (read_packets d) rs'"
  shows "packet_effect cmp e c d (fst (with_packets cmp e busy d callback))"
  using assms
  by (auto simp: packet_effect_def with_packets_def write_disk_def
        split: lock_outcome.splits option.splits write_outcome.splits)

lemma packet_step_update:
  assumes "\<And>r. packet_with_id i rs = Some r \<Longrightarrow> packet_changed e c r (f r)"
  shows "packet_step e c rs (update_packet i f rs)"
  unfolding packet_step_def update_packet_def
  by (rule disjI1, rule list_all2_modify_first) (use assms in \<open>simp_all add: packet_with_id_def\<close>)

lemma packet_step_change:
  assumes "change_packets affected f rs = (ids, Some rs')" "\<And>r. affected r \<Longrightarrow> packet_changed e c r (f r)"
  shows "packet_step e c rs rs'"
proof -
  have rs': "rs' = map (\<lambda>r. if affected r then f r else r) rs"
    using assms(1) by (auto simp: change_packets_def Let_def split: if_splits)
  have "list_all2 (packet_changed e c) rs rs'" unfolding rs'
    by (rule list_all2_map_if) (simp_all add: assms(2))
  then show ?thesis by (simp add: packet_step_def)
qed

lemma claim_choice_taken:
  assumes "claim_choice w i s q now rs = Inr chosen" "List.find chosen rs = Some r"
  shows "r \<in> set rs" "pr_status r = PQueued \<or> (pr_status r = PRunning \<and> \<not> lease_active now r)" "matches_scope i s q r"
  using assms find_Some_iff_in [OF assms(2)]
  by (auto simp: claim_choice_def Let_def split: if_splits option.splits)

lemma claim_choice_retry: "claim_choice w i s q now rs \<noteq> Inl (Inr (True, r))"
  by (auto simp: claim_choice_def Let_def split: option.splits)

lemma with_leased_effect:
  assumes "\<And>f r. change = Some f \<Longrightarrow> pr_status r = PRunning \<Longrightarrow> packet_changed e c r (f r)"
  shows "packet_effect cmp e c d (fst (with_leased_packet cmp e i t change d))"
  unfolding with_leased_packet_def
  by (rule with_packets_effect)
     (auto simp: packet_lease_refusal_def intro!: packet_step_update assms split: option.splits if_splits)

lemma run_packet_effect: "packet_effect cmp e c d (fst (run_packet cmp e now c d))"
proof (cases c)
  case (ReservePacket p paths)
  show ?thesis unfolding ReservePacket run_packet.simps fst_map_prod id_apply reserve_workbench_packet_def
    by (rule with_packets_effect)
       (auto simp: packet_step_def packet_with_id_def list_ex_iff Let_def find_None_iff image_iff
         split: option.splits if_splits)
next
  case (UpdateStatus i st reason hash)
  show ?thesis unfolding UpdateStatus run_packet.simps fst_map_prod id_apply update_workbench_packet_status_def
    by (rule with_packets_effect)
       (auto simp: Let_def moved_to_def packet_changed_def is_update_def intro!: packet_step_update split: option.splits)
next
  case (ClaimPacket w i s q ms)
  show ?thesis
  proof (cases "trim w = [] \<or> 160 < length (trim w)")
    case True
    then show ?thesis by (simp add: ClaimPacket claim_next_workbench_packet_def packet_effect_def)
  next
    case False
    have step: "packet_step e c rs (modify_first chosen (\<lambda>r. claimed_packet (trim w) (lease_token e) at_now expiry
                  (requeued_for_claim at_now r)) rs)"
      if choice: "claim_choice (trim w) i s q now rs = Inr chosen" for rs chosen at_now expiry
      unfolding packet_step_def
      by (rule disjI1, rule list_all2_modify_first)
         (use claim_choice_taken [OF choice] in \<open>auto simp: packet_changed_def claimed_packet_def
            requeued_for_claim_def finished_def\<close>)
    show ?thesis using False
      unfolding ClaimPacket run_packet.simps fst_map_prod id_apply claim_next_workbench_packet_def
      by (simp add: Let_def, intro with_packets_effect)
         (use step ClaimPacket in \<open>auto split: sum.splits option.splits\<close>)
  qed
next
  case (RenewPacket i t ms)
  show ?thesis unfolding RenewPacket run_packet.simps fst_map_prod id_apply renew_workbench_packet_lease_def
    by (rule with_leased_effect) (auto simp: packet_changed_def finished_def split: option.splits)
next
  case (ReleasePacket i t q)
  show ?thesis unfolding ReleasePacket run_packet.simps fst_map_prod id_apply release_workbench_packet_lease_def
    by (rule with_leased_effect) (auto simp: packet_changed_def finished_def split: option.splits)
next
  case (FinalizePacket i t st reason hash)
  show ?thesis unfolding FinalizePacket run_packet.simps fst_map_prod id_apply finalize_workbench_packet_execution_def
    by (rule with_leased_effect) (auto simp: packet_changed_def finished_def split: option.splits)
next
  case RecoverStale
  show ?thesis unfolding RecoverStale run_packet.simps fst_map_prod id_apply recover_stale_workbench_packet_leases_def
    by (rule with_packets_effect)
       (auto simp: packet_changed_def finished_def stale_packet_def recovered_packet_def Let_def
         elim!: packet_step_change split: option.splits)
next
  case (RecoverInterrupted i reason)
  show ?thesis unfolding RecoverInterrupted run_packet.simps fst_map_prod id_apply recover_interrupted_workbench_packet_def
    by (rule with_packets_effect)
       (auto simp: Let_def packet_changed_def finished_def intro!: packet_step_update split: option.splits if_splits)
next
  case (ControlRun i act reason)
  show ?thesis unfolding ControlRun run_packet.simps fst_map_prod id_apply control_workbench_packets_for_run_def
    by (rule with_packets_effect)
       (cases act; auto simp: packet_changed_def finished_def affected_packet_def elim!: packet_step_change split: option.splits)
qed

section \<open>Identities\<close>

definition packets_wf :: "'b packet_record list \<Rightarrow> bool" where
  "packets_wf rs =
     (distinct (map packet_id rs) \<and> distinct (map packet_key rs) \<and> (\<forall>r \<in> set rs. 0 \<le> pr_claimAttempt r))"

lemma packets_wf_Nil [simp]: "packets_wf []"
  by (simp add: packets_wf_def)

lemma packets_wf_part: "packets_wf xs \<Longrightarrow> mset ys \<subseteq># mset xs \<Longrightarrow> packets_wf ys"
  unfolding packets_wf_def using distinct_map_submset set_submset by blast

lemma packet_changed_packets: "list_all2 (packet_changed e c) rs rs' \<Longrightarrow> map pr_packet rs' = map pr_packet rs"
  by (induction rule: list_all2_induct) (simp_all add: packet_changed_def)

lemma packet_step_wf:
  assumes "packet_step e c rs rs'" "packets_wf rs"
  shows "packets_wf rs'"
  using assms(1) unfolding packet_step_def
proof (elim disjE exE conjE)
  assume all: "list_all2 (packet_changed e c) rs rs'"
  have "map wp_packetId (map pr_packet rs') = map wp_packetId (map pr_packet rs)"
    "map wp_idempotencyKey (map pr_packet rs') = map wp_idempotencyKey (map pr_packet rs)"
    by (simp_all only: packet_changed_packets [OF all])
  then have "map packet_id rs' = map packet_id rs" "map packet_key rs' = map packet_key rs"
    by (simp_all add: comp_def)
  moreover have "0 \<le> pr_claimAttempt r'" if "r' \<in> set rs'" for r'
    using list_all2_right [OF all that] assms(2) by (force simp: packets_wf_def packet_changed_def)
  ultimately show ?thesis using assms(2) by (simp add: packets_wf_def)
next
  fix r assume "rs' = rs @ [r]" "packet_id r \<notin> packet_id ` set rs" "packet_key r \<notin> packet_key ` set rs"
    "pr_claimAttempt r = 0"
  with assms(2) show ?thesis by (simp add: packets_wf_def)
qed

lemma read_packets_wf: "on_file packets_wf d \<Longrightarrow> packets_wf (read_packets d)"
  by (auto simp: read_packets_def packets_wf_def comp_def split: disk.splits)

lemma read_packets_id:
  assumes "packets_wf rs"
  shows "read_packets (Stored (u, rs)) = rs"
proof -
  have "map (\<lambda>r. r\<lparr>pr_claimAttempt := max 0 (pr_claimAttempt r)\<rparr>) rs = map (\<lambda>r. r) rs"
    by (rule map_cong [OF refl]) (use assms in \<open>simp add: packets_wf_def max_def\<close>)
  then show ?thesis by (simp add: read_packets_def)
qed

lemma packet_effect_wf: "packet_effect cmp e c d d' \<Longrightarrow> on_file packets_wf d \<Longrightarrow> on_file packets_wf d'"
  unfolding packet_effect_def
  by (elim disjE exE conjE) (simp_all add: packets_wf_part [OF packet_step_wf [OF _ read_packets_wf] packet_list.keep_part])

interpretation packet_machine: op_machine "\<lambda>d (e, now, c). fst (run_packet cmp e now c d)" "on_file packets_wf" for cmp
  by unfold_locales (auto intro: packet_effect_wf run_packet_effect)

lemma run_packets_wf: "on_file packets_wf d \<Longrightarrow> on_file packets_wf (run_packets cmp cs d)"
  unfolding run_packets_def by (rule packet_machine.inv_run)

text \<open>
  A packet is reserved once: after any calls of the store, in any order and with any file-system
  failures, no two stored packets share their id or their idempotency key.
\<close>

theorem packets_reserved_once:
  assumes "run_packets cmp cs NoFile = Stored (u, rs)" "x \<in> set rs" "y \<in> set rs"
    and "packet_id x = packet_id y \<or> packet_key x = packet_key y"
  shows "x = y"
proof -
  have "packets_wf rs" using run_packets_wf [of NoFile cmp cs] assms(1) by simp
  then show ?thesis using assms(2-4) distinct_map_eq [of packet_id rs] distinct_map_eq [of packet_key rs]
    unfolding packets_wf_def by blast
qed

section \<open>Finished packets\<close>

definition reserves_packet :: "string \<Rightarrow> 'b packet_call \<Rightarrow> bool" where
  "reserves_packet i c = (case c of ReservePacket p paths \<Rightarrow> wp_packetId p = i | _ \<Rightarrow> False)"

text \<open>Every record under the id of \<open>x\<close> is \<open>x\<close>.\<close>

definition only_as :: "'b packet_record \<Rightarrow> 'b packet_record list \<Rightarrow> bool" where
  "only_as x rs = (\<forall>r \<in> set rs. packet_id r = packet_id x \<longrightarrow> r = x)"

lemma only_as_part: "only_as x xs \<Longrightarrow> mset ys \<subseteq># mset xs \<Longrightarrow> only_as x ys"
  unfolding only_as_def using set_submset by blast

lemma packet_step_only_as:
  assumes "packet_step e c rs rs'" "only_as x rs" "finished x" "\<not> is_update c" "\<not> reserves_packet (packet_id x) c"
  shows "only_as x rs'"
  using assms(1) unfolding packet_step_def
proof (elim disjE exE conjE)
  assume all: "list_all2 (packet_changed e c) rs rs'"
  show ?thesis unfolding only_as_def
  proof (intro ballI impI)
    fix r' assume "r' \<in> set rs'" "packet_id r' = packet_id x"
    moreover from this(1) obtain r where "r \<in> set rs" "packet_changed e c r r'" using list_all2_right [OF all] by blast
    ultimately show "r' = x" using assms(2-4) by (auto simp: only_as_def packet_changed_def)
  qed
qed (use assms(2,5) in \<open>auto simp: only_as_def reserves_packet_def\<close>)

lemma read_packets_only_as:
  assumes "0 \<le> pr_claimAttempt x" "on_file (only_as x) d"
  shows "only_as x (read_packets d)"
proof (cases d)
  case (Stored c)
  then obtain u rs where d: "d = Stored (u, rs)" by (cases c) simp
  have "r\<lparr>pr_claimAttempt := max 0 (pr_claimAttempt r)\<rparr> = x" if "r \<in> set rs" "packet_id r = packet_id x" for r
  proof -
    have "r = x" using assms(2) that by (simp add: d only_as_def)
    with assms(1) show ?thesis by simp
  qed
  then show ?thesis by (auto simp: d read_packets_def only_as_def)
qed (simp_all add: read_packets_def only_as_def)

lemma run_packet_only_as:
  assumes "on_file (only_as x) d" "finished x" "0 \<le> pr_claimAttempt x" "\<not> is_update c" "\<not> reserves_packet (packet_id x) c"
  shows "on_file (only_as x) (fst (run_packet cmp e now c d))"
  using run_packet_effect [of cmp e c d now] assms(1) unfolding packet_effect_def
  by (elim disjE exE conjE)
     (simp_all add: only_as_part [OF packet_step_only_as [OF _ read_packets_only_as [OF assms(3,1)] assms(2,4,5)]
        packet_list.keep_part])

lemma run_packets_only_as:
  "on_file (only_as x) d \<Longrightarrow> finished x \<Longrightarrow> 0 \<le> pr_claimAttempt x
   \<Longrightarrow> list_all (\<lambda>(e, now, c). \<not> is_update c \<and> \<not> reserves_packet (packet_id x) c) cs
   \<Longrightarrow> on_file (only_as x) (run_packets cmp cs d)"
  unfolding run_packets_def by (induction cs arbitrary: d) (auto intro: run_packet_only_as)

text \<open>
  C19. A finished packet stays as it is: for a completed, failed or cancelled packet of a store that
  the calls have made, the record that the store answers with after any later claims, renewals,
  releases, ends of execution, recoveries and controls is exactly the same one, or none once the
  bound of the file has pushed it out; only the direct status update changes it.
\<close>

theorem finished_packet_final:
  assumes "get_workbench_packet_record i (run_packets cmp earlier NoFile) = Some x" "finished x"
    and "list_all (\<lambda>(e, now, c). \<not> is_update c \<and> \<not> reserves_packet i c) later"
  shows "get_workbench_packet_record i (run_packets cmp later (run_packets cmp earlier NoFile)) \<in> {Some x, None}"
proof -
  let ?d = "run_packets cmp earlier NoFile"
  have wf: "on_file packets_wf ?d" by (rule run_packets_wf) simp
  have x: "x \<in> set (read_packets ?d)" "packet_id x = i"
    using packet_with_id_Some assms(1) by (auto simp: get_workbench_packet_record_def)
  have rwf: "packets_wf (read_packets ?d)" by (rule read_packets_wf [OF wf])
  then have count: "0 \<le> pr_claimAttempt x" using x(1) by (simp add: packets_wf_def)
  have "only_as x (read_packets ?d)"
    using rwf x(1) distinct_map_eq [of packet_id "read_packets ?d"] by (simp add: only_as_def packets_wf_def)
  then have "on_file (only_as x) ?d"
    using wf by (cases ?d) (auto simp: read_packets_id)
  then have "on_file (only_as x) (run_packets cmp later ?d)"
    by (rule run_packets_only_as) (use assms(2,3) count x(2) in simp_all)
  then have "only_as x (read_packets (run_packets cmp later ?d))" by (rule read_packets_only_as [OF count])
  then show ?thesis
    using packet_with_id_Some [of i] x(2)
    by (cases "get_workbench_packet_record i (run_packets cmp later ?d)")
       (auto simp: get_workbench_packet_record_def only_as_def)
qed

section \<open>Claims\<close>

text \<open>
  What a claim takes: a granted claim answers with a packet of the scope that the file held
  queued, or running under no active lease, so a worker never takes a packet from another whose
  lease still runs; without a packet id it takes the first queued packet of the scope, and only
  when the worker holds no active lease in it. The packet is then running for this worker
  alone, under a new token, and its lease ends after 5 seconds to 5 minutes.
\<close>

theorem claim_takes_free_packet:
  assumes "claim_next_workbench_packet cmp e w i s q ms now d = (d', Some (Inr (True, r)))"
  shows "\<exists>r0 expiry. r0 \<in> set (read_packets d) \<and> matches_scope i s q r0 \<and> pr_packet r = pr_packet r0
      \<and> (pr_status r0 = PQueued \<or> pr_status r0 = PRunning \<and> \<not> lease_active now r0)
      \<and> (\<not> truthy i \<longrightarrow> List.find (\<lambda>x. pr_status x = PQueued \<and> matches_scope i s q x) (read_packets d) = Some r0
            \<and> \<not> list_ex (\<lambda>x. matches_scope i s q x \<and> pr_status x = PRunning \<and> pr_leaseOwner x = Some (trim w)
                               \<and> lease_active now x) (read_packets d))
      \<and> pr_status r = PRunning \<and> pr_leaseOwner r = Some (trim w) \<and> pr_leaseToken r = Some (lease_token e)
      \<and> pr_claimAttempt r = pr_claimAttempt r0 + 1
      \<and> pr_leaseExpiresAt r = Some expiry \<and> date_parse expiry = Some (now + bounded_lease_ms ms)
      \<and> 5000 \<le> bounded_lease_ms ms \<and> bounded_lease_ms ms \<le> 300000"
proof -
  let ?rs = "read_packets d"
  from assms obtain chosen r0 at_now expiry where
    choice: "claim_choice (trim w) i s q now ?rs = Inr chosen" and r0: "List.find chosen ?rs = Some r0"
    and expiry: "to_iso (now + bounded_lease_ms ms) = Some expiry"
    and r: "r = claimed_packet (trim w) (lease_token e) at_now expiry (requeued_for_claim at_now r0)"
    by (auto simp: claim_next_workbench_packet_def with_packets_def write_disk_def Let_def claim_choice_retry
          split: lock_outcome.splits option.splits sum.splits write_outcome.splits if_splits)
  have first: "List.find (\<lambda>x. pr_status x = PQueued \<and> matches_scope i s q x) ?rs = Some r0
      \<and> \<not> list_ex (\<lambda>x. matches_scope i s q x \<and> pr_status x = PRunning \<and> pr_leaseOwner x = Some (trim w)
                          \<and> lease_active now x) ?rs"
    if "\<not> truthy i"
    using choice r0 that by (auto simp: claim_choice_def Let_def find_None_iff list_ex_iff split: option.splits if_splits)
  have "5000 \<le> bounded_lease_ms ms" "bounded_lease_ms ms \<le> 300000"
    by (auto simp: bounded_lease_ms_def split: option.splits)
  moreover have "pr_packet r = pr_packet r0" "pr_claimAttempt r = pr_claimAttempt r0 + 1"
    by (simp_all add: r claimed_packet_def requeued_for_claim_def)
  ultimately show ?thesis
    using claim_choice_taken [OF choice r0] first parse_to_iso [OF expiry]
    by (intro exI [of _ r0] exI [of _ expiry]) (simp add: r claimed_packet_def)
qed

section \<open>Tokens\<close>

definition carries_token :: "string \<Rightarrow> 'b packet_record list \<Rightarrow> bool" where
  "carries_token t rs = (\<exists>r \<in> set rs. pr_leaseToken r = Some t)"

definition presents_token :: "string \<Rightarrow> 'b packet_call \<Rightarrow> bool" where
  "presents_token t c =
     (case c of RenewPacket i u ms \<Rightarrow> u = t | ReleasePacket i u q \<Rightarrow> u = t
      | FinalizePacket i u st reason hash \<Rightarrow> u = t | _ \<Rightarrow> False)"

lemma packet_step_token:
  assumes "packet_step e c rs rs'" "\<not> carries_token t rs" "lease_token e \<noteq> t"
  shows "\<not> carries_token t rs'"
  using assms(1) unfolding packet_step_def
proof (elim disjE exE conjE)
  assume all: "list_all2 (packet_changed e c) rs rs'"
  show ?thesis
  proof
    assume "carries_token t rs'"
    then obtain r' where r': "r' \<in> set rs'" "pr_leaseToken r' = Some t" by (auto simp: carries_token_def)
    then obtain r where "r \<in> set rs" "packet_changed e c r r'" using list_all2_right [OF all] by blast
    then show False using r'(2) assms(2,3) by (auto simp: packet_changed_def carries_token_def)
  qed
qed (use assms(2) in \<open>auto simp: carries_token_def\<close>)

lemma carries_token_part: "\<not> carries_token t xs \<Longrightarrow> mset ys \<subseteq># mset xs \<Longrightarrow> \<not> carries_token t ys"
  unfolding carries_token_def using set_submset by blast

lemma read_packets_token: "on_file (\<lambda>rs. \<not> carries_token t rs) d \<Longrightarrow> \<not> carries_token t (read_packets d)"
  by (auto simp: read_packets_def carries_token_def split: disk.splits)

lemma run_packet_token:
  assumes "on_file (\<lambda>rs. \<not> carries_token t rs) d" "lease_token e \<noteq> t"
  shows "on_file (\<lambda>rs. \<not> carries_token t rs) (fst (run_packet cmp e now c d))"
  using run_packet_effect [of cmp e c d now] assms(1) unfolding packet_effect_def
  by (elim disjE exE conjE)
     (simp_all add: carries_token_part [OF packet_step_token [OF _ read_packets_token [OF assms(1)] assms(2)]
        packet_list.keep_part])

lemma run_packets_token:
  "on_file (\<lambda>rs. \<not> carries_token t rs) d \<Longrightarrow> list_all (\<lambda>(e, now, c). lease_token e \<noteq> t) cs
   \<Longrightarrow> on_file (\<lambda>rs. \<not> carries_token t rs) (run_packets cmp cs d)"
  unfolding run_packets_def by (induction cs arbitrary: d) (auto intro: run_packet_token)

lemma unknown_token_refused:
  assumes "\<not> carries_token t (read_packets d)" "presents_token t c"
  shows "\<not> snd (run_packet cmp e now c d)"
proof -
  have refused: "\<not> answered (snd (with_leased_packet cmp e i t change d))" for i change
    using assms(1) packet_with_id_Some [of i "read_packets d"]
    by (auto simp: with_leased_packet_def with_packets_def answered_def packet_lease_refusal_def carries_token_def
          split: lock_outcome.splits option.splits if_splits)
  then show ?thesis using assms(2)
    by (cases c)
       (simp_all add: presents_token_def renew_workbench_packet_lease_def release_workbench_packet_lease_def
         finalize_workbench_packet_execution_def)
qed

lemma claim_stored:
  assumes "claim_next_workbench_packet cmp e w i s q ms now d = (d', Some (Inr (True, r)))"
  obtains chosen f r0 where "List.find chosen (read_packets d) = Some r0" "f r0 = r" "packet_id r = packet_id r0"
    "pr_leaseToken r = Some (lease_token e)" "packet_step e (ClaimPacket w i s q ms) (read_packets d) (modify_first chosen f (read_packets d))"
    "d' = Stored (io_saveNow e, kept_packets cmp (modify_first chosen f (read_packets d)))"
proof -
  let ?rs = "read_packets d"
  let ?f = "\<lambda>at_now expiry r. claimed_packet (trim w) (lease_token e) at_now expiry (requeued_for_claim at_now r)"
  from assms obtain chosen r0 at_now expiry where
    choice: "claim_choice (trim w) i s q now ?rs = Inr chosen" and r0: "List.find chosen ?rs = Some r0"
    and r: "?f at_now expiry r0 = r"
    and d': "d' = Stored (io_saveNow e, kept_packets cmp (modify_first chosen (?f at_now expiry) ?rs))"
    by (auto simp: claim_next_workbench_packet_def with_packets_def write_disk_def Let_def claim_choice_retry
          split: lock_outcome.splits option.splits sum.splits write_outcome.splits if_splits)
  have step: "packet_step e (ClaimPacket w i s q ms) ?rs (modify_first chosen (?f at_now expiry) ?rs)"
    unfolding packet_step_def
    by (rule disjI1, rule list_all2_modify_first)
       (use claim_choice_taken [OF choice] in \<open>auto simp: packet_changed_def claimed_packet_def
          requeued_for_claim_def finished_def\<close>)
  show thesis
    by (rule that [OF r0 r _ _ step d']) (simp_all add: r [symmetric] claimed_packet_def requeued_for_claim_def)
qed

text \<open>
  C18. A worker that lost its lease is fenced off. Once a packet has been claimed again, the token
  of its earlier lease is worth nothing: whatever happens to the store later, a renewal, a
  release or the end of an execution that presents that token is refused. (Tokens are made from
  UUIDs: no other packet carries the same one, and none is made again.)
\<close>

theorem lost_lease_fenced:
  assumes "claim_next_workbench_packet cmp e w i s q ms now (run_packets cmp earlier NoFile) = (d', Some (Inr (True, r)))"
    and "\<forall>x \<in> set (read_packets (run_packets cmp earlier NoFile)). pr_leaseToken x = Some t \<longrightarrow> packet_id x = packet_id r"
    and "lease_token e \<noteq> t" "list_all (\<lambda>(e, now, c). lease_token e \<noteq> t) later"
    and "presents_token t c"
  shows "\<not> snd (run_packet cmp e' now' c (run_packets cmp later d'))"
proof -
  let ?d = "run_packets cmp earlier NoFile"
  obtain chosen f r0 where
    found: "List.find chosen (read_packets ?d) = Some r0" "f r0 = r" "packet_id r = packet_id r0"
    and new: "pr_leaseToken r = Some (lease_token e)"
    and step: "packet_step e (ClaimPacket w i s q ms) (read_packets ?d) (modify_first chosen f (read_packets ?d))"
    and d': "d' = Stored (io_saveNow e, kept_packets cmp (modify_first chosen f (read_packets ?d)))"
    by (rule claim_stored [OF assms(1)])
  let ?rs' = "modify_first chosen f (read_packets ?d)"
  have "packets_wf (read_packets ?d)" by (rule read_packets_wf, rule run_packets_wf) simp
  then have wf': "packets_wf ?rs'" by (rule packet_step_wf [OF step])
  have r_mem: "r \<in> set ?rs'" using find_modify_first [OF found(1), of f] found(2) by simp
  have "\<not> carries_token t ?rs'"
  proof
    assume "carries_token t ?rs'"
    then obtain y where y: "y \<in> set ?rs'" "pr_leaseToken y = Some t" by (auto simp: carries_token_def)
    then have "y \<noteq> r" using new assms(3) by auto
    with y(1) have "y \<in> set (read_packets ?d)" using set_modify_first [OF y(1)] found by auto
    with assms(2) y(2) have "packet_id y = packet_id r" by blast
    then have "y = r" using wf' y(1) r_mem distinct_map_eq [of packet_id ?rs'] by (simp add: packets_wf_def)
    with \<open>y \<noteq> r\<close> show False by blast
  qed
  then have "on_file (\<lambda>rs. \<not> carries_token t rs) d'"
    by (simp add: d' carries_token_part [OF _ packet_list.keep_part])
  from run_packets_token [OF this assms(4)] show ?thesis
    by (intro unknown_token_refused [OF read_packets_token assms(5)])
qed

section \<open>Recovery and control of the packets of a run\<close>

lemma run_packets_few: "on_file (\<lambda>rs. length rs \<le> 500) d \<Longrightarrow> on_file (\<lambda>rs. length rs \<le> 500) (run_packets cmp cs d)"
proof (unfold run_packets_def, induction cs arbitrary: d)
  case (Cons x cs)
  obtain e now c where x: "x = (e, now, c)" by (cases x)
  have "on_file (\<lambda>rs. length rs \<le> 500) (fst (run_packet cmp e now c d))"
    using run_packet_effect [of cmp e c d now] Cons.prems unfolding packet_effect_def kept_packets_def
    by (elim disjE exE conjE) (simp_all add: length_slice_last)
  from Cons.IH [OF this] show ?case by (simp add: x)
qed simp

text \<open>The file of a run: its packets have one id each, and there are at most 500.\<close>

definition packet_file :: "'b packet_disk \<Rightarrow> bool" where
  "packet_file d = (on_file packets_wf d \<and> on_file (\<lambda>rs. length rs \<le> 500) d)"

lemma run_packets_file [simp]: "packet_file (run_packets cmp cs NoFile)"
  by (simp add: packet_file_def run_packets_wf run_packets_few)

lemma packet_with_id_kept:
  assumes "packets_wf rs" "length rs \<le> 500"
  shows "packet_with_id i (kept_packets cmp rs) = packet_with_id i rs"
proof -
  have "length (js_sort (\<lambda>a b. cmp (pr_reservedAt a) (pr_reservedAt b)) rs) \<le> 500" using assms(2) by simp
  then have kept: "kept_packets cmp rs = js_sort (\<lambda>a b. cmp (pr_reservedAt a) (pr_reservedAt b)) rs"
    unfolding kept_packets_def by (rule slice_last_id)
  have "distinct (map packet_id rs)" "distinct (map packet_id (kept_packets cmp rs))"
    using assms(1) by (simp_all add: kept distinct_js_sort packets_wf_def)
  then have "packet_with_id i (kept_packets cmp rs) = Some r \<longleftrightarrow> packet_with_id i rs = Some r" for r
    unfolding packet_with_id_def by (simp add: find_key_iff kept)
  then show ?thesis by (metis not_Some_eq)
qed

lemma read_packet_file:
  assumes "packet_file d"
  shows "packets_wf (read_packets d)" "length (read_packets d) \<le> 500"
proof -
  show "packets_wf (read_packets d)" using assms by (simp add: packet_file_def read_packets_wf)
  show "length (read_packets d) \<le> 500"
    using assms by (auto simp: packet_file_def read_packets_def split: disk.splits)
qed

text \<open>What an operation on many packets leaves: each packet is changed or not by itself.\<close>

lemma changed_file:
  assumes "packet_file d" "io_lock e = LockTaken" "io_write e = Saved"
    and step: "\<And>r. affected r \<Longrightarrow> pr_packet (f r) = pr_packet r \<and> pr_claimAttempt (f r) = pr_claimAttempt r"
    and d': "d' = fst (with_packets cmp e busy d (\<lambda>rs. Some (change_packets affected f rs)))"
  shows "packet_file d'"
    "get_workbench_packet_record i d' = map_option (\<lambda>r. if affected r then f r else r) (get_workbench_packet_record i d)"
proof -
  let ?g = "\<lambda>r. if affected r then f r else r" and ?rs = "read_packets d"
  note rs = read_packet_file [OF assms(1)]
  have find: "packet_with_id i (map ?g ?rs) = map_option ?g (packet_with_id i ?rs)"
    unfolding packet_with_id_def find_map using step by (intro arg_cong [where f = "map_option ?g"] arg_cong2 [where f = List.find]) (auto simp: fun_eq_iff)
  have ids: "map packet_id (map ?g ?rs) = map packet_id ?rs" "map packet_key (map ?g ?rs) = map packet_key ?rs"
    using step by auto
  have wf: "packets_wf (map ?g ?rs)"
    unfolding packets_wf_def ids using rs(1) step by (auto simp: packets_wf_def)
  show "packet_file d'"
  proof (cases "filter affected ?rs = []")
    case True
    then show ?thesis using assms(1-3) by (simp add: d' with_packets_def change_packets_def)
  next
    case False
    then have "d' = Stored (io_saveNow e, kept_packets cmp (map ?g ?rs))"
      using assms(2,3) by (simp add: d' with_packets_def change_packets_def write_disk_def)
    then show ?thesis
      using packets_wf_part [OF wf packet_list.keep_part] rs(2)
      by (simp add: packet_file_def kept_packets_def length_slice_last)
  qed
  show "get_workbench_packet_record i d' = map_option ?g (get_workbench_packet_record i d)"
  proof (cases "filter affected ?rs = []")
    case True
    then have "map ?g ?rs = ?rs" by (auto simp: filter_empty_conv intro!: map_idI)
    then have "packet_with_id i ?rs = map_option ?g (packet_with_id i ?rs)" using find by simp
    moreover have "d' = d" using True assms(2) by (simp add: d' with_packets_def change_packets_def)
    ultimately show ?thesis by (simp add: get_workbench_packet_record_def)
  next
    case False
    then have "d' = Stored (io_saveNow e, kept_packets cmp (map ?g ?rs))"
      using assms(2,3) by (simp add: d' with_packets_def change_packets_def write_disk_def)
    moreover have "packets_wf (kept_packets cmp (map ?g ?rs))" by (rule packets_wf_part [OF wf packet_list.keep_part])
    moreover have "packet_with_id i (kept_packets cmp (map ?g ?rs)) = packet_with_id i (map ?g ?rs)"
      by (rule packet_with_id_kept [OF wf]) (simp add: rs)
    ultimately show ?thesis using find by (simp add: get_workbench_packet_record_def read_packets_id)
  qed
qed

lemma recover_packet:
  assumes "packet_file d" "io_lock e = LockTaken" "io_write e = Saved" "to_iso now = Some at_now"
  shows "packet_file (fst (recover_stale_workbench_packet_leases cmp e now d))"
    "get_workbench_packet_record i (fst (recover_stale_workbench_packet_leases cmp e now d)) =
       map_option (\<lambda>r. if stale_packet now r then recovered_packet at_now r else r) (get_workbench_packet_record i d)"
  unfolding recover_stale_workbench_packet_leases_def assms(4) option.case
  by (rule changed_file [OF assms(1-3) _ refl]; simp add: recovered_packet_def Let_def)+

lemma control_packet:
  assumes "packet_file d" "io_lock e = LockTaken" "io_write e = Saved" "to_iso now = Some at_now"
  shows "packet_file (fst (control_workbench_packets_for_run cmp e q act reason now d))"
    "get_workbench_packet_record i (fst (control_workbench_packets_for_run cmp e q act reason now d)) =
       map_option (\<lambda>r. if affected_packet q act r then controlled_packet reason at_now act r else r)
         (get_workbench_packet_record i d)"
  unfolding control_workbench_packets_for_run_def assms(4) option.case
  by (rule changed_file [OF assms(1-3) _ refl]; cases act; simp)+

text \<open>
  Recovery frees exactly the packets whose lease has run out. A running packet whose lease has
  ended goes back to the queue, or is cancelled when its cancellation was requested, and loses
  its token; every other packet is as before, and no packet with an ended lease is left running.
\<close>

theorem stale_leases_recovered:
  assumes "d = run_packets cmp cs NoFile" "io_lock e = LockTaken" "io_write e = Saved" "to_iso now = Some at_now"
  shows "get_workbench_packet_record i (fst (recover_stale_workbench_packet_leases cmp e now d)) =
      (case get_workbench_packet_record i d of
         None \<Rightarrow> None
       | Some r \<Rightarrow> Some (if stale_packet now r then recovered_packet at_now r else r))
    \<and> (\<forall>r. get_workbench_packet_record i (fst (recover_stale_workbench_packet_leases cmp e now d)) = Some r
          \<longrightarrow> \<not> stale_packet now r
              \<and> (\<forall>r0. get_workbench_packet_record i d = Some r0 \<and> stale_packet now r0 \<longrightarrow>
                   pr_leaseToken r = None
                   \<and> pr_status r = (if pr_controlRequested r0 = Some ControlCancel then PCancelled else PQueued)))"
proof -
  note got = recover_packet(2) [OF _ assms(2-4), where cmp = cmp and d = d and i = i]
  have "\<not> stale_packet now (recovered_packet at_now r)" "pr_leaseToken (recovered_packet at_now r) = None"
    "pr_status (recovered_packet at_now r) = (if pr_controlRequested r = Some ControlCancel then PCancelled else PQueued)"
    for r :: "'a packet_record"
    by (simp_all add: stale_packet_def recovered_packet_def Let_def)
  then show ?thesis using got
    by (cases "get_workbench_packet_record i d") (auto simp: assms(1))
qed

text \<open>
  A pause revokes a requested cancellation. When a running packet's run is cancelled and then
  paused before the worker has stopped, the cancellation is forgotten: if the worker is lost, the
  recovery of the lease puts the packet back in the queue, where the cancellation alone would
  have ended it as cancelled.
\<close>

theorem pause_revokes_cancellation:
  assumes "d = run_packets cmp cs NoFile" "get_workbench_packet_record i d = Some r" "pr_status r = PRunning" "stale_packet now3 r"
    and "io_lock e1 = LockTaken" "io_write e1 = Saved" "to_iso now1 = Some t1"
    and "io_lock e2 = LockTaken" "io_write e2 = Saved" "to_iso now2 = Some t2"
    and "io_lock e3 = LockTaken" "io_write e3 = Saved" "to_iso now3 = Some t3"
  shows "let run = wp_runId (pr_packet r);
             cancelled = fst (control_workbench_packets_for_run cmp e1 run ActCancel reason1 now1 d);
             paused = fst (control_workbench_packets_for_run cmp e2 run ActPause reason2 now2 cancelled)
         in map_option pr_status (get_workbench_packet_record i
              (fst (recover_stale_workbench_packet_leases cmp e3 now3 cancelled))) = Some PCancelled
            \<and> map_option pr_status (get_workbench_packet_record i
              (fst (recover_stale_workbench_packet_leases cmp e3 now3 paused))) = Some PQueued"
proof -
  let ?run = "wp_runId (pr_packet r)"
  let ?c = "fst (control_workbench_packets_for_run cmp e1 ?run ActCancel reason1 now1 d)"
  let ?p = "fst (control_workbench_packets_for_run cmp e2 ?run ActPause reason2 now2 ?c)"
  have pf: "packet_file d" by (simp add: assms(1))
  note c = control_packet [OF pf assms(5,6,7), where cmp = cmp and q = ?run and act = ActCancel and reason = reason1]
  have cancelled: "get_workbench_packet_record i ?c
      = Some (r\<lparr>pr_controlRequested := Some ControlCancel, pr_controlReason := reason1, pr_updatedAt := t1\<rparr>)"
    unfolding c(2) assms(2) by (simp add: affected_packet_def assms(3))
  note p = control_packet [OF c(1) assms(8,9,10), where cmp = cmp and q = ?run and act = ActPause and reason = reason2]
  have paused: "get_workbench_packet_record i ?p
      = Some (r\<lparr>pr_controlRequested := Some ControlPause, pr_controlReason := reason2, pr_updatedAt := t2\<rparr>)"
    unfolding p(2) cancelled by (simp add: affected_packet_def assms(3))
  have stale: "stale_packet now3 (r\<lparr>pr_controlRequested := q, pr_controlReason := s, pr_updatedAt := t\<rparr>)" for q s t
    using assms(4) by (simp add: stale_packet_def)
  show ?thesis
    unfolding Let_def recover_packet(2) [OF c(1) assms(11-13)] recover_packet(2) [OF p(1) assms(11-13)] cancelled paused
    by (simp add: stale) (simp add: recovered_packet_def Let_def)
qed

section \<open>A concrete store\<close>

definition sample_packet :: "string \<Rightarrow> unit work_packet" where
  "sample_packet i =
     \<lparr>wp_packetId = i, wp_idempotencyKey = ''run:'' @ i, wp_runId = ''run'', wp_sourceId = ''src'', wp_taskId = ''task'',
      wp_content = ()\<rparr>"

definition packet_env :: "string \<Rightarrow> io_env" where
  "packet_env u = (sample_env noon)\<lparr>io_uuid := u\<rparr>"

text \<open>2026-01-01T12:00:00.000Z.\<close>

definition packet_noon :: int where "packet_noon = 1767268800000"

definition sample_packet_calls :: "(io_env \<times> int \<times> unit packet_call) list" where
  "sample_packet_calls =
     [(packet_env ''a'', packet_noon, ReservePacket (sample_packet ''p1'') [''x'']),
      (packet_env ''a'', packet_noon, ReservePacket (sample_packet ''p2'') [''y'']),
      (packet_env ''a'', packet_noon, ClaimPacket ''w1'' (Some ''p1'') None None None)]"

definition queued_packet :: "string \<Rightarrow> string \<Rightarrow> unit packet_record" where
  "queued_packet i path =
     \<lparr>pr_packet = sample_packet i, pr_status = PQueued, pr_exactPaths = [path], pr_reservedAt = noon,
      pr_updatedAt = noon, pr_startedAt = None, pr_completedAt = None, pr_failedAt = None, pr_cancelledAt = None,
      pr_failureReason = None, pr_commitHash = None, pr_controlRequested = None, pr_controlReason = None,
      pr_pausedAt = None, pr_leaseOwner = None, pr_leaseToken = None, pr_leaseAcquiredAt = None,
      pr_leaseExpiresAt = None, pr_claimAttempt = 0\<rparr>"

definition running_packet :: "unit packet_record" where
  "running_packet = claimed_packet ''w1'' (lease_token (packet_env ''a'')) noon ''2026-01-01T12:01:00.000Z'' (queued_packet ''p1'' ''x'')"

lemma sample_packets: "run_packets (\<lambda>a b. 0) sample_packet_calls NoFile = Stored (noon, [running_packet, queued_packet ''p2'' ''y''])"
  by code_simp

theorem packets_reserved_once_witness: "packet_id running_packet \<noteq> packet_id (queued_packet ''p2'' ''y'')"
proof -
  have "running_packet \<noteq> queued_packet ''p2'' ''y''" by code_simp
  with packets_reserved_once [OF sample_packets, of running_packet "queued_packet ''p2'' ''y''"] show ?thesis by auto
qed

definition finishing_calls :: "(io_env \<times> int \<times> unit packet_call) list" where
  "finishing_calls = sample_packet_calls @
     [(packet_env ''b'', packet_noon, FinalizePacket ''p1'' (lease_token (packet_env ''a'')) EndCompleted None (Some ''abc''))]"

definition later_calls :: "(io_env \<times> int \<times> unit packet_call) list" where
  "later_calls =
     [(packet_env ''c'', packet_noon, ClaimPacket ''w2'' (Some ''p1'') None None None),
      (packet_env ''c'', packet_noon, ControlRun ''run'' ActCancel None)]"

theorem finished_packet_final_witness:
  "map_option pr_status (get_workbench_packet_record ''p1'' (run_packets (\<lambda>a b. 0) later_calls
      (run_packets (\<lambda>a b. 0) finishing_calls NoFile))) = Some PCompleted"
proof -
  have "get_workbench_packet_record ''p1'' (run_packets (\<lambda>a b. 0) finishing_calls NoFile) \<noteq> None"
    "map_option pr_status (get_workbench_packet_record ''p1'' (run_packets (\<lambda>a b. 0) finishing_calls NoFile)) = Some PCompleted"
    by code_simp+
  then obtain x where x: "get_workbench_packet_record ''p1'' (run_packets (\<lambda>a b. 0) finishing_calls NoFile) = Some x"
    "pr_status x = PCompleted" by auto
  have "list_all (\<lambda>(e, now, c). \<not> is_update c \<and> \<not> reserves_packet ''p1'' c) later_calls" by code_simp
  from finished_packet_final [OF x(1) _ this] x(2)
  have "get_workbench_packet_record ''p1'' (run_packets (\<lambda>a b. 0) later_calls
      (run_packets (\<lambda>a b. 0) finishing_calls NoFile)) \<in> {Some x, None}" by (simp add: finished_def)
  moreover have "get_workbench_packet_record ''p1'' (run_packets (\<lambda>a b. 0) later_calls
      (run_packets (\<lambda>a b. 0) finishing_calls NoFile)) \<noteq> None" by code_simp
  ultimately show ?thesis using x(2) by auto
qed

text \<open>A second worker, after the first one's lease has ended at 12:01.\<close>

definition second_claim :: "unit packet_disk \<times> (bool \<times> unit packet_record) packet_answer" where
  "second_claim =
     claim_next_workbench_packet (\<lambda>a b. 0) (packet_env ''b'') '' w2 '' (Some ''p1'') None None None (packet_noon + 60000)
       (run_packets (\<lambda>a b. 0) sample_packet_calls NoFile)"

definition reclaimed_packet :: "unit packet_record" where
  "reclaimed_packet =
     claimed_packet ''w2'' (lease_token (packet_env ''b'')) ''2026-01-01T12:01:00.000Z'' ''2026-01-01T12:02:00.000Z''
       (requeued_for_claim ''2026-01-01T12:01:00.000Z'' running_packet)"

lemma second_claim_granted:
  "second_claim = (Stored (noon, [reclaimed_packet, queued_packet ''p2'' ''y'']), Some (Inr (True, reclaimed_packet)))"
  unfolding second_claim_def sample_packets by code_simp

theorem claim_takes_free_packet_witness:
  "pr_status reclaimed_packet = PRunning \<and> pr_leaseOwner reclaimed_packet = Some ''w2''
   \<and> pr_leaseToken reclaimed_packet = Some ''lease-b''"
proof -
  have w: "trim '' w2 '' = ''w2''" "lease_token (packet_env ''b'') = ''lease-b''" by code_simp+
  from claim_takes_free_packet [OF second_claim_granted [unfolded second_claim_def]] show ?thesis unfolding w by blast
qed

theorem lost_lease_fenced_witness:
  "\<not> snd (run_packet (\<lambda>a b. 0) (packet_env ''c'') packet_noon (FinalizePacket ''p1'' ''lease-a'' EndCompleted None None)
      (run_packets (\<lambda>a b. 0) [(packet_env ''c'', packet_noon, RenewPacket ''p1'' ''lease-b'' None)]
        (Stored (noon, [reclaimed_packet, queued_packet ''p2'' ''y'']))))"
proof (rule lost_lease_fenced [OF second_claim_granted [unfolded second_claim_def], where t = "''lease-a''"])
  show "\<forall>x \<in> set (read_packets (run_packets (\<lambda>a b. 0) sample_packet_calls NoFile)).
      pr_leaseToken x = Some ''lease-a'' \<longrightarrow> packet_id x = packet_id reclaimed_packet"
    unfolding sample_packets by code_simp
  show "list_all (\<lambda>(e, now, c). lease_token e \<noteq> ''lease-a'') [(packet_env ''c'', packet_noon, RenewPacket ''p1'' ''lease-b'' None)]"
    by code_simp
  show "lease_token (packet_env ''b'') \<noteq> ''lease-a''" by code_simp
qed (simp add: presents_token_def)

lemma sample_stale:
  "get_workbench_packet_record ''p1'' (run_packets (\<lambda>a b. 0) sample_packet_calls NoFile) = Some running_packet"
  "pr_status running_packet = PRunning" "stale_packet (packet_noon + 60000) running_packet"
  "pr_controlRequested running_packet = None" "wp_runId (pr_packet running_packet) = ''run''"
  "to_iso (packet_noon + 60000) = Some ''2026-01-01T12:01:00.000Z''" "to_iso packet_noon = Some noon"
  "io_lock (packet_env ''c'') = LockTaken" "io_write (packet_env ''c'') = Saved"
  unfolding sample_packets by code_simp+

theorem stale_leases_recovered_witness:
  "map_option pr_status (get_workbench_packet_record ''p1''
      (fst (recover_stale_workbench_packet_leases (\<lambda>a b. 0) (packet_env ''c'') (packet_noon + 60000)
        (run_packets (\<lambda>a b. 0) sample_packet_calls NoFile)))) = Some PQueued"
proof -
  note recovered = stale_leases_recovered [OF refl sample_stale(8,9,6), where cmp = "\<lambda>a b. 0"
      and cs = sample_packet_calls and i = "''p1''"]
  have "pr_status (recovered_packet ''2026-01-01T12:01:00.000Z'' running_packet) = PQueued" by code_simp
  then show ?thesis
    unfolding recovered [THEN conjunct1, unfolded sample_stale(1) option.case if_P [OF sample_stale(3)]] by simp
qed

theorem pause_revokes_cancellation_witness:
  "map_option pr_status (get_workbench_packet_record ''p1''
     (fst (recover_stale_workbench_packet_leases (\<lambda>a b. 0) (packet_env ''c'') (packet_noon + 60000)
       (fst (control_workbench_packets_for_run (\<lambda>a b. 0) (packet_env ''c'') ''run'' ActPause None packet_noon
         (fst (control_workbench_packets_for_run (\<lambda>a b. 0) (packet_env ''c'') ''run'' ActCancel None packet_noon
           (run_packets (\<lambda>a b. 0) sample_packet_calls NoFile)))))))) = Some PQueued"
  using pause_revokes_cancellation [OF refl sample_stale(1,2,3,8,9,7,8,9,7,8,9,6), where ?reason1.0 = None and ?reason2.0 = None]
  unfolding sample_stale(5) Let_def by blast

end
