(* ===== verification/Run_Budget.thy ===== *)
theory Run_Budget
  imports Complex_Main Js_Time
begin

text \<open>
  \<^verbatim>\<open>packages/cli/src/agent/run-budget.ts\<close>: the execution budget of one run: how many packets it
  may process, how long it may execute, how often it may repair. Limits can be narrowed and
  never broadened, a packet is counted once, and the time a run is paused is not counted.

  Numbers that come from outside are finite rationals or \<open>None\<close> for a value whose
  \<^verbatim>\<open>Number(...)\<close> is not finite; a member of an object that is spread over another one is
  \<open>None\<close> when it is absent.
\<close>

section \<open>Data\<close>

datatype budget_reason =
  PacketCyclesExhausted | RepairAttemptsExhausted | ElapsedWindowExhausted | RoadmapTargetReached

datatype stop_condition =
    StopConfirmationRequired | StopPrerequisiteBlocked | StopPolicyBlocked | StopStaleHead
  | StopValidationFailed | StopPacketCyclesExhausted | StopRepairAttemptsExhausted
  | StopElapsedWindowExhausted

record run_budget =
  rb_maxPacketCycles :: int
  rb_maxElapsedMs :: int
  rb_advisoryTarget :: int
  rb_maxRepairAttempts :: int
  rb_stopConditions :: "stop_condition list"
  rb_consumedPacketCycles :: int
  rb_consumedRepairAttempts :: int
  rb_consumedPacketIds :: "string list"
  rb_windowStartedAt :: string
  rb_exhausted :: bool
  rb_reasonCode :: "budget_reason option"

record budget_request =
  rq_maxPacketCycles :: "rat option option"
  rq_maxElapsedMs :: "rat option option"
  rq_advisoryTarget :: "rat option option"
  rq_maxRepairAttempts :: "rat option option"
  rq_stopConditions :: "stop_condition list option option"

text \<open>What \<^verbatim>\<open>normalizeRunExecutionBudget\<close> reads of an unknown value: the strings of an array,
  the known conditions of an array (\<open>None\<close> when it is no array).\<close>

record raw_budget =
  raw_maxPacketCycles :: "rat option"
  raw_maxElapsedMs :: "rat option"
  raw_advisoryTarget :: "rat option"
  raw_maxRepairAttempts :: "rat option"
  raw_stopConditions :: "stop_condition list option"
  raw_consumedPacketCycles :: "rat option"
  raw_consumedRepairAttempts :: "rat option"
  raw_consumedPacketIds :: "string list option"
  raw_windowStartedAt :: "string option"

definition default_stop_conditions :: "stop_condition list" where
  "default_stop_conditions =
     [StopConfirmationRequired, StopPrerequisiteBlocked, StopPolicyBlocked, StopStaleHead,
      StopValidationFailed, StopPacketCyclesExhausted, StopRepairAttemptsExhausted,
      StopElapsedWindowExhausted]"

section \<open>Normalisation\<close>

definition bounded_integer :: "rat option \<Rightarrow> int \<Rightarrow> int \<Rightarrow> int \<Rightarrow> int" where
  "bounded_integer v fallback lo hi =
     (case v of None \<Rightarrow> fallback | Some q \<Rightarrow> min hi (max lo \<lfloor>q\<rfloor>))"

definition normalize_iso :: "string option \<Rightarrow> string \<Rightarrow> string" where
  "normalize_iso v fallback =
     (case v of None \<Rightarrow> fallback
      | Some s \<Rightarrow> (case date_parse s of None \<Rightarrow> fallback
                   | Some t \<Rightarrow> (case to_iso t of None \<Rightarrow> fallback | Some u \<Rightarrow> u)))"

definition normalize_stop_conditions :: "stop_condition list option \<Rightarrow> stop_condition list" where
  "normalize_stop_conditions v =
     uniq (default_stop_conditions @ (case v of None \<Rightarrow> [] | Some cs \<Rightarrow> filter (\<lambda>c. c \<in> set default_stop_conditions) cs))"

definition packet_id_text :: "string \<Rightarrow> string" where
  "packet_id_text s = take 160 (trim s)"

definition normalize_packet_ids :: "string list option \<Rightarrow> string list" where
  "normalize_packet_ids v =
     (case v of None \<Rightarrow> []
      | Some xs \<Rightarrow> slice_last 100 (uniq (map packet_id_text (filter (\<lambda>s. 0 < length (trim s)) xs))))"

section \<open>Evaluation\<close>

definition elapsed_ms :: "string \<Rightarrow> string \<Rightarrow> int" where
  "elapsed_ms started now =
     (case (date_parse now, date_parse started) of (Some n, Some s) \<Rightarrow> max 0 (n - s) | _ \<Rightarrow> 0)"

definition exhaustion_reason :: "run_budget \<Rightarrow> string \<Rightarrow> bool \<Rightarrow> budget_reason option" where
  "exhaustion_reason b now repairing =
     (if StopPacketCyclesExhausted \<in> set (rb_stopConditions b) \<and> rb_maxPacketCycles b \<le> rb_consumedPacketCycles b
      then Some PacketCyclesExhausted
      else if repairing \<and> StopRepairAttemptsExhausted \<in> set (rb_stopConditions b)
              \<and> rb_maxRepairAttempts b \<le> rb_consumedRepairAttempts b
      then Some RepairAttemptsExhausted
      else if StopElapsedWindowExhausted \<in> set (rb_stopConditions b)
              \<and> rb_maxElapsedMs b \<le> elapsed_ms (rb_windowStartedAt b) now
      then Some ElapsedWindowExhausted
      else None)"

record budget_verdict =
  bv_budget :: run_budget
  bv_exhausted :: bool
  bv_reasonCode :: "budget_reason option"
  bv_advisoryTargetReached :: bool

definition evaluate_run_budget :: "run_budget \<Rightarrow> string \<Rightarrow> rat option \<Rightarrow> bool \<Rightarrow> budget_verdict" where
  "evaluate_run_budget b now delta repairing =
     (let r = exhaustion_reason b now repairing;
          d = (case delta of None \<Rightarrow> 0 | Some q \<Rightarrow> q)
      in \<lparr>bv_budget = b\<lparr>rb_exhausted := r \<noteq> None, rb_reasonCode := r\<rparr>, bv_exhausted = (r \<noteq> None),
          bv_reasonCode = r, bv_advisoryTargetReached = (of_int (rb_advisoryTarget b) \<le> max 0 d)\<rparr>)"

definition evaluated :: "run_budget \<Rightarrow> string \<Rightarrow> run_budget" where
  "evaluated b now = bv_budget (evaluate_run_budget b now None False)"

definition normalize_run_budget :: "raw_budget \<Rightarrow> string \<Rightarrow> run_budget" where
  "normalize_run_budget r now =
     (let ids = normalize_packet_ids (raw_consumedPacketIds r) in
      evaluated
        \<lparr>rb_maxPacketCycles = bounded_integer (raw_maxPacketCycles r) 3 1 40,
         rb_maxElapsedMs = bounded_integer (raw_maxElapsedMs r) (45 * 60 * 1000) 1 (4 * 60 * 60 * 1000),
         rb_advisoryTarget = bounded_integer (raw_advisoryTarget r) 8 0 100,
         rb_maxRepairAttempts = bounded_integer (raw_maxRepairAttempts r) 1 0 3,
         rb_stopConditions = normalize_stop_conditions (raw_stopConditions r),
         rb_consumedPacketCycles = max (int (length ids)) (bounded_integer (raw_consumedPacketCycles r) 0 0 40),
         rb_consumedRepairAttempts = bounded_integer (raw_consumedRepairAttempts r) 0 0 3,
         rb_consumedPacketIds = ids,
         rb_windowStartedAt = normalize_iso (raw_windowStartedAt r)
           (normalize_iso (Some now) ''1970-01-01T00:00:00.000Z''),
         rb_exhausted = False, rb_reasonCode = None\<rparr> now)"

section \<open>Operations\<close>

definition spread :: "'a option option \<Rightarrow> 'a option \<Rightarrow> 'a option" where
  "spread requested current = (case requested of None \<Rightarrow> current | Some v \<Rightarrow> v)"

definition create_run_budget :: "budget_request \<Rightarrow> string \<Rightarrow> run_budget" where
  "create_run_budget q now =
     normalize_run_budget
       \<lparr>raw_maxPacketCycles = spread (rq_maxPacketCycles q) None, raw_maxElapsedMs = spread (rq_maxElapsedMs q) None,
        raw_advisoryTarget = spread (rq_advisoryTarget q) None,
        raw_maxRepairAttempts = spread (rq_maxRepairAttempts q) None,
        raw_stopConditions = spread (rq_stopConditions q) None, raw_consumedPacketCycles = None,
        raw_consumedRepairAttempts = None, raw_consumedPacketIds = None, raw_windowStartedAt = Some now\<rparr> now"

definition requested_budget :: "run_budget \<Rightarrow> budget_request \<Rightarrow> string \<Rightarrow> run_budget" where
  "requested_budget b q now =
     normalize_run_budget
       \<lparr>raw_maxPacketCycles = spread (rq_maxPacketCycles q) (Some (of_int (rb_maxPacketCycles b))),
        raw_maxElapsedMs = spread (rq_maxElapsedMs q) (Some (of_int (rb_maxElapsedMs b))),
        raw_advisoryTarget = spread (rq_advisoryTarget q) (Some (of_int (rb_advisoryTarget b))),
        raw_maxRepairAttempts = spread (rq_maxRepairAttempts q) (Some (of_int (rb_maxRepairAttempts b))),
        raw_stopConditions = spread (rq_stopConditions q) (Some (rb_stopConditions b)),
        raw_consumedPacketCycles = Some (of_int (rb_consumedPacketCycles b)),
        raw_consumedRepairAttempts = Some (of_int (rb_consumedRepairAttempts b)),
        raw_consumedPacketIds = Some (rb_consumedPacketIds b),
        raw_windowStartedAt = Some (rb_windowStartedAt b)\<rparr> now"

definition narrow_run_budget :: "run_budget \<Rightarrow> budget_request \<Rightarrow> string \<Rightarrow> string + run_budget" where
  "narrow_run_budget b q now =
     (let n = requested_budget b q now in
      if rb_maxPacketCycles b < rb_maxPacketCycles n then Inl ''Run budget cannot broaden maxPacketCycles''
      else if rb_maxElapsedMs b < rb_maxElapsedMs n then Inl ''Run budget cannot broaden maxElapsedMs''
      else if rb_advisoryTarget b < rb_advisoryTarget n
      then Inl ''Run budget cannot broaden advisoryRoadmapProgressTarget''
      else if rb_maxRepairAttempts b < rb_maxRepairAttempts n then Inl ''Run budget cannot broaden maxRepairAttempts''
      else if list_ex (\<lambda>c. c \<notin> set (rb_stopConditions b)) (rb_stopConditions n)
      then Inl ''Run budget cannot broaden stopConditions''
      else Inr (evaluated (b\<lparr>rb_maxPacketCycles := rb_maxPacketCycles n, rb_maxElapsedMs := rb_maxElapsedMs n,
             rb_advisoryTarget := rb_advisoryTarget n, rb_maxRepairAttempts := rb_maxRepairAttempts n,
             rb_stopConditions := rb_stopConditions n\<rparr>) now))"

definition consume_packet_cycle :: "run_budget \<Rightarrow> string \<Rightarrow> string \<Rightarrow> run_budget" where
  "consume_packet_cycle b packetId now =
     (let i = packet_id_text packetId in
      if i = [] \<or> i \<in> set (rb_consumedPacketIds b) then evaluated b now
      else let ids = slice_last 100 (rb_consumedPacketIds b @ [i])
        in evaluated (b\<lparr>rb_consumedPacketIds := ids,
                        rb_consumedPacketCycles := max (rb_consumedPacketCycles b + 1) (int (length ids))\<rparr>) now)"

definition synchronize_repair_attempts :: "run_budget \<Rightarrow> rat option \<Rightarrow> string \<Rightarrow> run_budget" where
  "synchronize_repair_attempts b attempts now =
     evaluated (b\<lparr>rb_consumedRepairAttempts :=
       max (rb_consumedRepairAttempts b) (bounded_integer attempts (rb_consumedRepairAttempts b) 0 3)\<rparr>) now"

definition consume_repair_attempt :: "run_budget \<Rightarrow> string \<Rightarrow> run_budget" where
  "consume_repair_attempt b now =
     evaluated (b\<lparr>rb_consumedRepairAttempts := min 3 (rb_consumedRepairAttempts b + 1)\<rparr>) now"

definition pause_run_budget :: "run_budget \<Rightarrow> string \<Rightarrow> run_budget" where
  "pause_run_budget b now =
     (let e = evaluated b now in
      if rb_exhausted e then e
      else e\<lparr>rb_maxElapsedMs := max 1 (rb_maxElapsedMs e - elapsed_ms (rb_windowStartedAt b) now),
             rb_windowStartedAt := normalize_iso (Some now) (rb_windowStartedAt e),
             rb_exhausted := False, rb_reasonCode := None\<rparr>)"

definition resume_run_budget :: "run_budget \<Rightarrow> string \<Rightarrow> run_budget" where
  "resume_run_budget b now =
     (if rb_exhausted b then b
      else evaluated (b\<lparr>rb_windowStartedAt := normalize_iso (Some now) (rb_windowStartedAt b),
                        rb_exhausted := False, rb_reasonCode := None\<rparr>) now)"

section \<open>What the operations keep\<close>

lemma evaluated_sel [simp]:
  "rb_maxPacketCycles (evaluated b now) = rb_maxPacketCycles b"
  "rb_maxElapsedMs (evaluated b now) = rb_maxElapsedMs b"
  "rb_advisoryTarget (evaluated b now) = rb_advisoryTarget b"
  "rb_maxRepairAttempts (evaluated b now) = rb_maxRepairAttempts b"
  "rb_stopConditions (evaluated b now) = rb_stopConditions b"
  "rb_consumedPacketCycles (evaluated b now) = rb_consumedPacketCycles b"
  "rb_consumedRepairAttempts (evaluated b now) = rb_consumedRepairAttempts b"
  "rb_consumedPacketIds (evaluated b now) = rb_consumedPacketIds b"
  "rb_windowStartedAt (evaluated b now) = rb_windowStartedAt b"
  "rb_exhausted (evaluated b now) = (exhaustion_reason b now False \<noteq> None)"
  "rb_reasonCode (evaluated b now) = exhaustion_reason b now False"
  by (simp_all add: evaluated_def evaluate_run_budget_def Let_def)

lemma all_conditions: "c \<in> set default_stop_conditions"
  by (cases c) (simp_all add: default_stop_conditions_def)

lemma uniq_from_seen: "set xs \<subseteq> set seen \<Longrightarrow> uniq_from seen (xs @ ys) = uniq_from seen ys"
  by (induction xs) auto

lemma uniq_from_covered: "set xs \<subseteq> set seen \<Longrightarrow> uniq_from seen xs = []"
  by (induction xs) auto

lemma uniq_from_append:
  "uniq_from seen (xs @ ys) = uniq_from seen xs @ uniq_from (rev (uniq_from seen xs) @ seen) ys"
  by (induction xs arbitrary: seen) (simp_all add: insert_absorb)

lemma normalize_stop_conditions_all: "normalize_stop_conditions v = default_stop_conditions"
proof -
  have "distinct default_stop_conditions" by (simp add: default_stop_conditions_def)
  then have "uniq default_stop_conditions = default_stop_conditions" by (rule uniq_id)
  moreover have "uniq_from (rev (uniq default_stop_conditions) @ []) ys = []" for ys
    by (rule uniq_from_covered) (auto simp: all_conditions)
  ultimately show ?thesis by (simp add: normalize_stop_conditions_def uniq_def uniq_from_append)
qed

lemma evaluated_stop_conditions [simp]:
  "rb_stopConditions (requested_budget b q now) = default_stop_conditions"
  "rb_stopConditions (create_run_budget q now) = default_stop_conditions"
  by (simp_all add: requested_budget_def create_run_budget_def normalize_run_budget_def Let_def
        normalize_stop_conditions_all)

lemma create_run_budget_fresh:
  "rb_consumedPacketIds (create_run_budget q now) = []" "rb_consumedPacketCycles (create_run_budget q now) = 0"
  "rb_maxPacketCycles (create_run_budget q now) \<le> 40"
  by (simp_all add: create_run_budget_def normalize_run_budget_def normalize_packet_ids_def Let_def
        bounded_integer_def slice_last_def split: option.split)

lemma consume_evaluated: "\<exists>c. consume_packet_cycle b i now = evaluated c now"
  by (auto simp: consume_packet_cycle_def Let_def)

definition packet_ids :: "string list \<Rightarrow> string list" where
  "packet_ids ids = uniq (filter (\<lambda>i. i \<noteq> []) (map packet_id_text ids))"

lemma packet_ids_snoc:
  "packet_ids (ids @ [i]) =
     (if packet_id_text i = [] \<or> packet_id_text i \<in> set (packet_ids ids) then packet_ids ids
      else packet_ids ids @ [packet_id_text i])"
  by (auto simp: packet_ids_def uniq_snoc)

lemma consume_all_packets:
  assumes "rb_consumedPacketIds b = []" "rb_consumedPacketCycles b = 0" "length (packet_ids ids) \<le> 100"
  shows "rb_consumedPacketIds (foldl (\<lambda>b i. consume_packet_cycle b i now) b ids) = packet_ids ids
    \<and> rb_consumedPacketCycles (foldl (\<lambda>b i. consume_packet_cycle b i now) b ids) = int (length (packet_ids ids))
    \<and> rb_maxPacketCycles (foldl (\<lambda>b i. consume_packet_cycle b i now) b ids) = rb_maxPacketCycles b
    \<and> rb_stopConditions (foldl (\<lambda>b i. consume_packet_cycle b i now) b ids) = rb_stopConditions b"
  using assms(3)
proof (induction ids rule: rev_induct)
  case Nil
  then show ?case using assms by (simp add: packet_ids_def)
next
  case (snoc i ids)
  then have "length (packet_ids ids) \<le> 100" by (auto simp: packet_ids_snoc split: if_splits)
  with snoc show ?case
    by (auto simp: consume_packet_cycle_def Let_def packet_ids_snoc slice_last_id split: if_splits)
qed

section \<open>Properties\<close>

definition plain_request :: "rat \<Rightarrow> budget_request" where
  "plain_request n =
     \<lparr>rq_maxPacketCycles = Some (Some n), rq_maxElapsedMs = None, rq_advisoryTarget = None,
      rq_maxRepairAttempts = None, rq_stopConditions = Some (Some [StopStaleHead])\<rparr>"

definition run_start :: string where "run_start = ''2026-01-01T12:00:00.000Z''"

text \<open>
  Narrowing never broadens: it succeeds exactly when every requested limit, as normalised,
  is at most the current one (and the current stop conditions are complete); the result has
  those limits and the current consumption and window. The requested stop conditions never
  matter: whatever they are, the result has all eight.
\<close>

theorem run_budget_never_broadened:
  "let n = requested_budget b q now in
   (case narrow_run_budget b q now of
      Inr b' \<Rightarrow> rb_maxPacketCycles b' = rb_maxPacketCycles n \<and> rb_maxPacketCycles n \<le> rb_maxPacketCycles b
        \<and> rb_maxElapsedMs b' = rb_maxElapsedMs n \<and> rb_maxElapsedMs n \<le> rb_maxElapsedMs b
        \<and> rb_advisoryTarget b' = rb_advisoryTarget n \<and> rb_advisoryTarget n \<le> rb_advisoryTarget b
        \<and> rb_maxRepairAttempts b' = rb_maxRepairAttempts n \<and> rb_maxRepairAttempts n \<le> rb_maxRepairAttempts b
        \<and> rb_stopConditions b' = default_stop_conditions
        \<and> rb_consumedPacketIds b' = rb_consumedPacketIds b \<and> rb_consumedPacketCycles b' = rb_consumedPacketCycles b
        \<and> rb_consumedRepairAttempts b' = rb_consumedRepairAttempts b \<and> rb_windowStartedAt b' = rb_windowStartedAt b
    | Inl e \<Rightarrow> rb_maxPacketCycles b < rb_maxPacketCycles n \<or> rb_maxElapsedMs b < rb_maxElapsedMs n
        \<or> rb_advisoryTarget b < rb_advisoryTarget n \<or> rb_maxRepairAttempts b < rb_maxRepairAttempts n
        \<or> (\<exists>c. c \<notin> set (rb_stopConditions b)))"
  by (auto simp: narrow_run_budget_def Let_def list_ex_iff)

text \<open>
  A run counts each packet once and stops at its limit: when a fresh budget consumes any
  sequence of packet ids (up to 100 different ones), the packets counted are the different
  trimmed, non-empty ids among them in their order, and after at least one consumption the
  budget is exhausted for its packet cycles if and only if they reach its limit.
\<close>

theorem packets_counted_once:
  assumes "length (packet_ids ids) \<le> 100" "ids \<noteq> []"
  shows "let b = create_run_budget q start; b' = foldl (\<lambda>b i. consume_packet_cycle b i now) b ids
    in rb_consumedPacketIds b' = packet_ids ids \<and> rb_consumedPacketCycles b' = int (length (packet_ids ids))
       \<and> (rb_reasonCode b' = Some PacketCyclesExhausted \<longleftrightarrow> rb_maxPacketCycles b \<le> int (length (packet_ids ids)))"
proof -
  let ?b = "create_run_budget q start"
  let ?b' = "foldl (\<lambda>b i. consume_packet_cycle b i now) ?b ids"
  have all: "rb_consumedPacketIds ?b' = packet_ids ids" "rb_consumedPacketCycles ?b' = int (length (packet_ids ids))"
    "rb_maxPacketCycles ?b' = rb_maxPacketCycles ?b" "rb_stopConditions ?b' = default_stop_conditions"
    using consume_all_packets [of ?b ids now] assms(1) create_run_budget_fresh by simp_all
  obtain c where "?b' = evaluated c now"
  proof (cases ids rule: rev_cases)
    case (snoc ys y)
    with that consume_evaluated [of "foldl (\<lambda>b i. consume_packet_cycle b i now) ?b ys" y now] show ?thesis by auto
  qed (use assms(2) in simp)
  then have "rb_reasonCode ?b' = exhaustion_reason ?b' now False"
    by (simp add: exhaustion_reason_def)
  then show ?thesis
    using all by (auto simp: Let_def exhaustion_reason_def all_conditions)
qed

theorem packets_counted_once_witness:
  "let b = create_run_budget (plain_request 2) run_start;
       b' = foldl (\<lambda>b i. consume_packet_cycle b i run_start) b [''p1'', '' p1 '', '''', ''p2'']
   in rb_consumedPacketIds b' = packet_ids [''p1'', '' p1 '', '''', ''p2'']
       \<and> rb_consumedPacketCycles b' = int (length (packet_ids [''p1'', '' p1 '', '''', ''p2'']))
       \<and> (rb_reasonCode b' = Some PacketCyclesExhausted
            \<longleftrightarrow> rb_maxPacketCycles b \<le> int (length (packet_ids [''p1'', '' p1 '', '''', ''p2''])))"
proof (rule packets_counted_once)
  show "length (packet_ids [''p1'', '' p1 '', '''', ''p2'']) \<le> 100" by code_simp
qed simp

text \<open>
  Paused time is free: when a budget with a readable window is paused at \<open>t1\<close> without
  being exhausted and resumed at \<open>t2\<close>, then at a later time \<open>t3\<close> it is exhausted for its window
  exactly when the time it executed, before the pause and after the resumption, reaches the
  limit it had; how long the pause was does not matter.
\<close>

theorem paused_time_not_counted:
  assumes "to_iso t0 = Some s0" "to_iso t1 = Some s1" "to_iso t2 = Some s2" "to_iso t3 = Some s3"
    and "t0 \<le> t1" "t1 \<le> t2" "t2 \<le> t3"
    and "rb_windowStartedAt b = s0" "StopElapsedWindowExhausted \<in> set (rb_stopConditions b)"
    and "exhaustion_reason b s1 False = None"
  shows "rb_reasonCode (evaluated (resume_run_budget (pause_run_budget b s1) s2) s3) = Some ElapsedWindowExhausted
    \<longleftrightarrow> rb_maxElapsedMs b \<le> (t1 - t0) + (t3 - t2)"
proof -
  have parse: "date_parse s0 = Some t0" "date_parse s1 = Some t1" "date_parse s2 = Some t2" "date_parse s3 = Some t3"
    using assms(1-4) by (auto intro: iso.read_back)
  have cycles: "\<not> (StopPacketCyclesExhausted \<in> set (rb_stopConditions b) \<and> rb_maxPacketCycles b \<le> rb_consumedPacketCycles b)"
    and live: "t1 - t0 < rb_maxElapsedMs b"
    using assms(5,8-10) parse by (auto simp: exhaustion_reason_def elapsed_ms_def split: if_splits)
  let ?p = "pause_run_budget b s1"
  have p: "rb_maxElapsedMs ?p = rb_maxElapsedMs b - (t1 - t0)" "rb_windowStartedAt ?p = s1" "rb_exhausted ?p = False"
    "rb_stopConditions ?p = rb_stopConditions b" "rb_maxPacketCycles ?p = rb_maxPacketCycles b"
    "rb_consumedPacketCycles ?p = rb_consumedPacketCycles b"
    using assms(2,5,8,10) parse live
    by (simp_all add: pause_run_budget_def Let_def elapsed_ms_def normalize_iso_def)
  let ?r = "resume_run_budget ?p s2"
  have r: "rb_maxElapsedMs ?r = rb_maxElapsedMs b - (t1 - t0)" "rb_windowStartedAt ?r = s2"
    "rb_stopConditions ?r = rb_stopConditions b" "rb_maxPacketCycles ?r = rb_maxPacketCycles b"
    "rb_consumedPacketCycles ?r = rb_consumedPacketCycles b"
    using assms(3) parse p by (simp_all add: resume_run_budget_def normalize_iso_def)
  show ?thesis
    using r cycles assms(7,9) parse by (simp add: exhaustion_reason_def elapsed_ms_def)
qed

theorem paused_time_not_counted_witness:
  "\<exists>s0 s1 s2 s3. to_iso 0 = Some s0 \<and> to_iso 1000 = Some s1 \<and> to_iso 9000000 = Some s2 \<and> to_iso 9001000 = Some s3
     \<and> (let b = create_run_budget (plain_request 2) s0 in
        rb_reasonCode (evaluated (resume_run_budget (pause_run_budget b s1) s2) s3) = Some ElapsedWindowExhausted
          \<longleftrightarrow> rb_maxElapsedMs b \<le> (1000 - 0) + (9001000 - 9000000))"
proof -
  let ?s = "\<lambda>t. the (to_iso t)"
  let ?b = "create_run_budget (plain_request 2) (?s 0)"
  have s: "to_iso 0 = Some (?s 0)" "to_iso 1000 = Some (?s 1000)" "to_iso 9000000 = Some (?s 9000000)"
    "to_iso 9001000 = Some (?s 9001000)" by code_simp+
  have "rb_windowStartedAt ?b = ?s 0" by code_simp
  moreover have "exhaustion_reason ?b (?s 1000) False = None" by code_simp
  ultimately have "rb_reasonCode (evaluated (resume_run_budget (pause_run_budget ?b (?s 1000)) (?s 9000000)) (?s 9001000))
        = Some ElapsedWindowExhausted \<longleftrightarrow> rb_maxElapsedMs ?b \<le> (1000 - 0) + (9001000 - 9000000)"
    by (intro paused_time_not_counted [OF s]) (simp_all add: all_conditions)
  with s show ?thesis unfolding Let_def by blast
qed

end
