(* ===== verification/Autonomy_Policy.thy ===== *)
theory Autonomy_Policy
  imports Js_Prelude
begin

text \<open>
  \<^verbatim>\<open>packages/shared/src/autonomy-policy.ts\<close> and \<^verbatim>\<open>autonomy-policy-evaluator.ts\<close>: the seven
  autonomy levels as data, and the evaluation of an operation against the level and four
  policy layers. Inputs the code takes as \<^verbatim>\<open>unknown\<close> are typed by what its checks
  distinguish: a level is \<open>None\<close> when it is no integer, an operation \<open>None\<close> when it is no
  string, a layer or a confirmation has one constructor for the values its shape check
  (\<^verbatim>\<open>isLayer\<close>, \<^verbatim>\<open>isConfirmation\<close>) rejects.
\<close>

section \<open>The levels\<close>

datatype category = CatRead | CatWrite | CatCommand | CatGit | CatNetwork | CatCapability | CatRelease

definition autonomy_categories :: "category list" where
  "autonomy_categories = [CatRead, CatWrite, CatCommand, CatGit, CatNetwork, CatCapability, CatRelease]"

primrec category_text :: "category \<Rightarrow> string" where
  "category_text CatRead = ''read''"
| "category_text CatWrite = ''write''"
| "category_text CatCommand = ''command''"
| "category_text CatGit = ''git''"
| "category_text CatNetwork = ''network''"
| "category_text CatCapability = ''capability''"
| "category_text CatRelease = ''release''"

definition category_of :: "string \<Rightarrow> category option" where
  "category_of s = List.find (\<lambda>c. category_text c = s) autonomy_categories"

record autonomy_grant =
  ag_allowed :: "string list"
  ag_confirmationRequired :: "string list option"
  ag_denied :: "string list option"
  ag_allowedPaths :: "string list option"
  ag_allowedCommands :: "string list option"
  ag_allowedNetworkTargets :: "string list option"
  ag_allowedCapabilities :: "string list option"
  ag_allowedGitOperations :: "string list option"
  ag_allowedReleaseTargets :: "string list option"

type_synonym grant_map = "category \<Rightarrow> autonomy_grant option"

record autonomy_policy =
  ap_level :: int
  ap_id :: string
  ap_label :: string
  ap_description :: string
  ap_grants :: grant_map

definition grant :: "string list \<Rightarrow> string list \<Rightarrow> autonomy_grant" where
  "grant allowed confirmationRequired =
     \<lparr>ag_allowed = allowed, ag_confirmationRequired = Some confirmationRequired, ag_denied = Some [''*''],
      ag_allowedPaths = None, ag_allowedCommands = None, ag_allowedNetworkTargets = None,
      ag_allowedCapabilities = None, ag_allowedGitOperations = None, ag_allowedReleaseTargets = None\<rparr>"

definition deny_all :: autonomy_grant where
  "deny_all = grant [] []"

definition read_only :: "string list \<Rightarrow> autonomy_grant" where
  "read_only extra = grant ([''get_workbench_status'', ''read_workbench_context''] @ extra) []"

definition write_operations :: "string list" where
  "write_operations =
     [''create_file'', ''patch_file'', ''append_file'', ''overwrite_file'', ''move_file'',
      ''rename_file'', ''delete_file'', ''delete_directory'', ''mkdir'', ''rmdir'']"

definition policy :: "int \<Rightarrow> string \<Rightarrow> string \<Rightarrow> string \<Rightarrow> (category \<times> autonomy_grant) list \<Rightarrow> autonomy_policy" where
  "policy level i label description overrides =
     \<lparr>ap_level = level, ap_id = i, ap_label = label, ap_description = description,
      ap_grants = (\<lambda>c. case map_of overrides c of None \<Rightarrow> Some deny_all | Some g \<Rightarrow> Some g)\<rparr>"

definition autonomy_policies :: "autonomy_policy list" where
  "autonomy_policies =
    [policy 0 ''observe'' ''Observe'' ''Read basic status and context only.'' [(CatRead, read_only [])],
     policy 1 ''inspect'' ''Inspect'' ''Read status, context, and non-sensitive repository metadata.''
       [(CatRead, read_only [''read_source_metadata'', ''read_evidence_metadata''])],
     policy 2 ''supervised_edit'' ''Supervised edit'' ''Prepare bounded edits and validation under confirmation.''
       [(CatRead, read_only [''read_source_metadata'', ''read_evidence_metadata'']),
        (CatWrite, grant [] [''create_file'', ''patch_file'', ''append_file'']),
        (CatCommand, grant [''git_status_short'', ''git_diff_stat'', ''git_diff_name_only'', ''git_diff'']
           [''type_check_web'', ''type_check_cli'', ''run_package_test'']),
        (CatGit, grant [''git_status_short'', ''git_diff_stat'', ''git_diff_name_only'', ''git_diff'']
           [''git_add_paths''])],
     policy 3 ''supervised_commit'' ''Supervised commit'' ''Commit exact, reviewed paths under confirmation.''
       [(CatRead, read_only [''read_source_metadata'', ''read_evidence_metadata'']),
        (CatWrite, grant [] [''create_file'', ''patch_file'', ''append_file'', ''overwrite_file'', ''move_file'']),
        (CatCommand, grant [''git_status_short'', ''git_diff_stat'', ''git_diff_name_only'', ''git_diff'',
           ''type_check_web'', ''type_check_cli'', ''run_package_test''] [''run_exact_command'']),
        (CatGit, grant [''git_status_short'', ''git_diff_stat'', ''git_diff_name_only'', ''git_diff'']
           [''git_add_paths'', ''git_commit''])],
     policy 4 ''bounded_operator'' ''Bounded operator'' ''Run allowlisted local operations with explicit confirmation.''
       [(CatRead, read_only [''read_source_metadata'', ''read_evidence_metadata'']),
        (CatWrite, grant [] [''create_file'', ''patch_file'', ''append_file'', ''overwrite_file'', ''move_file'']),
        (CatCommand, grant [''git_status_short'', ''git_diff_stat'', ''git_diff_name_only'', ''git_diff'',
           ''type_check_web'', ''type_check_cli'', ''run_package_test''] [''run_exact_command'', ''security_scan_paths'']),
        (CatGit, grant [''git_status_short'', ''git_diff_stat'', ''git_diff_name_only'', ''git_diff'']
           [''git_add_paths'', ''git_commit'']),
        (CatNetwork, grant [] [''github_read'']),
        (CatCapability, grant [] [''approved_capability''])],
     policy 5 ''approved_capability'' ''Approved capability'' ''Use an explicitly approved capability within its existing guardrails.''
       [(CatRead, read_only [''read_source_metadata'', ''read_evidence_metadata'']),
        (CatWrite, grant [] [''create_file'', ''patch_file'', ''append_file'', ''overwrite_file'', ''move_file'']),
        (CatCommand, grant [''git_status_short'', ''git_diff_stat'', ''git_diff_name_only'', ''git_diff'',
           ''type_check_web'', ''type_check_cli'', ''run_package_test''] [''run_exact_command'', ''security_scan_paths'']),
        (CatGit, grant [''git_status_short'', ''git_diff_stat'', ''git_diff_name_only'', ''git_diff'']
           [''git_add_paths'', ''git_commit'']),
        (CatNetwork, grant [] [''github_read'', ''approved_network_request'']),
        (CatCapability, grant [] [''approved_capability'', ''n8n_workflow_export''])],
     policy 6 ''release_operator'' ''Release operator'' ''Prepare a guarded release operation under explicit confirmation.''
       [(CatRead, read_only [''read_source_metadata'', ''read_evidence_metadata'']),
        (CatWrite, grant [] write_operations),
        (CatCommand, grant [''git_status_short'', ''git_diff_stat'', ''git_diff_name_only'', ''git_diff'',
           ''type_check_web'', ''type_check_cli'', ''run_package_test''] [''run_exact_command'', ''security_scan_paths'']),
        (CatGit, grant [''git_status_short'', ''git_diff_stat'', ''git_diff_name_only'', ''git_diff'']
           [''git_add_paths'', ''git_commit'', ''git_push'']),
        (CatNetwork, grant [] [''github_read'', ''approved_network_request'']),
        (CatCapability, grant [] [''approved_capability'', ''n8n_workflow_export'']),
        (CatRelease, grant [] [''install_promote'', ''restart''])]]"

definition get_autonomy_policy :: "int option \<Rightarrow> autonomy_policy option" where
  "get_autonomy_policy level =
     (case level of
        None \<Rightarrow> None
      | Some n \<Rightarrow> if n \<notin> set [0, 1, 2, 3, 4, 5, 6] then None
                 else List.find (\<lambda>p. ap_level p = n) autonomy_policies)"

datatype grant_decision = GrantAllowed | GrantWithConfirmation | GrantDenied

definition includes_opt :: "string list option \<Rightarrow> string \<Rightarrow> bool" where
  "includes_opt xs x = (case xs of None \<Rightarrow> False | Some ys \<Rightarrow> x \<in> set ys)"

definition decide_autonomy_grant :: "grant_map option \<Rightarrow> string \<Rightarrow> string option \<Rightarrow> grant_decision" where
  "decide_autonomy_grant grants cat operation =
     (case (category_of cat, operation, grants) of
        (Some c, Some oper, Some gs) \<Rightarrow>
          if oper = [] then GrantDenied
          else (case gs c of
            None \<Rightarrow> GrantDenied
          | Some g \<Rightarrow>
              if includes_opt (ag_confirmationRequired g) oper then GrantWithConfirmation
              else if oper \<in> set (ag_allowed g) then GrantAllowed
              else if includes_opt (ag_denied g) oper \<or> includes_opt (ag_denied g) ''*'' then GrantDenied
              else GrantDenied)
      | _ \<Rightarrow> GrantDenied)"

lemma category_of_text [simp]: "category_of (category_text c) = Some c"
  by (cases c) (simp_all add: category_of_def autonomy_categories_def)

lemma decide_granted:
  "decide_autonomy_grant (Some gs) (category_text c) (Some oper) \<noteq> GrantDenied \<longleftrightarrow>
   oper \<noteq> [] \<and> (\<exists>g. gs c = Some g \<and> (oper \<in> set (ag_allowed g) \<or> includes_opt (ag_confirmationRequired g) oper))"
  by (auto simp: decide_autonomy_grant_def split: option.splits)

section \<open>The evaluator\<close>

datatype autonomy_decision = Allowed | Denied | RequiresConfirmation

datatype reason_code =
    SOURCE_DENIED | RUN_RESTRICTED | SESSION_RESTRICTED | CAPABILITY_NOT_GRANTED
  | CONFIRMATION_REQUIRED | CONFIRMATION_DENIED | PROTECTED_PATH | NETWORK_NOT_GRANTED
  | RELEASE_NOT_GRANTED | UNKNOWN_OPERATION | MALFORMED_POLICY | SCOPE_EMPTY
  | LEVEL_NOT_GRANTED | POLICY_ALLOWED | PERSISTED_APPROVAL_REUSED | PERSISTED_DENIAL
  | PERSISTED_POLICY_CHANGED

datatype layer_name = LSource | LRun | LSession | LCapability

primrec layer_text :: "layer_name \<Rightarrow> string" where
  "layer_text LSource = ''source''"
| "layer_text LRun = ''run''"
| "layer_text LSession = ''session''"
| "layer_text LCapability = ''capability''"

primrec reason_for_layer :: "layer_name \<Rightarrow> reason_code" where
  "reason_for_layer LSource = SOURCE_DENIED"
| "reason_for_layer LRun = RUN_RESTRICTED"
| "reason_for_layer LSession = SESSION_RESTRICTED"
| "reason_for_layer LCapability = CAPABILITY_NOT_GRANTED"

record autonomy_layer =
  al_name :: layer_name
  al_grants :: grant_map

datatype layer_input = NotALayer | Layer autonomy_layer

datatype confirmation_state = ConfNotRequired | ConfConfirmed | ConfMissing | ConfDenied

datatype persisted_decision = PersistedApproved | PersistedDenied

record confirmation =
  cf_state :: confirmation_state
  cf_operations :: "string list option"
  cf_persistedDecision :: "persisted_decision option"

datatype confirmation_input = NotAConfirmation | Confirmation confirmation

record autonomy_scope =
  sc_path :: "string option"
  sc_command :: "string option"
  sc_networkTarget :: "string option"
  sc_capabilityId :: "string option"
  sc_gitOperation :: "string option"
  sc_releaseTarget :: "string option"

record autonomy_input =
  ai_level :: "int option"
  ai_category :: "string option"
  ai_operation :: "string option"
  ai_source :: layer_input
  ai_run :: layer_input
  ai_session :: layer_input
  ai_capability :: layer_input
  ai_confirmation :: confirmation_input
  ai_scope :: "autonomy_scope option"

record trace_entry =
  te_layer :: string
  te_decision :: autonomy_decision
  te_reasonCode :: reason_code

record effective_scope =
  es_paths :: "string list"
  es_commands :: "string list"
  es_networkTargets :: "string list"
  es_capabilities :: "string list"
  es_gitOperations :: "string list"
  es_releaseTargets :: "string list"

record autonomy_evaluation =
  ae_decision :: autonomy_decision
  ae_category :: "category option"
  ae_operation :: "string option"
  ae_restrictingScope :: "string option"
  ae_reasonCode :: reason_code
  ae_confirmationRequired :: bool
  ae_trace :: "trace_entry list"
  ae_effectiveScope :: effective_scope

definition empty_scope :: effective_scope where
  "empty_scope = \<lparr>es_paths = [], es_commands = [], es_networkTargets = [], es_capabilities = [],
     es_gitOperations = [], es_releaseTargets = []\<rparr>"

definition trace_of :: "string \<Rightarrow> autonomy_decision \<Rightarrow> reason_code \<Rightarrow> trace_entry" where
  "trace_of l d r = \<lparr>te_layer = l, te_decision = d, te_reasonCode = r\<rparr>"

definition malformed :: "category option \<Rightarrow> string option \<Rightarrow> autonomy_evaluation" where
  "malformed c oper =
     \<lparr>ae_decision = Denied, ae_category = c, ae_operation = oper, ae_restrictingScope = None,
      ae_reasonCode = MALFORMED_POLICY, ae_confirmationRequired = False,
      ae_trace = [trace_of ''input'' Denied MALFORMED_POLICY], ae_effectiveScope = empty_scope\<rparr>"

definition malformed_at :: "category \<Rightarrow> string \<Rightarrow> string \<Rightarrow> reason_code \<Rightarrow> autonomy_evaluation" where
  "malformed_at c oper at r =
     (malformed (Some c) (Some oper))\<lparr>ae_reasonCode := r, ae_trace := [trace_of at Denied r]\<rparr>"

definition known_operations :: "string list" where
  "known_operations =
     concat (map (\<lambda>c. concat (map (\<lambda>p. case ap_grants p c of None \<Rightarrow> []
         | Some g \<Rightarrow> filter (\<lambda>x. x \<noteq> ''*'')
             (ag_allowed g @ (case ag_confirmationRequired g of None \<Rightarrow> [] | Some xs \<Rightarrow> xs)
              @ (case ag_denied g of None \<Rightarrow> [] | Some xs \<Rightarrow> xs)))
       autonomy_policies)) autonomy_categories)"

fun is_layer :: "layer_input \<Rightarrow> layer_name \<Rightarrow> bool" where
  "is_layer NotALayer expected = False"
| "is_layer (Layer l) expected = (al_name l = expected)"

definition prefix_or_equal :: "string \<Rightarrow> string \<Rightarrow> bool" where
  "prefix_or_equal parent child =
     (parent = child \<or> starts_with child (if ends_with parent ''/'' then parent else parent @ ''/''))"

definition meet_paths :: "string list \<Rightarrow> string list \<Rightarrow> string list" where
  "meet_paths lefts rights =
     concat (map (\<lambda>l. concat (map (\<lambda>r.
       if l = r then [l] else if prefix_or_equal l r then [r] else if prefix_or_equal r l then [l] else [])
       rights)) lefts)"

definition present :: "'a option list \<Rightarrow> 'a list" where
  "present xs = map the (filter (\<lambda>x. x \<noteq> None) xs)"

definition intersect_lists :: "string list option list \<Rightarrow> string list" where
  "intersect_lists lss =
     (case present lss of
        [] \<Rightarrow> []
      | first # others \<Rightarrow> sort (uniq (foldl meet_paths first others)))"

text \<open>
  The layers in order, each with the label its trace entries carry: the level's layer is
  named \<^verbatim>\<open>source\<close> but traced as \<^verbatim>\<open>level\<close>, and its refusals carry \<open>LEVEL_NOT_GRANTED\<close>.
\<close>

type_synonym labelled_layer = "bool \<times> autonomy_layer"

definition layer_label :: "labelled_layer \<Rightarrow> string" where
  "layer_label l = (if fst l then ''level'' else layer_text (al_name (snd l)))"

definition layer_reason :: "labelled_layer \<Rightarrow> reason_code" where
  "layer_reason l = (if fst l then LEVEL_NOT_GRANTED else reason_for_layer (al_name (snd l)))"

definition denied_evaluation ::
  "category \<Rightarrow> string \<Rightarrow> string \<Rightarrow> reason_code \<Rightarrow> bool \<Rightarrow> trace_entry list \<Rightarrow> effective_scope \<Rightarrow> autonomy_evaluation" where
  "denied_evaluation c oper restricting r conf trace scope =
     \<lparr>ae_decision = Denied, ae_category = Some c, ae_operation = Some oper,
      ae_restrictingScope = Some restricting, ae_reasonCode = r, ae_confirmationRequired = conf,
      ae_trace = trace, ae_effectiveScope = scope\<rparr>"

fun walk_layers ::
  "category \<Rightarrow> string \<Rightarrow> labelled_layer list \<Rightarrow> trace_entry list \<Rightarrow> autonomy_grant list
   \<Rightarrow> autonomy_evaluation + (trace_entry list \<times> autonomy_grant list)" where
  "walk_layers c oper [] trace grants = Inr (trace, grants)"
| "walk_layers c oper (l # ls) trace grants =
     (case al_grants (snd l) c of
        None \<Rightarrow> Inl (denied_evaluation c oper (layer_label l) (layer_reason l) False
                  (trace @ [trace_of (layer_label l) Denied (layer_reason l)]) empty_scope)
      | Some g \<Rightarrow>
          if includes_opt (ag_denied g) oper
             \<or> decide_autonomy_grant (Some (\<lambda>c'. if c' = c then Some g else None)) (category_text c) (Some oper)
                = GrantDenied
          then Inl (denied_evaluation c oper (layer_text (al_name (snd l))) (layer_reason l) False
                 (trace @ [trace_of (layer_label l) Denied (layer_reason l)]) empty_scope)
          else walk_layers c oper ls (trace @ [trace_of (layer_label l) Allowed POLICY_ALLOWED]) (grants @ [g]))"

type_synonym scope_field =
  "(autonomy_grant \<Rightarrow> string list option) \<times> (string list \<Rightarrow> effective_scope \<Rightarrow> effective_scope)
   \<times> (autonomy_scope \<Rightarrow> string option)"

definition scope_fields :: "scope_field list" where
  "scope_fields =
     [(ag_allowedPaths, \<lambda>v e. e\<lparr>es_paths := v\<rparr>, sc_path),
      (ag_allowedCommands, \<lambda>v e. e\<lparr>es_commands := v\<rparr>, sc_command),
      (ag_allowedNetworkTargets, \<lambda>v e. e\<lparr>es_networkTargets := v\<rparr>, sc_networkTarget),
      (ag_allowedCapabilities, \<lambda>v e. e\<lparr>es_capabilities := v\<rparr>, sc_capabilityId),
      (ag_allowedGitOperations, \<lambda>v e. e\<lparr>es_gitOperations := v\<rparr>, sc_gitOperation),
      (ag_allowedReleaseTargets, \<lambda>v e. e\<lparr>es_releaseTargets := v\<rparr>, sc_releaseTarget)]"

definition scope_reason :: "category \<Rightarrow> reason_code" where
  "scope_reason c = (if c = CatNetwork then NETWORK_NOT_GRANTED
                     else if c = CatRelease then RELEASE_NOT_GRANTED else SCOPE_EMPTY)"

definition within_scope :: "string list \<Rightarrow> string option \<Rightarrow> bool" where
  "within_scope vals requested =
     (\<not> (truthy requested \<and> vals \<noteq> [] \<and> \<not> list_ex (\<lambda>v. prefix_or_equal v (the requested)) vals))"

fun walk_scopes ::
  "category \<Rightarrow> autonomy_grant list \<Rightarrow> autonomy_scope option \<Rightarrow> scope_field list \<Rightarrow> effective_scope
   \<Rightarrow> effective_scope + effective_scope" where
  "walk_scopes c grants sc [] eff = Inr eff"
| "walk_scopes c grants sc ((field, out, request) # fs) eff =
     (let vals = intersect_lists (map field grants); eff' = out vals eff;
          requested = (case sc of None \<Rightarrow> None | Some s \<Rightarrow> request s)
      in if within_scope vals requested then walk_scopes c grants sc fs eff' else Inl eff')"

definition confirm_evaluation ::
  "category \<Rightarrow> string \<Rightarrow> confirmation \<Rightarrow> autonomy_grant list \<Rightarrow> trace_entry list \<Rightarrow> effective_scope \<Rightarrow> autonomy_evaluation" where
  "confirm_evaluation c oper cf grants trace eff =
     (let required = list_ex (\<lambda>g. includes_opt (ag_confirmationRequired g) oper) grants;
          outside = (case cf_operations cf of None \<Rightarrow> False | Some ops \<Rightarrow> oper \<notin> set ops);
          deny = (\<lambda>r. denied_evaluation c oper ''confirmation'' r True
                        (trace @ [trace_of ''confirmation'' Denied r]) eff);
          allow = (\<lambda>r. \<lparr>ae_decision = Allowed, ae_category = Some c, ae_operation = Some oper,
                        ae_restrictingScope = None, ae_reasonCode = r, ae_confirmationRequired = required,
                        ae_trace = trace @ [trace_of ''confirmation'' Allowed r], ae_effectiveScope = eff\<rparr>)
      in if required then
           (if cf_persistedDecision cf = Some PersistedDenied then deny PERSISTED_DENIAL
            else if cf_state cf = ConfDenied then deny CONFIRMATION_DENIED
            else if cf_persistedDecision cf = Some PersistedApproved then
              (if outside then deny CONFIRMATION_DENIED else allow PERSISTED_APPROVAL_REUSED)
            else if cf_state cf \<noteq> ConfConfirmed then
              \<lparr>ae_decision = RequiresConfirmation, ae_category = Some c, ae_operation = Some oper,
               ae_restrictingScope = Some ''confirmation'', ae_reasonCode = CONFIRMATION_REQUIRED,
               ae_confirmationRequired = True,
               ae_trace = trace @ [trace_of ''confirmation'' RequiresConfirmation CONFIRMATION_REQUIRED],
               ae_effectiveScope = eff\<rparr>
            else if outside then deny CONFIRMATION_DENIED
            else allow POLICY_ALLOWED)
         else allow POLICY_ALLOWED)"

fun checked_layers :: "(layer_name \<times> layer_input) list \<Rightarrow> layer_name + autonomy_layer list" where
  "checked_layers [] = Inr []"
| "checked_layers ((n, NotALayer) # rest) = Inl n"
| "checked_layers ((n, Layer l) # rest) =
     (if \<not> is_layer (Layer l) n then Inl n
      else case checked_layers rest of Inl m \<Rightarrow> Inl m | Inr ls \<Rightarrow> Inr (l # ls))"

definition input_layers :: "autonomy_input \<Rightarrow> (layer_name \<times> layer_input) list" where
  "input_layers i = [(LSource, ai_source i), (LRun, ai_run i), (LSession, ai_session i), (LCapability, ai_capability i)]"

definition evaluate_autonomy_policy :: "autonomy_input \<Rightarrow> autonomy_evaluation" where
  "evaluate_autonomy_policy i =
     (let c = (case ai_category i of None \<Rightarrow> None | Some s \<Rightarrow> category_of s);
          oper = (case ai_operation i of None \<Rightarrow> None | Some s \<Rightarrow> if s = [] then None else Some s)
      in case (c, oper, ai_confirmation i) of
        (Some c, Some oper, Confirmation cf) \<Rightarrow>
          if oper \<notin> set known_operations then malformed_at c oper ''operation'' UNKNOWN_OPERATION
          else (case get_autonomy_policy (ai_level i) of
            None \<Rightarrow> malformed_at c oper ''level'' LEVEL_NOT_GRANTED
          | Some p \<Rightarrow>
            (case checked_layers (input_layers i) of
               Inl n \<Rightarrow> malformed_at c oper (layer_text n) MALFORMED_POLICY
             | Inr ls \<Rightarrow>
               (case walk_layers c oper
                       ((True, \<lparr>al_name = LSource, al_grants = ap_grants p\<rparr>) # map (Pair False) ls) [] [] of
                  Inl e \<Rightarrow> e
                | Inr (trace, grants) \<Rightarrow>
                  (case walk_scopes c grants (ai_scope i) scope_fields empty_scope of
                     Inl eff \<Rightarrow> denied_evaluation c oper ''scope'' (scope_reason c) False
                                  (trace @ [trace_of ''scope'' Denied (scope_reason c)]) eff
                   | Inr eff \<Rightarrow> confirm_evaluation c oper cf grants trace eff))))
      | _ \<Rightarrow> malformed c oper)"

section \<open>What an allowed evaluation went through\<close>

definition layer_permits :: "grant_map \<Rightarrow> category \<Rightarrow> string \<Rightarrow> bool" where
  "layer_permits gm c oper =
     (case gm c of None \<Rightarrow> False
      | Some g \<Rightarrow> \<not> includes_opt (ag_denied g) oper
          \<and> (oper \<in> set (ag_allowed g) \<or> includes_opt (ag_confirmationRequired g) oper))"

definition needs_confirmation :: "grant_map \<Rightarrow> category \<Rightarrow> string \<Rightarrow> bool" where
  "needs_confirmation gm c oper =
     (case gm c of None \<Rightarrow> False | Some g \<Rightarrow> includes_opt (ag_confirmationRequired g) oper)"

lemma walk_layers_Inr:
  assumes "walk_layers c oper ls trace grants = Inr (trace', grants')"
  shows "\<exists>new. grants' = grants @ new
    \<and> list_all2 (\<lambda>l g. al_grants (snd l) c = Some g \<and> layer_permits (al_grants (snd l)) c oper) ls new"
  using assms
proof (induction c oper ls trace grants rule: walk_layers.induct)
  case (1 c oper trace grants)
  then show ?case by simp
next
  case (2 c oper l ls trace grants)
  then obtain g where g: "al_grants (snd l) c = Some g"
    by (auto split: option.splits)
  with "2.prems" have ok: "\<not> includes_opt (ag_denied g) oper"
    "decide_autonomy_grant (Some (\<lambda>c'. if c' = c then Some g else None)) (category_text c) (Some oper) \<noteq> GrantDenied"
    by (auto split: if_splits)
  with "2.IH" [OF g] g "2.prems" obtain new where "grants' = (grants @ [g]) @ new"
    "list_all2 (\<lambda>l g. al_grants (snd l) c = Some g \<and> layer_permits (al_grants (snd l)) c oper) ls new"
    by auto
  moreover have "layer_permits (al_grants (snd l)) c oper"
    using g ok by (simp add: layer_permits_def decide_granted)
  ultimately show ?case
    using g by (intro exI [of _ "g # new"]) simp
qed

lemma walk_layers_Inl: "walk_layers c oper ls trace grants = Inl e \<Longrightarrow> ae_decision e = Denied"
  by (induction c oper ls trace grants rule: walk_layers.induct)
     (auto simp: denied_evaluation_def split: option.splits if_splits)

lemma checked_layers_Inr:
  "checked_layers xs = Inr ls \<Longrightarrow> list_all2 (\<lambda>x l. snd x = Layer l \<and> al_name l = fst x) xs ls"
  by (induction xs arbitrary: ls rule: checked_layers.induct) (auto split: if_splits sum.splits)

lemma malformed_denied [simp]:
  "ae_decision (malformed c oper) = Denied" "ae_decision (malformed_at c' oper' w r) = Denied"
  by (simp_all add: malformed_at_def malformed_def)

text \<open>The stages an allowed evaluation has passed, with what each produced.\<close>

lemma allowed_stages:
  assumes "ae_decision (evaluate_autonomy_policy i) = Allowed"
  obtains ct c oper cf p ls trace grants eff where
    "ai_category i = Some ct" "category_of ct = Some c" "ai_operation i = Some oper" "oper \<noteq> []"
    "ai_confirmation i = Confirmation cf" "oper \<in> set known_operations"
    "get_autonomy_policy (ai_level i) = Some p" "checked_layers (input_layers i) = Inr ls"
    "walk_layers c oper ((True, \<lparr>al_name = LSource, al_grants = ap_grants p\<rparr>) # map (Pair False) ls) [] []
       = Inr (trace, grants)"
    "walk_scopes c grants (ai_scope i) scope_fields empty_scope = Inr eff"
    "evaluate_autonomy_policy i = confirm_evaluation c oper cf grants trace eff"
proof -
  have denied: "ae_decision (denied_evaluation c' o' r w f t e) = Denied" for c' o' r w f t e
    by (simp add: denied_evaluation_def)
  show ?thesis
    using assms that unfolding evaluate_autonomy_policy_def Let_def
    by (auto simp: denied dest: walk_layers_Inl
        split: option.splits confirmation_input.splits sum.splits if_splits)
qed

lemma allowed_grants:
  fixes p :: autonomy_policy
  assumes "checked_layers (input_layers i) = Inr ls"
    "walk_layers c oper ((True, \<lparr>al_name = LSource, al_grants = ap_grants p\<rparr>) # map (Pair False) ls) [] []
       = Inr (trace, grants)"
  shows "layer_permits (ap_grants p) c oper
    \<and> (\<forall>(n, inp) \<in> set (input_layers i). \<exists>l. inp = Layer l \<and> al_name l = n \<and> layer_permits (al_grants l) c oper)
    \<and> (\<forall>g. ap_grants p c = Some g \<longrightarrow> g \<in> set grants)
    \<and> (\<forall>n l g. (n, Layer l) \<in> set (input_layers i) \<longrightarrow> al_grants l c = Some g \<longrightarrow> g \<in> set grants)"
proof -
  from walk_layers_Inr [OF assms(2)] have walked:
    "list_all2 (\<lambda>l g. al_grants (snd l) c = Some g \<and> layer_permits (al_grants (snd l)) c oper)
       ((True, \<lparr>al_name = LSource, al_grants = ap_grants p\<rparr>) # map (Pair False) ls) grants" by auto
  then obtain g gs where grants: "grants = g # gs" "ap_grants p c = Some g" "layer_permits (ap_grants p) c oper"
    "list_all2 (\<lambda>l g. al_grants l c = Some g \<and> layer_permits (al_grants l) c oper) ls gs"
    by (auto simp: list_all2_Cons1 list.rel_map)
  from checked_layers_Inr [OF assms(1)] obtain l1 l2 l3 l4 where "ls = [l1, l2, l3, l4]"
    "ai_source i = Layer l1" "ai_run i = Layer l2" "ai_session i = Layer l3" "ai_capability i = Layer l4"
    "al_name l1 = LSource" "al_name l2 = LRun" "al_name l3 = LSession" "al_name l4 = LCapability"
    by (auto simp: input_layers_def list_all2_Cons1)
  with grants show ?thesis
    by (auto simp: input_layers_def list_all2_Cons1)
qed

text \<open>Path prefixes are reflexive and transitive, so a meet lies below both sides.\<close>

lemma prefix_or_equal_refl [simp]: "prefix_or_equal p p"
  by (simp add: prefix_or_equal_def)

lemma prefix_or_equal_starts: "prefix_or_equal p q \<Longrightarrow> starts_with q p"
  by (auto simp: prefix_or_equal_def starts_with_iff split: if_splits)

lemma prefix_or_equal_trans: "prefix_or_equal p q \<Longrightarrow> prefix_or_equal q r \<Longrightarrow> prefix_or_equal p r"
proof -
  assume pq: "prefix_or_equal p q" and qr: "prefix_or_equal q r"
  show ?thesis
  proof (cases "p = q")
    case False
    with pq have "starts_with q (if ends_with p ''/'' then p else p @ ''/'')"
      by (simp add: prefix_or_equal_def)
    then show ?thesis
      using prefix_or_equal_starts [OF qr] by (auto simp: prefix_or_equal_def intro: starts_with_trans)
  qed (use qr in simp)
qed

definition below :: "string list \<Rightarrow> string \<Rightarrow> bool" where
  "below ps v = (\<exists>p \<in> set ps. prefix_or_equal p v)"

lemma meet_paths_below: "v \<in> set (meet_paths ls rs) \<Longrightarrow> below ls v \<and> below rs v"
  unfolding meet_paths_def below_def
  by (auto split: if_splits intro: prefix_or_equal_refl)

lemma below_mono: "below ls u \<Longrightarrow> prefix_or_equal u v \<Longrightarrow> below ls v"
  unfolding below_def using prefix_or_equal_trans by blast

lemma foldl_meet_below:
  "v \<in> set (foldl meet_paths first others) \<Longrightarrow> below first v \<and> (\<forall>ps \<in> set others. below ps v)"
proof (induction others arbitrary: first)
  case Nil
  then show ?case by (auto simp: below_def intro: prefix_or_equal_refl)
next
  case (Cons ps others)
  then have "below (meet_paths first ps) v" "\<forall>qs \<in> set others. below qs v" by auto
  then obtain u where "u \<in> set (meet_paths first ps)" "prefix_or_equal u v"
    by (auto simp: below_def)
  then show ?case
    using meet_paths_below [of u first ps] below_mono \<open>\<forall>qs \<in> set others. below qs v\<close> by auto
qed

lemma intersect_lists_below:
  assumes "v \<in> set (intersect_lists lss)" "Some ps \<in> set lss"
  shows "below ps v"
proof -
  have "ps \<in> set (present lss)" using assms(2) by (force simp: present_def)
  then obtain first others where "present lss = first # others" and ps: "ps \<in> set (first # others)"
    by (cases "present lss") auto
  with assms(1) have "v \<in> set (foldl meet_paths first others)" by (simp add: intersect_lists_def)
  from foldl_meet_below [OF this] ps show ?thesis by auto
qed

lemma walk_scopes_ok:
  "walk_scopes c grants sc fs eff = Inr eff' \<Longrightarrow> (field, out, request) \<in> set fs \<Longrightarrow> sc = Some s \<Longrightarrow>
   within_scope (intersect_lists (map field grants)) (request s)"
  by (induction c grants sc fs eff rule: walk_scopes.induct) (auto simp: Let_def split: if_splits)

lemma walk_scopes_paths:
  "walk_scopes c grants sc scope_fields empty_scope = Inr eff \<Longrightarrow>
   es_paths eff = intersect_lists (map ag_allowedPaths grants)"
  by (auto simp: scope_fields_def Let_def split: if_splits)

section \<open>Properties\<close>

text \<open>
  C11. An operation is allowed only when it is a known operation of a known category, its
  level exists, and the level and each of the four layers (source, run, session, capability,
  each under its own name) grant it in that category without an explicit denial.
\<close>

theorem autonomy_allowed_by_every_layer:
  assumes "ae_decision (evaluate_autonomy_policy i) = Allowed"
  shows "\<exists>ct c oper p. ai_category i = Some ct \<and> category_of ct = Some c \<and> ai_operation i = Some oper
    \<and> oper \<in> set known_operations \<and> get_autonomy_policy (ai_level i) = Some p
    \<and> layer_permits (ap_grants p) c oper
    \<and> (\<forall>(n, inp) \<in> set (input_layers i). \<exists>l. inp = Layer l \<and> al_name l = n \<and> layer_permits (al_grants l) c oper)"
  using assms
proof (rule allowed_stages)
  fix ct c oper cf ls trace grants eff and p :: autonomy_policy
  assume "checked_layers (input_layers i) = Inr ls"
    and "walk_layers c oper ((True, \<lparr>al_name = LSource, al_grants = ap_grants p\<rparr>) # map (Pair False) ls) [] []
       = Inr (trace, grants)"
  note granted = allowed_grants [OF this]
  assume "ai_category i = Some ct" "category_of ct = Some c" "ai_operation i = Some oper"
    "oper \<in> set known_operations" "get_autonomy_policy (ai_level i) = Some p"
  with granted show ?thesis by blast
qed

definition sample_layer :: "layer_name \<Rightarrow> string list option \<Rightarrow> layer_input" where
  "sample_layer n paths =
     Layer \<lparr>al_name = n, al_grants = (\<lambda>c. if c = CatWrite
       then Some ((grant [''patch_file''] [])\<lparr>ag_denied := None, ag_allowedPaths := paths\<rparr>) else None)\<rparr>"

definition sample_input ::
  "string list option \<Rightarrow> string list option \<Rightarrow> confirmation_state \<Rightarrow> string \<Rightarrow> autonomy_input" where
  "sample_input sourcePaths runPaths st path =
     \<lparr>ai_level = Some 2, ai_category = Some ''write'', ai_operation = Some ''patch_file'',
      ai_source = sample_layer LSource sourcePaths, ai_run = sample_layer LRun runPaths,
      ai_session = sample_layer LSession None, ai_capability = sample_layer LCapability None,
      ai_confirmation = Confirmation \<lparr>cf_state = st, cf_operations = None, cf_persistedDecision = None\<rparr>,
      ai_scope = Some \<lparr>sc_path = Some path, sc_command = None, sc_networkTarget = None,
        sc_capabilityId = None, sc_gitOperation = None, sc_releaseTarget = None\<rparr>\<rparr>"

lemmas policy_data = autonomy_policies_def policy_def grant_def deny_all_def read_only_def write_operations_def

lemmas sample_policy_simps = sample_input_def sample_layer_def evaluate_autonomy_policy_def
  get_autonomy_policy_def policy_data category_of_def autonomy_categories_def known_operations_def
  input_layers_def layer_label_def layer_reason_def includes_opt_def decide_autonomy_grant_def
  scope_fields_def intersect_lists_def meet_paths_def present_def within_scope_def truthy_def
  prefix_or_equal_def ends_with_def uniq_def empty_scope_def confirm_evaluation_def denied_evaluation_def
  layer_permits_def

lemma sample_input_evaluates:
  "ae_decision (evaluate_autonomy_policy (sample_input (Some [''src'']) (Some [''src/a'']) ConfConfirmed ''src/a/x.ts'')) = Allowed"
  "ae_decision (evaluate_autonomy_policy (sample_input (Some [''src'']) (Some [''src/a'']) ConfConfirmed ''src/b'')) = Denied"
  "ae_decision (evaluate_autonomy_policy (sample_input (Some [''src'']) (Some [''src/a'']) ConfMissing ''src/a'')) = RequiresConfirmation"
  by code_simp+

theorem autonomy_allowed_by_every_layer_witness:
  "\<exists>ct c oper p. ai_category (sample_input None None ConfConfirmed []) = Some ct \<and> category_of ct = Some c
    \<and> ai_operation (sample_input None None ConfConfirmed []) = Some oper
    \<and> oper \<in> set known_operations \<and> get_autonomy_policy (ai_level (sample_input None None ConfConfirmed [])) = Some p
    \<and> layer_permits (ap_grants p) c oper
    \<and> (\<forall>(n, inp) \<in> set (input_layers (sample_input None None ConfConfirmed [])).
         \<exists>l. inp = Layer l \<and> al_name l = n \<and> layer_permits (al_grants l) c oper)"
  by (rule autonomy_allowed_by_every_layer) code_simp

text \<open>
  An operation that the level or any layer lists as needing confirmation is allowed only
  under a usable confirmation: no persisted denial, a state other than denied, a persisted
  approval or the state confirmed, and an operation list, when there is one, that names the
  operation. Without one the answer is never \<open>Allowed\<close>.
\<close>

theorem autonomy_confirmation_respected:
  assumes "ae_decision (evaluate_autonomy_policy i) = Allowed"
    and "ai_category i = Some ct" "category_of ct = Some c" "ai_operation i = Some oper"
    and "get_autonomy_policy (ai_level i) = Some p" "ai_confirmation i = Confirmation cf"
    and "needs_confirmation (ap_grants p) c oper
      \<or> (\<exists>n l. (n, Layer l) \<in> set (input_layers i) \<and> needs_confirmation (al_grants l) c oper)"
  shows "cf_persistedDecision cf \<noteq> Some PersistedDenied \<and> cf_state cf \<noteq> ConfDenied
    \<and> (cf_persistedDecision cf = Some PersistedApproved \<or> cf_state cf = ConfConfirmed)
    \<and> (\<forall>ops. cf_operations cf = Some ops \<longrightarrow> oper \<in> set ops)"
  using assms(1)
proof (rule allowed_stages)
  fix ct' c' oper' cf' ls trace grants eff and p' :: autonomy_policy
  assume eqs: "ai_category i = Some ct'" "category_of ct' = Some c'" "ai_operation i = Some oper'"
      "get_autonomy_policy (ai_level i) = Some p'" "ai_confirmation i = Confirmation cf'"
    and stages: "checked_layers (input_layers i) = Inr ls"
      "walk_layers c' oper' ((True, \<lparr>al_name = LSource, al_grants = ap_grants p'\<rparr>) # map (Pair False) ls) [] []
         = Inr (trace, grants)"
    and result: "evaluate_autonomy_policy i = confirm_evaluation c' oper' cf' grants trace eff"
  have same: "c' = c" "oper' = oper" "p' = p" "cf' = cf" using eqs assms(2-6) by auto
  have "\<exists>g \<in> set grants. includes_opt (ag_confirmationRequired g) oper"
    using assms(7)
  proof
    assume "needs_confirmation (ap_grants p) c oper"
    then show ?thesis
      using allowed_grants [OF stages] unfolding same
      by (auto simp: needs_confirmation_def split: option.splits)
  next
    assume "\<exists>n l. (n, Layer l) \<in> set (input_layers i) \<and> needs_confirmation (al_grants l) c oper"
    then obtain n l g where "(n, Layer l) \<in> set (input_layers i)" "al_grants l c = Some g"
      "includes_opt (ag_confirmationRequired g) oper"
      by (auto simp: needs_confirmation_def split: option.splits)
    then show ?thesis using allowed_grants [OF stages] unfolding same by blast
  qed
  then have "list_ex (\<lambda>g. includes_opt (ag_confirmationRequired g) oper) grants"
    by (simp add: list_ex_iff)
  then show ?thesis
    using assms(1) unfolding result same
    by (auto simp: confirm_evaluation_def denied_evaluation_def Let_def split: if_splits option.splits)
qed

theorem autonomy_confirmation_respected_witness:
  "let cf = \<lparr>cf_state = ConfConfirmed, cf_operations = None, cf_persistedDecision = None\<rparr>
   in cf_persistedDecision cf \<noteq> Some PersistedDenied \<and> cf_state cf \<noteq> ConfDenied
    \<and> (cf_persistedDecision cf = Some PersistedApproved \<or> cf_state cf = ConfConfirmed)
    \<and> (\<forall>ops. cf_operations cf = Some ops \<longrightarrow> ''patch_file'' \<in> set ops)"
  unfolding Let_def
proof (rule autonomy_confirmation_respected
    [where i = "sample_input None None ConfConfirmed []" and p = "autonomy_policies ! 2"
      and ct = "''write''" and c = CatWrite])
  show "ae_decision (evaluate_autonomy_policy (sample_input None None ConfConfirmed [])) = Allowed" by code_simp
  show "get_autonomy_policy (ai_level (sample_input None None ConfConfirmed [])) = Some (autonomy_policies ! 2)"
    by (simp add: sample_input_def get_autonomy_policy_def autonomy_policies_def policy_def)
  show "needs_confirmation (ap_grants (autonomy_policies ! 2)) CatWrite ''patch_file''
      \<or> (\<exists>n l. (n, Layer l) \<in> set (input_layers (sample_input None None ConfConfirmed []))
            \<and> needs_confirmation (al_grants l) CatWrite ''patch_file'')"
    by (simp add: policy_data needs_confirmation_def includes_opt_def)
  show "category_of ''write'' = Some CatWrite" by code_simp
qed (simp_all add: sample_input_def)

text \<open>
  Path scopes hold: when an allowed evaluation reports a non-empty effective path scope
  and a path was requested, then every layer that restricts paths in the category has an
  entry that equals the path or contains it as a directory.
\<close>

theorem autonomy_paths_within_every_layer:
  assumes "ae_decision (evaluate_autonomy_policy i) = Allowed"
    and "es_paths (ae_effectiveScope (evaluate_autonomy_policy i)) \<noteq> []"
    and "ai_scope i = Some s" "sc_path s = Some path" "path \<noteq> []"
    and "ai_category i = Some ct" "category_of ct = Some c"
    and "(n, Layer l) \<in> set (input_layers i)" "al_grants l c = Some g" "ag_allowedPaths g = Some ps"
  shows "\<exists>q \<in> set ps. prefix_or_equal q path"
  using assms(1)
proof (rule allowed_stages)
  fix ct' c' oper' cf' ls trace grants eff and p' :: autonomy_policy
  assume eqs: "ai_category i = Some ct'" "category_of ct' = Some c'"
    and stages: "checked_layers (input_layers i) = Inr ls"
      "walk_layers c' oper' ((True, \<lparr>al_name = LSource, al_grants = ap_grants p'\<rparr>) # map (Pair False) ls) [] []
         = Inr (trace, grants)"
    and scopes: "walk_scopes c' grants (ai_scope i) scope_fields empty_scope = Inr eff"
    and result: "evaluate_autonomy_policy i = confirm_evaluation c' oper' cf' grants trace eff"
  have c: "c' = c" using eqs assms(6,7) by simp
  let ?vals = "intersect_lists (map ag_allowedPaths grants)"
  have "ae_effectiveScope (evaluate_autonomy_policy i) = eff"
    unfolding result confirm_evaluation_def Let_def denied_evaluation_def by simp
  then have "?vals \<noteq> []" using assms(2) walk_scopes_paths [OF scopes] by simp
  moreover have path_field: "(ag_allowedPaths, \<lambda>v e. e\<lparr>es_paths := v\<rparr>, sc_path) \<in> set scope_fields"
    by (simp add: scope_fields_def)
  have "within_scope ?vals (sc_path s)"
    by (rule walk_scopes_ok [OF scopes path_field assms(3)])
  ultimately obtain v where v: "v \<in> set ?vals" "prefix_or_equal v path"
    using assms(4,5) by (auto simp: within_scope_def truthy_def list_ex_iff)
  have "g \<in> set grants" using allowed_grants [OF stages] assms(8,9) unfolding c by blast
  with assms(10) have "Some ps \<in> set (map ag_allowedPaths grants)" by force
  from intersect_lists_below [OF v(1) this] have "below ps v" .
  with v(2) show ?thesis using below_mono unfolding below_def by blast
qed

theorem autonomy_paths_within_every_layer_witness:
  "\<exists>q \<in> set [''src/a'']. prefix_or_equal q ''src/a/x.ts''"
proof (rule autonomy_paths_within_every_layer
    [where i = "sample_input (Some [''src'']) (Some [''src/a'']) ConfConfirmed ''src/a/x.ts''" and n = LRun
      and l = "case sample_layer LRun (Some [''src/a'']) of Layer l \<Rightarrow> l | NotALayer \<Rightarrow> undefined"
      and ct = "''write''" and c = CatWrite
      and s = "the (ai_scope (sample_input None None ConfConfirmed ''src/a/x.ts''))"])
  show "ae_decision (evaluate_autonomy_policy
      (sample_input (Some [''src'']) (Some [''src/a'']) ConfConfirmed ''src/a/x.ts'')) = Allowed" by code_simp
  show "es_paths (ae_effectiveScope (evaluate_autonomy_policy
      (sample_input (Some [''src'']) (Some [''src/a'']) ConfConfirmed ''src/a/x.ts''))) \<noteq> []" by code_simp
  show "category_of ''write'' = Some CatWrite" by code_simp
  show "al_grants (case sample_layer LRun (Some [''src/a'']) of Layer l \<Rightarrow> l | NotALayer \<Rightarrow> undefined) CatWrite
      = Some ((grant [''patch_file''] [])\<lparr>ag_denied := None, ag_allowedPaths := Some [''src/a'']\<rparr>)"
    by (simp add: sample_layer_def)
qed (simp_all add: sample_input_def sample_layer_def input_layers_def)

lemma disjoint_grants_scope:
  assumes "ag_allowedPaths g0 = None" "ag_allowedPaths g1 = Some [''docs'']" "ag_allowedPaths g2 = Some [''src'']"
    "ag_allowedPaths g3 = None" "ag_allowedPaths g4 = None"
    "\<forall>g \<in> {g0, g1, g2, g3, g4}. ag_allowedCommands g = None \<and> ag_allowedNetworkTargets g = None
       \<and> ag_allowedCapabilities g = None \<and> ag_allowedGitOperations g = None \<and> ag_allowedReleaseTargets g = None"
  shows "walk_scopes c [g0, g1, g2, g3, g4] (Some s) scope_fields empty_scope = Inr empty_scope"
proof -
  have "intersect_lists [None, Some [''docs''], Some [''src''], None, None] = []"
    "intersect_lists [None, None, None, None, None] = []" by code_simp+
  then show ?thesis
    using assms by (simp add: scope_fields_def within_scope_def empty_scope_def)
qed

text \<open>
  Scopes that exclude each other lift the restriction: with the source restricted to
  \<^verbatim>\<open>docs\<close> and the run to \<^verbatim>\<open>src\<close> the effective scope is empty, the check that would compare
  it with the requested path is skipped, and the write is allowed at every path whatever.
\<close>

theorem disjoint_path_scopes_allow_every_path:
  "ae_decision (evaluate_autonomy_policy (sample_input (Some [''docs'']) (Some [''src'']) ConfConfirmed path)) = Allowed
   \<and> es_paths (ae_effectiveScope
        (evaluate_autonomy_policy (sample_input (Some [''docs'']) (Some [''src'']) ConfConfirmed path))) = []"
proof -
  have known: "''patch_file'' \<in> set known_operations" by code_simp
  have level: "get_autonomy_policy (Some 2) = Some (autonomy_policies ! 2)"
    by (simp add: get_autonomy_policy_def autonomy_policies_def policy_def)
  have granted: "ap_grants (autonomy_policies ! 2) CatWrite = Some (grant [] [''create_file'', ''patch_file'', ''append_file''])"
    by (simp add: policy_data)
  have cat: "category_of ''write'' = Some CatWrite" by code_simp
  have none: "es_paths empty_scope = []" by (simp add: empty_scope_def)
  show ?thesis
    by (simp add: none evaluate_autonomy_policy_def sample_input_def cat known level input_layers_def sample_layer_def
        granted grant_def includes_opt_def decide_autonomy_grant_def category_of_text [of CatWrite, simplified]
        disjoint_grants_scope confirm_evaluation_def Let_def)
qed

definition level_operations :: "autonomy_policy \<Rightarrow> category \<Rightarrow> string list" where
  "level_operations p c =
     (case ap_grants p c of None \<Rightarrow> []
      | Some g \<Rightarrow> filter (\<lambda>x. \<not> includes_opt (ag_denied g) x)
          (ag_allowed g @ (case ag_confirmationRequired g of None \<Rightarrow> [] | Some xs \<Rightarrow> xs)))"

lemma layer_permits_level: "layer_permits (ap_grants p) c oper \<longleftrightarrow> oper \<in> set (level_operations p c)"
  by (auto simp: layer_permits_def level_operations_def includes_opt_def split: option.splits)

lemma level_operations_steps:
  "list_all (\<lambda>c. list_all (\<lambda>(p, q). list_all (\<lambda>x. x \<in> set (level_operations q c)) (level_operations p c))
     (zip autonomy_policies (tl autonomy_policies))) autonomy_categories"
  by code_simp

lemma level_operations_low:
  "list_all (\<lambda>c. c = CatRead \<or> level_operations (autonomy_policies ! 0) c = [] \<and> level_operations (autonomy_policies ! 1) c = [])
     autonomy_categories"
  by code_simp

lemma category_listed [simp]: "c \<in> set autonomy_categories"
  by (cases c) (simp_all add: autonomy_categories_def)

lemma length_autonomy_policies [simp]: "length autonomy_policies = 7"
  by (simp add: autonomy_policies_def)

lemma autonomy_policies_levels: "map ap_level autonomy_policies = [0, 1, 2, 3, 4, 5, 6]"
  by (simp add: autonomy_policies_def policy_def)

lemma get_autonomy_policy_nth:
  "get_autonomy_policy (Some n) = Some p \<longleftrightarrow> 0 \<le> n \<and> n \<le> 6 \<and> p = autonomy_policies ! nat n"
proof -
  obtain p0 p1 p2 p3 p4 p5 p6 where ps: "autonomy_policies = [p0, p1, p2, p3, p4, p5, p6]"
    by (rule that) (rule autonomy_policies_def)
  have levels: "map ap_level [p0, p1, p2, p3, p4, p5, p6] = [0, 1, 2, 3, 4, 5, 6]"
    using autonomy_policies_levels unfolding ps .
  show ?thesis
  proof (cases "0 \<le> n \<and> n \<le> 6")
    case True
    then have "n \<in> {0, 1, 2, 3, 4, 5, 6}" by (simp, presburger)
    then show ?thesis using levels by (auto simp: get_autonomy_policy_def ps)
  next
    case False
    then show ?thesis by (auto simp: get_autonomy_policy_def)
  qed
qed

lemma level_operations_step:
  assumes "k < 6" "x \<in> set (level_operations (autonomy_policies ! k) c)"
  shows "x \<in> set (level_operations (autonomy_policies ! Suc k) c)"
proof -
  have "(autonomy_policies ! k, autonomy_policies ! Suc k) \<in> set (zip autonomy_policies (tl autonomy_policies))"
    using assms(1) by (auto simp: set_zip nth_tl intro!: exI [of _ k])
  with level_operations_steps category_listed [of c] assms(2) show ?thesis
    by (fastforce simp: list_all_iff)
qed

lemma level_operations_mono:
  "j \<le> k \<Longrightarrow> k \<le> 6 \<Longrightarrow> x \<in> set (level_operations (autonomy_policies ! j) c) \<Longrightarrow>
   x \<in> set (level_operations (autonomy_policies ! k) c)"
  by (induction k rule: dec_induct) (auto intro: level_operations_step)

text \<open>
  The levels only ever add: what a level grants, outright or under confirmation, every
  higher level grants too, and below level 2 nothing outside the read category is granted.
\<close>

theorem autonomy_levels_monotone:
  assumes "get_autonomy_policy (Some m) = Some p" "get_autonomy_policy (Some n) = Some q" "m \<le> n"
    and "layer_permits (ap_grants p) c oper"
  shows "layer_permits (ap_grants q) c oper \<and> (m < 2 \<longrightarrow> c = CatRead)"
proof -
  have mn: "0 \<le> m" "n \<le> 6" "p = autonomy_policies ! nat m" "q = autonomy_policies ! nat n"
    using assms(1,2) by (auto simp: get_autonomy_policy_nth)
  have "layer_permits (ap_grants q) c oper"
    using assms(3,4) mn unfolding layer_permits_level
    by (auto intro: level_operations_mono [of "nat m" "nat n"])
  moreover have "c = CatRead" if "m < 2"
  proof -
    have "nat m = 0 \<or> nat m = 1" using mn that by linarith
    with mn(3) assms(4) level_operations_low category_listed [of c] show ?thesis
      by (auto simp: layer_permits_level list_all_iff)
  qed
  ultimately show ?thesis by blast
qed

theorem autonomy_levels_monotone_witness:
  "layer_permits (ap_grants (autonomy_policies ! 6)) CatRead ''read_workbench_context''"
  by (rule autonomy_levels_monotone [where n = 6 and m = 0 and p = "autonomy_policies ! 0", THEN conjunct1])
     (simp_all only: get_autonomy_policy_nth, simp_all, code_simp)

end
