(* ===== verification/Json.thy ===== *)
theory Json
  imports Js_Map
begin

text \<open>
  JSON values as JavaScript handles them: the values a request body or a file can hold, their
  text (\<^verbatim>\<open>JSON.stringify\<close>) and its reading (\<^verbatim>\<open>JSON.parse\<close>), and the order in which
  \<^verbatim>\<open>Object.keys\<close> lists the keys of an object.

  A finite number is represented by the text \<^verbatim>\<open>JSON.stringify\<close> prints for it; the argument
  \<open>num\<close> of the reader is the conversion of a number literal to that text (IEEE 754 parsing and
  shortest printing). \<open>JNonFinite\<close> and \<open>JOther\<close> are values that are not JSON: a number that
  is not finite, and \<^verbatim>\<open>undefined\<close>, functions, symbols or big integers. Values are trees.
\<close>

datatype json =
    JNull
  | JBool bool
  | JNum string
  | JStr string
  | JArr "json list"
  | JObj "(string \<times> json) list"
  | JNonFinite
  | JOther

section \<open>Text\<close>

definition hex_digit :: "nat \<Rightarrow> char" where
  "hex_digit n = char_of (if n < 10 then 48 + n else 87 + n)"

definition quote_char :: char where "quote_char = CHR 0x22"

definition backslash :: char where "backslash = CHR 0x5C"

definition escape_char :: "char \<Rightarrow> string" where
  "escape_char c =
     (if c = quote_char then [backslash, quote_char]
      else if c = backslash then [backslash, backslash]
      else if c = CHR 0x08 then [backslash, CHR ''b'']
      else if c = CHR 0x09 then [backslash, CHR ''t'']
      else if c = CHR 0x0A then [backslash, CHR ''n'']
      else if c = CHR 0x0C then [backslash, CHR ''f'']
      else if c = CHR 0x0D then [backslash, CHR ''r'']
      else if (of_char c :: nat) < 32
      then [backslash, CHR ''u'', CHR ''0'', CHR ''0'', hex_digit (of_char c div 16), hex_digit (of_char c mod 16)]
      else [c])"

definition string_text :: "string \<Rightarrow> string" where
  "string_text s = quote_char # concat (map escape_char s) @ [quote_char]"

definition bool_text :: "bool \<Rightarrow> string" where
  "bool_text b = (if b then ''true'' else ''false'')"

definition array_text :: "string list \<Rightarrow> string" where
  "array_text ts = CHR ''['' # join '','' ts @ '']''"

definition object_text :: "string list \<Rightarrow> string" where
  "object_text ts = CHR ''{'' # join '','' ts @ ''}''"

definition member_text :: "string \<Rightarrow> string \<Rightarrow> string" where
  "member_text k t = string_text k @ CHR '':'' # t"

text \<open>The text of a value whose objects list their keys in the given order.\<close>

fun json_text :: "json \<Rightarrow> string" where
  "json_text JNull = ''null''"
| "json_text (JBool b) = bool_text b"
| "json_text (JNum t) = t"
| "json_text (JStr s) = string_text s"
| "json_text (JArr vs) = array_text (map json_text vs)"
| "json_text (JObj ms) = object_text (map (\<lambda>(k, v). member_text k (json_text v)) ms)"
| "json_text JNonFinite = ''null''"
| "json_text JOther = ''null''"

section \<open>The order of keys\<close>

text \<open>
  \<^verbatim>\<open>Object.keys\<close> lists the array indices (canonical decimal numbers below \<open>2^32 - 1\<close>) in
  numeric order, then the other keys in the order of their insertion.
\<close>

definition digit :: "char \<Rightarrow> bool" where
  "digit c = (CHR ''0'' \<le> c \<and> c \<le> CHR ''9'')"

definition number_of_digits :: "string \<Rightarrow> nat" where
  "number_of_digits s = foldl (\<lambda>n c. 10 * n + (of_char c - 48)) 0 s"

definition array_index :: "string \<Rightarrow> nat option" where
  "array_index s =
     (if s \<noteq> [] \<and> list_all digit s \<and> (hd s = CHR ''0'' \<longrightarrow> s = ''0'') \<and> number_of_digits s < 4294967295
      then Some (number_of_digits s) else None)"

definition index_of :: "string \<Rightarrow> nat" where
  "index_of k = (case array_index k of Some n \<Rightarrow> n | None \<Rightarrow> 0)"

definition key_order :: "(string \<times> 'v) list \<Rightarrow> (string \<times> 'v) list" where
  "key_order ms =
     sort_key (\<lambda>m. index_of (fst m)) (filter (\<lambda>m. array_index (fst m) \<noteq> None) ms)
     @ filter (\<lambda>m. array_index (fst m) = None) ms"

text \<open>Assigning the members in turn; a key that is already there keeps its place.\<close>

definition make_object :: "(string \<times> 'v) list \<Rightarrow> (string \<times> 'v) list" where
  "make_object ms = key_order (foldl (\<lambda>acc (k, v). jm_set k v acc) [] ms)"

section \<open>Reading\<close>

definition json_space :: "char \<Rightarrow> bool" where
  "json_space c = (c = CHR 0x20 \<or> c = CHR 0x09 \<or> c = CHR 0x0A \<or> c = CHR 0x0D)"

definition skip_space :: "string \<Rightarrow> string" where
  "skip_space s = dropWhile json_space s"

definition hex_value :: "char \<Rightarrow> nat option" where
  "hex_value c =
     (let n = of_char c in
      if 48 \<le> n \<and> n \<le> 57 then Some (n - 48)
      else if 97 \<le> n \<and> n \<le> 102 then Some (n - 87)
      else if 65 \<le> n \<and> n \<le> 70 then Some (n - 55) else None)"

text \<open>
  The four digits of a \<^verbatim>\<open>\u\<close> escape; a code unit of 256 or more is outside the model's strings
  and reads as a failure.
\<close>

definition hex_char_of :: "char \<Rightarrow> char \<Rightarrow> char \<Rightarrow> char \<Rightarrow> char option" where
  "hex_char_of a b c d =
     (case (hex_value a, hex_value b, hex_value c, hex_value d) of
        (Some w, Some x, Some y, Some z) \<Rightarrow> if w = 0 \<and> x = 0 then Some (char_of (16 * y + z)) else None
      | _ \<Rightarrow> None)"

definition simple_escape :: "char \<Rightarrow> char option" where
  "simple_escape c =
     (if c = quote_char \<or> c = backslash \<or> c = CHR ''/'' then Some c
      else if c = CHR ''b'' then Some (CHR 0x08) else if c = CHR ''t'' then Some (CHR 0x09)
      else if c = CHR ''n'' then Some (CHR 0x0A) else if c = CHR ''f'' then Some (CHR 0x0C)
      else if c = CHR ''r'' then Some (CHR 0x0D) else None)"

definition prepend :: "char \<Rightarrow> (string \<times> string) option \<Rightarrow> (string \<times> string) option" where
  "prepend c r = map_option (\<lambda>(s, rest). (c # s, rest)) r"

text \<open>The rest of a string literal after its opening quote.\<close>

function read_string :: "string \<Rightarrow> (string \<times> string) option" where
  "read_string s =
     (case s of
        [] \<Rightarrow> None
      | c # r \<Rightarrow>
          if c = quote_char then Some ([], r)
          else if c = backslash
          then (case r of
                  x # r1 \<Rightarrow>
                    if x = CHR ''u''
                    then (case r1 of
                            h1 # h2 # h3 # h4 # r2 \<Rightarrow>
                              (case hex_char_of h1 h2 h3 h4 of None \<Rightarrow> None | Some ch \<Rightarrow> prepend ch (read_string r2))
                          | _ \<Rightarrow> None)
                    else (case simple_escape x of None \<Rightarrow> None | Some ch \<Rightarrow> prepend ch (read_string r1))
                | [] \<Rightarrow> None)
          else if (of_char c :: nat) < 32 then None
          else prepend c (read_string r))"
  by pat_completeness auto
termination by (relation "measure length") auto

definition number_char :: "char \<Rightarrow> bool" where
  "number_char c = (digit c \<or> c = CHR ''-'' \<or> c = CHR ''+'' \<or> c = CHR ''.'' \<or> c = CHR ''e'' \<or> c = CHR ''E'')"

definition exponent_literal :: "string \<Rightarrow> bool" where
  "exponent_literal s =
     (case s of
        [] \<Rightarrow> True
      | c # r \<Rightarrow> (c = CHR ''e'' \<or> c = CHR ''E'')
          \<and> (let ds = (case r of x # r' \<Rightarrow> if x = CHR ''-'' \<or> x = CHR ''+'' then r' else r | [] \<Rightarrow> [])
             in ds \<noteq> [] \<and> list_all digit ds))"

definition fraction_literal :: "string \<Rightarrow> bool" where
  "fraction_literal s =
     (case s of
        c # r \<Rightarrow> if c = CHR ''.'' then takeWhile digit r \<noteq> [] \<and> exponent_literal (dropWhile digit r)
                  else exponent_literal s
      | [] \<Rightarrow> True)"

definition number_literal :: "string \<Rightarrow> bool" where
  "number_literal s =
     (let u = (case s of c # r \<Rightarrow> if c = CHR ''-'' then r else s | [] \<Rightarrow> []);
          ds = takeWhile digit u
      in ds \<noteq> [] \<and> (hd ds = CHR ''0'' \<longrightarrow> ds = ''0'') \<and> fraction_literal (dropWhile digit u))"

text \<open>
  Values, the rest of an array and the rest of an object. Each call has less fuel than its
  caller; \<open>json_parse\<close> starts with the length of the text, which is enough for the text of
  any value (\<open>json_parse_text\<close>).
\<close>

definition strip_prefix :: "string \<Rightarrow> string \<Rightarrow> string option" where
  "strip_prefix p s = (if starts_with s p then Some (drop (length p) s) else None)"

definition keyword :: "string \<Rightarrow> json \<Rightarrow> string \<Rightarrow> (json \<times> string) option" where
  "keyword p v s = map_option (\<lambda>r. (v, r)) (strip_prefix p s)"

definition read_number :: "(string \<Rightarrow> string) \<Rightarrow> string \<Rightarrow> (json \<times> string) option" where
  "read_number num s =
     (let t = takeWhile number_char s in
      if number_literal t then Some (JNum (num t), dropWhile number_char s) else None)"

fun read_value :: "(string \<Rightarrow> string) \<Rightarrow> nat \<Rightarrow> string \<Rightarrow> (json \<times> string) option"
and read_items :: "(string \<Rightarrow> string) \<Rightarrow> nat \<Rightarrow> string \<Rightarrow> (json list \<times> string) option"
and read_members :: "(string \<Rightarrow> string) \<Rightarrow> nat \<Rightarrow> string \<Rightarrow> ((string \<times> json) list \<times> string) option" where
  "read_value num 0 s = None"
| "read_value num (Suc n) s =
     (case skip_space s of
        [] \<Rightarrow> None
      | c # r \<Rightarrow>
          if c = quote_char then map_option (\<lambda>(t, r'). (JStr t, r')) (read_string r)
          else if c = CHR ''[''
          then (case skip_space r of
                  x # r' \<Rightarrow> if x = CHR '']'' then Some (JArr [], r')
                              else map_option (\<lambda>(vs, r''). (JArr vs, r'')) (read_items num n r)
                | [] \<Rightarrow> None)
          else if c = CHR ''{''
          then (case skip_space r of
                  x # r' \<Rightarrow> if x = CHR ''}'' then Some (JObj [], r')
                              else map_option (\<lambda>(ms, r''). (JObj (make_object ms), r'')) (read_members num n r)
                | [] \<Rightarrow> None)
          else if c = CHR ''t'' then keyword ''true'' (JBool True) (c # r)
          else if c = CHR ''f'' then keyword ''false'' (JBool False) (c # r)
          else if c = CHR ''n'' then keyword ''null'' JNull (c # r)
          else read_number num (c # r))"
| "read_items num 0 s = None"
| "read_items num (Suc n) s =
     (case read_value num n s of
        None \<Rightarrow> None
      | Some (v, r) \<Rightarrow>
          (case skip_space r of
             x # r' \<Rightarrow> if x = CHR '']'' then Some ([v], r')
                         else if x = CHR '','' then map_option (\<lambda>(vs, r''). (v # vs, r'')) (read_items num n r')
                         else None
           | [] \<Rightarrow> None))"
| "read_members num 0 s = None"
| "read_members num (Suc n) s =
     (case skip_space s of
        q # r0 \<Rightarrow>
          if q = quote_char
          then (case read_string r0 of
                  None \<Rightarrow> None
                | Some (k, r1) \<Rightarrow>
                    (case skip_space r1 of
                       x # r2 \<Rightarrow>
                         if x = CHR '':''
                         then (case read_value num n r2 of
                                 None \<Rightarrow> None
                               | Some (v, r3) \<Rightarrow>
                                   (case skip_space r3 of
                                      y # r4 \<Rightarrow>
                                        if y = CHR ''}'' then Some ([(k, v)], r4)
                                        else if y = CHR '',''
                                        then map_option (\<lambda>(ms, r5). ((k, v) # ms, r5)) (read_members num n r4)
                                        else None
                                    | [] \<Rightarrow> None))
                         else None
                     | [] \<Rightarrow> None))
          else None
      | [] \<Rightarrow> None)"

definition json_parse :: "(string \<Rightarrow> string) \<Rightarrow> string \<Rightarrow> json option" where
  "json_parse num s =
     (case read_value num (length s) s of
        None \<Rightarrow> None
      | Some (v, r) \<Rightarrow> if skip_space r = [] then Some v else None)"

section \<open>The text of a value reads back\<close>

declare read_string.simps [simp del]

lemma read_string_quote: "read_string (quote_char # r) = Some ([], r)"
  by (simp add: read_string.simps)

lemma hex_value_digit: "n < 16 \<Longrightarrow> hex_value (hex_digit n) = Some n"
  by (auto simp: hex_value_def hex_digit_def Let_def)

lemma hex_char_of_code:
  "(of_char c :: nat) < 32
   \<Longrightarrow> hex_char_of (CHR ''0'') (CHR ''0'') (hex_digit (of_char c div 16)) (hex_digit (of_char c mod 16)) = Some c"
  by (simp add: hex_char_of_def hex_value_digit) (simp add: hex_value_def)

lemma backslash_quote [simp]: "backslash \<noteq> quote_char"
  by (simp add: backslash_def quote_char_def)

lemma read_string_escape:
  "x \<noteq> CHR ''u'' \<Longrightarrow> simple_escape x = Some ch \<Longrightarrow> read_string (backslash # x # r) = prepend ch (read_string r)"
  by (subst read_string.simps) simp

lemma read_string_code:
  "hex_char_of h1 h2 h3 h4 = Some ch
   \<Longrightarrow> read_string (backslash # CHR ''u'' # h1 # h2 # h3 # h4 # r) = prepend ch (read_string r)"
  by (subst read_string.simps) simp

lemma read_string_plain:
  "c \<noteq> quote_char \<Longrightarrow> c \<noteq> backslash \<Longrightarrow> \<not> (of_char c :: nat) < 32 \<Longrightarrow> read_string (c # r) = prepend c (read_string r)"
  by (subst read_string.simps) simp

lemma simple_escapes [simp]:
  "simple_escape quote_char = Some quote_char" "simple_escape backslash = Some backslash"
  "simple_escape (CHR ''b'') = Some (CHR 0x08)" "simple_escape (CHR ''t'') = Some (CHR 0x09)"
  "simple_escape (CHR ''n'') = Some (CHR 0x0A)" "simple_escape (CHR ''f'') = Some (CHR 0x0C)"
  "simple_escape (CHR ''r'') = Some (CHR 0x0D)"
  by (simp_all add: simple_escape_def quote_char_def backslash_def)

lemma not_u [simp]: "quote_char \<noteq> CHR ''u''" "backslash \<noteq> CHR ''u''"
  by (simp_all add: quote_char_def backslash_def)

lemma read_escaped: "read_string (escape_char c @ r) = prepend c (read_string r)"
  unfolding escape_char_def
  by (simp add: read_string_escape read_string_plain read_string_code hex_char_of_code)

lemma read_string_text: "read_string (concat (map escape_char s) @ quote_char # r) = Some (s, r)"
  by (induction s) (simp_all add: read_string_quote read_escaped prepend_def)

text \<open>Values with distinct keys and canonical numbers, and what reading makes of their objects.\<close>

fun json_ok :: "(string \<Rightarrow> string) \<Rightarrow> json \<Rightarrow> bool" where
  "json_ok num (JNum t) = (number_literal t \<and> list_all number_char t \<and> num t = t)"
| "json_ok num (JArr vs) = list_all (json_ok num) vs"
| "json_ok num (JObj ms) = (distinct (map fst ms) \<and> list_all (\<lambda>(k, v). json_ok num v) ms)"
| "json_ok num JNonFinite = False"
| "json_ok num JOther = False"
| "json_ok num v = True"

fun enumerated :: "json \<Rightarrow> json" where
  "enumerated (JArr vs) = JArr (map enumerated vs)"
| "enumerated (JObj ms) = JObj (make_object (map (\<lambda>(k, v). (k, enumerated v)) ms))"
| "enumerated v = v"

text \<open>The fuel that the text of a value needs.\<close>

fun need :: "json \<Rightarrow> nat" where
  "need (JArr vs) = Suc (foldr (\<lambda>v n. Suc (max (need v) n)) vs 0)"
| "need (JObj ms) = Suc (foldr (\<lambda>(k, v) n. Suc (max (need v) n)) ms 0)"
| "need v = 1"

definition ends_number :: "string \<Rightarrow> bool" where
  "ends_number r = (r = [] \<or> \<not> number_char (hd r))"

lemma not_number_chars [simp]:
  "\<not> number_char (CHR '','')" "\<not> number_char (CHR '']'')" "\<not> number_char (CHR ''}'')" "\<not> number_char (CHR '':'')"
  by (simp_all add: number_char_def digit_def less_eq_char_def)

lemma skip_space_simps [simp]:
  "skip_space [] = []"
  "\<not> json_space c \<Longrightarrow> skip_space (c # r) = c # r"
  by (simp_all add: skip_space_def)

lemma not_spaces [simp]:
  "\<not> json_space quote_char" "\<not> json_space (CHR ''['')" "\<not> json_space (CHR ''{'')" "\<not> json_space (CHR '']'')"
  "\<not> json_space (CHR ''}'')" "\<not> json_space (CHR '','')" "\<not> json_space (CHR '':'')" "\<not> json_space (CHR ''t'')"
  "\<not> json_space (CHR ''f'')" "\<not> json_space (CHR ''n'')"
  by (simp_all add: json_space_def quote_char_def)

lemma number_start:
  assumes "number_literal t"
  obtains c r where "t = c # r" "c = CHR ''-'' \<or> digit c"
proof (cases t)
  case Nil
  with assms show ?thesis by (simp add: number_literal_def)
next
  case (Cons c r)
  with assms have "c = CHR ''-'' \<or> digit c" by (auto simp: number_literal_def Let_def split: if_splits)
  with Cons that show ?thesis by blast
qed

lemma number_start_char:
  assumes "c = CHR ''-'' \<or> digit c"
  shows "\<not> json_space c" "c \<noteq> quote_char" "c \<noteq> CHR ''[''" "c \<noteq> CHR ''{''" "c \<noteq> CHR ''t''" "c \<noteq> CHR ''f''"
    "c \<noteq> CHR ''n''" "c \<noteq> CHR '']''" "c \<noteq> CHR ''}''"
  using assms by (auto simp: digit_def json_space_def quote_char_def less_eq_char_def)

lemma takeWhile_number: "list_all number_char t \<Longrightarrow> ends_number r \<Longrightarrow> takeWhile number_char (t @ r) = t"
  by (induction t) (auto simp: ends_number_def takeWhile_eq_Nil_iff)

lemma dropWhile_number: "list_all number_char t \<Longrightarrow> ends_number r \<Longrightarrow> dropWhile number_char (t @ r) = r"
  by (induction t) (auto simp: ends_number_def dropWhile_eq_self_iff)

lemma read_number_text:
  assumes "json_ok num (JNum t)" "ends_number r"
  shows "read_value num (Suc n) (t @ r) = Some (JNum t, r)"
proof -
  from assms(1) have t: "number_literal t" "list_all number_char t" "num t = t" by simp_all
  obtain c u where c: "t = c # u" "c = CHR ''-'' \<or> digit c" using number_start [OF t(1)] by blast
  have "read_number num (t @ r) = Some (JNum t, r)"
    using t assms(2) by (simp add: read_number_def takeWhile_number dropWhile_number)
  then show ?thesis using c(1) number_start_char [OF c(2)] by simp
qed

text \<open>What it means that a value's text reads back, before any rest that does not extend it.\<close>

definition reads_back :: "(string \<Rightarrow> string) \<Rightarrow> json \<Rightarrow> bool" where
  "reads_back num v = (\<forall>n r. need v \<le> n \<longrightarrow> ends_number r
     \<longrightarrow> read_value num n (json_text v @ r) = Some (enumerated v, r))"

lemma reads_backD:
  "reads_back num v \<Longrightarrow> need v \<le> n \<Longrightarrow> ends_number r \<Longrightarrow> read_value num n (json_text v @ r) = Some (enumerated v, r)"
  by (simp add: reads_back_def)

lemma ends_number_Cons [simp]: "ends_number (c # r) = (\<not> number_char c)"
  by (simp add: ends_number_def)

definition need_items :: "json list \<Rightarrow> nat" where
  "need_items vs = foldr (\<lambda>v n. Suc (max (need v) n)) vs 0"

definition need_members :: "(string \<times> json) list \<Rightarrow> nat" where
  "need_members ms = foldr (\<lambda>(k, v) n. Suc (max (need v) n)) ms 0"

lemma need_simps [simp]:
  "need_items [] = 0" "need_items (v # vs) = Suc (max (need v) (need_items vs))"
  "need_members [] = 0" "need_members ((k, v) # ms) = Suc (max (need v) (need_members ms))"
  "need (JArr vs) = Suc (need_items vs)" "need (JObj ms) = Suc (need_members ms)"
  by (simp_all add: need_items_def need_members_def)

declare need.simps(1,2) [simp del]

lemma read_items_text:
  assumes "vs \<noteq> []" "\<And>v. v \<in> set vs \<Longrightarrow> reads_back num v" "need_items vs \<le> n"
  shows "read_items num n (join '','' (map json_text vs) @ CHR '']'' # r) = Some (map enumerated vs, r)"
  using assms
proof (induction vs arbitrary: n)
  case (Cons v vs)
  then obtain m where m: "n = Suc m" by (cases n) auto
  have v: "read_value num m (json_text v @ x # r') = Some (enumerated v, x # r')" if "\<not> number_char x" for x r'
    by (rule reads_backD) (use Cons.prems m that in auto)
  show ?case
  proof (cases vs)
    case Nil
    then show ?thesis using v [of "CHR '']''"] m by simp
  next
    case (Cons w ws)
    have "read_items num m (join '','' (map json_text vs) @ CHR '']'' # r) = Some (map enumerated vs, r)"
      by (rule Cons.IH) (use Cons Cons.prems m in auto)
    then show ?thesis using v [of "CHR '',''"] m Cons by simp
  qed
qed simp

lemma read_members_text:
  assumes "ms \<noteq> []" "\<And>k v. (k, v) \<in> set ms \<Longrightarrow> reads_back num v" "need_members ms \<le> n"
  shows "read_members num n (join '','' (map (\<lambda>(k, v). member_text k (json_text v)) ms) @ CHR ''}'' # r)
    = Some (map (\<lambda>(k, v). (k, enumerated v)) ms, r)"
  using assms
proof (induction ms arbitrary: n)
  case (Cons e ms)
  obtain k v where e: "e = (k, v)" by (cases e)
  obtain m where m: "n = Suc m" using Cons.prems e by (cases n) auto
  have v: "read_value num m (json_text v @ x # r') = Some (enumerated v, x # r')" if "\<not> number_char x" for x r'
    by (rule reads_backD) (use Cons.prems m e that in auto)
  show ?case
  proof (cases ms)
    case Nil
    then show ?thesis
      using v [of "CHR ''}''"] m e by (simp add: member_text_def string_text_def read_string_text)
  next
    case (Cons w ws)
    have "read_members num m (join '','' (map (\<lambda>(k, v). member_text k (json_text v)) ms) @ CHR ''}'' # r)
        = Some (map (\<lambda>(k, v). (k, enumerated v)) ms, r)"
      by (rule Cons.IH) (use Cons Cons.prems m e in auto)
    then show ?thesis
      using v [of "CHR '',''"] m e Cons by (simp add: member_text_def string_text_def read_string_text)
  qed
qed simp

lemma reads_back_scalar:
  assumes "json_ok num v" "\<And>vs. v \<noteq> JArr vs" "\<And>ms. v \<noteq> JObj ms"
  shows "reads_back num v"
  unfolding reads_back_def
proof (intro allI impI)
  fix n r assume n: "need v \<le> n" and r: "ends_number r"
  obtain m where m: "n = Suc m" using n assms by (cases n; cases v) auto
  show "read_value num n (json_text v @ r) = Some (enumerated v, r)"
  proof (cases v)
    case (JNum t)
    then show ?thesis using read_number_text [of num t r m] assms(1) r m by simp
  next
    case (JStr s)
    then show ?thesis using m by (simp add: string_text_def read_string_text)
  next
    case (JBool b)
    then show ?thesis using m
      by (cases b) (simp_all add: bool_text_def keyword_def strip_prefix_def quote_char_def)
  qed (use assms m in \<open>simp_all add: keyword_def strip_prefix_def quote_char_def\<close>)
qed

lemma json_text_start:
  assumes "json_ok num v"
  obtains c t where "json_text v = c # t" "\<not> json_space c" "c \<noteq> CHR '']''" "c \<noteq> CHR ''}''"
proof (cases v)
  case (JNum t)
  then obtain c u where "t = c # u" "c = CHR ''-'' \<or> digit c" using assms number_start by auto
  then show ?thesis using that [of c u] JNum number_start_char [of c] by simp
next
  case (JBool b)
  then show ?thesis using that by (cases b) (simp_all add: bool_text_def)
qed (use assms that in \<open>simp_all add: string_text_def array_text_def object_text_def quote_char_def json_space_def\<close>)

lemma reads_back_ok: "json_ok num v \<Longrightarrow> reads_back num v"
proof (induction v)
  case (JArr vs)
  have items: "\<And>v. v \<in> set vs \<Longrightarrow> reads_back num v" using JArr by (auto simp: list_all_iff)
  show ?case
    unfolding reads_back_def
  proof (intro allI impI)
    fix n r assume n: "need (JArr vs) \<le> n"
    obtain m where m: "n = Suc m" using n by (cases n) auto
    show "read_value num n (json_text (JArr vs) @ r) = Some (enumerated (JArr vs), r)"
    proof (cases vs)
      case Nil
      then show ?thesis using m by (simp add: array_text_def quote_char_def)
    next
      case (Cons v ws)
      then have "json_ok num v" using JArr.prems by simp
      then obtain c t where c: "json_text v = c # t" "\<not> json_space c" "c \<noteq> CHR '']''" by (rule json_text_start)
      have "read_items num m (join '','' (map json_text vs) @ CHR '']'' # r) = Some (map enumerated vs, r)"
        by (rule read_items_text) (use Cons items n m in auto)
      moreover have "\<exists>t'. join '','' (map json_text vs) @ CHR '']'' # r = c # t'"
        using Cons c(1) by (cases ws) auto
      ultimately show ?thesis using m c by (auto simp: array_text_def quote_char_def)
    qed
  qed
next
  case (JObj ms)
  have members: "\<And>k v. (k, v) \<in> set ms \<Longrightarrow> reads_back num v" using JObj by (fastforce simp: list_all_iff)
  show ?case
    unfolding reads_back_def
  proof (intro allI impI)
    fix n r assume n: "need (JObj ms) \<le> n"
    obtain m where m: "n = Suc m" using n by (cases n) auto
    show "read_value num n (json_text (JObj ms) @ r) = Some (enumerated (JObj ms), r)"
    proof (cases ms)
      case Nil
      then show ?thesis using m by (simp add: object_text_def quote_char_def make_object_def key_order_def)
    next
      case (Cons e ws)
      have "read_members num m (join '','' (map (\<lambda>(k, v). member_text k (json_text v)) ms) @ CHR ''}'' # r)
          = Some (map (\<lambda>(k, v). (k, enumerated v)) ms, r)"
        by (rule read_members_text) (use Cons members n m in auto)
      moreover have "\<exists>t'. join '','' (map (\<lambda>(k, v). member_text k (json_text v)) ms) @ CHR ''}'' # r = quote_char # t'"
        using Cons by (cases e; cases ws) (auto simp: member_text_def string_text_def)
      ultimately show ?thesis using m by (auto simp: object_text_def quote_char_def json_space_def)
    qed
  qed
qed (rule reads_back_scalar; simp)+

lemma need_le_text: "json_ok num v \<Longrightarrow> need v \<le> length (json_text v)"
proof (induction v)
  case (JNum t)
  then show ?case using number_start [of t] by (cases t) auto
next
  case (JArr vs)
  have "need_items ws \<le> Suc (length (join '','' (map json_text ws)))" if "\<And>w. w \<in> set ws \<Longrightarrow> need w \<le> length (json_text w)" for ws
    using that
  proof (induction ws)
    case (Cons w ws)
    have "need w \<le> length (json_text w)" using Cons.prems by simp
    moreover have "need_items ws \<le> Suc (length (join '','' (map json_text ws)))"
      by (rule Cons.IH) (use Cons.prems in auto)
    ultimately show ?case by (cases ws) auto
  qed simp
  from this [of vs] show ?case using JArr by (auto simp: list_all_iff array_text_def)
next
  case (JObj ms)
  have "need_members ws \<le> Suc (length (join '','' (map (\<lambda>(k, v). member_text k (json_text v)) ws)))"
    if "\<And>k w. (k, w) \<in> set ws \<Longrightarrow> need w \<le> length (json_text w)" for ws
    using that
  proof (induction ws)
    case (Cons e ws)
    obtain k w where e: "e = (k, w)" by (cases e)
    have "need w \<le> length (json_text w)" using Cons.prems e by auto
    moreover have "need_members ws \<le> Suc (length (join '','' (map (\<lambda>(k, v). member_text k (json_text v)) ws)))"
      by (rule Cons.IH) (use Cons.prems in auto)
    ultimately show ?case using e by (cases ws) (auto simp: member_text_def)
  qed simp
  from this [of ms] show ?case using JObj by (fastforce simp: list_all_iff object_text_def)
qed (simp_all add: string_text_def bool_text_def)

lemma json_parse_text: "json_ok num v \<Longrightarrow> json_parse num (json_text v) = Some (enumerated v)"
  using reads_backD [OF reads_back_ok need_le_text, of num v num "[]"]
  by (simp add: json_parse_def ends_number_def)

section \<open>Values up to the order of keys\<close>

text \<open>The value with the keys of every object in code-unit order.\<close>

fun sorted_json :: "json \<Rightarrow> json" where
  "sorted_json (JArr vs) = JArr (map sorted_json vs)"
| "sorted_json (JObj ms) = JObj (sort_key fst (map (\<lambda>(k, v). (k, sorted_json v)) ms))"
| "sorted_json v = v"

text \<open>Two values that no reader of properties can tell apart.\<close>

inductive same_json :: "json \<Rightarrow> json \<Rightarrow> bool" where
  same: "same_json v v"
| arrays: "list_all2 same_json vs ws \<Longrightarrow> same_json (JArr vs) (JArr ws)"
| objects: "(\<And>k. rel_option same_json (map_of ms k) (map_of ns k)) \<Longrightarrow> same_json (JObj ms) (JObj ns)"

lemma map_snd_keys [simp]: "map fst (map (\<lambda>(k, v). (k, f v)) ms) = map fst ms"
  by (induction ms) auto

lemma fst_map_snd [simp]: "fst \<circ> (\<lambda>(k, v). (k, f v)) = fst"
  by auto

lemma map_of_map_snd: "map_of (map (\<lambda>(k, v). (k, f v)) ms) k = map_option f (map_of ms k)"
  by (induction ms) auto

lemma distinct_map_mset: "mset xs = mset ys \<Longrightarrow> distinct (map f xs) \<longleftrightarrow> distinct (map f ys)"
  by (metis mset_map mset_eq_imp_distinct_iff)

lemma sort_key_permuted:
  assumes "distinct (map fst xs)" "distinct (map fst ys)" "set xs = set ys"
  shows "sort_key fst xs = sort_key fst ys"
proof (rule properties_for_sort_key)
  show "mset (sort_key fst ys) = mset xs"
    using assms by (simp add: distinct_map set_eq_iff_mset_eq_distinct[symmetric])
  show "filter (\<lambda>y. fst x = fst y) (sort_key fst ys) = filter (\<lambda>y. fst x = fst y) xs" if "x \<in> set (sort_key fst ys)" for x
  proof -
    have single: "filter (\<lambda>y. fst x = fst y) zs = [x]" if "distinct (map fst zs)" "x \<in> set zs" for zs :: "('a \<times> 'b) list"
      using that by (induction zs) (auto simp: filter_empty_conv image_iff)
    have "distinct (map fst (sort_key fst ys))"
      using assms(2) distinct_map_mset [of "sort_key fst ys" ys fst] by simp
    then show ?thesis using single assms that by simp
  qed
qed simp

lemma mset_key_order: "mset (key_order ms) = mset ms"
  using mset_filter_split [of "\<lambda>m. array_index (fst m) \<noteq> None" ms] by (simp add: key_order_def)

lemma jm_set_new: "k \<notin> fst ` set m \<Longrightarrow> jm_set k v m = m @ [(k, v)]"
  by (induction m) auto

lemma foldl_jm_set:
  "distinct (map fst (acc @ ms)) \<Longrightarrow> foldl (\<lambda>acc (k, v). jm_set k v acc) acc ms = acc @ ms"
proof (induction ms arbitrary: acc)
  case (Cons e ms)
  obtain k v where e: "e = (k, v)" by (cases e)
  then have "jm_set k v acc = acc @ [(k, v)]" using Cons.prems by (intro jm_set_new) auto
  then show ?case using Cons.IH [of "acc @ [(k, v)]"] Cons.prems e by simp
qed simp

lemma make_object_distinct: "distinct (map fst ms) \<Longrightarrow> make_object ms = key_order ms"
  by (simp add: make_object_def foldl_jm_set)

lemma key_order_keys:
  "set (key_order ms) = set ms" "distinct (map fst (key_order ms)) = distinct (map fst ms)"
  using mset_key_order [of ms] by (metis set_mset_mset, metis distinct_map_mset)

lemma enumerated_ok: "json_ok num v \<Longrightarrow> json_ok num (enumerated v)"
proof (induction v)
  case (JObj ms)
  then have d: "distinct (map fst (map (\<lambda>(k, v). (k, enumerated v)) ms))" by simp
  then show ?case
    using JObj by (fastforce simp: make_object_distinct [OF d] key_order_keys list_all_iff)
qed (auto simp: list_all_iff)

lemma sorted_enumerated: "json_ok num v \<Longrightarrow> sorted_json (enumerated v) = sorted_json v"
proof (induction v)
  case (JObj ms)
  let ?es = "map (\<lambda>(k, v). (k, enumerated v)) ms"
  have d: "distinct (map fst ms)" using JObj.prems by simp
  then have es: "make_object ?es = key_order ?es" by (intro make_object_distinct) simp
  have same: "sorted_json (enumerated v) = sorted_json v" if "(k, v) \<in> set ms" for k v
    using JObj.IH [of "(k, v)" v] JObj.prems that by (auto simp: list_all_iff)
  have "(\<lambda>(k, v). (k, sorted_json v)) ` set (key_order ?es) = (\<lambda>(k, v). (k, sorted_json v)) ` set ms"
    using same unfolding key_order_keys by (force simp: image_iff)
  then show ?case
    using d by (auto simp: es key_order_keys(2) intro!: sort_key_permuted)
qed (auto simp: list_all_iff)

lemma sorted_ok: "json_ok num v \<Longrightarrow> json_ok num (sorted_json v)"
proof (induction v)
  case (JObj ms)
  have "distinct (map fst (sort_key fst (map (\<lambda>(k, v). (k, sorted_json v)) ms)))"
    using JObj.prems distinct_map_mset [of "sort_key fst (map (\<lambda>(k, v). (k, sorted_json v)) ms)"
        "map (\<lambda>(k, v). (k, sorted_json v)) ms" fst] by simp
  then show ?case using JObj by (fastforce simp: list_all_iff)
qed (auto simp: list_all_iff)

lemma sorted_sorted: "json_ok num v \<Longrightarrow> sorted_json (sorted_json v) = sorted_json v"
proof (induction v)
  case (JObj ms)
  let ?ss = "map (\<lambda>(k, v). (k, sorted_json v)) ms"
  have same: "sorted_json (sorted_json v) = sorted_json v" if "(k, v) \<in> set ms" for k v
    using JObj.IH [of "(k, v)" v] JObj.prems that by (auto simp: list_all_iff)
  have "distinct (map fst (sort_key fst ?ss))"
    using JObj.prems distinct_map_mset [of "sort_key fst ?ss" ?ss fst] by simp
  moreover have "(\<lambda>(k, v). (k, sorted_json v)) ` set ?ss = set ?ss"
    using same by (force simp: image_iff)
  ultimately show ?case
    using JObj.prems by (auto intro!: sort_key_permuted)
qed (auto simp: list_all_iff)

text \<open>Two values have the same sorted form just when they are the same up to the order of keys.\<close>

lemma same_sorted: "same_json v w \<Longrightarrow> json_ok num v \<Longrightarrow> json_ok num w \<Longrightarrow> sorted_json v = sorted_json w"
proof (induction rule: same_json.induct)
  case (arrays vs ws)
  then have "map sorted_json vs = map sorted_json ws"
    by (auto simp: list_all2_conv_all_nth list_all_length intro!: nth_equalityI)
  then show ?case by simp
next
  case (objects ms ns)
  have d: "distinct (map fst ms)" "distinct (map fst ns)" using objects.prems by simp_all
  have eq: "map_option sorted_json (map_of ms k) = map_option sorted_json (map_of ns k)" for k
  proof (cases "map_of ms k")
    case None
    then show ?thesis using objects(1) [of k] by (auto dest: rel_option_unfold[THEN iffD1])
  next
    case (Some v)
    then obtain w where w: "map_of ns k = Some w" "same_json v w"
      "json_ok num v \<longrightarrow> json_ok num w \<longrightarrow> sorted_json v = sorted_json w"
      using objects(1) [of k] by (auto simp: option_rel_Some1)
    moreover have "json_ok num v" "json_ok num w"
      using objects.prems map_of_SomeD [OF Some] map_of_SomeD [OF w(1)] by (auto simp: list_all_iff)
    ultimately show ?thesis using Some by simp
  qed
  have "map_of (map (\<lambda>(k, v). (k, sorted_json v)) ms) = map_of (map (\<lambda>(k, v). (k, sorted_json v)) ns)"
    using eq by (simp add: fun_eq_iff map_of_map_snd)
  then have "set (map (\<lambda>(k, v). (k, sorted_json v)) ms) = set (map (\<lambda>(k, v). (k, sorted_json v)) ns)"
    using d by (subst map_of_inject_set [symmetric]) simp_all
  then show ?case using d by (auto intro!: sort_key_permuted)
qed simp

lemma sorted_same: "sorted_json v = sorted_json w \<Longrightarrow> json_ok num v \<Longrightarrow> json_ok num w \<Longrightarrow> same_json v w"
proof (induction v arbitrary: w)
  case (JArr vs)
  obtain ws where w: "w = JArr ws" "map sorted_json vs = map sorted_json ws" using JArr.prems(1) by (cases w) auto
  have "length vs = length ws" using w(2) by (metis length_map)
  moreover have "same_json (vs ! i) (ws ! i)" if "i < length vs" for i
  proof (rule JArr.IH)
    show "sorted_json (vs ! i) = sorted_json (ws ! i)"
      using w(2) that \<open>length vs = length ws\<close> by (metis nth_map)
  qed (use JArr.prems w(1) that \<open>length vs = length ws\<close> in \<open>auto simp: list_all_length\<close>)
  ultimately show ?case unfolding w(1) by (intro same_json.arrays) (simp add: list_all2_conv_all_nth)
next
  case (JObj ms)
  let ?s = "\<lambda>ms. map (\<lambda>(k, v). (k, sorted_json v)) ms"
  obtain ns where w: "w = JObj ns" "sort_key fst (?s ms) = sort_key fst (?s ns)" using JObj.prems(1) by (cases w) auto
  have d: "distinct (map fst ms)" "distinct (map fst ns)" using JObj.prems w(1) by simp_all
  have "set (?s ms) = set (?s ns)" using w(2) by (metis set_sort)
  then have "map_of (?s ms) = map_of (?s ns)" using d by (subst map_of_inject_set) simp_all
  then have eq: "map_option sorted_json (map_of ms k) = map_option sorted_json (map_of ns k)" for k
    by (metis map_of_map_snd)
  have "rel_option same_json (map_of ms k) (map_of ns k)" for k
  proof (cases "map_of ms k")
    case None
    then show ?thesis using eq [of k] by simp
  next
    case (Some v)
    then obtain w' where w': "map_of ns k = Some w'" "sorted_json v = sorted_json w'"
      using eq [of k] by (cases "map_of ns k") simp_all
    have mem: "(k, v) \<in> set ms" "(k, w') \<in> set ns" using map_of_SomeD Some w'(1) by fast+
    have "same_json v w'"
      by (rule JObj.IH [OF mem(1) _ w'(2)]) (use JObj.prems w(1) mem in \<open>auto simp: list_all_iff\<close>)
    then show ?thesis using Some w'(1) by simp
  qed
  then show ?case unfolding w(1) by (rule same_json.objects)
next
  case (JStr s)
  then show ?case by (cases w) (auto intro: same_json.same)
next
  case (JNum t)
  then show ?case by (cases w) (auto intro: same_json.same)
next
  case (JBool b)
  then show ?case by (cases w) (auto intro: same_json.same)
next
  case JNull
  then show ?case by (cases w) (auto intro: same_json.same)
qed simp_all

text \<open>The sorted text determines the value, up to the order of keys.\<close>

lemma sorted_text_inject:
  assumes "json_ok num v" "json_ok num w"
  shows "json_text (sorted_json v) = json_text (sorted_json w) \<longleftrightarrow> same_json v w"
proof
  assume "json_text (sorted_json v) = json_text (sorted_json w)"
  then have "enumerated (sorted_json v) = enumerated (sorted_json w)"
    using json_parse_text [OF sorted_ok [OF assms(1)]] json_parse_text [OF sorted_ok [OF assms(2)]] by simp
  then have "sorted_json v = sorted_json w"
    using sorted_enumerated [OF sorted_ok [OF assms(1)]] sorted_enumerated [OF sorted_ok [OF assms(2)]]
      sorted_sorted assms by metis
  then show "same_json v w" using sorted_same assms by blast
next
  assume "same_json v w"
  then show "json_text (sorted_json v) = json_text (sorted_json w)" using same_sorted assms by metis
qed

end
