(* ===== verification/Autonomy_Decision.thy ===== *)
theory Autonomy_Decision
  imports Json Locked_Store Autonomy_Policy
begin

text \<open>
  \<^verbatim>\<open>packages/shared/src/autonomy-decision.ts\<close>: the exact request a person approves or denies. The
  request's fields, its normalized paths, the canonical text of its arguments and the policy it
  was asked under are bound by two fingerprints, and a decision record repeats all of them with an
  expiry. \<open>hash\<close> is SHA-256 in lower-case hexadecimal and \<open>num\<close> the number conversion of
  \<^verbatim>\<open>Json\<close>; an exception is \<open>Inl\<close> of its message.
\<close>

section \<open>Data\<close>

record evidence_reference =
  er_evidenceId :: string
  er_kind :: string
  er_reference :: string
  er_recordedAt :: string

record autonomy_binding =
  ab_version :: string
  ab_fingerprint :: string
  ab_context :: string

record decision_input =
  di_operation :: string
  di_category :: category
  di_sourceId :: string
  di_runId :: string
  di_sessionId :: string
  di_actorId :: string
  di_capabilityId :: string
  di_paths :: "string list option"
  di_arguments :: "json option"
  di_policy :: autonomy_binding

record decision_request =
  dr_operation :: string
  dr_category :: category
  dr_sourceId :: string
  dr_runId :: string
  dr_sessionId :: string
  dr_actorId :: string
  dr_capabilityId :: string
  dr_paths :: "string list"
  dr_normalizedArgs :: string
  dr_policy :: autonomy_binding
  dr_scopeFingerprint :: string
  dr_requestFingerprint :: string

datatype decision_value = DecisionApproved | DecisionDenied

record decision_record =
  dd_decisionId :: string
  dd_decision :: decision_value
  dd_request :: decision_request
  dd_actorId :: string
  dd_evidenceRef :: evidence_reference
  dd_createdAt :: string
  dd_expiresAt :: string

definition max_argument_bytes :: nat where "max_argument_bytes = 32 * 1024"

definition max_context_bytes :: nat where "max_context_bytes = 64 * 1024"

definition max_decision_ttl :: int where "max_decision_ttl = 24 * 60 * 60000"

section \<open>Identifiers\<close>

text \<open>
  \<^verbatim>\<open>IDENTIFIER\<close> and \<^verbatim>\<open>HASH\<close> are the expressions of \<open>valid_id\<close> and \<open>valid_hash\<close>.
\<close>

definition decision_prefix :: string where "decision_prefix = ''autonomy-decision-''"

definition valid_decision_id :: "string \<Rightarrow> bool" where
  "valid_decision_id s =
     (case strip_prefix decision_prefix s of
        None \<Rightarrow> False
      | Some r \<Rightarrow> r \<noteq> [] \<and> length r \<le> 100 \<and> list_all (\<lambda>c. id_start c \<or> c = CHR ''-'') r)"

definition valid_evidence_id :: "string \<Rightarrow> bool" where
  "valid_evidence_id s =
     (s \<noteq> [] \<and> length s \<le> 160 \<and> id_start (hd s) \<and> list_all (\<lambda>c. id_start c \<or> c \<in> set ''._:@-'') s)"

definition evidence_kinds :: "string list" where
  "evidence_kinds = [''raw_log'', ''diff'', ''validation_result'', ''capability_result'']"

definition valid_evidence :: "evidence_reference \<Rightarrow> bool" where
  "valid_evidence e =
     (valid_evidence_id (er_evidenceId e) \<and> er_kind e \<in> set evidence_kinds
      \<and> valid_id (er_reference e) \<and> valid_iso (er_recordedAt e))"

section \<open>Canonical values\<close>

definition utf8_length :: "string \<Rightarrow> nat" where
  "utf8_length s = sum_list (map (\<lambda>c. if (of_char c :: nat) < 128 then 1 else 2) s)"

text \<open>The first error of a list of results, or all of them.\<close>

fun collect :: "('e + 'a) list \<Rightarrow> 'e + 'a list" where
  "collect [] = Inr []"
| "collect (Inl e # rs) = Inl e"
| "collect (Inr x # rs) = (case collect rs of Inl e \<Rightarrow> Inl e | Inr xs \<Rightarrow> Inr (x # xs))"

definition too_deep :: string where "too_deep = ''Autonomy decision value is too deeply nested.''"
definition string_too_large :: string where "string_too_large = ''Autonomy decision string is too large.''"
definition not_finite :: string where "not_finite = ''Autonomy decision numbers must be finite.''"
definition not_json_safe :: string where "not_json_safe = ''Autonomy decision values must be JSON-safe.''"
definition value_too_large :: string where "value_too_large = ''Autonomy decision value exceeds its bounded size.''"

lemma member_smaller: "(k, v) \<in> set ms \<Longrightarrow> size v < size (JObj ms)"
  by (induction ms) auto

function canonical_value :: "nat \<Rightarrow> json \<Rightarrow> string + string" where
  "canonical_value depth v =
     (if 16 < depth then Inl too_deep
      else case v of
        JNull \<Rightarrow> Inr ''null''
      | JStr s \<Rightarrow> if 16000 < length s then Inl string_too_large else Inr (string_text s)
      | JBool b \<Rightarrow> Inr (bool_text b)
      | JNum t \<Rightarrow> Inr t
      | JNonFinite \<Rightarrow> Inl not_finite
      | JOther \<Rightarrow> Inl not_json_safe
      | JArr vs \<Rightarrow> map_sum id array_text (collect (map (canonical_value (Suc depth)) vs))
      | JObj ms \<Rightarrow> map_sum id object_text (collect (map (\<lambda>(k, w).
          map_sum id (member_text k) (canonical_value (Suc depth) w)) (sort_key fst ms))))"
  by pat_completeness auto
termination
  by (relation "measure (\<lambda>(d, v). size v)")
    (auto dest: member_smaller simp: less_Suc_eq_le intro: size_list_estimation')

declare canonical_value.simps [simp del]

definition canonicalize_value :: "nat \<Rightarrow> json \<Rightarrow> string + string" where
  "canonicalize_value maxBytes v =
     (case canonical_value 0 v of
        Inl e \<Rightarrow> Inl e
      | Inr t \<Rightarrow> if maxBytes < utf8_length t then Inl value_too_large else Inr t)"

section \<open>Paths\<close>

definition slash :: char where "slash = CHR ''/''"

fun collapse_slashes :: "string \<Rightarrow> string" where
  "collapse_slashes (c # d # s) =
     (if c = slash \<and> d = slash then collapse_slashes (d # s) else c # collapse_slashes (d # s))"
| "collapse_slashes s = s"

definition path_pieces :: "string \<Rightarrow> string list" where
  "path_pieces s = split_on (\<lambda>c. c = slash) s"

definition raw_path :: "string \<Rightarrow> string" where
  "raw_path value = trim (collapse_slashes (map (\<lambda>c. if c = backslash then slash else c) value))"

definition kept_pieces :: "string \<Rightarrow> string list" where
  "kept_pieces raw = filter (\<lambda>part. part \<noteq> [] \<and> part \<noteq> ''.'') (path_pieces raw)"

definition normalize_autonomy_path :: "string \<Rightarrow> string" where
  "normalize_autonomy_path value =
     (let raw = raw_path value;
          absolute = starts_with raw [slash];
          trailing = 1 < length raw \<and> ends_with raw [slash];
          normalized = (if absolute then [slash] else []) @ join [slash] (kept_pieces raw)
      in if trailing \<and> normalized \<noteq> [slash] then normalized @ [slash] else normalized)"

definition normalized_path :: "string \<Rightarrow> string + string" where
  "normalized_path value =
     (if trim value = [] \<or> 1000 < length value then Inl ''Autonomy decision path is invalid.''
      else if normalize_autonomy_path value = [] then Inl ''Autonomy decision path is empty.''
      else Inr (normalize_autonomy_path value))"

definition path_list :: "string list option \<Rightarrow> string list" where
  "path_list paths = (case paths of None \<Rightarrow> [] | Some ps \<Rightarrow> ps)"

definition normalize_autonomy_paths :: "string list option \<Rightarrow> string + string list" where
  "normalize_autonomy_paths paths =
     (if 64 < length (path_list paths) then Inl ''Autonomy decision paths are invalid.''
      else case collect (map normalized_path (path_list paths)) of
        Inl e \<Rightarrow> Inl e
      | Inr normalized \<Rightarrow> Inr (sort (uniq normalized)))"

section \<open>Requests\<close>

definition policy_text :: "string \<Rightarrow> string \<Rightarrow> string" where
  "policy_text version context = version @ CHR 0x00 # context"

definition create_autonomy_policy_binding ::
  "(string \<Rightarrow> string) \<Rightarrow> string \<Rightarrow> json \<Rightarrow> string + autonomy_binding" where
  "create_autonomy_policy_binding hash version context =
     (if \<not> valid_id version \<or> 64 < length version then Inl ''Autonomy policy version is invalid.''
      else map_sum id (\<lambda>t. \<lparr>ab_version = version, ab_fingerprint = hash (policy_text version t), ab_context = t\<rparr>)
             (canonicalize_value max_context_bytes context))"

definition scope_payload :: "decision_request \<Rightarrow> (string \<times> json) list" where
  "scope_payload r =
     [(''operation'', JStr (dr_operation r)), (''category'', JStr (category_text (dr_category r))),
      (''sourceId'', JStr (dr_sourceId r)), (''runId'', JStr (dr_runId r)), (''sessionId'', JStr (dr_sessionId r)),
      (''actorId'', JStr (dr_actorId r)), (''capabilityId'', JStr (dr_capabilityId r)),
      (''paths'', JArr (map JStr (dr_paths r))), (''normalizedArgs'', JStr (dr_normalizedArgs r))]"

definition policy_json :: "autonomy_binding \<Rightarrow> json" where
  "policy_json p =
     JObj [(''version'', JStr (ab_version p)), (''fingerprint'', JStr (ab_fingerprint p)), (''context'', JStr (ab_context p))]"

definition create_scope_fingerprint :: "(string \<Rightarrow> string) \<Rightarrow> decision_request \<Rightarrow> string + string" where
  "create_scope_fingerprint hash r =
     map_sum id hash (canonicalize_value max_context_bytes (JObj (scope_payload r)))"

definition create_request_fingerprint :: "(string \<Rightarrow> string) \<Rightarrow> decision_request \<Rightarrow> string + string" where
  "create_request_fingerprint hash r =
     map_sum id hash (canonicalize_value max_context_bytes
       (JObj (scope_payload r @ [(''policy'', policy_json (dr_policy r))])))"

text \<open>The policy is accepted when its context is canonical text and its fingerprint is right.\<close>

definition valid_binding :: "(string \<Rightarrow> string) \<Rightarrow> (string \<Rightarrow> string) \<Rightarrow> autonomy_binding \<Rightarrow> bool" where
  "valid_binding hash num p =
     (valid_id (ab_version p) \<and> valid_hash (ab_fingerprint p) \<and> ab_context p \<noteq> []
      \<and> utf8_length (ab_context p) \<le> max_context_bytes
      \<and> (case json_parse num (ab_context p) of
           None \<Rightarrow> False | Some v \<Rightarrow> canonicalize_value max_context_bytes v = Inr (ab_context p))
      \<and> hash (policy_text (ab_version p) (ab_context p)) = ab_fingerprint p)"

text \<open>
  A policy context that is no JSON text makes \<^verbatim>\<open>JSON.parse\<close> throw its own message, and one that
  cannot be canonicalized that of \<^verbatim>\<open>canonicalJson\<close>; here all of them have the message of the
  binding.
\<close>

definition create_autonomy_decision_request ::
  "(string \<Rightarrow> string) \<Rightarrow> (string \<Rightarrow> string) \<Rightarrow> decision_input \<Rightarrow> string + decision_request" where
  "create_autonomy_decision_request hash num i =
     (if \<not> valid_id (di_operation i) \<or> \<not> valid_id (di_sourceId i) \<or> \<not> valid_id (di_runId i)
         \<or> \<not> valid_id (di_sessionId i) \<or> \<not> valid_id (di_actorId i) \<or> \<not> valid_id (di_capabilityId i)
      then Inl ''Autonomy decision request identity or operation is invalid.''
      else case normalize_autonomy_paths (di_paths i) of
        Inl e \<Rightarrow> Inl e
      | Inr paths \<Rightarrow>
          (case canonicalize_value max_argument_bytes (case di_arguments i of None \<Rightarrow> JNull | Some v \<Rightarrow> v) of
             Inl e \<Rightarrow> Inl e
           | Inr normalizedArgs \<Rightarrow>
               if \<not> valid_binding hash num (di_policy i) then Inl ''Autonomy decision policy binding is invalid.''
               else let base = \<lparr>dr_operation = di_operation i, dr_category = di_category i, dr_sourceId = di_sourceId i,
                       dr_runId = di_runId i, dr_sessionId = di_sessionId i, dr_actorId = di_actorId i,
                       dr_capabilityId = di_capabilityId i, dr_paths = paths, dr_normalizedArgs = normalizedArgs,
                       dr_policy = di_policy i, dr_scopeFingerprint = [], dr_requestFingerprint = []\<rparr>
                 in case create_scope_fingerprint hash base of
                   Inl e \<Rightarrow> Inl e
                 | Inr s \<Rightarrow>
                     (case create_request_fingerprint hash base of
                        Inl e \<Rightarrow> Inl e
                      | Inr q \<Rightarrow> Inr (base\<lparr>dr_scopeFingerprint := s, dr_requestFingerprint := q\<rparr>))))"

definition is_autonomy_decision_request ::
  "(string \<Rightarrow> string) \<Rightarrow> (string \<Rightarrow> string) \<Rightarrow> decision_request \<Rightarrow> bool" where
  "is_autonomy_decision_request hash num r =
     (case json_parse num (dr_normalizedArgs r) of
        None \<Rightarrow> False
      | Some args \<Rightarrow>
          (case create_autonomy_decision_request hash num
                  \<lparr>di_operation = dr_operation r, di_category = dr_category r, di_sourceId = dr_sourceId r,
                   di_runId = dr_runId r, di_sessionId = dr_sessionId r, di_actorId = dr_actorId r,
                   di_capabilityId = dr_capabilityId r, di_paths = Some (dr_paths r), di_arguments = Some args,
                   di_policy = dr_policy r\<rparr> of
             Inl e \<Rightarrow> False
           | Inr rebuilt \<Rightarrow> dr_scopeFingerprint rebuilt = dr_scopeFingerprint r
               \<and> dr_requestFingerprint rebuilt = dr_requestFingerprint r))"

section \<open>Decision records\<close>

text \<open>A record keeps the fields of the request it decides, the request's actor beside its own.\<close>

definition within_ttl :: "string \<Rightarrow> string \<Rightarrow> bool" where
  "within_ttl createdAt expiresAt =
     (case (date_parse createdAt, date_parse expiresAt) of
        (Some c, Some x) \<Rightarrow> c < x \<and> x - c \<le> max_decision_ttl
      | _ \<Rightarrow> False)"

definition canonical_text :: "(string \<Rightarrow> string) \<Rightarrow> nat \<Rightarrow> string \<Rightarrow> bool" where
  "canonical_text num maxBytes t =
     (case json_parse num t of None \<Rightarrow> False | Some v \<Rightarrow> canonicalize_value maxBytes v = Inr t)"

definition is_persisted_decision :: "(string \<Rightarrow> string) \<Rightarrow> (string \<Rightarrow> string) \<Rightarrow> decision_record \<Rightarrow> bool" where
  "is_persisted_decision hash num d =
     (let r = dd_request d in
      valid_decision_id (dd_decisionId d)
      \<and> valid_id (dr_operation r) \<and> valid_id (dr_sourceId r) \<and> valid_id (dr_runId r) \<and> valid_id (dr_sessionId r)
      \<and> valid_id (dd_actorId d) \<and> valid_id (dr_actorId r) \<and> valid_id (dr_capabilityId r)
      \<and> length (dr_paths r) \<le> 64 \<and> list_all (\<lambda>p. p = normalize_autonomy_path p) (dr_paths r)
      \<and> sort (dr_paths r) = dr_paths r
      \<and> canonical_text num max_argument_bytes (dr_normalizedArgs r)
      \<and> valid_id (ab_version (dr_policy r)) \<and> valid_hash (ab_fingerprint (dr_policy r))
      \<and> canonical_text num max_context_bytes (ab_context (dr_policy r))
      \<and> valid_hash (dr_scopeFingerprint r) \<and> valid_hash (dr_requestFingerprint r)
      \<and> valid_evidence (dd_evidenceRef d)
      \<and> valid_iso (dd_createdAt d) \<and> valid_iso (dd_expiresAt d)
      \<and> within_ttl (dd_createdAt d) (dd_expiresAt d)
      \<and> is_autonomy_decision_request hash num r)"

definition build_persisted_decision ::
  "(string \<Rightarrow> string) \<Rightarrow> (string \<Rightarrow> string) \<Rightarrow> string \<Rightarrow> decision_value \<Rightarrow> decision_request \<Rightarrow> string
   \<Rightarrow> evidence_reference \<Rightarrow> string \<Rightarrow> string \<Rightarrow> string + decision_record" where
  "build_persisted_decision hash num decisionId decision request actorId evidence createdAt expiresAt =
     (if \<not> valid_decision_id decisionId \<or> \<not> valid_id actorId \<or> \<not> valid_iso createdAt \<or> \<not> valid_iso expiresAt
         \<or> \<not> within_ttl createdAt expiresAt
      then Inl ''Autonomy decision identity or bounded expiry is invalid.''
      else if \<not> valid_evidence evidence then Inl ''Autonomy decision evidence reference is invalid.''
      else let record = \<lparr>dd_decisionId = decisionId, dd_decision = decision, dd_request = request, dd_actorId = actorId,
                         dd_evidenceRef = evidence, dd_createdAt = createdAt, dd_expiresAt = expiresAt\<rparr>
        in if \<not> is_persisted_decision hash num record then Inl ''Autonomy decision record failed canonical validation.''
           else Inr record)"

section \<open>Canonical values: lemmas\<close>

lemma collect_map_Inr [simp]: "collect (map Inr xs) = Inr xs"
  by (induction xs) simp_all

lemma collect_Inr: "collect rs = Inr xs \<longleftrightarrow> rs = map Inr xs"
  by (induction rs arbitrary: xs rule: collect.induct) (auto split: sum.splits)

lemma map_sum_Inr: "map_sum id f r = Inr y \<longleftrightarrow> (\<exists>x. r = Inr x \<and> y = f x)"
  by (cases r) auto

lemma insort_map_snd: "insort_key fst (k, f v) (map (\<lambda>(k, v). (k, f v)) ms) = map (\<lambda>(k, v). (k, f v)) (insort_key fst (k, v) ms)"
  by (induction ms) auto

lemma sort_key_map_snd: "sort_key fst (map (\<lambda>(k, v). (k, f v)) ms) = map (\<lambda>(k, v). (k, f v)) (sort_key fst ms)"
  by (induction ms) (auto simp: insort_map_snd)

text \<open>What is canonicalized is the text of the value with its keys in order.\<close>

lemma canonical_value_text: "canonical_value d v = Inr t \<Longrightarrow> t = json_text (sorted_json v)"
proof (induction d v arbitrary: t rule: canonical_value.induct)
  case (1 d v)
  then have deep: "\<not> 16 < d" by (auto simp: canonical_value.simps split: if_splits)
  note unfolded = "1.prems"[unfolded canonical_value.simps[of d v]]
  show ?case
  proof (cases v)
    case (JArr vs)
    with unfolded deep obtain ts where ts: "map (canonical_value (Suc d)) vs = map Inr ts" "t = array_text ts"
      by (auto simp: map_sum_Inr collect_Inr)
    have "ts = map (json_text \<circ> sorted_json) vs"
    proof (rule nth_equalityI)
      show "length ts = length (map (json_text \<circ> sorted_json) vs)" using ts(1) by (metis length_map)
      fix j assume j: "j < length ts"
      have len: "length ts = length vs" using ts(1) by (metis length_map)
      have "canonical_value (Suc d) (vs ! j) = Inr (ts ! j)" using ts(1) j len by (metis nth_map)
      then have "ts ! j = json_text (sorted_json (vs ! j))"
        using "1.IH"(1)[OF deep JArr, of "vs ! j"] j len by simp
      then show "ts ! j = map (json_text \<circ> sorted_json) vs ! j" using j len by simp
    qed
    with ts(2) JArr show ?thesis by simp
  next
    case (JObj ms)
    with unfolded deep obtain ts where
      ts: "map (\<lambda>(k, w). map_sum id (member_text k) (canonical_value (Suc d) w)) (sort_key fst ms) = map Inr ts" "t = object_text ts"
      by (auto simp: map_sum_Inr collect_Inr)
    have "ts = map (\<lambda>(k, w). member_text k (json_text (sorted_json w))) (sort_key fst ms)"
    proof (rule nth_equalityI)
      have len: "length ts = length (sort_key fst ms)" using ts(1) by (metis length_map)
      then show "length ts = length (map (\<lambda>(k, w). member_text k (json_text (sorted_json w))) (sort_key fst ms))" by simp
      fix j assume j: "j < length ts"
      obtain k w where e: "sort_key fst ms ! j = (k, w)" by (meson surj_pair)
      have mem: "(k, w) \<in> set (sort_key fst ms)" using e j len by (metis nth_mem)
      have "map_sum id (member_text k) (canonical_value (Suc d) w) = Inr (ts ! j)"
        using arg_cong[OF ts(1), of "\<lambda>xs. xs ! j"] j len e by simp
      then obtain u where u: "canonical_value (Suc d) w = Inr u" "ts ! j = member_text k u" by (auto simp: map_sum_Inr)
      have "u = json_text (sorted_json w)"
        using "1.IH"(2)[OF deep JObj mem refl u(1)] by simp
      then show "ts ! j = map (\<lambda>(k, w). member_text k (json_text (sorted_json w))) (sort_key fst ms) ! j"
        using u(2) e j len by simp
    qed
    with ts(2) JObj show ?thesis by (simp add: sort_key_map_snd) (simp add: split_def o_def)
  qed (use unfolded deep in \<open>auto split: if_splits\<close>)
qed

lemma sort_key_again: "sort_key fst (sort_key fst ms) = sort_key fst ms"
  by (rule sort_key_id_if_sorted) simp

lemma canonical_value_sorted: "canonical_value d (sorted_json v) = canonical_value d v"
proof (induction d v rule: canonical_value.induct)
  case (1 d v)
  show ?case
  proof (cases "16 < d")
    case True
    then show ?thesis by (simp add: canonical_value.simps)
  next
    case deep: False
    show ?thesis
    proof (cases v)
      case (JArr vs)
      have "map (canonical_value (Suc d)) (map sorted_json vs) = map (canonical_value (Suc d)) vs"
        using "1.IH"(1)[OF deep JArr] by simp
      then show ?thesis using JArr by (simp add: canonical_value.simps[of d "JArr _"] o_def cong: map_cong)
    next
      case (JObj ms)
      have "map (\<lambda>(k, w). map_sum id (member_text k) (canonical_value (Suc d) w)) (map (\<lambda>(k, v). (k, sorted_json v)) (sort_key fst ms))
          = map (\<lambda>(k, w). map_sum id (member_text k) (canonical_value (Suc d) w)) (sort_key fst ms)"
        using "1.IH"(2)[OF deep JObj _ refl] by auto
      then show ?thesis unfolding JObj
        by (simp only: sorted_json.simps canonical_value.simps[of d "JObj _"] json.case sort_key_map_snd sort_key_again)
    qed simp_all
  qed
qed

lemma canonicalize_Inr:
  "canonicalize_value n v = Inr t \<Longrightarrow> t = json_text (sorted_json v) \<and> utf8_length t \<le> n \<and> canonical_value 0 v = Inr t"
  by (auto simp: canonicalize_value_def canonical_value_text split: sum.splits if_splits)

lemma canonicalize_same:
  assumes "same_json v w" "json_ok num v" "json_ok num w"
  shows "canonicalize_value n v = canonicalize_value n w"
  using same_sorted [OF assms] canonical_value_sorted [of 0 v] canonical_value_sorted [of 0 w]
  by (simp add: canonicalize_value_def)

lemma same_json_sym: "same_json v w \<Longrightarrow> json_ok num v \<Longrightarrow> json_ok num w \<Longrightarrow> same_json w v"
  using same_sorted sorted_same by metis

lemma canonicalize_parse:
  assumes "canonicalize_value n v = Inr t" "json_ok num v"
  obtains w where "json_parse num t = Some w" "json_ok num w" "same_json v w" "canonicalize_value n w = Inr t"
proof -
  let ?w = "enumerated (sorted_json v)"
  have t: "t = json_text (sorted_json v)" using canonicalize_Inr [OF assms(1)] by simp
  have ok: "json_ok num (sorted_json v)" by (rule sorted_ok [OF assms(2)])
  have w: "json_ok num ?w" by (rule enumerated_ok [OF ok])
  have "sorted_json v = sorted_json ?w"
    using sorted_enumerated [OF ok] sorted_sorted [OF assms(2)] by simp
  then have same: "same_json v ?w" by (rule sorted_same [OF _ assms(2) w])
  show thesis
    by (rule that [OF _ w same])
      (use t ok json_parse_text canonicalize_same [OF same assms(2) w] assms(1) in simp_all)
qed

section \<open>Fingerprints: lemmas\<close>

inductive_simps same_JStr: "same_json (JStr a) v"
inductive_cases same_arrays: "same_json (JArr vs) (JArr ws)"
inductive_cases same_objects: "same_json (JObj ms) (JObj ns)"

lemma same_member: "same_json (JObj ms) (JObj ns) \<Longrightarrow> rel_option same_json (map_of ms k) (map_of ns k)"
  by (elim same_objects) (auto intro: option.rel_refl same_json.same)

lemma same_strings: "same_json (JArr (map JStr xs)) (JArr (map JStr ys)) \<Longrightarrow> xs = ys"
  by (elim same_arrays)
    (auto simp: list_all2_map1 list_all2_map2 same_JStr list_all2_conv_all_nth inj_map_eq_map inj_def
      intro: nth_equalityI)

lemma category_text_inject: "category_text a = category_text b \<longleftrightarrow> a = b"
  by (cases a; cases b) simp_all

lemma json_ok_strings [simp]: "list_all (json_ok num) (map JStr xs)"
  by (induction xs) simp_all

lemma payload_ok [simp]:
  "json_ok num (JObj (scope_payload r))" "json_ok num (policy_json p)"
  "json_ok num (JObj (scope_payload r @ [(''policy'', policy_json p)]))"
  by (simp_all add: scope_payload_def policy_json_def)

lemma same_policy: "same_json (policy_json p) (policy_json q) \<Longrightarrow> p = q"
proof -
  assume same: "same_json (policy_json p) (policy_json q)"
  have "rel_option same_json (map_of [(''version'', JStr (ab_version p)), (''fingerprint'', JStr (ab_fingerprint p)), (''context'', JStr (ab_context p))] k)
      (map_of [(''version'', JStr (ab_version q)), (''fingerprint'', JStr (ab_fingerprint q)), (''context'', JStr (ab_context q))] k)" for k
    by (rule same_member) (use same in \<open>simp add: policy_json_def\<close>)
  from this [of "''version''"] this [of "''fingerprint''"] this [of "''context''"]
  show "p = q" by (simp add: same_JStr)
qed

definition same_scope :: "decision_request \<Rightarrow> decision_request \<Rightarrow> bool" where
  "same_scope r s =
     (dr_operation r = dr_operation s \<and> dr_category r = dr_category s \<and> dr_sourceId r = dr_sourceId s
      \<and> dr_runId r = dr_runId s \<and> dr_sessionId r = dr_sessionId s \<and> dr_actorId r = dr_actorId s
      \<and> dr_capabilityId r = dr_capabilityId s \<and> dr_paths r = dr_paths s \<and> dr_normalizedArgs r = dr_normalizedArgs s)"

lemma payload_member:
  assumes "\<And>k. k \<noteq> ''policy'' \<Longrightarrow> rel_option same_json (map_of (scope_payload r) k) (map_of (scope_payload s) k)"
  shows "same_scope r s"
  using assms [of "''operation''"] assms [of "''category''"] assms [of "''sourceId''"] assms [of "''runId''"]
    assms [of "''sessionId''"] assms [of "''actorId''"] assms [of "''capabilityId''"] assms [of "''paths''"]
    assms [of "''normalizedArgs''"]
  by (simp add: same_scope_def scope_payload_def same_JStr category_text_inject same_strings)

lemma map_of_policy:
  "k \<noteq> ''policy'' \<Longrightarrow> map_of (ms @ [(''policy'', v)]) k = map_of ms k"
  by (simp add: map_add_def split: option.splits)

lemma same_payload:
  assumes "same_json (JObj (scope_payload r @ [(''policy'', policy_json p)])) (JObj (scope_payload s @ [(''policy'', policy_json q)]))"
  shows "same_scope r s \<and> p = q"
proof
  note member = same_member [OF assms]
  show "same_scope r s"
    by (rule payload_member) (use member map_of_policy in metis)
  from member [of "''policy''"] show "p = q" by (simp add: scope_payload_def same_policy)
qed

lemma canonicalize_inject:
  assumes "canonicalize_value n v = Inr t" "canonicalize_value m w = Inr t" "json_ok num v" "json_ok num w"
  shows "same_json v w"
  using canonicalize_Inr [OF assms(1)] canonicalize_Inr [OF assms(2)] sorted_text_inject [OF assms(3,4)] by simp

text \<open>What a created request says of its input and of itself.\<close>

lemma fingerprint_fields [simp]:
  "scope_payload (r\<lparr>dr_scopeFingerprint := s, dr_requestFingerprint := q\<rparr>) = scope_payload r"
  by (simp add: scope_payload_def)

lemma create_Inr:
  assumes "create_autonomy_decision_request hash num i = Inr r"
  shows "dr_operation r = di_operation i" "dr_category r = di_category i" "dr_sourceId r = di_sourceId i"
    "dr_runId r = di_runId i" "dr_sessionId r = di_sessionId i" "dr_actorId r = di_actorId i"
    "dr_capabilityId r = di_capabilityId i" "dr_policy r = di_policy i"
    "normalize_autonomy_paths (di_paths i) = Inr (dr_paths r)"
    "canonicalize_value max_argument_bytes (case di_arguments i of None \<Rightarrow> JNull | Some v \<Rightarrow> v) = Inr (dr_normalizedArgs r)"
    "valid_binding hash num (dr_policy r)"
    "create_scope_fingerprint hash r = Inr (dr_scopeFingerprint r)"
    "create_request_fingerprint hash r = Inr (dr_requestFingerprint r)"
    "valid_id (dr_operation r) \<and> valid_id (dr_sourceId r) \<and> valid_id (dr_runId r) \<and> valid_id (dr_sessionId r)
      \<and> valid_id (dr_actorId r) \<and> valid_id (dr_capabilityId r)"
  using assms
  by (auto simp: create_autonomy_decision_request_def Let_def create_scope_fingerprint_def create_request_fingerprint_def
      scope_payload_def split: if_splits sum.splits)

section \<open>Paths: lemmas\<close>

lemma slash_chars [simp]: "slash \<noteq> backslash" "\<not> js_space slash"
  by (simp_all add: slash_def backslash_def js_space_def)

lemma split_on_Cons_cases:
  obtains w ws where "split_on p s = w # ws"
  using split_on_nonempty [of p s] by (cases "split_on p s") auto

lemma path_pieces_simps [simp]:
  "path_pieces [] = [[]]"
  "path_pieces (slash # s) = [] # path_pieces s"
  by (simp_all add: path_pieces_def)

lemma path_pieces_Cons: "c \<noteq> slash \<Longrightarrow> path_pieces (c # s) = (c # hd (path_pieces s)) # tl (path_pieces s)"
  by (cases "path_pieces s") (auto simp: path_pieces_def)

lemma path_pieces_nonempty [simp]: "path_pieces s \<noteq> []"
  by (simp add: path_pieces_def)

lemma path_pieces_append: "path_pieces (xs @ slash # ys) = path_pieces xs @ path_pieces ys"
proof (induction xs)
  case (Cons c xs)
  then show ?case by (cases "c = slash") (simp_all add: path_pieces_Cons)
qed simp

lemma path_pieces_plain: "slash \<notin> set s \<Longrightarrow> path_pieces s = [s]"
  by (induction s) (auto simp: path_pieces_Cons)

lemma path_pieces_join:
  assumes "ps \<noteq> []" "\<forall>p \<in> set ps. slash \<notin> set p"
  shows "path_pieces (join [slash] ps) = ps"
  using assms
  by (induction "[slash]" ps rule: join.induct) (auto simp: path_pieces_plain path_pieces_append)

lemma piece_no_slash: "p \<in> set (path_pieces s) \<Longrightarrow> slash \<notin> set p"
proof (induction s arbitrary: p)
  case (Cons c s)
  then show ?case
    by (cases "c = slash"; cases "path_pieces s") (auto simp: path_pieces_Cons)
qed simp

lemma piece_chars: "p \<in> set (path_pieces s) \<Longrightarrow> set p \<subseteq> set s"
proof (induction s arbitrary: p)
  case (Cons c s)
  show ?case
  proof (cases "c = slash")
    case True
    then show ?thesis using Cons by auto
  next
    case False
    then consider "p = c # hd (path_pieces s)" | "p \<in> set (tl (path_pieces s))"
      using Cons.prems by (auto simp: path_pieces_Cons)
    then show ?thesis
    proof cases
      case 1
      then show ?thesis using Cons.IH [of "hd (path_pieces s)"] by auto
    next
      case 2
      then show ?thesis using Cons.IH [of p] by (auto dest: list.set_sel(2) [OF path_pieces_nonempty])
    qed
  qed
qed simp

text \<open>Escapes are kept by each of the steps.\<close>

lemma pieces_replace:
  "path_pieces (map (\<lambda>c. if c = backslash then slash else c) s) = split_on (\<lambda>c. c = slash \<or> c = backslash) s"
proof (induction s)
  case (Cons c s)
  then show ?case
    by (cases "c = slash"; cases "c = backslash"; cases "split_on (\<lambda>c. c = slash \<or> c = backslash) s")
      (auto simp: path_pieces_Cons)
qed simp

lemma pieces_collapse:
  "filter (\<lambda>p. p \<noteq> []) (path_pieces (collapse_slashes s)) = filter (\<lambda>p. p \<noteq> []) (path_pieces s)
   \<and> hd (path_pieces (collapse_slashes s)) = hd (path_pieces s)"
proof (induction s rule: collapse_slashes.induct)
  case (1 c d s)
  show ?case
  proof (cases "c = slash")
    case True
    with 1 show ?thesis by (cases "d = slash") auto
  next
    case False
    let ?x = "path_pieces (collapse_slashes (d # s))" and ?y = "path_pieces (d # s)"
    have IH: "filter (\<lambda>p. p \<noteq> []) ?x = filter (\<lambda>p. p \<noteq> []) ?y" "hd ?x = hd ?y"
      using 1 False by simp_all
    have "filter (\<lambda>p. p \<noteq> []) (tl ?x) = filter (\<lambda>p. p \<noteq> []) (tl ?y)"
      by (cases ?x; cases ?y) (use IH in \<open>auto split: if_splits\<close>)
    with False IH(2) show ?thesis by (simp add: path_pieces_Cons)
  qed
qed simp_all

lemma pieces_dropWhile:
  "path_pieces (dropWhile js_space s) = dropWhile js_space (hd (path_pieces s)) # tl (path_pieces s)"
proof (induction s)
  case (Cons c s)
  then show ?case by (cases "c = slash") (auto simp: path_pieces_Cons)
qed simp

lemma pieces_rev: "path_pieces (rev s) = map rev (rev (path_pieces s))"
proof (induction s)
  case (Cons c s)
  show ?case
  proof (cases "c = slash")
    case True
    then show ?thesis using Cons path_pieces_append [of "rev s" "[]"] by simp
  next
    case False
    have snoc: "path_pieces (xs @ [c]) = butlast (path_pieces xs) @ [last (path_pieces xs) @ [c]]" for xs
    proof (induction xs)
      case (Cons x xs)
      then show ?case
        by (cases "x = slash"; cases "path_pieces xs") (auto simp: path_pieces_Cons)
    qed (simp add: False path_pieces_Cons)
    show ?thesis
      using Cons False snoc [of "rev s"] by (cases "path_pieces s") (simp_all add: path_pieces_Cons)
  qed
qed simp

definition dot_dot :: string where "dot_dot = ''..''"

lemma dot_dot_space: "dropWhile js_space dot_dot = dot_dot" "rev dot_dot = dot_dot"
  by (simp_all add: dot_dot_def js_space_def)

lemma dot_dot_dropWhile: "dot_dot \<in> set (path_pieces s) \<Longrightarrow> dot_dot \<in> set (path_pieces (dropWhile js_space s))"
  using dot_dot_space(1) by (cases "path_pieces s") (auto simp: pieces_dropWhile)

lemma dot_dot_rev: "dot_dot \<in> set (path_pieces (rev s)) \<longleftrightarrow> dot_dot \<in> set (path_pieces s)"
proof -
  have "dot_dot \<in> rev ` A \<longleftrightarrow> dot_dot \<in> A" for A
    using dot_dot_space(2) by (metis imageE image_eqI rev_rev_ident)
  then show ?thesis by (simp add: pieces_rev)
qed

lemma dot_dot_trim: "dot_dot \<in> set (path_pieces s) \<Longrightarrow> dot_dot \<in> set (path_pieces (trim s))"
  unfolding trim_def using dot_dot_dropWhile dot_dot_rev by blast

lemma dot_dot_collapse: "dot_dot \<in> set (path_pieces (collapse_slashes s)) \<longleftrightarrow> dot_dot \<in> set (path_pieces s)"
proof -
  have "dot_dot \<in> set (filter (\<lambda>p. p \<noteq> []) (path_pieces x)) \<longleftrightarrow> dot_dot \<in> set (path_pieces x)" for x
    by (simp add: dot_dot_def)
  then show ?thesis using pieces_collapse by metis
qed

lemma pieces_normalized:
  "set (kept_pieces (raw_path value)) \<subseteq> set (path_pieces (normalize_autonomy_path value))"
proof (cases "kept_pieces (raw_path value) = []")
  case False
  let ?ps = "kept_pieces (raw_path value)"
  have ps: "\<forall>p \<in> set ?ps. slash \<notin> set p" using piece_no_slash by (auto simp: kept_pieces_def)
  have "set ?ps \<subseteq> set (path_pieces (pre @ join [slash] ?ps @ post))" if "pre \<in> {[], [slash]}" "post \<in> {[], [slash]}" for pre post
    using that path_pieces_join [OF False ps] path_pieces_append [of "join [slash] ?ps" "[]"] by auto
  from this [of "[slash]" "[slash]"] this [of "[slash]" "[]"] this [of "[]" "[slash]"] this [of "[]" "[]"]
  show ?thesis by (auto simp: normalize_autonomy_path_def Let_def)
qed simp

lemma escape_kept:
  assumes "dot_dot \<in> set (split_on (\<lambda>c. c = slash \<or> c = backslash) value)"
  shows "dot_dot \<in> set (path_pieces (normalize_autonomy_path value))"
proof -
  have "dot_dot \<in> set (path_pieces (raw_path value))"
    unfolding raw_path_def using assms by (intro dot_dot_trim) (simp add: dot_dot_collapse pieces_replace)
  then have "dot_dot \<in> set (kept_pieces (raw_path value))" by (simp add: kept_pieces_def dot_dot_def)
  then show ?thesis using pieces_normalized by blast
qed

text \<open>Normalizing again changes nothing, for a path without white space.\<close>

definition spaceless :: "string \<Rightarrow> bool" where
  "spaceless s = list_all (\<lambda>c. \<not> js_space c) s"

lemma trim_spaceless: "spaceless s \<Longrightarrow> trim s = s"
proof -
  have "dropWhile js_space s = s" if "spaceless s" for s
    using that by (cases s) (auto simp: spaceless_def)
  moreover have "spaceless (rev s)" if "spaceless s" for s
    using that by (simp add: spaceless_def)
  ultimately show "spaceless s \<Longrightarrow> trim s = s" by (simp add: trim_def)
qed

lemma collapse_plain: "c \<noteq> slash \<Longrightarrow> collapse_slashes (c # s) = c # collapse_slashes s"
  by (cases s) simp_all

lemma collapse_piece: "slash \<notin> set p \<Longrightarrow> collapse_slashes (p @ s) = p @ collapse_slashes s"
  by (induction p) (auto simp: collapse_plain)

text \<open>Pieces as a normalized path has them.\<close>

definition good_pieces :: "string list \<Rightarrow> bool" where
  "good_pieces ps = (ps \<noteq> [] \<and> list_all (\<lambda>p. p \<noteq> [] \<and> p \<noteq> ''.'' \<and> slash \<notin> set p \<and> backslash \<notin> set p \<and> spaceless p) ps)"

definition closing :: "bool \<Rightarrow> string" where
  "closing b = (if b then [slash] else [])"

definition path_of :: "bool \<Rightarrow> string list \<Rightarrow> bool \<Rightarrow> string" where
  "path_of absolute ps trailing = closing absolute @ join [slash] ps @ closing trailing"

lemma collapse_join:
  "good_pieces ps \<Longrightarrow> collapse_slashes (join [slash] ps @ closing t) = join [slash] ps @ closing t"
proof (induction "[slash]" ps rule: join.induct)
  case (2 p)
  then show ?case by (simp add: good_pieces_def collapse_piece closing_def)
next
  case (3 p q ps)
  have good: "good_pieces (q # ps)" and p: "slash \<notin> set p" using 3(2) by (simp_all add: good_pieces_def)
  obtain d rest where d: "join [slash] (q # ps) = d # rest" "d \<noteq> slash"
    using good by (cases q; cases ps) (auto simp: good_pieces_def)
  have "collapse_slashes (join [slash] (q # ps) @ closing t) = join [slash] (q # ps) @ closing t"
    by (rule 3(1) [OF good])
  with d p show ?case by (simp add: collapse_piece)
qed (simp add: good_pieces_def)

lemma join_start:
  assumes "good_pieces ps"
  obtains d rest where "join [slash] ps = d # rest" "d \<noteq> slash"
proof (cases ps)
  case (Cons p qs)
  with assms that show ?thesis by (cases p; cases qs) (auto simp: good_pieces_def)
qed (use assms in \<open>simp add: good_pieces_def\<close>)

lemma join_last: "good_pieces ps \<Longrightarrow> join [slash] ps \<noteq> [] \<and> last (join [slash] ps) \<noteq> slash"
proof (induction "[slash]" ps rule: join.induct)
  case (2 p)
  then show ?case by (cases p rule: rev_cases) (auto simp: good_pieces_def)
next
  case (3 p q ps)
  then have "good_pieces (q # ps)" by (simp add: good_pieces_def)
  with 3(1) show ?case by simp
qed (simp add: good_pieces_def)

lemma set_join: "set (join sep ps) \<subseteq> set sep \<union> \<Union> (set ` set ps)"
  by (induction sep ps rule: join.induct) auto

lemma path_of_plain:
  assumes "good_pieces ps"
  shows "raw_path (path_of a ps t) = path_of a ps t"
proof -
  have chars: "set (path_of a ps t) \<subseteq> insert slash (\<Union> (set ` set ps))"
    using set_join [of "[slash]" ps] by (auto simp: path_of_def closing_def)
  have good: "\<not> js_space c \<and> c \<noteq> backslash" if mem: "c \<in> set (path_of a ps t)" for c
  proof (cases "c = slash")
    case False
    then obtain p where "p \<in> set ps" "c \<in> set p" using subsetD [OF chars mem] by auto
    then show ?thesis using assms by (auto simp: spaceless_def good_pieces_def list_all_iff)
  qed simp
  then have "spaceless (path_of a ps t)" "backslash \<notin> set (path_of a ps t)"
    by (auto simp: spaceless_def list_all_iff)
  moreover have "map (\<lambda>c. if c = backslash then slash else c) s = s" if "backslash \<notin> set s" for s
    using that by (intro map_idI) auto
  moreover have "collapse_slashes (path_of a ps t) = path_of a ps t"
  proof (rule join_start [OF assms])
    fix d rest assume "join [slash] ps = d # rest" "d \<noteq> slash"
    then show ?thesis using collapse_join [OF assms, of t] by (simp add: path_of_def closing_def)
  qed
  ultimately show ?thesis by (simp add: raw_path_def trim_spaceless)
qed

lemma path_of_pieces:
  assumes "good_pieces ps"
  shows "kept_pieces (path_of a ps t) = ps" "starts_with (path_of a ps t) [slash] = a"
    "(1 < length (path_of a ps t) \<and> ends_with (path_of a ps t) [slash]) = t"
proof -
  have pp: "path_pieces (join [slash] ps) = ps"
    by (rule path_pieces_join) (use assms in \<open>auto simp: good_pieces_def list_all_iff\<close>)
  have keep: "filter (\<lambda>part. part \<noteq> [] \<and> part \<noteq> ''.'') ps = ps"
    using assms by (auto simp: good_pieces_def list_all_iff intro: filter_True)
  have "path_pieces (join [slash] ps @ closing t) = ps @ (if t then [[]] else [])"
    using pp path_pieces_append [of "join [slash] ps" "[]"] by (simp add: closing_def)
  then show "kept_pieces (path_of a ps t) = ps"
    using keep by (simp add: kept_pieces_def path_of_def closing_def)
  obtain d rest where d: "join [slash] ps = d # rest" "d \<noteq> slash" by (rule join_start [OF assms])
  then show "starts_with (path_of a ps t) [slash] = a"
    by (auto simp: path_of_def closing_def)
  obtain ini l where l: "join [slash] ps = ini @ [l]" "l \<noteq> slash"
    using join_last [OF assms] by (metis append_butlast_last_id)
  show "(1 < length (path_of a ps t) \<and> ends_with (path_of a ps t) [slash]) = t"
    using l by (auto simp: path_of_def closing_def ends_with_def)
qed

lemma normalize_path_of:
  assumes "good_pieces ps"
  shows "normalize_autonomy_path (path_of a ps t) = path_of a ps t"
proof -
  obtain d rest where "join [slash] ps = d # rest" "d \<noteq> slash" by (rule join_start [OF assms])
  then have "closing a @ join [slash] ps \<noteq> [slash]" by (auto simp: closing_def)
  then show ?thesis
    unfolding normalize_autonomy_path_def Let_def path_of_plain [OF assms] path_of_pieces [OF assms]
    by (simp add: path_of_def closing_def)
qed

lemma set_collapse: "set (collapse_slashes s) \<subseteq> set s"
  by (induction s rule: collapse_slashes.induct) auto

lemma length_collapse: "length (collapse_slashes s) \<le> length s"
  by (induction s rule: collapse_slashes.induct) auto

lemma set_trim: "set (trim s) \<subseteq> set s"
  by (auto simp: trim_def dest!: set_dropWhileD)

lemma length_trim: "length (trim s) \<le> length s"
  using length_dropWhile_le [of js_space "rev (dropWhile js_space s)"] length_dropWhile_le [of js_space s]
  by (simp add: trim_def)

lemma raw_path_chars:
  assumes "spaceless value"
  shows "c \<in> set (raw_path value) \<Longrightarrow> \<not> js_space c \<and> c \<noteq> backslash"
proof -
  assume "c \<in> set (raw_path value)"
  then have "c \<in> set (map (\<lambda>c. if c = backslash then slash else c) value)"
    unfolding raw_path_def using set_trim set_collapse by blast
  with assms show ?thesis by (auto simp: spaceless_def list_all_iff split: if_splits)
qed

lemma normalize_shape:
  assumes "spaceless value"
  obtains "normalize_autonomy_path value = []" | "normalize_autonomy_path value = [slash]"
    | a ps t where "good_pieces ps" "normalize_autonomy_path value = path_of a ps t"
proof (cases "kept_pieces (raw_path value) = []")
  case True
  then have "normalize_autonomy_path value = [] \<or> normalize_autonomy_path value = [slash]"
    by (simp add: normalize_autonomy_path_def Let_def)
  then show ?thesis using that(1,2) by blast
next
  case False
  let ?r = "raw_path value"
  have "good_pieces (kept_pieces ?r)"
    unfolding good_pieces_def list_all_iff
  proof (intro conjI ballI False)
    fix p assume p: "p \<in> set (kept_pieces ?r)"
    then have mem: "p \<in> set (path_pieces ?r)" by (simp add: kept_pieces_def)
    show "p \<noteq> []" "p \<noteq> ''.''" using p by (simp_all add: kept_pieces_def)
    show "slash \<notin> set p" by (rule piece_no_slash [OF mem])
    have "\<not> js_space c \<and> c \<noteq> backslash" if "c \<in> set p" for c
      using raw_path_chars [OF assms] piece_chars [OF mem] that by blast
    then show "backslash \<notin> set p" "spaceless p" by (auto simp: spaceless_def list_all_iff)
  qed
  then obtain d rest where d: "join [slash] (kept_pieces ?r) = d # rest" "d \<noteq> slash" by (rule join_start)
  have "normalize_autonomy_path value
      = path_of (starts_with ?r [slash]) (kept_pieces ?r) (1 < length ?r \<and> ends_with ?r [slash])"
    using d by (simp add: normalize_autonomy_path_def Let_def path_of_def closing_def)
  then show ?thesis by (rule that(3) [OF \<open>good_pieces (kept_pieces ?r)\<close>])
qed

lemma normalize_again:
  assumes "spaceless value"
  shows "normalize_autonomy_path (normalize_autonomy_path value) = normalize_autonomy_path value"
proof -
  have ends: "normalize_autonomy_path [] = []" "normalize_autonomy_path [slash] = [slash]"
    by code_simp+
  show ?thesis by (rule normalize_shape [OF assms]) (simp_all add: ends normalize_path_of)
qed

lemma normalize_spaceless:
  assumes "spaceless value"
  shows "spaceless (normalize_autonomy_path value)"
proof (rule normalize_shape [OF assms])
  fix a ps t assume ps: "good_pieces ps" and n: "normalize_autonomy_path value = path_of a ps t"
  have "set (path_of a ps t) \<subseteq> insert slash (\<Union> (set ` set ps))"
    using set_join [of "[slash]" ps] by (auto simp: path_of_def closing_def)
  moreover have "\<not> js_space c" if "c \<in> \<Union> (set ` set ps)" for c
    using that ps by (auto simp: good_pieces_def spaceless_def list_all_iff)
  ultimately show ?thesis unfolding n spaceless_def list_all_iff using slash_chars(2) by blast
qed (simp_all add: spaceless_def)

text \<open>A normalized path is no longer than the path.\<close>

lemma length_pieces: "sum_list (map (\<lambda>p. Suc (length p)) (path_pieces s)) = Suc (length s)"
proof (induction s)
  case (Cons c s)
  then show ?case by (cases "c = slash"; cases "path_pieces s") (auto simp: path_pieces_Cons)
qed simp

lemma length_join: "ps \<noteq> [] \<Longrightarrow> Suc (length (join [slash] ps)) = sum_list (map (\<lambda>p. Suc (length p)) ps)"
  by (induction "[slash]" ps rule: join.induct) auto

lemma length_kept:
  "sum_list (map (\<lambda>p. Suc (length p)) (kept_pieces s)) + length (filter (\<lambda>p. p = []) (path_pieces s)) \<le> Suc (length s)"
proof -
  have "sum_list (map (\<lambda>p. Suc (length p)) (filter (\<lambda>part. part \<noteq> [] \<and> part \<noteq> ''.'') ps)) + length (filter (\<lambda>p. p = []) ps)
      \<le> sum_list (map (\<lambda>p. Suc (length p)) ps)" for ps :: "string list"
    by (induction ps) auto
  from this [of "path_pieces s"] show ?thesis by (simp add: kept_pieces_def length_pieces)
qed

lemma empty_pieces:
  "of_bool (starts_with r [slash]) + of_bool (1 < length r \<and> ends_with r [slash]) \<le> length (filter (\<lambda>p. p = []) (path_pieces r))"
proof (cases "1 < length r \<and> ends_with r [slash]")
  case True
  then obtain u where "r = u @ [slash]" unfolding ends_with_iff by blast
  with True have u: "r = u @ [slash]" "u \<noteq> []" by auto
  then have "path_pieces r = path_pieces u @ [[]]" using path_pieces_append [of u "[]"] by simp
  moreover have "starts_with r [slash] \<Longrightarrow> [] \<in> set (path_pieces u)"
    using u by (cases u) (auto simp: starts_with_iff)
  then have "of_bool (starts_with r [slash]) \<le> length (filter (\<lambda>p. p = []) (path_pieces u))"
    by (cases "filter (\<lambda>p. p = []) (path_pieces u)") (auto simp: filter_empty_conv)
  ultimately show ?thesis using True by simp
next
  case False
  have "starts_with r [slash] \<Longrightarrow> [] \<in> set (path_pieces r)"
    by (auto simp: starts_with_iff)
  then have "of_bool (starts_with r [slash]) \<le> length (filter (\<lambda>p. p = []) (path_pieces r))"
    by (cases "filter (\<lambda>p. p = []) (path_pieces r)") (auto simp: filter_empty_conv)
  then show ?thesis unfolding of_bool_eq_0_iff [THEN iffD2, OF False] by simp
qed

lemma normalize_length: "length (normalize_autonomy_path value) \<le> length value"
proof -
  let ?r = "raw_path value"
  have r: "length ?r \<le> length value"
    using length_trim [of "collapse_slashes (map (\<lambda>c. if c = backslash then slash else c) value)"]
      length_collapse [of "map (\<lambda>c. if c = backslash then slash else c) value"] by (simp add: raw_path_def)
  have "length (normalize_autonomy_path value) \<le> length ?r"
  proof (cases "kept_pieces ?r = []")
    case True
    then show ?thesis by (cases "?r") (auto simp: normalize_autonomy_path_def Let_def split: if_splits)
  next
    case False
    let ?a = "starts_with ?r [slash]" and ?t = "1 < length ?r \<and> ends_with ?r [slash]"
    have "length (normalize_autonomy_path value) \<le> of_bool ?a + length (join [slash] (kept_pieces ?r)) + of_bool ?t"
      by (simp add: normalize_autonomy_path_def Let_def)
    moreover have "Suc (length (join [slash] (kept_pieces ?r))) + (of_bool ?a + of_bool ?t) \<le> Suc (length ?r)"
      using length_kept [of ?r] empty_pieces [of ?r] length_join [OF False] by linarith
    ultimately show ?thesis by linarith
  qed
  with r show ?thesis by linarith
qed

text \<open>A normalized list of paths is left as it is.\<close>

lemma normalized_path_Inr:
  "normalized_path v = Inr p \<longleftrightarrow> trim v \<noteq> [] \<and> length v \<le> 1000 \<and> normalize_autonomy_path v \<noteq> [] \<and> p = normalize_autonomy_path v"
  by (auto simp: normalized_path_def)

lemma normalize_paths_Inr:
  assumes "normalize_autonomy_paths paths = Inr ps"
  shows "ps = sort (uniq (map normalize_autonomy_path (path_list paths)))"
    "length ps \<le> 64" "\<forall>v \<in> set (path_list paths). length v \<le> 1000 \<and> normalize_autonomy_path v \<noteq> []"
proof -
  let ?vs = "path_list paths"
  obtain ns where ns: "map normalized_path ?vs = map Inr ns" "ps = sort (uniq ns)" and len: "length ?vs \<le> 64"
    using assms by (auto simp: normalize_autonomy_paths_def collect_Inr split: if_splits sum.splits)
  have each: "length v \<le> 1000 \<and> normalize_autonomy_path v \<noteq> [] \<and> normalized_path v = Inr (normalize_autonomy_path v)"
    if "v \<in> set ?vs" for v
  proof -
    have "normalized_path v \<in> Inr ` set ns" using that arg_cong [OF ns(1), of set] by auto
    then show ?thesis by (auto simp: normalized_path_Inr)
  qed
  then have "map normalized_path ?vs = map Inr (map normalize_autonomy_path ?vs)" by simp
  then have nv: "ns = map normalize_autonomy_path ?vs"
    using ns(1) by (metis inj_map_eq_map inj_Inr)
  show "ps = sort (uniq (map normalize_autonomy_path ?vs))" using ns(2) nv by simp
  have "length (uniq ns) \<le> length ns"
    by (metis card_length distinct_card distinct_uniq set_uniq)
  moreover have "length ns = length ?vs" using nv by simp
  ultimately show "length ps \<le> 64" using ns(2) len by simp
  show "\<forall>v \<in> set ?vs. length v \<le> 1000 \<and> normalize_autonomy_path v \<noteq> []" using each by blast
qed

lemma normalize_paths_again:
  assumes "normalize_autonomy_paths paths = Inr ps" "\<forall>v \<in> set (path_list paths). spaceless v"
  shows "normalize_autonomy_paths (Some ps) = Inr ps" "\<forall>p \<in> set ps. p = normalize_autonomy_path p"
proof -
  note ps = normalize_paths_Inr [OF assms(1)]
  have sorted: "sort (uniq ps) = ps" unfolding ps(1) by (simp add: sorted_sort_id)
  have f: "normalized_path p = Inr p \<and> p = normalize_autonomy_path p" if "p \<in> set ps" for p
  proof -
    have "p \<in> normalize_autonomy_path ` set (path_list paths)" using that unfolding ps(1) by simp
    then obtain v where v: "v \<in> set (path_list paths)" "p = normalize_autonomy_path v" by blast
    have sp: "spaceless v" using assms(2) v(1) by blast
    have "trim p = p" "normalize_autonomy_path p = p" "p \<noteq> []" "length p \<le> 1000"
      using v ps(3) normalize_spaceless [OF sp] normalize_again [OF sp] normalize_length [of v]
      by (auto simp: trim_spaceless)
    then show ?thesis by (simp add: normalized_path_Inr)
  qed
  then have "map normalized_path ps = map Inr ps" by (intro map_cong) auto
  then have "collect (map normalized_path ps) = Inr ps" by (simp only: collect_map_Inr)
  with sorted ps(2) show "normalize_autonomy_paths (Some ps) = Inr ps"
    by (simp add: normalize_autonomy_paths_def path_list_def)
  show "\<forall>p \<in> set ps. p = normalize_autonomy_path p" using f by blast
qed

section \<open>Created requests: lemmas\<close>

lemma scope_fingerprint_Inr:
  assumes "create_scope_fingerprint hash r = Inr s"
  obtains t where "canonicalize_value max_context_bytes (JObj (scope_payload r)) = Inr t" "s = hash t"
  using assms by (auto simp: create_scope_fingerprint_def map_sum_Inr)

lemma request_fingerprint_Inr:
  assumes "create_request_fingerprint hash r = Inr q"
  obtains t where "canonicalize_value max_context_bytes (JObj (scope_payload r @ [(''policy'', policy_json (dr_policy r))])) = Inr t"
    "q = hash t"
  using assms by (auto simp: create_request_fingerprint_def map_sum_Inr)

lemma fingerprints_cong:
  "scope_payload r = scope_payload s \<Longrightarrow> dr_policy r = dr_policy s \<Longrightarrow>
   create_scope_fingerprint hash r = create_scope_fingerprint hash s \<and> create_request_fingerprint hash r = create_request_fingerprint hash s"
  by (simp add: create_scope_fingerprint_def create_request_fingerprint_def)

lemma same_scope_payload: "same_scope r s \<longleftrightarrow> scope_payload r = scope_payload s"
proof
  assume "scope_payload r = scope_payload s"
  then show "same_scope r s"
    by (auto simp: scope_payload_def same_scope_def category_text_inject inj_map_eq_map inj_def)
qed (simp add: same_scope_def scope_payload_def)

text \<open>Rebuilding a created request from its own fields gives the same fingerprints.\<close>

lemma rebuilt:
  assumes "create_autonomy_decision_request hash num i = Inr r" "json_parse num (dr_normalizedArgs r) = Some args"
    and "canonicalize_value max_argument_bytes args = Inr (dr_normalizedArgs r)"
    and "normalize_autonomy_paths (Some (dr_paths r)) = Inr (dr_paths r)"
  shows "is_autonomy_decision_request hash num r"
proof -
  note c = create_Inr [OF assms(1)]
  let ?i = "\<lparr>di_operation = dr_operation r, di_category = dr_category r, di_sourceId = dr_sourceId r,
    di_runId = dr_runId r, di_sessionId = dr_sessionId r, di_actorId = dr_actorId r, di_capabilityId = dr_capabilityId r,
    di_paths = Some (dr_paths r), di_arguments = Some args, di_policy = dr_policy r\<rparr>"
  let ?base = "r\<lparr>dr_scopeFingerprint := [], dr_requestFingerprint := []\<rparr>"
  have base: "\<lparr>dr_operation = dr_operation r, dr_category = dr_category r, dr_sourceId = dr_sourceId r, dr_runId = dr_runId r,
      dr_sessionId = dr_sessionId r, dr_actorId = dr_actorId r, dr_capabilityId = dr_capabilityId r, dr_paths = dr_paths r,
      dr_normalizedArgs = dr_normalizedArgs r, dr_policy = dr_policy r, dr_scopeFingerprint = [], dr_requestFingerprint = []\<rparr> = ?base"
    by simp
  have "create_scope_fingerprint hash ?base = Inr (dr_scopeFingerprint r)"
    "create_request_fingerprint hash ?base = Inr (dr_requestFingerprint r)"
    using c(12,13) fingerprints_cong [of ?base r hash] by simp_all
  then have "create_autonomy_decision_request hash num ?i = Inr r"
    using c(11,14) assms(3,4) by (simp add: create_autonomy_decision_request_def base)
  then show ?thesis using assms(2) by (simp add: is_autonomy_decision_request_def)
qed

lemma created_parts:
  assumes "create_autonomy_decision_request hash num i = Inr r"
    and "\<And>v. di_arguments i = Some v \<Longrightarrow> json_ok num v" "\<forall>p \<in> set (path_list (di_paths i)). spaceless p"
  shows "canonical_text num max_argument_bytes (dr_normalizedArgs r)" "is_autonomy_decision_request hash num r"
    "\<forall>p \<in> set (dr_paths r). p = normalize_autonomy_path p" "sort (dr_paths r) = dr_paths r" "length (dr_paths r) \<le> 64"
proof -
  note c = create_Inr [OF assms(1)]
  have "json_ok num (case di_arguments i of None \<Rightarrow> JNull | Some v \<Rightarrow> v)"
    using assms(2) by (cases "di_arguments i") simp_all
  with c(10) obtain w where w: "json_parse num (dr_normalizedArgs r) = Some w"
    "canonicalize_value max_argument_bytes w = Inr (dr_normalizedArgs r)" by (rule canonicalize_parse)
  then show "canonical_text num max_argument_bytes (dr_normalizedArgs r)" by (simp add: canonical_text_def)
  note paths = normalize_paths_again [OF c(9) assms(3)]
  show "is_autonomy_decision_request hash num r" by (rule rebuilt [OF assms(1) w paths(1)])
  show "\<forall>p \<in> set (dr_paths r). p = normalize_autonomy_path p" by (rule paths(2))
  show "sort (dr_paths r) = dr_paths r" "length (dr_paths r) \<le> 64"
    using normalize_paths_Inr [OF c(9)] by (simp_all add: sorted_sort_id)
qed

text \<open>Equal fingerprints come from equal requests.\<close>

lemma fingerprints_bind:
  assumes "\<And>x y. hash x = hash y \<Longrightarrow> x = y"
    and "create_autonomy_decision_request hash num i = Inr r" "create_autonomy_decision_request hash num j = Inr s"
  shows "(dr_requestFingerprint r = dr_requestFingerprint s \<longleftrightarrow> r = s)
    \<and> (dr_scopeFingerprint r = dr_scopeFingerprint s \<longleftrightarrow> same_scope r s)"
proof -
  note r = create_Inr [OF assms(2)] and s = create_Inr [OF assms(3)]
  have scope: "dr_scopeFingerprint r = dr_scopeFingerprint s \<longleftrightarrow> same_scope r s"
  proof
    assume eq: "dr_scopeFingerprint r = dr_scopeFingerprint s"
    obtain t where t: "canonicalize_value max_context_bytes (JObj (scope_payload r)) = Inr t" "dr_scopeFingerprint r = hash t"
      using r(12) by (rule scope_fingerprint_Inr)
    obtain u where u: "canonicalize_value max_context_bytes (JObj (scope_payload s)) = Inr u" "dr_scopeFingerprint s = hash u"
      using s(12) by (rule scope_fingerprint_Inr)
    have "t = u" using eq t(2) u(2) assms(1) by metis
    then have "same_json (JObj (scope_payload r)) (JObj (scope_payload s))"
      using canonicalize_inject [OF t(1) _ payload_ok(1) payload_ok(1)] u(1) by blast
    then show "same_scope r s" by (intro payload_member) (rule same_member)
  next
    assume "same_scope r s"
    then have "create_scope_fingerprint hash r = create_scope_fingerprint hash s"
      by (simp add: same_scope_payload create_scope_fingerprint_def)
    then show "dr_scopeFingerprint r = dr_scopeFingerprint s" using r(12) s(12) by simp
  qed
  have "r = s" if eq: "dr_requestFingerprint r = dr_requestFingerprint s"
  proof -
    obtain t where t: "canonicalize_value max_context_bytes (JObj (scope_payload r @ [(''policy'', policy_json (dr_policy r))])) = Inr t"
      "dr_requestFingerprint r = hash t" using r(13) by (rule request_fingerprint_Inr)
    obtain u where u: "canonicalize_value max_context_bytes (JObj (scope_payload s @ [(''policy'', policy_json (dr_policy s))])) = Inr u"
      "dr_requestFingerprint s = hash u" using s(13) by (rule request_fingerprint_Inr)
    have "t = u" using eq t(2) u(2) assms(1) by metis
    then have same: "same_scope r s \<and> dr_policy r = dr_policy s"
      using canonicalize_inject [OF t(1) _ payload_ok(3) payload_ok(3)] u(1) same_payload by blast
    then have "dr_scopeFingerprint r = dr_scopeFingerprint s" using scope by simp
    with same eq show "r = s" by (simp add: same_scope_def)
  qed
  then show ?thesis using scope by blast
qed

text \<open>A decision on a created request can be recorded.\<close>

lemma created_recordable:
  assumes "create_autonomy_decision_request hash num i = Inr r"
    and "valid_hash (dr_scopeFingerprint r) \<and> valid_hash (dr_requestFingerprint r)"
    and "\<And>v. di_arguments i = Some v \<Longrightarrow> json_ok num v" "\<forall>p \<in> set (path_list (di_paths i)). spaceless p"
    and "valid_decision_id decisionId" "valid_id actorId" "valid_evidence evidence"
    and "valid_iso createdAt" "valid_iso expiresAt" "within_ttl createdAt expiresAt"
  shows "is_autonomy_decision_request hash num r
    \<and> (\<exists>d. build_persisted_decision hash num decisionId decision r actorId evidence createdAt expiresAt = Inr d
         \<and> is_persisted_decision hash num d \<and> dd_request d = r \<and> dd_decision d = decision)"
proof -
  note c = create_Inr [OF assms(1)]
  note parts = created_parts [OF assms(1,3,4)]
  have ctx: "canonical_text num max_context_bytes (ab_context (dr_policy r))"
    using c(11) by (simp add: valid_binding_def canonical_text_def)
  have "is_persisted_decision hash num \<lparr>dd_decisionId = decisionId, dd_decision = decision, dd_request = r,
      dd_actorId = actorId, dd_evidenceRef = evidence, dd_createdAt = createdAt, dd_expiresAt = expiresAt\<rparr>"
    using c(11,14) parts ctx assms(2,5-10)
    by (simp add: is_persisted_decision_def Let_def valid_binding_def list_all_iff)
  then show ?thesis
    using parts(2) assms(5-10) by (simp add: build_persisted_decision_def)
qed

lemma created_hashes:
  assumes "create_autonomy_decision_request hash num i = Inr r" "\<And>x. valid_hash (hash x)"
  shows "valid_hash (dr_scopeFingerprint r) \<and> valid_hash (dr_requestFingerprint r)"
proof -
  note c = create_Inr [OF assms(1)]
  obtain t u where "dr_scopeFingerprint r = hash t" "dr_requestFingerprint r = hash u"
    using c(12,13) by (meson scope_fingerprint_Inr request_fingerprint_Inr)
  then show ?thesis using assms(2) by simp
qed

section \<open>Properties\<close>

text \<open>
  C36. Canonical texts are equal just when the values are: objects are compared member by member
  whatever the order of their keys, and nothing else is identified.
\<close>

theorem canonical_text_exact:
  assumes "canonicalize_value n v = Inr t" "canonicalize_value m w = Inr u" "json_ok num v" "json_ok num w"
  shows "t = u \<longleftrightarrow> same_json v w"
  using canonicalize_Inr [OF assms(1)] canonicalize_Inr [OF assms(2)] sorted_text_inject [OF assms(3,4)] by simp

text \<open>
  A canonical text reads back as the value it was made from, up to the order of keys, and
  canonicalizing what was read gives the same text again.
\<close>

theorem canonical_text_round_trip:
  assumes "canonicalize_value n v = Inr t" "json_ok num v"
  shows "\<exists>w. json_parse num t = Some w \<and> same_json v w \<and> canonicalize_value n w = Inr t"
  using assms by (rule canonicalize_parse) blast

text \<open>
  C22. The fingerprints bind exactly what was asked: with a hash that has no collisions two created
  requests have the same request fingerprint only if they are the same request, and the same scope
  fingerprint only if they agree in everything but the policy.
\<close>

theorem request_fingerprint_exact:
  assumes "\<And>x y. hash x = hash y \<Longrightarrow> x = y"
    and "create_autonomy_decision_request hash num i = Inr r" "create_autonomy_decision_request hash num j = Inr s"
  shows "(dr_requestFingerprint r = dr_requestFingerprint s \<longleftrightarrow> r = s)
    \<and> (dr_scopeFingerprint r = dr_scopeFingerprint s \<longleftrightarrow> same_scope r s)"
  using assms by (rule fingerprints_bind)

text \<open>
  A request that is built is accepted by its own validator, and a decision on it can be recorded:
  for paths without white space and arguments that are JSON, the record of any decision with a
  well-formed identity, evidence and an expiry within a day passes the check of the next read.
\<close>

theorem created_request_recordable:
  assumes "create_autonomy_decision_request hash num i = Inr r" "\<And>x. valid_hash (hash x)"
    and "\<And>v. di_arguments i = Some v \<Longrightarrow> json_ok num v" "\<forall>p \<in> set (path_list (di_paths i)). spaceless p"
    and "valid_decision_id decisionId" "valid_id actorId" "valid_evidence evidence"
    and "valid_iso createdAt" "valid_iso expiresAt" "within_ttl createdAt expiresAt"
  shows "is_autonomy_decision_request hash num r
    \<and> (\<exists>d. build_persisted_decision hash num decisionId decision r actorId evidence createdAt expiresAt = Inr d
         \<and> is_persisted_decision hash num d \<and> dd_request d = r \<and> dd_decision d = decision)"
  using assms(1) created_hashes [OF assms(1,2)] assms(3-) by (rule created_recordable)

text \<open>
  Normalizing a path never hides an escape: a \<^verbatim>\<open>..\<close> segment of the path, with slashes or
  backslashes, is still a segment of the normalized path, also when white space is trimmed.
\<close>

theorem path_escape_visible:
  assumes "dot_dot \<in> set (split_on (\<lambda>c. c = slash \<or> c = backslash) value)"
  shows "dot_dot \<in> set (path_pieces (normalize_autonomy_path value))"
  using assms by (rule escape_kept)

text \<open>
  Finding: the bound of 32 KiB on the arguments cannot be used. The canonical text of the
  arguments is itself a string of the fingerprinted payload, where strings are limited to 16000
  characters, so a request with longer arguments is never created.
\<close>

theorem long_arguments_refused:
  assumes "di_arguments i = Some v" "canonicalize_value max_argument_bytes v = Inr t" "16000 < length t"
  shows "\<exists>e. create_autonomy_decision_request hash num i = Inl e"
proof (cases "create_autonomy_decision_request hash num i")
  case (Inr r)
  note c = create_Inr [OF Inr]
  have long: "16000 < length (dr_normalizedArgs r)" using c(10) assms by simp
  from c(12) obtain u where "canonicalize_value max_context_bytes (JObj (scope_payload r)) = Inr u"
    by (rule scope_fingerprint_Inr)
  then have "canonical_value 0 (JObj (scope_payload r)) = Inr u" by (blast dest: canonicalize_Inr)
  then obtain ts where
    "map (\<lambda>(k, w). map_sum id (member_text k) (canonical_value 1 w)) (sort_key fst (scope_payload r)) = map Inr ts"
    by (auto simp: canonical_value.simps [of 0] map_sum_Inr collect_Inr)
  moreover have "(''normalizedArgs'', JStr (dr_normalizedArgs r)) \<in> set (sort_key fst (scope_payload r))"
    by (simp add: scope_payload_def)
  ultimately have "map_sum id (member_text ''normalizedArgs'') (canonical_value 1 (JStr (dr_normalizedArgs r))) \<in> set (map Inr ts)"
    by (metis (no_types, lifting) case_prod_conv image_eqI list.set_map)
  then have "\<exists>x. canonical_value 1 (JStr (dr_normalizedArgs r)) = Inr x"
    by (auto simp: map_sum_Inr elim!: sym [THEN map_sum_Inr [THEN iffD1], elim_format])
  then show ?thesis using long by (simp add: canonical_value.simps [of "Suc 0"])
qed simp

text \<open>
  Finding: the directory itself with a trailing slash becomes the root of the file system, so that
  a request for the one has the fingerprint of a request for the other; and a leading dot segment
  can leave a path that normalizes differently a second time, so that no decision on it is
  ever recorded.
\<close>

lemma dot_slash_is_root:
  "normalize_autonomy_path ''./'' = normalize_autonomy_path [slash]"
  "normalize_autonomy_path ''./ a'' = '' a''" "normalize_autonomy_path '' a'' = ''a''"
  by code_simp+

section \<open>A concrete request\<close>

definition sample_policy_text :: string where
  "sample_policy_text = policy_text ''r16.2'' ''null''"

definition sample_digest :: string where
  "sample_digest = replicate 64 (CHR ''b'')"

definition swap_hash :: "string \<Rightarrow> string" where
  "swap_hash x = (if x = sample_policy_text then sample_digest else if x = sample_digest then sample_policy_text else x)"

lemma swap_hash_inject: "swap_hash x = swap_hash y \<Longrightarrow> x = y"
  by (auto simp: swap_hash_def split: if_splits)

definition sample_decision_input :: "string \<Rightarrow> decision_input" where
  "sample_decision_input path =
     \<lparr>di_operation = ''write_file'', di_category = CatWrite, di_sourceId = ''src'', di_runId = ''run'',
      di_sessionId = ''ses'', di_actorId = ''os-user:501'', di_capabilityId = ''workbench-core'', di_paths = Some [path],
      di_arguments = Some (JObj [(''b'', JNum ''1''), (''a'', JArr [JStr ''x'', JNull])]),
      di_policy = \<lparr>ab_version = ''r16.2'', ab_fingerprint = sample_digest, ab_context = ''null''\<rparr>\<rparr>"

definition sample_evidence :: evidence_reference where
  "sample_evidence = \<lparr>er_evidenceId = ''e1'', er_kind = ''diff'', er_reference = ''log/1'', er_recordedAt = noon\<rparr>"

definition sample_args_text :: string where
  "sample_args_text = object_text [member_text ''a'' (array_text [string_text ''x'', ''null'']), member_text ''b'' ''1'']"

lemma sample_sizes:
  "length sample_args_text = 22" "utf8_length sample_args_text = 22" "length sample_digest = 64" "utf8_length ''null'' = 4"
  by code_simp+

lemma sample_arguments:
  "canonicalize_value max_argument_bytes (JObj [(''b'', JNum ''1''), (''a'', JArr [JStr ''x'', JNull])]) = Inr sample_args_text"
  "canonicalize_value max_argument_bytes (JObj [(''a'', JArr [JStr ''x'', JNull]), (''b'', JNum ''1'')]) = Inr sample_args_text"
  using sample_sizes(2) by (simp_all add: canonicalize_value_def canonical_value.simps max_argument_bytes_def sample_args_text_def)

lemma sample_numbers: "json_ok id (JObj [(''b'', JNum ''1''), (''a'', JArr [JStr ''x'', JNull])])"
  "json_ok id (JObj [(''a'', JArr [JStr ''x'', JNull]), (''b'', JNum ''1'')])"
  by code_simp+

text \<open>The members of the fingerprinted payloads, in the order of their keys.\<close>

definition sample_head :: "string \<Rightarrow> string list" where
  "sample_head path =
     [member_text ''actorId'' (string_text ''os-user:501''), member_text ''capabilityId'' (string_text ''workbench-core''),
      member_text ''category'' (string_text ''write''), member_text ''normalizedArgs'' (string_text sample_args_text),
      member_text ''operation'' (string_text ''write_file''), member_text ''paths'' (array_text [string_text path])]"

definition sample_policy_member :: string where
  "sample_policy_member = member_text ''policy'' (object_text [member_text ''context'' (string_text ''null''),
     member_text ''fingerprint'' (string_text sample_digest), member_text ''version'' (string_text ''r16.2'')])"

definition sample_tail :: "string list" where
  "sample_tail = [member_text ''runId'' (string_text ''run''), member_text ''sessionId'' (string_text ''ses''),
     member_text ''sourceId'' (string_text ''src'')]"

definition sample_base :: "string \<Rightarrow> decision_request" where
  "sample_base path = \<lparr>dr_operation = ''write_file'', dr_category = CatWrite, dr_sourceId = ''src'', dr_runId = ''run'',
      dr_sessionId = ''ses'', dr_actorId = ''os-user:501'', dr_capabilityId = ''workbench-core'', dr_paths = [path],
      dr_normalizedArgs = sample_args_text,
      dr_policy = \<lparr>ab_version = ''r16.2'', ab_fingerprint = sample_digest, ab_context = ''null''\<rparr>,
      dr_scopeFingerprint = [], dr_requestFingerprint = []\<rparr>"

lemma sample_scope_value:
  "length path \<le> 16000 \<Longrightarrow> canonical_value 0 (JObj (scope_payload (sample_base path))) = Inr (object_text (sample_head path @ sample_tail))"
  by (simp add: canonical_value.simps scope_payload_def sample_base_def sample_head_def sample_tail_def sample_sizes)

lemma sample_request_value:
  "length path \<le> 16000 \<Longrightarrow> canonical_value 0 (JObj (scope_payload (sample_base path) @ [(''policy'', policy_json (dr_policy (sample_base path)))]))
     = Inr (object_text (sample_head path @ sample_policy_member # sample_tail))"
  by (simp add: canonical_value.simps scope_payload_def policy_json_def sample_base_def sample_head_def sample_tail_def
      sample_policy_member_def sample_sizes)

lemma sample_payload_sizes:
  "list_all (\<lambda>path. utf8_length (object_text (sample_head path @ sample_tail)) < 500
     \<and> utf8_length (object_text (sample_head path @ sample_policy_member # sample_tail)) < 500) [''src/a'', ''src/b'']"
  by code_simp

lemma sample_fingerprints:
  assumes "path \<in> set [''src/a'', ''src/b'']"
  shows "create_scope_fingerprint hash (sample_base path) = Inr (hash (object_text (sample_head path @ sample_tail)))"
    "create_request_fingerprint hash (sample_base path) = Inr (hash (object_text (sample_head path @ sample_policy_member # sample_tail)))"
proof -
  have short: "length path \<le> 16000" using assms by auto
  have "utf8_length (object_text (sample_head path @ sample_tail)) < 500
     \<and> utf8_length (object_text (sample_head path @ sample_policy_member # sample_tail)) < 500"
    using sample_payload_sizes assms unfolding list_all_iff by (rule bspec)
  then show "create_scope_fingerprint hash (sample_base path) = Inr (hash (object_text (sample_head path @ sample_tail)))"
    "create_request_fingerprint hash (sample_base path) = Inr (hash (object_text (sample_head path @ sample_policy_member # sample_tail)))"
    unfolding create_scope_fingerprint_def create_request_fingerprint_def canonicalize_value_def
      sample_scope_value [OF short] sample_request_value [OF short]
    by (simp_all add: max_context_bytes_def)
qed

lemma sample_ids:
  "list_all valid_id [''write_file'', ''src'', ''run'', ''ses'', ''os-user:501'', ''workbench-core'', ''r16.2'']"
  "valid_hash sample_digest" "json_parse id ''null'' = Some JNull"
  by code_simp+

lemma sample_binding_valid:
  "hash sample_policy_text = sample_digest \<Longrightarrow>
     valid_binding hash id \<lparr>ab_version = ''r16.2'', ab_fingerprint = sample_digest, ab_context = ''null''\<rparr>"
  using sample_ids sample_sizes(4)
  by (simp add: valid_binding_def canonicalize_value_def canonical_value.simps max_context_bytes_def sample_policy_text_def)

lemma sample_paths: "list_all (\<lambda>path. normalize_autonomy_paths (Some [path]) = Inr [path]) [''src/a'', ''src/b'']"
  by code_simp

lemma sample_create:
  assumes "hash sample_policy_text = sample_digest" "path \<in> set [''src/a'', ''src/b'']"
  shows "create_autonomy_decision_request hash id (sample_decision_input path) = Inr ((sample_base path)
     \<lparr>dr_scopeFingerprint := hash (object_text (sample_head path @ sample_tail)),
      dr_requestFingerprint := hash (object_text (sample_head path @ sample_policy_member # sample_tail))\<rparr>)"
proof -
  have paths: "normalize_autonomy_paths (Some [path]) = Inr [path]"
    using sample_paths assms(2) unfolding list_all_iff by (rule bspec)
  note fingerprints = sample_fingerprints [OF assms(2), of hash, unfolded sample_base_def]
  show ?thesis
    using sample_ids(1) sample_arguments(1) sample_binding_valid [where hash = hash, OF assms(1)] paths fingerprints
    by (simp add: create_autonomy_decision_request_def sample_decision_input_def sample_base_def)
qed

theorem canonical_text_exact_witness:
  "same_json (JObj [(''b'', JNum ''1''), (''a'', JArr [JStr ''x'', JNull])]) (JObj [(''a'', JArr [JStr ''x'', JNull]), (''b'', JNum ''1'')])"
  using canonical_text_exact [OF sample_arguments sample_numbers] by simp

theorem canonical_text_round_trip_witness:
  "\<exists>w. json_parse id sample_args_text = Some w
     \<and> same_json (JObj [(''b'', JNum ''1''), (''a'', JArr [JStr ''x'', JNull])]) w"
  using canonical_text_round_trip [OF sample_arguments(1) sample_numbers(1)] by blast

lemma swap_policy: "swap_hash sample_policy_text = sample_digest"
  by (simp add: swap_hash_def)

theorem request_fingerprint_exact_witness:
  "\<exists>r s. create_autonomy_decision_request swap_hash id (sample_decision_input ''src/a'') = Inr r
     \<and> create_autonomy_decision_request swap_hash id (sample_decision_input ''src/b'') = Inr s
     \<and> dr_requestFingerprint r \<noteq> dr_requestFingerprint s \<and> dr_scopeFingerprint r \<noteq> dr_scopeFingerprint s"
proof -
  obtain r s where r: "create_autonomy_decision_request swap_hash id (sample_decision_input ''src/a'') = Inr r" "dr_paths r = [''src/a'']"
    and s: "create_autonomy_decision_request swap_hash id (sample_decision_input ''src/b'') = Inr s" "dr_paths s = [''src/b'']"
    using sample_create [where hash = swap_hash, OF swap_policy, of "''src/a''"]
      sample_create [where hash = swap_hash, OF swap_policy, of "''src/b''"]
    by (simp add: sample_base_def)
  have "\<not> same_scope r s" using r(2) s(2) by (simp add: same_scope_def)
  then show ?thesis using request_fingerprint_exact [OF swap_hash_inject r(1) s(1)] r(1) s(1)
    by (intro exI [of _ r] exI [of _ s]) (auto simp: same_scope_def)
qed

definition flat_hash :: "string \<Rightarrow> string" where
  "flat_hash x = sample_digest"

lemma sample_recordable:
  "spaceless ''src/a''" "valid_decision_id ''autonomy-decision-1''" "valid_id ''os-user:501''" "valid_evidence sample_evidence"
  "valid_iso noon" "valid_iso ''2026-01-01T12:15:00.000Z''" "within_ttl noon ''2026-01-01T12:15:00.000Z''"
  by code_simp+

lemma flat_hash_valid: "valid_hash (flat_hash x)"
  by (simp add: flat_hash_def sample_ids)

lemma sample_plain:
  "di_arguments (sample_decision_input ''src/a'') = Some v \<Longrightarrow> json_ok id v"
  "\<forall>p \<in> set (path_list (di_paths (sample_decision_input ''src/a''))). spaceless p"
  using sample_numbers(1) sample_recordable(1) by (auto simp: sample_decision_input_def path_list_def)

theorem created_request_recordable_witness:
  "\<exists>r d. create_autonomy_decision_request flat_hash id (sample_decision_input ''src/a'') = Inr r
     \<and> build_persisted_decision flat_hash id ''autonomy-decision-1'' DecisionApproved r ''os-user:501'' sample_evidence noon
         ''2026-01-01T12:15:00.000Z'' = Inr d"
proof -
  obtain r where r: "create_autonomy_decision_request flat_hash id (sample_decision_input ''src/a'') = Inr r"
    using sample_create [of flat_hash "''src/a''"] by (simp add: flat_hash_def)
  show ?thesis
    using created_request_recordable [OF r flat_hash_valid sample_plain sample_recordable(2-), of DecisionApproved] r by blast
qed

theorem path_escape_visible_witness:
  "dot_dot \<in> set (path_pieces (normalize_autonomy_path (''./a'' @ [backslash] @ ''..'' @ [backslash] @ ''b'')))"
proof (rule path_escape_visible)
  show "dot_dot \<in> set (split_on (\<lambda>c. c = slash \<or> c = backslash) (''./a'' @ [backslash] @ ''..'' @ [backslash] @ ''b''))"
    by code_simp
qed

theorem long_arguments_refused_witness:
  "\<exists>e. create_autonomy_decision_request sample_hash id
     ((sample_decision_input ''src/a'')\<lparr>di_arguments := Some (JNum (replicate 16001 (CHR ''1'')))\<rparr>) = Inl e"
proof (rule long_arguments_refused)
  have "utf8_length (replicate n (CHR ''1'')) = n" for n by (induction n) (simp_all add: utf8_length_def)
  then show "canonicalize_value max_argument_bytes (JNum (replicate 16001 (CHR ''1''))) = Inr (replicate 16001 (CHR ''1''))"
    by (simp add: canonicalize_value_def canonical_value.simps max_argument_bytes_def)
qed simp_all

end
