(* ===== verification/Decision_Store.thy ===== *)
theory Decision_Store
  imports Autonomy_Decision
begin

text \<open>
  \<^verbatim>\<open>packages/cli/src/agent/autonomy-decision-store.ts\<close>: the file of persisted decisions. It is
  read whole or not at all; a decision is saved only when no unexpired decision on exactly the
  same request stands, and no unexpired one on the same scope under another policy. The lock is
  retried for a quarter of a second, of which the model keeps the outcome. \<open>dw_hash\<close> is SHA-256,
  \<open>dw_num\<close> the number conversion of \<^verbatim>\<open>Json\<close> and \<open>dw_cmp\<close> the function \<^verbatim>\<open>localeCompare\<close>.
\<close>

section \<open>The file\<close>

record decision_world =
  dw_hash :: "string \<Rightarrow> string"
  dw_num :: "string \<Rightarrow> string"
  dw_cmp :: "string \<Rightarrow> string \<Rightarrow> int"
  dw_maxRecords :: "int option"

type_synonym decision_disk = "(string \<times> decision_record list) disk"

datatype decision_failure =
    DecisionInvalid string | DecisionStoreBusy | DecisionStoreCorrupt | DecisionStoreUnavailable
  | DecisionConflict | DecisionStoreFull | DecisionWriteFailed

definition default_max_records :: int where "default_max_records = 500"

definition max_store_bytes :: nat where "max_store_bytes = 2 * 1024 * 1024"

definition decision_retention :: int where "decision_retention = 7 * 24 * 60 * 60000"

definition max_decisions :: "decision_world \<Rightarrow> nat" where
  "max_decisions w =
     nat (min default_max_records (max 1 (case dw_maxRecords w of
       None \<Rightarrow> default_max_records | Some n \<Rightarrow> if n = 0 then default_max_records else n)))"

text \<open>The bytes of the file: the text of the records as they are built.\<close>

primrec decision_text :: "decision_value \<Rightarrow> string" where
  "decision_text DecisionApproved = ''APPROVED''"
| "decision_text DecisionDenied = ''DENIED''"

definition evidence_json :: "evidence_reference \<Rightarrow> json" where
  "evidence_json e =
     JObj [(''evidenceId'', JStr (er_evidenceId e)), (''kind'', JStr (er_kind e)),
           (''reference'', JStr (er_reference e)), (''recordedAt'', JStr (er_recordedAt e))]"

definition record_json :: "decision_record \<Rightarrow> json" where
  "record_json d =
     (let r = dd_request d in
      JObj [(''schemaVersion'', JNum ''1''), (''decisionId'', JStr (dd_decisionId d)),
            (''decision'', JStr (decision_text (dd_decision d))), (''operation'', JStr (dr_operation r)),
            (''category'', JStr (category_text (dr_category r))), (''sourceId'', JStr (dr_sourceId r)),
            (''runId'', JStr (dr_runId r)), (''sessionId'', JStr (dr_sessionId r)), (''actorId'', JStr (dd_actorId d)),
            (''requestActorId'', JStr (dr_actorId r)), (''capabilityId'', JStr (dr_capabilityId r)),
            (''paths'', JArr (map JStr (dr_paths r))), (''normalizedArgs'', JStr (dr_normalizedArgs r)),
            (''policy'', policy_json (dr_policy r)), (''scopeFingerprint'', JStr (dr_scopeFingerprint r)),
            (''requestFingerprint'', JStr (dr_requestFingerprint r)), (''evidenceRef'', evidence_json (dd_evidenceRef d)),
            (''createdAt'', JStr (dd_createdAt d)), (''expiresAt'', JStr (dd_expiresAt d))])"

definition store_bytes :: "string \<Rightarrow> decision_record list \<Rightarrow> nat" where
  "store_bytes updatedAt ds =
     utf8_length (json_text (JObj [(''version'', JNum ''1''), (''updatedAt'', JStr updatedAt),
       (''decisions'', JArr (map record_json ds))]))"

text \<open>No identifier twice, no two decisions on one request that contradict each other.\<close>

fun consistent :: "string list \<Rightarrow> (string \<times> decision_value) list \<Rightarrow> decision_record list \<Rightarrow> bool" where
  "consistent ids seen [] = True"
| "consistent ids seen (d # ds) =
     (dd_decisionId d \<notin> set ids
      \<and> (case map_of seen (dr_requestFingerprint (dd_request d)) of None \<Rightarrow> True | Some v \<Rightarrow> v = dd_decision d)
      \<and> consistent (dd_decisionId d # ids) ((dr_requestFingerprint (dd_request d), dd_decision d) # seen) ds)"

definition read_decisions ::
  "decision_world \<Rightarrow> bool \<Rightarrow> decision_disk \<Rightarrow> decision_failure + decision_record list" where
  "read_decisions w private d =
     (case d of
        NoFile \<Rightarrow> Inr []
      | BadFile \<Rightarrow> Inl (if private then DecisionStoreCorrupt else DecisionStoreUnavailable)
      | Stored (updatedAt, ds) \<Rightarrow>
          if \<not> private then Inl DecisionStoreUnavailable
          else if date_parse updatedAt = None \<or> max_decisions w < length ds
            \<or> \<not> list_all (is_persisted_decision (dw_hash w) (dw_num w)) ds
          then Inl DecisionStoreCorrupt
          else if \<not> consistent [] [] ds then Inl DecisionStoreCorrupt
          else if max_store_bytes < store_bytes updatedAt ds then Inl DecisionStoreCorrupt
          else Inr ds)"

definition record_order :: "decision_world \<Rightarrow> decision_record \<Rightarrow> decision_record \<Rightarrow> int" where
  "record_order w a b =
     (let byTime = dw_cmp w (dd_createdAt a) (dd_createdAt b) in
      if byTime \<noteq> 0 then byTime else dw_cmp w (dd_decisionId a) (dd_decisionId b))"

definition persist_decisions ::
  "decision_world \<Rightarrow> io_env \<Rightarrow> decision_record list \<Rightarrow> decision_disk \<Rightarrow> decision_disk \<times> bool" where
  "persist_decisions w e ds d =
     (let retained = js_sort (record_order w) ds in
      if max_decisions w < length retained \<or> max_store_bytes < store_bytes (io_saveNow e) retained then (d, False)
      else write_disk e (io_saveNow e, retained) d)"

text \<open>A callback answers, and writes the list when it leaves one.\<close>

definition with_decisions ::
  "decision_world \<Rightarrow> io_env \<Rightarrow> bool \<Rightarrow> decision_disk
   \<Rightarrow> (decision_record list \<Rightarrow> (decision_failure + 'a) \<times> decision_record list option)
   \<Rightarrow> decision_disk \<times> (decision_failure + 'a)" where
  "with_decisions w e private d callback =
     (case io_lock e of
        LockBusy \<Rightarrow> (d, Inl DecisionStoreBusy)
      | LockFailed \<Rightarrow> (d, Inl DecisionWriteFailed)
      | LockTaken \<Rightarrow>
          (case read_decisions w private d of
             Inl f \<Rightarrow> (d, Inl f)
           | Inr ds \<Rightarrow>
               (case callback ds of
                  (answer, None) \<Rightarrow> (d, answer)
                | (answer, Some ds') \<Rightarrow>
                    (let (d', ok) = persist_decisions w e ds' d
                     in (d', if ok then answer else Inl DecisionWriteFailed)))))"

section \<open>Operations\<close>

definition decision_expired :: "decision_record \<Rightarrow> string \<Rightarrow> bool" where
  "decision_expired d now =
     (case (date_parse (dd_expiresAt d), date_parse now) of (Some x, Some n) \<Rightarrow> x \<le> n | _ \<Rightarrow> False)"

definition old_expired :: "decision_record \<Rightarrow> string \<Rightarrow> bool" where
  "old_expired d now =
     (case (date_parse (dd_expiresAt d), date_parse now) of (Some x, Some n) \<Rightarrow> x + decision_retention \<le> n | _ \<Rightarrow> False)"

datatype decision_lookup =
    LookupNone | LookupMatched decision_record | LookupExpired decision_record | LookupPolicyChanged decision_record

definition lookup_autonomy_decision ::
  "decision_world \<Rightarrow> io_env \<Rightarrow> bool \<Rightarrow> decision_request \<Rightarrow> decision_disk
   \<Rightarrow> decision_disk \<times> (decision_failure + decision_lookup)" where
  "lookup_autonomy_decision w e private request d =
     with_decisions w e private d (\<lambda>ds.
       let now = io_bodyNow e in
       (Inr (case List.find (\<lambda>x. dr_requestFingerprint (dd_request x) = dr_requestFingerprint request) ds of
          Some exact \<Rightarrow> if decision_expired exact now then LookupExpired exact else LookupMatched exact
        | None \<Rightarrow>
            (case List.find (\<lambda>x. dr_scopeFingerprint (dd_request x) = dr_scopeFingerprint request
                     \<and> \<not> decision_expired x now) ds of
               Some prior \<Rightarrow> LookupPolicyChanged prior
             | None \<Rightarrow> LookupNone)), None))"

record save_input =
  sv_request :: decision_request
  sv_decision :: decision_value
  sv_evidenceRef :: evidence_reference
  sv_actorId :: string
  sv_createdAt :: "string option"
  sv_expiresAt :: string

fun remove_first :: "('a \<Rightarrow> bool) \<Rightarrow> 'a list \<Rightarrow> 'a list" where
  "remove_first p [] = []"
| "remove_first p (x # xs) = (if p x then xs else x # remove_first p xs)"

definition same_record :: "decision_record \<Rightarrow> decision_record \<Rightarrow> bool" where
  "same_record a b = (a\<lparr>dd_decisionId := dd_decisionId b\<rparr> = b)"

definition insert_decision ::
  "decision_world \<Rightarrow> string \<Rightarrow> decision_record \<Rightarrow> decision_record list
   \<Rightarrow> (decision_failure + bool \<times> decision_record) \<times> decision_record list option" where
  "insert_decision w now candidate ds =
     (let kept = filter (\<lambda>x. \<not> old_expired x now) ds in
      if max_decisions w \<le> length kept then (Inl DecisionStoreFull, None)
      else if (case List.find (\<lambda>x. dr_scopeFingerprint (dd_request x) = dr_scopeFingerprint (dd_request candidate)
                   \<and> \<not> decision_expired x now) kept of
                 None \<Rightarrow> False
               | Some prior \<Rightarrow> ab_fingerprint (dr_policy (dd_request prior))
                   \<noteq> ab_fingerprint (dr_policy (dd_request candidate)))
      then (Inl DecisionConflict, None)
      else (Inr (True, candidate), Some (kept @ [candidate])))"

definition save_candidate ::
  "decision_world \<Rightarrow> string \<Rightarrow> decision_record \<Rightarrow> decision_record list
   \<Rightarrow> (decision_failure + bool \<times> decision_record) \<times> decision_record list option" where
  "save_candidate w now candidate ds =
     (let exact = (\<lambda>x. dr_requestFingerprint (dd_request x) = dr_requestFingerprint (dd_request candidate)) in
      case List.find exact ds of
        None \<Rightarrow> insert_decision w now candidate ds
      | Some existing \<Rightarrow>
          if \<not> decision_expired existing now
          then (if dd_decision existing \<noteq> dd_decision candidate \<or> \<not> same_record existing candidate
                then (Inl DecisionConflict, None) else (Inr (False, existing), None))
          else insert_decision w now candidate (remove_first exact ds))"

definition save_autonomy_decision ::
  "decision_world \<Rightarrow> io_env \<Rightarrow> bool \<Rightarrow> save_input \<Rightarrow> decision_disk
   \<Rightarrow> decision_disk \<times> (decision_failure + bool \<times> decision_record)" where
  "save_autonomy_decision w e private p d =
     (case build_persisted_decision (dw_hash w) (dw_num w) (decision_prefix @ io_uuid e) (sv_decision p) (sv_request p)
             (sv_actorId p) (sv_evidenceRef p) (or_else (sv_createdAt p) (io_startNow e)) (sv_expiresAt p) of
        Inl message \<Rightarrow> (d, Inl (DecisionInvalid message))
      | Inr candidate \<Rightarrow> with_decisions w e private d (save_candidate w (io_bodyNow e) candidate))"

definition prune_autonomy_decisions ::
  "decision_world \<Rightarrow> io_env \<Rightarrow> bool \<Rightarrow> decision_disk \<Rightarrow> decision_disk \<times> (decision_failure + nat \<times> nat \<times> nat)" where
  "prune_autonomy_decisions w e private d =
     with_decisions w e private d (\<lambda>ds.
       let kept = filter (\<lambda>x. \<not> old_expired x (io_bodyNow e)) ds
       in (Inr (length ds, length ds - length kept, length kept), Some kept))"

definition list_autonomy_decisions ::
  "decision_world \<Rightarrow> bool \<Rightarrow> decision_disk \<Rightarrow> decision_failure + decision_record list" where
  "list_autonomy_decisions w private d = read_decisions w private d"

text \<open>Any operation of the store, for histories.\<close>

datatype decision_op = LookUp decision_request | Save save_input | Prune

primrec run_decision :: "decision_world \<Rightarrow> io_env \<Rightarrow> bool \<Rightarrow> decision_op \<Rightarrow> decision_disk \<Rightarrow> decision_disk" where
  "run_decision w e private (LookUp r) d = fst (lookup_autonomy_decision w e private r d)"
| "run_decision w e private (Save p) d = fst (save_autonomy_decision w e private p d)"
| "run_decision w e private Prune d = fst (prune_autonomy_decisions w e private d)"

type_synonym decision_history = "(io_env \<times> bool \<times> decision_op) list"

definition run_decisions :: "decision_world \<Rightarrow> decision_history \<Rightarrow> decision_disk \<Rightarrow> decision_disk" where
  "run_decisions w h d = foldl (\<lambda>d (e, private, oper). run_decision w e private oper d) d h"

section \<open>Lemmas\<close>

abbreviation fingerprint :: "decision_record \<Rightarrow> string" where
  "fingerprint x \<equiv> dr_requestFingerprint (dd_request x)"

lemma with_decisions_disk:
  assumes "fst (with_decisions w e private d callback) \<noteq> d"
  obtains ds answer ds' where "read_decisions w private d = Inr ds" "callback ds = (answer, Some ds')"
    "fst (with_decisions w e private d callback) = Stored (io_saveNow e, js_sort (record_order w) ds')"
    "length ds' \<le> max_decisions w" "store_bytes (io_saveNow e) (js_sort (record_order w) ds') \<le> max_store_bytes"
  using assms
  by (auto simp: with_decisions_def persist_decisions_def write_disk_def Let_def not_less
      split: lock_outcome.splits sum.splits prod.splits option.splits if_splits write_outcome.splits)

lemma with_decisions_Inr:
  assumes "with_decisions w e private d callback = (d', Inr v)"
  obtains (kept) ds where "read_decisions w private d = Inr ds" "callback ds = (Inr v, None)" "d' = d"
  | (written) ds ds' where "read_decisions w private d = Inr ds" "callback ds = (Inr v, Some ds')"
      "d' = Stored (io_saveNow e, js_sort (record_order w) ds')"
  using assms
  by (auto simp: with_decisions_def persist_decisions_def write_disk_def Let_def
      split: lock_outcome.splits sum.splits prod.splits option.splits if_splits write_outcome.splits)

lemma read_Inr:
  assumes "read_decisions w private d = Inr ds"
  shows "ds = [] \<or> (\<exists>u. d = Stored (u, ds))"
    and "list_all (is_persisted_decision (dw_hash w) (dw_num w)) ds" "consistent [] [] ds"
  using assms by (auto simp: read_decisions_def split: disk.splits if_splits)

lemma consistent_ids: "consistent ids seen ds \<Longrightarrow> distinct (map dd_decisionId ds) \<and> set ids \<inter> dd_decisionId ` set ds = {}"
  by (induction ids seen ds rule: consistent.induct) auto

lemma consistent_fresh:
  assumes "distinct (map dd_decisionId ds)" "set ids \<inter> dd_decisionId ` set ds = {}"
    and "distinct (map fingerprint ds)" "fst ` set seen \<inter> fingerprint ` set ds = {}"
  shows "consistent ids seen ds"
  using assms
proof (induction ids seen ds rule: consistent.induct)
  case (2 ids seen d ds)
  then have "map_of seen (fingerprint d) = None" by (auto simp: map_of_eq_None_iff)
  with 2 show ?case by auto
qed simp

lemma remove_first_subset: "set (remove_first p xs) \<subseteq> set xs"
  by (induction xs) auto

lemma remove_first_keeps: "x \<in> set xs \<Longrightarrow> List.find p xs \<noteq> Some x \<Longrightarrow> x \<in> set (remove_first p xs)"
  by (induction xs) (auto split: if_splits)

lemma distinct_remove_first: "distinct (map f xs) \<Longrightarrow> distinct (map f (remove_first p xs))"
  using remove_first_subset [of p] by (induction xs) fastforce+

lemma remove_first_unique:
  "distinct (map f xs) \<Longrightarrow> k \<notin> f ` set (remove_first (\<lambda>x. f x = k) xs)"
  using remove_first_subset [of "\<lambda>x. f x = k"] by (induction xs) (auto split: if_splits)

lemma old_is_expired: "old_expired x now \<Longrightarrow> decision_expired x now"
  by (auto simp: old_expired_def decision_expired_def decision_retention_def split: option.splits)

text \<open>What the list becomes when a decision is written.\<close>

lemma insert_decision_Some:
  assumes "insert_decision w now candidate ds = (answer, Some ds')"
  shows "ds' = filter (\<lambda>x. \<not> old_expired x now) ds @ [candidate]" "answer = Inr (True, candidate)"
    "length ds' \<le> max_decisions w"
  using assms by (auto simp: insert_decision_def Let_def split: if_splits option.splits)

abbreviation same_request :: "decision_record \<Rightarrow> decision_record \<Rightarrow> bool" where
  "same_request a b \<equiv> fingerprint b = fingerprint a"

lemma save_candidate_Some:
  assumes "save_candidate w now candidate ds = (answer, Some ds')"
  obtains rest where "ds' = filter (\<lambda>x. \<not> old_expired x now) rest @ [candidate]" "answer = Inr (True, candidate)"
    "set rest \<subseteq> set ds" "\<And>f :: decision_record \<Rightarrow> string. distinct (map f ds) \<Longrightarrow> distinct (map f rest)"
    "distinct (map fingerprint ds) \<Longrightarrow> fingerprint candidate \<notin> fingerprint ` set rest"
    "\<And>x. x \<in> set ds \<Longrightarrow> \<not> decision_expired x now \<Longrightarrow> x \<in> set rest"
    "length ds' \<le> max_decisions w"
proof (cases "List.find (same_request candidate) ds")
  case None
  with assms have i: "insert_decision w now candidate ds = (answer, Some ds')" by (simp add: save_candidate_def Let_def)
  from None have "fingerprint candidate \<notin> fingerprint ` set ds" by (auto simp: find_None_iff)
  then show ?thesis using insert_decision_Some [OF i] by (intro that [of ds]) auto
next
  case (Some x)
  with assms have x: "decision_expired x now"
    and i: "insert_decision w now candidate (remove_first (same_request candidate) ds) = (answer, Some ds')"
    by (auto simp: save_candidate_def Let_def split: if_splits)
  have "y \<in> set (remove_first (same_request candidate) ds)" if "y \<in> set ds" "\<not> decision_expired y now" for y
    using that x Some by (intro remove_first_keeps) auto
  then show ?thesis
    using insert_decision_Some [OF i] remove_first_unique [of fingerprint ds] remove_first_subset [of "same_request candidate" ds]
    by (intro that [of "remove_first (same_request candidate) ds"]) (auto simp: distinct_remove_first)
qed

definition apart :: "decision_record list \<Rightarrow> bool" where
  "apart ds = distinct (map fingerprint ds)"

lemma save_candidate_apart:
  assumes "save_candidate w now candidate ds = (answer, Some ds')" "apart ds"
  shows "apart ds'"
proof -
  obtain rest where ds': "ds' = filter (\<lambda>x. \<not> old_expired x now) rest @ [candidate]"
    and "distinct (map fingerprint rest)" "fingerprint candidate \<notin> fingerprint ` set rest"
    using assms unfolding apart_def by (elim save_candidate_Some) blast
  then show ?thesis unfolding ds' apart_def by (auto simp: distinct_map_filter)
qed

lemma save_candidate_keeps:
  assumes "save_candidate w now candidate ds = (answer, Some ds')" "x \<in> set ds" "\<not> decision_expired x now"
  shows "x \<in> set ds'"
proof -
  obtain rest where ds': "ds' = filter (\<lambda>x. \<not> old_expired x now) rest @ [candidate]" and "x \<in> set rest"
    using assms by (elim save_candidate_Some) blast
  then show ?thesis using assms(3) old_is_expired unfolding ds' by auto
qed

text \<open>Any operation writes nothing, or a list that came from what it read.\<close>

lemma run_decision_written:
  assumes "run_decision w e private oper d \<noteq> d"
  obtains ds ds' where "read_decisions w private d = Inr ds"
    "run_decision w e private oper d = Stored (io_saveNow e, js_sort (record_order w) ds')"
    "length ds' \<le> max_decisions w" "store_bytes (io_saveNow e) (js_sort (record_order w) ds') \<le> max_store_bytes"
    "ds' = filter (\<lambda>x. \<not> old_expired x (io_bodyNow e)) ds
     \<or> (\<exists>candidate answer. is_persisted_decision (dw_hash w) (dw_num w) candidate
          \<and> dd_decisionId candidate = decision_prefix @ io_uuid e
          \<and> save_candidate w (io_bodyNow e) candidate ds = (answer, Some ds'))"
proof (cases oper)
  case (LookUp r)
  with assms show ?thesis
    by (auto simp: lookup_autonomy_decision_def Let_def elim!: with_decisions_disk)
next
  case (Save p)
  let ?b = "build_persisted_decision (dw_hash w) (dw_num w) (decision_prefix @ io_uuid e) (sv_decision p) (sv_request p)
             (sv_actorId p) (sv_evidenceRef p) (or_else (sv_createdAt p) (io_startNow e)) (sv_expiresAt p)"
  from assms Save obtain candidate where c: "?b = Inr candidate"
    by (cases ?b) (auto simp: save_autonomy_decision_def)
  then have valid: "is_persisted_decision (dw_hash w) (dw_num w) candidate" "dd_decisionId candidate = decision_prefix @ io_uuid e"
    by (auto simp: build_persisted_decision_def Let_def split: if_splits)
  have run: "run_decision w e private oper d = fst (with_decisions w e private d (save_candidate w (io_bodyNow e) candidate))"
    using Save c by (simp add: save_autonomy_decision_def)
  from assms [unfolded run] obtain ds answer ds' where
    "read_decisions w private d = Inr ds" "save_candidate w (io_bodyNow e) candidate ds = (answer, Some ds')"
    "run_decision w e private oper d = Stored (io_saveNow e, js_sort (record_order w) ds')"
    "length ds' \<le> max_decisions w" "store_bytes (io_saveNow e) (js_sort (record_order w) ds') \<le> max_store_bytes"
    unfolding run by (rule with_decisions_disk)
  then show ?thesis using valid by (intro that [of ds ds']) blast+
next
  case Prune
  let ?cb = "\<lambda>ds. let kept = filter (\<lambda>x. \<not> old_expired x (io_bodyNow e)) ds
       in (Inr (length ds, length ds - length kept, length kept) :: decision_failure + nat \<times> nat \<times> nat, Some kept)"
  have run: "run_decision w e private oper d = fst (with_decisions w e private d ?cb)"
    using Prune by (simp add: prune_autonomy_decisions_def)
  from assms [unfolded run] obtain ds answer ds' where
    r: "read_decisions w private d = Inr ds" "?cb ds = (answer, Some ds')"
    "run_decision w e private oper d = Stored (io_saveNow e, js_sort (record_order w) ds')"
    "length ds' \<le> max_decisions w" "store_bytes (io_saveNow e) (js_sort (record_order w) ds') \<le> max_store_bytes"
    unfolding run by (rule with_decisions_disk)
  have "ds' = filter (\<lambda>x. \<not> old_expired x (io_bodyNow e)) ds" using r(2) by (simp add: Let_def)
  then show ?thesis using r(1,3-) by (intro that [of ds ds']) simp_all
qed

definition holds :: "decision_record \<Rightarrow> decision_disk \<Rightarrow> bool" where
  "holds x d = (\<exists>u ds. d = Stored (u, ds) \<and> x \<in> set ds)"

lemma apart_sort [simp]: "apart (js_sort c ds) = apart ds"
  by (simp add: apart_def distinct_js_sort)

lemma read_apart: "read_decisions w private d = Inr ds \<Longrightarrow> on_file apart d \<Longrightarrow> apart ds"
  by (auto simp: apart_def dest!: read_Inr(1))

lemma run_decision_apart: "on_file apart d \<Longrightarrow> on_file apart (run_decision w e private oper d)"
proof (cases "run_decision w e private oper d = d")
  case False
  assume apart: "on_file apart d"
  from False obtain ds ds' where r: "read_decisions w private d = Inr ds"
    "run_decision w e private oper d = Stored (io_saveNow e, js_sort (record_order w) ds')"
    "ds' = filter (\<lambda>x. \<not> old_expired x (io_bodyNow e)) ds
     \<or> (\<exists>candidate answer. is_persisted_decision (dw_hash w) (dw_num w) candidate
          \<and> dd_decisionId candidate = decision_prefix @ io_uuid e
          \<and> save_candidate w (io_bodyNow e) candidate ds = (answer, Some ds'))"
    by (rule run_decision_written)
  have "apart ds" by (rule read_apart [OF r(1) apart])
  then have "apart ds'" using r(3) save_candidate_apart by (auto simp: apart_def distinct_map_filter)
  then show ?thesis using r(2) by simp
qed simp

lemma run_decision_holds:
  assumes "holds x d" "\<not> decision_expired x (io_bodyNow e)"
  shows "holds x (run_decision w e private oper d)"
proof (cases "run_decision w e private oper d = d")
  case False
  then obtain ds ds' where r: "read_decisions w private d = Inr ds"
    "run_decision w e private oper d = Stored (io_saveNow e, js_sort (record_order w) ds')"
    "ds' = filter (\<lambda>x. \<not> old_expired x (io_bodyNow e)) ds
     \<or> (\<exists>candidate answer. is_persisted_decision (dw_hash w) (dw_num w) candidate
          \<and> dd_decisionId candidate = decision_prefix @ io_uuid e
          \<and> save_candidate w (io_bodyNow e) candidate ds = (answer, Some ds'))"
    by (rule run_decision_written)
  have "x \<in> set ds"
    using r(1) assms(1) by (auto simp: holds_def read_decisions_def split: if_splits)
  then have "x \<in> set ds'"
    using r(3) save_candidate_keeps assms(2) old_is_expired by auto
  then show ?thesis using r(2) by (simp add: holds_def)
qed (use assms in simp)

lemma run_decisions_keep:
  assumes "on_file apart d" "holds x d" "\<forall>(e, private, oper) \<in> set h. \<not> decision_expired x (io_bodyNow e)"
  shows "on_file apart (run_decisions w h d) \<and> holds x (run_decisions w h d)"
  using assms
proof (induction h arbitrary: d)
  case (Cons s h)
  obtain e pr oper where s: "s = (e, pr, oper)" by (cases s)
  with Cons.prems have "on_file apart (run_decision w e pr oper d)" "holds x (run_decision w e pr oper d)"
    using run_decision_apart run_decision_holds by auto
  with Cons.IH [OF this] Cons.prems(3) show ?case by (simp add: run_decisions_def s)
qed (simp add: run_decisions_def)

lemma build_record:
  assumes "build_persisted_decision hash num i v r a ev c x = Inr d"
  shows "dd_request d = r" "dd_decision d = v" "is_persisted_decision hash num d" "dd_decisionId d = i" "dd_expiresAt d = x"
  using assms by (auto simp: build_persisted_decision_def Let_def split: if_splits)

text \<open>A save that answers a record leaves it in the file.\<close>

lemma save_holds:
  assumes "save_autonomy_decision w e private p d = (d', Inr (created, x))"
  shows "holds x d'" "dd_request x = sv_request p" "dd_decision x = sv_decision p" "dd_expiresAt x = sv_expiresAt p"
proof -
  let ?b = "build_persisted_decision (dw_hash w) (dw_num w) (decision_prefix @ io_uuid e) (sv_decision p) (sv_request p)
             (sv_actorId p) (sv_evidenceRef p) (or_else (sv_createdAt p) (io_startNow e)) (sv_expiresAt p)"
  from assms obtain c where c: "?b = Inr c"
    by (cases ?b) (auto simp: save_autonomy_decision_def)
  note built = build_record [OF c]
  from assms c have "with_decisions w e private d (save_candidate w (io_bodyNow e) c) = (d', Inr (created, x))"
    by (simp add: save_autonomy_decision_def)
  then have "holds x d' \<and> dd_request x = dd_request c \<and> dd_decision x = dd_decision c \<and> dd_expiresAt x = dd_expiresAt c"
  proof (rule with_decisions_Inr)
    fix ds
    assume r: "read_decisions w private d = Inr ds" "save_candidate w (io_bodyNow e) c ds = (Inr (created, x), None)" "d' = d"
    from r(2) have "List.find (same_request c) ds = Some x" and same: "dd_decision x = dd_decision c" "same_record x c"
      by (auto simp: save_candidate_def insert_decision_def Let_def split: option.splits if_splits)
    then have "x \<in> set ds" by (simp add: find_Some_iff_in)
    moreover have "dd_request x = dd_request c \<and> dd_expiresAt x = dd_expiresAt c"
      using same(2) unfolding same_record_def by (cases x; cases c) simp
    ultimately show ?thesis using read_Inr(1) [OF r(1)] r(3) same(1) by (auto simp: holds_def)
  next
    fix ds ds'
    assume r: "save_candidate w (io_bodyNow e) c ds = (Inr (created, x), Some ds')"
      "d' = Stored (io_saveNow e, js_sort (record_order w) ds')"
    from r(1) have "x = c \<and> c \<in> set ds'" by (elim save_candidate_Some) auto
    then show ?thesis using r(2) by (simp add: holds_def)
  qed
  with built show "holds x d'" "dd_request x = sv_request p" "dd_decision x = sv_decision p" "dd_expiresAt x = sv_expiresAt p"
    by simp_all
qed

lemma lookup_held:
  assumes "on_file apart d" "holds x d" "\<not> decision_expired x (io_bodyNow e)"
    and "lookup_autonomy_decision w e private (dd_request x) d = (d', Inr l)"
  shows "l = LookupMatched x"
proof -
  from assms(2) obtain u ds where d: "d = Stored (u, ds)" "x \<in> set ds" by (auto simp: holds_def)
  with assms(1) have "apart ds" by simp
  have "List.find (\<lambda>y. fingerprint y = fingerprint x) ds = Some x"
  proof -
    obtain y where y: "List.find (\<lambda>y. fingerprint y = fingerprint x) ds = Some y"
      using d(2) by (cases "List.find (\<lambda>y. fingerprint y = fingerprint x) ds") (auto simp: find_None_iff)
    then have "y \<in> set ds" "fingerprint y = fingerprint x" using find_Some_iff_in [OF y] by simp_all
    then have "y = x" using distinct_map_eq [of fingerprint ds y x] d(2) \<open>apart ds\<close> by (simp add: apart_def)
    with y show ?thesis by simp
  qed
  moreover have "ds' = ds" if "read_decisions w private d = Inr ds'" for ds'
    using that d(1) by (auto simp: read_decisions_def split: if_splits)
  ultimately show ?thesis
    using assms(3,4) by (auto simp: lookup_autonomy_decision_def Let_def elim!: with_decisions_Inr)
qed

section \<open>Properties\<close>

text \<open>
  C12. A decision stands until it expires: whatever lookups, saves and prunings follow, by whom and
  with whatever outcome of their locks and writes, a lookup of exactly that request answers the
  saved decision.
\<close>

theorem decision_stands_until_expiry:
  assumes "on_file apart d" "save_autonomy_decision w e private p d = (d1, Inr (created, x))"
    and "\<forall>(e', private', oper) \<in> set h. \<not> decision_expired x (io_bodyNow e')"
    and "lookup_autonomy_decision w e2 private2 (sv_request p) (run_decisions w h d1) = (d2, Inr l)"
    and "\<not> decision_expired x (io_bodyNow e2)"
  shows "l = LookupMatched x \<and> dd_request x = sv_request p \<and> dd_decision x = sv_decision p"
proof -
  note saved = save_holds [OF assms(2)]
  have d1: "d1 = run_decision w e private (Save p) d" using assms(2) by simp
  have "on_file apart d1" unfolding d1 by (rule run_decision_apart [OF assms(1)])
  from run_decisions_keep [OF this saved(1) assms(3)]
  have kept: "on_file apart (run_decisions w h d1)" "holds x (run_decisions w h d1)" by simp_all
  from assms(4) saved(2) have "lookup_autonomy_decision w e2 private2 (dd_request x) (run_decisions w h d1) = (d2, Inr l)" by simp
  from lookup_held [OF kept assms(5) this] saved show ?thesis by simp
qed

text \<open>
  The file stays readable: what an operation writes passes the whole check of the next read, the
  validation of every record, the uniqueness of identifiers, the absence of contradictions and
  both bounds, as long as the clock gives a date and the random identifier is new.
\<close>

theorem decision_store_stays_readable:
  assumes "on_file apart d" "read_decisions w True d = Inr ds" "date_parse (io_saveNow e) \<noteq> None"
    and "decision_prefix @ io_uuid e \<notin> dd_decisionId ` set ds"
  shows "on_file apart (run_decision w e True oper d)
    \<and> (\<exists>ds'. read_decisions w True (run_decision w e True oper d) = Inr ds')"
proof (cases "run_decision w e True oper d = d")
  case False
  then obtain ds1 ds' where r: "read_decisions w True d = Inr ds1"
    "run_decision w e True oper d = Stored (io_saveNow e, js_sort (record_order w) ds')"
    "length ds' \<le> max_decisions w" "store_bytes (io_saveNow e) (js_sort (record_order w) ds') \<le> max_store_bytes"
    "ds' = filter (\<lambda>x. \<not> old_expired x (io_bodyNow e)) ds1
     \<or> (\<exists>candidate answer. is_persisted_decision (dw_hash w) (dw_num w) candidate
          \<and> dd_decisionId candidate = decision_prefix @ io_uuid e
          \<and> save_candidate w (io_bodyNow e) candidate ds1 = (answer, Some ds'))"
    by (rule run_decision_written)
  have [simp]: "ds1 = ds" using r(1) assms(2) by simp
  note old = read_Inr(2,3) [OF assms(2)]
  have ids: "distinct (map dd_decisionId ds)" using consistent_ids [OF old(2)] by simp
  have apart: "apart ds'"
    using run_decision_apart [OF assms(1), of w e True oper] unfolding r(2) by simp
  have "list_all (is_persisted_decision (dw_hash w) (dw_num w)) ds' \<and> distinct (map dd_decisionId ds')"
    using r(5)
  proof
    assume "ds' = filter (\<lambda>x. \<not> old_expired x (io_bodyNow e)) ds1"
    with old(1) ids show ?thesis by (auto simp: list_all_iff distinct_map_filter)
  next
    assume "\<exists>candidate answer. is_persisted_decision (dw_hash w) (dw_num w) candidate
          \<and> dd_decisionId candidate = decision_prefix @ io_uuid e
          \<and> save_candidate w (io_bodyNow e) candidate ds1 = (answer, Some ds')"
    then obtain c answer where c: "is_persisted_decision (dw_hash w) (dw_num w) c" "dd_decisionId c = decision_prefix @ io_uuid e"
      and s: "save_candidate w (io_bodyNow e) c ds = (answer, Some ds')" by auto
    from s ids obtain rest where "ds' = filter (\<lambda>x. \<not> old_expired x (io_bodyNow e)) rest @ [c]"
      "set rest \<subseteq> set ds" "distinct (map dd_decisionId rest)" by (elim save_candidate_Some) blast
    with old(1) c assms(4) show ?thesis by (auto simp: list_all_iff distinct_map_filter)
  qed
  then have "list_all (is_persisted_decision (dw_hash w) (dw_num w)) (js_sort (record_order w) ds')"
    "consistent [] [] (js_sort (record_order w) ds')"
    using apart by (auto simp: list_all_iff apart_def distinct_js_sort intro!: consistent_fresh)
  with r(2-4) assms(3) apart show ?thesis by (simp add: read_decisions_def)
qed (use assms in simp)

section \<open>A concrete store\<close>

definition sample_world :: decision_world where
  "sample_world = \<lparr>dw_hash = flat_hash, dw_num = id, dw_cmp = (\<lambda>a b. if a < b then - 1 else if a = b then 0 else 1),
     dw_maxRecords = None\<rparr>"

definition io_at :: "string \<Rightarrow> io_env" where
  "io_at now = \<lparr>io_lock = LockTaken, io_write = Saved, io_startNow = now, io_openNow = now, io_bodyNow = now,
     io_saveNow = now, io_random = [], io_uuid = ''1''\<rparr>"

definition ten_past_noon :: string where "ten_past_noon = ''2026-01-01T12:10:00.000Z''"

definition sample_decided :: decision_request where
  "sample_decided = (sample_base ''src/a'')\<lparr>dr_scopeFingerprint := sample_digest, dr_requestFingerprint := sample_digest\<rparr>"

definition sample_save :: save_input where
  "sample_save = \<lparr>sv_request = sample_decided, sv_decision = DecisionApproved, sv_evidenceRef = sample_evidence,
     sv_actorId = ''os-user:501'', sv_createdAt = None, sv_expiresAt = ''2026-01-01T12:15:00.000Z''\<rparr>"

definition sample_stored :: decision_record where
  "sample_stored = \<lparr>dd_decisionId = ''autonomy-decision-1'', dd_decision = DecisionApproved, dd_request = sample_decided,
     dd_actorId = ''os-user:501'', dd_evidenceRef = sample_evidence, dd_createdAt = noon,
     dd_expiresAt = ''2026-01-01T12:15:00.000Z''\<rparr>"

lemma sample_built:
  "build_persisted_decision flat_hash id ''autonomy-decision-1'' DecisionApproved sample_decided ''os-user:501'' sample_evidence
     noon ''2026-01-01T12:15:00.000Z'' = Inr sample_stored"
  "is_persisted_decision flat_hash id sample_stored"
proof -
  have r: "create_autonomy_decision_request flat_hash id (sample_decision_input ''src/a'') = Inr sample_decided"
    using sample_create [of flat_hash "''src/a''"] by (simp add: flat_hash_def sample_decided_def)
  from created_recordable [OF r created_hashes [OF r flat_hash_valid] sample_plain sample_recordable(2-), of DecisionApproved]
  obtain d where d: "build_persisted_decision flat_hash id ''autonomy-decision-1'' DecisionApproved sample_decided ''os-user:501''
      sample_evidence noon ''2026-01-01T12:15:00.000Z'' = Inr d" "is_persisted_decision flat_hash id d" by blast
  then have "d = sample_stored"
    by (auto simp: build_persisted_decision_def sample_stored_def Let_def split: if_splits)
  with d show "build_persisted_decision flat_hash id ''autonomy-decision-1'' DecisionApproved sample_decided ''os-user:501'' sample_evidence
     noon ''2026-01-01T12:15:00.000Z'' = Inr sample_stored" "is_persisted_decision flat_hash id sample_stored" by simp_all
qed

lemma utf8_pieces:
  "utf8_length [] = 0" "utf8_length (c # s) = (if (of_char c :: nat) < 128 then 1 else 2) + utf8_length s"
  "utf8_length (s @ t) = utf8_length s + utf8_length t"
  by (simp_all add: utf8_length_def)

lemma sample_leaf_sizes:
  "utf8_length (concat (map escape_char sample_digest)) = 64" "utf8_length (concat (map escape_char sample_args_text)) < 100"
  "utf8_length (concat (map escape_char noon)) = 24" "utf8_length (concat (map escape_char ten_past_noon)) = 24"
  by code_simp+

lemma sample_bytes: "store_bytes noon [sample_stored] < 3000" "store_bytes ten_past_noon [sample_stored] < 3000"
  using sample_leaf_sizes(2)
  by (simp_all add: store_bytes_def record_json_def evidence_json_def policy_json_def sample_stored_def sample_decided_def
      sample_base_def sample_evidence_def object_text_def array_text_def member_text_def utf8_pieces sample_leaf_sizes(1,3,4)
      string_text_def escape_char_def quote_char_def backslash_def)

lemma sample_times:
  "date_parse noon \<noteq> None" "date_parse ten_past_noon \<noteq> None"
  "\<not> decision_expired sample_stored noon" "\<not> decision_expired sample_stored ten_past_noon"
  by code_simp+

lemma sample_readable:
  "read_decisions sample_world True (Stored (noon, [sample_stored])) = Inr [sample_stored]"
  "read_decisions sample_world True (Stored (ten_past_noon, [sample_stored])) = Inr [sample_stored]"
  using sample_built(2) sample_bytes sample_times
  by (auto simp: read_decisions_def sample_world_def max_decisions_def default_max_records_def max_store_bytes_def)

lemma sample_saved:
  "save_autonomy_decision sample_world (io_at noon) True sample_save NoFile = (Stored (noon, [sample_stored]), Inr (True, sample_stored))"
proof -
  have b: "build_persisted_decision (dw_hash sample_world) (dw_num sample_world) (decision_prefix @ io_uuid (io_at noon))
      (sv_decision sample_save) (sv_request sample_save) (sv_actorId sample_save) (sv_evidenceRef sample_save)
      (or_else (sv_createdAt sample_save) (io_startNow (io_at noon))) (sv_expiresAt sample_save) = Inr sample_stored"
    using sample_built(1) by (simp add: sample_world_def io_at_def sample_save_def or_else_def truthy_def decision_prefix_def)
  show ?thesis
    unfolding save_autonomy_decision_def b sum.case using sample_bytes(1)
    by (simp add: with_decisions_def io_at_def sample_world_def
        read_decisions_def save_candidate_def insert_decision_def Let_def max_decisions_def default_max_records_def persist_decisions_def
        js_sort_def max_store_bytes_def write_disk_def)
qed

lemma sample_pruned:
  "run_decision sample_world (io_at ten_past_noon) True Prune (Stored (noon, [sample_stored])) = Stored (ten_past_noon, [sample_stored])"
proof -
  have "\<not> old_expired sample_stored ten_past_noon" using sample_times(4) old_is_expired by blast
  then show ?thesis
    using sample_bytes(2) sample_readable(1)
    by (simp add: prune_autonomy_decisions_def with_decisions_def io_at_def Let_def persist_decisions_def
        js_sort_def max_store_bytes_def write_disk_def max_decisions_def default_max_records_def sample_world_def)
qed

lemma sample_looked_up:
  "lookup_autonomy_decision sample_world (io_at ten_past_noon) True sample_decided (Stored (ten_past_noon, [sample_stored]))
     = (Stored (ten_past_noon, [sample_stored]), Inr (LookupMatched sample_stored))"
  using sample_readable(2) sample_times(4)
  by (simp add: lookup_autonomy_decision_def with_decisions_def io_at_def sample_stored_def)

theorem decision_stands_until_expiry_witness:
  "dd_decision sample_stored = DecisionApproved \<and> run_decisions sample_world [(io_at ten_past_noon, True, Prune)]
     (fst (save_autonomy_decision sample_world (io_at noon) True sample_save NoFile)) = Stored (ten_past_noon, [sample_stored])"
proof -
  have run: "run_decisions sample_world [(io_at ten_past_noon, True, Prune)] (Stored (noon, [sample_stored]))
      = Stored (ten_past_noon, [sample_stored])"
    using sample_pruned by (simp add: run_decisions_def)
  have "io_bodyNow (io_at ten_past_noon) = ten_past_noon" "sv_request sample_save = sample_decided"
    "sv_decision sample_save = DecisionApproved" by (simp_all add: io_at_def sample_save_def)
  with sample_times(4) sample_looked_up run
    decision_stands_until_expiry [OF _ sample_saved, of "[(io_at ten_past_noon, True, Prune)]" "io_at ten_past_noon" True _ "LookupMatched sample_stored"]
  show ?thesis by (simp add: sample_saved)
qed

theorem decision_store_stays_readable_witness:
  "\<exists>ds. read_decisions sample_world True (run_decision sample_world ((io_at ten_past_noon)\<lparr>io_uuid := ''2''\<rparr>) True (Save sample_save)
     (Stored (noon, [sample_stored]))) = Inr ds"
  using decision_store_stays_readable [OF _ sample_readable(1), of "(io_at ten_past_noon)\<lparr>io_uuid := ''2''\<rparr>" "Save sample_save"]
    sample_times(2) by (simp add: apart_def decision_prefix_def sample_stored_def io_at_def)

end
