(* ===== verification/Decision_Authorization.thy ===== *)
theory Decision_Authorization
  imports Decision_Store
begin

text \<open>
  \<^verbatim>\<open>packages/cli/src/agent/autonomy-decision-authorization.ts\<close> and the policy fingerprint of
  \<^verbatim>\<open>packages/shared/src/autonomy-policy-evaluator.ts\<close>: an operation is evaluated under a policy
  that always asks for confirmation, and the confirmation is the persisted decision on exactly
  that request. The numeric user of the process, when the platform has one, is an argument.
\<close>

section \<open>The policy of an operation\<close>

record authorization_input =
  az_operation :: string
  az_category :: category
  az_sourceId :: string
  az_runId :: string
  az_sessionId :: string
  az_actorId :: "string option"
  az_capabilityId :: "string option"
  az_paths :: "string list option"
  az_arguments :: "json option"

definition resolve_actor_id :: "int option \<Rightarrow> string option \<Rightarrow> string option" where
  "resolve_actor_id uid explicit =
     (case explicit of
        Some s \<Rightarrow> if trim s \<noteq> [] then Some (trim s)
                   else (case uid of Some n \<Rightarrow> if 0 \<le> n then Some (''os-user:'' @ show_int n) else None | None \<Rightarrow> None)
      | None \<Rightarrow> (case uid of Some n \<Rightarrow> if 0 \<le> n then Some (''os-user:'' @ show_int n) else None | None \<Rightarrow> None))"

definition operation_grant :: "string \<Rightarrow> string list \<Rightarrow> autonomy_grant" where
  "operation_grant operation paths =
     \<lparr>ag_allowed = [], ag_confirmationRequired = Some [operation], ag_denied = Some [],
      ag_allowedPaths = (if paths \<noteq> [] then Some paths else None), ag_allowedCommands = None,
      ag_allowedNetworkTargets = None, ag_allowedCapabilities = None, ag_allowedGitOperations = None,
      ag_allowedReleaseTargets = None\<rparr>"

definition operation_layer :: "layer_name \<Rightarrow> category \<Rightarrow> string \<Rightarrow> string list \<Rightarrow> autonomy_layer" where
  "operation_layer name c operation paths =
     \<lparr>al_name = name, al_grants = (\<lambda>c'. if c' = c then Some (operation_grant operation paths) else None)\<rparr>"

definition operation_scope :: "string list \<Rightarrow> autonomy_scope option" where
  "operation_scope paths =
     (case paths of
        [p] \<Rightarrow> Some \<lparr>sc_path = Some p, sc_command = None, sc_networkTarget = None, sc_capabilityId = None,
                      sc_gitOperation = None, sc_releaseTarget = None\<rparr>
      | _ \<Rightarrow> None)"

definition missing_confirmation :: "persisted_decision option \<Rightarrow> confirmation" where
  "missing_confirmation persisted = \<lparr>cf_state = ConfMissing, cf_operations = None, cf_persistedDecision = persisted\<rparr>"

definition build_policy_input :: "authorization_input \<Rightarrow> autonomy_input" where
  "build_policy_input i =
     (let paths = path_list (az_paths i); l = (\<lambda>name. operation_layer name (az_category i) (az_operation i) paths) in
      \<lparr>ai_level = Some 6, ai_category = Some (category_text (az_category i)), ai_operation = Some (az_operation i),
       ai_source = Layer (l LSource), ai_run = Layer (l LRun), ai_session = Layer (l LSession),
       ai_capability = Layer (l LCapability), ai_confirmation = Confirmation (missing_confirmation None),
       ai_scope = operation_scope paths\<rparr>)"

section \<open>The fingerprint of the policy\<close>

definition list_member :: "string \<Rightarrow> string list option \<Rightarrow> (string \<times> json) list" where
  "list_member k v = (case v of None \<Rightarrow> [] | Some xs \<Rightarrow> [(k, JArr (map JStr xs))])"

definition grant_json :: "autonomy_grant \<Rightarrow> json" where
  "grant_json g =
     JObj ([(''allowed'', JArr (map JStr (ag_allowed g)))]
       @ list_member ''confirmationRequired'' (ag_confirmationRequired g) @ list_member ''denied'' (ag_denied g)
       @ list_member ''allowedPaths'' (ag_allowedPaths g) @ list_member ''allowedCommands'' (ag_allowedCommands g)
       @ list_member ''allowedNetworkTargets'' (ag_allowedNetworkTargets g)
       @ list_member ''allowedCapabilities'' (ag_allowedCapabilities g)
       @ list_member ''allowedGitOperations'' (ag_allowedGitOperations g)
       @ list_member ''allowedReleaseTargets'' (ag_allowedReleaseTargets g))"

definition layer_json :: "autonomy_layer \<Rightarrow> json" where
  "layer_json l =
     JObj [(''name'', JStr (layer_text (al_name l))),
       (''grants'', JObj (concat (map (\<lambda>c. case al_grants l c of None \<Rightarrow> [] | Some g \<Rightarrow> [(category_text c, grant_json g)])
          autonomy_categories)))]"

definition text_member :: "string \<Rightarrow> string option \<Rightarrow> (string \<times> json) list" where
  "text_member k v = (case v of None \<Rightarrow> [] | Some s \<Rightarrow> [(k, JStr s)])"

definition scope_json :: "autonomy_scope option \<Rightarrow> json" where
  "scope_json sc =
     (case sc of
        None \<Rightarrow> JNull
      | Some s \<Rightarrow> JObj (text_member ''path'' (sc_path s) @ text_member ''command'' (sc_command s)
          @ text_member ''networkTarget'' (sc_networkTarget s) @ text_member ''capabilityId'' (sc_capabilityId s)
          @ text_member ''gitOperation'' (sc_gitOperation s) @ text_member ''releaseTarget'' (sc_releaseTarget s)))"

definition policy_version :: string where "policy_version = ''r16.2''"

text \<open>For a policy input whose parts are well formed; the confirmation is not part of it.\<close>

definition fingerprint_policy_input ::
  "(string \<Rightarrow> string) \<Rightarrow> int \<Rightarrow> category \<Rightarrow> string \<Rightarrow> (layer_name \<Rightarrow> autonomy_layer) \<Rightarrow> autonomy_scope option
   \<Rightarrow> string + autonomy_binding" where
  "fingerprint_policy_input hash level c operation l sc =
     create_autonomy_policy_binding hash policy_version (JObj
       [(''level'', JNum (show_int level)), (''category'', JStr (category_text c)), (''operation'', JStr operation),
        (''source'', layer_json (l LSource)), (''run'', layer_json (l LRun)), (''session'', layer_json (l LSession)),
        (''capability'', layer_json (l LCapability)), (''scope'', scope_json sc)])"

section \<open>Authorization\<close>

datatype authorization_status = AuthAllowed | AuthDenied | AuthRequiresConfirmation | AuthUnavailable

datatype authorization_reason =
    ActorUnavailable | RequestInvalid string | PolicyReason reason_code | StoreReason decision_failure

record authorization =
  au_status :: authorization_status
  au_request :: "decision_request option"
  au_evaluation :: "autonomy_evaluation option"
  au_lookup :: "(decision_failure + decision_lookup) option"
  au_reason :: authorization_reason

definition unavailable :: "authorization_reason \<Rightarrow> authorization" where
  "unavailable reason = \<lparr>au_status = AuthUnavailable, au_request = None, au_evaluation = None, au_lookup = None, au_reason = reason\<rparr>"

definition authorization_request ::
  "decision_world \<Rightarrow> string \<Rightarrow> authorization_input \<Rightarrow> string + decision_request" where
  "authorization_request w actorId i =
     (let paths = path_list (az_paths i) in
      case fingerprint_policy_input (dw_hash w) 6 (az_category i) (az_operation i)
             (\<lambda>name. operation_layer name (az_category i) (az_operation i) paths) (operation_scope paths) of
        Inl m \<Rightarrow> Inl m
      | Inr binding \<Rightarrow>
          create_autonomy_decision_request (dw_hash w) (dw_num w)
            \<lparr>di_operation = az_operation i, di_category = az_category i, di_sourceId = az_sourceId i, di_runId = az_runId i,
             di_sessionId = az_sessionId i, di_actorId = actorId, di_capabilityId = or_else (az_capabilityId i) ''workbench-core'',
             di_paths = az_paths i, di_arguments = az_arguments i, di_policy = binding\<rparr>)"

primrec persisted_of :: "decision_value \<Rightarrow> persisted_decision" where
  "persisted_of DecisionApproved = PersistedApproved"
| "persisted_of DecisionDenied = PersistedDenied"

definition policy_changed :: "autonomy_evaluation \<Rightarrow> autonomy_evaluation" where
  "policy_changed baseline =
     baseline\<lparr>ae_decision := Denied, ae_restrictingScope := Some ''confirmation'', ae_reasonCode := PERSISTED_POLICY_CHANGED,
       ae_trace := ae_trace baseline @ [trace_of ''confirmation'' Denied PERSISTED_POLICY_CHANGED]\<rparr>"

definition decide_lookup :: "authorization_input \<Rightarrow> decision_request \<Rightarrow> decision_failure + decision_lookup \<Rightarrow> authorization" where
  "decide_lookup i r found =
     (let baseline = evaluate_autonomy_policy (build_policy_input i);
          answer = (\<lambda>st ev reason. \<lparr>au_status = st, au_request = Some r, au_evaluation = Some ev, au_lookup = Some found,
                                     au_reason = reason\<rparr>)
      in case found of
           Inl f \<Rightarrow> answer AuthUnavailable baseline (StoreReason f)
         | Inr (LookupPolicyChanged x) \<Rightarrow>
             answer AuthDenied (policy_changed baseline) (PolicyReason PERSISTED_POLICY_CHANGED)
         | Inr LookupNone \<Rightarrow> answer AuthRequiresConfirmation baseline (PolicyReason CONFIRMATION_REQUIRED)
         | Inr (LookupExpired x) \<Rightarrow> answer AuthRequiresConfirmation baseline (PolicyReason CONFIRMATION_REQUIRED)
         | Inr (LookupMatched x) \<Rightarrow>
             (let ev = evaluate_autonomy_policy ((build_policy_input i)\<lparr>ai_confirmation :=
                    Confirmation (missing_confirmation (Some (persisted_of (dd_decision x))))\<rparr>)
              in answer (if ae_decision ev = Allowed then AuthAllowed else AuthDenied) ev (PolicyReason (ae_reasonCode ev))))"

definition prepare_authorization ::
  "decision_world \<Rightarrow> io_env \<Rightarrow> bool \<Rightarrow> int option \<Rightarrow> authorization_input \<Rightarrow> decision_disk \<Rightarrow> decision_disk \<times> authorization" where
  "prepare_authorization w e private uid i d =
     (case resolve_actor_id uid (az_actorId i) of
        None \<Rightarrow> (d, unavailable ActorUnavailable)
      | Some actorId \<Rightarrow>
          (case authorization_request w actorId i of
             Inl m \<Rightarrow> (d, unavailable (RequestInvalid m))
           | Inr r \<Rightarrow>
               (let baseline = evaluate_autonomy_policy (build_policy_input i);
                    answer = (\<lambda>st. \<lparr>au_status = st, au_request = Some r, au_evaluation = Some baseline, au_lookup = None,
                                     au_reason = PolicyReason (ae_reasonCode baseline)\<rparr>)
                in if ae_decision baseline = Denied then (d, answer AuthDenied)
                   else if \<not> ae_confirmationRequired baseline then (d, answer AuthAllowed)
                   else (let (d', found) = lookup_autonomy_decision w e private r d in (d', decide_lookup i r found)))))"

section \<open>Lemmas\<close>

text \<open>The policy of an operation always asks: without a persisted decision nothing is allowed.\<close>

lemma build_policy_fields [simp]:
  "ai_category (build_policy_input i) = Some (category_text (az_category i))"
  "ai_operation (build_policy_input i) = Some (az_operation i)"
  "ai_confirmation (build_policy_input i) = Confirmation (missing_confirmation None)"
  "ai_run (build_policy_input i) = Layer (operation_layer LRun (az_category i) (az_operation i) (path_list (az_paths i)))"
  by (simp_all add: build_policy_input_def Let_def)

lemma confirmation_asked:
  assumes "ae_decision (evaluate_autonomy_policy ((build_policy_input i)\<lparr>ai_confirmation := Confirmation cf\<rparr>)) = Allowed"
  shows "cf_persistedDecision cf \<noteq> Some PersistedDenied
    \<and> (cf_persistedDecision cf = Some PersistedApproved \<or> cf_state cf = ConfConfirmed)"
  using assms
proof (rule allowed_stages)
  let ?i = "(build_policy_input i)\<lparr>ai_confirmation := Confirmation cf\<rparr>"
  fix ct c oper cf' ls trace grants eff and p :: autonomy_policy
  assume s: "ai_category ?i = Some ct" "category_of ct = Some c" "ai_operation ?i = Some oper"
    "ai_confirmation ?i = Confirmation cf'" "checked_layers (input_layers ?i) = Inr ls"
    "walk_layers c oper ((True, \<lparr>al_name = LSource, al_grants = ap_grants p\<rparr>) # map (Pair False) ls) [] [] = Inr (trace, grants)"
    "evaluate_autonomy_policy ?i = confirm_evaluation c oper cf' grants trace eff"
  have c: "c = az_category i" "oper = az_operation i" "cf' = cf" using s(1-4) by auto
  have "\<forall>n l g. (n, Layer l) \<in> set (input_layers ?i) \<longrightarrow> al_grants l c = Some g \<longrightarrow> g \<in> set grants"
    using allowed_grants [OF s(5,6)] by blast
  moreover have "(LRun, Layer (operation_layer LRun c oper (path_list (az_paths i)))) \<in> set (input_layers ?i)"
    using c by (simp add: input_layers_def)
  moreover have "al_grants (operation_layer LRun c oper (path_list (az_paths i))) c = Some (operation_grant oper (path_list (az_paths i)))"
    by (simp add: operation_layer_def)
  ultimately have "operation_grant oper (path_list (az_paths i)) \<in> set grants" by blast
  then have "list_ex (\<lambda>g. includes_opt (ag_confirmationRequired g) oper) grants"
    unfolding list_ex_iff by (rule bexI [rotated]) (simp add: operation_grant_def includes_opt_def)
  then show ?thesis
    using assms unfolding s(7) c(3)
    by (auto simp: confirm_evaluation_def denied_evaluation_def Let_def split: if_splits)
qed

lemma baseline_not_allowed: "ae_decision (evaluate_autonomy_policy (build_policy_input i)) \<noteq> Allowed"
proof
  assume allowed: "ae_decision (evaluate_autonomy_policy (build_policy_input i)) = Allowed"
  have "(build_policy_input i)\<lparr>ai_confirmation := Confirmation (missing_confirmation None)\<rparr> = build_policy_input i"
    by (simp add: build_policy_input_def Let_def)
  from confirmation_asked [where i = i and cf = "missing_confirmation None", unfolded this, OF allowed]
  show False by (simp add: missing_confirmation_def)
qed

text \<open>An evaluation that asks has reached the confirmation, where only the confirmation decides.\<close>

lemma asking_stages:
  assumes "ae_decision (evaluate_autonomy_policy i) = RequiresConfirmation"
  obtains c oper cf trace grants eff where "ai_confirmation i = Confirmation cf"
    "list_ex (\<lambda>g. includes_opt (ag_confirmationRequired g) oper) grants"
    "evaluate_autonomy_policy i = confirm_evaluation c oper cf grants trace eff"
    "\<And>cf'. evaluate_autonomy_policy (i\<lparr>ai_confirmation := Confirmation cf'\<rparr>) = confirm_evaluation c oper cf' grants trace eff"
proof -
  have denied: "ae_decision (denied_evaluation c' o' r w f t e) = Denied" for c' o' r w f t e
    by (simp add: denied_evaluation_def)
  have asked: "list_ex (\<lambda>g. includes_opt (ag_confirmationRequired g) oper) grants"
    if "ae_decision (confirm_evaluation c oper cf grants trace eff) = RequiresConfirmation" for c oper cf grants trace eff
    using that by (auto simp: confirm_evaluation_def denied Let_def split: if_splits)
  have layers: "input_layers (i\<lparr>ai_confirmation := x\<rparr>) = input_layers i" for x by (simp add: input_layers_def)
  obtain ct c oper cf p ls trace grants eff where cf: "ai_confirmation i = Confirmation cf"
    and stages: "ai_category i = Some ct" "category_of ct = Some c" "ai_operation i = Some oper" "oper \<noteq> []"
    "oper \<in> set known_operations" "get_autonomy_policy (ai_level i) = Some p" "checked_layers (input_layers i) = Inr ls"
    "walk_layers c oper ((True, \<lparr>al_name = LSource, al_grants = ap_grants p\<rparr>) # map (Pair False) ls) [] [] = Inr (trace, grants)"
    "walk_scopes c grants (ai_scope i) scope_fields empty_scope = Inr eff"
  proof -
    fix thesis
    assume "\<And>cf ct c oper p ls trace grants eff. ai_confirmation i = Confirmation cf \<Longrightarrow> ai_category i = Some ct \<Longrightarrow>
      category_of ct = Some c \<Longrightarrow> ai_operation i = Some oper \<Longrightarrow> oper \<noteq> [] \<Longrightarrow> oper \<in> set known_operations \<Longrightarrow>
      get_autonomy_policy (ai_level i) = Some p \<Longrightarrow> checked_layers (input_layers i) = Inr ls \<Longrightarrow>
      walk_layers c oper ((True, \<lparr>al_name = LSource, al_grants = ap_grants p\<rparr>) # map (Pair False) ls) [] [] = Inr (trace, grants) \<Longrightarrow>
      walk_scopes c grants (ai_scope i) scope_fields empty_scope = Inr eff \<Longrightarrow> thesis"
    with assms show thesis
      unfolding evaluate_autonomy_policy_def Let_def
      by (auto simp: denied dest: walk_layers_Inl
          split: option.splits confirmation_input.splits sum.splits if_splits)
  qed
  have e: "evaluate_autonomy_policy (i\<lparr>ai_confirmation := Confirmation cf'\<rparr>) = confirm_evaluation c oper cf' grants trace eff" for cf'
    unfolding evaluate_autonomy_policy_def Let_def layers by (simp add: stages del: walk_layers.simps)
  have "i\<lparr>ai_confirmation := Confirmation cf\<rparr> = i" using cf by simp
  then have eq: "evaluate_autonomy_policy i = confirm_evaluation c oper cf grants trace eff" using e [of cf] by simp
  have "list_ex (\<lambda>g. includes_opt (ag_confirmationRequired g) oper) grants" using assms unfolding eq by (rule asked)
  then show ?thesis by (rule that [OF cf _ eq e])
qed

lemma asking_answered:
  assumes "ae_decision (evaluate_autonomy_policy (build_policy_input i)) = RequiresConfirmation"
  shows "ae_confirmationRequired (evaluate_autonomy_policy (build_policy_input i))"
    "ae_decision (evaluate_autonomy_policy ((build_policy_input i)\<lparr>ai_confirmation :=
       Confirmation (missing_confirmation (Some (persisted_of v)))\<rparr>)) = (if v = DecisionApproved then Allowed else Denied)"
proof -
  obtain c oper cf grants trace eff where "ai_confirmation (build_policy_input i) = Confirmation cf"
    and asked: "list_ex (\<lambda>g. includes_opt (ag_confirmationRequired g) oper) grants"
    and e: "evaluate_autonomy_policy (build_policy_input i) = confirm_evaluation c oper cf grants trace eff"
      "\<And>cf'. evaluate_autonomy_policy ((build_policy_input i)\<lparr>ai_confirmation := Confirmation cf'\<rparr>)
         = confirm_evaluation c oper cf' grants trace eff"
    using assms by (rule asking_stages) (rule that; assumption)
  show "ae_confirmationRequired (evaluate_autonomy_policy (build_policy_input i))"
    using assms asked unfolding e(1) by (auto simp: confirm_evaluation_def denied_evaluation_def Let_def split: if_splits)
  show "ae_decision (evaluate_autonomy_policy ((build_policy_input i)\<lparr>ai_confirmation :=
       Confirmation (missing_confirmation (Some (persisted_of v)))\<rparr>)) = (if v = DecisionApproved then Allowed else Denied)"
    unfolding e(2) using asked
    by (cases v) (simp_all add: confirm_evaluation_def denied_evaluation_def missing_confirmation_def Let_def)
qed

lemma matched_record:
  assumes "lookup_autonomy_decision w e private r d = (d', Inr (LookupMatched x))"
  obtains u ds where "d = Stored (u, ds)" "x \<in> set ds" "is_persisted_decision (dw_hash w) (dw_num w) x"
    "fingerprint x = dr_requestFingerprint r" "\<not> decision_expired x (io_bodyNow e)"
  using assms unfolding lookup_autonomy_decision_def
proof (rule with_decisions_Inr)
  fix ds
  assume r: "read_decisions w private d = Inr ds"
    and "(let now = io_bodyNow e in
       (Inr (case List.find (\<lambda>x. fingerprint x = dr_requestFingerprint r) ds of
          Some exact \<Rightarrow> if decision_expired exact now then LookupExpired exact else LookupMatched exact
        | None \<Rightarrow>
            (case List.find (\<lambda>x. dr_scopeFingerprint (dd_request x) = dr_scopeFingerprint r
                     \<and> \<not> decision_expired x now) ds of
               Some prior \<Rightarrow> LookupPolicyChanged prior
             | None \<Rightarrow> LookupNone)), None)) = (Inr (LookupMatched x) :: decision_failure + decision_lookup, None)"
  then have f: "List.find (\<lambda>x. fingerprint x = dr_requestFingerprint r) ds = Some x" "\<not> decision_expired x (io_bodyNow e)"
    by (auto simp: Let_def split: option.splits if_splits)
  have x: "x \<in> set ds" "fingerprint x = dr_requestFingerprint r" using find_Some_iff_in [OF f(1)] by simp_all
  from x(1) read_Inr(1) [OF r] obtain u where "d = Stored (u, ds)" by auto
  moreover have "is_persisted_decision (dw_hash w) (dw_num w) x" using read_Inr(2) [OF r] x(1) by (simp add: list_all_iff)
  ultimately show thesis using that x f(2) by blast
qed (simp add: Let_def)

lemma normalized_all: "map normalized_path ps = map Inr ns \<Longrightarrow> ns = map normalize_autonomy_path ps"
proof (induction ps arbitrary: ns)
  case (Cons p ps)
  then obtain n ms where "ns = n # ms" by (cases ns) auto
  with Cons show ?case by (auto simp: normalized_path_def split: if_splits)
qed simp

text \<open>A stored decision with the fingerprint of a created request repeats that request.\<close>

lemma same_fingerprint_same_request:
  assumes "\<And>x y. hash x = hash y \<Longrightarrow> x = y" "create_autonomy_decision_request hash num i = Inr r"
    and "is_autonomy_decision_request hash num q" "canonical_text num max_argument_bytes (dr_normalizedArgs q)"
    and "list_all (\<lambda>p. p = normalize_autonomy_path p) (dr_paths q)"
    and "dr_requestFingerprint q = dr_requestFingerprint r"
  shows "q = r\<lparr>dr_paths := dr_paths q\<rparr> \<and> set (dr_paths q) = set (dr_paths r)"
proof -
  let ?i = "\<lambda>args. \<lparr>di_operation = dr_operation q, di_category = dr_category q, di_sourceId = dr_sourceId q,
                   di_runId = dr_runId q, di_sessionId = dr_sessionId q, di_actorId = dr_actorId q,
                   di_capabilityId = dr_capabilityId q, di_paths = Some (dr_paths q), di_arguments = Some args,
                   di_policy = dr_policy q\<rparr>"
  from assms(3) obtain args rebuilt where args: "json_parse num (dr_normalizedArgs q) = Some args"
    and c: "create_autonomy_decision_request hash num (?i args) = Inr rebuilt"
    and same: "dr_scopeFingerprint rebuilt = dr_scopeFingerprint q" "dr_requestFingerprint rebuilt = dr_requestFingerprint q"
    by (auto simp: is_autonomy_decision_request_def split: option.splits sum.splits)
  have "rebuilt = r"
    using fingerprints_bind [where hash = hash, OF assms(1) c assms(2)] same(2) assms(6) by simp
  note f = create_Inr [OF c, unfolded this]
  have "dr_normalizedArgs r = dr_normalizedArgs q"
    using f(10) assms(4) args by (simp add: canonical_text_def)
  moreover have "set (dr_paths r) = set (dr_paths q)"
  proof -
    from f(9) have "normalize_autonomy_paths (Some (dr_paths q)) = Inr (dr_paths r)" by simp
    then obtain ns where ns: "collect (map normalized_path (dr_paths q)) = Inr ns" "dr_paths r = sort (uniq ns)"
      by (auto simp: normalize_autonomy_paths_def path_list_def split: if_splits sum.splits)
    then have "map normalized_path (dr_paths q) = map Inr ns" by (simp add: collect_Inr)
    then have "ns = map normalize_autonomy_path (dr_paths q)" by (rule normalized_all)
    also have "\<dots> = dr_paths q" using assms(5) by (auto simp: list_all_iff intro!: map_idI)
    finally show ?thesis using ns(2) by simp
  qed
  ultimately show ?thesis using f(1-8,11) same \<open>rebuilt = r\<close> by (cases q; cases r) simp
qed

text \<open>A saved decision answers the operation it was asked for.\<close>

lemma saved_authorizes:
  assumes "on_file apart d" "prepare_authorization w e0 private0 uid i d0 = (d0', a0)" "au_status a0 = AuthRequiresConfirmation"
    and "au_request a0 = Some (sv_request p)" "save_autonomy_decision w e private p d = (d1, Inr (created, x))"
    and "\<forall>(e', private', oper) \<in> set h. \<not> decision_expired x (io_bodyNow e')" "\<not> decision_expired x (io_bodyNow e2)"
    and "prepare_authorization w e2 private2 uid i (run_decisions w h d1) = (d2, a)"
  shows "au_status a = (if sv_decision p = DecisionApproved then AuthAllowed else AuthDenied)
    \<or> (\<exists>f. au_lookup a = Some (Inl f))"
proof -
  let ?baseline = "evaluate_autonomy_policy (build_policy_input i)"
  from assms(2-4) obtain actorId where actor: "resolve_actor_id uid (az_actorId i) = Some actorId"
    and r: "authorization_request w actorId i = Inr (sv_request p)" and asked: "ae_decision ?baseline \<noteq> Denied"
    by (auto simp: prepare_authorization_def unavailable_def decide_lookup_def Let_def
        split: option.splits sum.splits if_splits prod.splits decision_lookup.splits)
  have asks: "ae_decision ?baseline = RequiresConfirmation"
    using asked baseline_not_allowed [of i] by (cases "ae_decision ?baseline") simp_all
  note answered = asking_answered [OF asks]
  obtain found where l: "lookup_autonomy_decision w e2 private2 (sv_request p) (run_decisions w h d1) = (d2, found)"
    and a: "a = decide_lookup i (sv_request p) found"
    using assms(8) actor r asks answered(1) by (auto simp: prepare_authorization_def Let_def split: prod.splits)
  note saved = save_holds [OF assms(5)]
  have d1: "d1 = run_decision w e private (Save p) d" using assms(5) by simp
  have "on_file apart d1" unfolding d1 by (rule run_decision_apart [OF assms(1)])
  from run_decisions_keep [OF this saved(1) assms(6)]
  have kept: "on_file apart (run_decisions w h d1)" "holds x (run_decisions w h d1)" by simp_all
  show ?thesis
  proof (cases found)
    case (Inr m)
    have "m = LookupMatched x"
      using lookup_held [OF kept assms(7)] l saved(2) Inr by simp
    with a Inr saved(3) answered(2) [of "sv_decision p"] show ?thesis by (simp add: decide_lookup_def Let_def)
  qed (use a in \<open>simp add: decide_lookup_def Let_def\<close>)
qed

section \<open>Properties\<close>

text \<open>
  C3. Nothing is authorized but what was approved: an operation is allowed only when the file holds an
  unexpired approval of exactly this request, the same operation, category, source, run, session,
  actor, capability, arguments, paths and policy (with a hash that has no collisions).
\<close>

theorem authorized_only_by_exact_approval:
  assumes "\<And>x y. dw_hash w x = dw_hash w y \<Longrightarrow> x = y"
    and "prepare_authorization w e private uid i d = (d', a)" "au_status a = AuthAllowed"
  shows "\<exists>actorId r x u ds. resolve_actor_id uid (az_actorId i) = Some actorId \<and> authorization_request w actorId i = Inr r
    \<and> d = Stored (u, ds) \<and> x \<in> set ds \<and> dd_decision x = DecisionApproved \<and> \<not> decision_expired x (io_bodyNow e)
    \<and> dd_request x = r\<lparr>dr_paths := dr_paths (dd_request x)\<rparr> \<and> set (dr_paths (dd_request x)) = set (dr_paths r)
    \<and> dr_operation r = az_operation i \<and> dr_category r = az_category i \<and> dr_sourceId r = az_sourceId i
    \<and> dr_runId r = az_runId i \<and> dr_sessionId r = az_sessionId i \<and> dr_actorId r = actorId"
proof -
  let ?baseline = "evaluate_autonomy_policy (build_policy_input i)"
  from assms(2,3) obtain actorId r where actor: "resolve_actor_id uid (az_actorId i) = Some actorId"
    and r: "authorization_request w actorId i = Inr r"
    and asked: "ae_decision ?baseline \<noteq> Denied" "ae_confirmationRequired ?baseline \<or> ae_decision ?baseline = Allowed"
    and found: "\<exists>found. lookup_autonomy_decision w e private r d = (d', found) \<and> a = decide_lookup i r found
      \<or> \<not> ae_confirmationRequired ?baseline"
    using asking_answered(1) [of i] by (cases "ae_decision ?baseline")
      (auto simp: prepare_authorization_def unavailable_def Let_def split: option.splits sum.splits if_splits prod.splits)
  have asks: "ae_decision ?baseline = RequiresConfirmation"
    using asked(1) baseline_not_allowed [of i] by (cases "ae_decision ?baseline") simp_all
  note asking_answered [OF asks]
  with found obtain found where l: "lookup_autonomy_decision w e private r d = (d', found)" "a = decide_lookup i r found" by blast
  with assms(3) obtain x where x: "found = Inr (LookupMatched x)"
    and allowed: "ae_decision (evaluate_autonomy_policy ((build_policy_input i)\<lparr>ai_confirmation :=
                    Confirmation (missing_confirmation (Some (persisted_of (dd_decision x))))\<rparr>)) = Allowed"
    by (auto simp: decide_lookup_def Let_def split: sum.splits decision_lookup.splits if_splits)
  have approved: "dd_decision x = DecisionApproved"
    using confirmation_asked [OF allowed] by (cases "dd_decision x") (simp_all add: missing_confirmation_def)
  obtain u ds where m: "d = Stored (u, ds)" "x \<in> set ds" "is_persisted_decision (dw_hash w) (dw_num w) x"
    "fingerprint x = dr_requestFingerprint r" "\<not> decision_expired x (io_bodyNow e)"
    using l(1) unfolding x by (rule matched_record)
  from r obtain di where c: "create_autonomy_decision_request (dw_hash w) (dw_num w) di = Inr r"
    and di: "di_operation di = az_operation i" "di_category di = az_category i" "di_sourceId di = az_sourceId i"
    "di_runId di = az_runId i" "di_sessionId di = az_sessionId i" "di_actorId di = actorId"
    by (auto simp: authorization_request_def Let_def split: sum.splits)
  have same: "dd_request x = r\<lparr>dr_paths := dr_paths (dd_request x)\<rparr> \<and> set (dr_paths (dd_request x)) = set (dr_paths r)"
    using m(3) by (intro same_fingerprint_same_request [OF assms(1) c _ _ _ m(4)]) (simp_all add: is_persisted_decision_def Let_def)
  note fields = create_Inr(1-6) [OF c, unfolded di]
  show ?thesis
    by (intro exI conjI) (rule actor r m(1,2,5) approved same [THEN conjunct1] same [THEN conjunct2] fields)+
qed

text \<open>
  And a person's decision takes effect: once the decision on the request an operation asked about
  is saved, every preparation of that operation that can read the file answers by it until it
  expires, allowed after an approval and denied after a denial.
\<close>

theorem saved_decision_authorizes:
  assumes "on_file apart d" "prepare_authorization w e0 private0 uid i d0 = (d0', a0)" "au_status a0 = AuthRequiresConfirmation"
    and "au_request a0 = Some (sv_request p)" "save_autonomy_decision w e private p d = (d1, Inr (created, x))"
    and "\<forall>(e', private', oper) \<in> set h. \<not> decision_expired x (io_bodyNow e')" "\<not> decision_expired x (io_bodyNow e2)"
    and "prepare_authorization w e2 private2 uid i (run_decisions w h d1) = (d2, a)"
  shows "au_status a = (if sv_decision p = DecisionApproved then AuthAllowed else AuthDenied)
    \<or> (\<exists>f. au_lookup a = Some (Inl f))"
  using assms by (rule saved_authorizes)

section \<open>A concrete operation\<close>

definition sample_creation :: authorization_input where
  "sample_creation = \<lparr>az_operation = ''create_file'', az_category = CatWrite, az_sourceId = ''src'', az_runId = ''run'',
     az_sessionId = ''ses'', az_actorId = Some ''os-user:501'', az_capabilityId = None, az_paths = Some [''src/a''], az_arguments = None\<rparr>"

definition operation_context :: json where
  "operation_context = JObj
       [(''level'', JNum (show_int 6)), (''category'', JStr (category_text CatWrite)), (''operation'', JStr ''create_file''),
        (''source'', layer_json (operation_layer LSource CatWrite ''create_file'' [''src/a''])),
        (''run'', layer_json (operation_layer LRun CatWrite ''create_file'' [''src/a''])),
        (''session'', layer_json (operation_layer LSession CatWrite ''create_file'' [''src/a''])),
        (''capability'', layer_json (operation_layer LCapability CatWrite ''create_file'' [''src/a''])),
        (''scope'', scope_json (operation_scope [''src/a'']))]"

definition text_of :: "json \<Rightarrow> string" where
  "text_of v = json_text (sorted_json v)"

definition operation_base :: "string \<Rightarrow> decision_request" where
  "operation_base fp = \<lparr>dr_operation = ''create_file'', dr_category = CatWrite, dr_sourceId = ''src'', dr_runId = ''run'',
      dr_sessionId = ''ses'', dr_actorId = ''os-user:501'', dr_capabilityId = ''workbench-core'', dr_paths = [''src/a''],
      dr_normalizedArgs = ''null'', dr_policy = \<lparr>ab_version = ''r16.2'', ab_fingerprint = fp, ab_context = text_of operation_context\<rparr>,
      dr_scopeFingerprint = [], dr_requestFingerprint = []\<rparr>"

lemma operation_layer_json:
  "layer_json (operation_layer n CatWrite oper ps) = JObj [(''name'', JStr (layer_text n)),
     (''grants'', JObj [(''write'', grant_json (operation_grant oper ps))])]"
  by (simp add: layer_json_def autonomy_categories_def operation_layer_def)

lemma operation_context_value: "canonical_value 0 operation_context = Inr (text_of operation_context)"
proof -
  have "\<exists>t. canonical_value 0 operation_context = Inr t"
    by (simp add: operation_context_def operation_layer_json grant_json_def operation_grant_def list_member_def
       scope_json_def operation_scope_def text_member_def canonical_value.simps)
  then show ?thesis using canonical_value_text by (auto simp: text_of_def)
qed

lemma operation_context_ok: "json_ok id operation_context"
  by (simp add: operation_context_def operation_layer_json grant_json_def operation_grant_def list_member_def
       scope_json_def operation_scope_def text_member_def) code_simp

lemma show_six: "show_int 6 = ''6''" by code_simp

lemma operation_context_size: "utf8_length (text_of operation_context) < 2000" "text_of operation_context \<noteq> []"
  by (simp_all add: text_of_def operation_context_def operation_layer_json grant_json_def operation_grant_def list_member_def
       scope_json_def operation_scope_def text_member_def object_text_def array_text_def member_text_def utf8_pieces
       string_text_def escape_char_def quote_char_def backslash_def show_six)

lemma utf8_bounds: "length s \<le> utf8_length s" "utf8_length s \<le> 2 * length s"
  by (induction s) (simp_all add: utf8_pieces)

lemma utf8_escape: "utf8_length (concat (map escape_char s)) \<le> 12 * length s"
proof (induction s)
  case (Cons c s)
  have "length (escape_char c) \<le> 6" by (simp add: escape_char_def)
  with utf8_bounds(2) [of "escape_char c"] Cons show ?case by (simp add: utf8_pieces)
qed (simp add: utf8_pieces)

lemma operation_binding:
  "fingerprint_policy_input hash 6 CatWrite ''create_file'' (\<lambda>name. operation_layer name CatWrite ''create_file'' [''src/a''])
     (operation_scope [''src/a'']) = Inr \<lparr>ab_version = ''r16.2'', ab_fingerprint = hash (policy_text ''r16.2'' (text_of operation_context)),
       ab_context = text_of operation_context\<rparr>"
proof -
  have "canonicalize_value max_context_bytes operation_context = Inr (text_of operation_context)"
    using operation_context_value operation_context_size by (simp add: canonicalize_value_def max_context_bytes_def)
  then show ?thesis using sample_ids(1)
    by (simp add: fingerprint_policy_input_def create_autonomy_policy_binding_def policy_version_def operation_context_def)
qed

definition operation_policy_text :: string where
  "operation_policy_text = policy_text ''r16.2'' (text_of operation_context)"

lemma operation_binding_valid:
  assumes "valid_hash fp" "hash operation_policy_text = fp"
  shows "valid_binding hash id (dr_policy (operation_base fp))"
proof -
  have c: "canonicalize_value max_context_bytes operation_context = Inr (text_of operation_context)"
    using operation_context_value operation_context_size by (simp add: canonicalize_value_def max_context_bytes_def)
  obtain v where "json_parse id (text_of operation_context) = Some v"
    "canonicalize_value max_context_bytes v = Inr (text_of operation_context)"
    using c operation_context_ok by (rule canonicalize_parse)
  then show ?thesis
    using assms operation_context_size sample_ids(1)
    by (simp add: valid_binding_def operation_base_def max_context_bytes_def operation_policy_text_def)
qed

definition operation_scope_text :: string where
  "operation_scope_text = text_of (JObj (scope_payload (operation_base [])))"

definition operation_request_text :: "string \<Rightarrow> string" where
  "operation_request_text fp = text_of (JObj (scope_payload (operation_base fp) @ [(''policy'', policy_json (dr_policy (operation_base fp)))]))"

lemma operation_payloads:
  assumes "length fp = 64"
  shows "canonicalize_value max_context_bytes (JObj (scope_payload (operation_base fp))) = Inr operation_scope_text"
    "canonicalize_value max_context_bytes (JObj (scope_payload (operation_base fp) @ [(''policy'', policy_json (dr_policy (operation_base fp)))]))
       = Inr (operation_request_text fp)"
proof -
  have len: "length (text_of operation_context) < 2000" using utf8_bounds(1) [of "text_of operation_context"] operation_context_size by simp
  note esc = utf8_escape [of "text_of operation_context"] utf8_escape [of fp]
  have eq: "scope_payload (operation_base fp) = scope_payload (operation_base [])" by (simp add: scope_payload_def operation_base_def)
  have "\<exists>t. canonical_value 0 (JObj (scope_payload (operation_base []))) = Inr t"
    by (simp add: canonical_value.simps scope_payload_def operation_base_def)
  then have a: "canonical_value 0 (JObj (scope_payload (operation_base fp))) = Inr operation_scope_text"
    unfolding eq operation_scope_text_def text_of_def using canonical_value_text by blast
  have "\<exists>t. canonical_value 0 (JObj (scope_payload (operation_base fp) @ [(''policy'', policy_json (dr_policy (operation_base fp)))])) = Inr t"
    using len assms by (simp add: canonical_value.simps scope_payload_def policy_json_def operation_base_def)
  then have b: "canonical_value 0 (JObj (scope_payload (operation_base fp) @ [(''policy'', policy_json (dr_policy (operation_base fp)))]))
      = Inr (operation_request_text fp)"
    unfolding operation_request_text_def text_of_def using canonical_value_text by blast
  have "utf8_length operation_scope_text \<le> 65536"
    by (simp add: operation_scope_text_def text_of_def scope_payload_def operation_base_def object_text_def array_text_def member_text_def
      utf8_pieces string_text_def escape_char_def quote_char_def backslash_def)
  moreover have "utf8_length (operation_request_text fp) \<le> 65536"
    using esc assms len
    by (simp add: operation_request_text_def text_of_def scope_payload_def policy_json_def operation_base_def object_text_def array_text_def
      member_text_def utf8_pieces string_text_def escape_char_def quote_char_def backslash_def)
  ultimately show "canonicalize_value max_context_bytes (JObj (scope_payload (operation_base fp))) = Inr operation_scope_text"
    "canonicalize_value max_context_bytes (JObj (scope_payload (operation_base fp) @ [(''policy'', policy_json (dr_policy (operation_base fp)))]))
       = Inr (operation_request_text fp)"
    using a b by (simp_all add: canonicalize_value_def max_context_bytes_def)
qed

definition operation_world :: "(string \<Rightarrow> string) \<Rightarrow> decision_world" where
  "operation_world hash = sample_world\<lparr>dw_hash := hash\<rparr>"

definition operation_request :: "(string \<Rightarrow> string) \<Rightarrow> decision_request" where
  "operation_request hash = (let fp = hash operation_policy_text in (operation_base fp)
     \<lparr>dr_scopeFingerprint := hash operation_scope_text, dr_requestFingerprint := hash (operation_request_text fp)\<rparr>)"

definition operation_record :: "(string \<Rightarrow> string) \<Rightarrow> decision_record" where
  "operation_record hash = sample_stored\<lparr>dd_request := operation_request hash\<rparr>"

definition hashes_well :: "(string \<Rightarrow> string) \<Rightarrow> bool" where
  "hashes_well hash = (\<forall>t \<in> {operation_policy_text, operation_scope_text, operation_request_text (hash operation_policy_text)}.
     valid_hash (hash t))"

lemma operation_paths: "normalize_autonomy_paths (Some [''src/a'']) = Inr [''src/a'']" "resolve_actor_id None (Some ''os-user:501'') = Some ''os-user:501''"
  by code_simp+

definition operation_input :: "(string \<Rightarrow> string) \<Rightarrow> decision_input" where
  "operation_input hash = \<lparr>di_operation = ''create_file'', di_category = CatWrite, di_sourceId = ''src'', di_runId = ''run'',
     di_sessionId = ''ses'', di_actorId = ''os-user:501'', di_capabilityId = ''workbench-core'', di_paths = Some [''src/a''],
     di_arguments = None, di_policy = dr_policy (operation_base (hash operation_policy_text))\<rparr>"

lemma operation_created:
  assumes "hashes_well hash"
  shows "create_autonomy_decision_request hash id (operation_input hash) = Inr (operation_request hash)"
    "authorization_request (operation_world hash) ''os-user:501'' sample_creation = Inr (operation_request hash)"
proof -
  let ?fp = "hash operation_policy_text"
  have valid: "valid_hash ?fp" using assms by (simp add: hashes_well_def)
  then have len: "length ?fp = 64" by (simp add: valid_hash_def)
  have args: "canonicalize_value max_argument_bytes JNull = Inr ''null''"
    by (simp add: canonicalize_value_def canonical_value.simps max_argument_bytes_def utf8_pieces)
  have id: "valid_id ''create_file''" by code_simp
  note binding = operation_binding_valid [where hash = hash, OF valid refl]
  have base: "\<lparr>dr_operation = ''create_file'', dr_category = CatWrite, dr_sourceId = ''src'', dr_runId = ''run'',
      dr_sessionId = ''ses'', dr_actorId = ''os-user:501'', dr_capabilityId = ''workbench-core'', dr_paths = [''src/a''],
      dr_normalizedArgs = ''null'', dr_policy = dr_policy (operation_base ?fp), dr_scopeFingerprint = [], dr_requestFingerprint = []\<rparr>
      = operation_base ?fp"
    by (simp add: operation_base_def)
  show created: "create_autonomy_decision_request hash id (operation_input hash) = Inr (operation_request hash)"
    using sample_ids(1) id args binding operation_paths(1) operation_payloads [OF len]
    by (simp add: create_autonomy_decision_request_def operation_input_def base create_scope_fingerprint_def
        create_request_fingerprint_def operation_request_def Let_def)
  have "\<lparr>ab_version = ''r16.2'', ab_fingerprint = hash (policy_text ''r16.2'' (text_of operation_context)),
       ab_context = text_of operation_context\<rparr> = dr_policy (operation_base ?fp)"
    by (simp add: operation_base_def operation_policy_text_def)
  with operation_binding [of hash] created
  show "authorization_request (operation_world hash) ''os-user:501'' sample_creation = Inr (operation_request hash)"
    by (simp add: authorization_request_def sample_creation_def operation_world_def sample_world_def path_list_def
        operation_input_def or_else_def truthy_def)
qed

lemma operation_recorded:
  assumes "hashes_well hash"
  shows "build_persisted_decision hash id ''autonomy-decision-1'' DecisionApproved (operation_request hash) ''os-user:501'' sample_evidence
     noon ''2026-01-01T12:15:00.000Z'' = Inr (operation_record hash)"
    "is_persisted_decision hash id (operation_record hash)"
proof -
  have hashes: "valid_hash (dr_scopeFingerprint (operation_request hash)) \<and> valid_hash (dr_requestFingerprint (operation_request hash))"
    using assms by (simp add: hashes_well_def operation_request_def Let_def)
  have plain: "\<And>v. di_arguments (operation_input hash) = Some v \<Longrightarrow> json_ok id v"
    "\<forall>p \<in> set (path_list (di_paths (operation_input hash))). spaceless p"
    using sample_recordable(1) by (simp_all add: operation_input_def path_list_def)
  from created_recordable [OF operation_created(1) [OF assms] hashes plain sample_recordable(2-), of DecisionApproved]
  obtain d where d: "build_persisted_decision hash id ''autonomy-decision-1'' DecisionApproved (operation_request hash) ''os-user:501''
      sample_evidence noon ''2026-01-01T12:15:00.000Z'' = Inr d" "is_persisted_decision hash id d" by blast
  then have "d = operation_record hash"
    by (auto simp: build_persisted_decision_def operation_record_def sample_stored_def Let_def split: if_splits)
  with d show "build_persisted_decision hash id ''autonomy-decision-1'' DecisionApproved (operation_request hash) ''os-user:501''
     sample_evidence noon ''2026-01-01T12:15:00.000Z'' = Inr (operation_record hash)"
    "is_persisted_decision hash id (operation_record hash)" by simp_all
qed

lemma operation_bytes:
  assumes "hashes_well hash"
  shows "store_bytes noon [operation_record hash] \<le> max_store_bytes"
proof -
  have len: "length (hash operation_policy_text) = 64" "length (hash operation_scope_text) = 64"
    "length (hash (operation_request_text (hash operation_policy_text))) = 64"
    using assms by (simp_all add: hashes_well_def valid_hash_def)
  have "length (text_of operation_context) < 2000" using utf8_bounds(1) [of "text_of operation_context"] operation_context_size by simp
  then show ?thesis
    using utf8_escape [of "text_of operation_context"] utf8_escape [of "hash operation_policy_text"] utf8_escape [of "hash operation_scope_text"]
      utf8_escape [of "hash (operation_request_text (hash operation_policy_text))"] len
    by (simp add: store_bytes_def record_json_def evidence_json_def policy_json_def sample_stored_def operation_record_def operation_request_def
      operation_base_def sample_evidence_def object_text_def array_text_def member_text_def utf8_pieces sample_leaf_sizes(3)
      string_text_def escape_char_def quote_char_def backslash_def Let_def max_store_bytes_def)
qed

lemma operation_times: "date_parse noon \<noteq> None" "\<not> decision_expired (operation_record hash) ten_past_noon"
  "\<not> decision_expired (operation_record hash) noon"
  using sample_times by (simp_all add: decision_expired_def operation_record_def)

lemma operation_readable:
  assumes "hashes_well hash"
  shows "read_decisions (operation_world hash) True (Stored (noon, [operation_record hash])) = Inr [operation_record hash]"
  using operation_recorded(2) [OF assms] operation_bytes [OF assms] operation_times(1)
  by (auto simp: read_decisions_def sample_world_def operation_world_def max_decisions_def default_max_records_def)

lemma operation_looked_up:
  assumes "hashes_well hash"
  shows "lookup_autonomy_decision (operation_world hash) (io_at ten_past_noon) True (operation_request hash) (Stored (noon, [operation_record hash]))
     = (Stored (noon, [operation_record hash]), Inr (LookupMatched (operation_record hash)))"
proof -
  have "dd_request (operation_record hash) = operation_request hash" by (simp add: operation_record_def)
  then show ?thesis
    using operation_readable [OF assms] operation_times(2)
    by (simp add: lookup_autonomy_decision_def with_decisions_def io_at_def)
qed

lemma operation_asks: "ae_decision (evaluate_autonomy_policy (build_policy_input sample_creation)) = RequiresConfirmation"
  by code_simp

lemma sample_operation_actor: "resolve_actor_id None (az_actorId sample_creation) = Some ''os-user:501''"
  using operation_paths(2) by (simp add: sample_creation_def)

lemma operation_allowed:
  assumes "hashes_well hash"
  shows "prepare_authorization (operation_world hash) (io_at ten_past_noon) True None sample_creation (Stored (noon, [operation_record hash]))
      = (Stored (noon, [operation_record hash]), decide_lookup sample_creation (operation_request hash) (Inr (LookupMatched (operation_record hash))))"
    "au_status (decide_lookup sample_creation (operation_request hash) (Inr (LookupMatched (operation_record hash)))) = AuthAllowed"
proof -
  have v: "dd_decision (operation_record hash) = DecisionApproved" by (simp add: operation_record_def sample_stored_def)
  note answered = asking_answered [OF operation_asks]
  show "prepare_authorization (operation_world hash) (io_at ten_past_noon) True None sample_creation (Stored (noon, [operation_record hash]))
      = (Stored (noon, [operation_record hash]), decide_lookup sample_creation (operation_request hash) (Inr (LookupMatched (operation_record hash))))"
    using sample_operation_actor operation_created(2) [OF assms] operation_looked_up [OF assms] operation_asks answered(1)
    by (simp add: prepare_authorization_def)
  show "au_status (decide_lookup sample_creation (operation_request hash) (Inr (LookupMatched (operation_record hash)))) = AuthAllowed"
    using answered(2) [of DecisionApproved] v by (simp add: decide_lookup_def Let_def)
qed

text \<open>A hash without collisions that has well-formed values where this operation needs them.\<close>

definition digest_of :: "char \<Rightarrow> string" where
  "digest_of c = replicate 64 c"

definition exchange_hash :: "string \<Rightarrow> string" where
  "exchange_hash x =
     (let t1 = operation_policy_text; t2 = operation_scope_text; t3 = operation_request_text (digest_of (CHR ''b''));
          d1 = digest_of (CHR ''b''); d2 = digest_of (CHR ''c''); d3 = digest_of (CHR ''d'')
      in if x = t1 then d1 else if x = d1 then t1 else if x = t2 then d2 else if x = d2 then t2
         else if x = t3 then d3 else if x = d3 then t3 else x)"

lemma digest_heads: "digest_of c = digest_of c' \<longleftrightarrow> c = c'" "hd (digest_of c) = c" "length (digest_of c) = 64"
  by (simp_all add: digest_of_def)

lemma operation_texts_differ: "operation_scope_text \<noteq> operation_request_text (digest_of c)"
proof
  assume eq: "operation_scope_text = operation_request_text (digest_of c)"
  note texts = operation_payloads [OF digest_heads(3), of c]
  have "same_json (JObj (scope_payload (operation_base (digest_of c))))
    (JObj (scope_payload (operation_base (digest_of c)) @ [(''policy'', policy_json (dr_policy (operation_base (digest_of c))))]))"
    using texts(2) payload_ok by (intro canonicalize_inject [OF texts(1) _ payload_ok(1) payload_ok(3)]) (simp add: eq)
  from same_member [OF this, of "''policy''"] show False
    by (simp add: scope_payload_def)
qed

lemma operation_text_heads: "hd operation_policy_text = CHR ''r''" "hd operation_scope_text = CHR ''{''" "hd (operation_request_text fp) = CHR ''{''"
  by (simp_all add: operation_policy_text_def policy_text_def operation_scope_text_def operation_request_text_def text_of_def object_text_def)

lemma exchange_distinct:
  "distinct [operation_policy_text, digest_of (CHR ''b''), operation_scope_text, digest_of (CHR ''c''),
     operation_request_text (digest_of (CHR ''b'')), digest_of (CHR ''d'')]"
  using operation_texts_differ [of "CHR ''b''"] digest_heads operation_text_heads operation_text_heads(3) [of "digest_of (CHR ''b'')"]
  by (auto simp: digest_heads(1) dest: arg_cong [where f = hd])

lemma exchange_twice: "exchange_hash (exchange_hash x) = x"
  using exchange_distinct by (auto simp: exchange_hash_def Let_def)

lemma exchange_inject: "exchange_hash x = exchange_hash y \<Longrightarrow> x = y"
  by (metis exchange_twice)

lemma digest_valid: "list_all valid_hash [digest_of (CHR ''b''), digest_of (CHR ''c''), digest_of (CHR ''d'')]"
  by code_simp

lemma exchange_well: "hashes_well exchange_hash"
proof -
  have h: "exchange_hash operation_policy_text = digest_of (CHR ''b'')" "exchange_hash operation_scope_text = digest_of (CHR ''c'')"
    "exchange_hash (operation_request_text (digest_of (CHR ''b''))) = digest_of (CHR ''d'')"
    using exchange_distinct by (auto simp: exchange_hash_def Let_def)
  then show ?thesis using digest_valid by (simp add: hashes_well_def)
qed

theorem authorized_only_by_exact_approval_witness:
  "\<exists>x u ds. Stored (noon, [operation_record exchange_hash]) = Stored (u, ds) \<and> x \<in> set ds \<and> dd_decision x = DecisionApproved
     \<and> \<not> decision_expired x ten_past_noon"
proof -
  have "exchange_hash = dw_hash (operation_world exchange_hash)" by (simp add: operation_world_def)
  then have inj: "\<And>x y. dw_hash (operation_world exchange_hash) x = dw_hash (operation_world exchange_hash) y \<Longrightarrow> x = y"
    using exchange_inject by metis
  have now: "io_bodyNow (io_at ten_past_noon) = ten_past_noon" by (simp add: io_at_def)
  show ?thesis
    using authorized_only_by_exact_approval [OF inj operation_allowed [OF exchange_well]] unfolding now by blast
qed

text \<open>The same operation, asked about, approved and then allowed.\<close>

lemma flat_well: "hashes_well flat_hash"
  by (simp add: hashes_well_def flat_hash_valid)

definition operation_save :: save_input where
  "operation_save = \<lparr>sv_request = operation_request flat_hash, sv_decision = DecisionApproved, sv_evidenceRef = sample_evidence,
     sv_actorId = ''os-user:501'', sv_createdAt = None, sv_expiresAt = ''2026-01-01T12:15:00.000Z''\<rparr>"

lemma operation_saved:
  "save_autonomy_decision (operation_world flat_hash) (io_at noon) True operation_save NoFile
     = (Stored (noon, [operation_record flat_hash]), Inr (True, operation_record flat_hash))"
proof -
  have b: "build_persisted_decision (dw_hash (operation_world flat_hash)) (dw_num (operation_world flat_hash)) (decision_prefix @ io_uuid (io_at noon))
      (sv_decision operation_save) (sv_request operation_save) (sv_actorId operation_save) (sv_evidenceRef operation_save)
      (or_else (sv_createdAt operation_save) (io_startNow (io_at noon))) (sv_expiresAt operation_save) = Inr (operation_record flat_hash)"
    using operation_recorded(1) [OF flat_well]
    by (simp add: operation_world_def sample_world_def io_at_def operation_save_def or_else_def truthy_def decision_prefix_def)
  show ?thesis
    unfolding save_autonomy_decision_def b sum.case using operation_bytes [OF flat_well]
    by (simp add: with_decisions_def io_at_def operation_world_def sample_world_def
        read_decisions_def save_candidate_def insert_decision_def Let_def max_decisions_def default_max_records_def persist_decisions_def
        js_sort_def write_disk_def)
qed

lemma operation_asked:
  "prepare_authorization (operation_world flat_hash) (io_at noon) True None sample_creation NoFile
     = (NoFile, decide_lookup sample_creation (operation_request flat_hash) (Inr LookupNone))"
  using sample_operation_actor operation_created(2) [OF flat_well] operation_asks asking_answered(1) [OF operation_asks]
  by (simp add: prepare_authorization_def lookup_autonomy_decision_def with_decisions_def io_at_def read_decisions_def)

theorem saved_decision_authorizes_witness:
  "au_status (snd (prepare_authorization (operation_world flat_hash) (io_at ten_past_noon) True None sample_creation
     (fst (save_autonomy_decision (operation_world flat_hash) (io_at noon) True operation_save NoFile)))) = AuthAllowed"
proof -
  have asked: "au_status (decide_lookup sample_creation (operation_request flat_hash) (Inr LookupNone)) = AuthRequiresConfirmation"
    "au_request (decide_lookup sample_creation (operation_request flat_hash) (Inr LookupNone)) = Some (sv_request operation_save)"
    by (simp_all add: decide_lookup_def Let_def operation_save_def)
  have times: "\<forall>(e', private', oper) \<in> set []. \<not> decision_expired (operation_record flat_hash) (io_bodyNow e')"
    "\<not> decision_expired (operation_record flat_hash) (io_bodyNow (io_at ten_past_noon))"
    using operation_times(2) by (simp_all add: io_at_def)
  have run: "prepare_authorization (operation_world flat_hash) (io_at ten_past_noon) True None sample_creation
      (run_decisions (operation_world flat_hash) [] (Stored (noon, [operation_record flat_hash])))
      = (Stored (noon, [operation_record flat_hash]), decide_lookup sample_creation (operation_request flat_hash) (Inr (LookupMatched (operation_record flat_hash))))"
    using operation_allowed(1) [OF flat_well] by (simp add: run_decisions_def)
  have "au_status (decide_lookup sample_creation (operation_request flat_hash) (Inr (LookupMatched (operation_record flat_hash)))) = AuthAllowed"
    using saved_decision_authorizes [OF _ operation_asked asked operation_saved times run]
    by (simp add: operation_save_def decide_lookup_def Let_def)
  then show ?thesis using operation_allowed(1) [OF flat_well] by (simp add: operation_saved)
qed

end
