(* ===== verification/Approval_Intents.thy ===== *)
theory Approval_Intents
  imports Decision_Store
begin

text \<open>
  \<^verbatim>\<open>packages/cli/src/agent/workbench-approval-intents.ts\<close>: the file of approvals an operation waits
  for. An intent is bound to a source, a run, a session, an operation and the digest of its
  request; a person approves or denies it while it is pending, and an approval is consumed by the
  operation. Whether a callback writes the file is its own affair, and an exception (a lock or a
  write that fails, a date that cannot be printed) passes through as \<open>None\<close>.
\<close>

section \<open>The file\<close>

datatype intent_status = IntPending | IntApproved | IntDenied | IntConsumed | IntExpired

record approval_intent =
  in_approvalId :: string
  in_sourceId :: string
  in_runId :: string
  in_sessionId :: "string option"
  in_requestId :: "string option"
  in_operationKind :: string
  in_paths :: "string list"
  in_reason :: string
  in_requestDigest :: string
  in_status :: intent_status
  in_createdAt :: string
  in_updatedAt :: string
  in_expiresAt :: string
  in_decidedAt :: "string option"
  in_consumedAt :: "string option"
  in_decisionRequest :: "decision_request option"
  in_evidenceRef :: "evidence_reference option"

type_synonym intent_disk = "(string \<times> approval_intent list) disk"

datatype intent_failure =
    IntentStoreBusy | IntentStoreCorrupt | IntentNotFound | IntentBindingMismatch | IntentNotPending

definition default_ttl :: int where "default_ttl = 15 * 60000"

definition max_intents :: nat where "max_intents = 500"

definition valid_text :: "string \<Rightarrow> nat \<Rightarrow> bool" where
  "valid_text s n = (s \<noteq> [] \<and> length s \<le> n)"

definition all_some :: "('a \<Rightarrow> bool) \<Rightarrow> 'a option \<Rightarrow> bool" where
  "all_some p v = (case v of None \<Rightarrow> True | Some x \<Rightarrow> p x)"

definition valid_intent :: "decision_world \<Rightarrow> approval_intent \<Rightarrow> bool" where
  "valid_intent w r =
     (valid_text (in_approvalId r) 200 \<and> valid_text (in_sourceId r) 200 \<and> valid_text (in_runId r) 200
      \<and> all_some (\<lambda>s. valid_text s 200) (in_sessionId r) \<and> all_some (\<lambda>s. valid_text s 200) (in_requestId r)
      \<and> valid_text (in_operationKind r) 120
      \<and> length (in_paths r) \<le> 32 \<and> list_all (\<lambda>p. length p \<le> 500) (in_paths r)
      \<and> valid_text (in_reason r) 160 \<and> valid_hash (in_requestDigest r)
      \<and> valid_iso (in_createdAt r) \<and> valid_iso (in_updatedAt r) \<and> valid_iso (in_expiresAt r)
      \<and> all_some valid_iso (in_decidedAt r) \<and> all_some valid_iso (in_consumedAt r)
      \<and> all_some (is_autonomy_decision_request (dw_hash w) (dw_num w)) (in_decisionRequest r)
      \<and> all_some (\<lambda>e. valid_iso (er_recordedAt e)) (in_evidenceRef r))"

definition read_intents :: "decision_world \<Rightarrow> intent_disk \<Rightarrow> intent_failure + approval_intent list" where
  "read_intents w d = (case read_list (valid_intent w) d of None \<Rightarrow> Inl IntentStoreCorrupt | Some rs \<Rightarrow> Inr rs)"

definition kept_intents :: "decision_world \<Rightarrow> approval_intent list \<Rightarrow> approval_intent list" where
  "kept_intents w rs = slice_last max_intents (js_sort (\<lambda>a b. dw_cmp w (in_createdAt a) (in_createdAt b)) rs)"

definition with_intents ::
  "decision_world \<Rightarrow> io_env \<Rightarrow> intent_disk
   \<Rightarrow> (approval_intent list \<Rightarrow> ((intent_failure + 'a) \<times> approval_intent list option) option)
   \<Rightarrow> intent_disk \<times> (intent_failure + 'a) option" where
  "with_intents w e d callback =
     (case io_lock e of
        LockFailed \<Rightarrow> (d, None)
      | LockBusy \<Rightarrow> (d, Some (Inl IntentStoreBusy))
      | LockTaken \<Rightarrow>
          (case read_intents w d of
             Inl f \<Rightarrow> (d, Some (Inl f))
           | Inr rs \<Rightarrow>
               (case callback rs of
                  None \<Rightarrow> (d, None)
                | Some (answer, None) \<Rightarrow> (d, Some answer)
                | Some (answer, Some rs') \<Rightarrow>
                    (let (d', ok) = write_disk e (io_saveNow e, kept_intents w rs') d
                     in (d', if ok then Some answer else None)))))"

section \<open>Operations\<close>

definition open_intent :: "approval_intent \<Rightarrow> bool" where
  "open_intent r = (in_status r = IntPending \<or> in_status r = IntApproved)"

definition run_out :: "string \<Rightarrow> approval_intent \<Rightarrow> bool" where
  "run_out now r =
     (open_intent r \<and> (case (date_parse (in_expiresAt r), date_parse now) of (Some x, Some n) \<Rightarrow> x \<le> n | _ \<Rightarrow> False))"

definition expire_intent :: "string \<Rightarrow> approval_intent \<Rightarrow> approval_intent" where
  "expire_intent now r = (if run_out now r then r\<lparr>in_status := IntExpired, in_updatedAt := now\<rparr> else r)"

definition expire_intents :: "string \<Rightarrow> approval_intent list \<Rightarrow> approval_intent list" where
  "expire_intents now rs = map (expire_intent now) rs"

record intent_binding =
  ib_sourceId :: string
  ib_runId :: string
  ib_sessionId :: "string option"
  ib_operationKind :: string
  ib_requestDigest :: string

definition bound_to :: "intent_binding \<Rightarrow> approval_intent \<Rightarrow> bool" where
  "bound_to b r =
     (in_sourceId r = ib_sourceId b \<and> in_runId r = ib_runId b \<and> in_sessionId r = ib_sessionId b
      \<and> in_operationKind r = ib_operationKind b \<and> in_requestDigest r = ib_requestDigest b)"

record ensure_input =
  en_binding :: intent_binding
  en_requestId :: "string option"
  en_paths :: "string list"
  en_reason :: string
  en_decisionRequest :: "decision_request option"
  en_evidenceRef :: "evidence_reference option"
  en_ttlMs :: "int option"

definition keep_or :: "'a option \<Rightarrow> 'a option \<Rightarrow> 'a option" where
  "keep_or old new = (if old = None then new else old)"

definition fill_intent :: "ensure_input \<Rightarrow> approval_intent \<Rightarrow> approval_intent" where
  "fill_intent p r =
     r\<lparr>in_decisionRequest := keep_or (in_decisionRequest r) (en_decisionRequest p),
       in_evidenceRef := keep_or (in_evidenceRef r) (en_evidenceRef p)\<rparr>"

definition intent_ttl :: "int option \<Rightarrow> int" where
  "intent_ttl ttl =
     max 30000 (min (case ttl of None \<Rightarrow> default_ttl | Some n \<Rightarrow> if n = 0 then default_ttl else n) (60 * 60000))"

definition present_text :: "string option \<Rightarrow> string option" where
  "present_text v = (if truthy v then v else None)"

definition new_intent :: "ensure_input \<Rightarrow> string \<Rightarrow> string \<Rightarrow> string \<Rightarrow> approval_intent" where
  "new_intent p uuid now expiresAt =
     \<lparr>in_approvalId = ''approval-'' @ uuid, in_sourceId = ib_sourceId (en_binding p), in_runId = ib_runId (en_binding p),
      in_sessionId = present_text (ib_sessionId (en_binding p)), in_requestId = present_text (en_requestId p),
      in_operationKind = take 120 (ib_operationKind (en_binding p)), in_paths = take 32 (uniq (en_paths p)),
      in_reason = take 160 (en_reason p), in_requestDigest = ib_requestDigest (en_binding p), in_status = IntPending,
      in_createdAt = now, in_updatedAt = now, in_expiresAt = expiresAt, in_decidedAt = None, in_consumedAt = None,
      in_decisionRequest = en_decisionRequest p, in_evidenceRef = en_evidenceRef p\<rparr>"

definition ensure_intent ::
  "ensure_input \<Rightarrow> string \<Rightarrow> string \<Rightarrow> approval_intent list
   \<Rightarrow> ((intent_failure + bool \<times> approval_intent) \<times> approval_intent list option) option" where
  "ensure_intent p uuid now rs0 =
     (let rs = expire_intents now rs0; hit = (\<lambda>r. bound_to (en_binding p) r \<and> open_intent r) in
      case List.find hit rs of
        Some existing \<Rightarrow>
          (case (en_decisionRequest p, in_decisionRequest existing) of
             (Some q, Some old) \<Rightarrow>
               if dr_requestFingerprint old \<noteq> dr_requestFingerprint q then Some (Inl IntentBindingMismatch, None)
               else Some (Inr (False, fill_intent p existing), Some (modify_first hit (fill_intent p) rs))
           | _ \<Rightarrow> Some (Inr (False, fill_intent p existing), Some (modify_first hit (fill_intent p) rs)))
      | None \<Rightarrow>
          (case date_parse now of
             None \<Rightarrow> None
           | Some n \<Rightarrow>
               (case to_iso (n + intent_ttl (en_ttlMs p)) of
                  None \<Rightarrow> None
                | Some expiresAt \<Rightarrow>
                    (let r = new_intent p uuid now expiresAt in Some (Inr (True, r), Some (rs @ [r]))))))"

definition ensure_pending_approval_intent ::
  "decision_world \<Rightarrow> io_env \<Rightarrow> ensure_input \<Rightarrow> intent_disk \<Rightarrow> intent_disk \<times> (intent_failure + bool \<times> approval_intent) option" where
  "ensure_pending_approval_intent w e p d = with_intents w e d (ensure_intent p (io_uuid e) (io_bodyNow e))"

definition get_intent ::
  "string \<Rightarrow> string \<Rightarrow> approval_intent list \<Rightarrow> ((intent_failure + approval_intent option) \<times> approval_intent list option) option" where
  "get_intent i now rs =
     (let hit = (\<lambda>r. in_approvalId r = i) in
      case List.find hit rs of
        None \<Rightarrow> Some (Inr None, None)
      | Some r \<Rightarrow>
          if run_out now r then Some (Inr (Some (expire_intent now r)), Some (modify_first hit (expire_intent now) rs))
          else Some (Inr (Some r), None))"

definition get_pending_approval_intent ::
  "decision_world \<Rightarrow> io_env \<Rightarrow> string \<Rightarrow> intent_disk \<Rightarrow> intent_disk \<times> (intent_failure + approval_intent option) option" where
  "get_pending_approval_intent w e i d = with_intents w e d (get_intent i (io_bodyNow e))"

datatype intent_decision = Approve | Deny

primrec decided_status :: "intent_decision \<Rightarrow> intent_status" where
  "decided_status Approve = IntApproved"
| "decided_status Deny = IntDenied"

record decide_input =
  dc_approvalId :: string
  dc_sourceId :: string
  dc_runId :: string
  dc_sessionId :: "string option"
  dc_decision :: intent_decision

definition settle_intent :: "intent_status \<Rightarrow> string \<Rightarrow> approval_intent \<Rightarrow> approval_intent" where
  "settle_intent st now r = r\<lparr>in_status := st, in_decidedAt := Some now, in_updatedAt := now\<rparr>"

definition decide_intent ::
  "decide_input \<Rightarrow> string \<Rightarrow> approval_intent list
   \<Rightarrow> ((intent_failure + bool \<times> approval_intent) \<times> approval_intent list option) option" where
  "decide_intent p now rs0 =
     (let rs = expire_intents now rs0; hit = (\<lambda>r. in_approvalId r = dc_approvalId p); st = decided_status (dc_decision p) in
      case List.find hit rs of
        None \<Rightarrow> Some (Inl IntentNotFound, None)
      | Some r \<Rightarrow>
          if in_sourceId r \<noteq> dc_sourceId p \<or> in_runId r \<noteq> dc_runId p \<or> in_sessionId r \<noteq> dc_sessionId p
          then Some (Inl IntentBindingMismatch, None)
          else if in_status r = st then Some (Inr (False, r), None)
          else if in_status r \<noteq> IntPending
          then Some (Inl IntentNotPending, if in_status r = IntExpired then Some rs else None)
          else Some (Inr (True, settle_intent st now r), Some (modify_first hit (settle_intent st now) rs)))"

definition decide_pending_approval_intent ::
  "decision_world \<Rightarrow> io_env \<Rightarrow> decide_input \<Rightarrow> intent_disk \<Rightarrow> intent_disk \<times> (intent_failure + bool \<times> approval_intent) option" where
  "decide_pending_approval_intent w e p d = with_intents w e d (decide_intent p (io_bodyNow e))"

definition consume_intent :: "string \<Rightarrow> approval_intent \<Rightarrow> approval_intent" where
  "consume_intent now r = r\<lparr>in_status := IntConsumed, in_consumedAt := Some now, in_updatedAt := now\<rparr>"

text \<open>
  The two ways to consume: after a confirmed success whatever is still open, before an operation
  only what was approved; the second writes the expiries also when it consumes nothing.
\<close>

definition consumable :: "bool \<Rightarrow> intent_binding \<Rightarrow> approval_intent \<Rightarrow> bool" where
  "consumable approvedOnly b r =
     (bound_to b r \<and> (if approvedOnly then in_status r = IntApproved else open_intent r))"

definition consume_intents ::
  "bool \<Rightarrow> intent_binding \<Rightarrow> string \<Rightarrow> approval_intent list
   \<Rightarrow> ((intent_failure + approval_intent option) \<times> approval_intent list option) option" where
  "consume_intents approvedOnly b now rs0 =
     (let rs = expire_intents now rs0; hit = consumable approvedOnly b in
      case List.find hit rs of
        None \<Rightarrow> Some (Inr None, if approvedOnly then Some rs else None)
      | Some r \<Rightarrow> Some (Inr (Some (consume_intent now r)), Some (modify_first hit (consume_intent now) rs)))"

definition consume_matching_approval_intent ::
  "decision_world \<Rightarrow> io_env \<Rightarrow> intent_binding \<Rightarrow> intent_disk \<Rightarrow> intent_disk \<times> (intent_failure + approval_intent option) option" where
  "consume_matching_approval_intent w e b d = with_intents w e d (consume_intents False b (io_bodyNow e))"

definition consume_approved_approval_intent ::
  "decision_world \<Rightarrow> io_env \<Rightarrow> intent_binding \<Rightarrow> intent_disk \<Rightarrow> intent_disk \<times> (intent_failure + approval_intent option) option" where
  "consume_approved_approval_intent w e b d = with_intents w e d (consume_intents True b (io_bodyNow e))"

text \<open>Any operation, for histories; of its answer, the intent it consumed.\<close>

datatype intent_op = Ensure ensure_input | Get string | Decide decide_input | Consume bool intent_binding

definition consumed_of :: "(intent_failure + approval_intent option) option \<Rightarrow> string option" where
  "consumed_of a = (case a of Some (Inr (Some r)) \<Rightarrow> Some (in_approvalId r) | _ \<Rightarrow> None)"

primrec run_intent :: "decision_world \<Rightarrow> io_env \<Rightarrow> intent_op \<Rightarrow> intent_disk \<Rightarrow> intent_disk \<times> string option" where
  "run_intent w e (Ensure p) d = (fst (ensure_pending_approval_intent w e p d), None)"
| "run_intent w e (Get i) d = (fst (get_pending_approval_intent w e i d), None)"
| "run_intent w e (Decide p) d = (fst (decide_pending_approval_intent w e p d), None)"
| "run_intent w e (Consume approvedOnly b) d =
     (if approvedOnly then map_prod id consumed_of (consume_approved_approval_intent w e b d)
      else map_prod id consumed_of (consume_matching_approval_intent w e b d))"

section \<open>How an intent moves\<close>

text \<open>One step of one intent: untouched, expired, filled, decided or consumed.\<close>

definition intent_moves :: "io_env \<Rightarrow> intent_op \<Rightarrow> approval_intent \<Rightarrow> approval_intent \<Rightarrow> bool" where
  "intent_moves e oper r r' =
     (let now = io_bodyNow e; x = expire_intent now r in
      r' = r \<or> r' = x
      \<or> (\<exists>p. oper = Ensure p \<and> r' = fill_intent p x)
      \<or> (\<exists>p. oper = Decide p \<and> in_approvalId r = dc_approvalId p \<and> in_sourceId r = dc_sourceId p
           \<and> in_runId r = dc_runId p \<and> in_sessionId r = dc_sessionId p \<and> in_status x = IntPending
           \<and> r' = settle_intent (decided_status (dc_decision p)) now x)
      \<or> (\<exists>a b. oper = Consume a b \<and> consumable a b x \<and> r' = consume_intent now x))"

definition intent_written :: "io_env \<Rightarrow> intent_op \<Rightarrow> approval_intent list \<Rightarrow> approval_intent list \<Rightarrow> bool" where
  "intent_written e oper rs rs' =
     (\<forall>r' \<in> set rs'. (\<exists>p expiresAt. oper = Ensure p \<and> r' = new_intent p (io_uuid e) (io_bodyNow e) expiresAt)
        \<or> (\<exists>r \<in> set rs. intent_moves e oper r r'))"

lemma expire_fields [simp]:
  "in_approvalId (expire_intent now r) = in_approvalId r" "in_sourceId (expire_intent now r) = in_sourceId r"
  "in_runId (expire_intent now r) = in_runId r" "in_sessionId (expire_intent now r) = in_sessionId r"
  "bound_to b (expire_intent now r) = bound_to b r"
  by (simp_all add: expire_intent_def bound_to_def)

lemma intent_moves_expire [simp]: "intent_moves e oper r r" "intent_moves e oper r (expire_intent (io_bodyNow e) r)"
  by (simp_all add: intent_moves_def Let_def)

lemma in_expired: "x \<in> set (expire_intents now rs) \<longleftrightarrow> (\<exists>r \<in> set rs. x = expire_intent now r)"
  by (auto simp: expire_intents_def)

lemma expired_moves: "r' \<in> set (expire_intents (io_bodyNow e) rs) \<Longrightarrow> \<exists>r \<in> set rs. intent_moves e oper r r'"
  unfolding in_expired using intent_moves_expire(2) by blast

lemma written_expired: "intent_written e oper rs (expire_intents (io_bodyNow e) rs)"
  using expired_moves by (auto simp: intent_written_def)

text \<open>Changing the first intent that satisfies a test moves the others as their expiry does.\<close>

lemma written_modified:
  assumes "\<And>r. r \<in> set rs \<Longrightarrow> List.find hit (expire_intents (io_bodyNow e) rs) = Some (expire_intent (io_bodyNow e) r)
      \<Longrightarrow> intent_moves e oper r (f (expire_intent (io_bodyNow e) r))"
  shows "intent_written e oper rs (modify_first hit f (expire_intents (io_bodyNow e) rs))"
  unfolding intent_written_def
proof
  fix r'
  assume "r' \<in> set (modify_first hit f (expire_intents (io_bodyNow e) rs))"
  from set_modify_first [OF this] show
    "(\<exists>p expiresAt. oper = Ensure p \<and> r' = new_intent p (io_uuid e) (io_bodyNow e) expiresAt)
     \<or> (\<exists>r \<in> set rs. intent_moves e oper r r')"
  proof
    assume "r' \<in> set (expire_intents (io_bodyNow e) rs)"
    then show ?thesis using expired_moves by blast
  next
    assume "\<exists>x. List.find hit (expire_intents (io_bodyNow e) rs) = Some x \<and> r' = f x"
    then obtain x where x: "List.find hit (expire_intents (io_bodyNow e) rs) = Some x" "r' = f x" by blast
    then obtain r where "r \<in> set rs" "x = expire_intent (io_bodyNow e) r"
      using find_Some_iff_in [OF x(1)] by (auto simp: in_expired)
    with x assms show ?thesis by blast
  qed
qed

lemma find_expired:
  assumes "List.find hit (expire_intents now rs) = Some (expire_intent now r)"
  shows "hit (expire_intent now r)"
  using find_Some_iff_in [OF assms] by simp

lemma written_ensure:
  assumes "ensure_intent p (io_uuid e) (io_bodyNow e) rs = Some (answer, Some rs')"
  shows "intent_written e (Ensure p) rs rs'"
proof -
  let ?hit = "\<lambda>r. bound_to (en_binding p) r \<and> open_intent r"
  have "rs' = modify_first ?hit (fill_intent p) (expire_intents (io_bodyNow e) rs)
     \<or> (\<exists>x. rs' = expire_intents (io_bodyNow e) rs @ [new_intent p (io_uuid e) (io_bodyNow e) x])"
    using assms by (auto simp: ensure_intent_def Let_def split: option.splits if_splits)
  then show ?thesis
  proof
    assume rs': "rs' = modify_first ?hit (fill_intent p) (expire_intents (io_bodyNow e) rs)"
    show ?thesis unfolding rs' by (rule written_modified) (simp add: intent_moves_def Let_def)
  next
    assume "\<exists>x. rs' = expire_intents (io_bodyNow e) rs @ [new_intent p (io_uuid e) (io_bodyNow e) x]"
    then obtain x where rs': "rs' = expire_intents (io_bodyNow e) rs @ [new_intent p (io_uuid e) (io_bodyNow e) x]" by blast
    show ?thesis
      unfolding intent_written_def
    proof
      fix r'
      assume "r' \<in> set rs'"
      then consider "r' = new_intent p (io_uuid e) (io_bodyNow e) x" | "r' \<in> set (expire_intents (io_bodyNow e) rs)"
        unfolding rs' by auto
      then show "(\<exists>q expiresAt. Ensure p = Ensure q \<and> r' = new_intent q (io_uuid e) (io_bodyNow e) expiresAt)
        \<or> (\<exists>r \<in> set rs. intent_moves e (Ensure p) r r')"
        by cases (blast, use expired_moves in blast)
    qed
  qed
qed

lemma written_get:
  assumes "get_intent i (io_bodyNow e) rs = Some (answer, Some rs')"
  shows "intent_written e (Get i) rs rs'"
proof -
  have rs': "rs' = modify_first (\<lambda>r. in_approvalId r = i) (expire_intent (io_bodyNow e)) rs"
    using assms by (auto simp: get_intent_def Let_def split: option.splits if_splits)
  have "\<exists>r \<in> set rs. intent_moves e (Get i) r r'" if "r' \<in> set rs'" for r'
    using set_modify_first [OF that [unfolded rs']]
  proof
    assume "\<exists>x. List.find (\<lambda>r. in_approvalId r = i) rs = Some x \<and> r' = expire_intent (io_bodyNow e) x"
    then obtain x where x: "List.find (\<lambda>r. in_approvalId r = i) rs = Some x" "r' = expire_intent (io_bodyNow e) x" by blast
    have "intent_moves e (Get i) x r'" unfolding x(2) by (rule intent_moves_expire)
    then show ?thesis using find_Some_iff_in [OF x(1)] by blast
  qed (use intent_moves_expire(1) in blast)
  then show ?thesis by (simp add: intent_written_def)
qed

lemma written_decide:
  assumes "decide_intent p (io_bodyNow e) rs = Some (answer, Some rs')"
  shows "intent_written e (Decide p) rs rs'"
proof (cases "rs' = expire_intents (io_bodyNow e) rs")
  case False
  let ?hit = "\<lambda>r. in_approvalId r = dc_approvalId p" and ?f = "settle_intent (decided_status (dc_decision p)) (io_bodyNow e)"
  from assms False obtain x where x: "List.find ?hit (expire_intents (io_bodyNow e) rs) = Some x"
    "in_sourceId x = dc_sourceId p" "in_runId x = dc_runId p" "in_sessionId x = dc_sessionId p" "in_status x = IntPending"
    and rs': "rs' = modify_first ?hit ?f (expire_intents (io_bodyNow e) rs)"
    by (auto simp: decide_intent_def Let_def split: option.splits if_splits)
  show ?thesis
    unfolding rs'
  proof (rule written_modified)
    fix r
    assume r: "List.find ?hit (expire_intents (io_bodyNow e) rs) = Some (expire_intent (io_bodyNow e) r)"
    with x(1) have "x = expire_intent (io_bodyNow e) r" by simp
    with x(2-) find_expired [OF r] show "intent_moves e (Decide p) r (?f (expire_intent (io_bodyNow e) r))"
      by (simp add: intent_moves_def Let_def)
  qed
qed (simp add: written_expired)

lemma written_consume:
  assumes "consume_intents a b (io_bodyNow e) rs = Some (answer, Some rs')"
  shows "intent_written e (Consume a b) rs rs'"
proof (cases "rs' = expire_intents (io_bodyNow e) rs")
  case False
  let ?hit = "consumable a b"
  from assms False have rs': "rs' = modify_first ?hit (consume_intent (io_bodyNow e)) (expire_intents (io_bodyNow e) rs)"
    by (auto simp: consume_intents_def Let_def split: option.splits if_splits)
  show ?thesis
    unfolding rs'
  proof (rule written_modified)
    fix r
    assume r: "List.find ?hit (expire_intents (io_bodyNow e) rs) = Some (expire_intent (io_bodyNow e) r)"
    from find_expired [OF r] show "intent_moves e (Consume a b) r (consume_intent (io_bodyNow e) (expire_intent (io_bodyNow e) r))"
      unfolding intent_moves_def Let_def by auto
  qed
qed (simp add: written_expired)

lemma with_intents_changed:
  assumes "fst (with_intents w e d callback) \<noteq> d"
  obtains rs answer rs' where "read_intents w d = Inr rs" "callback rs = Some (answer, Some rs')"
    "fst (with_intents w e d callback) = Stored (io_saveNow e, kept_intents w rs')"
  using assms
  by (auto simp: with_intents_def write_disk_def Let_def
      split: lock_outcome.splits sum.splits option.splits prod.splits write_outcome.splits)

lemma run_intent_changed:
  assumes "fst (run_intent w e oper d) \<noteq> d"
  obtains rs rs' where "read_intents w d = Inr rs" "fst (run_intent w e oper d) = Stored (io_saveNow e, kept_intents w rs')"
    "intent_written e oper rs rs'"
proof (cases oper)
  case (Ensure p)
  then have run: "fst (run_intent w e oper d) = fst (with_intents w e d (ensure_intent p (io_uuid e) (io_bodyNow e)))"
    by (simp add: ensure_pending_approval_intent_def)
  from assms [unfolded run] show ?thesis
    by (rule with_intents_changed) (use that run written_ensure Ensure in metis)
next
  case (Get i)
  then have run: "fst (run_intent w e oper d) = fst (with_intents w e d (get_intent i (io_bodyNow e)))"
    by (simp add: get_pending_approval_intent_def)
  from assms [unfolded run] show ?thesis
    by (rule with_intents_changed) (use that run written_get Get in metis)
next
  case (Decide p)
  then have run: "fst (run_intent w e oper d) = fst (with_intents w e d (decide_intent p (io_bodyNow e)))"
    by (simp add: decide_pending_approval_intent_def)
  from assms [unfolded run] show ?thesis
    by (rule with_intents_changed) (use that run written_decide Decide in metis)
next
  case (Consume a b)
  then have run: "fst (run_intent w e oper d) = fst (with_intents w e d (consume_intents a b (io_bodyNow e)))"
    by (cases a) (simp_all add: consume_approved_approval_intent_def consume_matching_approval_intent_def)
  from assms [unfolded run] show ?thesis
    by (rule with_intents_changed) (use that run written_consume Consume in metis)
qed

type_synonym intent_history = "(io_env \<times> intent_op) list"

definition run_intents :: "decision_world \<Rightarrow> intent_history \<Rightarrow> intent_disk \<Rightarrow> intent_disk" where
  "run_intents w h d = foldl (\<lambda>d (e, oper). fst (run_intent w e oper d)) d h"

text \<open>A closed intent does not move.\<close>

definition settled :: "intent_status \<Rightarrow> string \<Rightarrow> approval_intent list \<Rightarrow> bool" where
  "settled st i rs = (\<forall>r \<in> set rs. in_approvalId r = i \<longrightarrow> in_status r = st)"

lemma moves_id: "intent_moves e oper r r' \<Longrightarrow> in_approvalId r' = in_approvalId r \<and> in_sourceId r' = in_sourceId r
    \<and> in_runId r' = in_runId r \<and> in_sessionId r' = in_sessionId r"
  by (auto simp: intent_moves_def Let_def fill_intent_def settle_intent_def consume_intent_def)

lemma closed_unexpired: "\<not> open_intent r \<Longrightarrow> expire_intent now r = r"
  by (simp add: expire_intent_def run_out_def)

lemma moves_closed:
  assumes "intent_moves e oper r r'" "\<not> open_intent r"
  shows "in_status r' = in_status r"
  using assms closed_unexpired [OF assms(2)]
  by (auto simp: intent_moves_def Let_def fill_intent_def consumable_def open_intent_def split: if_splits)

lemma set_kept: "set (kept_intents w rs) \<subseteq> set rs"
  using set_slice_last_subset unfolding kept_intents_def by (metis set_js_sort)

lemma read_intents_file: "read_intents w d = Inr rs \<Longrightarrow> rs = [] \<or> (\<exists>u. d = Stored (u, rs))"
  by (auto simp: read_intents_def split: option.splits dest: read_list_Some)

lemma read_intents_on_file: "read_intents w d = Inr rs \<Longrightarrow> on_file P d \<Longrightarrow> P [] \<Longrightarrow> P rs"
  by (auto dest!: read_intents_file)

lemma run_intent_settled:
  assumes "on_file (settled st i) d" "st \<noteq> IntPending" "st \<noteq> IntApproved" "''approval-'' @ io_uuid e \<noteq> i"
  shows "on_file (settled st i) (fst (run_intent w e oper d))"
proof (cases "fst (run_intent w e oper d) = d")
  case False
  then obtain rs rs' where r: "read_intents w d = Inr rs" "fst (run_intent w e oper d) = Stored (io_saveNow e, kept_intents w rs')"
    "intent_written e oper rs rs'" by (rule run_intent_changed)
  have old: "settled st i rs" using read_intents_on_file [OF r(1) assms(1)] by (simp add: settled_def)
  have "in_status r' = st" if r': "r' \<in> set rs'" "in_approvalId r' = i" for r'
  proof -
    have "\<not> (\<exists>p expiresAt. r' = new_intent p (io_uuid e) (io_bodyNow e) expiresAt)"
      using r'(2) assms(4) by (auto simp: new_intent_def)
    moreover from r(3) r'(1) have "(\<exists>p expiresAt. oper = Ensure p \<and> r' = new_intent p (io_uuid e) (io_bodyNow e) expiresAt)
        \<or> (\<exists>r \<in> set rs. intent_moves e oper r r')" unfolding intent_written_def by (rule bspec)
    ultimately obtain x where x: "x \<in> set rs" "intent_moves e oper x r'" by auto
    then have "in_status x = st" using old r'(2) moves_id [OF x(2)] by (simp add: settled_def)
    then show ?thesis using moves_closed [OF x(2)] assms(2,3) by (simp add: open_intent_def)
  qed
  then show ?thesis using r(2) set_kept [of w rs'] by (auto simp: settled_def)
qed (use assms(1) in simp)

lemma run_intents_settled:
  assumes "on_file (settled st i) d" "st \<noteq> IntPending" "st \<noteq> IntApproved" "\<forall>(e, oper) \<in> set h. ''approval-'' @ io_uuid e \<noteq> i"
  shows "on_file (settled st i) (run_intents w h d)"
  using assms(1,4)
proof (induction h arbitrary: d)
  case (Cons s h)
  obtain e oper where s: "s = (e, oper)" by (cases s)
  have "on_file (settled st i) (fst (run_intent w e oper d))"
    using Cons.prems assms(2,3) by (intro run_intent_settled) (auto simp: s)
  with Cons show ?case by (auto simp: run_intents_def s)
qed (simp add: run_intents_def)

text \<open>What an answer of consumption says of the file before and after.\<close>

lemma with_intents_Inr:
  assumes "with_intents w e d callback = (d', Some (Inr v))"
  obtains (kept) rs where "read_intents w d = Inr rs" "callback rs = Some (Inr v, None)" "d' = d"
  | (written) rs rs' where "read_intents w d = Inr rs" "callback rs = Some (Inr v, Some rs')"
      "d' = Stored (io_saveNow e, kept_intents w rs')"
  using assms
  by (auto simp: with_intents_def write_disk_def Let_def
      split: lock_outcome.splits sum.splits option.splits prod.splits write_outcome.splits if_splits)

lemma consumed_intent:
  assumes "with_intents w e d (consume_intents a b (io_bodyNow e)) = (d', Some (Inr (Some y)))"
  obtains rs x where "read_intents w d = Inr rs" "x \<in> set (expire_intents (io_bodyNow e) rs)" "consumable a b x"
    "y = consume_intent (io_bodyNow e) x"
    "List.find (consumable a b) (expire_intents (io_bodyNow e) rs) = Some x"
    "d' = Stored (io_saveNow e, kept_intents w (modify_first (consumable a b) (consume_intent (io_bodyNow e)) (expire_intents (io_bodyNow e) rs)))"
  using assms
proof (rule with_intents_Inr)
  fix rs
  assume "consume_intents a b (io_bodyNow e) rs = Some (Inr (Some y), None)"
  then show thesis by (auto simp: consume_intents_def Let_def split: option.splits if_splits)
next
  fix rs rs'
  assume r: "read_intents w d = Inr rs" "consume_intents a b (io_bodyNow e) rs = Some (Inr (Some y), Some rs')"
    "d' = Stored (io_saveNow e, kept_intents w rs')"
  from r(2) obtain x where x: "List.find (consumable a b) (expire_intents (io_bodyNow e) rs) = Some x"
    "y = consume_intent (io_bodyNow e) x"
    "rs' = modify_first (consumable a b) (consume_intent (io_bodyNow e)) (expire_intents (io_bodyNow e) rs)"
    by (auto simp: consume_intents_def Let_def split: option.splits if_splits)
  show thesis
    using that [OF r(1) _ _ x(2,1)] find_Some_iff_in [OF x(1)] r(3) x(3) by blast
qed

lemma run_consumed:
  assumes "snd (run_intent w e oper d) = Some i"
  obtains a b y where "with_intents w e d (consume_intents a b (io_bodyNow e)) = (fst (run_intent w e oper d), Some (Inr (Some y)))"
    "in_approvalId y = i"
proof (cases oper)
  case (Consume a b)
  let ?m = "with_intents w e d (consume_intents a b (io_bodyNow e))"
  have run: "run_intent w e oper d = map_prod id consumed_of ?m"
    using Consume by (cases a) (simp_all add: consume_approved_approval_intent_def consume_matching_approval_intent_def)
  then have "consumed_of (snd ?m) = Some i" using assms by simp
  then obtain y where "snd ?m = Some (Inr (Some y))" "in_approvalId y = i"
    by (auto simp: consumed_of_def split: option.splits sum.splits)
  then show thesis using run by (intro that [of a b y]) (auto simp: prod_eq_iff)
qed (use assms in simp_all)

lemma consumed_was_open:
  assumes "snd (run_intent w e oper d) = Some i"
  obtains rs r where "read_intents w d = Inr rs" "r \<in> set rs" "in_approvalId r = i" "open_intent r"
  using assms
proof (rule run_consumed)
  fix a b y
  assume c: "with_intents w e d (consume_intents a b (io_bodyNow e)) = (fst (run_intent w e oper d), Some (Inr (Some y)))"
    and y: "in_approvalId y = i"
  from c show thesis
  proof (rule consumed_intent)
    fix rs x
    assume r: "read_intents w d = Inr rs" "x \<in> set (expire_intents (io_bodyNow e) rs)" "consumable a b x"
      "y = consume_intent (io_bodyNow e) x"
    from r(2) obtain r where x: "r \<in> set rs" "x = expire_intent (io_bodyNow e) r" by (auto simp: in_expired)
    have "open_intent x" using r(3) by (auto simp: consumable_def open_intent_def split: if_splits)
    then have "open_intent r" unfolding x(2) by (auto simp: expire_intent_def run_out_def split: if_splits)
    then show thesis using that [OF r(1) x(1)] x(2) r(4) y by (simp add: consume_intent_def)
  qed
qed

lemma modify_first_found:
  assumes "distinct (map key xs)" "List.find p xs = Some x" "\<And>z. key (f z) = key z"
    and "z \<in> set (modify_first p f xs)" "key z = key x"
  shows "z = f x"
  using assms(1,2,4)
proof (induction xs)
  case (Cons y ys)
  then show ?case using assms(3,5) find_Some_iff_in [of p ys x] by (cases "p y") (auto simp: image_iff)
qed simp

lemma consume_status: "in_status (consume_intent now r) = IntConsumed"
  by (simp add: consume_intent_def)

lemma consumed_settles:
  assumes "on_file (\<lambda>rs. distinct (map in_approvalId rs)) d" "snd (run_intent w e oper d) = Some i"
  shows "on_file (settled IntConsumed i) (fst (run_intent w e oper d))"
  using assms(2)
proof (rule run_consumed)
  fix a b y
  assume c: "with_intents w e d (consume_intents a b (io_bodyNow e)) = (fst (run_intent w e oper d), Some (Inr (Some y)))"
    and y: "in_approvalId y = i"
  from c show ?thesis
  proof (rule consumed_intent)
    let ?xs = "\<lambda>rs. expire_intents (io_bodyNow e) rs" and ?f = "consume_intent (io_bodyNow e)"
    fix rs x
    assume r: "read_intents w d = Inr rs" "y = ?f x" "List.find (consumable a b) (?xs rs) = Some x"
      and d': "fst (run_intent w e oper d) = Stored (io_saveNow e, kept_intents w (modify_first (consumable a b) ?f (?xs rs)))"
    have "distinct (map in_approvalId rs)" using read_intents_on_file [OF r(1) assms(1)] by simp
    then have ids: "distinct (map in_approvalId (?xs rs))" by (simp add: expire_intents_def comp_def)
    have x: "in_approvalId x = i" using y r(2) by (simp add: consume_intent_def)
    have key: "in_approvalId (?f z) = in_approvalId z" for z by (simp add: consume_intent_def)
    have "z = ?f x" if "z \<in> set (modify_first (consumable a b) ?f (?xs rs))" "in_approvalId z = i" for z
      using modify_first_found [OF ids r(3) key that(1)] that(2) x by simp
    then have "in_status z = IntConsumed" if "z \<in> set (modify_first (consumable a b) ?f (?xs rs))" "in_approvalId z = i" for z
      using that by (metis (no_types, lifting) consume_status)
    then show ?thesis
      unfolding d' using set_kept [of w "modify_first (consumable a b) ?f (?xs rs)"] by (simp add: settled_def subset_iff)
  qed
qed

text \<open>Every approved intent of the file was approved by a decision on it.\<close>

definition approved_by :: "intent_op set \<Rightarrow> approval_intent list \<Rightarrow> bool" where
  "approved_by ops rs =
     (\<forall>r \<in> set rs. in_status r = IntApproved \<longrightarrow> (\<exists>p. Decide p \<in> ops \<and> dc_decision p = Approve
        \<and> dc_approvalId p = in_approvalId r \<and> dc_sourceId p = in_sourceId r \<and> dc_runId p = in_runId r
        \<and> dc_sessionId p = in_sessionId r))"

lemma moves_approved:
  assumes "intent_moves e oper r r'" "in_status r' = IntApproved"
  shows "in_status r = IntApproved \<or> (\<exists>p. oper = Decide p \<and> dc_decision p = Approve
        \<and> dc_approvalId p = in_approvalId r' \<and> dc_sourceId p = in_sourceId r' \<and> dc_runId p = in_runId r'
        \<and> dc_sessionId p = in_sessionId r')"
proof -
  have decided: "decided_status v = IntApproved \<longleftrightarrow> v = Approve" for v by (cases v) simp_all
  show ?thesis
    using assms by (auto simp: intent_moves_def Let_def fill_intent_def settle_intent_def consume_intent_def decided
        expire_intent_def split: if_splits)
qed

lemma run_intent_approved:
  assumes "on_file (approved_by ops) d"
  shows "on_file (approved_by (insert oper ops)) (fst (run_intent w e oper d))"
proof (cases "fst (run_intent w e oper d) = d")
  case True
  have "approved_by (insert oper ops) rs" if "approved_by ops rs" for rs
    using that unfolding approved_by_def by (meson insertI2)
  then show ?thesis unfolding True using on_file_mono [OF assms] by simp
next
  case False
  then obtain rs rs' where r: "read_intents w d = Inr rs" "fst (run_intent w e oper d) = Stored (io_saveNow e, kept_intents w rs')"
    "intent_written e oper rs rs'" by (rule run_intent_changed)
  have old: "approved_by ops rs" using read_intents_on_file [OF r(1) assms] by (simp add: approved_by_def)
  have "approved_by (insert oper ops) rs'"
    unfolding approved_by_def
  proof (intro ballI impI)
    fix r'
    assume r': "r' \<in> set rs'" "in_status r' = IntApproved"
    then have "\<not> (\<exists>p expiresAt. r' = new_intent p (io_uuid e) (io_bodyNow e) expiresAt)" by (auto simp: new_intent_def)
    moreover from r(3) r'(1) have "(\<exists>p expiresAt. oper = Ensure p \<and> r' = new_intent p (io_uuid e) (io_bodyNow e) expiresAt)
        \<or> (\<exists>r \<in> set rs. intent_moves e oper r r')" unfolding intent_written_def by (rule bspec)
    ultimately obtain x where x: "x \<in> set rs" "intent_moves e oper x r'" by auto
    from moves_approved [OF x(2) r'(2)]
    show "\<exists>p. Decide p \<in> insert oper ops \<and> dc_decision p = Approve \<and> dc_approvalId p = in_approvalId r'
        \<and> dc_sourceId p = in_sourceId r' \<and> dc_runId p = in_runId r' \<and> dc_sessionId p = in_sessionId r'"
      using old x(1) moves_id [OF x(2)] unfolding approved_by_def by auto
  qed
  then show ?thesis using r(2) set_kept [of w rs'] by (auto simp: approved_by_def)
qed

lemma run_intents_approved: "on_file (approved_by ops) d \<Longrightarrow> on_file (approved_by (ops \<union> snd ` set h)) (run_intents w h d)"
proof (induction h arbitrary: d ops)
  case (Cons s h)
  obtain e oper where s: "s = (e, oper)" by (cases s)
  from Cons.IH [OF run_intent_approved [OF Cons.prems]] show ?case by (simp add: run_intents_def s)
qed (simp add: run_intents_def)

section \<open>Properties\<close>

text \<open>
  An intent is consumed at most once: after an operation consumed it, no later operation of any
  history does, as long as random identifiers do not repeat its own.
\<close>

theorem intent_consumed_once:
  assumes "on_file (\<lambda>rs. distinct (map in_approvalId rs)) d" "snd (run_intent w e oper d) = Some i"
    and "\<forall>(e', oper') \<in> set h. ''approval-'' @ io_uuid e' \<noteq> i"
  shows "snd (run_intent w e2 oper2 (run_intents w h (fst (run_intent w e oper d)))) \<noteq> Some i"
proof
  have settled: "on_file (settled IntConsumed i) (run_intents w h (fst (run_intent w e oper d)))"
    using consumed_settles [OF assms(1,2)] assms(3) by (intro run_intents_settled) simp_all
  assume "snd (run_intent w e2 oper2 (run_intents w h (fst (run_intent w e oper d)))) = Some i"
  then obtain rs r where r: "read_intents w (run_intents w h (fst (run_intent w e oper d))) = Inr rs"
    "r \<in> set rs" "in_approvalId r = i" "open_intent r" by (rule consumed_was_open)
  have "settled IntConsumed i rs" using read_intents_on_file [OF r(1) settled] by (simp add: settled_def)
  then show False using r(2-4) by (auto simp: settled_def open_intent_def)
qed

text \<open>
  C38. What an operation consumes as approved was approved by a person's decision: in every history
  from an empty file, an approval is consumed only of an intent bound to that source, run, session,
  operation and digest, on which a decision to approve with the same binding was made before.
\<close>

theorem consumed_approval_was_given:
  assumes "consume_approved_approval_intent w e b (run_intents w h NoFile) = (d', Some (Inr (Some y)))"
  shows "bound_to b y \<and> (\<exists>p. Decide p \<in> snd ` set h \<and> dc_decision p = Approve \<and> dc_approvalId p = in_approvalId y
    \<and> dc_sourceId p = ib_sourceId b \<and> dc_runId p = ib_runId b \<and> dc_sessionId p = ib_sessionId b)"
  using assms unfolding consume_approved_approval_intent_def
proof (rule consumed_intent)
  have approved: "on_file (approved_by (snd ` set h)) (run_intents w h NoFile)"
    using run_intents_approved [of "{}" NoFile h w] by simp
  fix rs x
  assume r: "read_intents w (run_intents w h NoFile) = Inr rs" "x \<in> set (expire_intents (io_bodyNow e) rs)"
    "consumable True b x" "y = consume_intent (io_bodyNow e) x"
  from r(2) obtain z where z: "z \<in> set rs" "x = expire_intent (io_bodyNow e) z" by (auto simp: in_expired)
  have status: "in_status x = IntApproved" "bound_to b x" using r(3) by (simp_all add: consumable_def)
  then have "in_status z = IntApproved" unfolding z(2) by (auto simp: expire_intent_def split: if_splits)
  moreover have "approved_by (snd ` set h) rs" using read_intents_on_file [OF r(1) approved] by (simp add: approved_by_def)
  ultimately obtain p where p: "Decide p \<in> snd ` set h" "dc_decision p = Approve" "dc_approvalId p = in_approvalId z"
    "dc_sourceId p = in_sourceId z" "dc_runId p = in_runId z" "dc_sessionId p = in_sessionId z"
    using z(1) unfolding approved_by_def by blast
  have "bound_to b z" using status(2) unfolding z(2) by simp
  moreover have "bound_to b y" using status(2) unfolding r(4) by (simp add: bound_to_def consume_intent_def)
  moreover have "in_approvalId y = in_approvalId z" unfolding r(4) z(2) by (simp add: consume_intent_def)
  ultimately show ?thesis using p by (auto simp: bound_to_def)
qed

text \<open>
  An intent that was denied, consumed or expired stays so in every later history.
\<close>

theorem closed_intent_final:
  assumes "on_file (settled st i) d" "st \<in> {IntDenied, IntConsumed, IntExpired}"
    and "\<forall>(e, oper) \<in> set h. ''approval-'' @ io_uuid e \<noteq> i"
  shows "on_file (settled st i) (run_intents w h d)"
  using assms by (intro run_intents_settled) auto

text \<open>
  Finding: what is written is not validated. One request for approval with a path of more than 500
  characters is answered as created, and from then on every operation of the store is refused as
  corrupt.
\<close>

theorem long_path_corrupts_intents:
  assumes "ensure_pending_approval_intent w e p NoFile = (d', Some (Inr (True, r)))"
    and "path \<in> set (take 32 (uniq (en_paths p)))" "500 < length path" "io_lock e2 = LockTaken"
  shows "read_intents w d' = Inl IntentStoreCorrupt \<and> fst (run_intent w e2 oper d') = d'
    \<and> ensure_pending_approval_intent w e2 q d' = (d', Some (Inl IntentStoreCorrupt))"
proof (rule with_intents_Inr [OF assms(1) [unfolded ensure_pending_approval_intent_def]])
  fix rs rs'
  assume r: "read_intents w NoFile = Inr rs" "ensure_intent p (io_uuid e) (io_bodyNow e) rs = Some (Inr (True, r), Some rs')"
    "d' = Stored (io_saveNow e, kept_intents w rs')"
  have rs: "rs = []" using read_intents_file [OF r(1)] by simp
  from r(2) have new: "rs' = [r]" "in_paths r = take 32 (uniq (en_paths p))"
    by (auto simp: ensure_intent_def rs expire_intents_def Let_def new_intent_def split: option.splits if_splits)
  have "kept_intents w rs' = [r]" using new(1) by (simp add: kept_intents_def js_sort_def slice_last_id max_intents_def)
  moreover have "\<not> valid_intent w r"
    using assms(2,3) unfolding valid_intent_def new(2) list_all_iff by (metis not_less)
  ultimately have bad: "read_intents w d' = Inl IntentStoreCorrupt"
    using r(3) by (simp add: read_intents_def read_list_def)
  then have all: "with_intents w e2 d' c = (d', Some (Inl IntentStoreCorrupt))" for c :: "approval_intent list \<Rightarrow> ((intent_failure + 'x) \<times> approval_intent list option) option"
    using assms(4) by (simp add: with_intents_def)
  have "fst (run_intent w e2 oper d') = d'"
  proof (rule ccontr)
    assume "fst (run_intent w e2 oper d') \<noteq> d'"
    then show False by (rule run_intent_changed) (simp add: bad)
  qed
  with bad show ?thesis by (simp add: ensure_pending_approval_intent_def all)
next
  fix rs
  assume "ensure_intent p (io_uuid e) (io_bodyNow e) rs = Some (Inr (True, r), None)"
  then show ?thesis by (auto simp: ensure_intent_def Let_def split: option.splits if_splits)
qed

section \<open>A concrete history\<close>

definition intent_world :: decision_world where
  "intent_world = sample_world"

definition sample_ensure :: "string \<Rightarrow> ensure_input" where
  "sample_ensure path = \<lparr>en_binding = \<lparr>ib_sourceId = ''src'', ib_runId = ''run'', ib_sessionId = None,
       ib_operationKind = ''commit'', ib_requestDigest = sample_digest\<rparr>,
     en_requestId = None, en_paths = [path], en_reason = ''write'', en_decisionRequest = None, en_evidenceRef = None, en_ttlMs = None\<rparr>"

definition sample_decide :: decide_input where
  "sample_decide = \<lparr>dc_approvalId = ''approval-1'', dc_sourceId = ''src'', dc_runId = ''run'', dc_sessionId = None, dc_decision = Approve\<rparr>"

definition sample_intent_history :: intent_history where
  "sample_intent_history = [(io_at noon, Ensure (sample_ensure ''a'')), (io_at noon, Decide sample_decide)]"

definition approved_file :: intent_disk where
  "approved_file = run_intents intent_world sample_intent_history NoFile"

definition fresh_io :: io_env where
  "fresh_io = (io_at ten_past_noon)\<lparr>io_uuid := ''2''\<rparr>"

lemma approved_file_known:
  "on_file (\<lambda>rs. distinct (map in_approvalId rs)) approved_file"
  "snd (run_intent intent_world (io_at ten_past_noon) (Consume True (en_binding (sample_ensure ''a''))) approved_file) = Some ''approval-1''"
  "(case snd (consume_approved_approval_intent intent_world (io_at ten_past_noon) (en_binding (sample_ensure ''a'')) approved_file)
      of Some (Inr (Some y)) \<Rightarrow> in_approvalId y = ''approval-1'' | _ \<Rightarrow> False)"
  "io_uuid fresh_io = ''2''"
  by code_simp+

definition consumed_file :: intent_disk where
  "consumed_file = fst (run_intent intent_world (io_at ten_past_noon) (Consume True (en_binding (sample_ensure ''a''))) approved_file)"

lemma fresh_history: "\<forall>(e, oper) \<in> set [(fresh_io, Ensure (sample_ensure ''a''))]. ''approval-'' @ io_uuid e \<noteq> ''approval-1''"
  using approved_file_known(4) by simp

theorem intent_consumed_once_witness:
  "snd (run_intent intent_world (io_at ten_past_noon) (Consume True (en_binding (sample_ensure ''a'')))
     (run_intents intent_world [(fresh_io, Ensure (sample_ensure ''a''))] consumed_file)) \<noteq> Some ''approval-1''"
  unfolding consumed_file_def by (rule intent_consumed_once [OF approved_file_known(1,2) fresh_history])

theorem consumed_approval_was_given_witness:
  "\<exists>p. Decide p \<in> snd ` set sample_intent_history \<and> dc_decision p = Approve \<and> dc_approvalId p = ''approval-1''"
proof -
  let ?m = "consume_approved_approval_intent intent_world (io_at ten_past_noon) (en_binding (sample_ensure ''a''))
    (run_intents intent_world sample_intent_history NoFile)"
  from approved_file_known(3) obtain y where y: "snd ?m = Some (Inr (Some y))" "in_approvalId y = ''approval-1''"
    unfolding approved_file_def by (auto split: option.splits sum.splits)
  then have "?m = (fst ?m, Some (Inr (Some y)))" by (simp add: prod_eq_iff)
  from consumed_approval_was_given [OF this] y(2) show ?thesis by auto
qed

lemma consumed_file_settled: "on_file (settled IntConsumed ''approval-1'') consumed_file"
  unfolding consumed_file_def by (rule consumed_settles [OF approved_file_known(1,2)])

theorem closed_intent_final_witness:
  "on_file (settled IntConsumed ''approval-1'') (run_intents intent_world [(fresh_io, Ensure (sample_ensure ''a''))] consumed_file)"
  by (rule closed_intent_final [OF consumed_file_settled _ fresh_history]) simp

definition long_path :: string where
  "long_path = replicate 501 (CHR ''a'')"

lemma long_path_accepted:
  "(case snd (ensure_pending_approval_intent intent_world (io_at noon) (sample_ensure long_path) NoFile)
      of Some (Inr (created, r)) \<Rightarrow> created | _ \<Rightarrow> False)"
  by code_simp

theorem long_path_corrupts_intents_witness:
  "read_intents intent_world (fst (ensure_pending_approval_intent intent_world (io_at noon) (sample_ensure long_path) NoFile))
     = Inl IntentStoreCorrupt"
proof -
  let ?m = "ensure_pending_approval_intent intent_world (io_at noon) (sample_ensure long_path) NoFile"
  from long_path_accepted obtain r where "snd ?m = Some (Inr (True, r))"
    by (auto split: option.splits sum.splits prod.splits)
  then have m: "?m = (fst ?m, Some (Inr (True, r)))" by (simp add: prod_eq_iff)
  have "long_path \<in> set (take 32 (uniq (en_paths (sample_ensure long_path))))" "500 < length long_path" "io_lock (io_at noon) = LockTaken"
    by (simp_all add: sample_ensure_def uniq_def long_path_def io_at_def)
  from long_path_corrupts_intents [OF m this] show ?thesis by blast
qed

end
