(* ===== verification/Approval_Handler.thy ===== *)
theory Approval_Handler
  imports Approval_Intents Decision_Authorization Session_Store
begin

text \<open>
  \<^verbatim>\<open>packages/cli/src/agent/portable-approval-handlers.ts\<close>: the operation by which a person sees,
  approves or denies an intent. It loads the intent under the source and run of the call and,
  when the intent has a session, under the active session of that run; a decision settles the
  intent and, when the intent carries the exact request, is saved as the persisted decision that
  authorizes it. The store calls follow each other without a common lock.
\<close>

datatype portable_error = InvalidRequest | SourceMismatch | DependencyUnavailable | UncaughtException

record handler_env =
  hv_get :: io_env
  hv_decide :: io_env
  hv_save :: io_env
  hv_private :: bool
  hv_uid :: "int option"

record handler_context =
  hc_sourceId :: "string option"
  hc_actorId :: "string option"

record manage_payload =
  mp_keys :: "string list"
  mp_approvalId :: "string option"
  mp_runId :: "string option"
  mp_action :: "string option"

record handler_state =
  hs_intents :: intent_disk
  hs_decisions :: decision_disk

definition require_string :: "string option \<Rightarrow> portable_error + string" where
  "require_string v =
     (case v of None \<Rightarrow> Inl InvalidRequest | Some s \<Rightarrow> if trim s = [] then Inl InvalidRequest else Inr (trim s))"

definition session_id_for_run :: "string \<Rightarrow> string" where
  "session_id_for_run runId = ''session-'' @ runId"

definition bind_session ::
  "session_disk \<Rightarrow> string \<Rightarrow> string \<Rightarrow> approval_intent \<Rightarrow> portable_error + approval_intent \<times> string option" where
  "bind_session sessions sourceId runId r =
     (if \<not> truthy (in_sessionId r) then Inr (r, None)
      else let sessionId = session_id_for_run runId in
        if in_sessionId r \<noteq> Some sessionId then Inl SourceMismatch
        else case get_workbench_session sessionId sessions of
          Inr (Some s) \<Rightarrow>
            if sourceId \<notin> set (ws_lockedSourceIds s) \<or> ws_activeRunId s \<noteq> Some runId then Inl SourceMismatch
            else Inr (r, Some sessionId)
        | _ \<Rightarrow> Inl DependencyUnavailable)"

definition load_bound_intent ::
  "decision_world \<Rightarrow> io_env \<Rightarrow> session_disk \<Rightarrow> string \<Rightarrow> string \<Rightarrow> string \<Rightarrow> intent_disk
   \<Rightarrow> intent_disk \<times> (portable_error + approval_intent \<times> string option)" where
  "load_bound_intent w e sessions approvalId sourceId runId d =
     (case get_pending_approval_intent w e approvalId d of
        (d', None) \<Rightarrow> (d', Inl UncaughtException)
      | (d', Some (Inl f)) \<Rightarrow> (d', Inl DependencyUnavailable)
      | (d', Some (Inr None)) \<Rightarrow> (d', Inl InvalidRequest)
      | (d', Some (Inr (Some r))) \<Rightarrow>
          (d', if in_sourceId r \<noteq> sourceId \<or> in_runId r \<noteq> runId then Inl SourceMismatch
               else bind_session sessions sourceId runId r))"

definition decision_error :: "intent_failure \<Rightarrow> portable_error" where
  "decision_error f =
     (if f = IntentBindingMismatch then SourceMismatch
      else if f = IntentStoreBusy \<or> f = IntentStoreCorrupt then DependencyUnavailable else InvalidRequest)"

primrec decision_of :: "intent_decision \<Rightarrow> decision_value" where
  "decision_of Approve = DecisionApproved"
| "decision_of Deny = DecisionDenied"

text \<open>The decision is saved after the intent is settled, with the time it was decided at.\<close>

definition persist_decision ::
  "decision_world \<Rightarrow> handler_env \<Rightarrow> string option \<Rightarrow> intent_decision \<Rightarrow> approval_intent \<Rightarrow> approval_intent \<Rightarrow> decision_disk
   \<Rightarrow> decision_disk \<times> portable_error option" where
  "persist_decision w e actor v bound decided d =
     (case in_decisionRequest bound of
        None \<Rightarrow> (d, None)
      | Some request \<Rightarrow>
          (case in_evidenceRef bound of
             None \<Rightarrow> (d, Some DependencyUnavailable)
           | Some evidence \<Rightarrow>
               (case resolve_actor_id (hv_uid e) actor of
                  None \<Rightarrow> (d, Some DependencyUnavailable)
                | Some actorId \<Rightarrow>
                    (case save_autonomy_decision w (hv_save e) (hv_private e)
                       \<lparr>sv_request = request, sv_decision = decision_of v, sv_evidenceRef = evidence, sv_actorId = actorId,
                        sv_createdAt = Some (or_else (in_decidedAt decided) (in_updatedAt decided)),
                        sv_expiresAt = in_expiresAt bound\<rparr> d of
                       (d', Inl f) \<Rightarrow> (d', Some DependencyUnavailable)
                     | (d', Inr x) \<Rightarrow> (d', None)))))"

definition decide_bound ::
  "decision_world \<Rightarrow> handler_env \<Rightarrow> string option \<Rightarrow> string \<Rightarrow> string \<Rightarrow> intent_decision \<Rightarrow> approval_intent \<times> string option
   \<Rightarrow> handler_state \<Rightarrow> handler_state \<times> (portable_error + bool option \<times> approval_intent)" where
  "decide_bound w e actor sourceId runId v bound s =
     (case decide_pending_approval_intent w (hv_decide e)
             \<lparr>dc_approvalId = in_approvalId (fst bound), dc_sourceId = sourceId, dc_runId = runId, dc_sessionId = snd bound,
              dc_decision = v\<rparr> (hs_intents s) of
        (di, None) \<Rightarrow> (s\<lparr>hs_intents := di\<rparr>, Inl UncaughtException)
      | (di, Some (Inl f)) \<Rightarrow> (s\<lparr>hs_intents := di\<rparr>, Inl (decision_error f))
      | (di, Some (Inr (changed, decided))) \<Rightarrow>
          (let (dd, failed) = persist_decision w e actor v (fst bound) decided (hs_decisions s)
           in (s\<lparr>hs_intents := di, hs_decisions := dd\<rparr>,
               case failed of Some err \<Rightarrow> Inl err | None \<Rightarrow> Inr (Some changed, decided))))"

definition act_on_intent ::
  "decision_world \<Rightarrow> handler_env \<Rightarrow> session_disk \<Rightarrow> string option \<Rightarrow> string \<Rightarrow> string \<Rightarrow> string \<Rightarrow> string \<Rightarrow> handler_state
   \<Rightarrow> handler_state \<times> (portable_error + bool option \<times> approval_intent)" where
  "act_on_intent w e sessions actor sourceId approvalId runId act s =
     (case load_bound_intent w (hv_get e) sessions approvalId sourceId runId (hs_intents s) of
        (di, Inl err) \<Rightarrow> (s\<lparr>hs_intents := di\<rparr>, Inl err)
      | (di, Inr bound) \<Rightarrow>
          (if act = ''status'' then (s\<lparr>hs_intents := di\<rparr>, Inr (None, fst bound))
           else decide_bound w e actor sourceId runId (if act = ''approve'' then Approve else Deny) bound (s\<lparr>hs_intents := di\<rparr>)))"

definition manage_approval_intent ::
  "decision_world \<Rightarrow> handler_env \<Rightarrow> session_disk \<Rightarrow> handler_context \<Rightarrow> manage_payload \<Rightarrow> handler_state
   \<Rightarrow> handler_state \<times> (portable_error + bool option \<times> approval_intent)" where
  "manage_approval_intent w e sessions ctx p s =
     (if \<not> set (mp_keys p) \<subseteq> set [''approvalId'', ''runId'', ''action''] then (s, Inl InvalidRequest)
      else case (require_string (mp_approvalId p), require_string (mp_runId p), require_string (mp_action p)) of
        (Inr approvalId, Inr runId, Inr act) \<Rightarrow>
          if act \<notin> set [''status'', ''approve'', ''deny''] then (s, Inl InvalidRequest)
          else if \<not> truthy (hc_sourceId ctx) then (s, Inl SourceMismatch)
          else act_on_intent w e sessions (hc_actorId ctx) (the (hc_sourceId ctx)) approvalId runId act s
      | _ \<Rightarrow> (s, Inl InvalidRequest))"

section \<open>Lemmas\<close>

lemma decide_bound_Inr:
  assumes "decide_bound w e actor sourceId runId v bound s = (s', Inr (changed, decided))"
    and "in_decisionRequest (fst bound) = Some request"
  obtains p d' created x where "sv_request p = request" "sv_decision p = decision_of v" "sv_expiresAt p = in_expiresAt (fst bound)"
    "save_autonomy_decision w (hv_save e) (hv_private e) p (hs_decisions s) = (hs_decisions s', Inr (created, x))"
proof -
  from assms obtain di dd ch where d: "persist_decision w e actor v (fst bound) decided (hs_decisions s) = (dd, None)"
    and s': "hs_decisions s' = dd"
    by (auto simp: decide_bound_def Let_def split: prod.splits option.splits sum.splits)
  from d assms(2) show thesis
    by (auto simp: persist_decision_def s' split: option.splits prod.splits sum.splits intro!: that)
qed

lemma manage_acts:
  assumes "manage_approval_intent w e sessions ctx p s = (s', Inr answer)"
  obtains sourceId approvalId runId act where "mp_action p = Some act"
    "act_on_intent w e sessions (hc_actorId ctx) sourceId approvalId runId (trim act) s = (s', Inr answer)"
proof -
  have r: "require_string v = Inr t \<longleftrightarrow> (\<exists>u. v = Some u \<and> t = trim u \<and> t \<noteq> [])" for v t
    by (auto simp: require_string_def split: option.splits)
  from assms show thesis
    using that by (auto simp: manage_approval_intent_def r split: if_splits sum.splits)
qed

lemma act_decides:
  assumes "act_on_intent w e sessions actor sourceId approvalId runId act s = (s', Inr (Some changed, decided))"
  obtains bound di where "load_bound_intent w (hv_get e) sessions approvalId sourceId runId (hs_intents s) = (di, Inr bound)"
    "decide_bound w e actor sourceId runId (if act = ''approve'' then Approve else Deny) bound (s\<lparr>hs_intents := di\<rparr>)
       = (s', Inr (Some changed, decided))"
  using assms that by (auto simp: act_on_intent_def split: prod.splits sum.splits if_splits)

text \<open>The intent that is settled is the one that was loaded.\<close>

lemma loaded_unique:
  assumes "on_file (\<lambda>rs. distinct (map in_approvalId rs)) d"
    and "load_bound_intent w e sessions approvalId sourceId runId d = (di, Inr bound)"
  shows "on_file (\<lambda>rs. \<forall>y \<in> set rs. in_approvalId y = in_approvalId (fst bound) \<longrightarrow> y = fst bound) di"
proof -
  from assms(2) obtain r where g: "get_pending_approval_intent w e approvalId d = (di, Some (Inr (Some r)))" and "fst bound = r"
    by (auto simp: load_bound_intent_def bind_session_def Let_def
        split: prod.splits option.splits sum.splits if_splits)
  have "on_file (\<lambda>rs. \<forall>y \<in> set rs. in_approvalId y = in_approvalId r \<longrightarrow> y = r) di"
    using g unfolding get_pending_approval_intent_def
  proof (rule with_intents_Inr)
    fix rs
    assume k: "read_intents w d = Inr rs" "get_intent approvalId (io_bodyNow e) rs = Some (Inr (Some r), None)" "di = d"
    then have f: "List.find (\<lambda>r. in_approvalId r = approvalId) rs = Some r"
      by (auto simp: get_intent_def Let_def split: option.splits if_splits)
    have "distinct (map in_approvalId rs)" using read_intents_on_file [OF k(1) assms(1)] by simp
    then have "y = r" if "y \<in> set rs" "in_approvalId y = in_approvalId r" for y
      using distinct_map_eq that find_Some_iff_in [OF f] by metis
    moreover have "on_file (\<lambda>rs'. rs' = rs) d"
      using k(1) by (auto simp: read_intents_def read_list_def on_file_def split: disk.splits option.splits if_splits)
    ultimately show ?thesis using k(3) by (cases d) (auto simp: on_file_def)
  next
    fix rs rs'
    assume k: "read_intents w d = Inr rs" "get_intent approvalId (io_bodyNow e) rs = Some (Inr (Some r), Some rs')"
      "di = Stored (io_saveNow e, kept_intents w rs')"
    let ?p = "\<lambda>r. in_approvalId r = approvalId" and ?f = "expire_intent (io_bodyNow e)"
    from k(2) obtain x where f: "List.find ?p rs = Some x" "r = ?f x" "rs' = modify_first ?p ?f rs"
      by (auto simp: get_intent_def Let_def split: option.splits if_splits)
    have ids: "distinct (map in_approvalId rs)" using read_intents_on_file [OF k(1) assms(1)] by simp
    have "y = r" if "y \<in> set rs'" "in_approvalId y = in_approvalId r" for y
      using modify_first_found [OF ids f(1) expire_fields(1) that(1) [unfolded f(3)]] that(2) f(2) by simp
    then show ?thesis using k(3) set_kept [of w rs'] by auto
  qed
  then show ?thesis using \<open>fst bound = r\<close> by simp
qed

lemma decided_is_bound:
  assumes "on_file (\<lambda>rs. \<forall>y \<in> set rs. in_approvalId y = in_approvalId r \<longrightarrow> y = r) di"
    and "decide_pending_approval_intent w e p di = (di', Some (Inr (changed, decided)))" "dc_approvalId p = in_approvalId r"
  shows "in_decisionRequest decided = in_decisionRequest r \<and> in_expiresAt decided = in_expiresAt r"
proof -
  have main: "in_decisionRequest decided = in_decisionRequest r \<and> in_expiresAt decided = in_expiresAt r"
    if k: "read_intents w di = Inr rs" "decide_intent p (io_bodyNow e) rs = Some (Inr (changed, decided), out)" for rs out
  proof -
    from k(2) obtain x where f: "List.find (\<lambda>r. in_approvalId r = dc_approvalId p) (expire_intents (io_bodyNow e) rs) = Some x"
      "decided = x \<or> decided = settle_intent (decided_status (dc_decision p)) (io_bodyNow e) x"
      by (auto simp: decide_intent_def Let_def split: option.splits if_splits)
    have "x \<in> set (expire_intents (io_bodyNow e) rs)" "in_approvalId x = in_approvalId r"
      using find_Some_iff_in [OF f(1)] assms(3) by simp_all
    then obtain y where y: "y \<in> set rs" "x = expire_intent (io_bodyNow e) y" "in_approvalId y = in_approvalId r"
      by (auto simp: in_expired)
    have "\<forall>y \<in> set rs. in_approvalId y = in_approvalId r \<longrightarrow> y = r" using read_intents_on_file [OF k(1) assms(1)] by simp
    then have "x = expire_intent (io_bodyNow e) r" using y by blast
    then have "in_decisionRequest x = in_decisionRequest r \<and> in_expiresAt x = in_expiresAt r"
      by (simp add: expire_intent_def)
    then show ?thesis using f(2) by (auto simp: settle_intent_def)
  qed
  from assms(2) show ?thesis
    unfolding decide_pending_approval_intent_def by (rule with_intents_Inr) (use main in blast)+
qed

lemma decide_bound_asks:
  assumes "decide_bound w e actor sourceId runId v bound s = (s', Inr (Some changed, decided))"
  obtains p di where "dc_approvalId p = in_approvalId (fst bound)"
    "decide_pending_approval_intent w (hv_decide e) p (hs_intents s) = (di, Some (Inr (changed, decided)))"
  using assms by (auto simp: decide_bound_def Let_def intro!: that split: prod.splits option.splits sum.splits)

definition date_reached :: "string \<Rightarrow> string \<Rightarrow> bool" where
  "date_reached date now = (case (date_parse date, date_parse now) of (Some x, Some n) \<Rightarrow> x \<le> n | _ \<Rightarrow> False)"

lemma expired_date: "decision_expired x now = date_reached (dd_expiresAt x) now"
  by (simp add: decision_expired_def date_reached_def)

lemma handled_saves:
  assumes "on_file (\<lambda>rs. distinct (map in_approvalId rs)) (hs_intents s)"
    and "manage_approval_intent w e sessions ctx p s = (s', Inr (Some changed, decided))" "in_decisionRequest decided = Some request"
  obtains act q created x where "mp_action p = Some act" "sv_request q = request"
    "sv_decision q = decision_of (if trim act = ''approve'' then Approve else Deny)" "sv_expiresAt q = in_expiresAt decided"
    "save_autonomy_decision w (hv_save e) (hv_private e) q (hs_decisions s) = (hs_decisions s', Inr (created, x))"
proof -
  obtain sourceId approvalId runId act where act: "mp_action p = Some act"
    "act_on_intent w e sessions (hc_actorId ctx) sourceId approvalId runId (trim act) s = (s', Inr (Some changed, decided))"
    by (rule manage_acts [OF assms(2)])
  let ?v = "if trim act = ''approve'' then Approve else Deny"
  obtain bound di where b: "load_bound_intent w (hv_get e) sessions approvalId sourceId runId (hs_intents s) = (di, Inr bound)"
    "decide_bound w e (hc_actorId ctx) sourceId runId ?v bound (s\<lparr>hs_intents := di\<rparr>) = (s', Inr (Some changed, decided))"
    by (rule act_decides [OF act(2)])
  obtain r di' where r: "dc_approvalId r = in_approvalId (fst bound)"
    "decide_pending_approval_intent w (hv_decide e) r di = (di', Some (Inr (changed, decided)))"
    using decide_bound_asks [OF b(2)] by auto
  note same = decided_is_bound [OF loaded_unique [OF assms(1) b(1)] r(2,1)]
  then have "in_decisionRequest (fst bound) = Some request" using assms(3) by simp
  from decide_bound_Inr [OF b(2) this] obtain q created x where "sv_request q = request" "sv_decision q = decision_of ?v"
    "sv_expiresAt q = in_expiresAt (fst bound)"
    "save_autonomy_decision w (hv_save e) (hv_private e) q (hs_decisions (s\<lparr>hs_intents := di\<rparr>)) = (hs_decisions s', Inr (created, x))"
    by metis
  with same act(1) show thesis by (auto intro: that)
qed

section \<open>Properties\<close>

text \<open>
  C37. What a person decides through the operation takes effect: once it has approved (or denied) an
  intent that carries the request an operation asked about, every later preparation of that
  operation that can read the decisions answers allowed (or denied), until the intent's expiry.
\<close>

theorem handled_decision_authorizes:
  assumes "on_file (\<lambda>rs. distinct (map in_approvalId rs)) (hs_intents s)" "on_file apart (hs_decisions s)"
    and "prepare_authorization w e0 private0 uid i d0 = (d0', a0)" "au_status a0 = AuthRequiresConfirmation"
    and "au_request a0 = Some request"
    and "manage_approval_intent w e sessions ctx p s = (s', Inr (Some changed, decided))" "in_decisionRequest decided = Some request"
    and "\<forall>(e', private', oper) \<in> set h. \<not> date_reached (in_expiresAt decided) (io_bodyNow e')"
    and "\<not> date_reached (in_expiresAt decided) (io_bodyNow e2)"
    and "prepare_authorization w e2 private2 uid i (run_decisions w h (hs_decisions s')) = (d2, a)"
  shows "au_status a = (if map_option trim (mp_action p) = Some ''approve'' then AuthAllowed else AuthDenied)
    \<or> (\<exists>f. au_lookup a = Some (Inl f))"
proof -
  from handled_saves [OF assms(1,6,7)] obtain act' q created x where q: "mp_action p = Some act'" "sv_request q = request"
    "sv_decision q = decision_of (if trim act' = ''approve'' then Approve else Deny)" "sv_expiresAt q = in_expiresAt decided"
    "save_autonomy_decision w (hv_save e) (hv_private e) q (hs_decisions s) = (hs_decisions s', Inr (created, x))"
    by metis
  have until: "dd_expiresAt x = in_expiresAt decided" using save_holds(4) [OF q(5)] q(4) by simp
  have "au_status a = (if sv_decision q = DecisionApproved then AuthAllowed else AuthDenied) \<or> (\<exists>f. au_lookup a = Some (Inl f))"
  proof (rule saved_authorizes [OF assms(2-4) _ q(5) _ _ assms(10)])
    show "au_request a0 = Some (sv_request q)" using assms(5) q(2) by simp
    show "\<forall>(e', private', oper) \<in> set h. \<not> decision_expired x (io_bodyNow e')" using assms(8) until by (simp add: expired_date)
    show "\<not> decision_expired x (io_bodyNow e2)" using assms(9) until by (simp add: expired_date)
  qed
  then show ?thesis using q(1,3) by auto
qed

section \<open>A concrete approval\<close>

definition handled_intent :: approval_intent where
  "handled_intent = (new_intent (sample_ensure ''src/a'') ''1'' noon ''2026-01-01T12:15:00.000Z'')
     \<lparr>in_decisionRequest := Some (operation_request flat_hash), in_evidenceRef := Some sample_evidence\<rparr>"

definition handler_io :: handler_env where
  "handler_io = \<lparr>hv_get = io_at noon, hv_decide = io_at noon, hv_save = io_at noon, hv_private = True, hv_uid = None\<rparr>"

definition approve_payload :: manage_payload where
  "approve_payload = \<lparr>mp_keys = [''approvalId'', ''runId'', ''action''], mp_approvalId = Some ''approval-1'', mp_runId = Some ''run'',
     mp_action = Some '' approve''\<rparr>"

definition handler_ctx :: handler_context where
  "handler_ctx = \<lparr>hc_sourceId = Some ''src'', hc_actorId = Some ''os-user:501''\<rparr>"

definition before_approval :: handler_state where
  "before_approval = \<lparr>hs_intents = Stored (noon, [handled_intent]), hs_decisions = NoFile\<rparr>"

lemma handled_intent_parts:
  "valid_intent sample_world (new_intent (sample_ensure ''src/a'') ''1'' noon ''2026-01-01T12:15:00.000Z'')"
  "\<not> run_out noon (new_intent (sample_ensure ''src/a'') ''1'' noon ''2026-01-01T12:15:00.000Z'')"
  "valid_iso (er_recordedAt sample_evidence)" "valid_iso noon" "trim '' approve'' = ''approve''" "trim ''approval-1'' = ''approval-1''"
  "trim ''run'' = ''run''" "\<not> date_reached ''2026-01-01T12:15:00.000Z'' ten_past_noon"
  by code_simp+

lemma handled_intent_fields:
  "in_approvalId handled_intent = ''approval-1''" "in_sourceId handled_intent = ''src''" "in_runId handled_intent = ''run''"
  "in_sessionId handled_intent = None" "in_status handled_intent = IntPending"
  "in_decisionRequest handled_intent = Some (operation_request flat_hash)" "in_evidenceRef handled_intent = Some sample_evidence"
  "in_expiresAt handled_intent = ''2026-01-01T12:15:00.000Z''"
  by (simp_all add: handled_intent_def new_intent_def sample_ensure_def present_text_def truthy_def)

lemma handled_intent_valid: "valid_intent (operation_world flat_hash) handled_intent" "\<not> run_out noon handled_intent"
proof -
  have "is_autonomy_decision_request flat_hash id (operation_request flat_hash)"
    using operation_recorded(2) [OF flat_well] by (simp add: is_persisted_decision_def Let_def operation_record_def)
  then show "valid_intent (operation_world flat_hash) handled_intent"
    using handled_intent_parts(1,3)
    by (simp add: valid_intent_def handled_intent_def operation_world_def sample_world_def all_some_def)
  show "\<not> run_out noon handled_intent"
    using handled_intent_parts(2) by (simp add: run_out_def open_intent_def handled_intent_def)
qed

lemma handled_loaded:
  "load_bound_intent (operation_world flat_hash) (io_at noon) NoFile ''approval-1'' ''src'' ''run'' (Stored (noon, [handled_intent]))
     = (Stored (noon, [handled_intent]), Inr (handled_intent, None))"
  using handled_intent_valid handled_intent_fields
  by (simp add: load_bound_intent_def get_pending_approval_intent_def with_intents_def io_at_def read_intents_def read_list_def
      get_intent_def bind_session_def truthy_def)

lemma handled_decided:
  "decide_pending_approval_intent (operation_world flat_hash) (io_at noon)
     \<lparr>dc_approvalId = ''approval-1'', dc_sourceId = ''src'', dc_runId = ''run'', dc_sessionId = None, dc_decision = Approve\<rparr>
     (Stored (noon, [handled_intent]))
     = (Stored (noon, [settle_intent IntApproved noon handled_intent]), Some (Inr (True, settle_intent IntApproved noon handled_intent)))"
  using handled_intent_valid handled_intent_fields
  by (simp add: decide_pending_approval_intent_def with_intents_def io_at_def read_intents_def read_list_def
      decide_intent_def expire_intents_def expire_intent_def Let_def write_disk_def kept_intents_def js_sort_def slice_last_id max_intents_def)

lemma handled_persisted:
  "persist_decision (operation_world flat_hash) handler_io (Some ''os-user:501'') Approve handled_intent (settle_intent IntApproved noon handled_intent) NoFile
     = (Stored (noon, [operation_record flat_hash]), None)"
proof -
  let ?p = "operation_save\<lparr>sv_createdAt := Some noon\<rparr>"
  have "save_autonomy_decision (operation_world flat_hash) (io_at noon) True ?p NoFile
    = save_autonomy_decision (operation_world flat_hash) (io_at noon) True operation_save NoFile"
    by (simp add: save_autonomy_decision_def operation_save_def or_else_def truthy_def io_at_def noon_def)
  then have s: "save_autonomy_decision (operation_world flat_hash) (io_at noon) True ?p NoFile
    = (Stored (noon, [operation_record flat_hash]), Inr (True, operation_record flat_hash))" using operation_saved by simp
  have p: "?p = \<lparr>sv_request = operation_request flat_hash, sv_decision = DecisionApproved, sv_evidenceRef = sample_evidence,
     sv_actorId = ''os-user:501'', sv_createdAt = Some noon, sv_expiresAt = ''2026-01-01T12:15:00.000Z''\<rparr>"
    by (simp add: operation_save_def)
  show ?thesis
    using handled_intent_fields operation_paths(2) s unfolding p
    by (simp add: persist_decision_def handler_io_def settle_intent_def or_else_def truthy_def noon_def)
qed

lemma handled_done:
  "manage_approval_intent (operation_world flat_hash) handler_io NoFile handler_ctx approve_payload before_approval
     = (\<lparr>hs_intents = Stored (noon, [settle_intent IntApproved noon handled_intent]), hs_decisions = Stored (noon, [operation_record flat_hash])\<rparr>,
        Inr (Some True, settle_intent IntApproved noon handled_intent))"
  using handled_loaded handled_decided handled_persisted handled_intent_fields handled_intent_parts(5-7)
  by (simp add: manage_approval_intent_def approve_payload_def require_string_def handler_ctx_def truthy_def act_on_intent_def
      decide_bound_def before_approval_def handler_io_def)

theorem handled_decision_authorizes_witness:
  "au_status (snd (prepare_authorization (operation_world flat_hash) (io_at ten_past_noon) True None sample_creation
     (hs_decisions (fst (manage_approval_intent (operation_world flat_hash) handler_io NoFile handler_ctx approve_payload before_approval)))))
   = AuthAllowed"
proof -
  let ?s = "\<lparr>hs_intents = Stored (noon, [settle_intent IntApproved noon handled_intent]), hs_decisions = Stored (noon, [operation_record flat_hash])\<rparr>"
  have files: "on_file (\<lambda>rs. distinct (map in_approvalId rs)) (hs_intents before_approval)" "on_file apart (hs_decisions before_approval)"
    by (simp_all add: before_approval_def)
  have asked: "au_status (decide_lookup sample_creation (operation_request flat_hash) (Inr LookupNone)) = AuthRequiresConfirmation"
    "au_request (decide_lookup sample_creation (operation_request flat_hash) (Inr LookupNone)) = Some (operation_request flat_hash)"
    by (simp_all add: decide_lookup_def Let_def)
  have decided: "in_decisionRequest (settle_intent IntApproved noon handled_intent) = Some (operation_request flat_hash)"
    using handled_intent_fields(6) by (simp add: settle_intent_def)
  have times: "\<forall>(e', private', oper) \<in> set []. \<not> date_reached (in_expiresAt (settle_intent IntApproved noon handled_intent)) (io_bodyNow e')"
    "\<not> date_reached (in_expiresAt (settle_intent IntApproved noon handled_intent)) (io_bodyNow (io_at ten_past_noon))"
    using handled_intent_fields(8) handled_intent_parts(8) by (simp_all add: settle_intent_def io_at_def)
  have run: "prepare_authorization (operation_world flat_hash) (io_at ten_past_noon) True None sample_creation
      (run_decisions (operation_world flat_hash) [] (hs_decisions ?s))
      = (Stored (noon, [operation_record flat_hash]), decide_lookup sample_creation (operation_request flat_hash) (Inr (LookupMatched (operation_record flat_hash))))"
    using operation_allowed(1) [OF flat_well] by (simp add: run_decisions_def)
  have "au_status (decide_lookup sample_creation (operation_request flat_hash) (Inr (LookupMatched (operation_record flat_hash)))) = AuthAllowed"
    using handled_decision_authorizes [OF files operation_asked asked handled_done decided times run] handled_intent_parts(5)
    by (simp add: approve_payload_def decide_lookup_def Let_def)
  then show ?thesis using operation_allowed(1) [OF flat_well] by (simp add: handled_done)
qed

end
