(* ===== verification/Workspace_Grants.thy ===== *)
theory Workspace_Grants
  imports Js_Map Js_Time Autonomy_Policy
begin

text \<open>
  \<^verbatim>\<open>packages/mcp/src/workspace-grants.ts\<close>: grants that permit a scope of operations on the
  paths of a workspace, evaluated first by their own checks and then by the autonomy policy
  of \<^verbatim>\<open>Autonomy_Policy\<close>. A grant's scopes are the policy's categories.
\<close>

section \<open>Data\<close>

datatype grant_state = GrantActive | GrantExpired | GrantRevoked | GrantStateDenied

primrec grant_state_text :: "grant_state \<Rightarrow> string" where
  "grant_state_text GrantActive = ''active''"
| "grant_state_text GrantExpired = ''expired''"
| "grant_state_text GrantRevoked = ''revoked''"
| "grant_state_text GrantStateDenied = ''denied''"

record workspace_grant =
  wg_grantId :: string
  wg_workspaceId :: string
  wg_runId :: "string option"
  wg_sessionId :: "string option"
  wg_level :: int
  wg_scopes :: "category list"
  wg_state :: grant_state
  wg_allowedPaths :: "string list"
  wg_protectedPaths :: "string list"
  wg_allowedCommands :: "string list option"
  wg_maxDepth :: "int option"
  wg_expiry :: "(string \<times> int) option"
  wg_grantedAt :: string
  wg_grantedBy :: string
  wg_auditReason :: string

datatype grant_evaluation = Permitted "category list" | NotPermitted string

primrec grant_scope_operation :: "category \<Rightarrow> string" where
  "grant_scope_operation CatRead = ''get_workbench_status''"
| "grant_scope_operation CatWrite = ''patch_file''"
| "grant_scope_operation CatCommand = ''run_exact_command''"
| "grant_scope_operation CatGit = ''git_commit''"
| "grant_scope_operation CatNetwork = ''github_read''"
| "grant_scope_operation CatCapability = ''approved_capability''"
| "grant_scope_operation CatRelease = ''install_promote''"

definition has_path_traversal :: "string \<Rightarrow> bool" where
  "has_path_traversal p = (''..'' \<in> set (split_on (\<lambda>c. c = CHR ''/'' \<or> c = CHR 0x5C) p))"

definition workspace_grant_schema :: "workspace_grant \<Rightarrow> bool" where
  "workspace_grant_schema g =
     (bounded_string 128 (wg_grantId g) \<and> bounded_string 128 (wg_workspaceId g)
      \<and> opt_bounded_string 128 (wg_runId g) \<and> opt_bounded_string 128 (wg_sessionId g)
      \<and> 0 \<le> wg_level g \<and> wg_level g \<le> 6
      \<and> 1 \<le> length (wg_scopes g) \<and> length (wg_scopes g) \<le> 7 \<and> distinct (wg_scopes g)
      \<and> list_all (bounded_string 1024) (wg_allowedPaths g) \<and> length (wg_allowedPaths g) \<le> 100
      \<and> list_all (bounded_string 1024) (wg_protectedPaths g) \<and> length (wg_protectedPaths g) \<le> 100
      \<and> (case wg_allowedCommands g of None \<Rightarrow> True
          | Some cs \<Rightarrow> list_all (bounded_string 256) cs \<and> length cs \<le> 50)
      \<and> (case wg_maxDepth g of None \<Rightarrow> True | Some d \<Rightarrow> 1 \<le> d \<and> d \<le> 20)
      \<and> (case wg_expiry g of None \<Rightarrow> True
          | Some (e, w) \<Rightarrow> bounded_string 64 e \<and> 0 \<le> w \<and> w \<le> 86400000)
      \<and> bounded_string 64 (wg_grantedAt g) \<and> bounded_string 256 (wg_grantedBy g)
      \<and> bounded_string 512 (wg_auditReason g))"

section \<open>Evaluation\<close>

definition path_under :: "string \<Rightarrow> string \<Rightarrow> bool" where
  "path_under p base = (p = base \<or> starts_with p (base @ ''/''))"

text \<open>A comparison with \<^verbatim>\<open>NaN\<close> is false: an unreadable time never counts as past.\<close>

definition grant_expired :: "workspace_grant \<Rightarrow> string \<Rightarrow> bool" where
  "grant_expired g nowIso =
     (case wg_expiry g of None \<Rightarrow> False
      | Some (expiresAt, w) \<Rightarrow>
          (case (date_parse nowIso, date_parse expiresAt) of
             (Some now, Some e) \<Rightarrow> e \<le> now
           | _ \<Rightarrow> False))"

definition grant_layer :: "workspace_grant \<Rightarrow> category \<Rightarrow> layer_name \<Rightarrow> layer_input" where
  "grant_layer g scope n =
     Layer \<lparr>al_name = n, al_grants = (\<lambda>c. if c = scope then Some
       \<lparr>ag_allowed = [grant_scope_operation scope], ag_confirmationRequired = None, ag_denied = None,
        ag_allowedPaths = Some (wg_allowedPaths g), ag_allowedCommands = None,
        ag_allowedNetworkTargets = None, ag_allowedCapabilities = None,
        ag_allowedGitOperations = None, ag_allowedReleaseTargets = None\<rparr> else None)\<rparr>"

definition grant_policy_input :: "workspace_grant \<Rightarrow> category \<Rightarrow> string \<Rightarrow> autonomy_input" where
  "grant_policy_input g scope path =
     \<lparr>ai_level = Some (wg_level g), ai_category = Some (category_text scope),
      ai_operation = Some (grant_scope_operation scope),
      ai_source = grant_layer g scope LSource, ai_run = grant_layer g scope LRun,
      ai_session = grant_layer g scope LSession, ai_capability = grant_layer g scope LCapability,
      ai_confirmation = Confirmation \<lparr>cf_state = ConfConfirmed, cf_operations = None, cf_persistedDecision = None\<rparr>,
      ai_scope = Some \<lparr>sc_path = Some path, sc_command = None, sc_networkTarget = None,
        sc_capabilityId = None, sc_gitOperation = None, sc_releaseTarget = None\<rparr>\<rparr>"

primrec reason_text :: "reason_code \<Rightarrow> string" where
  "reason_text SOURCE_DENIED = ''source_denied''"
| "reason_text RUN_RESTRICTED = ''run_restricted''"
| "reason_text SESSION_RESTRICTED = ''session_restricted''"
| "reason_text CAPABILITY_NOT_GRANTED = ''capability_not_granted''"
| "reason_text CONFIRMATION_REQUIRED = ''confirmation_required''"
| "reason_text CONFIRMATION_DENIED = ''confirmation_denied''"
| "reason_text PROTECTED_PATH = ''protected_path''"
| "reason_text NETWORK_NOT_GRANTED = ''network_not_granted''"
| "reason_text RELEASE_NOT_GRANTED = ''release_not_granted''"
| "reason_text UNKNOWN_OPERATION = ''unknown_operation''"
| "reason_text MALFORMED_POLICY = ''malformed_policy''"
| "reason_text SCOPE_EMPTY = ''scope_empty''"
| "reason_text LEVEL_NOT_GRANTED = ''level_not_granted''"
| "reason_text POLICY_ALLOWED = ''policy_allowed''"
| "reason_text PERSISTED_APPROVAL_REUSED = ''persisted_approval_reused''"
| "reason_text PERSISTED_DENIAL = ''persisted_denial''"
| "reason_text PERSISTED_POLICY_CHANGED = ''persisted_policy_changed''"

definition evaluate_grant :: "workspace_grant \<Rightarrow> category \<Rightarrow> string \<Rightarrow> string \<Rightarrow> grant_evaluation" where
  "evaluate_grant g scope path nowIso =
     (if wg_state g \<noteq> GrantActive then NotPermitted (''grant is '' @ grant_state_text (wg_state g))
      else if has_path_traversal path then NotPermitted ''path contains traversal''
      else if grant_expired g nowIso then NotPermitted ''grant has expired''
      else if scope \<notin> set (wg_scopes g)
      then NotPermitted (''scope '' @ [CHR 0x27] @ category_text scope @ [CHR 0x27] @ '' not included in grant'')
      else case List.find (path_under path) (wg_protectedPaths g) of
        Some p \<Rightarrow> NotPermitted (''path is protected: '' @ p)
      | None \<Rightarrow>
          if wg_allowedPaths g \<noteq> [] \<and> \<not> list_ex (path_under path) (wg_allowedPaths g)
          then NotPermitted ''path not within allowed boundaries''
          else let policy = evaluate_autonomy_policy (grant_policy_input g scope path) in
            if ae_decision policy \<noteq> Allowed
            then NotPermitted (reason_text (ae_reasonCode policy) @ '': '' @
                   (case ae_restrictingScope policy of
                      Some r \<Rightarrow> if r = [] then category_text scope else r
                    | None \<Rightarrow> category_text scope))
            else Permitted (wg_scopes g))"

section \<open>The store\<close>

type_synonym grant_store = "workspace_grant js_map"

definition create_grant_store :: grant_store where
  "create_grant_store = []"

definition issue_grant :: "workspace_grant validator \<Rightarrow> grant_store \<Rightarrow> workspace_grant \<Rightarrow> grant_store \<times> outcome" where
  "issue_grant ajv s g =
     (case ajv g of
        Some errs \<Rightarrow> (s, Refused (''invalid grant: '' @ join '', '' errs))
      | None \<Rightarrow> (jm_set (wg_grantId g) g s, Accepted))"

definition revoke_grant :: "grant_store \<Rightarrow> string \<Rightarrow> grant_store \<times> outcome" where
  "revoke_grant s i =
     (case jm_get s i of
        None \<Rightarrow> (s, Refused ''grant not found'')
      | Some g \<Rightarrow>
          if wg_state g \<noteq> GrantActive then (s, Refused (''grant already '' @ grant_state_text (wg_state g)))
          else (jm_set i (g\<lparr>wg_state := GrantRevoked\<rparr>) s, Accepted))"

fun find_permitting :: "workspace_grant list \<Rightarrow> string \<Rightarrow> category \<Rightarrow> string \<Rightarrow> string \<Rightarrow> grant_evaluation" where
  "find_permitting [] workspaceId scope path nowIso = NotPermitted ''no applicable active grant found''"
| "find_permitting (g # gs) workspaceId scope path nowIso =
     (if wg_workspaceId g \<noteq> workspaceId then find_permitting gs workspaceId scope path nowIso
      else case evaluate_grant g scope path nowIso of
        Permitted scopes \<Rightarrow> Permitted scopes
      | NotPermitted r \<Rightarrow> find_permitting gs workspaceId scope path nowIso)"

definition find_applicable_grant ::
  "grant_store \<Rightarrow> string \<Rightarrow> category \<Rightarrow> string \<Rightarrow> string \<Rightarrow> grant_evaluation" where
  "find_applicable_grant s workspaceId scope path nowIso =
     find_permitting (jm_values s) workspaceId scope path nowIso"

section \<open>What the policy adds to a grant's own checks\<close>

text \<open>
  Every layer of a grant's policy input grants the scope's operation with the grant's own
  paths, so what the policy adds is the level: the least one that grants the operation.
\<close>

primrec min_level :: "category \<Rightarrow> int" where
  "min_level CatRead = 0"
| "min_level CatWrite = 2"
| "min_level CatCommand = 3"
| "min_level CatGit = 3"
| "min_level CatNetwork = 4"
| "min_level CatCapability = 4"
| "min_level CatRelease = 6"

lemma level_grants_scope:
  assumes "0 \<le> n" "n \<le> 6"
  shows "layer_permits (ap_grants (autonomy_policies ! nat n)) c (grant_scope_operation c) \<longleftrightarrow> min_level c \<le> n"
proof -
  have table: "list_all (\<lambda>c. list_all (\<lambda>k.
      (grant_scope_operation c \<in> set (level_operations (autonomy_policies ! k) c)) = (min_level c \<le> int k))
      [0, 1, 2, 3, 4, 5, 6]) autonomy_categories"
    by code_simp
  have "nat n \<in> set [0, 1, 2, 3, 4, 5, 6]" using assms by (simp, presburger)
  with table category_listed [of c] have
    "(grant_scope_operation c \<in> set (level_operations (autonomy_policies ! nat n) c)) = (min_level c \<le> int (nat n))"
    unfolding list_all_iff by blast
  with assms show ?thesis by (simp add: layer_permits_level)
qed

lemma grant_operation_known [simp]: "grant_scope_operation c \<in> set known_operations"
proof -
  have "list_all (\<lambda>c. grant_scope_operation c \<in> set known_operations) autonomy_categories" by code_simp
  then show ?thesis by (simp add: list_all_iff)
qed

lemma grant_operation_nonempty [simp]: "grant_scope_operation c \<noteq> []"
  by (cases c) simp_all

lemma walk_layers_all:
  assumes "list_all2 (\<lambda>l g. al_grants (snd l) c = Some g \<and> \<not> includes_opt (ag_denied g) oper
      \<and> (oper \<in> set (ag_allowed g) \<or> includes_opt (ag_confirmationRequired g) oper)) ls gs"
    and "oper \<noteq> []"
  shows "\<exists>trace'. walk_layers c oper ls trace grants = Inr (trace', grants @ gs)"
  using assms
proof (induction ls gs arbitrary: trace grants rule: list_all2_induct)
  case (Cons l ls g gs)
  have "decide_autonomy_grant (Some (\<lambda>c'. if c' = c then Some g else None)) (category_text c) (Some oper) \<noteq> GrantDenied"
    using Cons by (subst decide_granted) auto
  moreover from Cons.IH [OF Cons.prems, of "trace @ [trace_of (layer_label l) Allowed POLICY_ALLOWED]" "grants @ [g]"]
  obtain trace' where "walk_layers c oper ls (trace @ [trace_of (layer_label l) Allowed POLICY_ALLOWED]) (grants @ [g])
      = Inr (trace', grants @ g # gs)" by auto
  ultimately show ?case using Cons.hyps by auto
qed simp

lemma meet_paths_self: "set ls \<subseteq> set (meet_paths ls ls)"
  by (auto simp: meet_paths_def)

lemma meet_paths_right: "x \<in> set ls \<Longrightarrow> x \<in> set rs \<Longrightarrow> x \<in> set (meet_paths ls rs)"
  by (auto simp: meet_paths_def)

lemma path_under_prefix: "path_under p base \<Longrightarrow> prefix_or_equal base p"
  by (auto simp: path_under_def prefix_or_equal_def starts_with_iff)

lemma grant_paths_within:
  assumes "ps = [] \<or> list_ex (path_under path) ps"
  shows "within_scope (intersect_lists [None, Some ps, Some ps, Some ps, Some ps]) (Some path)"
proof (cases "ps = []")
  case True
  then show ?thesis by (simp add: intersect_lists_def present_def meet_paths_def within_scope_def uniq_def)
next
  case False
  with assms obtain q where q: "q \<in> set ps" "prefix_or_equal q path"
    by (auto simp: list_ex_iff path_under_prefix)
  have "q \<in> set (intersect_lists [None, Some ps, Some ps, Some ps, Some ps])"
    using q(1) by (simp add: intersect_lists_def present_def meet_paths_right)
  with q(2) show ?thesis by (auto simp: within_scope_def list_ex_iff)
qed

lemma walk_grant_scopes:
  assumes paths: "ps = [] \<or> list_ex (path_under path) ps"
    and "ag_allowedPaths g0 = None" "\<forall>g \<in> {g1, g2, g3, g4}. ag_allowedPaths g = Some ps"
    and "\<forall>g \<in> {g0, g1, g2, g3, g4}. ag_allowedCommands g = None \<and> ag_allowedNetworkTargets g = None
       \<and> ag_allowedCapabilities g = None \<and> ag_allowedGitOperations g = None \<and> ag_allowedReleaseTargets g = None"
    and "sc_path s = Some path"
  shows "\<exists>eff. walk_scopes c [g0, g1, g2, g3, g4] (Some s) scope_fields empty_scope = Inr eff"
proof -
  have none: "intersect_lists [None, None, None, None, None] = []"
    by (simp add: intersect_lists_def present_def)
  then show ?thesis
    using assms grant_paths_within [OF paths] by (simp add: scope_fields_def) (simp add: within_scope_def)
qed

definition plain_grant :: "autonomy_grant \<Rightarrow> bool" where
  "plain_grant g = (ag_allowedPaths g = None \<and> ag_allowedCommands g = None \<and> ag_allowedNetworkTargets g = None
     \<and> ag_allowedCapabilities g = None \<and> ag_allowedGitOperations g = None \<and> ag_allowedReleaseTargets g = None)"

lemma level_grants_plain:
  "list_all (\<lambda>p. list_all (\<lambda>c. case ap_grants p c of None \<Rightarrow> True | Some g \<Rightarrow> plain_grant g) autonomy_categories)
     autonomy_policies"
  by code_simp

lemma level_grant_plain:
  assumes "ap_grants p c = Some g" "p \<in> set autonomy_policies"
  shows "plain_grant g"
proof -
  have "\<forall>c \<in> set autonomy_categories. case ap_grants p c of None \<Rightarrow> True | Some g \<Rightarrow> plain_grant g"
    using level_grants_plain assms(2) unfolding list_all_iff by blast
  with category_listed [of c] have "case ap_grants p c of None \<Rightarrow> True | Some g \<Rightarrow> plain_grant g" by blast
  with assms(1) show ?thesis by simp
qed

lemma layer_permitsE:
  assumes "layer_permits gm c oper"
  obtains g where "gm c = Some g" "\<not> includes_opt (ag_denied g) oper"
    "oper \<in> set (ag_allowed g) \<or> includes_opt (ag_confirmationRequired g) oper"
  using assms by (auto simp: layer_permits_def split: option.splits)

lemma confirmed_allowed:
  "cf_state cf = ConfConfirmed \<Longrightarrow> cf_operations cf = None \<Longrightarrow> cf_persistedDecision cf = None \<Longrightarrow>
   ae_decision (confirm_evaluation c oper cf grants trace eff) = Allowed"
  by (simp add: confirm_evaluation_def Let_def)

lemma grant_policy_allowed:
  assumes paths: "wg_allowedPaths g = [] \<or> list_ex (path_under path) (wg_allowedPaths g)"
  shows "ae_decision (evaluate_autonomy_policy (grant_policy_input g c path)) = Allowed
    \<longleftrightarrow> min_level c \<le> wg_level g \<and> wg_level g \<le> 6" (is "?L \<longleftrightarrow> ?R")
proof
  assume ?L
  then show ?R
  proof (rule allowed_stages)
    fix ct c' oper cf ls trace grants eff and p :: autonomy_policy
    assume "ai_category (grant_policy_input g c path) = Some ct" "category_of ct = Some c'"
      "ai_operation (grant_policy_input g c path) = Some oper"
    then have same: "c' = c" "oper = grant_scope_operation c" by (auto simp: grant_policy_input_def)
    assume "checked_layers (input_layers (grant_policy_input g c path)) = Inr ls"
      "walk_layers c' oper ((True, \<lparr>al_name = LSource, al_grants = ap_grants p\<rparr>) # map (Pair False) ls) [] []
         = Inr (trace, grants)"
    then have "layer_permits (ap_grants p) c (grant_scope_operation c)"
      using allowed_grants unfolding same by blast
    moreover assume "get_autonomy_policy (ai_level (grant_policy_input g c path)) = Some p"
    then have "0 \<le> wg_level g" "wg_level g \<le> 6" "p = autonomy_policies ! nat (wg_level g)"
      by (auto simp: grant_policy_input_def get_autonomy_policy_nth)
    ultimately show ?R by (simp add: level_grants_scope)
  qed
next
  assume R: ?R
  then have lv: "0 \<le> wg_level g" by (cases c) auto
  define p where "p = autonomy_policies ! nat (wg_level g)"
  have level: "get_autonomy_policy (Some (wg_level g)) = Some p"
    using lv R by (simp add: get_autonomy_policy_nth p_def)
  have "layer_permits (ap_grants p) c (grant_scope_operation c)"
    using R lv unfolding p_def by (simp add: level_grants_scope)
  then obtain g0 where g0: "ap_grants p c = Some g0" "\<not> includes_opt (ag_denied g0) (grant_scope_operation c)"
    "grant_scope_operation c \<in> set (ag_allowed g0) \<or> includes_opt (ag_confirmationRequired g0) (grant_scope_operation c)"
    by (rule layer_permitsE)
  have "p \<in> set autonomy_policies" using R lv unfolding p_def by (intro nth_mem) (simp, linarith)
  with g0(1) have plain: "plain_grant g0" by (rule level_grant_plain)
  let ?g = "\<lparr>ag_allowed = [grant_scope_operation c], ag_confirmationRequired = None, ag_denied = None,
        ag_allowedPaths = Some (wg_allowedPaths g), ag_allowedCommands = None,
        ag_allowedNetworkTargets = None, ag_allowedCapabilities = None,
        ag_allowedGitOperations = None, ag_allowedReleaseTargets = None\<rparr>"
  let ?l = "\<lambda>n. \<lparr>al_name = n, al_grants = (\<lambda>c'. if c' = c then Some ?g else None)\<rparr>"
  let ?ls = "[?l LSource, ?l LRun, ?l LSession, ?l LCapability]"
  have layers: "checked_layers (input_layers (grant_policy_input g c path)) = Inr ?ls"
    by (simp add: input_layers_def grant_policy_input_def grant_layer_def)
  obtain trace where walked: "walk_layers c (grant_scope_operation c)
      ((True, \<lparr>al_name = LSource, al_grants = ap_grants p\<rparr>) # map (Pair False) ?ls) [] []
      = Inr (trace, [] @ [g0, ?g, ?g, ?g, ?g])"
    using g0 walk_layers_all [of c "grant_scope_operation c"
        "(True, \<lparr>al_name = LSource, al_grants = ap_grants p\<rparr>) # map (Pair False) ?ls" "[g0, ?g, ?g, ?g, ?g]" "[]" "[]"]
    by (auto simp: includes_opt_def)
  let ?sc = "\<lparr>sc_path = Some path, sc_command = None, sc_networkTarget = None,
        sc_capabilityId = None, sc_gitOperation = None, sc_releaseTarget = None\<rparr>"
  have "\<exists>eff. walk_scopes c [g0, ?g, ?g, ?g, ?g] (Some ?sc) scope_fields empty_scope = Inr eff"
  proof (rule walk_grant_scopes [OF paths])
    show "ag_allowedPaths g0 = None" using plain by (simp add: plain_grant_def)
    show "\<forall>h \<in> {g0, ?g, ?g, ?g, ?g}. ag_allowedCommands h = None \<and> ag_allowedNetworkTargets h = None
       \<and> ag_allowedCapabilities h = None \<and> ag_allowedGitOperations h = None \<and> ag_allowedReleaseTargets h = None"
      using plain by (simp add: plain_grant_def)
  qed simp_all
  then obtain eff where scopes: "walk_scopes c [g0, ?g, ?g, ?g, ?g] (ai_scope (grant_policy_input g c path))
      scope_fields empty_scope = Inr eff"
    by (auto simp only: grant_policy_input_def autonomy_input.simps)
  have fields: "ai_category (grant_policy_input g c path) = Some (category_text c)"
    "ai_operation (grant_policy_input g c path) = Some (grant_scope_operation c)"
    "ai_level (grant_policy_input g c path) = Some (wg_level g)"
    "ai_confirmation (grant_policy_input g c path)
       = Confirmation \<lparr>cf_state = ConfConfirmed, cf_operations = None, cf_persistedDecision = None\<rparr>"
    by (simp_all add: grant_policy_input_def)
  show ?L
    using walked scopes
    by (simp only: evaluate_autonomy_policy_def fields layers level) (simp add: confirmed_allowed)
qed

section \<open>The store as a machine\<close>

datatype grant_op = IssueGrant workspace_grant | RevokeGrant string

fun grant_step :: "workspace_grant validator \<Rightarrow> grant_store \<Rightarrow> grant_op \<Rightarrow> grant_store" where
  "grant_step v s (IssueGrant g) = fst (issue_grant v s g)"
| "grant_step v s (RevokeGrant i) = fst (revoke_grant s i)"

definition grant_store_inv :: "grant_store \<Rightarrow> bool" where
  "grant_store_inv s = (jm_wf s \<and> jm.entries (\<lambda>k g. wg_grantId g = k) s)"

interpretation grants: op_machine "grant_step v" grant_store_inv
proof unfold_locales
  fix s a assume "grant_store_inv s"
  then show "grant_store_inv (grant_step v s a)"
    by (cases a)
       (auto simp: grant_store_inv_def issue_grant_def revoke_grant_def jm.entries_def jm_laws jm.wf_put
         split: option.splits)
qed

lemma create_grant_store_inv: "grant_store_inv create_grant_store"
  by (simp add: grant_store_inv_def create_grant_store_def jm.entries_def)

definition issues :: "string \<Rightarrow> grant_op \<Rightarrow> bool" where
  "issues i a = (case a of IssueGrant g \<Rightarrow> wg_grantId g = i | RevokeGrant j \<Rightarrow> False)"

lemma grant_step_inactive:
  assumes "jm_get s i = Some g" "wg_state g \<noteq> GrantActive" "\<not> issues i a"
  shows "jm_get (grant_step v s a) i = Some g"
  using assms
  by (cases a) (auto simp: issues_def issue_grant_def revoke_grant_def jm_laws split: option.splits)

lemma grant_run_inactive:
  "jm_get s i = Some g \<Longrightarrow> wg_state g \<noteq> GrantActive \<Longrightarrow> list_all (\<lambda>a. \<not> issues i a) ops \<Longrightarrow>
   jm_get (foldl (grant_step v) s ops) i = Some g"
  by (induction ops arbitrary: s) (auto simp: grant_step_inactive)

lemma find_permitting_Permitted:
  "find_permitting gs w sc p n = Permitted scopes \<Longrightarrow>
   \<exists>g \<in> set gs. wg_workspaceId g = w \<and> evaluate_grant g sc p n = Permitted scopes"
  by (induction gs w sc p n rule: find_permitting.induct)
     (auto split: grant_evaluation.splits if_splits)

lemma find_permitting_NotPermitted:
  "find_permitting gs w sc p n = NotPermitted r \<Longrightarrow>
   r = ''no applicable active grant found''
   \<and> (\<forall>g \<in> set gs. wg_workspaceId g = w \<longrightarrow> (\<exists>r'. evaluate_grant g sc p n = NotPermitted r'))"
  by (induction gs w sc p n rule: find_permitting.induct)
     (auto split: grant_evaluation.splits if_splits)

section \<open>Properties\<close>

text \<open>
  C10. A grant permits exactly what it should: the evaluation answers \<open>Permitted\<close>, with all of
  the grant's scopes, if and only if the grant is active and not past its expiry, the path has
  no \<^verbatim>\<open>..\<close> segment and lies under no protected path and under an allowed one when there are
  any, the scope is one of the grant's, and the level is the least one that grants the scope's
  operation or a higher one. The evaluation through the autonomy policy adds nothing else.
\<close>

theorem evaluate_grant_exact:
  "evaluate_grant g scope path nowIso = Permitted scopes \<longleftrightarrow>
     scopes = wg_scopes g \<and> wg_state g = GrantActive \<and> \<not> has_path_traversal path
     \<and> \<not> grant_expired g nowIso \<and> scope \<in> set (wg_scopes g)
     \<and> list_all (\<lambda>q. \<not> path_under path q) (wg_protectedPaths g)
     \<and> (wg_allowedPaths g = [] \<or> list_ex (path_under path) (wg_allowedPaths g))
     \<and> min_level scope \<le> wg_level g \<and> wg_level g \<le> 6"
proof (cases "wg_allowedPaths g = [] \<or> list_ex (path_under path) (wg_allowedPaths g)")
  case True
  show ?thesis
    using grant_policy_allowed [OF True, of scope] True
    by (auto simp: evaluate_grant_def Let_def find_None_iff find_Some_iff list_all_iff split: option.splits)
next
  case False
  then show ?thesis by (auto simp: evaluate_grant_def split: option.splits)
qed

definition sample_grant :: workspace_grant where
  "sample_grant =
     \<lparr>wg_grantId = ''g'', wg_workspaceId = ''w'', wg_runId = None, wg_sessionId = None, wg_level = 3,
      wg_scopes = [CatRead, CatWrite], wg_state = GrantActive, wg_allowedPaths = [''src''],
      wg_protectedPaths = [''src/keys''], wg_allowedCommands = None, wg_maxDepth = None,
      wg_expiry = Some (''tomorrow'', 0), wg_grantedAt = ''2026-01-01T00:00:00.000Z'',
      wg_grantedBy = ''u'', wg_auditReason = ''edit''\<rparr>"

text \<open>
  The search over a store is exact: it permits an operation in a workspace if and only if
  some grant of that workspace, held under its own id, permits it, and then answers with that
  grant's scopes; otherwise the answer is always that no applicable grant was found.
\<close>

theorem find_applicable_grant_exact:
  fixes ops :: "grant_op list" and v :: "workspace_grant validator"
  defines "s \<equiv> foldl (grant_step v) create_grant_store ops"
  shows "case find_applicable_grant s w scope path nowIso of
      Permitted scopes \<Rightarrow> (\<exists>g. jm_get s (wg_grantId g) = Some g \<and> wg_workspaceId g = w
            \<and> evaluate_grant g scope path nowIso = Permitted scopes)
    | NotPermitted r \<Rightarrow> r = ''no applicable active grant found''
        \<and> (\<forall>g scopes. jm_get s (wg_grantId g) = Some g \<and> wg_workspaceId g = w
            \<longrightarrow> evaluate_grant g scope path nowIso \<noteq> Permitted scopes)"
proof -
  have inv: "grant_store_inv s" unfolding s_def by (intro grants.inv_run create_grant_store_inv)
  then have mem: "g \<in> set (jm_values s) \<longleftrightarrow> jm_get s (wg_grantId g) = Some g" for g
    by (auto simp: grant_store_inv_def jm.vals_get jm.entries_def)
  show ?thesis
  proof (cases "find_applicable_grant s w scope path nowIso")
    case (Permitted scopes)
    then show ?thesis
      using find_permitting_Permitted [of "jm_values s" w scope path nowIso scopes]
      by (auto simp: find_applicable_grant_def mem)
  next
    case (NotPermitted r)
    then show ?thesis
      using find_permitting_NotPermitted [of "jm_values s" w scope path nowIso r]
      by (fastforce simp: find_applicable_grant_def mem)
  qed
qed

theorem find_applicable_grant_exact_witness:
  "let s = foldl (grant_step (schema_validator workspace_grant_schema)) create_grant_store [IssueGrant sample_grant]
   in case find_applicable_grant s ''w'' CatWrite ''src/a'' ''x'' of
      Permitted scopes \<Rightarrow> (\<exists>g. jm_get s (wg_grantId g) = Some g \<and> wg_workspaceId g = ''w''
            \<and> evaluate_grant g CatWrite ''src/a'' ''x'' = Permitted scopes)
    | NotPermitted r \<Rightarrow> r = ''no applicable active grant found''
        \<and> (\<forall>g scopes. jm_get s (wg_grantId g) = Some g \<and> wg_workspaceId g = ''w''
            \<longrightarrow> evaluate_grant g CatWrite ''src/a'' ''x'' \<noteq> Permitted scopes)"
  unfolding Let_def by (rule find_applicable_grant_exact)

text \<open>
  Revocation holds until a new issue: once a grant of the store is revoked (or in any
  other state than active), no operations other than issuing its id change it, and it permits
  nothing, at any time, path or scope; issuing the id again replaces it.
\<close>

theorem inactive_grant_permits_nothing:
  assumes "jm_get s i = Some g" "wg_state g \<noteq> GrantActive" "list_all (\<lambda>a. \<not> issues i a) ops"
  shows "jm_get (foldl (grant_step v) s ops) i = Some g
    \<and> evaluate_grant g scope path nowIso = NotPermitted (''grant is '' @ grant_state_text (wg_state g))
    \<and> snd (revoke_grant (foldl (grant_step v) s ops) i) = Refused (''grant already '' @ grant_state_text (wg_state g))"
  using grant_run_inactive [OF assms, of v] assms(2)
  by (simp add: evaluate_grant_def revoke_grant_def)

theorem inactive_grant_permits_nothing_witness:
  "let s = foldl (grant_step (schema_validator workspace_grant_schema)) create_grant_store
             [IssueGrant sample_grant, RevokeGrant ''g''];
       g = sample_grant\<lparr>wg_state := GrantRevoked\<rparr>; v = schema_validator workspace_grant_schema
   in jm_get (foldl (grant_step v) s [RevokeGrant ''g'']) ''g'' = Some g
    \<and> evaluate_grant g CatRead ''src'' ''x'' = NotPermitted (''grant is '' @ grant_state_text (wg_state g))
    \<and> snd (revoke_grant (foldl (grant_step v) s [RevokeGrant ''g'']) ''g'')
        = Refused (''grant already '' @ grant_state_text (wg_state g))"
  unfolding Let_def
  by (rule inactive_grant_permits_nothing)
     (simp_all add: sample_grant_def issue_grant_def revoke_grant_def schema_validator_def
       workspace_grant_schema_def schema_simps create_grant_store_def jm_get_def issues_def)

text \<open>
  An expiry that cannot be read as a date is no expiry: the schema only bounds its
  length, and a grant with such an expiry is evaluated, at every time, exactly as the same
  grant without one.
\<close>

theorem unreadable_expiry_never_expires:
  assumes "wg_expiry g = Some (e, w)" "date_parse e = None"
  shows "evaluate_grant g scope path nowIso = evaluate_grant (g\<lparr>wg_expiry := None\<rparr>) scope path nowIso"
proof -
  have "grant_policy_input (g\<lparr>wg_expiry := None\<rparr>) scope path = grant_policy_input g scope path"
    by (simp add: grant_policy_input_def grant_layer_def cong: if_cong)
  moreover have "\<not> grant_expired g nowIso" "\<not> grant_expired (g\<lparr>wg_expiry := None\<rparr>) nowIso"
    using assms by (auto simp: grant_expired_def split: option.splits)
  ultimately show ?thesis by (simp add: evaluate_grant_def Let_def cong: if_cong option.case_cong)
qed

theorem unreadable_expiry_never_expires_witness:
  "workspace_grant_schema sample_grant
   \<and> evaluate_grant sample_grant CatWrite ''src/a'' ''2999-01-01T00:00:00.000Z''
     = evaluate_grant (sample_grant\<lparr>wg_expiry := None\<rparr>) CatWrite ''src/a'' ''2999-01-01T00:00:00.000Z''"
proof
  show "workspace_grant_schema sample_grant"
    by (simp add: workspace_grant_schema_def sample_grant_def schema_simps)
  have "date_parse ''tomorrow'' = None" by code_simp
  then show "evaluate_grant sample_grant CatWrite ''src/a'' ''2999-01-01T00:00:00.000Z''
     = evaluate_grant (sample_grant\<lparr>wg_expiry := None\<rparr>) CatWrite ''src/a'' ''2999-01-01T00:00:00.000Z''"
    by (intro unreadable_expiry_never_expires [where e = "''tomorrow''" and w = 0]) (simp_all add: sample_grant_def)
qed

end
