(* ===== verification/Team_Policy.thy ===== *)
theory Team_Policy
  imports Js_Map
begin

text \<open>
  \<^verbatim>\<open>packages/mcp/src/managed-team-policy.ts\<close>: policies a team offers, the bindings by which
  devices opt in, and the evaluation of a request against the policies a device is bound to.
\<close>

section \<open>Data\<close>

datatype enforcement = Advisory | Enforced

datatype policy_scope = ScopeDevice | ScopeUser | ScopeTeam | ScopeOrganization

record team_rule =
  tr_ruleId :: string
  tr_description :: string
  tr_enforcement :: enforcement
  tr_scope :: policy_scope
  tr_maxAutonomyLevel :: int
  tr_requireApprovalForScopes :: "string list"
  tr_deniedCapabilities :: "string list"
  tr_requiredEvidence :: "string list"

record team_policy =
  tp_policyId :: string
  tp_teamId :: string
  tp_version :: int
  tp_optInRequired :: bool
  tp_rules :: "team_rule list"
  tp_createdAt :: string
  tp_updatedAt :: string

record policy_binding =
  pb_bindingId :: string
  pb_policyId :: string
  pb_deviceId :: string
  pb_userId :: string
  pb_optedInAt :: string
  pb_active :: bool

record policy_evaluation =
  pe_permitted :: bool
  pe_enforcement :: enforcement
  pe_violations :: "string list"
  pe_advisories :: "string list"

record policy_state =
  ps_policies :: "team_policy js_map"
  ps_bindings :: "policy_binding js_map"

definition team_rule_schema :: "team_rule \<Rightarrow> bool" where
  "team_rule_schema r =
     (bounded_string 128 (tr_ruleId r) \<and> bounded_string 512 (tr_description r)
      \<and> 0 \<le> tr_maxAutonomyLevel r \<and> tr_maxAutonomyLevel r \<le> 6
      \<and> list_all (\<lambda>s. length s \<le> 64) (tr_requireApprovalForScopes r)
      \<and> list_all (\<lambda>s. length s \<le> 128) (tr_deniedCapabilities r)
      \<and> list_all (\<lambda>s. length s \<le> 128) (tr_requiredEvidence r))"

definition team_policy_schema :: "team_policy \<Rightarrow> bool" where
  "team_policy_schema p =
     (bounded_string 128 (tp_policyId p) \<and> bounded_string 128 (tp_teamId p) \<and> 1 \<le> tp_version p
      \<and> list_all team_rule_schema (tp_rules p)
      \<and> bounded_string 64 (tp_createdAt p) \<and> bounded_string 64 (tp_updatedAt p))"

definition policy_binding_schema :: "policy_binding \<Rightarrow> bool" where
  "policy_binding_schema b =
     (bounded_string 128 (pb_bindingId b) \<and> bounded_string 128 (pb_policyId b)
      \<and> bounded_string 128 (pb_deviceId b) \<and> bounded_string 128 (pb_userId b)
      \<and> bounded_string 64 (pb_optedInAt b))"

section \<open>Operations\<close>

definition create_policy_state :: policy_state where
  "create_policy_state = \<lparr>ps_policies = [], ps_bindings = []\<rparr>"

definition register_team_policy ::
  "team_policy validator \<Rightarrow> policy_state \<Rightarrow> team_policy \<Rightarrow> policy_state \<times> outcome" where
  "register_team_policy ajv s p =
     (case ajv p of
        Some errs \<Rightarrow> (s, Refused (''invalid_policy: '' @ join '', '' errs))
      | None \<Rightarrow>
          if tp_rules p = [] then (s, Refused ''policy_has_no_rules'')
          else if \<not> tp_optInRequired p then (s, Refused ''opt_in_must_be_required'')
          else if jm_has (ps_policies s) (tp_policyId p) then (s, Refused ''policy_id_already_exists'')
          else (s\<lparr>ps_policies := jm_set (tp_policyId p) p (ps_policies s)\<rparr>, Accepted))"

definition bind_device ::
  "policy_binding validator \<Rightarrow> policy_state \<Rightarrow> policy_binding \<Rightarrow> policy_state \<times> outcome" where
  "bind_device ajv s b =
     (case ajv b of
        Some errs \<Rightarrow> (s, Refused (''invalid_binding: '' @ join '', '' errs))
      | None \<Rightarrow>
          if \<not> jm_has (ps_policies s) (pb_policyId b) then (s, Refused ''policy_not_found'')
          else if \<not> pb_active b then (s, Refused ''binding_must_be_active'')
          else if jm_has (ps_bindings s) (pb_bindingId b) then (s, Refused ''binding_id_already_exists'')
          else (s\<lparr>ps_bindings := jm_set (pb_bindingId b) b (ps_bindings s)\<rparr>, Accepted))"

definition unbind_device :: "policy_state \<Rightarrow> string \<Rightarrow> policy_state \<times> outcome" where
  "unbind_device s bindingId =
     (case jm_get (ps_bindings s) bindingId of
        None \<Rightarrow> (s, Refused ''binding_not_found'')
      | Some b \<Rightarrow>
          if \<not> pb_active b then (s, Refused ''binding_already_inactive'')
          else (s\<lparr>ps_bindings := jm_set bindingId (b\<lparr>pb_active := False\<rparr>) (ps_bindings s)\<rparr>, Accepted))"

definition active_bindings :: "policy_state \<Rightarrow> string \<Rightarrow> policy_binding list" where
  "active_bindings s deviceId = filter (\<lambda>b. pb_active b \<and> pb_deviceId b = deviceId) (jm_values (ps_bindings s))"

text \<open>The messages of a rule a request breaks, in the order of the code's three checks.\<close>

definition rule_messages :: "int \<Rightarrow> string \<Rightarrow> string option \<Rightarrow> team_rule \<Rightarrow> string list" where
  "rule_messages level scope cap r =
     (if tr_maxAutonomyLevel r < level
      then [''autonomy_level_'' @ show_int level @ ''_exceeds_max_'' @ show_int (tr_maxAutonomyLevel r)] else [])
     @ (if scope \<in> set (tr_requireApprovalForScopes r) then [''scope_'' @ scope @ ''_requires_approval''] else [])
     @ (if truthy cap \<and> the cap \<in> set (tr_deniedCapabilities r)
        then [''capability_'' @ the cap @ ''_denied''] else [])"

definition apply_rule ::
  "int \<Rightarrow> string \<Rightarrow> string option \<Rightarrow> policy_evaluation \<Rightarrow> team_rule \<Rightarrow> policy_evaluation" where
  "apply_rule level scope cap acc r =
     (let msgs = rule_messages level scope cap r in
      if tr_enforcement r = Enforced
      then acc\<lparr>pe_enforcement := Enforced, pe_violations := pe_violations acc @ msgs\<rparr>
      else acc\<lparr>pe_advisories := pe_advisories acc @ msgs\<rparr>)"

fun apply_bindings ::
  "policy_state \<Rightarrow> int \<Rightarrow> string \<Rightarrow> string option \<Rightarrow> policy_binding list \<Rightarrow> policy_evaluation \<Rightarrow> policy_evaluation" where
  "apply_bindings s level scope cap [] acc = acc"
| "apply_bindings s level scope cap (b # bs) acc =
     (case jm_get (ps_policies s) (pb_policyId b) of
        None \<Rightarrow> apply_bindings s level scope cap bs acc
      | Some p \<Rightarrow> apply_bindings s level scope cap bs (foldl (apply_rule level scope cap) acc (tp_rules p)))"

text \<open>The requested level is a number: \<open>None\<close> is one that is not an integer.\<close>

definition evaluate_policy ::
  "policy_state \<Rightarrow> string \<Rightarrow> int option \<Rightarrow> string \<Rightarrow> string option \<Rightarrow> policy_evaluation" where
  "evaluate_policy s deviceId requestedLevel scope cap =
     (let invalid = \<lparr>pe_permitted = False, pe_enforcement = Enforced,
                     pe_violations = [''invalid_policy_request''], pe_advisories = []\<rparr> in
      case requestedLevel of
        None \<Rightarrow> invalid
      | Some level \<Rightarrow>
          if level < 0 \<or> 6 < level \<or> scope = [] then invalid
          else let bs = active_bindings s deviceId;
                   start = \<lparr>pe_permitted = True, pe_enforcement = Advisory, pe_violations = [], pe_advisories = []\<rparr>
            in if bs = [] then start
               else let e = apply_bindings s level scope cap bs start
                 in e\<lparr>pe_permitted := (pe_violations e = [])\<rparr>)"

definition get_effective_policies :: "policy_state \<Rightarrow> string \<Rightarrow> team_policy list" where
  "get_effective_policies s deviceId =
     List.map_filter (\<lambda>b. jm_get (ps_policies s) (pb_policyId b)) (active_bindings s deviceId)"

section \<open>What an evaluation collects\<close>

text \<open>All the rules the loop visits, in its order.\<close>

definition effective_rules :: "policy_state \<Rightarrow> string \<Rightarrow> team_rule list" where
  "effective_rules s deviceId = concat (map tp_rules (get_effective_policies s deviceId))"

lemma map_filter_Cons:
  "List.map_filter f (x # xs) = (case f x of None \<Rightarrow> List.map_filter f xs | Some y \<Rightarrow> y # List.map_filter f xs)"
  by (simp add: List.map_filter_def split: option.split)

lemma map_filter_Nil: "List.map_filter f [] = []"
  by (simp add: List.map_filter_def)

lemma apply_bindings_rules:
  "apply_bindings s level scope cap bs acc =
   foldl (apply_rule level scope cap) acc
     (concat (map tp_rules (List.map_filter (\<lambda>b. jm_get (ps_policies s) (pb_policyId b)) bs)))"
  by (induction s level scope cap bs acc rule: apply_bindings.induct)
     (simp_all add: map_filter_Cons map_filter_Nil split: option.split)

lemma apply_rules_collect:
  "pe_violations (foldl (apply_rule level scope cap) acc rs) =
     pe_violations acc @ concat (map (rule_messages level scope cap) (filter (\<lambda>r. tr_enforcement r = Enforced) rs))"
  "pe_advisories (foldl (apply_rule level scope cap) acc rs) =
     pe_advisories acc @ concat (map (rule_messages level scope cap) (filter (\<lambda>r. tr_enforcement r \<noteq> Enforced) rs))"
  "pe_enforcement (foldl (apply_rule level scope cap) acc rs) =
     (if list_ex (\<lambda>r. tr_enforcement r = Enforced) rs then Enforced else pe_enforcement acc)"
  "pe_permitted (foldl (apply_rule level scope cap) acc rs) = pe_permitted acc"
  by (induction rs arbitrary: acc) (simp_all add: apply_rule_def Let_def)

lemma rule_messages_empty:
  "rule_messages level scope cap r = [] \<longleftrightarrow>
     level \<le> tr_maxAutonomyLevel r \<and> scope \<notin> set (tr_requireApprovalForScopes r)
     \<and> (truthy cap \<longrightarrow> the cap \<notin> set (tr_deniedCapabilities r))"
  by (auto simp: rule_messages_def)

section \<open>The policies as a machine\<close>

datatype policy_op = RegisterPolicy team_policy | BindDevice policy_binding | UnbindDevice string

fun policy_step ::
  "team_policy validator \<Rightarrow> policy_binding validator \<Rightarrow> policy_state \<Rightarrow> policy_op \<Rightarrow> policy_state" where
  "policy_step vp vb s (RegisterPolicy p) = fst (register_team_policy vp s p)"
| "policy_step vp vb s (BindDevice b) = fst (bind_device vb s b)"
| "policy_step vp vb s (UnbindDevice i) = fst (unbind_device s i)"

definition policy_inv :: "policy_state \<Rightarrow> bool" where
  "policy_inv s =
     (jm_wf (ps_policies s) \<and> jm_wf (ps_bindings s)
      \<and> jm.entries (\<lambda>k p. tp_policyId p = k \<and> tp_optInRequired p \<and> tp_rules p \<noteq> []) (ps_policies s)
      \<and> jm.entries (\<lambda>k b. pb_bindingId b = k \<and> jm_has (ps_policies s) (pb_policyId b)) (ps_bindings s))"

text \<open>How a later state relates to an earlier one: policies stay as registered, and a binding
  only ever loses its \<^verbatim>\<open>active\<close> flag.\<close>

definition policy_evolves :: "policy_state \<Rightarrow> policy_state \<Rightarrow> bool" where
  "policy_evolves s t =
     ((\<forall>i p. jm_get (ps_policies s) i = Some p \<longrightarrow> jm_get (ps_policies t) i = Some p)
      \<and> (\<forall>i b. jm_get (ps_bindings s) i = Some b \<longrightarrow>
           jm_get (ps_bindings t) i = Some b \<or> jm_get (ps_bindings t) i = Some (b\<lparr>pb_active := False\<rparr>)))"

lemma create_policy_inv: "policy_inv create_policy_state"
  by (simp add: policy_inv_def create_policy_state_def jm.entries_def)

lemma policy_evolves_trans: "policy_evolves s t \<Longrightarrow> policy_evolves t u \<Longrightarrow> policy_evolves s u"
  unfolding policy_evolves_def by (metis policy_binding.select_convs(6) policy_binding.surjective policy_binding.update_convs(6))

lemma policy_inv_step: "policy_inv s \<Longrightarrow> policy_inv (policy_step vp vb s a)"
  by (cases a)
     (auto simp: policy_inv_def register_team_policy_def bind_device_def unbind_device_def
        jm.entries_def jm_laws jm_has_def jm.wf_put split: option.splits)

lemma policy_evolves_step: "policy_evolves s (policy_step vp vb s a)"
  by (cases a)
     (auto simp: policy_evolves_def register_team_policy_def bind_device_def unbind_device_def
        jm_laws jm_has_def split: option.splits)

interpretation team: evolving_machine "policy_step vp vb" policy_inv policy_evolves
proof unfold_locales
  show "policy_evolves s s" for s by (simp add: policy_evolves_def)
qed (auto intro: policy_inv_step policy_evolves_step policy_evolves_trans)

section \<open>Properties\<close>

definition sample_rule :: "enforcement \<Rightarrow> team_rule" where
  "sample_rule e =
     \<lparr>tr_ruleId = ''r'', tr_description = ''d'', tr_enforcement = e, tr_scope = ScopeTeam, tr_maxAutonomyLevel = 3,
      tr_requireApprovalForScopes = [''release''], tr_deniedCapabilities = [''deploy''], tr_requiredEvidence = []\<rparr>"

definition sample_policy :: team_policy where
  "sample_policy =
     \<lparr>tp_policyId = ''p'', tp_teamId = ''t'', tp_version = 1, tp_optInRequired = True,
      tp_rules = [sample_rule Enforced, sample_rule Advisory], tp_createdAt = ''now'', tp_updatedAt = ''now''\<rparr>"

definition sample_binding :: policy_binding where
  "sample_binding =
     \<lparr>pb_bindingId = ''b'', pb_policyId = ''p'', pb_deviceId = ''d'', pb_userId = ''u'', pb_optedInAt = ''now'',
      pb_active = True\<rparr>"

text \<open>
  The evaluation of a well-formed request is exact: it is permitted if and only if it
  breaks no enforced rule (level, scope, capability) of a policy the device is actively bound
  to; advisory rules only add advisories, and the answer is marked enforced exactly when an
  enforced rule applied. A malformed request is never permitted.
\<close>

theorem team_policy_evaluation_exact:
  "let e = evaluate_policy s deviceId requestedLevel scope cap; rules = effective_rules s deviceId in
   (case requestedLevel of
      None \<Rightarrow> \<not> pe_permitted e
    | Some level \<Rightarrow>
        if level < 0 \<or> 6 < level \<or> scope = [] then \<not> pe_permitted e
        else (pe_permitted e \<longleftrightarrow> (\<forall>r \<in> set rules. tr_enforcement r = Enforced \<longrightarrow>
                level \<le> tr_maxAutonomyLevel r \<and> scope \<notin> set (tr_requireApprovalForScopes r)
                \<and> (truthy cap \<longrightarrow> the cap \<notin> set (tr_deniedCapabilities r))))
          \<and> (pe_enforcement e = Enforced \<longleftrightarrow> (\<exists>r \<in> set rules. tr_enforcement r = Enforced))
          \<and> (pe_advisories e = [] \<longleftrightarrow> (\<forall>r \<in> set rules. tr_enforcement r = Advisory \<longrightarrow>
                rule_messages level scope cap r = [])))"
proof (cases requestedLevel)
  case None
  then show ?thesis by (simp add: evaluate_policy_def)
next
  case (Some level)
  show ?thesis
  proof (cases "level < 0 \<or> 6 < level \<or> scope = []")
    case True
    with Some show ?thesis by (auto simp: evaluate_policy_def Let_def)
  next
    case False
    let ?start = "\<lparr>pe_permitted = True, pe_enforcement = Advisory, pe_violations = [], pe_advisories = []\<rparr>"
    let ?e = "foldl (apply_rule level scope cap) ?start (effective_rules s deviceId)"
    have "active_bindings s deviceId = [] \<Longrightarrow> effective_rules s deviceId = []"
      by (simp add: effective_rules_def get_effective_policies_def map_filter_Nil)
    moreover have "apply_bindings s level scope cap (active_bindings s deviceId) ?start = ?e"
      by (simp add: apply_bindings_rules effective_rules_def get_effective_policies_def)
    ultimately have e: "evaluate_policy s deviceId requestedLevel scope cap = ?e\<lparr>pe_permitted := (pe_violations ?e = [])\<rparr>"
      using Some False by (auto simp: evaluate_policy_def Let_def)
    have "enforcement \<noteq> Enforced \<longleftrightarrow> enforcement = Advisory" for enforcement
      by (cases enforcement) simp_all
    then show ?thesis
      using Some False unfolding e Let_def
      by (auto simp: apply_rules_collect list_ex_iff rule_messages_empty)
  qed
qed

theorem team_policy_evaluation_exact_witness:
  "let s = foldl (policy_step (schema_validator team_policy_schema) (schema_validator policy_binding_schema))
             create_policy_state [RegisterPolicy sample_policy, BindDevice sample_binding]
   in \<not> pe_permitted (evaluate_policy s ''d'' (Some 2) ''write'' (Some ''deploy''))
      \<and> pe_permitted (evaluate_policy s ''d'' (Some 2) ''write'' (Some ''test''))"
proof -
  let ?s = "foldl (policy_step (schema_validator team_policy_schema) (schema_validator policy_binding_schema))
             create_policy_state [RegisterPolicy sample_policy, BindDevice sample_binding]"
  have rules: "effective_rules ?s ''d'' = [sample_rule Enforced, sample_rule Advisory]" by code_simp
  show ?thesis
    using team_policy_evaluation_exact [of ?s "''d''" "Some 2" "''write''" "Some ''deploy''"]
      team_policy_evaluation_exact [of ?s "''d''" "Some 2" "''write''" "Some ''test''"]
    unfolding rules Let_def by (simp add: sample_rule_def truthy_def)
qed

text \<open>
  Opting in is explicit, final and stable: in every reachable state a binding refers to a
  registered policy that requires the opt-in and has rules; later operations never change a
  registered policy, and change a binding only by deactivating it, so a binding once inactive
  is never active again.
\<close>

theorem policy_opt_in_stable:
  assumes "s = foldl (policy_step vp vb) create_policy_state ops" "t = foldl (policy_step vp vb) s later"
    and "jm_get (ps_bindings s) i = Some b"
  shows "(\<exists>p. jm_get (ps_policies s) (pb_policyId b) = Some p \<and> tp_optInRequired p \<and> tp_rules p \<noteq> []
              \<and> jm_get (ps_policies t) (pb_policyId b) = Some p)
    \<and> (\<exists>active. jm_get (ps_bindings t) i = Some (b\<lparr>pb_active := active\<rparr>) \<and> (active \<longrightarrow> pb_active b))"
proof -
  have inv: "policy_inv s" unfolding assms(1) by (intro team.inv_run create_policy_inv)
  then have "jm_has (ps_policies s) (pb_policyId b)"
    using assms(3) by (simp add: policy_inv_def jm.entries_def)
  then obtain p where p: "jm_get (ps_policies s) (pb_policyId b) = Some p" by (auto simp: jm_has_def)
  then have opt_in: "tp_optInRequired p" "tp_rules p \<noteq> []"
    using inv by (auto simp: policy_inv_def jm.entries_def)
  have evolves: "policy_evolves s t" unfolding assms(2) using inv by (rule team.evolves_run)
  then have "jm_get (ps_policies t) (pb_policyId b) = Some p"
    using p by (simp add: policy_evolves_def)
  moreover have "jm_get (ps_bindings t) i = Some b \<or> jm_get (ps_bindings t) i = Some (b\<lparr>pb_active := False\<rparr>)"
    using evolves assms(3) by (simp add: policy_evolves_def)
  moreover have "b\<lparr>pb_active := pb_active b\<rparr> = b" by simp
  ultimately show ?thesis using p opt_in by metis
qed

theorem policy_opt_in_stable_witness:
  "let vp = schema_validator team_policy_schema; vb = schema_validator policy_binding_schema;
       s = foldl (policy_step vp vb) create_policy_state [RegisterPolicy sample_policy, BindDevice sample_binding];
       t = foldl (policy_step vp vb) s [UnbindDevice ''b'', BindDevice sample_binding]
   in (\<exists>p. jm_get (ps_policies s) ''p'' = Some p \<and> tp_optInRequired p \<and> tp_rules p \<noteq> []
            \<and> jm_get (ps_policies t) ''p'' = Some p)
    \<and> (\<exists>active. jm_get (ps_bindings t) ''b'' = Some (sample_binding\<lparr>pb_active := active\<rparr>)
            \<and> (active \<longrightarrow> pb_active sample_binding))"
proof -
  let ?vp = "schema_validator team_policy_schema" and ?vb = "schema_validator policy_binding_schema"
  have b: "jm_get (ps_bindings (foldl (policy_step ?vp ?vb) create_policy_state
      [RegisterPolicy sample_policy, BindDevice sample_binding])) ''b'' = Some sample_binding" by code_simp
  have "pb_policyId sample_binding = ''p''" by (simp add: sample_binding_def)
  then show ?thesis
    unfolding Let_def
    using policy_opt_in_stable [OF refl refl b, of "[UnbindDevice ''b'', BindDevice sample_binding]"] by simp
qed

end
