(* ===== verification/Device_Registry.thy ===== *)
theory Device_Registry
  imports Js_Map Js_Time
begin

text \<open>
  \<^verbatim>\<open>packages/mcp/src/device-registry.ts\<close>: the devices of a user, their heartbeats and the
  leases that tie a run to a device. The state object the operations mutate is a record that
  each operation returns updated; both maps are insertion-ordered (\<^verbatim>\<open>Js_Map\<close>).
\<close>

section \<open>Data\<close>

datatype device_state = DevOnline | DevBusy | DevDegraded | DevDraining | DevOffline | DevRevoked

datatype device_lease_state = LeaseActive | LeaseExpired | LeaseReleased

datatype pressure = PressureLow | PressureMedium | PressureHigh

record device_identity =
  idn_deviceId :: string
  idn_friendlyName :: string
  idn_workbenchVersion :: string
  idn_platform :: string
  idn_architecture :: string
  idn_registeredAt :: string
  idn_publicKeyFingerprint :: "string option"

record device_capacity =
  cap_activeRuns :: int
  cap_maxConcurrentRuns :: int
  cap_availableSlots :: int
  cap_queueDepth :: int
  cap_cpuPressure :: pressure
  cap_memoryPressure :: pressure

record device_registration =
  dev_deviceId :: string
  dev_userId :: string
  dev_identity :: device_identity
  dev_state :: device_state
  dev_capabilities :: "string list"
  dev_enabledSourceFingerprints :: "string list"
  dev_capacity :: device_capacity
  dev_lastHeartbeatAt :: string
  dev_pairingNonce :: string

record device_lease =
  dl_leaseId :: string
  dl_deviceId :: string
  dl_runId :: string
  dl_sourceId :: string
  dl_state :: device_lease_state
  dl_issuedAt :: string
  dl_expiresAt :: string
  dl_releasedAt :: "string option"

record device_registry =
  reg_devices :: "device_registration js_map"
  reg_leases :: "device_lease js_map"
  reg_maxDevices :: nat

section \<open>Schemas\<close>

definition device_registration_schema :: "device_registration \<Rightarrow> bool" where
  "device_registration_schema r =
     (let i = dev_identity r; c = dev_capacity r in
      bounded_string 128 (dev_deviceId r) \<and> bounded_string 128 (dev_userId r)
      \<and> bounded_string 128 (idn_deviceId i) \<and> bounded_string 256 (idn_friendlyName i)
      \<and> bounded_string 64 (idn_workbenchVersion i) \<and> bounded_string 64 (idn_platform i)
      \<and> bounded_string 64 (idn_architecture i) \<and> bounded_string 64 (idn_registeredAt i)
      \<and> opt_bounded_string 128 (idn_publicKeyFingerprint i)
      \<and> list_all (\<lambda>s. length s \<le> 128) (dev_capabilities r)
      \<and> list_all (\<lambda>s. length s \<le> 256) (dev_enabledSourceFingerprints r)
      \<and> 0 \<le> cap_activeRuns c \<and> 1 \<le> cap_maxConcurrentRuns c \<and> 0 \<le> cap_availableSlots c
      \<and> 0 \<le> cap_queueDepth c
      \<and> bounded_string 64 (dev_lastHeartbeatAt r) \<and> bounded_string 256 (dev_pairingNonce r))"

definition device_lease_schema :: "device_lease \<Rightarrow> bool" where
  "device_lease_schema l =
     (bounded_string 128 (dl_leaseId l) \<and> bounded_string 128 (dl_deviceId l)
      \<and> bounded_string 128 (dl_runId l) \<and> bounded_string 128 (dl_sourceId l)
      \<and> bounded_string 64 (dl_issuedAt l) \<and> bounded_string 64 (dl_expiresAt l)
      \<and> opt_bounded_string 64 (dl_releasedAt l))"

section \<open>Operations\<close>

definition create_device_registry :: "nat \<Rightarrow> device_registry" where
  "create_device_registry n = \<lparr>reg_devices = [], reg_leases = [], reg_maxDevices = n\<rparr>"

definition register_device ::
  "device_registration validator \<Rightarrow> device_registry \<Rightarrow> device_registration \<Rightarrow> device_registry \<times> outcome" where
  "register_device ajv s r =
     (case ajv r of
        Some errs \<Rightarrow> (s, Refused (''invalid registration: '' @ join '', '' errs))
      | None \<Rightarrow>
          if idn_deviceId (dev_identity r) \<noteq> dev_deviceId r then (s, Refused ''device_identity_mismatch'')
          else if \<not> jm_has (reg_devices s) (dev_deviceId r) \<and> reg_maxDevices s \<le> jm_size (reg_devices s)
          then (s, Refused ''device_limit_reached'')
          else (s\<lparr>reg_devices := jm_set (dev_deviceId r) r (reg_devices s)\<rparr>, Accepted))"

definition revoke_device :: "device_registry \<Rightarrow> string \<Rightarrow> string \<Rightarrow> device_registry \<times> outcome" where
  "revoke_device s deviceId timestamp =
     (case jm_get (reg_devices s) deviceId of
        None \<Rightarrow> (s, Refused ''device_not_found'')
      | Some d \<Rightarrow>
          if dev_state d = DevRevoked then (s, Refused ''device_already_revoked'')
          else (s\<lparr>reg_devices := jm_set deviceId
                  (d\<lparr>dev_state := DevRevoked, dev_lastHeartbeatAt := timestamp\<rparr>) (reg_devices s)\<rparr>, Accepted))"

definition heartbeat_device ::
  "device_registry \<Rightarrow> string \<Rightarrow> string \<Rightarrow> device_capacity \<Rightarrow> device_state option \<Rightarrow> device_registry \<times> outcome" where
  "heartbeat_device s deviceId heartbeatAt capacity newState =
     (case jm_get (reg_devices s) deviceId of
        None \<Rightarrow> (s, Refused ''device_not_found'')
      | Some d \<Rightarrow>
          if dev_state d = DevRevoked then (s, Refused ''device_revoked'')
          else let resolved = (case newState of None \<Rightarrow> dev_state d | Some st \<Rightarrow> st) in
            (s\<lparr>reg_devices := jm_set deviceId
               (d\<lparr>dev_state := resolved, dev_capacity := capacity, dev_lastHeartbeatAt := heartbeatAt\<rparr>)
               (reg_devices s)\<rparr>, Accepted))"

definition list_eligible_devices ::
  "device_registry \<Rightarrow> string option \<Rightarrow> string option \<Rightarrow> device_registration list" where
  "list_eligible_devices s sourceFingerprint requiredCapability =
     filter (\<lambda>d.
       if dev_state d = DevRevoked \<or> dev_state d = DevOffline then False
       else if truthy sourceFingerprint \<and> the sourceFingerprint \<notin> set (dev_enabledSourceFingerprints d) then False
       else if truthy requiredCapability \<and> the requiredCapability \<notin> set (dev_capabilities d) then False
       else True)
     (jm_values (reg_devices s))"

definition issue_lease ::
  "device_lease validator \<Rightarrow> device_registry \<Rightarrow> device_lease \<Rightarrow> device_registry \<times> outcome" where
  "issue_lease ajv s l =
     (case ajv l of
        Some errs \<Rightarrow> (s, Refused (''invalid lease: '' @ join '', '' errs))
      | None \<Rightarrow>
          if jm_has (reg_leases s) (dl_leaseId l) then (s, Refused ''lease_id_already_exists'')
          else case jm_get (reg_devices s) (dl_deviceId l) of
            None \<Rightarrow> (s, Refused ''device_not_found'')
          | Some d \<Rightarrow>
              if dev_state d = DevRevoked \<or> dev_state d = DevOffline
              then (s, Refused ''device_not_eligible'')
              else (s\<lparr>reg_leases := jm_set (dl_leaseId l) l (reg_leases s)\<rparr>, Accepted))"

definition release_lease :: "device_registry \<Rightarrow> string \<Rightarrow> string \<Rightarrow> device_registry \<times> outcome" where
  "release_lease s leaseId timestamp =
     (case jm_get (reg_leases s) leaseId of
        None \<Rightarrow> (s, Refused ''lease_not_found'')
      | Some l \<Rightarrow>
          if dl_state l = LeaseReleased then (s, Refused ''lease_already_released'')
          else (s\<lparr>reg_leases := jm_set leaseId
                  (l\<lparr>dl_state := LeaseReleased, dl_releasedAt := Some timestamp\<rparr>) (reg_leases s)\<rparr>, Accepted))"

definition check_lease_expiry :: "device_lease \<Rightarrow> string \<Rightarrow> bool" where
  "check_lease_expiry l nowIso =
     (case (date_parse nowIso, date_parse (dl_expiresAt l)) of
        (Some now, Some expiresAt) \<Rightarrow> expiresAt \<le> now
      | _ \<Rightarrow> False)"

section \<open>The registry as a machine\<close>

datatype device_op =
    RegisterDevice device_registration
  | RevokeDevice string string
  | HeartbeatDevice string string device_capacity "device_state option"
  | IssueLease device_lease
  | ReleaseLease string string

fun device_step ::
  "device_registration validator \<Rightarrow> device_lease validator \<Rightarrow> device_registry \<Rightarrow> device_op \<Rightarrow> device_registry" where
  "device_step vr vl s (RegisterDevice r) = fst (register_device vr s r)"
| "device_step vr vl s (RevokeDevice i t) = fst (revoke_device s i t)"
| "device_step vr vl s (HeartbeatDevice i t c st) = fst (heartbeat_device s i t c st)"
| "device_step vr vl s (IssueLease l) = fst (issue_lease vl s l)"
| "device_step vr vl s (ReleaseLease i t) = fst (release_lease s i t)"

text \<open>
  Every key is the id of what it holds, both in the registration and in its identity, the
  registered devices stay within the limit, and a lease belongs to a registered device.
\<close>

definition registry_inv :: "device_registry \<Rightarrow> bool" where
  "registry_inv s =
     (jm_wf (reg_devices s) \<and> jm_wf (reg_leases s)
      \<and> jm_size (reg_devices s) \<le> reg_maxDevices s
      \<and> jm.entries (\<lambda>k d. dev_deviceId d = k \<and> idn_deviceId (dev_identity d) = k) (reg_devices s)
      \<and> jm.entries (\<lambda>k l. dl_leaseId l = k \<and> jm_has (reg_devices s) (dl_deviceId l)) (reg_leases s))"

lemmas device_ops_defs = register_device_def revoke_device_def heartbeat_device_def issue_lease_def
  release_lease_def

lemma register_device_inv: "registry_inv s \<Longrightarrow> registry_inv (fst (register_device v s r))"
  by (auto simp: registry_inv_def register_device_def jm_has_def jm.entries_def jm_laws jm.wf_put
      split: option.splits if_splits)

lemma revoke_device_inv: "registry_inv s \<Longrightarrow> registry_inv (fst (revoke_device s i t))"
  by (auto simp: registry_inv_def revoke_device_def jm_has_def jm.entries_def jm_laws jm.wf_put
      split: option.splits if_splits)

lemma heartbeat_device_inv: "registry_inv s \<Longrightarrow> registry_inv (fst (heartbeat_device s i t c st))"
  by (auto simp: registry_inv_def heartbeat_device_def Let_def jm_has_def jm.entries_def jm_laws jm.wf_put
      split: option.splits if_splits)

lemma issue_lease_inv: "registry_inv s \<Longrightarrow> registry_inv (fst (issue_lease v s l))"
  by (auto simp: registry_inv_def issue_lease_def jm_has_def jm.entries_def jm_laws jm.wf_put
      split: option.splits if_splits)

lemma release_lease_inv: "registry_inv s \<Longrightarrow> registry_inv (fst (release_lease s i t))"
  by (auto simp: registry_inv_def release_lease_def jm_has_def jm.entries_def jm_laws jm.wf_put
      split: option.splits if_splits)

text \<open>
  How a registry may change: no device and no lease disappears, a lease keeps its identity,
  and a released lease is never touched again.
\<close>

definition registry_evolves :: "device_registry \<Rightarrow> device_registry \<Rightarrow> bool" where
  "registry_evolves s t =
     ((\<forall>k. jm_has (reg_devices s) k \<longrightarrow> jm_has (reg_devices t) k)
      \<and> (\<forall>k l. jm_get (reg_leases s) k = Some l \<longrightarrow>
           (\<exists>l'. jm_get (reg_leases t) k = Some l'
              \<and> (l' = l \<or> dl_state l \<noteq> LeaseReleased \<and> dl_state l' = LeaseReleased
                   \<and> l' = l\<lparr>dl_state := LeaseReleased, dl_releasedAt := dl_releasedAt l'\<rparr>))))"

lemma registry_evolves_refl: "registry_evolves s s"
  by (simp add: registry_evolves_def)

lemma registry_evolves_trans:
  assumes "registry_evolves s t" "registry_evolves t u"
  shows "registry_evolves s u"
  unfolding registry_evolves_def
proof (intro conjI allI impI)
  fix k assume "jm_has (reg_devices s) k"
  with assms show "jm_has (reg_devices u) k" by (simp add: registry_evolves_def)
next
  fix k l assume "jm_get (reg_leases s) k = Some l"
  with assms(1) obtain l1 where l1: "jm_get (reg_leases t) k = Some l1"
    "l1 = l \<or> dl_state l \<noteq> LeaseReleased \<and> dl_state l1 = LeaseReleased
       \<and> l1 = l\<lparr>dl_state := LeaseReleased, dl_releasedAt := dl_releasedAt l1\<rparr>"
    unfolding registry_evolves_def by blast
  moreover from assms(2) l1(1) obtain l2 where "jm_get (reg_leases u) k = Some l2"
    "l2 = l1 \<or> dl_state l1 \<noteq> LeaseReleased \<and> dl_state l2 = LeaseReleased
       \<and> l2 = l1\<lparr>dl_state := LeaseReleased, dl_releasedAt := dl_releasedAt l2\<rparr>"
    unfolding registry_evolves_def by blast
  ultimately show "\<exists>l'. jm_get (reg_leases u) k = Some l'
      \<and> (l' = l \<or> dl_state l \<noteq> LeaseReleased \<and> dl_state l' = LeaseReleased
           \<and> l' = l\<lparr>dl_state := LeaseReleased, dl_releasedAt := dl_releasedAt l'\<rparr>)"
    by auto
qed

lemma device_step_evolves: "registry_evolves s (device_step vr vl s a)"
  by (cases a)
     (auto simp: registry_evolves_def device_ops_defs Let_def jm_has_def jm_laws
       split: option.splits if_splits)

lemma device_step_inv: "registry_inv s \<Longrightarrow> registry_inv (device_step vr vl s a)"
  by (cases a)
     (simp_all add: register_device_inv revoke_device_inv heartbeat_device_inv issue_lease_inv
       release_lease_inv)

interpretation registry: evolving_machine "device_step vr vl" registry_inv registry_evolves
  by unfold_locales (auto intro: device_step_inv registry_evolves_refl registry_evolves_trans device_step_evolves)

lemma create_device_registry_inv: "registry_inv (create_device_registry n)"
  by (simp add: registry_inv_def create_device_registry_def jm.entries_def)

text \<open>What a step that does not register the device leaves of a revoked one.\<close>

definition registers :: "string \<Rightarrow> device_op \<Rightarrow> bool" where
  "registers i a = (case a of RegisterDevice r \<Rightarrow> dev_deviceId r = i | _ \<Rightarrow> False)"

definition leases_of :: "string \<Rightarrow> device_registry \<Rightarrow> string set" where
  "leases_of i s = {k. \<exists>l. jm_get (reg_leases s) k = Some l \<and> dl_deviceId l = i}"

lemma device_step_revoked:
  assumes "jm_get (reg_devices s) i = Some d" "dev_state d = DevRevoked" "\<not> registers i a"
  shows "jm_get (reg_devices (device_step vr vl s a)) i = Some d
    \<and> leases_of i (device_step vr vl s a) = leases_of i s"
  using assms
  by (cases a)
     (auto simp: registers_def leases_of_def device_ops_defs Let_def jm_has_def jm_laws
       split: option.splits if_splits)

lemma device_run_revoked:
  assumes "jm_get (reg_devices s) i = Some d" "dev_state d = DevRevoked" "list_all (\<lambda>a. \<not> registers i a) ops"
  shows "jm_get (reg_devices (foldl (device_step vr vl) s ops)) i = Some d
    \<and> leases_of i (foldl (device_step vr vl) s ops) = leases_of i s"
  using assms
proof (induction ops arbitrary: s)
  case (Cons a ops)
  then show ?case using device_step_revoked [of s i d a vr vl] by simp
qed simp

lemma list_eligible_iff:
  assumes "jm_wf (reg_devices s)"
  shows "d \<in> set (list_eligible_devices s fp cap) \<longleftrightarrow>
    (\<exists>k. jm_get (reg_devices s) k = Some d) \<and> dev_state d \<notin> {DevRevoked, DevOffline}
    \<and> (truthy fp \<longrightarrow> the fp \<in> set (dev_enabledSourceFingerprints d))
    \<and> (truthy cap \<longrightarrow> the cap \<in> set (dev_capabilities d))"
  using jm.vals_get [OF assms] by (auto simp: list_eligible_devices_def)

section \<open>Properties\<close>

text \<open>
  Whatever operations a registry created empty has served, and whatever the validators
  answer: every key is the id of the registration and of the identity stored under it, the
  number of devices is within the limit, and every lease is held under its own id by a
  device that is registered.
\<close>

theorem registry_reachable_inv:
  "registry_inv (foldl (device_step vr vl) (create_device_registry n) ops)"
  by (rule registry.inv_run) (rule create_device_registry_inv)

text \<open>
  Leases are never lost and never revived: over any further operations each lease stays
  under its id, unchanged or changed only by being released, and a released lease keeps its
  release time for ever.
\<close>

theorem released_lease_final:
  assumes "jm_get (reg_leases (foldl (device_step vr vl) (create_device_registry n) ops)) k = Some l"
    and "dl_state l = LeaseReleased"
  shows "jm_get (reg_leases (foldl (device_step vr vl) (create_device_registry n) (ops @ later))) k = Some l"
proof -
  let ?s = "foldl (device_step vr vl) (create_device_registry n) ops"
  have "registry_inv ?s" by (rule registry.inv_run) (rule create_device_registry_inv)
  then have "registry_evolves ?s (foldl (device_step vr vl) ?s later)" by (rule registry.evolves_run)
  with assms show ?thesis by (auto simp: registry_evolves_def)
qed

definition sample_registration :: "string \<Rightarrow> device_state \<Rightarrow> device_registration" where
  "sample_registration i st =
     \<lparr>dev_deviceId = i, dev_userId = ''u'',
      dev_identity = \<lparr>idn_deviceId = i, idn_friendlyName = ''laptop'', idn_workbenchVersion = ''2.0.0'',
        idn_platform = ''darwin'', idn_architecture = ''arm64'', idn_registeredAt = ''2026-01-01T00:00:00.000Z'',
        idn_publicKeyFingerprint = None\<rparr>,
      dev_state = st, dev_capabilities = [''shell''], dev_enabledSourceFingerprints = [''fp''],
      dev_capacity = \<lparr>cap_activeRuns = 0, cap_maxConcurrentRuns = 2, cap_availableSlots = 2,
        cap_queueDepth = 0, cap_cpuPressure = PressureLow, cap_memoryPressure = PressureLow\<rparr>,
      dev_lastHeartbeatAt = ''2026-01-01T00:00:00.000Z'', dev_pairingNonce = ''n''\<rparr>"

definition sample_lease :: "string \<Rightarrow> string \<Rightarrow> device_lease" where
  "sample_lease k i =
     \<lparr>dl_leaseId = k, dl_deviceId = i, dl_runId = ''r'', dl_sourceId = ''src'', dl_state = LeaseActive,
      dl_issuedAt = ''2026-01-01T00:00:00.000Z'', dl_expiresAt = ''2026-01-01T00:01:00.000Z'',
      dl_releasedAt = None\<rparr>"

abbreviation sample_vr :: "device_registration validator" where
  "sample_vr \<equiv> schema_validator device_registration_schema"

abbreviation sample_vl :: "device_lease validator" where
  "sample_vl \<equiv> schema_validator device_lease_schema"

lemmas sample_device_simps = sample_registration_def sample_lease_def schema_validator_def
  device_registration_schema_def device_lease_schema_def schema_simps create_device_registry_def
  device_ops_defs jm_has_def jm_get_def jm_size_def

theorem released_lease_final_witness:
  "jm_get (reg_leases (foldl (device_step sample_vr sample_vl) (create_device_registry 2)
     ([RegisterDevice (sample_registration ''d'' DevOnline), IssueLease (sample_lease ''k'' ''d''),
       ReleaseLease ''k'' ''t1''] @ [ReleaseLease ''k'' ''t2'', IssueLease (sample_lease ''k'' ''d'')]))) ''k''
   = Some ((sample_lease ''k'' ''d'')\<lparr>dl_state := LeaseReleased, dl_releasedAt := Some ''t1''\<rparr>)"
  by (rule released_lease_final) (simp_all add: sample_device_simps)

text \<open>
  C35. Revocation locks a device out: while no operation registers its id again, the revoked
  record stays as it is, no operation adds or removes a lease of that device, and it is never
  listed as eligible, whatever source or capability is asked for.
\<close>

theorem revoked_device_locked_out:
  assumes "jm_get (reg_devices (foldl (device_step vr vl) (create_device_registry n) before)) i = Some d"
    and "dev_state d = DevRevoked"
    and "list_all (\<lambda>a. \<not> registers i a) ops"
  defines "s \<equiv> foldl (device_step vr vl) (create_device_registry n) before"
  defines "t \<equiv> foldl (device_step vr vl) s ops"
  shows "jm_get (reg_devices t) i = Some d \<and> leases_of i t = leases_of i s
    \<and> i \<notin> dev_deviceId ` set (list_eligible_devices t fp cap)"
proof -
  have inv: "registry_inv t"
    unfolding t_def s_def by (intro registry.inv_run create_device_registry_inv)
  have t: "jm_get (reg_devices t) i = Some d \<and> leases_of i t = leases_of i s"
    using assms(1-3) unfolding t_def s_def by (intro device_run_revoked)
  with inv assms(2) show ?thesis
    by (auto simp: registry_inv_def list_eligible_iff jm.entries_def)
qed

theorem revoked_device_locked_out_witness:
  "(let s = foldl (device_step sample_vr sample_vl) (create_device_registry 2)
              [RegisterDevice (sample_registration ''d'' DevOnline), RevokeDevice ''d'' ''t1''];
        t = foldl (device_step sample_vr sample_vl) s
              [IssueLease (sample_lease ''k'' ''d''),
               HeartbeatDevice ''d'' ''t2'' (dev_capacity (sample_registration ''d'' DevOnline)) (Some DevOnline)]
    in jm_get (reg_devices t) ''d''
         = Some ((sample_registration ''d'' DevOnline)\<lparr>dev_state := DevRevoked, dev_lastHeartbeatAt := ''t1''\<rparr>)
       \<and> leases_of ''d'' t = leases_of ''d'' s \<and> ''d'' \<notin> dev_deviceId ` set (list_eligible_devices t None None))"
  unfolding Let_def
  by (rule revoked_device_locked_out) (simp_all add: sample_device_simps registers_def)

text \<open>
  Registering again is the way back in: a registry accepts a valid registration for an id
  it already holds, revoked or not and at any fill level, and the new record replaces the old
  one. Revocation is therefore not an invariant of the registry.
\<close>

theorem registration_replaces_revoked:
  assumes "decides_schema device_registration_schema vr"
    and "jm_get (reg_devices s) (dev_deviceId r) = Some d" "dev_state d = DevRevoked"
    and "device_registration_schema r" "idn_deviceId (dev_identity r) = dev_deviceId r"
  shows "snd (register_device vr s r) = Accepted
    \<and> jm_get (reg_devices (fst (register_device vr s r))) (dev_deviceId r) = Some r"
proof -
  have "vr r = None" using assms(1,4) by (simp add: decides_schema_def)
  with assms show ?thesis by (simp add: register_device_def jm_has_def jm_laws)
qed

theorem registration_replaces_revoked_witness:
  "let s = foldl (device_step sample_vr sample_vl) (create_device_registry 1)
             [RegisterDevice (sample_registration ''d'' DevOnline), RevokeDevice ''d'' ''t1''];
       r = sample_registration ''d'' DevOnline
   in snd (register_device sample_vr s r) = Accepted
    \<and> jm_get (reg_devices (fst (register_device sample_vr s r))) (dev_deviceId r) = Some r"
  unfolding Let_def
  by (rule registration_replaces_revoked
        [where d = "(sample_registration ''d'' DevOnline)\<lparr>dev_state := DevRevoked, dev_lastHeartbeatAt := ''t1''\<rparr>"])
     (simp_all add: sample_device_simps)

text \<open>
  The listing and the leasing agree: in a registry reached from an empty one, a device
  listed as eligible is granted every well-formed lease with a new lease id, and the lease is
  stored; from the instant the lease's printed expiry names, and not before it,
  \<^verbatim>\<open>checkLeaseExpiry\<close> reports it expired.
\<close>

theorem eligible_device_gets_lease:
  assumes "d \<in> set (list_eligible_devices (foldl (device_step vr vl) (create_device_registry n) ops) fp cap)"
    and "decides_schema device_lease_schema vl" "device_lease_schema l"
    and "dl_deviceId l = dev_deviceId d"
    and "jm_get (reg_leases (foldl (device_step vr vl) (create_device_registry n) ops)) (dl_leaseId l) = None"
    and "to_iso (t + ms) = Some (dl_expiresAt l)" "date_parse nowIso = Some now"
  defines "s \<equiv> foldl (device_step vr vl) (create_device_registry n) ops"
  shows "issue_lease vl s l = (s\<lparr>reg_leases := jm_set (dl_leaseId l) l (reg_leases s)\<rparr>, Accepted)
    \<and> (check_lease_expiry l nowIso \<longleftrightarrow> t + ms \<le> now)"
proof -
  have inv: "registry_inv s" unfolding s_def by (intro registry.inv_run create_device_registry_inv)
  then have wf: "jm_wf (reg_devices s)" by (simp add: registry_inv_def)
  have "jm_get (reg_devices s) (dev_deviceId d) = Some d" "dev_state d \<notin> {DevRevoked, DevOffline}"
    using assms(1) inv unfolding s_def [symmetric] list_eligible_iff [OF wf]
    by (auto simp: registry_inv_def jm.entries_def)
  moreover have "vl l = None" using assms(2,3) by (simp add: decides_schema_def)
  moreover have "date_parse (dl_expiresAt l) = Some (t + ms)" by (rule iso.read_back) (rule assms(6))
  ultimately show ?thesis
    using assms(4,5,7) by (simp add: issue_lease_def jm_has_def check_lease_expiry_def s_def)
qed

theorem eligible_device_gets_lease_witness:
  "let s = foldl (device_step sample_vr sample_vl) (create_device_registry 1)
             [RegisterDevice (sample_registration ''d'' DevOnline)];
       l = (sample_lease ''k'' ''d'')\<lparr>dl_expiresAt := iso_text (0 + 60000)\<rparr>
   in issue_lease sample_vl s l = (s\<lparr>reg_leases := jm_set (dl_leaseId l) l (reg_leases s)\<rparr>, Accepted)
    \<and> (check_lease_expiry l (iso_text 60000) \<longleftrightarrow> (0::int) + 60000 \<le> 60000)"
  unfolding Let_def
proof (rule eligible_device_gets_lease [where d = "sample_registration ''d'' DevOnline" and fp = "Some ''fp''" and cap = None])
  have "iso_text 60000 = ''1970-01-01T00:01:00.000Z''" by code_simp
  then show "device_lease_schema ((sample_lease ''k'' ''d'')\<lparr>dl_expiresAt := iso_text (0 + 60000)\<rparr>)"
    by (simp add: sample_device_simps)
  show "date_parse (iso_text 60000) = Some 60000"
    by (rule date_parse_iso_text) (simp add: max_time_def)
qed (simp_all add: sample_device_simps list_eligible_devices_def jm_values_def truthy_def to_iso_def max_time_def)

end
