(* ===== verification/Device_Approval.thy ===== *)
theory Device_Approval
  imports Js_Map Js_Time
begin

text \<open>
  \<^verbatim>\<open>packages/mcp/src/cross-device-approval.ts\<close>: a request made on one device is decided on
  another, before it expires. The store's two maps are insertion-ordered.
\<close>

section \<open>Data\<close>

datatype approval_state = ApprPending | ApprApproved | ApprDenied | ApprExpired | ApprWithdrawn

datatype approval_scope = ScopeRun | ScopeMutation | ScopeRelease | ScopeConfiguration | ScopeDeviceJoin

datatype verdict = VerdictApproved | VerdictDenied

primrec approval_state_text :: "approval_state \<Rightarrow> string" where
  "approval_state_text ApprPending = ''pending''"
| "approval_state_text ApprApproved = ''approved''"
| "approval_state_text ApprDenied = ''denied''"
| "approval_state_text ApprExpired = ''expired''"
| "approval_state_text ApprWithdrawn = ''withdrawn''"

primrec verdict_state :: "verdict \<Rightarrow> approval_state" where
  "verdict_state VerdictApproved = ApprApproved"
| "verdict_state VerdictDenied = ApprDenied"

record approval_request =
  ar_requestId :: string
  ar_originDeviceId :: string
  ar_targetDeviceId :: string
  ar_userId :: string
  ar_scope :: approval_scope
  ar_description :: string
  ar_packetId :: "string option"
  ar_runId :: "string option"
  ar_requiredLevel :: int
  ar_state :: approval_state
  ar_requestedAt :: string
  ar_expiresAt :: string

record approval_decision =
  ad_requestId :: string
  ad_decidedBy :: string
  ad_decidedOnDeviceId :: string
  ad_state :: verdict
  ad_reason :: string
  ad_conditions :: "string list option"
  ad_decidedAt :: string

record approval_store =
  as_requests :: "approval_request js_map"
  as_decisions :: "approval_decision js_map"

definition approval_request_schema :: "approval_request \<Rightarrow> bool" where
  "approval_request_schema r =
     (bounded_string 128 (ar_requestId r) \<and> bounded_string 128 (ar_originDeviceId r)
      \<and> bounded_string 128 (ar_targetDeviceId r) \<and> bounded_string 128 (ar_userId r)
      \<and> bounded_string 1024 (ar_description r) \<and> opt_bounded_string 128 (ar_packetId r)
      \<and> opt_bounded_string 128 (ar_runId r) \<and> 0 \<le> ar_requiredLevel r \<and> ar_requiredLevel r \<le> 6
      \<and> bounded_string 64 (ar_requestedAt r) \<and> bounded_string 64 (ar_expiresAt r))"

definition approval_decision_schema :: "approval_decision \<Rightarrow> bool" where
  "approval_decision_schema d =
     (bounded_string 128 (ad_requestId d) \<and> bounded_string 128 (ad_decidedBy d)
      \<and> bounded_string 128 (ad_decidedOnDeviceId d) \<and> bounded_string 512 (ad_reason d)
      \<and> (case ad_conditions d of None \<Rightarrow> True | Some cs \<Rightarrow> list_all (\<lambda>c. length c \<le> 256) cs)
      \<and> bounded_string 64 (ad_decidedAt d))"

section \<open>Operations\<close>

definition create_approval_store :: approval_store where
  "create_approval_store = \<lparr>as_requests = [], as_decisions = []\<rparr>"

definition submit_approval_request ::
  "approval_request validator \<Rightarrow> approval_store \<Rightarrow> approval_request \<Rightarrow> approval_store \<times> outcome" where
  "submit_approval_request ajv s r =
     (case ajv r of
        Some errs \<Rightarrow> (s, Refused (''invalid_request: '' @ join '', '' errs))
      | None \<Rightarrow>
          if ar_state r \<noteq> ApprPending then (s, Refused ''initial_state_must_be_pending'')
          else if ar_originDeviceId r = ar_targetDeviceId r then (s, Refused ''cannot_approve_own_device'')
          else case (date_parse (ar_requestedAt r), date_parse (ar_expiresAt r)) of
            (Some requestedAt, Some expiresAt) \<Rightarrow>
              if expiresAt \<le> requestedAt then (s, Refused ''invalid_request_expiry'')
              else if jm_has (as_requests s) (ar_requestId r) then (s, Refused ''request_already_exists'')
              else (s\<lparr>as_requests := jm_set (ar_requestId r) r (as_requests s)\<rparr>, Accepted)
          | _ \<Rightarrow> (s, Refused ''invalid_request_expiry''))"

definition resolve_approval ::
  "approval_decision validator \<Rightarrow> approval_store \<Rightarrow> approval_decision \<Rightarrow> string \<Rightarrow> approval_store \<times> outcome" where
  "resolve_approval ajv s d nowIso =
     (case ajv d of
        Some errs \<Rightarrow> (s, Refused (''invalid_decision: '' @ join '', '' errs))
      | None \<Rightarrow>
     (case jm_get (as_requests s) (ad_requestId d) of
        None \<Rightarrow> (s, Refused ''request_not_found'')
      | Some r \<Rightarrow>
          if ar_state r \<noteq> ApprPending
          then (s, Refused (''request_not_pending: '' @ approval_state_text (ar_state r)))
          else if ad_decidedOnDeviceId d \<noteq> ar_targetDeviceId r then (s, Refused ''decision_not_target_device'')
          else if ad_decidedOnDeviceId d = ar_originDeviceId r then (s, Refused ''cannot_self_approve'')
          else case (date_parse nowIso, date_parse (ar_expiresAt r), date_parse (ad_decidedAt d)) of
            (Some now, Some expiresAt, Some decidedAt) \<Rightarrow>
              if expiresAt \<le> now \<or> expiresAt \<le> decidedAt
              then (s\<lparr>as_requests := jm_set (ar_requestId r) (r\<lparr>ar_state := ApprExpired\<rparr>) (as_requests s)\<rparr>,
                    Refused ''request_expired'')
              else (s\<lparr>as_requests := jm_set (ar_requestId r)
                        (r\<lparr>ar_state := verdict_state (ad_state d)\<rparr>) (as_requests s),
                      as_decisions := jm_set (ad_requestId d) d (as_decisions s)\<rparr>, Accepted)
          | _ \<Rightarrow> (s, Refused ''invalid_timestamp'')))"

definition withdraw_approval :: "approval_store \<Rightarrow> string \<Rightarrow> string \<Rightarrow> approval_store \<times> outcome" where
  "withdraw_approval s requestId originDeviceId =
     (case jm_get (as_requests s) requestId of
        None \<Rightarrow> (s, Refused ''request_not_found'')
      | Some r \<Rightarrow>
          if ar_originDeviceId r \<noteq> originDeviceId then (s, Refused ''not_request_originator'')
          else if ar_state r \<noteq> ApprPending
          then (s, Refused (''cannot_withdraw_'' @ approval_state_text (ar_state r) @ ''_request''))
          else (s\<lparr>as_requests := jm_set requestId (r\<lparr>ar_state := ApprWithdrawn\<rparr>) (as_requests s)\<rparr>, Accepted))"

text \<open>The sweep sets keys that exist while it iterates, which keeps their places.\<close>

definition approval_due :: "int \<Rightarrow> approval_request \<Rightarrow> bool" where
  "approval_due now r =
     (ar_state r = ApprPending
      \<and> (case date_parse (ar_expiresAt r) of None \<Rightarrow> False | Some expiresAt \<Rightarrow> expiresAt \<le> now))"

definition check_approval_expiry :: "approval_store \<Rightarrow> string \<Rightarrow> approval_store \<times> nat" where
  "check_approval_expiry s nowIso =
     (case date_parse nowIso of
        None \<Rightarrow> (s, 0)
      | Some now \<Rightarrow>
          (s\<lparr>as_requests := map (\<lambda>(k, r). (k, if approval_due now r then r\<lparr>ar_state := ApprExpired\<rparr> else r))
               (as_requests s)\<rparr>,
           length (filter (approval_due now) (jm_values (as_requests s)))))"

definition list_pending_approvals :: "approval_store \<Rightarrow> string \<Rightarrow> approval_request list" where
  "list_pending_approvals s targetDeviceId =
     filter (\<lambda>r. ar_state r = ApprPending \<and> ar_targetDeviceId r = targetDeviceId) (jm_values (as_requests s))"

section \<open>The store as a machine\<close>

datatype approval_op =
    SubmitApproval approval_request
  | ResolveApproval approval_decision string
  | WithdrawApproval string string
  | SweepApprovals string

fun approval_step ::
  "approval_request validator \<Rightarrow> approval_decision validator \<Rightarrow> approval_store \<Rightarrow> approval_op \<Rightarrow> approval_store" where
  "approval_step vr vd s (SubmitApproval r) = fst (submit_approval_request vr s r)"
| "approval_step vr vd s (ResolveApproval d now) = fst (resolve_approval vd s d now)"
| "approval_step vr vd s (WithdrawApproval k i) = fst (withdraw_approval s k i)"
| "approval_step vr vd s (SweepApprovals now) = fst (check_approval_expiry s now)"

lemma map_of_map_value:
  "map_of (map (\<lambda>(k, v). (k, f v)) m) k = map_option f (map_of m k)"
  by (induction m) auto

lemma jm_get_sweep:
  "jm_get (as_requests (fst (check_approval_expiry s nowIso))) k =
     (case date_parse nowIso of None \<Rightarrow> jm_get (as_requests s) k
      | Some now \<Rightarrow> map_option (\<lambda>r. if approval_due now r then r\<lparr>ar_state := ApprExpired\<rparr> else r)
          (jm_get (as_requests s) k))"
  by (simp add: check_approval_expiry_def jm_get_def split: option.split)
     (metis map_of_map_value)

lemma jm_wf_sweep: "jm_wf (as_requests (fst (check_approval_expiry s nowIso))) = jm_wf (as_requests s)"
  by (simp add: check_approval_expiry_def jm_wf_def comp_def case_prod_beta split: option.split)

lemma decisions_sweep [simp]: "as_decisions (fst (check_approval_expiry s nowIso)) = as_decisions s"
  by (simp add: check_approval_expiry_def split: option.split)

text \<open>
  What every reached store satisfies: a request sits under its id, was never its own
  approver's, has readable times, and carries a decision exactly when it is approved or
  denied; the decision then agrees with the state, was taken on the target device and before
  the expiry.
\<close>

definition decided_by :: "approval_request \<Rightarrow> approval_decision \<Rightarrow> bool" where
  "decided_by r d =
     (ad_requestId d = ar_requestId r \<and> ar_state r = verdict_state (ad_state d)
      \<and> ad_decidedOnDeviceId d = ar_targetDeviceId r
      \<and> (\<exists>x e. date_parse (ad_decidedAt d) = Some x \<and> date_parse (ar_expiresAt r) = Some e \<and> x < e))"

definition request_ok :: "approval_decision js_map \<Rightarrow> string \<Rightarrow> approval_request \<Rightarrow> bool" where
  "request_ok ds k r =
     (ar_requestId r = k \<and> ar_originDeviceId r \<noteq> ar_targetDeviceId r
      \<and> date_parse (ar_expiresAt r) \<noteq> None
      \<and> (case jm_get ds k of
           None \<Rightarrow> ar_state r \<noteq> ApprApproved \<and> ar_state r \<noteq> ApprDenied
         | Some d \<Rightarrow> decided_by r d))"

definition approval_inv :: "approval_store \<Rightarrow> bool" where
  "approval_inv s =
     (jm_wf (as_requests s)
      \<and> jm.entries (request_ok (as_decisions s)) (as_requests s)
      \<and> (\<forall>k. jm_has (as_decisions s) k \<longrightarrow> jm_has (as_requests s) k))"

lemmas approval_inv_defs = approval_inv_def jm.entries_def request_ok_def decided_by_def jm_has_def

lemma verdict_not_pending [simp]:
  "verdict_state v \<noteq> ApprPending" "verdict_state v \<noteq> ApprExpired" "verdict_state v \<noteq> ApprWithdrawn"
  by (cases v; simp)+

lemma verdict_decided: "verdict_state v = ApprApproved \<or> verdict_state v = ApprDenied"
  by (cases v) auto

lemma request_ok_entry:
  "approval_inv s \<Longrightarrow> jm_get (as_requests s) k = Some r \<Longrightarrow> request_ok (as_decisions s) k r"
  by (simp add: approval_inv_def jm.entries_def)

lemma request_key: "approval_inv s \<Longrightarrow> jm_get (as_requests s) k = Some r \<Longrightarrow> ar_requestId r = k"
  by (drule (1) request_ok_entry) (simp add: request_ok_def)

lemma pending_undecided:
  assumes "approval_inv s" "jm_get (as_requests s) k = Some r" "ar_state r = ApprPending"
  shows "jm_get (as_decisions s) k = None"
  using request_ok_entry [OF assms(1,2)] assms(3)
  by (auto simp: request_ok_def decided_by_def split: option.splits dest: sym)

lemma undecided_new: "approval_inv s \<Longrightarrow> \<not> jm_has (as_requests s) k \<Longrightarrow> jm_get (as_decisions s) k = None"
  by (auto simp: approval_inv_def jm_has_def)

text \<open>Storing a request that fits the decisions, alone or together with its decision.\<close>

lemma put_request_inv:
  assumes "approval_inv s" "request_ok (as_decisions s) k r"
  shows "approval_inv (s\<lparr>as_requests := jm_set k r (as_requests s)\<rparr>)"
  using assms unfolding approval_inv_def
  by (simp add: jm.wf_put jm.entries_put) (simp add: jm_has_def jm_laws)

lemma put_decision_inv:
  assumes inv: "approval_inv s" and ok: "request_ok (jm_set k d (as_decisions s)) k r"
  shows "approval_inv (s\<lparr>as_requests := jm_set k r (as_requests s), as_decisions := jm_set k d (as_decisions s)\<rparr>)"
proof -
  have "request_ok (jm_set k d (as_decisions s)) k' r'"
    if "jm_get (jm_set k r (as_requests s)) k' = Some r'" for k' r'
  proof (cases "k' = k")
    case True
    with that ok show ?thesis by (simp add: jm_laws)
  next
    case False
    with that request_ok_entry [OF inv, of k' r'] show ?thesis
      by (simp add: jm_laws request_ok_def)
  qed
  with inv show ?thesis
    unfolding approval_inv_def jm.entries_def
    by (simp add: jm.wf_put) (simp add: jm_has_def jm_laws)
qed

lemma submit_inv:
  assumes inv: "approval_inv s"
  shows "approval_inv (fst (submit_approval_request v s r))"
proof (cases "v r = None \<and> ar_state r = ApprPending \<and> ar_originDeviceId r \<noteq> ar_targetDeviceId r
    \<and> date_parse (ar_expiresAt r) \<noteq> None \<and> \<not> jm_has (as_requests s) (ar_requestId r)")
  case True
  then have "request_ok (as_decisions s) (ar_requestId r) r"
    using undecided_new [OF inv] by (simp add: request_ok_def)
  from put_request_inv [OF inv this] inv show ?thesis
    by (simp add: submit_approval_request_def split: option.split)
next
  case False
  with inv show ?thesis
    by (auto simp: submit_approval_request_def split: option.split)
qed

lemma close_inv:
  assumes "approval_inv s" "jm_get (as_requests s) k = Some r" "ar_state r = ApprPending"
    and "st = ApprExpired \<or> st = ApprWithdrawn"
  shows "approval_inv (s\<lparr>as_requests := jm_set k (r\<lparr>ar_state := st\<rparr>) (as_requests s)\<rparr>)"
proof (rule put_request_inv [OF assms(1)])
  show "request_ok (as_decisions s) k (r\<lparr>ar_state := st\<rparr>)"
    using request_ok_entry [OF assms(1,2)] pending_undecided [OF assms(1-3)] assms(4)
    by (auto simp: request_ok_def)
qed

lemma resolve_inv:
  assumes inv: "approval_inv s"
  shows "approval_inv (fst (resolve_approval v s d nowIso))"
proof (cases "jm_get (as_requests s) (ad_requestId d)")
  case None
  then show ?thesis using inv by (simp add: resolve_approval_def split: option.split)
next
  case (Some r)
  note key = request_key [OF inv Some]
  have closed: "approval_inv (s\<lparr>as_requests := jm_set (ad_requestId d) (r\<lparr>ar_state := ApprExpired\<rparr>) (as_requests s)\<rparr>)"
    if "ar_state r = ApprPending"
    using that by (intro close_inv [OF inv Some]) simp_all
  have decided: "approval_inv (s\<lparr>as_requests := jm_set (ad_requestId d)
        (r\<lparr>ar_state := verdict_state (ad_state d)\<rparr>) (as_requests s),
      as_decisions := jm_set (ad_requestId d) d (as_decisions s)\<rparr>)"
    if "ad_decidedOnDeviceId d = ar_targetDeviceId r" "date_parse (ar_expiresAt r) = Some e"
      "date_parse (ad_decidedAt d) = Some x" "x < e" for x e
    using request_ok_entry [OF inv Some] key that
    by (intro put_decision_inv [OF inv]) (simp add: request_ok_def decided_by_def jm_laws)
  show ?thesis
    using inv closed decided
    by (simp add: resolve_approval_def Some key split: option.split)
qed

lemma withdraw_inv: "approval_inv s \<Longrightarrow> approval_inv (fst (withdraw_approval s k i))"
  by (auto simp: withdraw_approval_def intro: close_inv split: option.splits)

lemma sweep_inv:
  assumes inv: "approval_inv s"
  shows "approval_inv (fst (check_approval_expiry s nowIso))"
  unfolding approval_inv_def jm.entries_def jm_wf_sweep decisions_sweep
proof (intro conjI allI impI)
  show "jm_wf (as_requests s)" using inv by (simp add: approval_inv_def)
next
  fix k assume "jm_has (as_decisions s) k"
  then show "jm_has (as_requests (fst (check_approval_expiry s nowIso))) k"
    using inv by (auto simp: approval_inv_def jm_has_def jm_get_sweep split: option.split)
next
  fix k r' assume r': "jm_get (as_requests (fst (check_approval_expiry s nowIso))) k = Some r'"
  then obtain r where r: "jm_get (as_requests s) k = Some r"
    and eq: "r' = r \<or> ar_state r = ApprPending \<and> r' = r\<lparr>ar_state := ApprExpired\<rparr>"
    by (auto simp: jm_get_sweep approval_due_def split: option.splits if_splits)
  have ok: "request_ok (as_decisions s) k r" using inv r by (simp add: approval_inv_def jm.entries_def)
  show "request_ok (as_decisions s) k r'"
    using eq ok pending_undecided [OF inv r] by (auto simp: request_ok_def)
qed

lemma approval_step_inv: "approval_inv s \<Longrightarrow> approval_inv (approval_step vr vd s a)"
  by (cases a) (simp_all add: submit_inv resolve_inv withdraw_inv sweep_inv)

text \<open>Nothing disappears, nothing but a pending request changes, and only its state does.\<close>

definition approvals_evolve :: "approval_store \<Rightarrow> approval_store \<Rightarrow> bool" where
  "approvals_evolve s t =
     ((\<forall>k r. jm_get (as_requests s) k = Some r \<longrightarrow>
        (\<exists>r'. jm_get (as_requests t) k = Some r'
           \<and> (r' = r \<or> ar_state r = ApprPending \<and> r' = r\<lparr>ar_state := ar_state r'\<rparr>)))
      \<and> (\<forall>k d. jm_get (as_decisions s) k = Some d \<longrightarrow> jm_get (as_decisions t) k = Some d))"

lemma approvals_evolve_refl: "approvals_evolve s s"
  by (simp add: approvals_evolve_def)

lemma approvals_evolve_trans:
  assumes "approvals_evolve s t" "approvals_evolve t u"
  shows "approvals_evolve s u"
  unfolding approvals_evolve_def
proof (intro conjI allI impI)
  fix k r assume "jm_get (as_requests s) k = Some r"
  with assms(1) obtain r1 where r1: "jm_get (as_requests t) k = Some r1"
    "r1 = r \<or> ar_state r = ApprPending \<and> r1 = r\<lparr>ar_state := ar_state r1\<rparr>"
    unfolding approvals_evolve_def by blast
  moreover from assms(2) r1(1) obtain r2 where "jm_get (as_requests u) k = Some r2"
    "r2 = r1 \<or> ar_state r1 = ApprPending \<and> r2 = r1\<lparr>ar_state := ar_state r2\<rparr>"
    unfolding approvals_evolve_def by blast
  ultimately show "\<exists>r'. jm_get (as_requests u) k = Some r'
      \<and> (r' = r \<or> ar_state r = ApprPending \<and> r' = r\<lparr>ar_state := ar_state r'\<rparr>)"
    by (metis approval_request.update_convs(10) approval_request.surjective approval_request.select_convs(10))
qed (use assms in \<open>auto simp: approvals_evolve_def\<close>)

lemma approval_step_evolves:
  assumes inv: "approval_inv s"
  shows "approvals_evolve s (approval_step vr vd s a)"
proof (cases a)
  case (SubmitApproval r)
  then show ?thesis
    by (auto simp: approvals_evolve_def submit_approval_request_def jm_has_def jm_laws split: option.splits)
next
  case (ResolveApproval d now)
  have "jm_get (as_requests s) k = Some r \<Longrightarrow> ar_requestId r = k" for k r
    using inv by (rule request_key)
  moreover have "jm_get (as_requests s) k = Some r \<Longrightarrow> ar_state r = ApprPending \<Longrightarrow> jm_get (as_decisions s) k = None" for k r
    using inv by (rule pending_undecided)
  ultimately show ?thesis
    using ResolveApproval
    by (auto simp: approvals_evolve_def resolve_approval_def jm_has_def jm_laws split: option.splits)
next
  case (WithdrawApproval k i)
  then show ?thesis
    by (auto simp: approvals_evolve_def withdraw_approval_def jm_has_def jm_laws split: option.splits)
next
  case (SweepApprovals now)
  then show ?thesis
    by (auto simp: approvals_evolve_def jm_get_sweep approval_due_def split: option.splits)
qed

interpretation approvals: evolving_machine "approval_step vr vd" approval_inv approvals_evolve
  by unfold_locales
     (auto intro: approval_step_inv approvals_evolve_refl approvals_evolve_trans approval_step_evolves)

lemma create_approval_store_inv: "approval_inv create_approval_store"
  by (simp add: approval_inv_def create_approval_store_def jm.entries_def jm_has_def)

section \<open>Properties\<close>

definition sample_request :: approval_request where
  "sample_request =
     \<lparr>ar_requestId = ''q'', ar_originDeviceId = ''a'', ar_targetDeviceId = ''b'', ar_userId = ''u'',
      ar_scope = ScopeMutation, ar_description = ''push'', ar_packetId = None, ar_runId = None,
      ar_requiredLevel = 3, ar_state = ApprPending,
      ar_requestedAt = ''2026-01-01T00:00:00.000Z'', ar_expiresAt = ''2026-01-01T01:00:00.000Z''\<rparr>"

definition sample_decision :: approval_decision where
  "sample_decision =
     \<lparr>ad_requestId = ''q'', ad_decidedBy = ''u'', ad_decidedOnDeviceId = ''b'', ad_state = VerdictDenied,
      ad_reason = ''no'', ad_conditions = None, ad_decidedAt = ''2026-01-01T00:30:00.000Z''\<rparr>"

abbreviation sample_vreq :: "approval_request validator" where
  "sample_vreq \<equiv> schema_validator approval_request_schema"

abbreviation sample_vdec :: "approval_decision validator" where
  "sample_vdec \<equiv> schema_validator approval_decision_schema"

lemma sample_dates:
  "date_parse ''2026-01-01T00:00:00.000Z'' = Some 1767225600000"
  "date_parse ''2026-01-01T00:30:00.000Z'' = Some 1767227400000"
  "date_parse ''2026-01-01T01:00:00.000Z'' = Some 1767229200000"
  "date_parse ''2026-01-01T02:00:00.000Z'' = Some 1767232800000"
  by code_simp+

lemmas sample_approval_simps = sample_request_def sample_decision_def schema_validator_def
  approval_request_schema_def approval_decision_schema_def schema_simps create_approval_store_def
  submit_approval_request_def resolve_approval_def withdraw_approval_def sample_dates
  jm_has_def jm_get_def

text \<open>
  C31. In every store reached from the empty one, a request is held under its own id and names
  two different devices; it carries a decision exactly when it is approved or denied; and
  that decision names the request, agrees with its state, was taken on the target device and
  is dated before the expiry.
\<close>

theorem approval_decisions_sound:
  assumes "s = foldl (approval_step vr vd) create_approval_store ops"
    and "jm_get (as_requests s) k = Some r"
  shows "ar_requestId r = k \<and> ar_originDeviceId r \<noteq> ar_targetDeviceId r
    \<and> (ar_state r \<in> {ApprApproved, ApprDenied} \<longleftrightarrow> jm_has (as_decisions s) k)
    \<and> (\<forall>d. jm_get (as_decisions s) k = Some d \<longrightarrow> decided_by r d)"
proof -
  have "approval_inv s"
    unfolding assms(1) by (intro approvals.inv_run create_approval_store_inv)
  from request_ok_entry [OF this assms(2)] show ?thesis
    using verdict_decided
    by (auto simp: request_ok_def jm_has_def decided_by_def split: option.splits)
qed

theorem approval_decisions_sound_witness:
  "let s = foldl (approval_step sample_vreq sample_vdec) create_approval_store
             [SubmitApproval sample_request, ResolveApproval sample_decision ''2026-01-01T00:30:00.000Z''];
       r = sample_request\<lparr>ar_state := ApprDenied\<rparr>
   in ar_requestId r = ''q'' \<and> ar_originDeviceId r \<noteq> ar_targetDeviceId r
    \<and> (ar_state r \<in> {ApprApproved, ApprDenied} \<longleftrightarrow> jm_has (as_decisions s) ''q'')
    \<and> (\<forall>d. jm_get (as_decisions s) ''q'' = Some d \<longrightarrow> decided_by r d)"
  unfolding Let_def
  by (rule approval_decisions_sound [OF refl]) (simp add: sample_approval_simps)

text \<open>
  Decisions are final: once a request has left the pending state, no later operation (a
  second decision, a withdrawal, a sweep or a resubmission under its id) changes it or the
  decision recorded for it.
\<close>

theorem approval_outcome_final:
  fixes later :: "approval_op list"
  assumes "jm_get (as_requests (foldl (approval_step vr vd) create_approval_store ops)) k = Some r"
    and "ar_state r \<noteq> ApprPending"
  defines "s \<equiv> foldl (approval_step vr vd) create_approval_store ops"
  defines "t \<equiv> foldl (approval_step vr vd) create_approval_store (ops @ later)"
  shows "jm_get (as_requests t) k = Some r \<and> jm_get (as_decisions t) k = jm_get (as_decisions s) k"
proof -
  have inv: "approval_inv s" "approval_inv t"
    unfolding s_def t_def by (intro approvals.inv_run create_approval_store_inv)+
  have "approvals_evolve s t"
    unfolding s_def t_def foldl_append
    by (intro approvals.evolves_run approvals.inv_run create_approval_store_inv)
  then have t: "jm_get (as_requests t) k = Some r"
    and keep: "\<And>d. jm_get (as_decisions s) k = Some d \<Longrightarrow> jm_get (as_decisions t) k = Some d"
    using assms(1,2) unfolding s_def [symmetric] approvals_evolve_def by auto
  have "jm_get (as_decisions t) k = None" if "jm_get (as_decisions s) k = None"
    using that request_ok_entry [OF inv(1) assms(1) [folded s_def]] request_ok_entry [OF inv(2) t] verdict_decided
    by (auto simp: request_ok_def decided_by_def split: option.splits)
  with t keep show ?thesis by (cases "jm_get (as_decisions s) k") auto
qed

theorem approval_outcome_final_witness:
  "let ops = [SubmitApproval sample_request, ResolveApproval sample_decision ''2026-01-01T00:30:00.000Z''];
       s = foldl (approval_step sample_vreq sample_vdec) create_approval_store ops;
       t = foldl (approval_step sample_vreq sample_vdec) create_approval_store
             (ops @ [WithdrawApproval ''q'' ''a'', SweepApprovals ''2026-01-01T02:00:00.000Z''])
   in jm_get (as_requests t) ''q'' = Some (sample_request\<lparr>ar_state := ApprDenied\<rparr>)
      \<and> jm_get (as_decisions t) ''q'' = jm_get (as_decisions s) ''q''"
  unfolding Let_def by (rule approval_outcome_final) (simp_all add: sample_approval_simps)

text \<open>
  A sweep leaves only requests that can still be decided: after sweeping a reached store
  at a readable time, every request listed as pending for a device is accepted when that
  device decides it at that time with a well-formed decision dated no later, and the decision
  is then on record with the request in the state it gives.
\<close>

theorem swept_pending_resolvable:
  assumes "r \<in> set (list_pending_approvals
      (fst (check_approval_expiry (foldl (approval_step vr vd) create_approval_store ops) nowIso)) dev)"
    and "date_parse nowIso = Some now" "vd d = None"
    and "ad_requestId d = ar_requestId r" "ad_decidedOnDeviceId d = dev"
    and "date_parse (ad_decidedAt d) = Some x" "x \<le> now"
  defines "s \<equiv> fst (check_approval_expiry (foldl (approval_step vr vd) create_approval_store ops) nowIso)"
  shows "snd (resolve_approval vd s d nowIso) = Accepted
    \<and> jm_get (as_decisions (fst (resolve_approval vd s d nowIso))) (ar_requestId r) = Some d
    \<and> jm_get (as_requests (fst (resolve_approval vd s d nowIso))) (ar_requestId r)
        = Some (r\<lparr>ar_state := verdict_state (ad_state d)\<rparr>)"
proof -
  let ?s0 = "foldl (approval_step vr vd) create_approval_store ops"
  have inv: "approval_inv s"
    unfolding s_def by (intro sweep_inv approvals.inv_run create_approval_store_inv)
  then have "jm_wf (as_requests s)" by (simp add: approval_inv_def)
  from assms(1) obtain k where k: "jm_get (as_requests s) k = Some r"
    and r: "ar_state r = ApprPending" "ar_targetDeviceId r = dev"
    unfolding s_def [symmetric]
    by (auto simp: list_pending_approvals_def jm.vals_get [OF \<open>jm_wf (as_requests s)\<close>])
  note key = request_key [OF inv k]
  from request_ok_entry [OF inv k] obtain e where e: "date_parse (ar_expiresAt r) = Some e"
    and od: "ar_originDeviceId r \<noteq> ar_targetDeviceId r" by (auto simp: request_ok_def)
  have "now < e"
    using k r(1) e assms(2) unfolding s_def
    by (auto simp: jm_get_sweep approval_due_def split: if_splits dest: arg_cong [where f = ar_state])
  then show ?thesis
    using assms(2-7) k r e od key by (simp add: resolve_approval_def jm_laws)
qed

theorem swept_pending_resolvable_witness:
  "let s = fst (check_approval_expiry (foldl (approval_step sample_vreq sample_vdec) create_approval_store
             [SubmitApproval sample_request]) ''2026-01-01T00:30:00.000Z'')
   in snd (resolve_approval sample_vdec s sample_decision ''2026-01-01T00:30:00.000Z'') = Accepted
    \<and> jm_get (as_decisions (fst (resolve_approval sample_vdec s sample_decision ''2026-01-01T00:30:00.000Z'')))
        (ar_requestId sample_request) = Some sample_decision
    \<and> jm_get (as_requests (fst (resolve_approval sample_vdec s sample_decision ''2026-01-01T00:30:00.000Z'')))
        (ar_requestId sample_request) = Some (sample_request\<lparr>ar_state := verdict_state (ad_state sample_decision)\<rparr>)"
  unfolding Let_def
  by (rule swept_pending_resolvable [where now = 1767227400000 and x = 1767227400000 and dev = "''b''"])
     (simp_all add: sample_approval_simps check_approval_expiry_def list_pending_approvals_def
       approval_due_def jm_values_def)

end
