(* ===== verification/Dispatch.thy ===== *)
theory Dispatch
  imports Js_Map
begin

text \<open>
  \<^verbatim>\<open>packages/mcp/src/distributed-dispatch.ts\<close>: which device a packet of a run is sent to.
  Requests and decisions are recorded per request, the chosen device per run (its affinity),
  and a mutation goes only to a device that proved the identity of its source checkout.
\<close>

section \<open>Data\<close>

datatype routing_mode = RouteAutomatic | RoutePreferred | RoutePinned

datatype dispatch_outcome = Admitted | Rejected | Deferred

record source_identity_proof =
  sp_sourceId :: string
  sp_deviceId :: string
  sp_expectedHead :: string
  sp_sourceFingerprint :: string
  sp_provenAt :: string

record dispatch_request =
  dr_requestId :: string
  dr_packetId :: string
  dr_runId :: string
  dr_sourceId :: string
  dr_routingMode :: routing_mode
  dr_mutation :: bool
  dr_requiredCapabilities :: "string list"
  dr_preferredDeviceId :: "string option"
  dr_pinnedDeviceId :: "string option"
  dr_requestedAt :: string

record routing_decision =
  rd_requestId :: string
  rd_outcome :: dispatch_outcome
  rd_selectedDeviceId :: "string option"
  rd_reason :: string
  rd_affinityKey :: "string option"
  rd_decidedAt :: string

record run_affinity =
  ra_runId :: string
  ra_deviceId :: string
  ra_sourceId :: string
  ra_routingMode :: routing_mode
  ra_assignedAt :: string
  ra_stickyUntil :: "string option"

record device_info =
  di_deviceId :: string
  di_state :: string
  di_availableSlots :: int
  di_queueDepth :: int
  di_cpuPressure :: string
  di_enabledSourceFingerprints :: "string list"
  di_capabilities :: "string list"

record dispatch_state =
  ds_requests :: "dispatch_request js_map"
  ds_decisions :: "routing_decision js_map"
  ds_affinities :: "run_affinity js_map"

definition create_dispatch_state :: dispatch_state where
  "create_dispatch_state = \<lparr>ds_requests = [], ds_decisions = [], ds_affinities = []\<rparr>"

definition dispatch_request_schema :: "dispatch_request \<Rightarrow> bool" where
  "dispatch_request_schema r =
     (bounded_string 128 (dr_requestId r) \<and> bounded_string 128 (dr_packetId r)
      \<and> bounded_string 128 (dr_runId r) \<and> bounded_string 128 (dr_sourceId r)
      \<and> list_all (\<lambda>c. length c \<le> 128) (dr_requiredCapabilities r)
      \<and> opt_bounded_string 128 (dr_preferredDeviceId r) \<and> opt_bounded_string 128 (dr_pinnedDeviceId r)
      \<and> bounded_string 64 (dr_requestedAt r))"

definition routing_decision_schema :: "routing_decision \<Rightarrow> bool" where
  "routing_decision_schema d =
     (bounded_string 128 (rd_requestId d) \<and> opt_bounded_string 128 (rd_selectedDeviceId d)
      \<and> bounded_string 512 (rd_reason d) \<and> opt_bounded_string 256 (rd_affinityKey d)
      \<and> bounded_string 64 (rd_decidedAt d))"

section \<open>Operations\<close>

text \<open>The result of \<^verbatim>\<open>verifySourceIdentityProof\<close>: \<open>None\<close> is \<^verbatim>\<open>proof_accepted\<close>, the
  other reasons come with \<^verbatim>\<open>verified: false\<close>.\<close>

definition verify_source_identity_proof :: "source_identity_proof \<Rightarrow> string option" where
  "verify_source_identity_proof p =
     (if sp_sourceId p = [] \<or> sp_deviceId p = [] then Some ''missing_required_fields''
      else if length (sp_expectedHead p) < 7 then Some ''invalid_head_reference''
      else if sp_sourceFingerprint p = [] then Some ''missing_source_fingerprint''
      else if sp_provenAt p = [] then Some ''missing_proven_at''
      else None)"

definition device_with_id :: "string \<Rightarrow> device_info list \<Rightarrow> device_info option" where
  "device_with_id i devices = List.find (\<lambda>d. di_deviceId d = i) devices"

definition valid_proof :: "dispatch_request \<Rightarrow> device_info list \<Rightarrow> source_identity_proof \<Rightarrow> bool" where
  "valid_proof r devices p =
     (sp_sourceId p = dr_sourceId r \<and> verify_source_identity_proof p = None
      \<and> (case device_with_id (sp_deviceId p) devices of
           None \<Rightarrow> False
         | Some d \<Rightarrow> sp_sourceFingerprint p \<in> set (di_enabledSourceFingerprints d)))"

definition proven_ids :: "dispatch_request \<Rightarrow> device_info list \<Rightarrow> source_identity_proof list \<Rightarrow> string list" where
  "proven_ids r devices proofs = map sp_deviceId (filter (valid_proof r devices) proofs)"

definition unreachable :: "device_info \<Rightarrow> bool" where
  "unreachable d = (di_state d = ''revoked'' \<or> di_state d = ''offline'')"

definition candidate :: "dispatch_request \<Rightarrow> string list \<Rightarrow> device_info \<Rightarrow> bool" where
  "candidate r proven d =
     (\<not> unreachable d \<and> 0 < di_availableSlots d
      \<and> (dr_mutation r \<longrightarrow> di_deviceId d \<in> set proven)
      \<and> list_all (\<lambda>c. c \<in> set (di_capabilities d)) (dr_requiredCapabilities r)
      \<and> (if dr_routingMode r = RoutePinned \<and> truthy (dr_pinnedDeviceId r)
         then Some (di_deviceId d) = dr_pinnedDeviceId r
         else if dr_routingMode r = RoutePreferred \<and> truthy (dr_preferredDeviceId r)
         then Some (di_deviceId d) = dr_preferredDeviceId r \<or> 0 < di_availableSlots d
         else True))"

definition preferred_candidate :: "dispatch_request \<Rightarrow> device_info list \<Rightarrow> device_info" where
  "preferred_candidate r cs =
     (if dr_routingMode r = RoutePreferred \<and> truthy (dr_preferredDeviceId r)
      then (case List.find (\<lambda>d. Some (di_deviceId d) = dr_preferredDeviceId r) cs of
              Some d \<Rightarrow> d | None \<Rightarrow> hd cs)
      else hd (sort_key di_queueDepth cs))"

definition sticky_device ::
  "dispatch_state \<Rightarrow> dispatch_request \<Rightarrow> device_info list \<Rightarrow> string list \<Rightarrow> run_affinity option" where
  "sticky_device s r devices proven =
     (case jm_get (ds_affinities s) (dr_runId r) of
        None \<Rightarrow> None
      | Some a \<Rightarrow>
          (case device_with_id (ra_deviceId a) devices of
             None \<Rightarrow> None
           | Some d \<Rightarrow>
               if ra_sourceId a = dr_sourceId r
                  \<and> (\<not> dr_mutation r \<or> ra_deviceId a \<in> set proven)
                  \<and> \<not> unreachable d \<and> 0 < di_availableSlots d
               then Some a else None))"

definition decide :: "dispatch_state \<Rightarrow> routing_decision \<Rightarrow> dispatch_state \<times> routing_decision" where
  "decide s d = (s\<lparr>ds_decisions := jm_set (rd_requestId d) d (ds_decisions s)\<rparr>, d)"

definition decline :: "dispatch_request \<Rightarrow> dispatch_outcome \<Rightarrow> string \<Rightarrow> string \<Rightarrow> routing_decision" where
  "decline r out reason timestamp =
     \<lparr>rd_requestId = dr_requestId r, rd_outcome = out, rd_selectedDeviceId = None, rd_reason = reason,
      rd_affinityKey = None, rd_decidedAt = timestamp\<rparr>"

definition admit :: "dispatch_request \<Rightarrow> string \<Rightarrow> string \<Rightarrow> string \<Rightarrow> routing_decision" where
  "admit r deviceId reason timestamp =
     \<lparr>rd_requestId = dr_requestId r, rd_outcome = Admitted, rd_selectedDeviceId = Some deviceId,
      rd_reason = reason, rd_affinityKey = Some (dr_runId r @ '':'' @ deviceId), rd_decidedAt = timestamp\<rparr>"

definition pinned_unavailable :: "dispatch_request \<Rightarrow> device_info list \<Rightarrow> bool" where
  "pinned_unavailable r devices =
     (dr_routingMode r = RoutePinned \<and> truthy (dr_pinnedDeviceId r)
      \<and> (case device_with_id (the (dr_pinnedDeviceId r)) devices of
           None \<Rightarrow> True | Some d \<Rightarrow> unreachable d))"

definition route_request ::
  "dispatch_request validator \<Rightarrow> dispatch_state \<Rightarrow> dispatch_request \<Rightarrow> device_info list
   \<Rightarrow> source_identity_proof list \<Rightarrow> string \<Rightarrow> dispatch_state \<times> routing_decision" where
  "route_request ajv s0 r devices proofs timestamp =
     (case ajv r of
        Some errs \<Rightarrow> decide s0 (decline r Rejected (''invalid_request: '' @ join '', '' errs) timestamp)
      | None \<Rightarrow>
        if dr_routingMode r = RoutePinned \<and> \<not> truthy (dr_pinnedDeviceId r)
        then decide s0 (decline r Rejected ''pinned_device_required'' timestamp)
        else let s = s0\<lparr>ds_requests := jm_set (dr_requestId r) r (ds_requests s0)\<rparr>;
                 proven = proven_ids r devices proofs
          in case sticky_device s r devices proven of
               Some a \<Rightarrow> decide s (admit r (ra_deviceId a) ''sticky_affinity'' timestamp)
             | None \<Rightarrow>
               if pinned_unavailable r devices
               then decide s (decline r Deferred ''pinned_device_unavailable'' timestamp)
               else let cs = filter (candidate r proven) devices in
                 if cs = []
                 then decide s (decline r Rejected
                        (if dr_mutation r then ''no_device_with_proven_source_identity''
                         else ''no_eligible_device'') timestamp)
                 else let d = preferred_candidate r cs;
                          a = \<lparr>ra_runId = dr_runId r, ra_deviceId = di_deviceId d, ra_sourceId = dr_sourceId r,
                               ra_routingMode = dr_routingMode r, ra_assignedAt = timestamp, ra_stickyUntil = None\<rparr>
                   in decide (s\<lparr>ds_affinities := jm_set (dr_runId r) a (ds_affinities s)\<rparr>)
                        (admit r (di_deviceId d) ''selected_by_capacity'' timestamp))"

definition clear_affinity :: "dispatch_state \<Rightarrow> string \<Rightarrow> dispatch_state \<times> outcome" where
  "clear_affinity s runId =
     (if \<not> jm_has (ds_affinities s) runId then (s, Refused ''affinity_not_found'')
      else (s\<lparr>ds_affinities := jm_delete runId (ds_affinities s)\<rparr>, Accepted))"

section \<open>The chosen device\<close>

lemma device_with_id_Some:
  "device_with_id i devices = Some d \<Longrightarrow> d \<in> set devices \<and> di_deviceId d = i"
  by (auto simp: device_with_id_def dest: find_Some_iff_in)

lemma sticky_device_Some:
  "sticky_device s r devices proven = Some a \<Longrightarrow>
   jm_get (ds_affinities s) (dr_runId r) = Some a \<and> ra_sourceId a = dr_sourceId r
   \<and> (dr_mutation r \<longrightarrow> ra_deviceId a \<in> set proven)
   \<and> (\<exists>d. device_with_id (ra_deviceId a) devices = Some d \<and> \<not> unreachable d \<and> 0 < di_availableSlots d)"
  by (auto simp: sticky_device_def split: option.splits if_splits)

lemma hd_sort_key_least:
  assumes "xs \<noteq> []"
  shows "hd (sort_key f xs) \<in> set xs \<and> (\<forall>x \<in> set xs. f (hd (sort_key f xs)) \<le> f x)"
proof -
  obtain y ys where y: "sort_key f xs = y # ys"
    using assms by (cases "sort_key f xs") (auto dest: arg_cong [of _ _ set])
  have "sorted (map f (y # ys))" unfolding y [symmetric] by simp
  moreover have "set xs = set (y # ys)" unfolding y [symmetric] by simp
  ultimately show ?thesis unfolding y by auto
qed

lemma preferred_candidate_mem:
  assumes "cs \<noteq> []"
  shows "preferred_candidate r cs \<in> set cs"
  using assms hd_sort_key_least [OF assms, of di_queueDepth]
  by (auto simp: preferred_candidate_def dest: find_Some_iff_in split: option.splits)

lemma proven_ids_iff:
  "i \<in> set (proven_ids r devices proofs) \<longleftrightarrow> (\<exists>p \<in> set proofs. valid_proof r devices p \<and> sp_deviceId p = i)"
  by (auto simp: proven_ids_def)

lemma decide_result: "snd (decide s d) = d"
  and decide_affinities: "ds_affinities (fst (decide s d)) = ds_affinities s"
  and decide_requests: "ds_requests (fst (decide s d)) = ds_requests s"
  by (simp_all add: decide_def)

lemmas decide_simps = decide_result decide_affinities decide_requests

text \<open>The three ways a routing can end, once the request passes its checks.\<close>

lemma route_request_cases:
  assumes "rd_outcome (snd (route_request ajv s r devices proofs t)) = Admitted"
  obtains (sticky) a where "sticky_device s r devices (proven_ids r devices proofs) = Some a"
      "route_request ajv s r devices proofs t =
         decide (s\<lparr>ds_requests := jm_set (dr_requestId r) r (ds_requests s)\<rparr>)
           (admit r (ra_deviceId a) ''sticky_affinity'' t)"
    | (chosen) d where "sticky_device s r devices (proven_ids r devices proofs) = None"
      "filter (candidate r (proven_ids r devices proofs)) devices \<noteq> []"
      "d = preferred_candidate r (filter (candidate r (proven_ids r devices proofs)) devices)"
      "snd (route_request ajv s r devices proofs t) = admit r (di_deviceId d) ''selected_by_capacity'' t"
      "jm_get (ds_affinities (fst (route_request ajv s r devices proofs t))) (dr_runId r)
         = Some \<lparr>ra_runId = dr_runId r, ra_deviceId = di_deviceId d, ra_sourceId = dr_sourceId r,
                 ra_routingMode = dr_routingMode r, ra_assignedAt = t, ra_stickyUntil = None\<rparr>"
proof -
  have sticky_req: "sticky_device (s\<lparr>ds_requests := m\<rparr>) r devices ps = sticky_device s r devices ps" for m ps
    by (simp add: sticky_device_def)
  show ?thesis
    using assms that unfolding route_request_def Let_def
    by (auto simp: decide_simps decline_def sticky_req jm_laws split: option.splits if_splits)
qed

lemma decide_recorded: "jm_get (ds_decisions (fst (decide s d))) (rd_requestId d) = Some d"
  by (simp add: decide_def jm_laws)

lemma route_request_sticky:
  assumes "ajv r = None" "dr_routingMode r = RoutePinned \<longrightarrow> truthy (dr_pinnedDeviceId r)"
    and "sticky_device s r devices (proven_ids r devices proofs) = Some a"
  shows "snd (route_request ajv s r devices proofs t) = admit r (ra_deviceId a) ''sticky_affinity'' t"
proof -
  have "sticky_device (s\<lparr>ds_requests := m\<rparr>) r devices ps = sticky_device s r devices ps" for m ps
    by (simp add: sticky_device_def)
  then show ?thesis using assms by (auto simp: route_request_def Let_def decide_simps)
qed

lemma route_request_records:
  "jm_get (ds_decisions (fst (route_request ajv s r devices proofs t)))
     (rd_requestId (snd (route_request ajv s r devices proofs t)))
   = Some (snd (route_request ajv s r devices proofs t))"
  by (simp add: route_request_def Let_def decide_recorded decide_result split: option.split)

lemma admit_sel [simp]:
  "rd_requestId (admit r i reason t) = dr_requestId r" "rd_outcome (admit r i reason t) = Admitted"
  "rd_selectedDeviceId (admit r i reason t) = Some i" "rd_reason (admit r i reason t) = reason"
  by (simp_all add: admit_def)

text \<open>What an admission leaves behind, in either way of reaching it.\<close>

lemma admitted_affinity:
  assumes "rd_outcome (snd (route_request ajv s r devices proofs t)) = Admitted"
  obtains i a where "snd (route_request ajv s r devices proofs t) = admit r i (rd_reason (snd (route_request ajv s r devices proofs t))) t"
    "jm_get (ds_affinities (fst (route_request ajv s r devices proofs t))) (dr_runId r) = Some a"
    "ra_deviceId a = i" "ra_sourceId a = dr_sourceId r"
    "dr_mutation r \<longrightarrow> i \<in> set (proven_ids r devices proofs)"
    "\<exists>d \<in> set devices. di_deviceId d = i \<and> \<not> unreachable d \<and> 0 < di_availableSlots d"
  using assms
proof (cases rule: route_request_cases)
  case (sticky a)
  from sticky_device_Some [OF sticky(1)] show ?thesis
    by (intro that [of "ra_deviceId a" a]) (auto simp: sticky(2) decide_simps dest: device_with_id_Some)
next
  case (chosen d)
  have "d \<in> set (filter (candidate r (proven_ids r devices proofs)) devices)"
    unfolding chosen(3) by (rule preferred_candidate_mem) (rule chosen(2))
  then have "candidate r (proven_ids r devices proofs) d" "d \<in> set devices" by auto
  then show ?thesis
    by (intro that [of "di_deviceId d"]) (auto simp: chosen(4,5) candidate_def)
qed

section \<open>Properties\<close>

definition sample_device :: "string \<Rightarrow> int \<Rightarrow> device_info" where
  "sample_device i q =
     \<lparr>di_deviceId = i, di_state = ''online'', di_availableSlots = 1, di_queueDepth = q,
      di_cpuPressure = ''low'', di_enabledSourceFingerprints = [''fp''], di_capabilities = [''git'']\<rparr>"

definition sample_proof :: "string \<Rightarrow> source_identity_proof" where
  "sample_proof i =
     \<lparr>sp_sourceId = ''src'', sp_deviceId = i, sp_expectedHead = ''0123456'', sp_sourceFingerprint = ''fp'',
      sp_provenAt = ''now''\<rparr>"

definition sample_request :: "string \<Rightarrow> routing_mode \<Rightarrow> string list \<Rightarrow> string option \<Rightarrow> dispatch_request" where
  "sample_request i mode caps pinned =
     \<lparr>dr_requestId = i, dr_packetId = ''p'', dr_runId = ''run'', dr_sourceId = ''src'',
      dr_routingMode = mode, dr_mutation = True, dr_requiredCapabilities = caps,
      dr_preferredDeviceId = None, dr_pinnedDeviceId = pinned, dr_requestedAt = ''now''\<rparr>"

lemmas dispatch_sample_simps = sample_device_def sample_proof_def sample_request_def
  schema_validator_def dispatch_request_schema_def schema_simps create_dispatch_state_def

text \<open>
  C33. A request is only ever admitted to a device of the offered list that is neither revoked
  nor offline and has a free slot; a mutation only to a device for which some proof names the
  request's source, passes verification and carries a fingerprint the device has enabled. The
  decision is recorded under its request, and the run's affinity names the selected device and
  the request's source.
\<close>

theorem dispatch_admits_only_fit_device:
  assumes "route_request ajv s r devices proofs t = (s', dec)" "rd_outcome dec = Admitted"
  shows "\<exists>d \<in> set devices. rd_selectedDeviceId dec = Some (di_deviceId d)
      \<and> di_state d \<notin> {''revoked'', ''offline''} \<and> 0 < di_availableSlots d
      \<and> (dr_mutation r \<longrightarrow> (\<exists>p \<in> set proofs. sp_sourceId p = dr_sourceId r \<and> sp_deviceId p = di_deviceId d
           \<and> verify_source_identity_proof p = None
           \<and> (\<exists>e \<in> set devices. di_deviceId e = di_deviceId d
                \<and> sp_sourceFingerprint p \<in> set (di_enabledSourceFingerprints e))))
      \<and> jm_get (ds_decisions s') (dr_requestId r) = Some dec
      \<and> (\<exists>a. jm_get (ds_affinities s') (dr_runId r) = Some a
           \<and> ra_deviceId a = di_deviceId d \<and> ra_sourceId a = dr_sourceId r)"
proof -
  have eqs: "fst (route_request ajv s r devices proofs t) = s'" "snd (route_request ajv s r devices proofs t) = dec"
    using assms(1) by simp_all
  obtain i a where dec: "dec = admit r i (rd_reason dec) t"
    and a: "jm_get (ds_affinities s') (dr_runId r) = Some a" "ra_deviceId a = i" "ra_sourceId a = dr_sourceId r"
    and proof_i: "dr_mutation r \<longrightarrow> i \<in> set (proven_ids r devices proofs)"
    and d: "\<exists>d \<in> set devices. di_deviceId d = i \<and> \<not> unreachable d \<and> 0 < di_availableSlots d"
    by (rule admitted_affinity [of ajv s r devices proofs t, unfolded eqs, OF assms(2)])
  have sel: "rd_selectedDeviceId dec = Some i" "rd_requestId dec = dr_requestId r"
    by (subst dec, simp)+
  have "jm_get (ds_decisions s') (dr_requestId r) = Some dec"
    using route_request_records [of ajv s r devices proofs t] by (simp add: eqs sel)
  moreover have "dr_mutation r \<longrightarrow> (\<exists>p \<in> set proofs. sp_sourceId p = dr_sourceId r \<and> sp_deviceId p = i
           \<and> verify_source_identity_proof p = None
           \<and> (\<exists>e \<in> set devices. di_deviceId e = i \<and> sp_sourceFingerprint p \<in> set (di_enabledSourceFingerprints e)))"
    using proof_i by (force simp: proven_ids_iff valid_proof_def dest: device_with_id_Some split: option.splits)
  moreover obtain d' where "d' \<in> set devices" "di_deviceId d' = i" "\<not> unreachable d'" "0 < di_availableSlots d'"
    using d by blast
  ultimately show ?thesis using a sel(1) by (intro bexI [of _ d']) (simp_all add: unreachable_def)
qed

theorem dispatch_admits_only_fit_device_witness:
  "\<exists>s' dec. route_request (schema_validator dispatch_request_schema) create_dispatch_state
       (sample_request ''r'' RouteAutomatic [''git''] None) [sample_device ''a'' 4, sample_device ''b'' 2]
       [sample_proof ''a'', sample_proof ''b''] ''now'' = (s', dec)
     \<and> (\<exists>d \<in> set [sample_device ''a'' 4, sample_device ''b'' 2]. rd_selectedDeviceId dec = Some (di_deviceId d)
          \<and> jm_get (ds_decisions s') ''r'' = Some dec)"
proof -
  let ?r = "sample_request ''r'' RouteAutomatic [''git''] None"
  let ?ds = "[sample_device ''a'' 4, sample_device ''b'' 2]"
  let ?ps = "[sample_proof ''a'', sample_proof ''b'']"
  let ?v = "schema_validator dispatch_request_schema"
  have "rd_outcome (snd (route_request ?v create_dispatch_state ?r ?ds ?ps ''now'')) = Admitted" by code_simp
  from dispatch_admits_only_fit_device [OF prod.collapse [symmetric] this]
  have "\<exists>d \<in> set ?ds. rd_selectedDeviceId (snd (route_request ?v create_dispatch_state ?r ?ds ?ps ''now'')) = Some (di_deviceId d)
      \<and> jm_get (ds_decisions (fst (route_request ?v create_dispatch_state ?r ?ds ?ps ''now''))) (dr_requestId ?r)
        = Some (snd (route_request ?v create_dispatch_state ?r ?ds ?ps ''now''))" by blast
  moreover have "dr_requestId ?r = ''r''" by (simp add: sample_request_def)
  ultimately show ?thesis by (metis prod.collapse)
qed

text \<open>
  An automatic request of a run without an affinity is admitted exactly when some offered
  device is a candidate (reachable, a slot free, the capabilities present, and proven for a
  mutation), and then to a candidate with the shortest queue; otherwise it is rejected with
  the reason that fits.
\<close>

theorem automatic_dispatch_least_loaded:
  assumes "ajv r = None" "dr_routingMode r = RouteAutomatic" "jm_get (ds_affinities s) (dr_runId r) = None"
  shows "let dec = snd (route_request ajv s r devices proofs t);
             fit = candidate r (proven_ids r devices proofs)
    in (if list_ex fit devices
        then rd_outcome dec = Admitted
          \<and> (\<exists>d \<in> set devices. fit d \<and> rd_selectedDeviceId dec = Some (di_deviceId d)
               \<and> (\<forall>e \<in> set devices. fit e \<longrightarrow> di_queueDepth d \<le> di_queueDepth e))
        else rd_outcome dec = Rejected \<and> rd_selectedDeviceId dec = None
          \<and> rd_reason dec = (if dr_mutation r then ''no_device_with_proven_source_identity'' else ''no_eligible_device''))"
proof -
  let ?cs = "filter (candidate r (proven_ids r devices proofs)) devices"
  have none: "sticky_device (s\<lparr>ds_requests := m\<rparr>) r devices ps = None" for m ps
    using assms(3) by (simp add: sticky_device_def)
  have dec: "snd (route_request ajv s r devices proofs t) =
      (if ?cs = [] then decline r Rejected (if dr_mutation r then ''no_device_with_proven_source_identity''
                                            else ''no_eligible_device'') t
       else admit r (di_deviceId (hd (sort_key di_queueDepth ?cs))) ''selected_by_capacity'' t)"
    using assms(1,2)
    by (simp add: route_request_def Let_def none pinned_unavailable_def preferred_candidate_def decide_result
        split: if_split)
  show ?thesis
  proof (cases "?cs = []")
    case True
    then have "\<not> list_ex (candidate r (proven_ids r devices proofs)) devices"
      by (auto simp: filter_empty_conv list_ex_iff)
    with True show ?thesis unfolding dec Let_def by (simp add: decline_def)
  next
    case False
    then have "list_ex (candidate r (proven_ids r devices proofs)) devices"
      by (auto simp: filter_empty_conv list_ex_iff)
    with False hd_sort_key_least [OF False, of di_queueDepth] show ?thesis
      unfolding dec Let_def by auto
  qed
qed

theorem automatic_dispatch_least_loaded_witness:
  "let v = schema_validator dispatch_request_schema; r = sample_request ''r'' RouteAutomatic [''git''] None;
       devices = [sample_device ''a'' 4, sample_device ''b'' 2]; proofs = [sample_proof ''a'', sample_proof ''b''];
       dec = snd (route_request v create_dispatch_state r devices proofs ''now'');
       fit = candidate r (proven_ids r devices proofs)
   in (if list_ex fit devices
        then rd_outcome dec = Admitted
          \<and> (\<exists>d \<in> set devices. fit d \<and> rd_selectedDeviceId dec = Some (di_deviceId d)
               \<and> (\<forall>e \<in> set devices. fit e \<longrightarrow> di_queueDepth d \<le> di_queueDepth e))
        else rd_outcome dec = Rejected \<and> rd_selectedDeviceId dec = None
          \<and> rd_reason dec = (if dr_mutation r then ''no_device_with_proven_source_identity'' else ''no_eligible_device''))"
  unfolding Let_def
  by (rule automatic_dispatch_least_loaded [unfolded Let_def]) (simp_all add: dispatch_sample_simps)

text \<open>
  A run keeps its device: once a request of a run was admitted to a device, a later valid
  request of the same run and source is admitted to the same device as long as it is offered
  with a free slot, reachable and, for a mutation, proven, whatever capabilities the later
  request requires and whichever device it prefers or is pinned to.
\<close>

theorem run_keeps_its_device:
  assumes "rd_outcome (snd (route_request ajv s r devices proofs t)) = Admitted"
    and "rd_selectedDeviceId (snd (route_request ajv s r devices proofs t)) = Some (di_deviceId d)"
    and "ajv r' = None" "dr_routingMode r' = RoutePinned \<longrightarrow> truthy (dr_pinnedDeviceId r')"
    and "dr_runId r' = dr_runId r" "dr_sourceId r' = dr_sourceId r"
    and "device_with_id (di_deviceId d) devices' = Some d" "\<not> unreachable d" "0 < di_availableSlots d"
    and "dr_mutation r' \<longrightarrow> di_deviceId d \<in> set (proven_ids r' devices' proofs')"
  shows "rd_selectedDeviceId (snd (route_request ajv (fst (route_request ajv s r devices proofs t)) r' devices' proofs' t'))
           = Some (di_deviceId d)
    \<and> rd_reason (snd (route_request ajv (fst (route_request ajv s r devices proofs t)) r' devices' proofs' t'))
           = ''sticky_affinity''"
proof -
  let ?s = "fst (route_request ajv s r devices proofs t)"
  obtain i a where "snd (route_request ajv s r devices proofs t)
        = admit r i (rd_reason (snd (route_request ajv s r devices proofs t))) t"
    and a: "jm_get (ds_affinities ?s) (dr_runId r) = Some a" "ra_deviceId a = i" "ra_sourceId a = dr_sourceId r"
    by (rule admitted_affinity [OF assms(1)])
  then have "rd_selectedDeviceId (snd (route_request ajv s r devices proofs t)) = Some i" by (metis admit_sel(3))
  with assms(2) have i: "i = di_deviceId d" by simp
  have "sticky_device ?s r' devices' (proven_ids r' devices' proofs') = Some a"
    using a assms(5-10) unfolding i by (simp add: sticky_device_def)
  then have "snd (route_request ajv ?s r' devices' proofs' t') = admit r' (ra_deviceId a) ''sticky_affinity'' t'"
    by (rule route_request_sticky [where ajv = ajv, OF assms(3,4)])
  with a(2) i show ?thesis by simp
qed

theorem run_keeps_its_device_witness:
  "let v = schema_validator dispatch_request_schema; a = sample_device ''a'' 4; b = sample_device ''b'' 2;
       s = fst (route_request v create_dispatch_state (sample_request ''r'' RouteAutomatic [''git''] None)
                  [a] [sample_proof ''a''] ''now'');
       dec = snd (route_request v s (sample_request ''r2'' RoutePinned [''gpu''] (Some ''b''))
                  [a, b] [sample_proof ''a'', sample_proof ''b''] ''later'')
   in rd_selectedDeviceId dec = Some (di_deviceId a) \<and> rd_reason dec = ''sticky_affinity''"
  unfolding Let_def
proof (rule run_keeps_its_device)
  let ?v = "schema_validator dispatch_request_schema"
  show "rd_outcome (snd (route_request ?v create_dispatch_state (sample_request ''r'' RouteAutomatic [''git''] None)
                  [sample_device ''a'' 4] [sample_proof ''a''] ''now'')) = Admitted" by code_simp
  show "rd_selectedDeviceId (snd (route_request ?v create_dispatch_state (sample_request ''r'' RouteAutomatic [''git''] None)
                  [sample_device ''a'' 4] [sample_proof ''a''] ''now'')) = Some (di_deviceId (sample_device ''a'' 4))" by code_simp
  show "dr_mutation (sample_request ''r2'' RoutePinned [''gpu''] (Some ''b'')) \<longrightarrow>
      di_deviceId (sample_device ''a'' 4) \<in> set (proven_ids (sample_request ''r2'' RoutePinned [''gpu''] (Some ''b''))
        [sample_device ''a'' 4, sample_device ''b'' 2] [sample_proof ''a'', sample_proof ''b''])" by code_simp
qed (simp_all add: dispatch_sample_simps truthy_def device_with_id_def unreachable_def)

end
