(* ===== verification/Executor_Broker.thy ===== *)
theory Executor_Broker
  imports Js_Map
begin

text \<open>
  \<^verbatim>\<open>packages/mcp/src/executor-broker.ts\<close>: the executors (Codex, Claude Code, local command
  lines) that are registered with the hub, the choice of the cheapest one that can do a job,
  and the submissions and results of their runs. A submission without a result is active.
\<close>

section \<open>Data\<close>

datatype executor_type = CodexCli | ClaudeCode | LocalCli | CustomExecutor

datatype executor_state = ExecAvailable | ExecBusy | ExecUnavailable | ExecDegraded

datatype reasoning_effort = EffortInstant | EffortLow | EffortMedium | EffortHigh | EffortMax

primrec executor_state_text :: "executor_state \<Rightarrow> string" where
  "executor_state_text ExecAvailable = ''available''"
| "executor_state_text ExecBusy = ''busy''"
| "executor_state_text ExecUnavailable = ''unavailable''"
| "executor_state_text ExecDegraded = ''degraded''"

text \<open>The table \<^verbatim>\<open>effortOrder\<close>; it makes the efforts a linear order.\<close>

primrec effort_order :: "reasoning_effort \<Rightarrow> nat" where
  "effort_order EffortInstant = 0"
| "effort_order EffortLow = 1"
| "effort_order EffortMedium = 2"
| "effort_order EffortHigh = 3"
| "effort_order EffortMax = 4"

lemma effort_order_inj: "effort_order a = effort_order b \<longleftrightarrow> a = b"
  by (cases a; cases b) simp_all

instantiation reasoning_effort :: linorder
begin

definition less_eq_reasoning_effort :: "reasoning_effort \<Rightarrow> reasoning_effort \<Rightarrow> bool" where
  "less_eq_reasoning_effort a b = (effort_order a \<le> effort_order b)"

definition less_reasoning_effort :: "reasoning_effort \<Rightarrow> reasoning_effort \<Rightarrow> bool" where
  "less_reasoning_effort a b = (effort_order a < effort_order b)"

instance
  by standard (auto simp: less_eq_reasoning_effort_def less_reasoning_effort_def effort_order_inj)

end

datatype submit_method = SubmitCli | SubmitApi | SubmitMcpClient
datatype status_method = StatusPolling | StatusStreaming | StatusCallback
datatype cancellation_method = CancelSignal | CancelApi | CancelNone

record executor_capabilities =
  xc_modelAliases :: "string list"
  xc_reasoningEfforts :: "reasoning_effort list"
  xc_supportsIsolation :: bool
  xc_supportsWorktree :: bool
  xc_supportsCancellation :: bool
  xc_supportsWorkbenchMcp :: bool
  xc_supportsStreaming :: bool
  xc_supportsBackground :: bool

record executor_limits =
  xl_maxPromptTokens :: int
  xl_maxGoalLength :: int
  xl_maxConcurrentRuns :: int
  xl_timeoutMs :: int

record control_surface =
  xs_submitMethod :: submit_method
  xs_statusMethod :: status_method
  xs_cancellationMethod :: "cancellation_method option"
  xs_mcpServerInjection :: bool

record executor_descriptor =
  xd_executorId :: string
  xd_executorType :: executor_type
  xd_displayName :: string
  xd_state :: executor_state
  xd_capabilities :: executor_capabilities
  xd_limits :: executor_limits
  xd_controlSurface :: control_surface
  xd_registeredAt :: string

datatype isolation = IsoWorktree | IsoSandbox | IsoNone

record executor_submission =
  sub_submissionId :: string
  sub_executorId :: string
  sub_packetId :: string
  sub_runId :: string
  sub_workspaceId :: string
  sub_prompt :: string
  sub_reasoningEffort :: reasoning_effort
  sub_isolation :: isolation
  sub_grantId :: string
  sub_submittedAt :: string

datatype result_state = ResCompleted | ResFailed | ResCancelled | ResTimeout

text \<open>The evidence of a result is stored and never looked at here: its type is a parameter.\<close>

record 'e executor_result =
  res_submissionId :: string
  res_executorId :: string
  res_state :: result_state
  res_evidence :: "'e option"
  res_completedAt :: string
  res_durationMs :: int

record 'e broker_state =
  bk_executors :: "executor_descriptor js_map"
  bk_submissions :: "executor_submission js_map"
  bk_results :: "'e executor_result js_map"

definition executor_descriptor_schema :: "executor_descriptor \<Rightarrow> bool" where
  "executor_descriptor_schema d =
     (let c = xd_capabilities d; l = xd_limits d in
      bounded_string 128 (xd_executorId d) \<and> bounded_string 256 (xd_displayName d)
      \<and> list_all (bounded_string 128) (xc_modelAliases c) \<and> length (xc_modelAliases c) \<le> 20
      \<and> 1 \<le> length (xc_reasoningEfforts c) \<and> length (xc_reasoningEfforts c) \<le> 5
      \<and> 1000 \<le> xl_maxPromptTokens l \<and> xl_maxPromptTokens l \<le> 2000000
      \<and> 100 \<le> xl_maxGoalLength l \<and> xl_maxGoalLength l \<le> 100000
      \<and> 1 \<le> xl_maxConcurrentRuns l \<and> xl_maxConcurrentRuns l \<le> 100
      \<and> 5000 \<le> xl_timeoutMs l \<and> xl_timeoutMs l \<le> 3600000
      \<and> bounded_string 64 (xd_registeredAt d))"

section \<open>Operations\<close>

definition create_broker_state :: "'e broker_state" where
  "create_broker_state = \<lparr>bk_executors = [], bk_submissions = [], bk_results = []\<rparr>"

definition register_executor ::
  "executor_descriptor validator \<Rightarrow> 'e broker_state \<Rightarrow> executor_descriptor \<Rightarrow> 'e broker_state \<times> outcome" where
  "register_executor ajv s d =
     (case ajv d of
        Some errs \<Rightarrow> (s, Refused (''invalid descriptor: '' @ join '', '' errs))
      | None \<Rightarrow> (s\<lparr>bk_executors := jm_set (xd_executorId d) d (bk_executors s)\<rparr>, Accepted))"

definition remove_executor :: "'e broker_state \<Rightarrow> string \<Rightarrow> 'e broker_state \<times> outcome" where
  "remove_executor s executorId =
     (if \<not> jm_has (bk_executors s) executorId then (s, Refused ''executor not found'')
      else (s\<lparr>bk_executors := jm_delete executorId (bk_executors s)\<rparr>, Accepted))"

definition capable :: "reasoning_effort \<Rightarrow> bool \<Rightarrow> bool \<Rightarrow> executor_descriptor \<Rightarrow> bool" where
  "capable effort isolation mcp x =
     (xd_state x = ExecAvailable
      \<and> effort \<in> set (xc_reasoningEfforts (xd_capabilities x))
      \<and> (isolation \<longrightarrow> xc_supportsIsolation (xd_capabilities x))
      \<and> (mcp \<longrightarrow> xc_supportsWorkbenchMcp (xd_capabilities x)))"

text \<open>\<^verbatim>\<open>Math.min\<close> over the orders of the efforts an executor supports: a candidate supports
  at least the required one.\<close>

definition min_effort :: "executor_descriptor \<Rightarrow> nat" where
  "min_effort x = Min (set (map effort_order (xc_reasoningEfforts (xd_capabilities x))))"

definition select_cheapest_capable_executor ::
  "'e broker_state \<Rightarrow> reasoning_effort \<Rightarrow> bool \<Rightarrow> bool \<Rightarrow> executor_descriptor option" where
  "select_cheapest_capable_executor s effort isolation mcp =
     (let candidates = filter (capable effort isolation mcp) (jm_values (bk_executors s))
      in if candidates = [] then None else Some (hd (sort_key min_effort candidates)))"

definition is_active :: "'e broker_state \<Rightarrow> string \<Rightarrow> executor_submission \<Rightarrow> bool" where
  "is_active s executorId x = (sub_executorId x = executorId \<and> \<not> jm_has (bk_results s) (sub_submissionId x))"

definition active_submissions :: "'e broker_state \<Rightarrow> string \<Rightarrow> executor_submission list" where
  "active_submissions s executorId = filter (is_active s executorId) (jm_values (bk_submissions s))"

definition submit_to_executor :: "'e broker_state \<Rightarrow> executor_submission \<Rightarrow> 'e broker_state \<times> outcome" where
  "submit_to_executor s x =
     (case jm_get (bk_executors s) (sub_executorId x) of
        None \<Rightarrow> (s, Refused ''executor not registered'')
      | Some e \<Rightarrow>
          if xd_state e \<noteq> ExecAvailable
          then (s, Refused (''executor state is '' @ executor_state_text (xd_state e)))
          else if xl_maxGoalLength (xd_limits e) < int (length (sub_prompt x))
          then (s, Refused (''prompt exceeds limit ('' @ show_nat (length (sub_prompt x)) @ '' > ''
                            @ show_int (xl_maxGoalLength (xd_limits e)) @ '')''))
          else if xl_maxConcurrentRuns (xd_limits e) \<le> int (length (active_submissions s (sub_executorId x)))
          then (s, Refused (''executor at concurrent run limit (''
                            @ show_int (xl_maxConcurrentRuns (xd_limits e)) @ '')''))
          else (s\<lparr>bk_submissions := jm_set (sub_submissionId x) x (bk_submissions s)\<rparr>, Accepted))"

definition record_executor_result :: "'e broker_state \<Rightarrow> 'e executor_result \<Rightarrow> 'e broker_state \<times> outcome" where
  "record_executor_result s r =
     (if \<not> jm_has (bk_submissions s) (res_submissionId r) then (s, Refused ''no matching submission found'')
      else (s\<lparr>bk_results := jm_set (res_submissionId r) r (bk_results s)\<rparr>, Accepted))"

section \<open>The broker as a machine\<close>

datatype 'e broker_op =
    OpRegister executor_descriptor
  | OpRemove string
  | OpSubmit executor_submission
  | OpRecord "'e executor_result"

fun broker_step :: "executor_descriptor validator \<Rightarrow> 'e broker_state \<Rightarrow> 'e broker_op \<Rightarrow> 'e broker_state" where
  "broker_step ajv s (OpRegister d) = fst (register_executor ajv s d)"
| "broker_step ajv s (OpRemove i) = fst (remove_executor s i)"
| "broker_step ajv s (OpSubmit x) = fst (submit_to_executor s x)"
| "broker_step ajv s (OpRecord r) = fst (record_executor_result s r)"

definition broker_inv :: "'e broker_state \<Rightarrow> bool" where
  "broker_inv s =
     (jm_wf (bk_executors s) \<and> jm.entries (\<lambda>k d. xd_executorId d = k) (bk_executors s)
      \<and> jm_wf (bk_submissions s) \<and> jm.entries (\<lambda>k x. sub_submissionId x = k) (bk_submissions s)
      \<and> jm_wf (bk_results s)
      \<and> jm.entries (\<lambda>k r. res_submissionId r = k \<and> jm_has (bk_submissions s) k) (bk_results s))"

lemma create_broker_inv: "broker_inv create_broker_state"
  by (simp add: broker_inv_def create_broker_state_def jm.entries_def)

lemma broker_inv_step: "broker_inv s \<Longrightarrow> broker_inv (broker_step ajv s a)"
  by (cases a)
     (auto simp: broker_inv_def register_executor_def remove_executor_def submit_to_executor_def
        record_executor_result_def jm.entries_def jm_laws jm_has_def jm.wf_put jm.wf_delete
        split: option.splits)

interpretation broker: op_machine "broker_step ajv" broker_inv
  by unfold_locales (rule broker_inv_step)

definition limits_held :: "'e broker_state \<Rightarrow> bool" where
  "limits_held s =
     jm.entries (\<lambda>i e. int (length (active_submissions s i)) \<le> xl_maxConcurrentRuns (xd_limits e)) (bk_executors s)"

definition registers :: "'e broker_op \<Rightarrow> bool" where
  "registers a = (case a of OpRegister d \<Rightarrow> True | _ \<Rightarrow> False)"

lemma submit_active_count:
  fixes s :: "'e broker_state"
  assumes "broker_inv s"
  shows "length (active_submissions (s\<lparr>bk_submissions := jm_set (sub_submissionId x) x (bk_submissions s)\<rparr>) i)
     \<le> length (active_submissions s i) + (if is_active s i x then 1 else 0)"
proof -
  have active: "is_active (s\<lparr>bk_submissions := m\<rparr>) i = is_active s i" for m
    by (simp add: is_active_def fun_eq_iff)
  have "jm_wf (bk_submissions s)" using assms by (simp add: broker_inv_def)
  from count_jm_set [OF this, of "is_active s i" "sub_submissionId x" x] show ?thesis
    by (simp add: active_submissions_def active split: option.splits)
qed

lemma record_active_count:
  "length (active_submissions (s\<lparr>bk_results := jm_set k r (bk_results s)\<rparr>) i) \<le> length (active_submissions s i)"
proof -
  let ?new = "is_active (s\<lparr>bk_results := jm_set k r (bk_results s)\<rparr>) i"
  have "?new x \<Longrightarrow> is_active s i x" for x
    by (auto simp: is_active_def jm_has_def jm_laws split: if_splits)
  then have "length (filter ?new xs) \<le> length (filter (is_active s i) xs)" for xs
    by (induction xs) (auto simp: le_SucI)
  then show ?thesis by (simp add: active_submissions_def)
qed

lemma limits_held_step:
  assumes "broker_inv s" "limits_held s" "\<not> registers a"
  shows "limits_held (broker_step ajv s a)"
proof (cases a)
  case (OpRegister d)
  with assms(3) show ?thesis by (simp add: registers_def)
next
  case (OpRemove i)
  have "active_submissions (s\<lparr>bk_executors := m\<rparr>) k = active_submissions s k" for m k
    by (simp add: active_submissions_def is_active_def fun_eq_iff cong: filter_cong)
  with OpRemove assms(2) show ?thesis
    by (auto simp: limits_held_def remove_executor_def jm.entries_def jm_laws)
next
  case (OpRecord r)
  then show ?thesis
    using assms(2) record_active_count [of "res_submissionId r" r s]
    unfolding limits_held_def jm.entries_def by (auto simp: record_executor_result_def) (meson of_nat_mono order_trans)
next
  case (OpSubmit x)
  show ?thesis
  proof (cases "snd (submit_to_executor s x) = Accepted")
    case False
    with assms(2) OpSubmit show ?thesis by (auto simp: submit_to_executor_def split: option.splits if_splits)
  next
    case True
    then obtain e where e: "jm_get (bk_executors s) (sub_executorId x) = Some e"
      "int (length (active_submissions s (sub_executorId x))) < xl_maxConcurrentRuns (xd_limits e)"
      "fst (submit_to_executor s x) = s\<lparr>bk_submissions := jm_set (sub_submissionId x) x (bk_submissions s)\<rparr>"
      by (auto simp: submit_to_executor_def split: option.splits if_splits)
    show ?thesis
      unfolding OpSubmit limits_held_def jm.entries_def broker_step.simps e(3)
    proof (intro allI impI)
      fix i e'
      assume "jm_get (bk_executors (s\<lparr>bk_submissions := jm_set (sub_submissionId x) x (bk_submissions s)\<rparr>)) i = Some e'"
      then have e': "jm_get (bk_executors s) i = Some e'" by simp
      then have old: "int (length (active_submissions s i)) \<le> xl_maxConcurrentRuns (xd_limits e')"
        using assms(2) by (simp add: limits_held_def jm.entries_def)
      have "is_active s i x \<Longrightarrow> int (length (active_submissions s i)) < xl_maxConcurrentRuns (xd_limits e')"
        using e(1,2) e' by (auto simp: is_active_def)
      with old submit_active_count [OF assms(1), of x i]
      show "int (length (active_submissions (s\<lparr>bk_submissions := jm_set (sub_submissionId x) x (bk_submissions s)\<rparr>) i))
          \<le> xl_maxConcurrentRuns (xd_limits e')"
        by (auto split: if_splits)
    qed
  qed
qed

lemma limits_held_run:
  "broker_inv s \<Longrightarrow> limits_held s \<Longrightarrow> list_all (\<lambda>a. \<not> registers a) ops \<Longrightarrow>
   limits_held (foldl (broker_step ajv) s ops)"
  by (induction ops arbitrary: s) (auto simp: limits_held_step broker_inv_step)

lemma registered_limits:
  fixes s :: "'e broker_state"
  assumes "decides_schema executor_descriptor_schema ajv"
    and "bk_submissions s = []"
    and "jm.entries (\<lambda>i e. 1 \<le> xl_maxConcurrentRuns (xd_limits e)) (bk_executors s)"
  shows "limits_held (foldl (broker_step ajv) s (map OpRegister ds))"
  using assms(2,3)
proof (induction ds arbitrary: s)
  case Nil
  then show ?case by (auto simp: limits_held_def active_submissions_def jm.entries_def) fastforce
next
  case (Cons d ds)
  have "executor_descriptor_schema d" if "ajv d = None"
    using assms(1) that by (simp add: decides_schema_def)
  then have "1 \<le> xl_maxConcurrentRuns (xd_limits d)" if "ajv d = None"
    using that by (simp add: executor_descriptor_schema_def Let_def)
  with Cons.prems have "bk_submissions (broker_step ajv s (OpRegister d)) = []"
    "jm.entries (\<lambda>i e. 1 \<le> xl_maxConcurrentRuns (xd_limits e)) (bk_executors (broker_step ajv s (OpRegister d)))"
    by (auto simp: register_executor_def jm.entries_def jm_laws split: option.split)
  from Cons.IH [OF this] show ?case by simp
qed

section \<open>Properties\<close>

definition sample_executor :: "string \<Rightarrow> reasoning_effort list \<Rightarrow> executor_descriptor" where
  "sample_executor i efforts =
     \<lparr>xd_executorId = i, xd_executorType = CodexCli, xd_displayName = i, xd_state = ExecAvailable,
      xd_capabilities = \<lparr>xc_modelAliases = [], xc_reasoningEfforts = efforts, xc_supportsIsolation = True,
        xc_supportsWorktree = True, xc_supportsCancellation = True, xc_supportsWorkbenchMcp = True,
        xc_supportsStreaming = False, xc_supportsBackground = False\<rparr>,
      xd_limits = \<lparr>xl_maxPromptTokens = 1000, xl_maxGoalLength = 100, xl_maxConcurrentRuns = 1, xl_timeoutMs = 5000\<rparr>,
      xd_controlSurface = \<lparr>xs_submitMethod = SubmitCli, xs_statusMethod = StatusPolling,
        xs_cancellationMethod = None, xs_mcpServerInjection = False\<rparr>,
      xd_registeredAt = ''now''\<rparr>"

definition sample_submission :: "string \<Rightarrow> string \<Rightarrow> executor_submission" where
  "sample_submission i e =
     \<lparr>sub_submissionId = i, sub_executorId = e, sub_packetId = ''p'', sub_runId = ''r'', sub_workspaceId = ''w'',
      sub_prompt = ''do it'', sub_reasoningEffort = EffortLow, sub_isolation = IsoNone, sub_grantId = ''g'',
      sub_submittedAt = ''now''\<rparr>"

definition sample_result :: "string \<Rightarrow> string \<Rightarrow> unit executor_result" where
  "sample_result i e =
     \<lparr>res_submissionId = i, res_executorId = e, res_state = ResCompleted, res_evidence = None,
      res_completedAt = ''now'', res_durationMs = 1\<rparr>"

text \<open>
  C34. Concurrency limits hold: once the executors are registered, no sequence of removals,
  submissions and results ever gives a registered executor more active submissions than its
  \<^verbatim>\<open>maxConcurrentRuns\<close>.
\<close>

theorem executor_concurrency_bounded:
  fixes s :: "'e broker_state"
  assumes "decides_schema executor_descriptor_schema ajv"
    and "list_all (\<lambda>a. \<not> registers a) ops"
    and "s = foldl (broker_step ajv) create_broker_state (map OpRegister ds @ ops)"
    and "jm_get (bk_executors s) i = Some e"
  shows "int (length (active_submissions s i)) \<le> xl_maxConcurrentRuns (xd_limits e)"
proof -
  let ?s0 = "foldl (broker_step ajv) (create_broker_state :: 'e broker_state) (map OpRegister ds)"
  have "limits_held ?s0"
    by (rule registered_limits [OF assms(1)]) (simp_all add: create_broker_state_def jm.entries_def)
  moreover have "broker_inv ?s0" by (rule broker.inv_run) (rule create_broker_inv)
  ultimately have "limits_held s" using assms(2) unfolding assms(3) by (simp add: limits_held_run)
  with assms(4) show ?thesis by (simp add: limits_held_def jm.entries_def)
qed

theorem executor_concurrency_bounded_witness:
  "let v = schema_validator executor_descriptor_schema; e = sample_executor ''e'' [EffortLow];
       s = foldl (broker_step v) (create_broker_state :: unit broker_state)
             (map OpRegister [e] @ [OpSubmit (sample_submission ''a'' ''e''), OpSubmit (sample_submission ''b'' ''e'')])
   in int (length (active_submissions s ''e'')) \<le> xl_maxConcurrentRuns (xd_limits e)"
  unfolding Let_def
proof (rule executor_concurrency_bounded [OF decides_schema_validator _ refl])
  show "list_all (\<lambda>a. \<not> registers a)
      [OpSubmit (sample_submission ''a'' ''e''), OpSubmit (sample_submission ''b'' ''e'') :: unit broker_op]"
    by (simp add: registers_def)
  show "jm_get (bk_executors (foldl (broker_step (schema_validator executor_descriptor_schema))
      (create_broker_state :: unit broker_state) (map OpRegister [sample_executor ''e'' [EffortLow]]
       @ [OpSubmit (sample_submission ''a'' ''e''), OpSubmit (sample_submission ''b'' ''e'')]))) ''e''
      = Some (sample_executor ''e'' [EffortLow])" by code_simp
qed

lemma min_effort_le:
  assumes "b \<in> set (xc_reasoningEfforts (xd_capabilities x))"
  shows "min_effort x \<le> effort_order b"
  using assms by (auto simp: min_effort_def intro: Min_le)

lemma min_effort_attained:
  assumes "xc_reasoningEfforts (xd_capabilities x) \<noteq> []"
  obtains b where "b \<in> set (xc_reasoningEfforts (xd_capabilities x))" "min_effort x = effort_order b"
proof -
  have "min_effort x \<in> effort_order ` set (xc_reasoningEfforts (xd_capabilities x))"
    using assms unfolding min_effort_def set_map by (intro Min_in) auto
  then show ?thesis using that by auto
qed

text \<open>
  The selection is exact: it finds an executor if and only if some registered one is
  available, supports the required effort and, where required, isolation and the workbench
  protocol; the one it finds is such an executor, and the least effort it supports is at most
  every effort supported by any other such executor.
\<close>

theorem cheapest_executor_exact:
  fixes s :: "'e broker_state"
  assumes "s = foldl (broker_step ajv) create_broker_state ops"
  shows "case select_cheapest_capable_executor s effort isolation mcp of
      None \<Rightarrow> (\<forall>i y. jm_get (bk_executors s) i = Some y \<longrightarrow> \<not> capable effort isolation mcp y)
    | Some x \<Rightarrow> jm_get (bk_executors s) (xd_executorId x) = Some x \<and> capable effort isolation mcp x
        \<and> (\<exists>b \<in> set (xc_reasoningEfforts (xd_capabilities x)).
             \<forall>i y. jm_get (bk_executors s) i = Some y \<longrightarrow> capable effort isolation mcp y \<longrightarrow>
               (\<forall>c \<in> set (xc_reasoningEfforts (xd_capabilities y)). b \<le> c))"
proof -
  have inv: "broker_inv s" unfolding assms by (intro broker.inv_run create_broker_inv)
  then have mem: "y \<in> set (jm_values (bk_executors s)) \<longleftrightarrow> (\<exists>i. jm_get (bk_executors s) i = Some y)" for y
    by (simp add: broker_inv_def jm.vals_get)
  let ?cs = "filter (capable effort isolation mcp) (jm_values (bk_executors s))"
  show ?thesis
  proof (cases "?cs = []")
    case True
    then have "\<forall>y \<in> set (jm_values (bk_executors s)). \<not> capable effort isolation mcp y"
      by (simp add: filter_empty_conv)
    with True mem show ?thesis by (auto simp: select_cheapest_capable_executor_def)
  next
    case False
    define x where "x = hd (sort_key min_effort ?cs)"
    obtain z zs where z: "sort_key min_effort ?cs = z # zs"
      using False by (cases "sort_key min_effort ?cs") (auto dest: arg_cong [of _ _ set])
    have sorted: "sorted (map min_effort (z # zs))" and same: "set (z # zs) = set ?cs"
      unfolding z [symmetric] by simp_all
    have x: "x \<in> set ?cs" "\<forall>y \<in> set ?cs. min_effort x \<le> min_effort y"
      using sorted unfolding same [symmetric] x_def z by auto
    then have cap: "capable effort isolation mcp x" "\<exists>i. jm_get (bk_executors s) i = Some x"
      using mem by auto
    have own: "jm_get (bk_executors s) (xd_executorId x) = Some x"
      using cap(2) inv by (auto simp: broker_inv_def jm.entries_def)
    have "xc_reasoningEfforts (xd_capabilities x) \<noteq> []" using cap(1) by (auto simp: capable_def)
    then obtain b where b: "b \<in> set (xc_reasoningEfforts (xd_capabilities x))" "min_effort x = effort_order b"
      by (rule min_effort_attained)
    have "b \<le> c" if "jm_get (bk_executors s) i = Some y" "capable effort isolation mcp y"
      "c \<in> set (xc_reasoningEfforts (xd_capabilities y))" for i y c
    proof -
      have "y \<in> set ?cs" using that mem by auto
      with x(2) b(2) min_effort_le [OF that(3)] show ?thesis by (force simp: less_eq_reasoning_effort_def)
    qed
    with own cap(1) b(1) False show ?thesis
      unfolding select_cheapest_capable_executor_def Let_def x_def [symmetric] by auto
  qed
qed

theorem cheapest_executor_exact_witness:
  "let v = schema_validator executor_descriptor_schema;
       s = foldl (broker_step v) (create_broker_state :: unit broker_state)
             [OpRegister (sample_executor ''big'' [EffortHigh, EffortMedium]), OpRegister (sample_executor ''small'' [EffortMedium, EffortLow])]
   in case select_cheapest_capable_executor s EffortMedium True False of
      None \<Rightarrow> (\<forall>i y. jm_get (bk_executors s) i = Some y \<longrightarrow> \<not> capable EffortMedium True False y)
    | Some x \<Rightarrow> jm_get (bk_executors s) (xd_executorId x) = Some x \<and> capable EffortMedium True False x
        \<and> (\<exists>b \<in> set (xc_reasoningEfforts (xd_capabilities x)).
             \<forall>i y. jm_get (bk_executors s) i = Some y \<longrightarrow> capable EffortMedium True False y \<longrightarrow>
               (\<forall>c \<in> set (xc_reasoningEfforts (xd_capabilities y)). b \<le> c))"
  unfolding Let_def by (rule cheapest_executor_exact [OF refl])

text \<open>
  A submission id that already has a result is no longer counted: submitting it again to
  an available executor below its limit is accepted any number of times, and no such
  submission adds to the executor's active count, although each starts a run.
\<close>

theorem finished_id_escapes_limit:
  fixes s0 :: "'e broker_state"
  assumes "s0 = foldl (broker_step ajv) create_broker_state ops"
    and "jm_has (bk_results s0) (sub_submissionId x)"
    and "snd (submit_to_executor s0 x) = Accepted"
  shows "let s = foldl (broker_step ajv) s0 (replicate n (OpSubmit x))
    in snd (submit_to_executor s x) = Accepted
       \<and> length (active_submissions s (sub_executorId x)) = length (active_submissions s0 (sub_executorId x))"
proof -
  let ?i = "sub_executorId x"
  have step: "broker_inv (broker_step ajv s (OpSubmit x)) \<and> jm_has (bk_results (broker_step ajv s (OpSubmit x))) (sub_submissionId x)
      \<and> snd (submit_to_executor (broker_step ajv s (OpSubmit x)) x) = Accepted
      \<and> length (active_submissions (broker_step ajv s (OpSubmit x)) ?i) = length (active_submissions s ?i)"
    if s: "broker_inv s" "jm_has (bk_results s) (sub_submissionId x)" "snd (submit_to_executor s x) = Accepted"
    for s :: "'e broker_state"
  proof -
    let ?s' = "s\<lparr>bk_submissions := jm_set (sub_submissionId x) x (bk_submissions s)\<rparr>"
    obtain e where e: "jm_get (bk_executors s) ?i = Some e" "xd_state e = ExecAvailable"
      "\<not> xl_maxGoalLength (xd_limits e) < int (length (sub_prompt x))"
      "\<not> xl_maxConcurrentRuns (xd_limits e) \<le> int (length (active_submissions s ?i))"
      using s(3) by (auto simp: submit_to_executor_def split: option.splits if_splits)
    then have s': "broker_step ajv s (OpSubmit x) = ?s'" by (simp add: submit_to_executor_def)
    have active: "is_active ?s' ?i = is_active s ?i" by (simp add: is_active_def fun_eq_iff)
    have "\<not> is_active s ?i x" using s(2) by (simp add: is_active_def)
    moreover have "\<not> is_active s ?i w" if "jm_get (bk_submissions s) (sub_submissionId x) = Some w" for w
      using s(1,2) that by (auto simp: broker_inv_def jm.entries_def is_active_def)
    moreover have "jm_wf (bk_submissions s)" using s(1) by (simp add: broker_inv_def)
    note count_jm_set [OF this, of "is_active s ?i" "sub_submissionId x" x]
    ultimately have len: "length (active_submissions ?s' ?i) = length (active_submissions s ?i)"
      by (simp add: active_submissions_def active split: option.splits)
    moreover have "snd (submit_to_executor ?s' x) = Accepted"
      using e by (simp add: submit_to_executor_def len)
    ultimately show ?thesis using s broker_inv_step [OF s(1), of ajv "OpSubmit x"] unfolding s' by simp
  qed
  have "broker_inv s0" unfolding assms(1) by (intro broker.inv_run create_broker_inv)
  then show ?thesis using assms(2,3)
  proof (induction n arbitrary: s0)
    case (Suc n)
    from step [OF Suc.prems] Suc.IH [of "broker_step ajv s0 (OpSubmit x)"] show ?case by (simp add: Let_def)
  qed simp
qed

theorem finished_id_escapes_limit_witness:
  "let v = schema_validator executor_descriptor_schema; x = sample_submission ''a'' ''e'';
       s0 = foldl (broker_step v) (create_broker_state :: unit broker_state)
              [OpRegister (sample_executor ''e'' [EffortLow]), OpSubmit x, OpRecord (sample_result ''a'' ''e'')];
       s = foldl (broker_step v) s0 (replicate 5 (OpSubmit x))
   in snd (submit_to_executor s x) = Accepted
       \<and> length (active_submissions s (sub_executorId x)) = length (active_submissions s0 (sub_executorId x))"
  unfolding Let_def
proof (rule finished_id_escapes_limit [OF refl, unfolded Let_def])
  let ?s = "foldl (broker_step (schema_validator executor_descriptor_schema)) (create_broker_state :: unit broker_state)
     [OpRegister (sample_executor ''e'' [EffortLow]), OpSubmit (sample_submission ''a'' ''e''), OpRecord (sample_result ''a'' ''e'')]"
  show "jm_has (bk_results ?s) (sub_submissionId (sample_submission ''a'' ''e''))" by code_simp
  show "snd (submit_to_executor ?s (sample_submission ''a'' ''e'')) = Accepted" by code_simp
qed

end
