(* ===== verification/Delegation.thy ===== *)
theory Delegation
  imports Js_Map
begin

text \<open>
  \<^verbatim>\<open>packages/mcp/src/automatic-delegation.ts\<close>: the packets of a run that are handed to an
  executor. The store keeps the delegations with their state and the results of their
  reconciliation; a delegation is created once, moves along a table of transitions, can be
  cancelled until it is terminal, and takes a result only while it is being reconciled.
\<close>

section \<open>Data\<close>

datatype delegation_state =
    DelPending | DelSubmitted | DelRunning | DelCompleted | DelFailed | DelCancelled
  | DelReconciling | DelReconciled

primrec delegation_state_text :: "delegation_state \<Rightarrow> string" where
  "delegation_state_text DelPending = ''pending''"
| "delegation_state_text DelSubmitted = ''submitted''"
| "delegation_state_text DelRunning = ''running''"
| "delegation_state_text DelCompleted = ''completed''"
| "delegation_state_text DelFailed = ''failed''"
| "delegation_state_text DelCancelled = ''cancelled''"
| "delegation_state_text DelReconciling = ''reconciling''"
| "delegation_state_text DelReconciled = ''reconciled''"

datatype delegation_isolation = DelWorktree | DelSandbox | DelUnisolated

record delegation =
  dl_delegationId :: string
  dl_runId :: string
  dl_packetId :: string
  dl_workspaceId :: string
  dl_executorId :: string
  dl_state :: delegation_state
  dl_isolation :: delegation_isolation
  dl_worktreePath :: "string option"
  dl_branchName :: "string option"
  dl_expectedHead :: "string option"
  dl_grantId :: string
  dl_submittedAt :: "string option"
  dl_startedAt :: "string option"
  dl_completedAt :: "string option"
  dl_createdAt :: string

record reconciliation_result =
  rr_delegationId :: string
  rr_filesReconciled :: "string list"
  rr_validationPassed :: bool
  rr_commitHash :: "string option"
  rr_conflictsDetected :: "string list"
  rr_reconciledAt :: string

record delegation_store =
  ds_delegations :: "delegation js_map"
  ds_reconciliations :: "reconciliation_result js_map"

definition delegation_schema :: "delegation \<Rightarrow> bool" where
  "delegation_schema d =
     (list_all (bounded_string 128)
        [dl_delegationId d, dl_runId d, dl_packetId d, dl_workspaceId d, dl_executorId d, dl_grantId d]
      \<and> opt_bounded_string 1024 (dl_worktreePath d) \<and> opt_bounded_string 256 (dl_branchName d)
      \<and> list_all (opt_bounded_string 64)
          [dl_expectedHead d, dl_submittedAt d, dl_startedAt d, dl_completedAt d]
      \<and> bounded_string 64 (dl_createdAt d))"

section \<open>Operations\<close>

definition create_delegation_store :: delegation_store where
  "create_delegation_store = \<lparr>ds_delegations = [], ds_reconciliations = []\<rparr>"

text \<open>The reason of an answer of \<^verbatim>\<open>checkEligibility\<close> is \<open>Refused\<close>'s when it is not eligible;
  otherwise it is always the text \<^verbatim>\<open>all eligibility checks passed\<close>.\<close>

definition check_eligibility :: "bool \<Rightarrow> bool \<Rightarrow> bool \<Rightarrow> bool \<Rightarrow> outcome" where
  "check_eligibility packetDeterministic executorAvailable grantActive sameWorktreeWriterActive =
     (if \<not> packetDeterministic then Refused ''packet is not deterministic''
      else if \<not> executorAvailable then Refused ''no executor available''
      else if \<not> grantActive then Refused ''no active grant for workspace''
      else if sameWorktreeWriterActive then Refused ''another writer is active in the same worktree''
      else Accepted)"

definition existing_active :: "delegation_store \<Rightarrow> delegation \<Rightarrow> delegation option" where
  "existing_active s x =
     List.find (\<lambda>d. dl_workspaceId d = dl_workspaceId x \<and> dl_isolation d = DelUnisolated
                    \<and> dl_state d \<in> {DelSubmitted, DelRunning}) (jm_values (ds_delegations s))"

definition create_delegation ::
  "delegation validator \<Rightarrow> delegation_store \<Rightarrow> delegation \<Rightarrow> delegation_store \<times> outcome" where
  "create_delegation ajv s d =
     (case ajv d of
        Some errs \<Rightarrow> (s, Refused (''invalid delegation: '' @ join '', '' errs))
      | None \<Rightarrow>
          if jm_has (ds_delegations s) (dl_delegationId d)
          then (s, Refused ''delegation id already exists'')
          else if existing_active s d \<noteq> None \<and> dl_isolation d = DelUnisolated
          then (s, Refused ''another active delegation exists for this workspace without isolation'')
          else (s\<lparr>ds_delegations := jm_set (dl_delegationId d) d (ds_delegations s)\<rparr>, Accepted))"

primrec valid_transitions :: "delegation_state \<Rightarrow> delegation_state list" where
  "valid_transitions DelPending = [DelSubmitted, DelCancelled]"
| "valid_transitions DelSubmitted = [DelRunning, DelFailed, DelCancelled]"
| "valid_transitions DelRunning = [DelCompleted, DelFailed, DelCancelled]"
| "valid_transitions DelCompleted = [DelReconciling]"
| "valid_transitions DelFailed = []"
| "valid_transitions DelCancelled = []"
| "valid_transitions DelReconciling = [DelReconciled, DelFailed]"
| "valid_transitions DelReconciled = []"

definition moved_delegation :: "delegation \<Rightarrow> delegation_state \<Rightarrow> string \<Rightarrow> delegation" where
  "moved_delegation d new timestamp =
     d\<lparr>dl_state := new,
       dl_submittedAt := (if new = DelSubmitted then Some timestamp else dl_submittedAt d),
       dl_startedAt := (if new = DelRunning then Some timestamp else dl_startedAt d),
       dl_completedAt := (if new \<in> {DelCompleted, DelFailed, DelCancelled, DelReconciled}
                          then Some timestamp else dl_completedAt d)\<rparr>"

definition transition_delegation ::
  "delegation_store \<Rightarrow> string \<Rightarrow> delegation_state \<Rightarrow> string \<Rightarrow> delegation_store \<times> outcome" where
  "transition_delegation s i new timestamp =
     (case jm_get (ds_delegations s) i of
        None \<Rightarrow> (s, Refused ''delegation not found'')
      | Some d \<Rightarrow>
          if new \<notin> set (valid_transitions (dl_state d))
          then (s, Refused (''cannot transition from '' @ delegation_state_text (dl_state d)
                            @ '' to '' @ delegation_state_text new))
          else (s\<lparr>ds_delegations := jm_set i (moved_delegation d new timestamp) (ds_delegations s)\<rparr>, Accepted))"

definition cancel_delegation :: "delegation_store \<Rightarrow> string \<Rightarrow> string \<Rightarrow> delegation_store \<times> outcome" where
  "cancel_delegation s i timestamp =
     (case jm_get (ds_delegations s) i of
        None \<Rightarrow> (s, Refused ''delegation not found'')
      | Some d \<Rightarrow>
          if dl_state d \<in> {DelCompleted, DelFailed, DelCancelled, DelReconciled}
          then (s, Refused (''delegation already terminal: '' @ delegation_state_text (dl_state d)))
          else transition_delegation s i DelCancelled timestamp)"

definition record_reconciliation ::
  "delegation_store \<Rightarrow> reconciliation_result \<Rightarrow> delegation_store \<times> outcome" where
  "record_reconciliation s r =
     (case jm_get (ds_delegations s) (rr_delegationId r) of
        None \<Rightarrow> (s, Refused ''delegation not found'')
      | Some d \<Rightarrow>
          if dl_state d \<noteq> DelReconciling
          then (s, Refused (''delegation must be reconciling, is '' @ delegation_state_text (dl_state d)))
          else (s\<lparr>ds_reconciliations := jm_set (rr_delegationId r) r (ds_reconciliations s)\<rparr>, Accepted))"

definition list_active_delegations :: "delegation_store \<Rightarrow> string option \<Rightarrow> delegation list" where
  "list_active_delegations s w =
     filter (\<lambda>d. (truthy w \<longrightarrow> Some (dl_workspaceId d) = w)
                 \<and> dl_state d \<in> {DelPending, DelSubmitted, DelRunning, DelReconciling})
       (jm_values (ds_delegations s))"

section \<open>The store as a machine\<close>

datatype delegation_op =
    DelCreate delegation
  | DelMove string delegation_state string
  | DelCancel string string
  | DelReconcile reconciliation_result

fun delegation_call ::
  "delegation validator \<Rightarrow> delegation_store \<Rightarrow> delegation_op \<Rightarrow> delegation_store \<times> outcome" where
  "delegation_call ajv s (DelCreate d) = create_delegation ajv s d"
| "delegation_call ajv s (DelMove i new t) = transition_delegation s i new t"
| "delegation_call ajv s (DelCancel i t) = cancel_delegation s i t"
| "delegation_call ajv s (DelReconcile r) = record_reconciliation s r"

definition delegation_step ::
  "delegation validator \<Rightarrow> delegation_store \<Rightarrow> delegation_op \<Rightarrow> delegation_store" where
  "delegation_step ajv s a = fst (delegation_call ajv s a)"

text \<open>How many calls of a history changed the state of one delegation.\<close>

fun moves :: "string \<Rightarrow> delegation_op \<Rightarrow> bool" where
  "moves i (DelMove j new t) = (i = j)"
| "moves i (DelCancel j t) = (i = j)"
| "moves i a = False"

primrec accepted_moves ::
  "delegation validator \<Rightarrow> string \<Rightarrow> delegation_store \<Rightarrow> delegation_op list \<Rightarrow> nat" where
  "accepted_moves ajv i s [] = 0"
| "accepted_moves ajv i s (a # as) =
     (if moves i a \<and> accepted (snd (delegation_call ajv s a)) then 1 else 0)
     + accepted_moves ajv i (delegation_step ajv s a) as"

text \<open>The longest way from a state to the end of the table.\<close>

primrec moves_left :: "delegation_state \<Rightarrow> nat" where
  "moves_left DelPending = 5"
| "moves_left DelSubmitted = 4"
| "moves_left DelRunning = 3"
| "moves_left DelCompleted = 2"
| "moves_left DelReconciling = 1"
| "moves_left DelFailed = 0"
| "moves_left DelCancelled = 0"
| "moves_left DelReconciled = 0"

text \<open>What no operation changes of a delegation.\<close>

definition same_delegation :: "delegation \<Rightarrow> delegation \<Rightarrow> bool" where
  "same_delegation d e \<longleftrightarrow>
     e = d\<lparr>dl_state := dl_state e, dl_submittedAt := dl_submittedAt e, dl_startedAt := dl_startedAt e,
           dl_completedAt := dl_completedAt e\<rparr>"

lemma same_delegation_refl [simp]: "same_delegation d d"
  by (simp add: same_delegation_def)

lemma same_delegation_trans: "same_delegation d e \<Longrightarrow> same_delegation e f \<Longrightarrow> same_delegation d f"
  unfolding same_delegation_def by (cases d; cases e; cases f) simp

lemma moved_same [simp]: "same_delegation d (moved_delegation d new t)"
  by (simp add: same_delegation_def moved_delegation_def)

lemma moved_state [simp]: "dl_state (moved_delegation d new t) = new"
  by (simp add: moved_delegation_def)

lemma moved_id [simp]: "dl_delegationId (moved_delegation d new t) = dl_delegationId d"
  by (simp add: moved_delegation_def)

lemma transition_descends: "new \<in> set (valid_transitions q) \<Longrightarrow> Suc (moves_left new) \<le> moves_left q"
  by (cases q) auto

lemma moves_left_le: "moves_left q \<le> 5"
  by (cases q) simp_all

lemma transition_at:
  assumes "jm_get (ds_delegations s) i = Some d"
  shows "transition_delegation s i new t =
     (if new \<in> set (valid_transitions (dl_state d))
      then (s\<lparr>ds_delegations := jm_set i (moved_delegation d new t) (ds_delegations s)\<rparr>, Accepted)
      else (s, Refused (''cannot transition from '' @ delegation_state_text (dl_state d)
                        @ '' to '' @ delegation_state_text new)))"
  by (simp add: transition_delegation_def assms)

lemma transition_refused:
  "snd (transition_delegation s i new t) \<noteq> Accepted \<Longrightarrow> fst (transition_delegation s i new t) = s"
  by (auto simp: transition_delegation_def split: option.splits if_splits)

lemma transition_other:
  "j \<noteq> i \<Longrightarrow> jm_get (ds_delegations (fst (transition_delegation s i new t))) j = jm_get (ds_delegations s) j"
  by (auto simp: transition_delegation_def jm_laws split: option.split)

text \<open>A cancellation is the transition to \<^verbatim>\<open>cancelled\<close> or changes nothing.\<close>

lemma cancel_cases:
  obtains "cancel_delegation s i t = transition_delegation s i DelCancelled t"
  | r where "cancel_delegation s i t = (s, Refused r)"
proof (cases "cancel_delegation s i t = transition_delegation s i DelCancelled t")
  case False
  then obtain r where "cancel_delegation s i t = (s, Refused r)"
    by (auto simp: cancel_delegation_def transition_delegation_def split: option.splits if_splits)
  then show ?thesis by (rule that(2))
qed (rule that(1))

text \<open>One call at the delegation of one id: its place in the table only moves forward.\<close>

definition moved_by :: "bool \<Rightarrow> delegation \<Rightarrow> delegation \<Rightarrow> bool" where
  "moved_by m d e \<longleftrightarrow>
     same_delegation d e \<and> (m \<longrightarrow> Suc (moves_left (dl_state e)) \<le> moves_left (dl_state d)) \<and> (\<not> m \<longrightarrow> e = d)"

lemma transition_moved_by:
  assumes "jm_get (ds_delegations s) i = Some d"
  shows "\<exists>e. jm_get (ds_delegations (fst (transition_delegation s i new t))) i = Some e
           \<and> moved_by (accepted (snd (transition_delegation s i new t))) d e"
  using assms transition_descends [of new "dl_state d"]
  by (simp add: transition_at moved_by_def jm_laws)

lemma call_moved_by:
  assumes "jm_get (ds_delegations s) i = Some d"
  shows "\<exists>e. jm_get (ds_delegations (delegation_step ajv s a)) i = Some e
           \<and> moved_by (moves i a \<and> accepted (snd (delegation_call ajv s a))) d e"
proof (cases a)
  case (DelCreate x)
  have "jm_get (ds_delegations (fst (create_delegation ajv s x))) i = Some d"
    using assms by (auto simp: create_delegation_def jm_laws jm_has_def split: option.split)
  with DelCreate show ?thesis by (simp add: delegation_step_def moved_by_def)
next
  case (DelReconcile r)
  have "ds_delegations (fst (record_reconciliation s r)) = ds_delegations s"
    by (simp add: record_reconciliation_def split: option.split)
  with DelReconcile assms show ?thesis by (simp add: delegation_step_def moved_by_def)
next
  case (DelMove j new t)
  show ?thesis
  proof (cases "i = j")
    case True
    with DelMove transition_moved_by [OF assms, of new t] show ?thesis by (simp add: delegation_step_def)
  next
    case False
    with DelMove assms show ?thesis by (simp add: delegation_step_def transition_other moved_by_def)
  qed
next
  case (DelCancel j t)
  show ?thesis
  proof (rule cancel_cases [of s j t])
    assume c: "cancel_delegation s j t = transition_delegation s j DelCancelled t"
    show ?thesis
    proof (cases "i = j")
      case True
      with DelCancel c transition_moved_by [OF assms, of DelCancelled t] show ?thesis
        by (simp add: delegation_step_def)
    next
      case False
      with DelCancel c assms show ?thesis by (simp add: delegation_step_def transition_other moved_by_def)
    qed
  next
    fix r assume "cancel_delegation s j t = (s, Refused r)"
    with DelCancel assms show ?thesis by (simp add: delegation_step_def moved_by_def)
  qed
qed

text \<open>Entries stay under their own id, and a result belongs to a delegation that has come as far
  as its reconciliation.\<close>

definition reconciled_far :: "delegation_state \<Rightarrow> bool" where
  "reconciled_far q = (q \<in> {DelReconciling, DelReconciled, DelFailed})"

definition far_at :: "delegation_store \<Rightarrow> string \<Rightarrow> bool" where
  "far_at s i = (case jm_get (ds_delegations s) i of None \<Rightarrow> False | Some d \<Rightarrow> reconciled_far (dl_state d))"

definition delegation_inv :: "delegation_store \<Rightarrow> bool" where
  "delegation_inv s \<longleftrightarrow>
     jm_wf (ds_delegations s) \<and> jm_wf (ds_reconciliations s)
     \<and> jm.entries (\<lambda>i d. dl_delegationId d = i) (ds_delegations s)
     \<and> jm.entries (\<lambda>i r. rr_delegationId r = i \<and> far_at s i) (ds_reconciliations s)"

lemma delegation_inv_result:
  "delegation_inv s \<Longrightarrow> jm_get (ds_reconciliations s) i = Some r \<Longrightarrow> rr_delegationId r = i \<and> far_at s i"
  by (simp add: delegation_inv_def jm.entries_def)

text \<open>The invariant after a call that stores one delegation, or one result.\<close>

lemma delegation_inv_put:
  assumes "delegation_inv s" "dl_delegationId d = i" "far_at s i \<Longrightarrow> reconciled_far (dl_state d)"
  shows "delegation_inv (s\<lparr>ds_delegations := jm_set i d (ds_delegations s)\<rparr>)" (is "delegation_inv ?s")
proof -
  have "far_at ?s k" if "far_at s k" for k
    using that assms(3) by (cases "k = i") (simp_all add: far_at_def jm_laws)
  then have "jm.entries (\<lambda>i r. rr_delegationId r = i \<and> far_at ?s i) (ds_reconciliations s)"
    using delegation_inv_result [OF assms(1)] by (simp add: jm.entries_def)
  moreover have "jm.entries (\<lambda>i d. dl_delegationId d = i) (jm_set i d (ds_delegations s))"
    using assms(1,2) by (intro jm.entries_put) (simp_all add: delegation_inv_def)
  ultimately show ?thesis using assms(1) by (simp add: delegation_inv_def jm.wf_put)
qed

lemma delegation_inv_result_put:
  assumes "delegation_inv s" "far_at s (rr_delegationId r)"
  shows "delegation_inv (s\<lparr>ds_reconciliations := jm_set (rr_delegationId r) r (ds_reconciliations s)\<rparr>)"
proof -
  have far: "far_at (s\<lparr>ds_reconciliations := m\<rparr>) = far_at s" for m by (simp add: far_at_def fun_eq_iff)
  have "jm.entries (\<lambda>i r. rr_delegationId r = i \<and> far_at s i) (jm_set (rr_delegationId r) r (ds_reconciliations s))"
    using assms by (intro jm.entries_put) (simp_all add: delegation_inv_def)
  with assms(1) show ?thesis by (simp add: delegation_inv_def jm.wf_put far)
qed

lemma delegation_inv_empty: "delegation_inv create_delegation_store"
  by (simp add: delegation_inv_def create_delegation_store_def jm.entries_def)

lemma transition_reconciled_far:
  "reconciled_far q \<Longrightarrow> new \<in> set (valid_transitions q) \<Longrightarrow> reconciled_far new"
  by (cases q) (auto simp: reconciled_far_def)

lemma delegation_inv_transition:
  assumes "delegation_inv s"
  shows "delegation_inv (fst (transition_delegation s i new t))"
proof (cases "snd (transition_delegation s i new t) = Accepted")
  case False
  with assms show ?thesis by (simp add: transition_refused)
next
  case True
  then obtain d where d: "jm_get (ds_delegations s) i = Some d" "new \<in> set (valid_transitions (dl_state d))"
    and s': "fst (transition_delegation s i new t)
      = s\<lparr>ds_delegations := jm_set i (moved_delegation d new t) (ds_delegations s)\<rparr>"
    by (auto simp: transition_delegation_def split: option.splits if_splits)
  have "dl_delegationId d = i" using assms d(1) by (simp add: delegation_inv_def jm.entries_def)
  then show ?thesis
    unfolding s'
    by (intro delegation_inv_put assms) (simp_all add: far_at_def d transition_reconciled_far [OF _ d(2)])
qed

lemma delegation_inv_step:
  assumes "delegation_inv s"
  shows "delegation_inv (delegation_step ajv s a)"
proof (cases a)
  case (DelCreate x)
  have "delegation_inv (s\<lparr>ds_delegations := jm_set (dl_delegationId x) x (ds_delegations s)\<rparr>)"
    if "\<not> jm_has (ds_delegations s) (dl_delegationId x)"
    using that by (intro delegation_inv_put assms) (simp_all add: far_at_def jm_has_def)
  then have "delegation_inv (fst (create_delegation ajv s x))"
    using assms by (simp add: create_delegation_def split: option.split)
  with DelCreate show ?thesis by (simp add: delegation_step_def)
next
  case (DelMove j new t)
  with delegation_inv_transition [OF assms] show ?thesis by (simp add: delegation_step_def)
next
  case (DelCancel j t)
  show ?thesis
    by (rule cancel_cases [of s j t])
       (use DelCancel assms delegation_inv_transition [OF assms] in \<open>simp_all add: delegation_step_def\<close>)
next
  case (DelReconcile r)
  have "delegation_inv (fst (record_reconciliation s r))"
  proof (cases "fst (record_reconciliation s r) = s")
    case False
    then have "fst (record_reconciliation s r)
        = s\<lparr>ds_reconciliations := jm_set (rr_delegationId r) r (ds_reconciliations s)\<rparr>"
      and "far_at s (rr_delegationId r)"
      by (auto simp: record_reconciliation_def far_at_def reconciled_far_def split: option.splits if_splits)
    with assms show ?thesis by (simp add: delegation_inv_result_put)
  qed (simp add: assms)
  with DelReconcile show ?thesis by (simp add: delegation_step_def)
qed

interpretation delegations: op_machine "delegation_step ajv" delegation_inv
  by unfold_locales (rule delegation_inv_step)

section \<open>Properties\<close>

text \<open>
  C20. A delegation settles: whatever calls follow, for any delegation and from any store, it
  stays on file with all it was created with, at most five calls ever change its state, each of
  them takes it nearer to the end of the table, without one it is exactly as it was, and once it
  is failed, cancelled or reconciled nothing changes it any more.
\<close>

theorem delegation_settles:
  assumes "jm_get (ds_delegations s) i = Some d"
  shows "\<exists>e. jm_get (ds_delegations (foldl (delegation_step ajv) s calls)) i = Some e
           \<and> same_delegation d e
           \<and> accepted_moves ajv i s calls \<le> 5
           \<and> accepted_moves ajv i s calls + moves_left (dl_state e) \<le> moves_left (dl_state d)
           \<and> (accepted_moves ajv i s calls = 0 \<or> dl_state d \<in> {DelFailed, DelCancelled, DelReconciled} \<longrightarrow> e = d)"
proof -
  have "\<exists>e. jm_get (ds_delegations (foldl (delegation_step ajv) s calls)) i = Some e
           \<and> same_delegation d e
           \<and> accepted_moves ajv i s calls + moves_left (dl_state e) \<le> moves_left (dl_state d)
           \<and> (accepted_moves ajv i s calls = 0 \<longrightarrow> e = d)"
    using assms
  proof (induction calls arbitrary: s d)
    case (Cons a calls)
    let ?m = "moves i a \<and> accepted (snd (delegation_call ajv s a))"
    from call_moved_by [OF Cons.prems, of ajv a]
    obtain e where e: "jm_get (ds_delegations (delegation_step ajv s a)) i = Some e" "moved_by ?m d e" by blast
    from Cons.IH [OF e(1)] obtain f where
      f: "jm_get (ds_delegations (foldl (delegation_step ajv) (delegation_step ajv s a) calls)) i = Some f"
        "same_delegation e f"
        "accepted_moves ajv i (delegation_step ajv s a) calls + moves_left (dl_state f) \<le> moves_left (dl_state e)"
        "accepted_moves ajv i (delegation_step ajv s a) calls = 0 \<longrightarrow> f = e"
      by (elim exE conjE) (rule that)
    have "same_delegation d e" using e(2) by (simp add: moved_by_def)
    then have "same_delegation d f" using f(2) by (rule same_delegation_trans)
    moreover have "(if ?m then 1 else 0) + moves_left (dl_state e) \<le> moves_left (dl_state d)"
      using e(2) by (cases ?m) (simp_all add: moved_by_def)
    then have "accepted_moves ajv i s (a # calls) + moves_left (dl_state f) \<le> moves_left (dl_state d)"
      using f(3) by (simp only: accepted_moves.simps)
    moreover have "f = d" if "accepted_moves ajv i s (a # calls) = 0"
    proof -
      from that have "\<not> ?m" "accepted_moves ajv i (delegation_step ajv s a) calls = 0"
        by (simp_all split: if_splits)
      then show ?thesis using e(2) f(4) by (simp add: moved_by_def)
    qed
    ultimately show ?case using f(1) by (intro exI [of _ f]) simp
  qed simp
  then obtain e where e: "jm_get (ds_delegations (foldl (delegation_step ajv) s calls)) i = Some e"
    "same_delegation d e" "accepted_moves ajv i s calls + moves_left (dl_state e) \<le> moves_left (dl_state d)"
    "accepted_moves ajv i s calls = 0 \<longrightarrow> e = d"
    by (elim exE conjE) (rule that)
  moreover have "accepted_moves ajv i s calls = 0" if "dl_state d \<in> {DelFailed, DelCancelled, DelReconciled}"
    using e(3) that by auto
  ultimately show ?thesis using moves_left_le [of "dl_state d"] by (intro exI [of _ e]) auto
qed

definition sample_delegation :: "string \<Rightarrow> delegation" where
  "sample_delegation i =
     \<lparr>dl_delegationId = i, dl_runId = ''r'', dl_packetId = ''p'', dl_workspaceId = ''w'',
      dl_executorId = ''x'', dl_state = DelPending, dl_isolation = DelUnisolated, dl_worktreePath = None,
      dl_branchName = None, dl_expectedHead = None, dl_grantId = ''g'', dl_submittedAt = None,
      dl_startedAt = None, dl_completedAt = None, dl_createdAt = ''t0''\<rparr>"

definition sample_delegations :: delegation_store where
  "sample_delegations =
     fst (create_delegation (schema_validator delegation_schema) create_delegation_store (sample_delegation ''d''))"

lemma sample_delegations_get: "jm_get (ds_delegations sample_delegations) ''d'' = Some (sample_delegation ''d'')"
  by code_simp

theorem delegation_settles_witness:
  "let ajv = schema_validator delegation_schema; s = sample_delegations; d = sample_delegation ''d'';
       calls = [DelMove ''d'' DelSubmitted ''t1'', DelMove ''d'' DelReconciled ''t2'', DelCancel ''d'' ''t3'']
   in accepted_moves ajv ''d'' s calls = 2
      \<and> (\<exists>e. jm_get (ds_delegations (foldl (delegation_step ajv) s calls)) ''d'' = Some e
           \<and> same_delegation d e
           \<and> accepted_moves ajv ''d'' s calls \<le> 5
           \<and> accepted_moves ajv ''d'' s calls + moves_left (dl_state e) \<le> moves_left (dl_state d)
           \<and> (accepted_moves ajv ''d'' s calls = 0 \<or> dl_state d \<in> {DelFailed, DelCancelled, DelReconciled} \<longrightarrow> e = d))"
  unfolding Let_def
proof (rule conjI)
  show "accepted_moves (schema_validator delegation_schema) ''d'' sample_delegations
      [DelMove ''d'' DelSubmitted ''t1'', DelMove ''d'' DelReconciled ''t2'', DelCancel ''d'' ''t3''] = 2"
    by code_simp
qed (rule delegation_settles [OF sample_delegations_get])

text \<open>A reconciliation is earned: in every store that calls have made from the empty one, a
  recorded result is on file under its own delegation, which exists and has come as far as its
  reconciliation: it is being reconciled, is reconciled, or failed. So a result is never on file
  for a delegation that is pending, submitted, running, merely completed, or cancelled.\<close>

lemma reconciliation_earned:
  assumes "s = foldl (delegation_step ajv) create_delegation_store calls"
    and "jm_get (ds_reconciliations s) i = Some r"
  shows "rr_delegationId r = i
     \<and> (\<exists>d. jm_get (ds_delegations s) i = Some d \<and> dl_delegationId d = i
            \<and> dl_state d \<in> {DelReconciling, DelReconciled, DelFailed})"
proof -
  have "delegation_inv s" unfolding assms(1) by (rule delegations.inv_run) (rule delegation_inv_empty)
  from delegation_inv_result [OF this assms(2)]
  have "rr_delegationId r = i" "far_at s i" by simp_all
  moreover obtain d where "jm_get (ds_delegations s) i = Some d" "reconciled_far (dl_state d)"
    using \<open>far_at s i\<close> by (auto simp: far_at_def split: option.splits)
  moreover have "dl_delegationId d = i"
    using \<open>delegation_inv s\<close> calculation(3) by (simp add: delegation_inv_def jm.entries_def)
  ultimately show ?thesis by (auto simp: reconciled_far_def)
qed

text \<open>The rule that one workspace has only one active delegation without isolation is checked when
  a delegation is created, against those already submitted or running: two that are created
  while both are pending are both run.\<close>

lemma unisolated_delegations_overlap:
  "let ajv = schema_validator delegation_schema;
       s = foldl (delegation_step ajv) create_delegation_store
             [DelCreate (sample_delegation ''d''), DelCreate (sample_delegation ''e''),
              DelMove ''d'' DelSubmitted ''t1'', DelMove ''e'' DelSubmitted ''t1'',
              DelMove ''d'' DelRunning ''t2'', DelMove ''e'' DelRunning ''t2'']
   in map (\<lambda>d. (dl_workspaceId d, dl_isolation d, dl_state d)) (list_active_delegations s None)
        = [(''w'', DelUnisolated, DelRunning), (''w'', DelUnisolated, DelRunning)]"
  by code_simp

end
