(* ===== verification/Repair_State.thy ===== *)
theory Repair_State
  imports Js_Prelude
begin

text \<open>
  \<^verbatim>\<open>packages/cli/src/agent/workbench-repair-state.ts\<close>: the file that limits the automatic repair of
  the tasks of a run to one attempt. Every operation reads the file, drops the entries it
  cannot use, changes the entry of one run and task and writes the newest 500 back through a
  rename; nothing is locked. A file that cannot be read counts as empty.

  The file holds typed entries (the checks of \<^verbatim>\<open>normalizeState\<close> on the JSON types are those of
  the record's types), \<open>None\<close> stands for an absent file. \<open>cmp\<close> is \<^verbatim>\<open>localeCompare\<close>; the
  environment of one call is whether the file can be read and parsed, the text of
  \<^verbatim>\<open>new Date().toISOString()\<close> and whether the new file is written and renamed.
\<close>

section \<open>Data\<close>

datatype repair_status = RepairEligible | RepairAccepted | RepairExhausted | RepairCleared

record repair_state =
  rp_runId :: string
  rp_taskId :: string
  rp_failedPacketId :: string
  rp_attemptCount :: int
  rp_status :: repair_status
  rp_updatedAt :: string
  rp_acceptedRepairPacketId :: "string option"
  rp_lastFailurePacketId :: "string option"

type_synonym repair_file = "repair_state list option"

record repair_env =
  re_readable :: bool
  re_now :: string
  re_written :: bool

definition max_automatic_repair_attempts :: int where
  "max_automatic_repair_attempts = 1"

definition max_repair_states :: nat where
  "max_repair_states = 500"

section \<open>Reading and writing\<close>

definition usable_repair :: "repair_state \<Rightarrow> bool" where
  "usable_repair x = (trim (rp_runId x) \<noteq> [] \<and> trim (rp_taskId x) \<noteq> [] \<and> trim (rp_failedPacketId x) \<noteq> [])"

definition normalize_repair :: "repair_state \<Rightarrow> repair_state" where
  "normalize_repair x =
     (let n = max 0 (rp_attemptCount x)
      in x\<lparr>rp_attemptCount := n,
           rp_status := (if max_automatic_repair_attempts \<le> n \<and> rp_status x = RepairEligible
                         then RepairExhausted else rp_status x)\<rparr>)"

definition read_repairs :: "repair_env \<Rightarrow> repair_file \<Rightarrow> repair_state list" where
  "read_repairs env f =
     (case f of
        None \<Rightarrow> []
      | Some xs \<Rightarrow>
          if re_readable env
          then slice_last max_repair_states (map normalize_repair (filter usable_repair xs)) else [])"

definition persist_repairs ::
  "(string \<Rightarrow> string \<Rightarrow> int) \<Rightarrow> repair_env \<Rightarrow> repair_file \<Rightarrow> repair_state list \<Rightarrow> repair_file \<times> bool" where
  "persist_repairs cmp env f xs =
     (if re_written env
      then (Some (slice_last max_repair_states (js_sort (\<lambda>a b. cmp (rp_updatedAt a) (rp_updatedAt b)) xs)), True)
      else (f, False))"

text \<open>\<^verbatim>\<open>stateIndex\<close> and the entry there; \<^verbatim>\<open>store.states[index] = state\<close>, or \<^verbatim>\<open>push\<close> without one.\<close>

definition repair_key :: "repair_state \<Rightarrow> string \<times> string" where
  "repair_key x = (rp_runId x, rp_taskId x)"

definition find_repair :: "string \<times> string \<Rightarrow> repair_state list \<Rightarrow> repair_state option" where
  "find_repair k xs = List.find (\<lambda>x. repair_key x = k) xs"

definition put_repair :: "repair_state \<Rightarrow> repair_state list \<Rightarrow> repair_state list" where
  "put_repair y xs =
     (if find_repair (repair_key y) xs = None then xs @ [y]
      else modify_first (\<lambda>x. repair_key x = repair_key y) (\<lambda>x. y) xs)"

section \<open>Operations\<close>

text \<open>An answer is \<open>Inl\<close> of the message of an error thrown, \<open>Inr\<close> of the result. A failed
  write throws what the file system reports.\<close>

type_synonym repair_answer = "string + repair_state option"

definition save_repair ::
  "(string \<Rightarrow> string \<Rightarrow> int) \<Rightarrow> repair_env \<Rightarrow> repair_file \<Rightarrow> repair_state list \<Rightarrow> repair_state
   \<Rightarrow> repair_file \<times> repair_answer" where
  "save_repair cmp env f xs y =
     (let (f', written) = persist_repairs cmp env f (put_repair y xs)
      in (f', if written then Inr (Some y) else Inl ''write failed''))"

definition get_repair_state :: "repair_env \<Rightarrow> repair_file \<Rightarrow> string \<Rightarrow> string \<Rightarrow> repair_state option" where
  "get_repair_state env f runId taskId = find_repair (runId, taskId) (read_repairs env f)"

definition previous_attempts :: "repair_state option \<Rightarrow> int" where
  "previous_attempts p = (case p of None \<Rightarrow> 0 | Some x \<Rightarrow> rp_attemptCount x)"

definition record_repair_eligibility ::
  "(string \<Rightarrow> string \<Rightarrow> int) \<Rightarrow> repair_env \<Rightarrow> repair_file \<Rightarrow> string \<Rightarrow> string \<Rightarrow> string
   \<Rightarrow> repair_file \<times> repair_answer" where
  "record_repair_eligibility cmp env f runId taskId failedPacketId =
     (let xs = read_repairs env f; previous = find_repair (runId, taskId) xs; n = previous_attempts previous
      in save_repair cmp env f xs
           \<lparr>rp_runId = runId, rp_taskId = taskId, rp_failedPacketId = failedPacketId, rp_attemptCount = n,
            rp_status = (if max_automatic_repair_attempts \<le> n then RepairExhausted else RepairEligible),
            rp_updatedAt = re_now env,
            rp_acceptedRepairPacketId = Option.bind previous rp_acceptedRepairPacketId,
            rp_lastFailurePacketId = Some failedPacketId\<rparr>)"

definition accept_repair_attempt ::
  "(string \<Rightarrow> string \<Rightarrow> int) \<Rightarrow> repair_env \<Rightarrow> repair_file \<Rightarrow> string \<Rightarrow> string \<Rightarrow> string \<Rightarrow> string
   \<Rightarrow> repair_file \<times> repair_answer" where
  "accept_repair_attempt cmp env f runId taskId failedPacketId repairPacketId =
     (let xs = read_repairs env f
      in case find_repair (runId, taskId) xs of
           None \<Rightarrow> (f, Inl ''Repair acceptance requires matching persisted failed packet state.'')
         | Some p \<Rightarrow>
             if rp_failedPacketId p \<noteq> failedPacketId
             then (f, Inl ''Repair acceptance requires matching persisted failed packet state.'')
             else if rp_status p \<noteq> RepairEligible \<or> max_automatic_repair_attempts \<le> rp_attemptCount p
             then (f, Inl ''Automatic repair attempt is not eligible for this task.'')
             else save_repair cmp env f xs
                    (p\<lparr>rp_attemptCount := rp_attemptCount p + 1, rp_status := RepairAccepted,
                       rp_acceptedRepairPacketId := Some repairPacketId, rp_updatedAt := re_now env\<rparr>))"

definition exhaust_repair_state ::
  "(string \<Rightarrow> string \<Rightarrow> int) \<Rightarrow> repair_env \<Rightarrow> repair_file \<Rightarrow> string \<Rightarrow> string \<Rightarrow> string
   \<Rightarrow> repair_file \<times> repair_answer" where
  "exhaust_repair_state cmp env f runId taskId failedPacketId =
     (let xs = read_repairs env f; previous = find_repair (runId, taskId) xs
      in save_repair cmp env f xs
           \<lparr>rp_runId = runId, rp_taskId = taskId, rp_failedPacketId = failedPacketId,
            rp_attemptCount = max max_automatic_repair_attempts (previous_attempts previous),
            rp_status = RepairExhausted, rp_updatedAt = re_now env,
            rp_acceptedRepairPacketId = Option.bind previous rp_acceptedRepairPacketId,
            rp_lastFailurePacketId = Some failedPacketId\<rparr>)"

definition clear_repair_state ::
  "(string \<Rightarrow> string \<Rightarrow> int) \<Rightarrow> repair_env \<Rightarrow> repair_file \<Rightarrow> string \<Rightarrow> string \<Rightarrow> repair_file \<times> repair_answer" where
  "clear_repair_state cmp env f runId taskId =
     (let xs = read_repairs env f
      in case find_repair (runId, taskId) xs of
           None \<Rightarrow> (f, Inr None)
         | Some p \<Rightarrow> save_repair cmp env f xs (p\<lparr>rp_status := RepairCleared, rp_updatedAt := re_now env\<rparr>))"

section \<open>Histories\<close>

datatype repair_op =
    RecordRepair string string string
  | AcceptRepair string string string string
  | ExhaustRepair string string string
  | ClearRepair string string

fun repair_call ::
  "(string \<Rightarrow> string \<Rightarrow> int) \<Rightarrow> repair_env \<Rightarrow> repair_file \<Rightarrow> repair_op \<Rightarrow> repair_file \<times> repair_answer" where
  "repair_call cmp env f (RecordRepair r t p) = record_repair_eligibility cmp env f r t p"
| "repair_call cmp env f (AcceptRepair r t p q) = accept_repair_attempt cmp env f r t p q"
| "repair_call cmp env f (ExhaustRepair r t p) = exhaust_repair_state cmp env f r t p"
| "repair_call cmp env f (ClearRepair r t) = clear_repair_state cmp env f r t"

definition repair_file_step ::
  "(string \<Rightarrow> string \<Rightarrow> int) \<Rightarrow> repair_file \<Rightarrow> repair_env \<times> repair_op \<Rightarrow> repair_file" where
  "repair_file_step cmp f a = fst (repair_call cmp (fst a) f (snd a))"

text \<open>The acceptances of repairs of one run and task that a history answered with success.\<close>

fun accepts_repair :: "string \<times> string \<Rightarrow> repair_op \<Rightarrow> bool" where
  "accepts_repair k (AcceptRepair r t p q) = ((r, t) = k)"
| "accepts_repair k a = False"

primrec repairs_accepted ::
  "(string \<Rightarrow> string \<Rightarrow> int) \<Rightarrow> string \<times> string \<Rightarrow> repair_file \<Rightarrow> (repair_env \<times> repair_op) list \<Rightarrow> nat" where
  "repairs_accepted cmp k f [] = 0"
| "repairs_accepted cmp k f (a # as) =
     (if accepts_repair k (snd a) \<and> isl (snd (repair_call cmp (fst a) f (snd a))) = False then 1 else 0)
     + repairs_accepted cmp k (repair_file_step cmp f a) as"

text \<open>What a history must respect: the file can be read at every call, and a failed packet that is
  recorded has a name. The runs and tasks it enters into the file.\<close>

fun names_packet :: "repair_op \<Rightarrow> bool" where
  "names_packet (RecordRepair r t p) = (trim p \<noteq> [])"
| "names_packet (ExhaustRepair r t p) = (trim p \<noteq> [])"
| "names_packet a = True"

fun entered :: "repair_op \<Rightarrow> (string \<times> string) set" where
  "entered (RecordRepair r t p) = {(r, t)}"
| "entered (ExhaustRepair r t p) = {(r, t)}"
| "entered a = {}"

definition respected :: "repair_env \<times> repair_op \<Rightarrow> bool" where
  "respected a = (re_readable (fst a) \<and> names_packet (snd a))"

section \<open>One attempt for each task\<close>

definition repairs_of :: "repair_file \<Rightarrow> repair_state list" where
  "repairs_of f = (case f of None \<Rightarrow> [] | Some xs \<Rightarrow> xs)"

definition repair_file_ok :: "(string \<times> string) set \<Rightarrow> repair_state list \<Rightarrow> bool" where
  "repair_file_ok S xs = (distinct (map repair_key xs) \<and> repair_key ` set xs \<subseteq> S)"

definition repair_spent :: "string \<times> string \<Rightarrow> repair_state list \<Rightarrow> bool" where
  "repair_spent k xs = (\<exists>x \<in> set xs. repair_key x = k \<and> usable_repair x \<and> 1 \<le> rp_attemptCount x)"

lemma normalize_key [simp]: "repair_key (normalize_repair x) = repair_key x"
  by (simp add: normalize_repair_def repair_key_def Let_def)

lemma normalize_usable [simp]: "usable_repair (normalize_repair x) = usable_repair x"
  by (simp add: normalize_repair_def usable_repair_def Let_def)

lemma normalize_count [simp]: "rp_attemptCount (normalize_repair x) = max 0 (rp_attemptCount x)"
  by (simp add: normalize_repair_def Let_def)

lemma repair_file_length:
  assumes "repair_file_ok S xs" "finite S" "card S \<le> 500"
  shows "length xs \<le> 500"
proof -
  have "length xs = card (repair_key ` set xs)"
    using assms(1) by (metis repair_file_ok_def distinct_card length_map set_map)
  also have "\<dots> \<le> card S" using assms by (intro card_mono) (auto simp: repair_file_ok_def)
  finally show ?thesis using assms(3) by simp
qed

lemma read_repairs_ok:
  assumes "repair_file_ok S (repairs_of f)" "finite S" "card S \<le> 500" "re_readable env"
  shows "read_repairs env f = map normalize_repair (filter usable_repair (repairs_of f))"
proof -
  have "length (filter usable_repair (repairs_of f)) \<le> 500"
    using repair_file_length [OF assms(1-3)] length_filter_le le_trans by blast
  then show ?thesis
    using assms(4)
    by (cases f) (simp_all add: read_repairs_def repairs_of_def max_repair_states_def slice_last_id)
qed

lemma read_file_ok:
  assumes "repair_file_ok S (repairs_of f)" "finite S" "card S \<le> 500" "re_readable env"
  shows "repair_file_ok S (read_repairs env f)"
  unfolding read_repairs_ok [OF assms]
  using assms(1) by (auto simp: repair_file_ok_def comp_def intro: distinct_map_filter)

lemma find_repair_Some:
  "find_repair k xs = Some x \<Longrightarrow> x \<in> set xs \<and> repair_key x = k"
  by (auto simp: find_repair_def dest: find_Some_iff_in)

lemma put_repair_ok:
  assumes "repair_file_ok S xs" "repair_key y \<in> S"
  shows "repair_file_ok S (put_repair y xs)"
    "set (put_repair y xs) = insert y {x \<in> set xs. repair_key x \<noteq> repair_key y}"
proof -
  have "repair_file_ok S (put_repair y xs)
      \<and> set (put_repair y xs) = insert y {x \<in> set xs. repair_key x \<noteq> repair_key y}"
  proof (cases "find_repair (repair_key y) xs")
    case None
    then have "\<forall>x \<in> set xs. repair_key x \<noteq> repair_key y" by (auto simp: find_repair_def find_None_iff)
    with None assms show ?thesis by (auto simp: put_repair_def repair_file_ok_def)
  next
    case (Some x)
    then have put: "put_repair y xs = modify_first (\<lambda>x. repair_key x = repair_key y) (\<lambda>x. y) xs"
      by (simp add: put_repair_def)
    have dist: "distinct (map repair_key xs)" and keys: "repair_key ` set xs \<subseteq> S"
      using assms(1) by (simp_all add: repair_file_ok_def)
    note find = Some [unfolded find_repair_def]
    have "set (put_repair y xs) = insert y {x \<in> set xs. repair_key x \<noteq> repair_key y}"
      unfolding put by (rule set_modify_first_keyed [OF dist find]) simp
    moreover have "map repair_key (put_repair y xs) = map repair_key xs"
      unfolding put by (rule map_modify_first_keyed [OF find]) simp
    ultimately show ?thesis using dist keys assms(2) by (auto simp: repair_file_ok_def)
  qed
  then show "repair_file_ok S (put_repair y xs)"
    "set (put_repair y xs) = insert y {x \<in> set xs. repair_key x \<noteq> repair_key y}" by simp_all
qed

lemma save_repair_cases:
  assumes "repair_file_ok S xs" "repair_key y \<in> S" "finite S" "card S \<le> 500"
  obtains "save_repair cmp env f xs y = (f, Inl ''write failed'')"
  | zs where "save_repair cmp env f xs y = (Some zs, Inr (Some y))" "repair_file_ok S zs"
      "set zs = insert y {x \<in> set xs. repair_key x \<noteq> repair_key y}"
proof (cases "re_written env")
  case False
  then show ?thesis by (intro that(1)) (simp add: save_repair_def persist_repairs_def)
next
  case True
  let ?zs = "js_sort (\<lambda>a b. cmp (rp_updatedAt a) (rp_updatedAt b)) (put_repair y xs)"
  have ok: "repair_file_ok S ?zs"
    using put_repair_ok(1) [OF assms(1,2)] by (simp add: repair_file_ok_def distinct_js_sort)
  have "slice_last max_repair_states ?zs = ?zs"
    using repair_file_length [OF ok assms(3,4)] by (simp add: slice_last_id max_repair_states_def)
  then have "save_repair cmp env f xs y = (Some ?zs, Inr (Some y))"
    using True by (simp add: save_repair_def persist_repairs_def)
  then show ?thesis by (rule that(2)) (simp_all add: ok put_repair_ok(2) [OF assms(1,2)])
qed

text \<open>What a call writes for its run and task, in view of the entry it found there.\<close>

definition repair_entry ::
  "(string \<times> string) set \<Rightarrow> repair_state list \<Rightarrow> repair_op \<Rightarrow> repair_state \<Rightarrow> bool" where
  "repair_entry S xs a y \<longleftrightarrow>
     repair_key y \<in> S
     \<and> (\<forall>p. find_repair (repair_key y) xs = Some p \<longrightarrow>
           usable_repair y \<and> rp_attemptCount p \<le> rp_attemptCount y)
     \<and> (\<forall>k. accepts_repair k a \<longrightarrow>
           repair_key y = k \<and> (\<exists>p. find_repair k xs = Some p \<and> 0 \<le> rp_attemptCount p
                               \<and> rp_attemptCount p < 1 \<and> rp_attemptCount y = rp_attemptCount p + 1))"

lemma repair_call_cases:
  assumes "repair_file_ok S (read_repairs env f)" "names_packet a" "entered a \<subseteq> S"
    and usable: "\<And>x. x \<in> set (read_repairs env f) \<Longrightarrow> usable_repair x \<and> 0 \<le> rp_attemptCount x"
  obtains r where "repair_call cmp env f a = (f, r)" "\<And>k. accepts_repair k a \<Longrightarrow> isl r"
  | y where "repair_call cmp env f a = save_repair cmp env f (read_repairs env f) y"
      "repair_entry S (read_repairs env f) a y"
proof -
  let ?xs = "read_repairs env f"
  have found: "usable_repair p \<and> 0 \<le> rp_attemptCount p \<and> repair_key p = k \<and> k \<in> S"
    if "find_repair k ?xs = Some p" for k p
    using find_repair_Some [OF that] usable [of p] assms(1) by (auto simp: repair_file_ok_def)
  have named: "trim r \<noteq> [] \<and> trim t \<noteq> []" if "find_repair (r, t) ?xs = Some p" for r t p
    using found [OF that] by (auto simp: usable_repair_def repair_key_def)
  show thesis
  proof (cases a)
    case (RecordRepair r t p)
    have "trim p \<noteq> []" "(r, t) \<in> S" using assms(2,3) RecordRepair by simp_all
    then show thesis
      using RecordRepair found
      by (intro that(2)) (auto simp: record_repair_eligibility_def Let_def repair_entry_def repair_key_def
          usable_repair_def previous_attempts_def dest: named)
  next
    case (ExhaustRepair r t p)
    have "trim p \<noteq> []" "(r, t) \<in> S" using assms(2,3) ExhaustRepair by simp_all
    then show thesis
      using ExhaustRepair found
      by (intro that(2)) (auto simp: exhaust_repair_state_def Let_def repair_entry_def repair_key_def
          usable_repair_def previous_attempts_def dest: named)
  next
    case (ClearRepair r t)
    show thesis
    proof (cases "find_repair (r, t) ?xs")
      case None
      with ClearRepair show thesis by (intro that(1)) (auto simp: clear_repair_state_def)
    next
      case (Some p)
      with ClearRepair found [OF Some] show thesis
        by (intro that(2)) (auto simp: clear_repair_state_def repair_entry_def repair_key_def usable_repair_def)
    qed
  next
    case (AcceptRepair r t p q)
    show thesis
    proof (cases "find_repair (r, t) ?xs")
      case None
      with AcceptRepair show thesis by (intro that(1)) (auto simp: accept_repair_attempt_def)
    next
      case (Some x)
      show thesis
      proof (cases "rp_failedPacketId x \<noteq> p \<or> rp_status x \<noteq> RepairEligible \<or> 1 \<le> rp_attemptCount x")
        case True
        then have "\<exists>msg. repair_call cmp env f a = (f, Inl msg)"
          using AcceptRepair Some by (simp add: accept_repair_attempt_def max_automatic_repair_attempts_def)
        then show thesis using that(1) by auto
      next
        case False
        with AcceptRepair Some found [OF Some] show thesis
          by (intro that(2)) (auto simp: accept_repair_attempt_def max_automatic_repair_attempts_def
              repair_entry_def repair_key_def usable_repair_def)
      qed
    qed
  qed
qed

lemma repair_call_step:
  assumes ok: "repair_file_ok S (repairs_of f)" "finite S" "card S \<le> 500"
    and op: "re_readable env" "names_packet a" "entered a \<subseteq> S"
    and result: "repair_call cmp env f a = (f', r)"
  shows "repair_file_ok S (repairs_of f')"
    and "repair_spent k (repairs_of f) \<Longrightarrow> repair_spent k (repairs_of f') \<and> \<not> (accepts_repair k a \<and> \<not> isl r)"
    and "accepts_repair k a \<and> \<not> isl r \<Longrightarrow> repair_spent k (repairs_of f')"
proof -
  let ?xs = "read_repairs env f"
  note read = read_repairs_ok [OF ok op(1)]
  have xs: "repair_file_ok S ?xs" by (rule read_file_ok [OF ok op(1)])
  have usable: "usable_repair x \<and> 0 \<le> rp_attemptCount x" if "x \<in> set ?xs" for x
    using that unfolding read by auto
  have spent: "\<exists>x. find_repair k ?xs = Some x \<and> 1 \<le> rp_attemptCount x" if s: "repair_spent k (repairs_of f)" for k
  proof -
    obtain x where x: "x \<in> set (repairs_of f)" "repair_key x = k" "usable_repair x" "1 \<le> rp_attemptCount x"
      using s by (auto simp: repair_spent_def)
    then have "normalize_repair x \<in> set ?xs" unfolding read by auto
    moreover have "distinct (map repair_key ?xs)" using xs by (simp add: repair_file_ok_def)
    ultimately have "find_repair k ?xs = Some (normalize_repair x)"
      unfolding find_repair_def using x(2) by (simp add: find_key_iff)
    with x(4) show ?thesis by auto
  qed
  have "repair_file_ok S (repairs_of f')
     \<and> (repair_spent k (repairs_of f) \<longrightarrow> repair_spent k (repairs_of f') \<and> \<not> (accepts_repair k a \<and> \<not> isl r))
     \<and> (accepts_repair k a \<and> \<not> isl r \<longrightarrow> repair_spent k (repairs_of f'))"
  proof (rule repair_call_cases [OF xs op(2,3) usable])
    fix r'
    assume same: "repair_call cmp env f a = (f, r')" "\<And>k. accepts_repair k a \<Longrightarrow> isl r'"
    with result have "f' = f" "r' = r" by simp_all
    moreover have "\<not> (accepts_repair k a \<and> \<not> isl r)" using same(2) [of k] \<open>r' = r\<close> by blast
    ultimately show ?thesis using ok(1) by blast
  next
    fix y
    assume call: "repair_call cmp env f a = save_repair cmp env f ?xs y"
      and entry: "repair_entry S ?xs a y"
    have y: "repair_key y \<in> S" using entry by (simp add: repair_entry_def)
    show ?thesis
    proof (rule save_repair_cases [OF xs y ok(2,3)])
      assume "save_repair cmp env f ?xs y = (f, Inl ''write failed'')"
      with call result ok(1) show ?thesis by auto
    next
      fix zs
      assume zs: "save_repair cmp env f ?xs y = (Some zs, Inr (Some y))" "repair_file_ok S zs"
        "set zs = insert y {x \<in> set ?xs. repair_key x \<noteq> repair_key y}"
      have f': "repairs_of f' = zs" using call result zs(1) by (simp add: repairs_of_def)
      have accepted: "repair_spent k zs \<and> \<not> repair_spent k (repairs_of f)" if acc: "accepts_repair k a"
      proof -
        obtain p where p: "repair_key y = k" "find_repair k ?xs = Some p" "0 \<le> rp_attemptCount p"
          "rp_attemptCount p < 1" "rp_attemptCount y = rp_attemptCount p + 1"
          using entry acc unfolding repair_entry_def by blast
        moreover have "usable_repair y" using entry p(1,2) unfolding repair_entry_def by blast
        ultimately have "repair_spent k zs" unfolding repair_spent_def zs(3) by auto
        moreover have "\<not> repair_spent k (repairs_of f)" using spent [of k] p(2,4) by auto
        ultimately show ?thesis by simp
      qed
      have kept: "repair_spent k zs" if s: "repair_spent k (repairs_of f)"
      proof -
        obtain x where x: "find_repair k ?xs = Some x" "1 \<le> rp_attemptCount x" using spent [OF s] by blast
        note x' = find_repair_Some [OF x(1)]
        show ?thesis
        proof (cases "repair_key y = k")
          case True
          with entry x have "usable_repair y" "1 \<le> rp_attemptCount y" by (auto simp: repair_entry_def)
          with True show ?thesis unfolding repair_spent_def zs(3) by auto
        next
          case False
          with x' x(2) usable show ?thesis unfolding repair_spent_def zs(3) by auto
        qed
      qed
      from accepted kept zs(2) show ?thesis unfolding f' by blast
    qed
  qed
  then show "repair_file_ok S (repairs_of f')"
    and "repair_spent k (repairs_of f) \<Longrightarrow> repair_spent k (repairs_of f') \<and> \<not> (accepts_repair k a \<and> \<not> isl r)"
    and "accepts_repair k a \<and> \<not> isl r \<Longrightarrow> repair_spent k (repairs_of f')" by simp_all
qed

lemma repairs_accepted_le:
  assumes "finite S" "card S \<le> 500" "list_all respected calls" "(\<Union>a \<in> set calls. entered (snd a)) \<subseteq> S"
    and "repair_file_ok S (repairs_of f)"
  shows "repairs_accepted cmp k f calls \<le> (if repair_spent k (repairs_of f) then 0 else 1)"
  using assms(3-5)
proof (induction calls arbitrary: f)
  case (Cons c calls)
  obtain env a where c: "c = (env, a)" by fastforce
  obtain f' r where result: "repair_call cmp env f a = (f', r)" by fastforce
  have "re_readable env" "names_packet a" "entered a \<subseteq> S"
    using Cons.prems by (simp_all add: c respected_def)
  note step = repair_call_step [OF Cons.prems(3) assms(1,2) this result]
  have step': "repair_file_step cmp f c = f'" by (simp add: repair_file_step_def c result)
  have "repairs_accepted cmp k f' calls \<le> (if repair_spent k (repairs_of f') then 0 else 1)"
    using Cons.prems by (intro Cons.IH step(1)) simp_all
  then show ?case
    using step(2,3) [of k] by (auto simp: c result step' [unfolded c] split: if_splits)
qed simp

section \<open>Properties\<close>

text \<open>
  C29. A task is repaired automatically at most once: in any history from an absent file, whatever
  is recorded, accepted, exhausted and cleared, and whichever writes fail, the acceptance of a
  repair of one run and task succeeds at most once, as long as the file can be read, no failed
  packet is recorded under a blank id and at most 500 tasks enter the file.
\<close>

theorem one_repair_per_task:
  assumes "list_all respected calls" "card (\<Union>a \<in> set calls. entered (snd a)) \<le> 500"
  shows "repairs_accepted cmp k None calls \<le> 1"
proof -
  have "finite (entered a)" for a by (cases a) simp_all
  then have "finite (\<Union>a \<in> set calls. entered (snd a))" by simp
  from repairs_accepted_le [OF this assms(2,1), of None cmp k] show ?thesis
    by (auto simp: repair_file_ok_def repairs_of_def split: if_splits)
qed

definition repair_day :: "char \<Rightarrow> repair_env" where
  "repair_day c = \<lparr>re_readable = True, re_now = [c], re_written = True\<rparr>"

definition repair_history :: "(repair_env \<times> repair_op) list" where
  "repair_history =
     [(repair_day (CHR ''1''), RecordRepair ''r'' ''t'' ''p''), (repair_day (CHR ''2''), AcceptRepair ''r'' ''t'' ''p'' ''q''),
      (repair_day (CHR ''3''), ClearRepair ''r'' ''t''), (repair_day (CHR ''4''), RecordRepair ''r'' ''t'' ''p2''),
      (repair_day (CHR ''5''), AcceptRepair ''r'' ''t'' ''p2'' ''q2'')]"

theorem one_repair_per_task_witness:
  "repairs_accepted (\<lambda>a b. 0) (''r'', ''t'') None repair_history = 1
   \<and> repairs_accepted (\<lambda>a b. 0) (''r'', ''t'') None repair_history \<le> 1"
proof (rule conjI)
  show "repairs_accepted (\<lambda>a b. 0) (''r'', ''t'') None repair_history = 1" by code_simp
  have "list_all respected repair_history" by code_simp
  moreover have "(\<Union>a \<in> set repair_history. entered (snd a)) = {(''r'', ''t'')}"
    by (simp add: repair_history_def)
  ultimately show "repairs_accepted (\<lambda>a b. 0) (''r'', ''t'') None repair_history \<le> 1"
    by (intro one_repair_per_task) simp_all
qed

text \<open>A failed packet with a blank id makes the entry unusable, and with it the count of the attempts
  is forgotten: a second repair of the task is accepted.\<close>

lemma blank_packet_forgets:
  "repairs_accepted (\<lambda>a b. 0) (''r'', ''t'') None
     (take 2 repair_history @ [(repair_day (CHR ''3''), RecordRepair ''r'' ''t'' '' '')] @ drop 3 repair_history) = 2"
  by code_simp

end
