(* ===== verification/Guarded_Store.thy ===== *)
theory Guarded_Store
  imports Locked_Store
begin

text \<open>
  What the file stores of \<^verbatim>\<open>packages/mcp/src\<close> share: the provider inventory, the resolutions
  of capabilities, the capability plans and the audit of their checks. Like the stores of \<open>Locked_Store\<close> each is one file with a list of records under a lock
  file, and the environment of one call is the same record; unlike them, whatever goes wrong is
  answered as a failure (\<^verbatim>\<open>catch\<close> around the whole operation), the time of the last write is
  checked when the file is read, and the file is written only when the callback succeeds.
\<close>

text \<open>\<^verbatim>\<open>ISO_DATE\<close>, with \<^verbatim>\<open>d\<close> for a digit, and a time that can be read.\<close>

definition iso_timestamp :: "string \<Rightarrow> bool" where
  "iso_timestamp s =
     (list_all2 (\<lambda>p c. if p = CHR ''d'' then CHR ''0'' \<le> c \<and> c \<le> CHR ''9'' else c = p)
        ''dddd-dd-ddTdd:dd:dd.dddZ'' s
      \<and> date_parse s \<noteq> None)"

definition read_valid ::
  "nat \<Rightarrow> ('r \<Rightarrow> bool) \<Rightarrow> ('r list \<Rightarrow> 'r list) \<Rightarrow> 'r list_disk \<Rightarrow> 'r list option" where
  "read_valid limit valid order d =
     (case d of
        NoFile \<Rightarrow> Some []
      | BadFile \<Rightarrow> None
      | Stored (updatedAt, rs) \<Rightarrow>
          if iso_timestamp updatedAt \<and> length rs \<le> limit \<and> list_all valid rs then Some (order rs) else None)"

definition guarded ::
  "('r list_disk \<Rightarrow> 'r list option) \<Rightarrow> ('r list \<Rightarrow> 'r list) \<Rightarrow> 'f \<Rightarrow> 'f \<Rightarrow> io_env \<Rightarrow> 'r list_disk
   \<Rightarrow> ('r list \<Rightarrow> ('f + 'a) \<times> 'r list) \<Rightarrow> 'r list_disk \<times> ('f + 'a)" where
  "guarded read keep busy corrupt e d callback =
     (case io_lock e of
        LockBusy \<Rightarrow> (d, Inl busy)
      | LockFailed \<Rightarrow> (d, Inl corrupt)
      | LockTaken \<Rightarrow>
          (case read d of
             None \<Rightarrow> (d, Inl corrupt)
           | Some rs \<Rightarrow>
               (case callback rs of
                  (Inl f, rs') \<Rightarrow> (d, Inl f)
                | (Inr v, rs') \<Rightarrow>
                    (let (d', ok) = write_disk e (io_bodyNow e, keep rs') d
                     in (d', if ok then Inr v else Inl corrupt)))))"

lemma guarded_changed:
  assumes "fst (guarded read keep busy corrupt e d callback) \<noteq> d"
  obtains rs v rs' where "read d = Some rs" "callback rs = (Inr v, rs')"
    "fst (guarded read keep busy corrupt e d callback) = Stored (io_bodyNow e, keep rs')"
  using assms
  by (auto simp: guarded_def write_disk_def Let_def
        split: lock_outcome.splits option.splits sum.splits prod.splits write_outcome.splits)

lemma guarded_ok:
  assumes "snd (guarded read keep busy corrupt e d callback) = Inr v"
  obtains rs rs' where "read d = Some rs" "callback rs = (Inr v, rs')"
    "guarded read keep busy corrupt e d callback = (Stored (io_bodyNow e, keep rs'), Inr v)"
  using assms
  by (auto simp: guarded_def write_disk_def Let_def
        split: lock_outcome.splits option.splits sum.splits prod.splits write_outcome.splits)

text \<open>A property of the list that reading gives and writing keeps survives every operation whose
  callback keeps it.\<close>

lemma guarded_keeps:
  assumes "on_file P d"
    and read: "\<And>rs. read d = Some rs \<Longrightarrow> Q rs"
    and step: "\<And>rs v rs'. read d = Some rs \<Longrightarrow> Q rs \<Longrightarrow> callback rs = (Inr v, rs') \<Longrightarrow> P (keep rs')"
  shows "on_file P (fst (guarded read keep busy corrupt e d callback))"
proof (cases "fst (guarded read keep busy corrupt e d callback) = d")
  case True
  with assms(1) show ?thesis by simp
next
  case False
  then obtain rs v rs' where r: "read d = Some rs" "callback rs = (Inr v, rs')"
    "fst (guarded read keep busy corrupt e d callback) = Stored (io_bodyNow e, keep rs')"
    by (rule guarded_changed)
  with step [OF r(1) read [OF r(1)] r(2)] show ?thesis by simp
qed

end
