(* ===== verification/Provider_Inventory.thy ===== *)
theory Provider_Inventory
  imports Guarded_Store Js_Map
begin

text \<open>
  \<^verbatim>\<open>packages/mcp/src/provider-inventory.ts\<close>, with \<^verbatim>\<open>buildProviderInventory\<close> of
  \<^verbatim>\<open>provider-discovery.ts\<close>: the file of the providers that were discovered, each bound to the
  digest of its manifest, and their way from discovery over review and registration to being
  enabled. \<open>cmp\<close> is \<^verbatim>\<open>localeCompare\<close>; a manifest that was found and its digest are an input. The
  list of discovery failures and the time of the observation, which the inventory does not read, are left out.
\<close>

section \<open>Data\<close>

datatype provider_category = WorkspaceProvider | KnowledgeProvider | CapabilityProvider

datatype provider_health = HealthUnknown | HealthHealthy | HealthStale | HealthDegraded | HealthUnreachable

datatype registration_state = RegDiscovered | RegReviewed | RegRegistered | RegEnabled | RegDisabled

datatype location_kind = LocalPath | LocationUrl | OpaqueReference

record provider_location =
  lo_kind :: location_kind
  lo_value :: string

datatype owner_type = OwnerUser | OwnerWorkspace | OwnerOrganization

record provider_ownership =
  ow_ownerType :: owner_type
  ow_ownerId :: string

record operation_metadata =
  om_operationId :: string
  om_description :: string
  om_permission :: string
  om_inputSchemaVersion :: string

text \<open>The manifest: its health and compatibility are flattened, and the list of operations, which
  the type of the manifest leaves out and \<^verbatim>\<open>toRecord\<close> reads, is a member.\<close>

record provider_manifest =
  mf_providerId :: string
  mf_providerType :: provider_category
  mf_displayName :: string
  mf_providerVersion :: string
  mf_location :: provider_location
  mf_ownership :: provider_ownership
  mf_capabilities :: "string list"
  mf_healthState :: provider_health
  mf_contractVersion :: string
  mf_operations :: "operation_metadata list option"

record discovery_candidate =
  dc_providerId :: string
  dc_manifest :: provider_manifest
  dc_manifestPath :: string
  dc_manifestDigest :: string

datatype provider_availability = ProviderAvailable | ProviderUnavailable | ProviderDuplicate

record inventory_entry = discovery_candidate +
  ie_availability :: provider_availability
  ie_health :: provider_health

datatype mcp_transport = TransportStdio | TransportSse | TransportStreamable | TransportUnknown
datatype mcp_authentication = AuthRequired | AuthOptional | AuthNone | AuthUnknown

record mcp_metadata =
  mm_endpointIdentity :: string
  mm_transport :: mcp_transport
  mm_authentication :: mcp_authentication
  mm_advertisedCapabilities :: "string list"

record manifest_identity =
  id_digest :: string
  id_providerVersion :: string
  id_contractVersion :: string

record inventory_record =
  iv_providerId :: string
  iv_providerType :: provider_category
  iv_manifestIdentity :: manifest_identity
  iv_location :: provider_location
  iv_enabled :: bool
  iv_health :: provider_health
  iv_discoverySource :: string
  iv_capabilities :: "string list"
  iv_ownership :: provider_ownership
  iv_lastValidationTime :: string
  iv_registrationState :: registration_state
  iv_displayName :: string
  iv_operationMetadata :: "operation_metadata list option"
  iv_mcp :: "mcp_metadata option"

datatype inventory_failure =
    InventoryBusy | InventoryCorrupt | ProviderNotFound | InvalidRegistration | DuplicateProvider | InventoryLimit

type_synonym inventory_disk = "inventory_record list_disk"

definition max_providers :: nat where "max_providers = 500"

section \<open>Reading and writing\<close>

text \<open>\<^verbatim>\<open>/^[a-z][a-z0-9._-]{0,159}$/\<close> and \<^verbatim>\<open>/^[a-f0-9]{64}$/\<close>.\<close>

definition lower_case :: "char \<Rightarrow> bool" where
  "lower_case c = (CHR ''a'' \<le> c \<and> c \<le> CHR ''z'')"

definition provider_id_ok :: "string \<Rightarrow> bool" where
  "provider_id_ok s =
     (s \<noteq> [] \<and> length s \<le> 160 \<and> lower_case (hd s)
      \<and> list_all (\<lambda>c. lower_case c \<or> (CHR ''0'' \<le> c \<and> c \<le> CHR ''9'') \<or> c \<in> set ''._-'') s)"

definition inventory_record_ok :: "inventory_record \<Rightarrow> bool" where
  "inventory_record_ok r =
     (provider_id_ok (iv_providerId r) \<and> valid_hash (id_digest (iv_manifestIdentity r))
      \<and> bounded_string 64 (id_providerVersion (iv_manifestIdentity r))
      \<and> bounded_string 32 (id_contractVersion (iv_manifestIdentity r))
      \<and> bounded_string 2048 (lo_value (iv_location r)) \<and> bounded_string 2048 (iv_discoverySource r)
      \<and> length (iv_capabilities r) \<le> 128 \<and> list_all (bounded_string 160) (iv_capabilities r)
      \<and> bounded_string 160 (ow_ownerId (iv_ownership r)) \<and> iso_timestamp (iv_lastValidationTime r)
      \<and> bounded_string 256 (iv_displayName r))"

definition by_provider :: "(string \<Rightarrow> string \<Rightarrow> int) \<Rightarrow> inventory_record list \<Rightarrow> inventory_record list" where
  "by_provider cmp rs = js_sort (\<lambda>a b. cmp (iv_providerId a) (iv_providerId b)) rs"

definition read_inventory :: "(string \<Rightarrow> string \<Rightarrow> int) \<Rightarrow> inventory_disk \<Rightarrow> inventory_record list option" where
  "read_inventory cmp d =
     (case read_valid max_providers inventory_record_ok (by_provider cmp) d of
        None \<Rightarrow> None
      | Some rs \<Rightarrow> if distinct (map iv_providerId rs) then Some rs else None)"

definition with_inventory ::
  "(string \<Rightarrow> string \<Rightarrow> int) \<Rightarrow> io_env \<Rightarrow> inventory_disk
   \<Rightarrow> (inventory_record list \<Rightarrow> (inventory_failure + 'a) \<times> inventory_record list)
   \<Rightarrow> inventory_disk \<times> (inventory_failure + 'a)" where
  "with_inventory cmp e d callback =
     guarded (read_inventory cmp) (by_provider cmp) InventoryBusy InventoryCorrupt e d callback"

section \<open>Discovery\<close>

text \<open>The inventory of what was discovered: the ids found more than once, and the candidates in the
  order of their ids and paths.\<close>

definition duplicate_ids :: "discovery_candidate list \<Rightarrow> string list" where
  "duplicate_ids cs =
     sort (filter (\<lambda>i. 1 < length (filter (\<lambda>c. dc_providerId c = i) cs)) (uniq (map dc_providerId cs)))"

definition candidate_order ::
  "(string \<Rightarrow> string \<Rightarrow> int) \<Rightarrow> inventory_entry \<Rightarrow> inventory_entry \<Rightarrow> int" where
  "candidate_order cmp a b =
     (if cmp (dc_providerId a) (dc_providerId b) \<noteq> 0 then cmp (dc_providerId a) (dc_providerId b)
      else cmp (dc_manifestPath a) (dc_manifestPath b))"

definition entry_of :: "string list \<Rightarrow> discovery_candidate \<Rightarrow> inventory_entry" where
  "entry_of duplicates c =
     discovery_candidate.extend c
       \<lparr>ie_availability = (if dc_providerId c \<in> set duplicates then ProviderDuplicate
                          else if mf_healthState (dc_manifest c) = HealthUnreachable then ProviderUnavailable
                          else ProviderAvailable),
        ie_health = mf_healthState (dc_manifest c)\<rparr>"

definition build_provider_inventory ::
  "(string \<Rightarrow> string \<Rightarrow> int) \<Rightarrow> discovery_candidate list \<Rightarrow> inventory_entry list \<times> string list" where
  "build_provider_inventory cmp cs =
     (let duplicates = duplicate_ids cs
      in (js_sort (candidate_order cmp) (map (entry_of duplicates) cs), duplicates))"

definition to_record :: "inventory_entry \<Rightarrow> string \<Rightarrow> string \<Rightarrow> inventory_record" where
  "to_record c source timestamp =
     (let m = dc_manifest c
      in \<lparr>iv_providerId = dc_providerId c, iv_providerType = mf_providerType m,
          iv_manifestIdentity = \<lparr>id_digest = dc_manifestDigest c, id_providerVersion = mf_providerVersion m,
                                 id_contractVersion = mf_contractVersion m\<rparr>,
          iv_location = mf_location m, iv_enabled = False, iv_health = mf_healthState m,
          iv_discoverySource = source, iv_capabilities = sort (mf_capabilities m), iv_ownership = mf_ownership m,
          iv_lastValidationTime = timestamp, iv_registrationState = RegDiscovered,
          iv_displayName = mf_displayName m,
          iv_operationMetadata = map_option (take 128) (mf_operations m), iv_mcp = None\<rparr>)"

text \<open>The object spread of the new record over the current one: every member the new record has
  replaces the current one's, then the state and \<^verbatim>\<open>enabled\<close> of the current one are put back.\<close>

definition rediscovered :: "inventory_record option \<Rightarrow> inventory_record \<Rightarrow> inventory_record" where
  "rediscovered current new =
     (case current of
        None \<Rightarrow> new\<lparr>iv_registrationState := RegDiscovered, iv_enabled := False\<rparr>
      | Some r \<Rightarrow>
          new\<lparr>iv_registrationState := iv_registrationState r, iv_enabled := iv_enabled r, iv_mcp := iv_mcp r,
              iv_operationMetadata :=
                (case iv_operationMetadata new of None \<Rightarrow> iv_operationMetadata r | Some os \<Rightarrow> Some os)\<rparr>)"

definition pinned :: "registration_state \<Rightarrow> bool" where
  "pinned q = (q = RegRegistered \<or> q = RegEnabled)"

definition discover_one ::
  "string list \<Rightarrow> string \<Rightarrow> string \<Rightarrow> inventory_record js_map \<Rightarrow> inventory_entry \<Rightarrow> inventory_record js_map" where
  "discover_one duplicates source timestamp existing c =
     (if dc_providerId c \<in> set duplicates then existing
      else
        let current = jm_get existing (dc_providerId c)
        in if (case current of
                 None \<Rightarrow> False
               | Some r \<Rightarrow> id_digest (iv_manifestIdentity r) \<noteq> dc_manifestDigest c \<and> pinned (iv_registrationState r))
           then existing
           else jm_set (dc_providerId c) (rediscovered current (to_record c source timestamp)) existing)"

definition inventory_map :: "inventory_record list \<Rightarrow> inventory_record js_map" where
  "inventory_map rs = foldl (\<lambda>m r. jm_set (iv_providerId r) r m) [] rs"

definition provider_limit :: "int option \<Rightarrow> int" where
  "provider_limit maxProviders = max 1 (min (case maxProviders of None \<Rightarrow> int max_providers | Some n \<Rightarrow> n) (int max_providers))"

definition discover_into_provider_inventory ::
  "(string \<Rightarrow> string \<Rightarrow> int) \<Rightarrow> io_env \<Rightarrow> int option \<Rightarrow> discovery_candidate list \<Rightarrow> string \<Rightarrow> inventory_disk
   \<Rightarrow> inventory_disk \<times> (inventory_failure + inventory_record list)" where
  "discover_into_provider_inventory cmp e maxProviders discovered source d =
     with_inventory cmp e d (\<lambda>rs.
       let (entries, duplicates) = build_provider_inventory cmp discovered;
           existing = foldl (discover_one duplicates source (io_bodyNow e)) (inventory_map rs) entries
       in if provider_limit maxProviders < int (jm_size existing) then (Inl InventoryLimit, rs)
          else (let providers = by_provider cmp (jm_values existing) in (Inr providers, providers)))"

section \<open>Registration\<close>

definition remove_provider_inventory ::
  "(string \<Rightarrow> string \<Rightarrow> int) \<Rightarrow> io_env \<Rightarrow> string \<Rightarrow> inventory_disk \<Rightarrow> inventory_disk \<times> (inventory_failure + bool)" where
  "remove_provider_inventory cmp e providerId d =
     with_inventory cmp e d (\<lambda>rs.
       let rs' = filter (\<lambda>r. iv_providerId r \<noteq> providerId) rs
       in (if length rs = length rs' then Inl ProviderNotFound else Inr True, rs'))"

primrec registration_transitions :: "registration_state \<Rightarrow> registration_state list" where
  "registration_transitions RegDiscovered = [RegReviewed]"
| "registration_transitions RegReviewed = [RegRegistered]"
| "registration_transitions RegRegistered = [RegEnabled, RegDisabled]"
| "registration_transitions RegEnabled = [RegDisabled]"
| "registration_transitions RegDisabled = [RegEnabled]"

definition registered_as :: "registration_state \<Rightarrow> string \<Rightarrow> inventory_record \<Rightarrow> inventory_record" where
  "registered_as next timestamp r =
     r\<lparr>iv_registrationState := next, iv_enabled := (next = RegEnabled), iv_lastValidationTime := timestamp\<rparr>"

definition transition_provider_registration ::
  "(string \<Rightarrow> string \<Rightarrow> int) \<Rightarrow> io_env \<Rightarrow> string \<Rightarrow> registration_state \<Rightarrow> inventory_disk
   \<Rightarrow> inventory_disk \<times> (inventory_failure + inventory_record)" where
  "transition_provider_registration cmp e providerId next d =
     with_inventory cmp e d (\<lambda>rs.
       case List.find (\<lambda>r. iv_providerId r = providerId) rs of
         None \<Rightarrow> (Inl ProviderNotFound, rs)
       | Some r \<Rightarrow>
           if next \<notin> set (registration_transitions (iv_registrationState r)) then (Inl InvalidRegistration, rs)
           else (Inr (registered_as next (io_bodyNow e) r),
                 modify_first (\<lambda>r. iv_providerId r = providerId) (registered_as next (io_bodyNow e)) rs))"

definition list_provider_inventory ::
  "(string \<Rightarrow> string \<Rightarrow> int) \<Rightarrow> inventory_disk \<Rightarrow> inventory_failure + inventory_record list" where
  "list_provider_inventory cmp d =
     (case read_inventory cmp d of None \<Rightarrow> Inl InventoryCorrupt | Some rs \<Rightarrow> Inr rs)"

definition inspect_provider_inventory ::
  "(string \<Rightarrow> string \<Rightarrow> int) \<Rightarrow> string \<Rightarrow> inventory_disk \<Rightarrow> inventory_failure + inventory_record option" where
  "inspect_provider_inventory cmp providerId d =
     map_sum id (List.find (\<lambda>r. iv_providerId r = providerId)) (list_provider_inventory cmp d)"

record provider_context =
  pc_availableProviderIds :: "string list"
  pc_capabilities :: "string list"
  pc_trustedProviderIds :: "string list"

definition project_provider_context ::
  "(string \<Rightarrow> string \<Rightarrow> int) \<Rightarrow> inventory_disk \<Rightarrow> inventory_failure + provider_context" where
  "project_provider_context cmp d =
     map_sum id (\<lambda>rs.
       let available = filter (\<lambda>r. iv_health r \<noteq> HealthUnreachable \<and> iv_registrationState r \<noteq> RegDisabled) rs
       in \<lparr>pc_availableProviderIds = map iv_providerId available,
           pc_capabilities = sort (uniq (concat (map iv_capabilities available))),
           pc_trustedProviderIds = map iv_providerId (filter (\<lambda>r. pinned (iv_registrationState r)) rs)\<rparr>)
     (list_provider_inventory cmp d)"

section \<open>Histories\<close>

datatype inventory_call =
    DiscoverProviders "int option" "discovery_candidate list" string
  | RemoveProvider string
  | RegisterProvider string registration_state

fun inventory_step ::
  "(string \<Rightarrow> string \<Rightarrow> int) \<Rightarrow> inventory_disk \<Rightarrow> io_env \<times> inventory_call \<Rightarrow> inventory_disk" where
  "inventory_step cmp d (e, DiscoverProviders n cs source) = fst (discover_into_provider_inventory cmp e n cs source d)"
| "inventory_step cmp d (e, RemoveProvider i) = fst (remove_provider_inventory cmp e i d)"
| "inventory_step cmp d (e, RegisterProvider i q) = fst (transition_provider_registration cmp e i q d)"

text \<open>What holds of the list in the file: one record for each id, enabled exactly in that state.\<close>

definition enabled_ok :: "inventory_record \<Rightarrow> bool" where
  "enabled_ok r = (iv_enabled r \<longleftrightarrow> iv_registrationState r = RegEnabled)"

definition inventory_ok :: "inventory_record list \<Rightarrow> bool" where
  "inventory_ok rs = (distinct (map iv_providerId rs) \<and> (\<forall>r \<in> set rs. enabled_ok r))"

text \<open>A registered or enabled provider with a given manifest is in the list.\<close>

definition has_pinned :: "string \<Rightarrow> string \<Rightarrow> inventory_record list \<Rightarrow> bool" where
  "has_pinned i D rs =
     (\<exists>r \<in> set rs. iv_providerId r = i \<and> id_digest (iv_manifestIdentity r) = D \<and> pinned (iv_registrationState r))"

lemma set_by_provider [simp]: "set (by_provider cmp rs) = set rs"
  by (simp add: by_provider_def)

lemma distinct_by_provider [simp]: "distinct (map f (by_provider cmp rs)) = distinct (map f rs)"
  by (simp add: by_provider_def distinct_js_sort)

lemma inventory_ok_order [simp]: "inventory_ok (by_provider cmp rs) = inventory_ok rs"
  by (simp add: inventory_ok_def)

lemma has_pinned_order [simp]: "has_pinned i D (by_provider cmp rs) = has_pinned i D rs"
  by (simp add: has_pinned_def)

lemma read_inventory_distinct: "read_inventory cmp d = Some rs \<Longrightarrow> distinct (map iv_providerId rs)"
  by (auto simp: read_inventory_def split: option.splits if_splits)

lemma read_inventory_set:
  "read_inventory cmp (Stored (u, xs)) = Some rs \<Longrightarrow> set rs = set xs"
  by (auto simp: read_inventory_def read_valid_def split: option.splits if_splits)

lemma read_inventory_ok: "read_inventory cmp d = Some rs \<Longrightarrow> on_file inventory_ok d \<Longrightarrow> inventory_ok rs"
  by (cases d) (auto simp: read_inventory_def read_valid_def inventory_ok_def split: option.splits if_splits)

subsection \<open>Discovery entry by entry\<close>

lemma jm_set_at_end: "k \<notin> fst ` set m \<Longrightarrow> jm_set k v m = m @ [(k, v)]"
  by (induction m) auto

lemma inventory_map_distinct:
  "distinct (map iv_providerId rs) \<Longrightarrow> inventory_map rs = map (\<lambda>r. (iv_providerId r, r)) rs"
proof (induction rs rule: rev_induct)
  case (snoc r rs)
  then have "iv_providerId r \<notin> fst ` set (map (\<lambda>r. (iv_providerId r, r)) rs)" by auto
  with snoc show ?case by (simp add: inventory_map_def jm_set_at_end)
qed (simp add: inventory_map_def)

definition keyed_ok :: "inventory_record js_map \<Rightarrow> bool" where
  "keyed_ok m = (jm_wf m \<and> jm.entries (\<lambda>i r. iv_providerId r = i \<and> enabled_ok r) m)"

lemma keyed_ids: "keyed_ok m \<Longrightarrow> map iv_providerId (jm_values m) = map fst m"
  by (auto simp: keyed_ok_def jm.entries_def jm_wf_def jm_values_def jm_get_def comp_def intro!: map_cong)

lemma keyed_values_ok:
  assumes "keyed_ok m"
  shows "inventory_ok (jm_values m)"
proof -
  have "distinct (map iv_providerId (jm_values m))"
    unfolding keyed_ids [OF assms] using assms by (simp add: keyed_ok_def jm_wf_def)
  moreover have "enabled_ok r" if "r \<in> set (jm_values m)" for r
    using that assms jm.vals_get [of m r] by (auto simp: keyed_ok_def jm.entries_def)
  ultimately show ?thesis by (simp add: inventory_ok_def)
qed

lemma inventory_map_ok: "inventory_ok rs \<Longrightarrow> keyed_ok (inventory_map rs)"
  by (auto simp: inventory_ok_def keyed_ok_def inventory_map_distinct jm_wf_def jm.entries_def jm_get_def
      comp_def dest: map_of_SomeD)

lemma rediscovered_ok:
  assumes "\<And>r. current = Some r \<Longrightarrow> enabled_ok r"
  shows "enabled_ok (rediscovered current (to_record c source timestamp))"
    "iv_providerId (rediscovered current (to_record c source timestamp)) = dc_providerId c"
    "id_digest (iv_manifestIdentity (rediscovered current (to_record c source timestamp))) = dc_manifestDigest c"
  using assms by (cases current; simp add: rediscovered_def to_record_def enabled_ok_def Let_def)+

lemma discover_one_ok: "keyed_ok m \<Longrightarrow> keyed_ok (discover_one dups source ts m c)"
proof -
  assume m: "keyed_ok m"
  then have "enabled_ok r" if "jm_get m i = Some r" for i r
    using that by (simp add: keyed_ok_def jm.entries_def)
  note new = rediscovered_ok [of "jm_get m (dc_providerId c)" c source ts, OF this]
  have "keyed_ok (jm_set (dc_providerId c) (rediscovered (jm_get m (dc_providerId c)) (to_record c source ts)) m)"
    unfolding keyed_ok_def
  proof (rule conjI)
    show "jm.entries (\<lambda>i r. iv_providerId r = i \<and> enabled_ok r)
       (jm_set (dc_providerId c) (rediscovered (jm_get m (dc_providerId c)) (to_record c source ts)) m)"
      by (rule jm.entries_put) (use m new in \<open>simp_all add: keyed_ok_def\<close>)
  qed (use m in \<open>simp add: keyed_ok_def jm.wf_put\<close>)
  with m show ?thesis by (auto simp: discover_one_def Let_def)
qed

definition pinned_in :: "string \<Rightarrow> string \<Rightarrow> inventory_record js_map \<Rightarrow> bool" where
  "pinned_in i D m =
     (\<exists>r. jm_get m i = Some r \<and> id_digest (iv_manifestIdentity r) = D \<and> pinned (iv_registrationState r))"

lemma discover_one_pinned:
  assumes "pinned_in i D m"
  shows "pinned_in i D (discover_one dups source ts m c)"
proof -
  obtain r where r: "jm_get m i = Some r" "id_digest (iv_manifestIdentity r) = D" "pinned (iv_registrationState r)"
    using assms by (auto simp: pinned_in_def)
  show ?thesis
  proof (cases "dc_providerId c = i")
    case True
    with r assms show ?thesis
      by (auto simp: discover_one_def Let_def pinned_in_def jm_laws rediscovered_def to_record_def)
  next
    case False
    with r show ?thesis by (auto simp: discover_one_def Let_def pinned_in_def jm_laws)
  qed
qed

lemma discover_all:
  "keyed_ok m \<Longrightarrow> keyed_ok (foldl (discover_one dups source ts) m cs)"
  "pinned_in i D m \<Longrightarrow> pinned_in i D (foldl (discover_one dups source ts) m cs)"
  by (induction cs arbitrary: m) (auto simp: discover_one_ok discover_one_pinned)

lemma pinned_in_map:
  assumes "distinct (map iv_providerId rs)" "has_pinned i D rs"
  shows "pinned_in i D (inventory_map rs)"
proof -
  obtain r where r: "r \<in> set rs" "iv_providerId r = i" "id_digest (iv_manifestIdentity r) = D" "pinned (iv_registrationState r)"
    using assms(2) by (auto simp: has_pinned_def)
  have "map_of (map (\<lambda>r. (iv_providerId r, r)) rs) i = Some r"
    using r(1,2) assms(1) by (intro map_of_is_SomeI) (auto simp: comp_def)
  with r show ?thesis by (auto simp: pinned_in_def inventory_map_distinct [OF assms(1)] jm_get_def)
qed

lemma pinned_in_values:
  assumes "keyed_ok m" "pinned_in i D m"
  shows "has_pinned i D (jm_values m)"
proof -
  obtain r where r: "jm_get m i = Some r" "id_digest (iv_manifestIdentity r) = D" "pinned (iv_registrationState r)"
    using assms(2) by (auto simp: pinned_in_def)
  have wf: "jm_wf m" and id: "iv_providerId r = i" using assms(1) r(1) by (auto simp: keyed_ok_def jm.entries_def)
  have "r \<in> set (jm_values m)" using jm.vals_get [OF wf, of r] r(1) by blast
  with r id show ?thesis unfolding has_pinned_def by blast
qed

subsection \<open>The calls\<close>

lemma registered_as_ok: "enabled_ok (registered_as q ts r)"
  by (simp add: enabled_ok_def registered_as_def)

lemma registered_as_simps [simp]:
  "iv_providerId (registered_as q ts r) = iv_providerId r"
  "iv_manifestIdentity (registered_as q ts r) = iv_manifestIdentity r"
  "iv_registrationState (registered_as q ts r) = q"
  by (simp_all add: registered_as_def)

lemma register_list_ok:
  assumes "inventory_ok rs"
  shows "inventory_ok (modify_first (\<lambda>r. iv_providerId r = i) (registered_as q ts) rs)"
proof -
  have "map iv_providerId (modify_first (\<lambda>r. iv_providerId r = i) (registered_as q ts) rs) = map iv_providerId rs"
    by (rule modify_first_map) simp
  moreover have "enabled_ok y" if "y \<in> set (modify_first (\<lambda>r. iv_providerId r = i) (registered_as q ts) rs)" for y
    using set_modify_first [OF that] assms by (auto simp: inventory_ok_def registered_as_ok)
  ultimately show ?thesis using assms by (simp add: inventory_ok_def)
qed

lemma inventory_step_ok: "on_file inventory_ok d \<Longrightarrow> on_file inventory_ok (inventory_step cmp d a)"
proof (induction cmp d a rule: inventory_step.induct)
  case (1 cmp d e n cs source)
  then show ?case
    unfolding inventory_step.simps discover_into_provider_inventory_def with_inventory_def
    by (rule guarded_keeps [where Q = inventory_ok])
       (auto simp: Let_def read_inventory_ok [OF _ 1] split: prod.splits if_splits
         intro!: keyed_values_ok discover_all(1) inventory_map_ok)
next
  case (2 cmp d e i)
  show ?case
    unfolding inventory_step.simps remove_provider_inventory_def with_inventory_def
    by (rule guarded_keeps [where Q = inventory_ok, OF 2], rule read_inventory_ok [OF _ 2], assumption)
       (auto simp: Let_def inventory_ok_def split: if_splits intro: distinct_map_filter)
next
  case (3 cmp d e i q)
  then show ?case
    unfolding inventory_step.simps transition_provider_registration_def with_inventory_def
    by (rule guarded_keeps [where Q = inventory_ok])
       (auto simp: read_inventory_ok [OF _ 3] split: option.splits if_splits intro: register_list_ok)
qed

interpretation inventory: op_machine "inventory_step cmp" "on_file inventory_ok"
  by unfold_locales (rule inventory_step_ok)

text \<open>The calls that may take a provider out of registration.\<close>

fun releases_provider :: "string \<Rightarrow> inventory_call \<Rightarrow> bool" where
  "releases_provider i (RemoveProvider j) = (i = j)"
| "releases_provider i (RegisterProvider j q) = (i = j \<and> q = RegDisabled)"
| "releases_provider i (DiscoverProviders n cs source) = False"

definition pinned_on :: "string \<Rightarrow> string \<Rightarrow> inventory_disk \<Rightarrow> bool" where
  "pinned_on i D d = (case d of Stored (u, rs) \<Rightarrow> has_pinned i D rs | _ \<Rightarrow> False)"

lemma pinned_read: "pinned_on i D d \<Longrightarrow> read_inventory cmp d = Some rs \<Longrightarrow> has_pinned i D rs"
  using read_inventory_set by (auto simp: pinned_on_def has_pinned_def split: disk.splits)

lemma with_inventory_pinned:
  assumes "pinned_on i D d"
    and step: "\<And>rs v rs'. distinct (map iv_providerId rs) \<Longrightarrow> read_inventory cmp d = Some rs \<Longrightarrow> has_pinned i D rs
      \<Longrightarrow> callback rs = (Inr v, rs') \<Longrightarrow> has_pinned i D rs'"
  shows "pinned_on i D (fst (with_inventory cmp e d callback))"
proof (cases "fst (with_inventory cmp e d callback) = d")
  case False
  then obtain rs v rs' where r: "read_inventory cmp d = Some rs" "callback rs = (Inr v, rs')"
    "fst (with_inventory cmp e d callback) = Stored (io_bodyNow e, by_provider cmp rs')"
    unfolding with_inventory_def by (rule guarded_changed)
  have "has_pinned i D rs'"
    by (rule step [OF read_inventory_distinct [OF r(1)] r(1) pinned_read [OF assms(1) r(1)] r(2)])
  with r(3) show ?thesis by (simp add: pinned_on_def)
qed (simp add: assms(1))

lemma register_pinned:
  assumes "distinct (map iv_providerId rs)" "has_pinned i D rs" "List.find (\<lambda>r. iv_providerId r = j) rs = Some r"
    "q \<in> set (registration_transitions (iv_registrationState r))" "\<not> (i = j \<and> q = RegDisabled)"
  shows "has_pinned i D (modify_first (\<lambda>r. iv_providerId r = j) (registered_as q ts) rs)"
proof -
  obtain x where x: "x \<in> set rs" "iv_providerId x = i" "id_digest (iv_manifestIdentity x) = D" "pinned (iv_registrationState x)"
    using assms(2) by (auto simp: has_pinned_def)
  have r: "r \<in> set rs" "iv_providerId r = j" using find_Some_iff_in [OF assms(3)] by simp_all
  have set: "set (modify_first (\<lambda>r. iv_providerId r = j) (registered_as q ts) rs)
      = insert (registered_as q ts r) {y \<in> set rs. iv_providerId y \<noteq> j}"
    by (rule set_modify_first_keyed [OF assms(1,3)]) (simp add: r)
  show ?thesis
  proof (cases "i = j")
    case True
    with x r assms(1) have "x = r" by (auto intro: distinct_map_eq)
    moreover have "pinned q"
      using assms(4,5) x(4) True \<open>x = r\<close> by (cases "iv_registrationState r") (auto simp: pinned_def)
    ultimately show ?thesis unfolding has_pinned_def set using x by auto
  next
    case False
    with x show ?thesis unfolding has_pinned_def set by auto
  qed
qed

lemma inventory_step_pinned:
  "pinned_on i D d \<Longrightarrow> on_file inventory_ok d \<Longrightarrow> \<not> releases_provider i (snd a) \<Longrightarrow> pinned_on i D (inventory_step cmp d a)"
proof (induction cmp d a rule: inventory_step.induct)
  case (1 cmp d e n cs source)
  show ?case
    unfolding inventory_step.simps discover_into_provider_inventory_def
  proof (rule with_inventory_pinned [OF 1(1)], goal_cases)
    case (1 rs v rs')
    have "keyed_ok (inventory_map rs)" using read_inventory_ok [OF 1(2)] \<open>on_file inventory_ok d\<close> by (simp add: inventory_map_ok)
    with 1 show ?case
      by (auto simp: Let_def split: prod.splits if_splits intro!: pinned_in_values discover_all pinned_in_map)
  qed
next
  case (2 cmp d e j)
  show ?case
    unfolding inventory_step.simps remove_provider_inventory_def
    by (rule with_inventory_pinned [OF 2(1)]) (use 2(3) in \<open>auto simp: Let_def has_pinned_def split: if_splits\<close>)
next
  case (3 cmp d e j q)
  show ?case
    unfolding inventory_step.simps transition_provider_registration_def
    by (rule with_inventory_pinned [OF 3(1)])
       (use 3(3) in \<open>auto split: option.splits if_splits intro: register_pinned\<close>)
qed

section \<open>Properties\<close>

text \<open>
  C24. A registered manifest is pinned: in any history from an absent file, once a provider is
  registered or enabled with the manifest of some digest, it stays registered or enabled with
  exactly that manifest, whatever is discovered under its id, until it is removed or disabled.
  In every file on the way ids are distinct and a provider is enabled just when its state says so.
\<close>

theorem registered_manifest_pinned:
  assumes "d = foldl (inventory_step cmp) NoFile before" "pinned_on i D d"
    and "list_all (\<lambda>a. \<not> releases_provider i (snd a)) after"
  shows "pinned_on i D (foldl (inventory_step cmp) d after)
    \<and> on_file inventory_ok (foldl (inventory_step cmp) d after)"
proof (rule conjI)
  have ok: "on_file inventory_ok d" unfolding assms(1) by (rule inventory.inv_run) simp
  then show "on_file inventory_ok (foldl (inventory_step cmp) d after)" by (rule inventory.inv_run)
  from ok assms(2,3) show "pinned_on i D (foldl (inventory_step cmp) d after)"
  proof (induction "after" arbitrary: d)
    case (Cons a as)
    then have "pinned_on i D (inventory_step cmp d a)" by (intro inventory_step_pinned) simp_all
    with Cons show ?case by (simp add: inventory_step_ok)
  qed simp
qed

definition inventory_env :: io_env where
  "inventory_env = sample_env noon"

definition found_manifest :: "char \<Rightarrow> discovery_candidate" where
  "found_manifest c =
     \<lparr>dc_providerId = ''p'',
      dc_manifest = \<lparr>mf_providerId = ''p'', mf_providerType = CapabilityProvider, mf_displayName = ''P'',
        mf_providerVersion = ''1'', mf_location = \<lparr>lo_kind = LocalPath, lo_value = ''/p''\<rparr>,
        mf_ownership = \<lparr>ow_ownerType = OwnerUser, ow_ownerId = ''u''\<rparr>, mf_capabilities = [''cap''],
        mf_healthState = HealthHealthy, mf_contractVersion = ''1'', mf_operations = None\<rparr>,
      dc_manifestPath = ''/p/m'', dc_manifestDigest = replicate 64 c\<rparr>"

definition registration_calls :: "(io_env \<times> inventory_call) list" where
  "registration_calls =
     map (Pair inventory_env)
       [DiscoverProviders None [found_manifest (CHR ''a'')] ''s'', RegisterProvider ''p'' RegReviewed,
        RegisterProvider ''p'' RegRegistered]"

abbreviation byte_order :: "string \<Rightarrow> string \<Rightarrow> int" where
  "byte_order a b \<equiv> (if a < b then - 1 else if a = b then 0 else 1)"

definition registered_file :: inventory_disk where
  "registered_file =
     Stored (noon, [(to_record (entry_of [] (found_manifest (CHR ''a''))) ''s'' noon)\<lparr>iv_registrationState := RegRegistered\<rparr>])"

lemma registration_run: "foldl (inventory_step byte_order) NoFile registration_calls = registered_file"
  by code_simp

theorem registered_manifest_pinned_witness:
  "let d = foldl (inventory_step byte_order) NoFile registration_calls;
       after = [(inventory_env, DiscoverProviders None [found_manifest (CHR ''b'')] ''s'')]
   in pinned_on ''p'' (replicate 64 (CHR ''a'')) (foldl (inventory_step byte_order) d after)
      \<and> on_file inventory_ok (foldl (inventory_step byte_order) d after)"
  unfolding Let_def
proof (rule registered_manifest_pinned [OF refl])
  show "pinned_on ''p'' (replicate 64 (CHR ''a'')) (foldl (inventory_step byte_order) NoFile registration_calls)"
    unfolding registration_run
    by (simp add: registered_file_def pinned_on_def has_pinned_def pinned_def to_record_def entry_of_def
        discovery_candidate.defs found_manifest_def)
qed simp

text \<open>A disabled provider takes over whatever manifest is discovered under its id and can be
  enabled again without a review of it.\<close>

lemma unreviewed_manifest_enabled:
  "pinned_on ''p'' (replicate 64 (CHR ''b''))
     (foldl (inventory_step byte_order) registered_file
        (map (Pair inventory_env)
           [RegisterProvider ''p'' RegDisabled, DiscoverProviders None [found_manifest (CHR ''b'')] ''s'',
            RegisterProvider ''p'' RegEnabled]))"
  by code_simp

end
