(* ===== verification/Capability_Resolution.thy ===== *)
theory Capability_Resolution
  imports Provider_Inventory
begin

text \<open>
  \<^verbatim>\<open>packages/mcp/src/capability-resolution.ts\<close>: which capabilities of which providers fit a task.
  Every capability of every provider of the inventory becomes a candidate with a score and with
  the reasons that rule it out; the resolutions are kept in a file. \<open>cmp\<close> is
  \<^verbatim>\<open>localeCompare\<close>, \<open>lower\<close> is \<^verbatim>\<open>toLocaleLowerCase\<close>, both of the host's locale.
\<close>

section \<open>Data\<close>

datatype capability_permission = PermRead | PermWrite | PermCommand | PermGit | PermNetwork | PermCapability

primrec permission_text :: "capability_permission \<Rightarrow> string" where
  "permission_text PermRead = ''read''"
| "permission_text PermWrite = ''write''"
| "permission_text PermCommand = ''command''"
| "permission_text PermGit = ''git''"
| "permission_text PermNetwork = ''network''"
| "permission_text PermCapability = ''capability''"

record capability_match =
  cm_capabilityId :: string
  cm_displayName :: "string option"
  cm_description :: "string option"
  cm_providerType :: "provider_category option"
  cm_requiredPermissions :: "capability_permission list option"
  cm_supportedContext :: "string list option"

datatype context_status = CtxProposed | CtxConfirmed | CtxExpired | CtxCleared

record resolution_context =
  rc_sessionId :: string
  rc_status :: context_status
  rc_sourceIds :: "string list"
  rc_allowedProviderIds :: "string list option"
  rc_allowedPermissions :: "capability_permission list option"
  rc_contextTags :: "string list option"

record task_intent =
  ti_query :: string
  ti_requestedCapabilities :: "string list option"
  ti_providerTypes :: "provider_category list option"
  ti_requiredPermissions :: "capability_permission list option"
  ti_contextTags :: "string list option"

datatype rejection_reason =
    ProviderNotRegistered | ProviderDisabled | ProviderUnhealthy | CapabilityUnavailable
  | ContextNotAllowed | PermissionsIncompatible | ContextNotConfirmed

record capability_candidate =
  cc_providerId :: string
  cc_capabilityId :: string
  cc_score :: int
  cc_eligible :: bool
  cc_matchReasons :: "string list"
  cc_rejectionReasons :: "rejection_reason list"

record health_impact =
  hi_providerId :: string
  hi_health :: provider_health
  hi_available :: bool

record capability_resolution =
  cr_resolutionId :: string
  cr_sessionId :: string
  cr_requested :: task_intent
  cr_candidates :: "capability_candidate list"
  cr_availableCapabilities :: "string list"
  cr_unavailableCapabilities :: "string list"
  cr_providerHealthImpact :: "health_impact list"
  cr_resolvedAt :: string

definition max_decisions :: nat where "max_decisions = 300"

definition max_candidates :: nat where "max_candidates = 500"

definition opt_list :: "'a list option \<Rightarrow> 'a list" where
  "opt_list v = (case v of None \<Rightarrow> [] | Some xs \<Rightarrow> xs)"

definition opt_text :: "string option \<Rightarrow> string" where
  "opt_text v = (case v of None \<Rightarrow> [] | Some s \<Rightarrow> s)"

section \<open>Scores\<close>

text \<open>\<^verbatim>\<open>split(/[^a-z0-9]+/).filter(Boolean)\<close> after lower-casing.\<close>

definition token_char :: "char \<Rightarrow> bool" where
  "token_char c = ((CHR ''a'' \<le> c \<and> c \<le> CHR ''z'') \<or> (CHR ''0'' \<le> c \<and> c \<le> CHR ''9''))"

definition normalize_tokens :: "(string \<Rightarrow> string) \<Rightarrow> string \<Rightarrow> string list" where
  "normalize_tokens lower value = filter (\<lambda>w. w \<noteq> []) (split_on (\<lambda>c. \<not> token_char c) (lower value))"

definition token_overlap :: "string list \<Rightarrow> string list \<Rightarrow> nat" where
  "token_overlap left right = length (filter (\<lambda>w. w \<in> set right) left)"

definition sorted_unique :: "string list \<Rightarrow> string list" where
  "sorted_unique values = sort (uniq values)"

definition sorted_permissions :: "capability_permission list \<Rightarrow> capability_permission list" where
  "sorted_permissions ps = sort_key permission_text (uniq ps)"

definition permission_check :: "capability_permission list \<Rightarrow> capability_permission list option \<Rightarrow> bool" where
  "permission_check required allowed =
     list_all (\<lambda>p. case allowed of None \<Rightarrow> p = PermRead | Some ps \<Rightarrow> p \<in> set ps) required"

definition context_match :: "task_intent \<Rightarrow> capability_match \<Rightarrow> bool" where
  "context_match intent k =
     list_ex (\<lambda>tag. tag \<in> set (opt_list (ti_contextTags intent))) (opt_list (cm_supportedContext k))"

definition score_parts ::
  "(string \<Rightarrow> string) \<Rightarrow> task_intent \<Rightarrow> capability_match \<Rightarrow> inventory_record \<Rightarrow> (bool \<times> int \<times> string) list" where
  "score_parts lower intent k p =
     (let requested = opt_list (ti_requestedCapabilities intent);
          query = normalize_tokens lower (ti_query intent @ '' '' @ join '' '' requested);
          names = token_overlap query (normalize_tokens lower (cm_capabilityId k));
          texts = token_overlap query (normalize_tokens lower (opt_text (cm_displayName k) @ '' '' @ opt_text (cm_description k)))
      in [(list_ex (\<lambda>i. lower i = lower (cm_capabilityId k)) requested, 60, ''exact_capability_match''),
          (0 < names, min 24 (int names * 12), ''capability_name_overlap''),
          (0 < texts, min 16 (int texts * 4), ''description_overlap''),
          (iv_providerType p \<in> set (opt_list (ti_providerTypes intent)), 12, ''provider_type_match''),
          (context_match intent k, 12, ''supported_context_match''),
          (iv_health p = HealthHealthy, 8, ''healthy_provider'')])"

definition score_capability ::
  "(string \<Rightarrow> string) \<Rightarrow> task_intent \<Rightarrow> capability_match \<Rightarrow> inventory_record \<Rightarrow> int \<times> string list" where
  "score_capability lower intent k p =
     (let taken = filter fst (score_parts lower intent k p)
      in (min 100 (sum_list (map (\<lambda>(b, n, r). n) taken)), map (\<lambda>(b, n, r). r) taken))"

section \<open>Eligibility\<close>

definition eligible_reasons ::
  "resolution_context \<Rightarrow> task_intent \<Rightarrow> inventory_record \<Rightarrow> capability_match \<Rightarrow> rejection_reason list" where
  "eligible_reasons ctx intent p k =
     map snd (filter fst
       [(\<not> (iv_registrationState p = RegRegistered \<or> iv_registrationState p = RegEnabled), ProviderNotRegistered),
        (iv_registrationState p = RegDisabled \<or> \<not> iv_enabled p, ProviderDisabled),
        (iv_health p \<noteq> HealthHealthy, ProviderUnhealthy),
        (cm_capabilityId k \<notin> set (iv_capabilities p), CapabilityUnavailable),
        (case rc_allowedProviderIds ctx of None \<Rightarrow> False | Some ids \<Rightarrow> iv_providerId p \<notin> set ids, ContextNotAllowed),
        (\<not> permission_check (sorted_permissions (opt_list (ti_requiredPermissions intent) @ opt_list (cm_requiredPermissions k)))
              (rc_allowedPermissions ctx), PermissionsIncompatible),
        (rc_status ctx \<noteq> CtxConfirmed \<and> rc_status ctx \<noteq> CtxProposed, ContextNotConfirmed)])"

definition catalog_entry :: "capability_match list \<Rightarrow> inventory_record \<Rightarrow> string \<Rightarrow> capability_match" where
  "catalog_entry catalog p capabilityId =
     (let entries = filter (\<lambda>k. cm_providerType k = None \<or> cm_providerType k = Some (iv_providerType p)) catalog
      in case List.find (\<lambda>k. cm_capabilityId k = capabilityId) entries of
           Some k \<Rightarrow> k
         | None \<Rightarrow> \<lparr>cm_capabilityId = capabilityId, cm_displayName = None, cm_description = None,
                   cm_providerType = Some (iv_providerType p), cm_requiredPermissions = None,
                   cm_supportedContext = None\<rparr>)"

definition inventory_capabilities :: "inventory_record \<Rightarrow> capability_match list \<Rightarrow> capability_match list" where
  "inventory_capabilities p catalog = map (catalog_entry catalog p) (iv_capabilities p)"

definition candidate_of ::
  "(string \<Rightarrow> string) \<Rightarrow> resolution_context \<Rightarrow> task_intent \<Rightarrow> inventory_record \<Rightarrow> capability_match \<Rightarrow> capability_candidate" where
  "candidate_of lower ctx intent p k =
     (let (score, reasons) = score_capability lower intent k p; rejected = eligible_reasons ctx intent p k
      in \<lparr>cc_providerId = iv_providerId p, cc_capabilityId = cm_capabilityId k, cc_score = score,
          cc_eligible = (rejected = []), cc_matchReasons = reasons, cc_rejectionReasons = rejected\<rparr>)"

definition candidate_compare ::
  "(string \<Rightarrow> string \<Rightarrow> int) \<Rightarrow> capability_candidate \<Rightarrow> capability_candidate \<Rightarrow> int" where
  "candidate_compare cmp a b =
     (let e = of_bool (cc_eligible b) - of_bool (cc_eligible a); s = cc_score b - cc_score a;
          p = cmp (cc_providerId a) (cc_providerId b)
      in if e \<noteq> 0 then e else if s \<noteq> 0 then s else if p \<noteq> 0 then p
         else cmp (cc_capabilityId a) (cc_capabilityId b))"

definition resolve_capabilities ::
  "(string \<Rightarrow> string) \<Rightarrow> (string \<Rightarrow> string \<Rightarrow> int) \<Rightarrow> string \<Rightarrow> resolution_context \<Rightarrow> task_intent
   \<Rightarrow> inventory_record list \<Rightarrow> capability_match list \<Rightarrow> string \<Rightarrow> capability_resolution" where
  "resolve_capabilities lower cmp uuid ctx intent providers catalog resolvedAt =
     (let candidates = concat (map (\<lambda>p. map (candidate_of lower ctx intent p) (inventory_capabilities p catalog)) providers);
          bounded = take max_candidates (js_sort (candidate_compare cmp) candidates)
      in \<lparr>cr_resolutionId = ''capability-resolution-'' @ uuid, cr_sessionId = rc_sessionId ctx, cr_requested = intent,
          cr_candidates = bounded,
          cr_availableCapabilities = sorted_unique (map cc_capabilityId (filter cc_eligible bounded)),
          cr_unavailableCapabilities = sorted_unique (map cc_capabilityId (filter (\<lambda>c. \<not> cc_eligible c) bounded)),
          cr_providerHealthImpact =
            js_sort (\<lambda>a b. cmp (hi_providerId a) (hi_providerId b))
              (map (\<lambda>p. \<lparr>hi_providerId = iv_providerId p, hi_health = iv_health p,
                          hi_available = (iv_health p = HealthHealthy)\<rparr>) providers),
          cr_resolvedAt = resolvedAt\<rparr>)"

section \<open>The file of resolutions\<close>

datatype resolution_failure = InventoryUnavailable | DecisionStoreCorrupt | DecisionStoreBusy

type_synonym resolution_disk = "capability_resolution list_disk"

definition candidate_ok :: "capability_candidate \<Rightarrow> bool" where
  "candidate_ok c =
     (bounded_string 160 (cc_providerId c) \<and> bounded_string 160 (cc_capabilityId c)
      \<and> 0 \<le> cc_score c \<and> cc_score c \<le> 100 \<and> list_all (bounded_string 100) (cc_matchReasons c))"

definition resolution_ok :: "capability_resolution \<Rightarrow> bool" where
  "resolution_ok r =
     (bounded_string 200 (cr_resolutionId r) \<and> bounded_string 200 (cr_sessionId r)
      \<and> bounded_string 2000 (ti_query (cr_requested r))
      \<and> length (cr_candidates r) \<le> max_candidates \<and> list_all candidate_ok (cr_candidates r)
      \<and> iso_timestamp (cr_resolvedAt r))"

definition read_resolutions :: "resolution_disk \<Rightarrow> capability_resolution list option" where
  "read_resolutions d = read_valid max_decisions resolution_ok id d"

definition kept_resolutions ::
  "(string \<Rightarrow> string \<Rightarrow> int) \<Rightarrow> int option \<Rightarrow> capability_resolution list \<Rightarrow> capability_resolution list" where
  "kept_resolutions cmp maxDecisions rs =
     (let n = min (int max_decisions) (max 1 (case maxDecisions of None \<Rightarrow> int max_decisions | Some n \<Rightarrow> n))
      in slice_last (nat n) (js_sort (\<lambda>a b. cmp (cr_resolvedAt a) (cr_resolvedAt b)) rs))"

definition with_resolutions ::
  "(string \<Rightarrow> string \<Rightarrow> int) \<Rightarrow> io_env \<Rightarrow> int option \<Rightarrow> resolution_disk
   \<Rightarrow> (capability_resolution list \<Rightarrow> (resolution_failure + 'a) \<times> capability_resolution list)
   \<Rightarrow> resolution_disk \<times> (resolution_failure + 'a)" where
  "with_resolutions cmp e maxDecisions d callback =
     guarded read_resolutions (kept_resolutions cmp maxDecisions) DecisionStoreBusy DecisionStoreCorrupt e d callback"

definition resolve_and_record_capabilities ::
  "(string \<Rightarrow> string) \<Rightarrow> (string \<Rightarrow> string \<Rightarrow> int) \<Rightarrow> io_env \<Rightarrow> int option \<Rightarrow> resolution_context \<Rightarrow> task_intent
   \<Rightarrow> capability_match list \<Rightarrow> inventory_disk \<Rightarrow> resolution_disk
   \<Rightarrow> resolution_disk \<times> (resolution_failure + capability_resolution)" where
  "resolve_and_record_capabilities lower cmp e maxDecisions ctx intent catalog inventory d =
     (case list_provider_inventory cmp inventory of
        Inl f \<Rightarrow> (d, Inl InventoryUnavailable)
      | Inr providers \<Rightarrow>
          (let r = resolve_capabilities lower cmp (io_uuid e) ctx intent providers catalog (io_startNow e)
           in with_resolutions cmp e maxDecisions d (\<lambda>rs. (Inr r, rs @ [r]))))"

definition list_capability_decisions :: "resolution_disk \<Rightarrow> resolution_failure + capability_resolution list" where
  "list_capability_decisions d =
     (case read_resolutions d of None \<Rightarrow> Inl DecisionStoreCorrupt | Some rs \<Rightarrow> Inr rs)"

section \<open>Candidates\<close>

text \<open>What makes a capability of a provider usable in a context, stated directly.\<close>

definition may_use ::
  "resolution_context \<Rightarrow> task_intent \<Rightarrow> capability_match \<Rightarrow> inventory_record \<Rightarrow> bool" where
  "may_use ctx intent k p \<longleftrightarrow>
     iv_enabled p \<and> pinned (iv_registrationState p) \<and> iv_health p = HealthHealthy
     \<and> rc_status ctx \<in> {CtxProposed, CtxConfirmed}
     \<and> (\<forall>ids. rc_allowedProviderIds ctx = Some ids \<longrightarrow> iv_providerId p \<in> set ids)
     \<and> set (opt_list (ti_requiredPermissions intent)) \<union> set (opt_list (cm_requiredPermissions k))
         \<subseteq> (case rc_allowedPermissions ctx of None \<Rightarrow> {PermRead} | Some ps \<Rightarrow> set ps)"

lemma catalog_entry_id [simp]: "cm_capabilityId (catalog_entry catalog p i) = i"
  by (auto simp: catalog_entry_def Let_def split: option.split dest: find_Some_iff_in)

lemma set_sorted_permissions [simp]: "set (sorted_permissions ps) = set ps"
  by (simp add: sorted_permissions_def)

lemma permission_check_iff:
  "permission_check required allowed
     \<longleftrightarrow> set required \<subseteq> (case allowed of None \<Rightarrow> {PermRead} | Some ps \<Rightarrow> set ps)"
  by (auto simp: permission_check_def list_all_iff split: option.split)

lemma no_reason: "map snd (filter fst xs) = [] \<longleftrightarrow> list_all (\<lambda>x. \<not> fst x) xs"
  by (induction xs) auto

lemma eligible_iff:
  assumes "cm_capabilityId k \<in> set (iv_capabilities p)"
  shows "eligible_reasons ctx intent p k = [] \<longleftrightarrow> may_use ctx intent k p"
proof -
  have "eligible_reasons ctx intent p k = [] \<longleftrightarrow>
      pinned (iv_registrationState p) \<and> \<not> (iv_registrationState p = RegDisabled \<or> \<not> iv_enabled p)
      \<and> iv_health p = HealthHealthy
      \<and> \<not> (case rc_allowedProviderIds ctx of None \<Rightarrow> False | Some ids \<Rightarrow> iv_providerId p \<notin> set ids)
      \<and> permission_check (sorted_permissions (opt_list (ti_requiredPermissions intent) @ opt_list (cm_requiredPermissions k)))
            (rc_allowedPermissions ctx)
      \<and> (rc_status ctx = CtxConfirmed \<or> rc_status ctx = CtxProposed)"
    unfolding eligible_reasons_def no_reason by (simp add: assms pinned_def)
  then show ?thesis
    by (auto simp: may_use_def permission_check_iff pinned_def split: option.splits)
qed

lemma sum_of_parts:
  fixes ps :: "(bool \<times> int \<times> string) list"
  shows "(\<forall>(b, n, r) \<in> set ps. b \<longrightarrow> 0 \<le> n) \<Longrightarrow> 0 \<le> sum_list (map (\<lambda>(b, n, r). n) (filter fst ps))"
  by (induction ps) auto

lemma parts_positive: "\<forall>(b, n, r) \<in> set (score_parts lower intent k p). b \<longrightarrow> 0 \<le> n"
  unfolding score_parts_def Let_def by simp

lemma score_bounds:
  "0 \<le> fst (score_capability lower intent k p)" "fst (score_capability lower intent k p) \<le> 100"
  unfolding score_capability_def Let_def fst_conv
  using sum_of_parts [OF parts_positive, of lower intent k p] by simp_all

text \<open>Sorting by a comparison that decides a transitive relation first.\<close>

lemma set_insert_by: "set (insert_by cmp x ys) = insert x (set ys)"
  by (metis mset_insert_by set_mset_add_mset_insert set_mset_mset)

lemma sorted_insert_by:
  assumes R: "transp R" "\<And>a b. cmp a b \<le> 0 \<Longrightarrow> R a b" "\<And>a b. \<not> cmp a b \<le> 0 \<Longrightarrow> R b a"
  shows "sorted_wrt R ys \<Longrightarrow> sorted_wrt R (insert_by cmp x ys)"
proof (induction ys)
  case (Cons y ys)
  show ?case
  proof (cases "cmp x y \<le> 0")
    case True
    then have "R x y" by (rule R(2))
    with Cons.prems True show ?thesis using transpD [OF R(1)] by auto
  next
    case False
    then have "R y x" by (rule R(3))
    with Cons False show ?thesis by (auto simp: set_insert_by)
  qed
qed simp

lemma sorted_js_sort:
  assumes "transp R" "\<And>a b. cmp a b \<le> 0 \<Longrightarrow> R a b" "\<And>a b. \<not> cmp a b \<le> 0 \<Longrightarrow> R b a"
  shows "sorted_wrt R (js_sort cmp xs)"
proof (induction xs)
  case (Cons x xs)
  then show ?case using sorted_insert_by [of R cmp, OF assms] by (simp add: js_sort_def)
qed (simp add: js_sort_def)

definition ranked_before :: "capability_candidate \<Rightarrow> capability_candidate \<Rightarrow> bool" where
  "ranked_before a b \<longleftrightarrow>
     (cc_eligible a \<and> \<not> cc_eligible b) \<or> (cc_eligible a = cc_eligible b \<and> cc_score b \<le> cc_score a)"

lemma ranked_sort: "sorted_wrt ranked_before (js_sort (candidate_compare cmp) cs)"
proof (rule sorted_js_sort)
  show "transp ranked_before" by (rule transpI) (auto simp: ranked_before_def)
  show "ranked_before a b" if "candidate_compare cmp a b \<le> 0" for a b
    using that by (auto simp: candidate_compare_def ranked_before_def Let_def split: if_splits)
  show "ranked_before b a" if "\<not> candidate_compare cmp a b \<le> 0" for a b
    using that by (auto simp: candidate_compare_def ranked_before_def Let_def split: if_splits)
qed

lemma candidate_of_simps:
  "cc_providerId (candidate_of lower ctx intent p k) = iv_providerId p"
  "cc_capabilityId (candidate_of lower ctx intent p k) = cm_capabilityId k"
  "cc_score (candidate_of lower ctx intent p k) = fst (score_capability lower intent k p)"
  "cc_eligible (candidate_of lower ctx intent p k) = (eligible_reasons ctx intent p k = [])"
  by (simp_all add: candidate_of_def case_prod_unfold Let_def)

text \<open>The candidate of one capability of one provider, as the resolution should have it.\<close>

definition fits ::
  "resolution_context \<Rightarrow> task_intent \<Rightarrow> capability_match list \<Rightarrow> inventory_record \<Rightarrow> string \<Rightarrow> capability_candidate \<Rightarrow> bool" where
  "fits ctx intent catalog p i c \<longleftrightarrow>
     cc_providerId c = iv_providerId p \<and> cc_capabilityId c = i \<and> 0 \<le> cc_score c \<and> cc_score c \<le> 100
     \<and> (cc_eligible c \<longleftrightarrow> may_use ctx intent (catalog_entry catalog p i) p)"

lemma candidate_fits:
  "i \<in> set (iv_capabilities p) \<Longrightarrow> fits ctx intent catalog p i (candidate_of lower ctx intent p (catalog_entry catalog p i))"
  by (simp add: fits_def candidate_of_simps score_bounds eligible_iff)

lemma resolution_candidates:
  "cr_candidates (resolve_capabilities lower cmp uuid ctx intent providers catalog t)
     = take 500 (js_sort (candidate_compare cmp)
         (concat (map (\<lambda>p. map (\<lambda>i. candidate_of lower ctx intent p (catalog_entry catalog p i)) (iv_capabilities p)) providers)))"
  by (simp add: resolve_capabilities_def Let_def inventory_capabilities_def max_candidates_def comp_def)

section \<open>Properties\<close>

text \<open>
  C39. A resolution is exact: each of its at most 500 candidates is a capability of a provider
  offered, scored from 0 to 100, and eligible just when the provider is enabled, registered and
  healthy, the context is not over, allows the provider and allows every permission that the task
  or the catalog asks for (only reading, when it names no permissions); eligible candidates come
  first and better scores before worse; no capability is missing unless there are more than 500;
  and the list of available capabilities is exactly those of the eligible candidates.
\<close>

theorem resolution_exact:
  assumes r: "r = resolve_capabilities lower cmp uuid ctx intent providers catalog t"
  shows "length (cr_candidates r) \<le> 500
    \<and> (\<forall>c \<in> set (cr_candidates r). \<exists>p \<in> set providers. \<exists>i \<in> set (iv_capabilities p). fits ctx intent catalog p i c)
    \<and> sorted_wrt ranked_before (cr_candidates r)
    \<and> (sum_list (map (\<lambda>p. length (iv_capabilities p)) providers) \<le> 500
       \<longrightarrow> (\<forall>p \<in> set providers. \<forall>i \<in> set (iv_capabilities p). \<exists>c \<in> set (cr_candidates r). fits ctx intent catalog p i c))
    \<and> set (cr_availableCapabilities r) = cc_capabilityId ` {c \<in> set (cr_candidates r). cc_eligible c}"
proof -
  let ?all = "concat (map (\<lambda>p. map (\<lambda>i. candidate_of lower ctx intent p (catalog_entry catalog p i)) (iv_capabilities p)) providers)"
  have cands: "cr_candidates r = take 500 (js_sort (candidate_compare cmp) ?all)"
    unfolding r by (rule resolution_candidates)
  then have sub: "set (cr_candidates r) \<subseteq> set ?all"
    using set_take_subset [of 500 "js_sort (candidate_compare cmp) ?all"] by simp
  have fit: "\<exists>p \<in> set providers. \<exists>i \<in> set (iv_capabilities p). fits ctx intent catalog p i c" if c: "c \<in> set ?all" for c
  proof -
    obtain p i where "p \<in> set providers" "i \<in> set (iv_capabilities p)"
      "c = candidate_of lower ctx intent p (catalog_entry catalog p i)"
      using c by auto
    then show ?thesis using candidate_fits by blast
  qed
  have "\<exists>c \<in> set (cr_candidates r). fits ctx intent catalog p i c"
    if "sum_list (map (\<lambda>p. length (iv_capabilities p)) providers) \<le> 500" "p \<in> set providers" "i \<in> set (iv_capabilities p)" for p i
  proof -
    have "length ?all = sum_list (map (\<lambda>p. length (iv_capabilities p)) providers)"
      by (simp add: length_concat comp_def)
    with that(1) have "set (cr_candidates r) = set ?all" by (simp add: cands)
    moreover have "candidate_of lower ctx intent p (catalog_entry catalog p i) \<in> set ?all" using that(2,3) by auto
    ultimately show ?thesis using candidate_fits [OF that(3)] by blast
  qed
  moreover have "sorted_wrt ranked_before (cr_candidates r)"
    unfolding cands by (rule sorted_wrt_take) (rule ranked_sort)
  moreover have "set (cr_availableCapabilities r) = cc_capabilityId ` {c \<in> set (cr_candidates r). cc_eligible c}"
    by (auto simp: r resolve_capabilities_def Let_def sorted_unique_def)
  moreover have "length (cr_candidates r) \<le> 500" by (simp add: cands)
  moreover have "\<forall>c \<in> set (cr_candidates r). \<exists>p \<in> set providers. \<exists>i \<in> set (iv_capabilities p). fits ctx intent catalog p i c"
    using fit sub by blast
  ultimately show ?thesis by blast
qed

text \<open>Nothing checks a resolution when it is recorded: one of an empty query is written, and the
  file cannot be read any more.\<close>

definition sample_context :: resolution_context where
  "sample_context =
     \<lparr>rc_sessionId = ''s'', rc_status = CtxConfirmed, rc_sourceIds = [''src''], rc_allowedProviderIds = None,
      rc_allowedPermissions = None, rc_contextTags = None\<rparr>"

definition sample_intent :: "string \<Rightarrow> task_intent" where
  "sample_intent q =
     \<lparr>ti_query = q, ti_requestedCapabilities = None, ti_providerTypes = None, ti_requiredPermissions = None,
      ti_contextTags = None\<rparr>"

definition enabled_provider :: inventory_record where
  "enabled_provider =
     (to_record (entry_of [] (found_manifest (CHR ''a''))) ''s'' noon)\<lparr>iv_registrationState := RegEnabled, iv_enabled := True\<rparr>"

theorem resolution_exact_witness:
  "let r = resolve_capabilities id byte_order ''u'' sample_context (sample_intent ''cap'') [enabled_provider] [] noon
   in cr_availableCapabilities r = [''cap'']
      \<and> length (cr_candidates r) \<le> 500
      \<and> (\<exists>c \<in> set (cr_candidates r). fits sample_context (sample_intent ''cap'') [] enabled_provider ''cap'' c)"
proof -
  let ?r = "resolve_capabilities id byte_order ''u'' sample_context (sample_intent ''cap'') [enabled_provider] [] noon"
  have caps: "iv_capabilities enabled_provider = [''cap'']" by code_simp
  have avail: "cr_availableCapabilities ?r = [''cap'']" by code_simp
  note x = resolution_exact [OF refl, of id byte_order "''u''" sample_context "sample_intent ''cap''" "[enabled_provider]" "[]" noon]
  from x have len: "length (cr_candidates ?r) \<le> 500" by (rule conjunct1)
  from x have all: "sum_list (map (\<lambda>p. length (iv_capabilities p)) [enabled_provider]) \<le> 500
       \<longrightarrow> (\<forall>p \<in> set [enabled_provider]. \<forall>i \<in> set (iv_capabilities p).
             \<exists>c \<in> set (cr_candidates ?r). fits sample_context (sample_intent ''cap'') [] p i c)"
    by (elim conjE)
  then have "\<exists>c \<in> set (cr_candidates ?r). fits sample_context (sample_intent ''cap'') [] enabled_provider ''cap'' c"
    by (simp add: caps)
  with len avail show ?thesis unfolding Let_def by (intro conjI)
qed

lemma empty_query_corrupts_resolutions:
  "(case resolve_and_record_capabilities id byte_order (inventory_env\<lparr>io_startNow := noon\<rparr>) None sample_context
      (sample_intent []) [] NoFile NoFile of
      (d, Inr r) \<Rightarrow> list_capability_decisions d = Inl DecisionStoreCorrupt
    | _ \<Rightarrow> False)"
  by code_simp

end
