(* ===== verification/Capability_Planning.thy ===== *)
theory Capability_Planning
  imports Capability_Resolution Json
begin

text \<open>
  \<^verbatim>\<open>packages/mcp/src/capability-planning.ts\<close>: a plan to use one capability of one provider. It is
  made from an eligible candidate of a resolution, the provider's manifest and a grant that covers
  it, is kept in a file, reviewed and approved there, and checked again before it is used.
  \<open>hash\<close> is SHA-256 in lower-case hexadecimal, \<open>cmp\<close> is \<^verbatim>\<open>localeCompare\<close>; the audit event of a
  new plan goes to another file and is left out.
\<close>

section \<open>Data\<close>

datatype plan_state = PlanProposed | PlanReviewed | PlanApproved | PlanRejected | PlanExpired | PlanCancelled

datatype plan_validity = PlanValid | PlanInvalidated

datatype plan_risk = RiskLow | RiskMedium | RiskHigh

record capability_budget =
  cb_maximumBytes :: int
  cb_maximumDurationMs :: int
  cb_maximumQueries :: int

datatype grant_state = GrantIsActive | GrantIsExpired | GrantIsRevoked | GrantIsDenied

record grant_snapshot =
  gs_grantId :: string
  gs_grantVersion :: int
  gs_state :: grant_state
  gs_permissions :: "capability_permission list"
  gs_allowedProviderIds :: "string list option"
  gs_allowedCapabilityIds :: "string list option"
  gs_budgets :: capability_budget
  gs_expiresAt :: "string option"

datatype invalidation_reason =
    ProviderChanged | CapabilityChanged | ContextExpired | PermissionsChanged | GrantExpired | PlanPastExpiry

record plan_audit =
  pa_resolutionId :: string
  pa_grantId :: string
  pa_createdAt :: string
  pa_createdBy :: string

record plan_grant_binding =
  pg_grantId :: string
  pg_grantVersion :: int
  pg_permissionDigest :: string
  pg_budgetDigest :: string

record capability_plan =
  cp_planId :: string
  cp_contextSessionId :: string
  cp_sourceIds :: "string list"
  cp_providerId :: string
  cp_capabilityId :: string
  cp_capabilityManifestDigest :: string
  cp_selectedCandidateReason :: string
  cp_requestedOperation :: string
  cp_requiredPermissions :: "capability_permission list"
  cp_requiredBudgets :: capability_budget
  cp_riskClassification :: plan_risk
  cp_expiresAt :: string
  cp_approvalState :: plan_state
  cp_validity :: plan_validity
  cp_invalidationReason :: "invalidation_reason option"
  cp_auditIdentity :: plan_audit
  cp_grantBinding :: plan_grant_binding

record plan_input =
  pn_sessionId :: string
  pn_status :: context_status
  pn_sourceIds :: "string list"
  pn_resolution :: capability_resolution
  pn_providers :: "inventory_record list"
  pn_grants :: "grant_snapshot list"
  pn_selectedProviderId :: "string option"
  pn_selectedCapabilityId :: "string option"
  pn_requestedOperation :: string
  pn_requiredPermissions :: "capability_permission list option"
  pn_requiredBudgets :: capability_budget
  pn_riskClassification :: "plan_risk option"
  pn_expiresAt :: string
  pn_createdBy :: string
  pn_now :: string

datatype plan_failure =
    ResolutionMismatch | CandidateIneligible | ProviderMissing | GrantMissing | GrantIncompatible
  | ContextInvalid | InvalidExpiry | PlanStoreCorrupt | PlanStoreBusy | PlanNotFound | InvalidPlanTransition

type_synonym plan_disk = "capability_plan list_disk"

definition max_plans :: nat where "max_plans = 300"

section \<open>Canonical texts and digests\<close>

definition plan_canonical :: "json \<Rightarrow> string" where
  "plan_canonical v = json_text (sorted_json v)"

definition plan_digest :: "(string \<Rightarrow> string) \<Rightarrow> json \<Rightarrow> string" where
  "plan_digest hash v = hash (plan_canonical v)"

definition strings_json :: "string list \<Rightarrow> json" where
  "strings_json xs = JArr (map JStr xs)"

definition permissions_json :: "capability_permission list \<Rightarrow> json" where
  "permissions_json ps = strings_json (map permission_text ps)"

definition budget_json :: "capability_budget \<Rightarrow> json" where
  "budget_json b =
     JObj [(''maximumBytes'', JNum (show_int (cb_maximumBytes b))),
           (''maximumDurationMs'', JNum (show_int (cb_maximumDurationMs b))),
           (''maximumQueries'', JNum (show_int (cb_maximumQueries b)))]"

section \<open>Making a plan\<close>

definition required_permission_set :: "plan_input \<Rightarrow> capability_permission list" where
  "required_permission_set i = sorted_permissions (opt_list (pn_requiredPermissions i))"

definition grant_for :: "plan_input \<Rightarrow> string \<Rightarrow> string \<Rightarrow> grant_snapshot option" where
  "grant_for i providerId capabilityId =
     List.find (\<lambda>g. gs_state g = GrantIsActive
       \<and> (case gs_allowedProviderIds g of None \<Rightarrow> True | Some ids \<Rightarrow> providerId \<in> set ids)
       \<and> (case gs_allowedCapabilityIds g of None \<Rightarrow> True | Some ids \<Rightarrow> capabilityId \<in> set ids)) (pn_grants i)"

definition within_budget :: "capability_budget \<Rightarrow> capability_budget \<Rightarrow> bool" where
  "within_budget b c =
     (cb_maximumBytes b \<le> cb_maximumBytes c \<and> cb_maximumDurationMs b \<le> cb_maximumDurationMs c
      \<and> cb_maximumQueries b \<le> cb_maximumQueries c)"

definition grant_supports :: "grant_snapshot \<Rightarrow> capability_permission list \<Rightarrow> capability_budget \<Rightarrow> bool" where
  "grant_supports g ps b = (list_all (\<lambda>p. p \<in> set (gs_permissions g)) ps \<and> within_budget b (gs_budgets g))"

definition risk_for :: "capability_permission list \<Rightarrow> plan_risk option \<Rightarrow> plan_risk" where
  "risk_for ps requested =
     (case requested of
        Some r \<Rightarrow> r
      | None \<Rightarrow>
          if list_ex (\<lambda>p. p \<in> {PermWrite, PermCommand, PermNetwork}) ps then RiskHigh
          else if PermCapability \<in> set ps then RiskMedium else RiskLow)"

definition selected_candidate :: "plan_input \<Rightarrow> capability_candidate option" where
  "selected_candidate i =
     List.find (\<lambda>c. cc_eligible c
       \<and> (truthy (pn_selectedProviderId i) \<longrightarrow> Some (cc_providerId c) = pn_selectedProviderId i)
       \<and> (truthy (pn_selectedCapabilityId i) \<longrightarrow> Some (cc_capabilityId c) = pn_selectedCapabilityId i))
       (cr_candidates (pn_resolution i))"

definition plan_of ::
  "(string \<Rightarrow> string) \<Rightarrow> string \<Rightarrow> plan_input \<Rightarrow> capability_candidate \<Rightarrow> inventory_record \<Rightarrow> grant_snapshot \<Rightarrow> capability_plan" where
  "plan_of hash uuid i c p g =
     \<lparr>cp_planId = ''capability-plan-'' @ uuid, cp_contextSessionId = pn_sessionId i,
      cp_sourceIds = sort (pn_sourceIds i), cp_providerId = iv_providerId p, cp_capabilityId = cc_capabilityId c,
      cp_capabilityManifestDigest = id_digest (iv_manifestIdentity p),
      cp_selectedCandidateReason =
        (if cc_matchReasons c \<noteq> [] then join '','' (cc_matchReasons c) else ''eligible_capability_candidate''),
      cp_requestedOperation = pn_requestedOperation i, cp_requiredPermissions = required_permission_set i,
      cp_requiredBudgets = pn_requiredBudgets i,
      cp_riskClassification = risk_for (required_permission_set i) (pn_riskClassification i),
      cp_expiresAt = pn_expiresAt i, cp_approvalState = PlanProposed, cp_validity = PlanValid,
      cp_invalidationReason = None,
      cp_auditIdentity = \<lparr>pa_resolutionId = cr_resolutionId (pn_resolution i), pa_grantId = gs_grantId g,
                          pa_createdAt = pn_now i, pa_createdBy = pn_createdBy i\<rparr>,
      cp_grantBinding = \<lparr>pg_grantId = gs_grantId g, pg_grantVersion = gs_grantVersion g,
                         pg_permissionDigest = plan_digest hash (permissions_json (gs_permissions g)),
                         pg_budgetDigest = plan_digest hash (budget_json (gs_budgets g))\<rparr>\<rparr>"

definition create_capability_plan ::
  "(string \<Rightarrow> string) \<Rightarrow> string \<Rightarrow> plan_input \<Rightarrow> plan_failure + capability_plan" where
  "create_capability_plan hash uuid i =
     (if pn_status i = CtxExpired \<or> pn_status i = CtxCleared then Inl ContextInvalid
      else if cr_sessionId (pn_resolution i) \<noteq> pn_sessionId i then Inl ResolutionMismatch
      else if \<not> iso_timestamp (pn_expiresAt i) \<or> time_le (pn_expiresAt i) (pn_now i) then Inl InvalidExpiry
      else case selected_candidate i of
        None \<Rightarrow> Inl CandidateIneligible
      | Some c \<Rightarrow>
          (case List.find (\<lambda>p. iv_providerId p = cc_providerId c) (pn_providers i) of
             None \<Rightarrow> Inl ProviderMissing
           | Some p \<Rightarrow>
               (case grant_for i (cc_providerId c) (cc_capabilityId c) of
                  None \<Rightarrow> Inl GrantMissing
                | Some g \<Rightarrow>
                    if \<not> grant_supports g (required_permission_set i) (pn_requiredBudgets i) then Inl GrantIncompatible
                    else Inr (plan_of hash uuid i c p g))))"

section \<open>The file of plans\<close>

definition plan_ok :: "capability_plan \<Rightarrow> bool" where
  "plan_ok p =
     (list_all (bounded_string 2000)
        [cp_planId p, cp_contextSessionId p, cp_selectedCandidateReason p, cp_requestedOperation p,
         pa_resolutionId (cp_auditIdentity p), pa_grantId (cp_auditIdentity p), pa_createdBy (cp_auditIdentity p),
         pg_grantId (cp_grantBinding p)]
      \<and> list_all (bounded_string 200) (cp_sourceIds p)
      \<and> bounded_string 160 (cp_providerId p) \<and> bounded_string 160 (cp_capabilityId p)
      \<and> list_all valid_hash [cp_capabilityManifestDigest p, pg_permissionDigest (cp_grantBinding p),
                             pg_budgetDigest (cp_grantBinding p)]
      \<and> 0 \<le> cb_maximumBytes (cp_requiredBudgets p) \<and> 0 \<le> cb_maximumDurationMs (cp_requiredBudgets p)
      \<and> 0 \<le> cb_maximumQueries (cp_requiredBudgets p)
      \<and> iso_timestamp (cp_expiresAt p) \<and> iso_timestamp (pa_createdAt (cp_auditIdentity p)))"

definition by_plan :: "(string \<Rightarrow> string \<Rightarrow> int) \<Rightarrow> capability_plan list \<Rightarrow> capability_plan list" where
  "by_plan cmp ps = js_sort (\<lambda>a b. cmp (cp_planId a) (cp_planId b)) ps"

definition read_plans :: "(string \<Rightarrow> string \<Rightarrow> int) \<Rightarrow> plan_disk \<Rightarrow> capability_plan list option" where
  "read_plans cmp d = read_valid max_plans plan_ok (by_plan cmp) d"

definition kept_plans :: "(string \<Rightarrow> string \<Rightarrow> int) \<Rightarrow> int option \<Rightarrow> capability_plan list \<Rightarrow> capability_plan list" where
  "kept_plans cmp maxPlans ps =
     (let n = min (int max_plans) (max 1 (case maxPlans of None \<Rightarrow> int max_plans | Some n \<Rightarrow> n))
      in slice_last (nat n) (by_plan cmp ps))"

definition with_plans ::
  "(string \<Rightarrow> string \<Rightarrow> int) \<Rightarrow> io_env \<Rightarrow> int option \<Rightarrow> plan_disk
   \<Rightarrow> (capability_plan list \<Rightarrow> (plan_failure + 'a) \<times> capability_plan list) \<Rightarrow> plan_disk \<times> (plan_failure + 'a)" where
  "with_plans cmp e maxPlans d callback =
     guarded (read_plans cmp) (kept_plans cmp maxPlans) PlanStoreBusy PlanStoreCorrupt e d callback"

definition create_and_persist_capability_plan ::
  "(string \<Rightarrow> string) \<Rightarrow> (string \<Rightarrow> string \<Rightarrow> int) \<Rightarrow> io_env \<Rightarrow> int option \<Rightarrow> plan_input \<Rightarrow> plan_disk
   \<Rightarrow> plan_disk \<times> (plan_failure + capability_plan)" where
  "create_and_persist_capability_plan hash cmp e maxPlans i d =
     (case create_capability_plan hash (io_uuid e) i of
        Inl f \<Rightarrow> (d, Inl f)
      | Inr p \<Rightarrow> with_plans cmp e maxPlans d (\<lambda>ps. (Inr p, ps @ [p])))"

primrec plan_transitions :: "plan_state \<Rightarrow> plan_state list" where
  "plan_transitions PlanProposed = [PlanReviewed, PlanRejected, PlanCancelled]"
| "plan_transitions PlanReviewed = [PlanApproved, PlanRejected, PlanCancelled]"
| "plan_transitions PlanApproved = [PlanExpired, PlanCancelled]"
| "plan_transitions PlanRejected = []"
| "plan_transitions PlanExpired = []"
| "plan_transitions PlanCancelled = []"

definition find_plan :: "string \<Rightarrow> capability_plan list \<Rightarrow> capability_plan option" where
  "find_plan planId ps = List.find (\<lambda>p. cp_planId p = planId) ps"

definition change_plan :: "string \<Rightarrow> (capability_plan \<Rightarrow> capability_plan) \<Rightarrow> capability_plan list \<Rightarrow> capability_plan list" where
  "change_plan planId f ps = modify_first (\<lambda>p. cp_planId p = planId) f ps"

definition transition_capability_plan ::
  "(string \<Rightarrow> string \<Rightarrow> int) \<Rightarrow> io_env \<Rightarrow> int option \<Rightarrow> string \<Rightarrow> plan_state \<Rightarrow> plan_disk
   \<Rightarrow> plan_disk \<times> (plan_failure + capability_plan)" where
  "transition_capability_plan cmp e maxPlans planId next d =
     with_plans cmp e maxPlans d (\<lambda>ps.
       case find_plan planId ps of
         None \<Rightarrow> (Inl PlanNotFound, ps)
       | Some p \<Rightarrow>
           if next \<notin> set (plan_transitions (cp_approvalState p)) then (Inl InvalidPlanTransition, ps)
           else (Inr (p\<lparr>cp_approvalState := next\<rparr>), change_plan planId (\<lambda>p. p\<lparr>cp_approvalState := next\<rparr>) ps))"

section \<open>Checking a plan again\<close>

record plan_current =
  pv_sessionId :: string
  pv_status :: context_status
  pv_sourceIds :: "string list"
  pv_provider :: "inventory_record option"
  pv_grant :: "grant_snapshot option"
  pv_now :: string

definition grant_unchanged :: "(string \<Rightarrow> string) \<Rightarrow> capability_plan \<Rightarrow> grant_snapshot \<Rightarrow> bool" where
  "grant_unchanged hash p g =
     (gs_grantId g = pg_grantId (cp_grantBinding p) \<and> gs_grantVersion g = pg_grantVersion (cp_grantBinding p)
      \<and> plan_digest hash (permissions_json (gs_permissions g)) = pg_permissionDigest (cp_grantBinding p)
      \<and> plan_digest hash (budget_json (gs_budgets g)) = pg_budgetDigest (cp_grantBinding p))"

definition invalid_because ::
  "(string \<Rightarrow> string) \<Rightarrow> capability_plan \<Rightarrow> plan_current \<Rightarrow> invalidation_reason option" where
  "invalid_because hash p v =
     (let over = pv_status v = CtxExpired \<or> pv_status v = CtxCleared in
      if cp_contextSessionId p \<noteq> pv_sessionId v \<or> over
         \<or> plan_canonical (strings_json (cp_sourceIds p)) \<noteq> plan_canonical (strings_json (sort (pv_sourceIds v)))
      then Some (if over then ContextExpired else ProviderChanged)
      else if (case pv_provider v of None \<Rightarrow> True
               | Some q \<Rightarrow> id_digest (iv_manifestIdentity q) \<noteq> cp_capabilityManifestDigest p)
      then Some ProviderChanged
      else case pv_grant v of
        None \<Rightarrow> Some GrantExpired
      | Some g \<Rightarrow>
          if gs_state g \<noteq> GrantIsActive then Some GrantExpired
          else if \<not> grant_unchanged hash p g then Some PermissionsChanged
          else if time_le (cp_expiresAt p) (pv_now v) then Some PlanPastExpiry
          else None)"

text \<open>The plan as the check leaves it, and the reason that invalidates it.\<close>

definition validate_capability_plan ::
  "(string \<Rightarrow> string) \<Rightarrow> capability_plan \<Rightarrow> plan_current \<Rightarrow> capability_plan \<times> invalidation_reason option" where
  "validate_capability_plan hash p v =
     (case invalid_because hash p v of
        None \<Rightarrow> (p, None)
      | Some r \<Rightarrow> (p\<lparr>cp_validity := PlanInvalidated, cp_invalidationReason := Some r\<rparr>, Some r))"

definition revalidate_capability_plan ::
  "(string \<Rightarrow> string) \<Rightarrow> (string \<Rightarrow> string \<Rightarrow> int) \<Rightarrow> io_env \<Rightarrow> int option \<Rightarrow> string \<Rightarrow> plan_current \<Rightarrow> plan_disk
   \<Rightarrow> plan_disk \<times> (plan_failure + capability_plan)" where
  "revalidate_capability_plan hash cmp e maxPlans planId v d =
     (let (d', result) = with_plans cmp e maxPlans d (\<lambda>ps.
            case find_plan planId ps of
              None \<Rightarrow> (Inl PlanNotFound, ps)
            | Some p \<Rightarrow> (Inr (fst (validate_capability_plan hash p v)),
                         change_plan planId (\<lambda>p. fst (validate_capability_plan hash p v)) ps))
      in (d', case result of
                Inl f \<Rightarrow> Inl f
              | Inr p \<Rightarrow> if cp_validity p = PlanInvalidated then Inl InvalidPlanTransition else Inr p))"

definition list_capability_plans :: "(string \<Rightarrow> string \<Rightarrow> int) \<Rightarrow> plan_disk \<Rightarrow> plan_failure + capability_plan list" where
  "list_capability_plans cmp d = (case read_plans cmp d of None \<Rightarrow> Inl PlanStoreCorrupt | Some ps \<Rightarrow> Inr ps)"

record plan_diagnostics =
  pd_pending :: "string list"
  pd_approved :: "string list"
  pd_rejected :: "string list"
  pd_expired :: "string list"
  pd_invalidated :: "string list"

definition capability_plan_diagnostics ::
  "(string \<Rightarrow> string \<Rightarrow> int) \<Rightarrow> plan_disk \<Rightarrow> plan_failure + plan_diagnostics" where
  "capability_plan_diagnostics cmp d =
     map_sum id (\<lambda>ps.
       let ids = (\<lambda>q. map cp_planId (filter q ps))
       in \<lparr>pd_pending = ids (\<lambda>p. cp_approvalState p = PlanProposed \<or> cp_approvalState p = PlanReviewed),
           pd_approved = ids (\<lambda>p. cp_approvalState p = PlanApproved \<and> cp_validity p = PlanValid),
           pd_rejected = ids (\<lambda>p. cp_approvalState p = PlanRejected),
           pd_expired = ids (\<lambda>p. cp_approvalState p = PlanExpired \<or> cp_invalidationReason p = Some PlanPastExpiry),
           pd_invalidated = ids (\<lambda>p. cp_validity p = PlanInvalidated)\<rparr>)
     (list_capability_plans cmp d)"

section \<open>What the digests determine\<close>

lemma digit_char: "(n :: nat) < 10 \<Longrightarrow> digit (char_of (48 + n))"
  by (simp add: digit_def less_eq_char_def)

lemma number_snoc: "number_of_digits (s @ [c]) = 10 * number_of_digits s + (of_char c - 48)"
  by (simp add: number_of_digits_def)

lemma show_nat_reads: "list_all digit (show_nat n) \<and> number_of_digits (show_nat n) = n \<and> show_nat n \<noteq> []"
proof (induction n rule: show_nat.induct)
  case (1 n)
  show ?case
  proof (cases "n < 10")
    case True
    then show ?thesis
      by (subst (1 2 3) show_nat.simps) (simp add: digit_char number_of_digits_def)
  next
    case False
    with 1 have "list_all digit (show_nat (n div 10))" "number_of_digits (show_nat (n div 10)) = n div 10" by simp_all
    with False show ?thesis
      by (subst (1 2 3) show_nat.simps) (simp add: digit_char number_snoc)
  qed
qed

lemma show_nat_inject: "show_nat m = show_nat n \<Longrightarrow> m = n"
  using show_nat_reads by metis

lemma show_nat_zero: "hd (show_nat n) = CHR ''0'' \<Longrightarrow> show_nat n = ''0''"
proof (induction n rule: show_nat.induct)
  case (1 n)
  show ?case
  proof (cases "n < 10")
    case True
    then show ?thesis using 1(2) by (subst show_nat.simps) (subst (asm) show_nat.simps, simp)
  next
    case False
    have "show_nat n = show_nat (n div 10) @ [char_of (48 + n mod 10)]" using False by (subst show_nat.simps) simp
    then have "hd (show_nat (n div 10)) = CHR ''0''" using 1(2) show_nat_reads [of "n div 10"] by simp
    then have "show_nat (n div 10) = ''0''" using 1(1) [OF False] by simp
    moreover have "number_of_digits ''0'' = 0" by (simp add: number_of_digits_def)
    ultimately have "n div 10 = 0" using show_nat_reads [of "n div 10"] by simp
    with False show ?thesis by simp
  qed
qed

lemma digits_literal:
  assumes "list_all digit s" "s \<noteq> []" "hd s = CHR ''0'' \<Longrightarrow> s = ''0''"
  shows "number_literal s \<and> number_literal (CHR ''-'' # s)"
proof -
  have "takeWhile digit s = s" "dropWhile digit s = []"
    using assms(1) by (auto simp: list_all_iff takeWhile_eq_all_conv dropWhile_eq_Nil_conv)
  moreover have "hd s \<noteq> CHR ''-''"
    using assms(1,2) by (cases s) (auto simp: digit_def less_eq_char_def)
  ultimately show ?thesis
    using assms(2,3) by (cases s) (auto simp: number_literal_def fraction_literal_def)
qed

lemma show_int_json: "json_ok id (JNum (show_int i))"
proof -
  have "list_all number_char (show_nat n)" for n
    using show_nat_reads [of n] by (auto simp: list_all_iff number_char_def)
  then show ?thesis
    using digits_literal [of "show_nat (nat i)"] digits_literal [of "show_nat (nat (- i))"] show_nat_reads show_nat_zero
    by (simp add: show_int_def number_char_def)
qed

lemma show_int_inject: "show_int i = show_int j \<Longrightarrow> i = j"
proof -
  have start: "show_nat n \<noteq> CHR ''-'' # t" for n t
    using show_nat_reads [of n] by (auto simp: digit_def less_eq_char_def)
  assume eq: "show_int i = show_int j"
  show "i = j"
  proof (cases "i < 0 \<longleftrightarrow> j < 0")
    case True
    then show ?thesis
      using eq show_nat_inject [of "nat (- i)" "nat (- j)"] show_nat_inject [of "nat i" "nat j"]
      by (auto simp: show_int_def split: if_splits)
  next
    case False
    then show ?thesis
      using eq start [of "nat i" "show_nat (nat (- j))"] start [of "nat j" "show_nat (nat (- i))"]
      by (auto simp: show_int_def split: if_splits)
  qed
qed

lemma same_json_cases:
  "same_json (JStr s) w \<Longrightarrow> w = JStr s" "same_json (JNum s) w \<Longrightarrow> w = JNum s"
  by (auto elim: same_json.cases)

lemma same_arrays: "same_json (JArr (map JStr xs)) (JArr (map JStr ys)) \<Longrightarrow> xs = ys"
proof (erule same_json.cases)
  fix v assume v: "JArr (map JStr xs) = v" "JArr (map JStr ys) = v"
  have "JArr (map JStr xs) = JArr (map JStr ys)" unfolding v ..
  then have "map JStr xs = map JStr ys" by (simp only: json.inject)
  then show "xs = ys" by (rule map_injective) (simp add: inj_def)
next
  fix vs ws
  assume v: "JArr (map JStr xs) = JArr vs" "JArr (map JStr ys) = JArr ws" "list_all2 same_json vs ws"
  then have "vs = map JStr xs" "ws = map JStr ys" by simp_all
  with v(3) have "list_all2 (\<lambda>x y. same_json (JStr x) (JStr y)) xs ys" by (simp add: list_all2_map1 list_all2_map2)
  then have "list_all2 (=) xs ys" by (rule list_all2_mono) (auto dest: same_json_cases)
  then show "xs = ys" by (simp add: list_all2_eq)
qed simp

lemma strings_text_inject: "plan_canonical (strings_json xs) = plan_canonical (strings_json ys) \<longleftrightarrow> xs = ys"
proof -
  have "json_ok id (strings_json zs)" for zs by (simp add: strings_json_def list_all_iff)
  from sorted_text_inject [OF this this, of xs ys] same_arrays [of xs ys] show ?thesis
    by (auto simp: plan_canonical_def strings_json_def)
qed

lemma permission_text_inject: "permission_text p = permission_text q \<longleftrightarrow> p = q"
  by (cases p; cases q) simp_all

lemma permissions_text_inject:
  "plan_canonical (permissions_json ps) = plan_canonical (permissions_json qs) \<longleftrightarrow> ps = qs"
  unfolding permissions_json_def strings_text_inject
  by (rule inj_map_eq_map) (simp add: inj_def permission_text_inject)

lemma budget_text_inject: "plan_canonical (budget_json b) = plan_canonical (budget_json c) \<Longrightarrow> b = c"
proof -
  have ok: "json_ok id (budget_json b)" for b
    using show_int_json by (simp add: budget_json_def)
  assume "plan_canonical (budget_json b) = plan_canonical (budget_json c)"
  then have "same_json (budget_json b) (budget_json c)"
    using sorted_text_inject [OF ok ok] by (simp add: plan_canonical_def)
  then have member: "rel_option same_json
      (map_of [(''maximumBytes'', JNum (show_int (cb_maximumBytes b))),
               (''maximumDurationMs'', JNum (show_int (cb_maximumDurationMs b))),
               (''maximumQueries'', JNum (show_int (cb_maximumQueries b)))] k)
      (map_of [(''maximumBytes'', JNum (show_int (cb_maximumBytes c))),
               (''maximumDurationMs'', JNum (show_int (cb_maximumDurationMs c))),
               (''maximumQueries'', JNum (show_int (cb_maximumQueries c)))] k)" for k
    unfolding budget_json_def
    by (cases rule: same_json.cases) (simp_all add: option.rel_refl same_json.same)
  have "cb_maximumBytes b = cb_maximumBytes c" "cb_maximumDurationMs b = cb_maximumDurationMs c"
    "cb_maximumQueries b = cb_maximumQueries c"
    using member [of "''maximumBytes''"] member [of "''maximumDurationMs''"] member [of "''maximumQueries''"]
    by (auto dest!: same_json_cases show_int_inject)
  then show "b = c" by simp
qed

section \<open>A valid plan is covered\<close>

lemma create_plan_Inr:
  assumes "create_capability_plan hash uuid i = Inr p"
  obtains c q g where "selected_candidate i = Some c"
    "List.find (\<lambda>q. iv_providerId q = cc_providerId c) (pn_providers i) = Some q"
    "grant_for i (cc_providerId c) (cc_capabilityId c) = Some g"
    "grant_supports g (required_permission_set i) (pn_requiredBudgets i)" "p = plan_of hash uuid i c q g"
    "pn_status i \<in> {CtxProposed, CtxConfirmed}" "cr_sessionId (pn_resolution i) = pn_sessionId i"
  using assms
  by (cases "pn_status i") (auto simp: create_capability_plan_def split: option.splits if_splits)

lemma validate_None:
  assumes "snd (validate_capability_plan hash p v) = None"
  obtains q g where "cp_contextSessionId p = pv_sessionId v" "pv_status v \<in> {CtxProposed, CtxConfirmed}"
    "cp_sourceIds p = sort (pv_sourceIds v)" "pv_provider v = Some q"
    "id_digest (iv_manifestIdentity q) = cp_capabilityManifestDigest p"
    "pv_grant v = Some g" "gs_state g = GrantIsActive" "grant_unchanged hash p g"
    "\<not> time_le (cp_expiresAt p) (pv_now v)" "fst (validate_capability_plan hash p v) = p"
proof -
  have none: "invalid_because hash p v = None"
    using assms by (simp add: validate_capability_plan_def split: option.splits)
  then have ctx: "cp_contextSessionId p = pv_sessionId v" "\<not> (pv_status v = CtxExpired \<or> pv_status v = CtxCleared)"
    "plan_canonical (strings_json (cp_sourceIds p)) = plan_canonical (strings_json (sort (pv_sourceIds v)))"
    and provider: "\<not> (case pv_provider v of None \<Rightarrow> True
               | Some q \<Rightarrow> id_digest (iv_manifestIdentity q) \<noteq> cp_capabilityManifestDigest p)"
    by (simp_all add: invalid_because_def Let_def split: if_splits)
  with none obtain g where g: "pv_grant v = Some g" "gs_state g = GrantIsActive" "grant_unchanged hash p g"
    "\<not> time_le (cp_expiresAt p) (pv_now v)"
    by (auto simp: invalid_because_def Let_def split: option.splits if_splits)
  obtain q where q: "pv_provider v = Some q" "id_digest (iv_manifestIdentity q) = cp_capabilityManifestDigest p"
    using provider by (auto split: option.splits)
  have "pv_status v \<in> {CtxProposed, CtxConfirmed}" using ctx(2) by (cases "pv_status v") simp_all
  moreover have "cp_sourceIds p = sort (pv_sourceIds v)" using ctx(3) by (simp add: strings_text_inject)
  moreover have "fst (validate_capability_plan hash p v) = p" using none by (simp add: validate_capability_plan_def)
  ultimately show thesis using that [OF ctx(1) _ _ q g] by simp
qed

text \<open>
  C13. A plan that passes its check is covered by the grant as it is now: for a plan that was made
  from an input, whatever its approval has become, a check that finds nothing to object to shows
  that the context is the same and not over, the sources are the same, the provider still has the
  manifest planned with, the grant is active, and it still allows every permission and the budget
  the plan requires, although the plan itself only keeps digests of them; the plan has not
  expired. The capability was an eligible candidate of the resolution, and the grant as it is now
  is, in id, version, permissions and budget, one of the active grants the plan was made from, which
  allowed the provider and the capability of the plan. Different texts are taken to have different
  SHA-256 digests.
\<close>

theorem valid_plan_covered:
  assumes "\<And>x y. hash x = hash y \<Longrightarrow> x = y"
    and "create_capability_plan hash uuid i = Inr p"
    and "snd (validate_capability_plan hash (p\<lparr>cp_approvalState := q\<rparr>) v) = None"
  shows "\<exists>g provider. pv_grant v = Some g \<and> gs_state g = GrantIsActive
      \<and> set (opt_list (pn_requiredPermissions i)) \<subseteq> set (gs_permissions g)
      \<and> within_budget (pn_requiredBudgets i) (gs_budgets g)
      \<and> pv_provider v = Some provider
      \<and> id_digest (iv_manifestIdentity provider) = cp_capabilityManifestDigest p
      \<and> pv_sessionId v = pn_sessionId i \<and> pv_status v \<in> {CtxProposed, CtxConfirmed}
      \<and> sort (pv_sourceIds v) = sort (pn_sourceIds i)
      \<and> \<not> time_le (pn_expiresAt i) (pv_now v)
      \<and> (\<exists>c \<in> set (cr_candidates (pn_resolution i)).
           cc_eligible c \<and> cc_providerId c = cp_providerId p \<and> cc_capabilityId c = cp_capabilityId p)
      \<and> (\<exists>g0 \<in> set (pn_grants i). gs_state g0 = GrantIsActive
           \<and> (case gs_allowedProviderIds g0 of None \<Rightarrow> True | Some ids \<Rightarrow> cp_providerId p \<in> set ids)
           \<and> (case gs_allowedCapabilityIds g0 of None \<Rightarrow> True | Some ids \<Rightarrow> cp_capabilityId p \<in> set ids)
           \<and> gs_grantId g0 = gs_grantId g \<and> gs_grantVersion g0 = gs_grantVersion g
           \<and> gs_permissions g0 = gs_permissions g \<and> gs_budgets g0 = gs_budgets g)"
proof -
  obtain c m g where c: "selected_candidate i = Some c"
    and m: "List.find (\<lambda>q. iv_providerId q = cc_providerId c) (pn_providers i) = Some m"
    and granted: "grant_for i (cc_providerId c) (cc_capabilityId c) = Some g"
    and supports: "grant_supports g (required_permission_set i) (pn_requiredBudgets i)"
    and p: "p = plan_of hash uuid i c m g"
    using create_plan_Inr [OF assms(2)] by metis
  obtain r h where ctx: "cp_contextSessionId (p\<lparr>cp_approvalState := q\<rparr>) = pv_sessionId v"
      "pv_status v \<in> {CtxProposed, CtxConfirmed}" "cp_sourceIds (p\<lparr>cp_approvalState := q\<rparr>) = sort (pv_sourceIds v)"
    and r: "pv_provider v = Some r"
      "id_digest (iv_manifestIdentity r) = cp_capabilityManifestDigest (p\<lparr>cp_approvalState := q\<rparr>)"
    and h: "pv_grant v = Some h" "gs_state h = GrantIsActive" "grant_unchanged hash (p\<lparr>cp_approvalState := q\<rparr>) h"
    and live: "\<not> time_le (cp_expiresAt (p\<lparr>cp_approvalState := q\<rparr>)) (pv_now v)"
    using validate_None [OF assms(3)] by metis
  have digests: "hash (plan_canonical (permissions_json (gs_permissions h))) = hash (plan_canonical (permissions_json (gs_permissions g)))"
    "hash (plan_canonical (budget_json (gs_budgets h))) = hash (plan_canonical (budget_json (gs_budgets g)))"
    using h(3) by (simp_all add: grant_unchanged_def p plan_of_def plan_digest_def)
  have perms: "gs_permissions h = gs_permissions g" using assms(1) [OF digests(1)] by (simp add: permissions_text_inject)
  have budgets: "gs_budgets h = gs_budgets g" using assms(1) [OF digests(2)] by (rule budget_text_inject)
  have g: "g \<in> set (pn_grants i)" "gs_state g = GrantIsActive"
      "case gs_allowedProviderIds g of None \<Rightarrow> True | Some ids \<Rightarrow> cc_providerId c \<in> set ids"
      "case gs_allowedCapabilityIds g of None \<Rightarrow> True | Some ids \<Rightarrow> cc_capabilityId c \<in> set ids"
    using find_Some_iff_in [OF granted [unfolded grant_for_def]] by simp_all
  have same: "gs_grantId g = gs_grantId h" "gs_grantVersion g = gs_grantVersion h"
    using h(3) by (simp_all add: grant_unchanged_def p plan_of_def)
  have plan: "cp_providerId p = cc_providerId c" "cp_capabilityId p = cc_capabilityId c"
    using find_Some_iff_in [OF m] by (simp_all add: p plan_of_def)
  have origin: "\<exists>g0 \<in> set (pn_grants i). gs_state g0 = GrantIsActive
      \<and> (case gs_allowedProviderIds g0 of None \<Rightarrow> True | Some ids \<Rightarrow> cp_providerId p \<in> set ids)
      \<and> (case gs_allowedCapabilityIds g0 of None \<Rightarrow> True | Some ids \<Rightarrow> cp_capabilityId p \<in> set ids)
      \<and> gs_grantId g0 = gs_grantId h \<and> gs_grantVersion g0 = gs_grantVersion h
      \<and> gs_permissions g0 = gs_permissions h \<and> gs_budgets g0 = gs_budgets h"
    unfolding plan perms budgets using g same by (intro bexI [of _ g] conjI refl)
  have "set (opt_list (pn_requiredPermissions i)) \<subseteq> set (gs_permissions h)"
    "within_budget (pn_requiredBudgets i) (gs_budgets h)"
    using supports unfolding perms budgets by (auto simp: grant_supports_def required_permission_set_def list_all_iff)
  moreover have "c \<in> set (cr_candidates (pn_resolution i))" "cc_eligible c"
    using find_Some_iff_in [OF c [unfolded selected_candidate_def]] by simp_all
  moreover have "iv_providerId m = cc_providerId c" using find_Some_iff_in [OF m] by simp
  ultimately show ?thesis
    using ctx r h(1,2) live origin by (intro exI [of _ h] exI [of _ r] conjI) (auto simp: p plan_of_def)
qed

section \<open>Histories of plans\<close>

datatype plan_call =
    CreatePlan plan_input
  | MovePlan string plan_state
  | CheckPlan string plan_current

fun plan_step ::
  "(string \<Rightarrow> string) \<Rightarrow> (string \<Rightarrow> string \<Rightarrow> int) \<Rightarrow> plan_disk \<Rightarrow> io_env \<times> int option \<times> plan_call \<Rightarrow> plan_disk" where
  "plan_step hash cmp d (e, n, CreatePlan i) = fst (create_and_persist_capability_plan hash cmp e n i d)"
| "plan_step hash cmp d (e, n, MovePlan i q) = fst (transition_capability_plan cmp e n i q d)"
| "plan_step hash cmp d (e, n, CheckPlan i v) = fst (revalidate_capability_plan hash cmp e n i v d)"

fun creates_plan :: "string \<Rightarrow> io_env \<times> int option \<times> plan_call \<Rightarrow> bool" where
  "creates_plan i (e, n, CreatePlan input) = (i = ''capability-plan-'' @ io_uuid e)"
| "creates_plan i a = False"

text \<open>The states that transitions of one plan wrote to the file, in their order.\<close>

fun moved_to :: "string \<Rightarrow> bool \<Rightarrow> io_env \<times> int option \<times> plan_call \<Rightarrow> plan_state list" where
  "moved_to i changed (e, n, MovePlan j q) = (if changed \<and> j = i then [q] else [])"
| "moved_to i changed a = []"

primrec plan_moves ::
  "(string \<Rightarrow> string) \<Rightarrow> (string \<Rightarrow> string \<Rightarrow> int) \<Rightarrow> string \<Rightarrow> plan_disk \<Rightarrow> (io_env \<times> int option \<times> plan_call) list
   \<Rightarrow> plan_state list" where
  "plan_moves hash cmp i d [] = []"
| "plan_moves hash cmp i d (a # as) =
     moved_to i (plan_step hash cmp d a \<noteq> d) a @ plan_moves hash cmp i (plan_step hash cmp d a) as"

fun plan_path :: "plan_state \<Rightarrow> plan_state list \<Rightarrow> plan_state \<Rightarrow> bool" where
  "plan_path q [] r = (q = r)"
| "plan_path q (x # xs) r = (x \<in> set (plan_transitions q) \<and> plan_path x xs r)"

definition same_plan :: "capability_plan \<Rightarrow> capability_plan \<Rightarrow> bool" where
  "same_plan p q \<longleftrightarrow>
     q = p\<lparr>cp_approvalState := cp_approvalState q, cp_validity := cp_validity q,
           cp_invalidationReason := cp_invalidationReason q\<rparr>
     \<and> (cp_validity p = PlanInvalidated \<longrightarrow> cp_validity q = PlanInvalidated)"

definition at_most_plan :: "capability_plan \<Rightarrow> string \<Rightarrow> capability_plan list \<Rightarrow> bool" where
  "at_most_plan p i ps =
     (filter (\<lambda>x. cp_planId x = i) ps = [] \<or> filter (\<lambda>x. cp_planId x = i) ps = [p])"

lemma same_plan_refl [simp]: "same_plan p p"
  by (simp add: same_plan_def)

lemma same_plan_trans: "same_plan p q \<Longrightarrow> same_plan q r \<Longrightarrow> same_plan p r"
  unfolding same_plan_def by (cases p; cases q; cases r) simp

lemma same_plan_id: "same_plan p q \<Longrightarrow> cp_planId q = cp_planId p"
  unfolding same_plan_def by (cases p; cases q) simp

lemma plan_path_append: "plan_path q xs r \<Longrightarrow> plan_path r ys t \<Longrightarrow> plan_path q (xs @ ys) t"
  by (induction q xs r rule: plan_path.induct) auto

lemma at_most_part:
  assumes "mset ys \<subseteq># mset xs" "at_most_plan p i xs"
  shows "at_most_plan p i ys"
proof -
  have "mset (filter (\<lambda>x. cp_planId x = i) ys) \<subseteq># mset (filter (\<lambda>x. cp_planId x = i) xs)"
    using multiset_filter_mono [OF assms(1), of "\<lambda>x. cp_planId x = i"] by simp
  moreover have "mset (filter (\<lambda>x. cp_planId x = i) xs) \<subseteq># {#p#}"
    using assms(2) unfolding at_most_plan_def by (elim disjE) (simp_all del: mset_filter)
  ultimately have "mset (filter (\<lambda>x. cp_planId x = i) ys) \<subseteq># {#p#}" by (rule subset_mset.order_trans)
  then have "length (filter (\<lambda>x. cp_planId x = i) ys) \<le> 1" "set (filter (\<lambda>x. cp_planId x = i) ys) \<subseteq> {p}"
    using size_mset_mono [of "mset (filter (\<lambda>x. cp_planId x = i) ys)" "{#p#}"]
      set_mset_mono [of "mset (filter (\<lambda>x. cp_planId x = i) ys)" "{#p#}"] by (simp_all del: mset_filter)
  then show ?thesis by (cases "filter (\<lambda>x. cp_planId x = i) ys") (auto simp: at_most_plan_def)
qed

interpretation plans: bounded_list "kept_plans cmp n"
proof unfold_locales
  fix ps
  show "mset (kept_plans cmp n ps) \<subseteq># mset ps"
    using mset_slice_last [of _ "by_plan cmp ps"] by (simp add: kept_plans_def by_plan_def Let_def)
qed

lemma read_plans_part:
  assumes "read_plans cmp d = Some ps" "on_file (at_most_plan p i) d"
  shows "at_most_plan p i ps"
proof (cases d)
  case (Stored c)
  obtain u xs where c: "c = (u, xs)" by fastforce
  have "ps = by_plan cmp xs" using assms(1) by (auto simp: read_plans_def read_valid_def Stored c split: if_splits)
  then have "mset ps \<subseteq># mset xs" by (simp add: by_plan_def)
  then show ?thesis by (rule at_most_part) (use assms(2) in \<open>simp add: Stored c\<close>)
qed (use assms(1) in \<open>simp_all add: read_plans_def read_valid_def by_plan_def at_most_plan_def js_sort_def\<close>)

lemma find_plan_filter: "find_plan i ps = Some x \<Longrightarrow> at_most_plan p i ps \<Longrightarrow> x = p \<and> filter (\<lambda>x. cp_planId x = i) ps = [p]"
  unfolding find_plan_def at_most_plan_def
  by (metis (mono_tags, lifting) filter_empty_conv find_Some_iff_in list.set_intros(1) mem_Collect_eq set_ConsD set_filter empty_iff empty_set)

lemma change_this: "filter (\<lambda>x. cp_planId x = i) ps = [p] \<Longrightarrow> cp_planId (f p) = i
   \<Longrightarrow> filter (\<lambda>x. cp_planId x = i) (change_plan i f ps) = [f p]"
  unfolding change_plan_def by (induction ps) (auto split: if_splits)

lemma change_other: "j \<noteq> i \<Longrightarrow> (\<And>x. cp_planId (f x) = cp_planId x)
   \<Longrightarrow> filter (\<lambda>x. cp_planId x = i) (change_plan j f ps) = filter (\<lambda>x. cp_planId x = i) ps"
  unfolding change_plan_def by (induction ps) auto

text \<open>What one written change does to the plan of an id.\<close>

definition plan_moved :: "string \<Rightarrow> plan_state list \<Rightarrow> capability_plan \<Rightarrow> capability_plan list \<Rightarrow> bool" where
  "plan_moved i qs p ps \<longleftrightarrow>
     (\<exists>p'. at_most_plan p' i ps \<and> same_plan p p' \<and> plan_path (cp_approvalState p) qs (cp_approvalState p'))"

lemma with_plans_moved:
  assumes "on_file (at_most_plan p i) d"
    and same: "fst (with_plans cmp e n d callback) = d \<Longrightarrow> qs = []"
    and step: "\<And>ps v ps'. fst (with_plans cmp e n d callback) \<noteq> d \<Longrightarrow> at_most_plan p i ps \<Longrightarrow> callback ps = (Inr v, ps')
      \<Longrightarrow> plan_moved i qs p ps'"
  shows "\<exists>p'. on_file (at_most_plan p' i) (fst (with_plans cmp e n d callback)) \<and> same_plan p p'
    \<and> plan_path (cp_approvalState p) qs (cp_approvalState p')"
proof (cases "fst (with_plans cmp e n d callback) = d")
  case True
  with assms(1) same show ?thesis by (intro exI [of _ p]) simp
next
  case False
  then obtain ps v ps' where r: "read_plans cmp d = Some ps" "callback ps = (Inr v, ps')"
    "fst (with_plans cmp e n d callback) = Stored (io_bodyNow e, kept_plans cmp n ps')"
    unfolding with_plans_def by (rule guarded_changed)
  from step [OF False read_plans_part [OF r(1) assms(1)] r(2)] obtain p' where
    p': "at_most_plan p' i ps'" "same_plan p p'" "plan_path (cp_approvalState p) qs (cp_approvalState p')"
    by (auto simp: plan_moved_def)
  have "at_most_plan p' i (kept_plans cmp n ps')" by (rule at_most_part [OF plans.keep_part p'(1)])
  with p' r(3) show ?thesis by auto
qed

lemma plan_moved_same: "at_most_plan p i ps \<Longrightarrow> plan_moved i [] p ps"
  unfolding plan_moved_def by (intro exI [of _ p]) simp

lemma plan_step_moved:
  assumes "on_file (at_most_plan p i) d" "cp_planId p = i" "\<not> creates_plan i a"
  shows "\<exists>p'. on_file (at_most_plan p' i) (plan_step hash cmp d a) \<and> same_plan p p'
    \<and> plan_path (cp_approvalState p) (moved_to i (plan_step hash cmp d a \<noteq> d) a) (cp_approvalState p')"
  using assms(1,3)
proof (induction hash cmp d a rule: plan_step.induct)
  case (1 hash cmp d e n input)
  show ?case
  proof (cases "create_capability_plan hash (io_uuid e) input")
    case (Inl f)
    with 1 show ?thesis by (intro exI [of _ p]) (simp add: create_and_persist_capability_plan_def)
  next
    case (Inr x)
    then have "cp_planId x = ''capability-plan-'' @ io_uuid e"
      by (rule create_plan_Inr) (simp add: plan_of_def)
    with 1(2) have "cp_planId x \<noteq> i" by auto
    then have "\<exists>p'. on_file (at_most_plan p' i) (fst (with_plans cmp e n d (\<lambda>ps. (Inr x, ps @ [x])))) \<and> same_plan p p'
        \<and> plan_path (cp_approvalState p) [] (cp_approvalState p')"
      by (intro with_plans_moved [OF 1(1)] plan_moved_same) (auto simp: at_most_plan_def)
    then show ?thesis by (simp add: create_and_persist_capability_plan_def Inr)
  qed
next
  case (2 hash cmp d e n j q)
  let ?d' = "plan_step hash cmp d (e, n, MovePlan j q)"
  show ?case
    unfolding plan_step.simps moved_to.simps transition_capability_plan_def
  proof (rule with_plans_moved [OF 2(1)], goal_cases)
    case 1
    then show ?case by simp
  next
    case (2 ps v ps')
    then obtain x where x: "find_plan j ps = Some x" "q \<in> set (plan_transitions (cp_approvalState x))"
      "ps' = change_plan j (\<lambda>p. p\<lparr>cp_approvalState := q\<rparr>) ps"
      by (auto split: option.splits if_splits)
    show ?case
    proof (cases "j = i")
      case True
      with find_plan_filter [of i ps x p] x(1) 2(2)
      have xp: "x = p" "filter (\<lambda>x. cp_planId x = i) ps = [p]" by simp_all
      have "filter (\<lambda>x. cp_planId x = i) ps' = [p\<lparr>cp_approvalState := q\<rparr>]"
        unfolding x(3) True by (rule change_this [OF xp(2)]) (simp add: assms(2))
      with True x(2) xp(1) 2(1) show ?thesis
        unfolding plan_moved_def
        by (intro exI [of _ "p\<lparr>cp_approvalState := q\<rparr>"]) (simp add: at_most_plan_def same_plan_def)
    next
      case False
      then have "filter (\<lambda>x. cp_planId x = i) ps' = filter (\<lambda>x. cp_planId x = i) ps"
        unfolding x(3) by (intro change_other) simp_all
      with False 2(2) show ?thesis
        using plan_moved_same [of p i ps'] by (simp add: at_most_plan_def)
    qed
  qed
next
  case (3 hash cmp d e n j v)
  let ?check = "\<lambda>p. fst (validate_capability_plan hash p v)"
  have check: "same_plan x (?check x) \<and> cp_planId (?check x) = cp_planId x \<and> cp_approvalState (?check x) = cp_approvalState x" for x
    by (auto simp: validate_capability_plan_def same_plan_def split: option.split)
  have fst_case: "plan_step hash cmp d (e, n, CheckPlan j v) = fst (with_plans cmp e n d (\<lambda>ps.
            case find_plan j ps of
              None \<Rightarrow> (Inl PlanNotFound, ps)
            | Some p \<Rightarrow> (Inr (?check p), change_plan j ?check ps)))"
    by (simp add: revalidate_capability_plan_def case_prod_unfold Let_def)
  show ?case
    unfolding fst_case moved_to.simps
  proof (rule with_plans_moved [OF 3(1)], goal_cases)
    case 1
    show ?case ..
  next
    case (2 ps w ps')
    then obtain x where x: "find_plan j ps = Some x" "ps' = change_plan j ?check ps"
      by (auto split: option.splits)
    show ?case
    proof (cases "j = i")
      case True
      with find_plan_filter [of i ps x p] x(1) 2(2)
      have "filter (\<lambda>x. cp_planId x = i) ps = [p]" by simp
      then have "filter (\<lambda>x. cp_planId x = i) ps' = [?check p]"
        unfolding x(2) True by (rule change_this) (simp add: check assms(2))
      then show ?thesis
        unfolding plan_moved_def using check [of p] by (intro exI [of _ "?check p"]) (simp add: at_most_plan_def)
    next
      case False
      then have "filter (\<lambda>x. cp_planId x = i) ps' = filter (\<lambda>x. cp_planId x = i) ps"
        unfolding x(2) by (intro change_other) (simp_all add: check)
      with 2(2) show ?thesis
        using plan_moved_same [of p i ps'] by (simp add: at_most_plan_def)
    qed
  qed
qed

lemma review_path:
  "plan_path PlanProposed xs PlanApproved \<Longrightarrow> xs = [PlanReviewed, PlanApproved]"
  "plan_path PlanReviewed xs PlanApproved \<Longrightarrow> xs = [PlanApproved]"
  "plan_path PlanApproved xs PlanApproved \<Longrightarrow> xs = []"
  "q \<in> {PlanRejected, PlanExpired, PlanCancelled} \<Longrightarrow> plan_path q xs r \<Longrightarrow> xs = []"
proof -
  show final: "plan_path q xs r \<Longrightarrow> xs = []" if "q \<in> {PlanRejected, PlanExpired, PlanCancelled}" for q xs r
    using that by (cases xs) auto
  then have stuck: "\<not> plan_path q xs PlanApproved" if "q \<in> {PlanRejected, PlanExpired, PlanCancelled}" for q xs
    using that by (cases xs) auto
  have end3: "plan_path PlanApproved xs PlanApproved \<Longrightarrow> xs = []" for xs
    using stuck by (cases xs) auto
  have end2: "plan_path PlanReviewed xs PlanApproved \<Longrightarrow> xs = [PlanApproved]" for xs
    using stuck end3 by (cases xs) auto
  show "plan_path PlanProposed xs PlanApproved \<Longrightarrow> xs = [PlanReviewed, PlanApproved]"
    using stuck end2 by (cases xs) auto
  show "plan_path PlanReviewed xs PlanApproved \<Longrightarrow> xs = [PlanApproved]" by (rule end2)
  show "plan_path PlanApproved xs PlanApproved \<Longrightarrow> xs = []" by (rule end3)
qed

text \<open>
  C25. A plan is approved only after its review: in any history that does not create the plan
  again, whatever calls are made with any clocks, locks, limits and failures, the plan keeps all it
  was created with but its approval, its validity and the reason of that; the states that
  transitions wrote are a path of the table from its first state to its last, so that a proposed
  plan is found approved only if it was first reviewed and then approved, and one that is
  rejected, expired or cancelled is never moved again; and once invalidated it stays so.
\<close>

theorem plan_approved_after_review:
  assumes "on_file (at_most_plan p i) d" "cp_planId p = i" "list_all (\<lambda>a. \<not> creates_plan i a) calls"
  shows "\<exists>p'. on_file (at_most_plan p' i) (foldl (plan_step hash cmp) d calls) \<and> same_plan p p'
    \<and> plan_path (cp_approvalState p) (plan_moves hash cmp i d calls) (cp_approvalState p')
    \<and> (cp_approvalState p = PlanProposed \<and> cp_approvalState p' = PlanApproved
       \<longrightarrow> plan_moves hash cmp i d calls = [PlanReviewed, PlanApproved])
    \<and> (cp_approvalState p \<in> {PlanRejected, PlanExpired, PlanCancelled} \<longrightarrow> plan_moves hash cmp i d calls = [])"
proof -
  have "\<exists>p'. on_file (at_most_plan p' i) (foldl (plan_step hash cmp) d calls) \<and> same_plan p p'
    \<and> plan_path (cp_approvalState p) (plan_moves hash cmp i d calls) (cp_approvalState p')"
    using assms
  proof (induction calls arbitrary: d p)
    case Nil
    then show ?case by (intro exI [of _ p]) simp
  next
    case (Cons a as)
    then have "\<not> creates_plan i a" by simp
    from plan_step_moved [OF Cons.prems(1,2) this, of hash cmp] obtain q where
      q: "on_file (at_most_plan q i) (plan_step hash cmp d a)" "same_plan p q"
        "plan_path (cp_approvalState p) (moved_to i (plan_step hash cmp d a \<noteq> d) a) (cp_approvalState q)" by blast
    have "cp_planId q = i" using q(2) Cons.prems(2) by (metis same_plan_id)
    from Cons.IH [OF q(1) this] Cons.prems(3) obtain r where
      r: "on_file (at_most_plan r i) (foldl (plan_step hash cmp) (plan_step hash cmp d a) as)" "same_plan q r"
        "plan_path (cp_approvalState q) (plan_moves hash cmp i (plan_step hash cmp d a) as) (cp_approvalState r)" by auto
    show ?case
      using r(1) same_plan_trans [OF q(2) r(2)] plan_path_append [OF q(3) r(3)] by (intro exI [of _ r]) simp
  qed
  then obtain p' where p': "on_file (at_most_plan p' i) (foldl (plan_step hash cmp) d calls)" "same_plan p p'"
    "plan_path (cp_approvalState p) (plan_moves hash cmp i d calls) (cp_approvalState p')" by blast
  then show ?thesis using review_path by (intro exI [of _ p']) auto
qed

section \<open>Concrete plans\<close>

definition sample_grant :: grant_snapshot where
  "sample_grant =
     \<lparr>gs_grantId = ''g'', gs_grantVersion = 1, gs_state = GrantIsActive, gs_permissions = [PermRead, PermWrite],
      gs_allowedProviderIds = None, gs_allowedCapabilityIds = None,
      gs_budgets = \<lparr>cb_maximumBytes = 100, cb_maximumDurationMs = 100, cb_maximumQueries = 9\<rparr>, gs_expiresAt = None\<rparr>"

definition sample_candidate :: capability_candidate where
  "sample_candidate =
     \<lparr>cc_providerId = ''p'', cc_capabilityId = ''cap'', cc_score = 8, cc_eligible = True,
      cc_matchReasons = [''healthy_provider''], cc_rejectionReasons = []\<rparr>"

definition sample_resolution :: capability_resolution where
  "sample_resolution =
     \<lparr>cr_resolutionId = ''r'', cr_sessionId = ''s'', cr_requested = sample_intent ''cap'',
      cr_candidates = [sample_candidate], cr_availableCapabilities = [''cap''], cr_unavailableCapabilities = [],
      cr_providerHealthImpact = [], cr_resolvedAt = noon\<rparr>"

definition one_oclock :: string where "one_oclock = ''2026-01-01T13:00:00.000Z''"

definition sample_input :: "string \<Rightarrow> plan_input" where
  "sample_input operation =
     \<lparr>pn_sessionId = ''s'', pn_status = CtxConfirmed, pn_sourceIds = [''b'', ''a''], pn_resolution = sample_resolution,
      pn_providers = [enabled_provider], pn_grants = [sample_grant], pn_selectedProviderId = None,
      pn_selectedCapabilityId = None, pn_requestedOperation = operation,
      pn_requiredPermissions = Some [PermWrite],
      pn_requiredBudgets = \<lparr>cb_maximumBytes = 10, cb_maximumDurationMs = 10, cb_maximumQueries = 1\<rparr>,
      pn_riskClassification = None, pn_expiresAt = one_oclock, pn_createdBy = ''u'', pn_now = noon\<rparr>"

definition sample_plan :: "(string \<Rightarrow> string) \<Rightarrow> string \<Rightarrow> capability_plan" where
  "sample_plan hash uuid = plan_of hash uuid (sample_input ''do'') sample_candidate enabled_provider sample_grant"

definition sample_current :: plan_current where
  "sample_current =
     \<lparr>pv_sessionId = ''s'', pv_status = CtxConfirmed, pv_sourceIds = [''a'', ''b''],
      pv_provider = Some (enabled_provider\<lparr>iv_health := HealthUnreachable, iv_enabled := False, iv_registrationState := RegDisabled\<rparr>),
      pv_grant = Some sample_grant, pv_now = noon\<rparr>"

lemma plan_times: "iso_timestamp one_oclock" "\<not> time_le one_oclock noon"
  by code_simp+

lemma sample_plan_created: "create_capability_plan hash uuid (sample_input ''do'') = Inr (sample_plan hash uuid)"
  using plan_times
  by (simp add: create_capability_plan_def sample_input_def sample_plan_def sample_resolution_def selected_candidate_def
      sample_candidate_def enabled_provider_def to_record_def entry_of_def discovery_candidate.defs found_manifest_def
      grant_for_def sample_grant_def grant_supports_def within_budget_def required_permission_set_def
      sorted_permissions_def opt_list_def truthy_def uniq_def)

text \<open>This check compares only the digest of the provider's manifest and passes for a provider that has
  been disabled and cannot be reached; the check before execution (\<^verbatim>\<open>Capability_Check\<close>) looks further.\<close>

lemma disabled_provider_passes:
  "snd (validate_capability_plan id ((sample_plan id ''u'')\<lparr>cp_approvalState := PlanApproved\<rparr>) sample_current) = None"
  by code_simp

theorem valid_plan_covered_witness:
  "\<exists>g. pv_grant sample_current = Some g \<and> set (opt_list (pn_requiredPermissions (sample_input ''do''))) \<subseteq> set (gs_permissions g)
     \<and> within_budget (pn_requiredBudgets (sample_input ''do'')) (gs_budgets g)"
  using valid_plan_covered [OF _ sample_plan_created disabled_provider_passes] by auto

definition plan_env :: "string \<Rightarrow> io_env" where
  "plan_env uuid = inventory_env\<lparr>io_uuid := uuid\<rparr>"

definition plan_file :: "capability_plan list \<Rightarrow> plan_disk" where
  "plan_file ps = Stored (noon, ps)"

definition review_calls :: "(io_env \<times> int option \<times> plan_call) list" where
  "review_calls =
     map (\<lambda>c. (plan_env ''v'', None, c))
       [MovePlan ''capability-plan-u'' PlanApproved, MovePlan ''capability-plan-u'' PlanReviewed,
        MovePlan ''capability-plan-u'' PlanApproved]"

lemma review_run:
  "foldl (plan_step sample_hash byte_order) (plan_file [sample_plan sample_hash ''u'']) review_calls
     = plan_file [(sample_plan sample_hash ''u'')\<lparr>cp_approvalState := PlanApproved\<rparr>]"
  by code_simp

theorem plan_approved_after_review_witness:
  "plan_moves sample_hash byte_order ''capability-plan-u'' (plan_file [sample_plan sample_hash ''u'']) review_calls
     = [PlanReviewed, PlanApproved]"
proof -
  let ?p = "sample_plan sample_hash ''u''"
  have id: "cp_planId ?p = ''capability-plan-u''" and q: "cp_approvalState ?p = PlanProposed"
    by (simp_all add: sample_plan_def plan_of_def)
  have "on_file (at_most_plan ?p ''capability-plan-u'') (plan_file [?p])"
    by (simp add: plan_file_def at_most_plan_def id)
  from plan_approved_after_review [OF this id, of review_calls sample_hash byte_order]
  show ?thesis
    unfolding review_run by (auto simp: review_calls_def plan_file_def at_most_plan_def id q)
qed

text \<open>The store keeps the plans whose ids come last, and ids are random: a new plan can be dropped by
  the very call that reports it as created.\<close>

lemma new_plan_lost:
  "create_and_persist_capability_plan sample_hash byte_order (plan_env ''a'') (Some 1) (sample_input ''do'')
     (plan_file [sample_plan sample_hash ''u''])
   = (plan_file [sample_plan sample_hash ''u''], Inr (sample_plan sample_hash ''a''))"
  by code_simp

text \<open>Nothing checks a plan when it is written: one without an operation makes the file unreadable.\<close>

lemma empty_operation_corrupts_plans:
  "(case create_and_persist_capability_plan sample_hash byte_order (plan_env ''a'') None (sample_input []) NoFile of
      (d, Inr p) \<Rightarrow> list_capability_plans byte_order d = Inl PlanStoreCorrupt
    | _ \<Rightarrow> False)"
  by code_simp

end
