(* ===== verification/Capability_Check.thy ===== *)
theory Capability_Check
  imports Capability_Planning
begin

text \<open>
  \<^verbatim>\<open>packages/mcp/src/capability-pre-execution.ts\<close>: the last check before a planned capability is
  executed. Everything the plan was approved for is compared with the state of the moment, every
  objection becomes a reason, and the check is recorded in an audit file. The detail texts of the
  evidence, which only repeat whether a check passed, and the second audit file are left out.
\<close>

section \<open>Data\<close>

record check_request =
  xr_capabilityPlanId :: string
  xr_contextSessionId :: string
  xr_providerId :: string
  xr_capabilityId :: string
  xr_manifestDigest :: string
  xr_requestedOperation :: string
  xr_timestamp :: string

datatype check_reason =
    ContextHasExpired | ContextMissing | ContextUnconfirmed | SourceBindingChanged | ProviderIsMissing
  | ProviderHasChanged | ProviderIsDisabled | ProviderIsUnhealthy | CapabilityHasChanged | CapabilityNotAdvertised
  | GrantInvalid | BudgetExceeded | PermissionDenied | ApprovalMissing | RiskPolicyDenied | OperationNotAllowed
  | StalePlan | ValidationExpired

primrec check_reason_text :: "check_reason \<Rightarrow> string" where
  "check_reason_text ContextHasExpired = ''context_expired''"
| "check_reason_text ContextMissing = ''context_missing''"
| "check_reason_text ContextUnconfirmed = ''context_not_confirmed''"
| "check_reason_text SourceBindingChanged = ''source_binding_changed''"
| "check_reason_text ProviderIsMissing = ''provider_missing''"
| "check_reason_text ProviderHasChanged = ''provider_changed''"
| "check_reason_text ProviderIsDisabled = ''provider_disabled''"
| "check_reason_text ProviderIsUnhealthy = ''provider_unhealthy''"
| "check_reason_text CapabilityHasChanged = ''capability_changed''"
| "check_reason_text CapabilityNotAdvertised = ''capability_unavailable''"
| "check_reason_text GrantInvalid = ''grant_invalid''"
| "check_reason_text BudgetExceeded = ''budget_exceeded''"
| "check_reason_text PermissionDenied = ''permission_denied''"
| "check_reason_text ApprovalMissing = ''approval_missing''"
| "check_reason_text RiskPolicyDenied = ''risk_policy_denied''"
| "check_reason_text OperationNotAllowed = ''operation_not_allowed''"
| "check_reason_text StalePlan = ''stale_plan''"
| "check_reason_text ValidationExpired = ''validation_expired''"

datatype check_outcome = CheckAllowed | CheckDenied | CheckInvalidated

record check_result =
  vr_validationId :: string
  vr_outcome :: check_outcome
  vr_allowed :: bool
  vr_reasons :: "check_reason list"
  vr_evidence :: "(string \<times> bool) list"
  vr_expiresAt :: string
  vr_planId :: string
  vr_occurredAt :: string

record check_context =
  xc_sessionId :: string
  xc_status :: context_status
  xc_sourceIds :: "string list"

record risk_policy =
  rp_allowLowRisk :: bool
  rp_allowMediumRisk :: bool
  rp_allowHighRisk :: bool

record check_state =
  xs_plan :: "capability_plan option"
  xs_context :: "check_context option"
  xs_provider :: "inventory_record option"
  xs_grant :: "grant_snapshot option"
  xs_advertisedCapabilities :: "string list option"
  xs_operationAllowed :: "bool option"
  xs_riskPolicy :: "risk_policy option"

section \<open>The check\<close>

definition plan_matches :: "check_request \<Rightarrow> capability_plan \<Rightarrow> bool" where
  "plan_matches q p =
     (xr_capabilityPlanId q = cp_planId p \<and> xr_contextSessionId q = cp_contextSessionId p
      \<and> xr_providerId q = cp_providerId p \<and> xr_capabilityId q = cp_capabilityId p
      \<and> xr_manifestDigest q = cp_capabilityManifestDigest p \<and> xr_requestedOperation q = cp_requestedOperation p)"

text \<open>The permissions are sorted before their text is made; the text of the budget has its keys in
  code-unit order, as the plan's has.\<close>

definition check_permission_digest :: "(string \<Rightarrow> string) \<Rightarrow> capability_permission list \<Rightarrow> string" where
  "check_permission_digest hash ps = hash (json_text (strings_json (sort (map permission_text ps))))"

definition check_budget_digest :: "(string \<Rightarrow> string) \<Rightarrow> capability_budget \<Rightarrow> string" where
  "check_budget_digest hash b = hash (json_text (sorted_json (budget_json b)))"

definition risk_allowed :: "risk_policy option \<Rightarrow> plan_risk \<Rightarrow> bool" where
  "risk_allowed policy risk =
     (case policy of
        None \<Rightarrow> True
      | Some r \<Rightarrow> (case risk of RiskLow \<Rightarrow> rp_allowLowRisk r | RiskMedium \<Rightarrow> rp_allowMediumRisk r
                   | RiskHigh \<Rightarrow> rp_allowHighRisk r))"

text \<open>One check: its name, whether it passed, and the reason it adds when it fails.\<close>

type_synonym check_item = "string \<times> bool \<times> check_reason"

definition context_over :: "check_state \<Rightarrow> bool" where
  "context_over s =
     (case xs_context s of None \<Rightarrow> False | Some c \<Rightarrow> xc_status c = CtxExpired \<or> xc_status c = CtxCleared)"

definition context_reasons :: "check_state \<Rightarrow> check_reason list" where
  "context_reasons s =
     (if context_over s then [ContextHasExpired]
      else case xs_context s of
        None \<Rightarrow> [ContextMissing]
      | Some c \<Rightarrow> if xc_status c \<noteq> CtxConfirmed then [ContextUnconfirmed] else [])"

definition context_valid :: "check_state \<Rightarrow> capability_plan \<Rightarrow> bool" where
  "context_valid s p =
     (case xs_context s of
        None \<Rightarrow> False
      | Some c \<Rightarrow> xc_sessionId c = cp_contextSessionId p
          \<and> json_text (strings_json (sort (xc_sourceIds c))) = json_text (strings_json (cp_sourceIds p)))"

definition provider_checks :: "check_request \<Rightarrow> check_state \<Rightarrow> capability_plan \<Rightarrow> check_item list" where
  "provider_checks q s p =
     (case xs_provider s of
        None \<Rightarrow> [(''provider_exists'', False, ProviderIsMissing)]
      | Some m \<Rightarrow>
          [(''provider_exists'', True, ProviderIsMissing),
           (''provider_identity'', iv_providerId m = cp_providerId p, ProviderHasChanged),
           (''manifest_digest'',
              id_digest (iv_manifestIdentity m) = cp_capabilityManifestDigest p
              \<and> xr_manifestDigest q = id_digest (iv_manifestIdentity m), ProviderHasChanged),
           (''provider_enabled'', iv_enabled m \<and> iv_registrationState m \<noteq> RegDisabled, ProviderIsDisabled),
           (''provider_health'', iv_health m = HealthHealthy, ProviderIsUnhealthy),
           (''capability_advertised'',
              cp_capabilityId p \<in> set (case xs_advertisedCapabilities s of None \<Rightarrow> iv_capabilities m | Some ids \<Rightarrow> ids),
              CapabilityNotAdvertised)])"

definition grant_checks :: "(string \<Rightarrow> string) \<Rightarrow> check_state \<Rightarrow> capability_plan \<Rightarrow> check_item list" where
  "grant_checks hash s p =
     (case xs_grant s of
        None \<Rightarrow> [(''grant_identity'', False, GrantInvalid)]
      | Some g \<Rightarrow>
          [(''grant_identity'',
              gs_state g = GrantIsActive \<and> gs_grantId g = pg_grantId (cp_grantBinding p)
              \<and> gs_grantVersion g = pg_grantVersion (cp_grantBinding p), GrantInvalid),
           (''permissions'',
              check_permission_digest hash (gs_permissions g) = pg_permissionDigest (cp_grantBinding p)
              \<and> list_all (\<lambda>x. x \<in> set (gs_permissions g)) (cp_requiredPermissions p), PermissionDenied),
           (''budgets'',
              check_budget_digest hash (gs_budgets g) = pg_budgetDigest (cp_grantBinding p)
              \<and> within_budget (cp_requiredBudgets p) (gs_budgets g), BudgetExceeded)])"

definition unexpired :: "check_request \<Rightarrow> capability_plan \<Rightarrow> bool" where
  "unexpired q p =
     (case (date_parse (xr_timestamp q), date_parse (cp_expiresAt p)) of (Some n, Some x) \<Rightarrow> n < x | _ \<Rightarrow> False)"

definition plan_checks :: "check_request \<Rightarrow> capability_plan \<Rightarrow> check_item list" where
  "plan_checks q p =
     [(''plan_binding'', plan_matches q p, StalePlan),
      (''approval'', cp_approvalState p = PlanApproved \<and> cp_validity p = PlanValid,
         if cp_approvalState p = PlanApproved then StalePlan else ApprovalMissing),
      (''plan_expiry'', unexpired q p, ValidationExpired)]"

definition context_check :: "check_state \<Rightarrow> capability_plan \<Rightarrow> check_item" where
  "context_check s p =
     (''context_binding'', context_valid s p, if context_over s then ContextHasExpired else SourceBindingChanged)"

definition policy_checks :: "check_state \<Rightarrow> capability_plan \<Rightarrow> check_item list" where
  "policy_checks s p =
     [(''operation_policy'', xs_operationAllowed s \<noteq> Some False, OperationNotAllowed),
      (''risk_policy'', risk_allowed (xs_riskPolicy s) (cp_riskClassification p), RiskPolicyDenied)]"

definition failed_checks :: "check_item list \<Rightarrow> check_reason list" where
  "failed_checks items = map (\<lambda>(n, ok, r). r) (filter (\<lambda>(n, ok, r). \<not> ok) items)"

definition check_reasons ::
  "(string \<Rightarrow> string) \<Rightarrow> check_request \<Rightarrow> check_state \<Rightarrow> capability_plan \<Rightarrow> check_reason list" where
  "check_reasons hash q s p =
     uniq (failed_checks (plan_checks q p) @ context_reasons s
       @ failed_checks (context_check s p # provider_checks q s p @ grant_checks hash s p @ policy_checks s p))"

definition check_evidence ::
  "(string \<Rightarrow> string) \<Rightarrow> check_request \<Rightarrow> check_state \<Rightarrow> capability_plan \<Rightarrow> (string \<times> bool) list" where
  "check_evidence hash q s p =
     map (\<lambda>(n, ok, r). (n, ok))
       (plan_checks q p @ context_check s p # provider_checks q s p @ grant_checks hash s p @ policy_checks s p)"

definition check_outcome_of :: "check_reason list \<Rightarrow> check_outcome" where
  "check_outcome_of reasons =
     (if list_ex (\<lambda>r. r \<in> {StalePlan, ProviderHasChanged, ContextHasExpired, CapabilityHasChanged}) reasons
      then CheckInvalidated else if reasons \<noteq> [] then CheckDenied else CheckAllowed)"

definition validate_capability_before_execution ::
  "(string \<Rightarrow> string) \<Rightarrow> string \<Rightarrow> check_request \<Rightarrow> check_state \<Rightarrow> check_result" where
  "validate_capability_before_execution hash uuid q s =
     (let reasons = (case xs_plan s of None \<Rightarrow> [StalePlan] | Some p \<Rightarrow> check_reasons hash q s p);
          evidence = (case xs_plan s of None \<Rightarrow> [(''plan_exists'', False)] | Some p \<Rightarrow> check_evidence hash q s p);
          outcome = check_outcome_of reasons
      in \<lparr>vr_validationId = ''execution-validation-'' @ uuid, vr_outcome = outcome,
          vr_allowed = (outcome = CheckAllowed), vr_reasons = reasons, vr_evidence = evidence,
          vr_expiresAt = (case xs_plan s of None \<Rightarrow> xr_timestamp q | Some p \<Rightarrow> cp_expiresAt p),
          vr_planId = xr_capabilityPlanId q, vr_occurredAt = xr_timestamp q\<rparr>)"

section \<open>The audit file\<close>

datatype audit_type = ValidationRequested | ValidationPassed | ValidationDenied | ValidationInvalidated

record validation_event =
  ve_eventId :: string
  ve_eventType :: audit_type
  ve_validationId :: string
  ve_planId :: string
  ve_occurredAt :: string
  ve_reasons :: "check_reason list"

datatype audit_failure = AuditStoreBusy | AuditStoreCorrupt

type_synonym audit_disk = "validation_event list_disk"

definition max_audit_events :: nat where "max_audit_events = 500"

definition validation_event_ok :: "validation_event \<Rightarrow> bool" where
  "validation_event_ok e =
     (list_all (bounded_string 2000) [ve_eventId e, ve_validationId e, ve_planId e] \<and> iso_timestamp (ve_occurredAt e)
      \<and> list_all (\<lambda>r. bounded_string 100 (check_reason_text r)) (ve_reasons e))"

definition read_audit :: "audit_disk \<Rightarrow> validation_event list option" where
  "read_audit d = read_valid max_audit_events validation_event_ok id d"

definition kept_events :: "int option \<Rightarrow> validation_event list \<Rightarrow> validation_event list" where
  "kept_events maxEvents es =
     (let n = min (int max_audit_events) (max 1 (case maxEvents of None \<Rightarrow> int max_audit_events | Some n \<Rightarrow> n))
      in slice_last (nat n) es)"

definition audit_type_of :: "check_outcome \<Rightarrow> audit_type" where
  "audit_type_of v =
     (case v of CheckAllowed \<Rightarrow> ValidationPassed | CheckInvalidated \<Rightarrow> ValidationInvalidated | CheckDenied \<Rightarrow> ValidationDenied)"

definition event_of :: "string \<Rightarrow> audit_type \<Rightarrow> check_request \<Rightarrow> check_result \<Rightarrow> check_reason list \<Rightarrow> validation_event" where
  "event_of uuid t q r reasons =
     \<lparr>ve_eventId = ''validation-event-'' @ uuid, ve_eventType = t, ve_validationId = vr_validationId r,
      ve_planId = xr_capabilityPlanId q, ve_occurredAt = xr_timestamp q, ve_reasons = reasons\<rparr>"

text \<open>The time of the write is the request's, not the clock's. \<open>uuids\<close> are the random ids of the two
  events.\<close>

definition validate_and_audit_capability ::
  "(string \<Rightarrow> string) \<Rightarrow> io_env \<Rightarrow> string \<times> string \<Rightarrow> int option \<Rightarrow> check_request \<Rightarrow> check_state \<Rightarrow> audit_disk
   \<Rightarrow> audit_disk \<times> (audit_failure + check_result)" where
  "validate_and_audit_capability hash e uuids maxEvents q s d =
     (let r = validate_capability_before_execution hash (io_uuid e) q s
      in guarded read_audit (kept_events maxEvents) AuditStoreBusy AuditStoreCorrupt
           (e\<lparr>io_bodyNow := xr_timestamp q\<rparr>) d
           (\<lambda>es. (Inr r, es @ [event_of (fst uuids) ValidationRequested q r [],
                               event_of (snd uuids) (audit_type_of (vr_outcome r)) q r (vr_reasons r)])))"

definition list_validation_audit :: "audit_disk \<Rightarrow> audit_failure + validation_event list" where
  "list_validation_audit d = (case read_audit d of None \<Rightarrow> Inl AuditStoreCorrupt | Some es \<Rightarrow> Inr es)"

record validation_diagnosis =
  vd_pending :: "string list"
  vd_denied :: "string list"
  vd_invalidated :: "string list"
  vd_commonFailureReasons :: "string list"

text \<open>The latest event of each validation decides, in the order of their first events.\<close>

definition latest_events :: "validation_event list \<Rightarrow> (string \<times> validation_event) list" where
  "latest_events es = foldl (\<lambda>m e. jm_set (ve_validationId e) e m) [] es"

definition validation_diagnostics :: "audit_disk \<Rightarrow> audit_failure + validation_diagnosis" where
  "validation_diagnostics d =
     map_sum id (\<lambda>es.
       let latest = jm_values (latest_events es);
           ids = (\<lambda>t. sort (map ve_validationId (filter (\<lambda>e. ve_eventType e = t) latest)))
       in \<lparr>vd_pending = ids ValidationRequested, vd_denied = ids ValidationDenied,
           vd_invalidated = ids ValidationInvalidated,
           vd_commonFailureReasons = sort (uniq (concat (map (\<lambda>e. map check_reason_text (ve_reasons e)) es)))\<rparr>)
     (list_validation_audit d)"

section \<open>What the check allows\<close>

lemma no_failed_checks: "failed_checks items = [] \<longleftrightarrow> list_all (\<lambda>(n, ok, r). ok) items"
  by (auto simp: failed_checks_def filter_empty_conv list_all_iff)

lemma uniq_empty: "uniq xs = [] \<longleftrightarrow> xs = []"
  using set_uniq [of xs] by (metis set_empty)

lemma allowed_outcome: "check_outcome_of reasons = CheckAllowed \<longleftrightarrow> reasons = []"
  by (auto simp: check_outcome_of_def)

lemma strings_json_sorted [simp]: "sorted_json (strings_json xs) = strings_json xs"
  by (simp add: strings_json_def comp_def)

lemma source_text_inject: "json_text (strings_json xs) = json_text (strings_json ys) \<longleftrightarrow> xs = ys"
  using strings_text_inject [of xs ys] by (simp add: plan_canonical_def)

lemma plan_checks_pass:
  "failed_checks (plan_checks q p) = [] \<longleftrightarrow>
     plan_matches q p \<and> cp_approvalState p = PlanApproved \<and> cp_validity p = PlanValid \<and> unexpired q p"
  by (auto simp: no_failed_checks plan_checks_def)

lemma context_passes:
  "context_reasons s = [] \<and> failed_checks [context_check s p] = [] \<longleftrightarrow>
     (\<exists>c. xs_context s = Some c \<and> xc_status c = CtxConfirmed \<and> xc_sessionId c = cp_contextSessionId p
        \<and> sort (xc_sourceIds c) = cp_sourceIds p)"
proof (cases "xs_context s")
  case None
  then show ?thesis by (simp add: context_reasons_def context_over_def)
next
  case (Some c)
  then show ?thesis
    by (cases "xc_status c")
      (simp_all add: no_failed_checks context_reasons_def context_over_def context_check_def context_valid_def
        source_text_inject)
qed

lemma provider_passes:
  "failed_checks (provider_checks q s p) = [] \<longleftrightarrow>
     (\<exists>m. xs_provider s = Some m \<and> iv_providerId m = cp_providerId p
        \<and> id_digest (iv_manifestIdentity m) = cp_capabilityManifestDigest p
        \<and> xr_manifestDigest q = id_digest (iv_manifestIdentity m)
        \<and> iv_enabled m \<and> iv_registrationState m \<noteq> RegDisabled \<and> iv_health m = HealthHealthy
        \<and> cp_capabilityId p \<in> set (case xs_advertisedCapabilities s of None \<Rightarrow> iv_capabilities m | Some ids \<Rightarrow> ids))"
  unfolding no_failed_checks provider_checks_def by (cases "xs_provider s") simp_all

lemma grant_passes:
  "failed_checks (grant_checks hash s p) = [] \<longleftrightarrow>
     (\<exists>g. xs_grant s = Some g \<and> gs_state g = GrantIsActive \<and> gs_grantId g = pg_grantId (cp_grantBinding p)
        \<and> gs_grantVersion g = pg_grantVersion (cp_grantBinding p)
        \<and> check_permission_digest hash (gs_permissions g) = pg_permissionDigest (cp_grantBinding p)
        \<and> set (cp_requiredPermissions p) \<subseteq> set (gs_permissions g)
        \<and> check_budget_digest hash (gs_budgets g) = pg_budgetDigest (cp_grantBinding p)
        \<and> within_budget (cp_requiredBudgets p) (gs_budgets g))"
proof (cases "xs_grant s")
  case None
  then show ?thesis by (simp add: no_failed_checks grant_checks_def)
next
  case (Some g)
  have "list_all (\<lambda>x. x \<in> set (gs_permissions g)) (cp_requiredPermissions p)
      \<longleftrightarrow> set (cp_requiredPermissions p) \<subseteq> set (gs_permissions g)"
    by (auto simp: list_all_iff)
  then show ?thesis by (simp add: no_failed_checks grant_checks_def Some)
qed

lemma policy_passes:
  "failed_checks (policy_checks s p) = [] \<longleftrightarrow>
     xs_operationAllowed s \<noteq> Some False \<and> risk_allowed (xs_riskPolicy s) (cp_riskClassification p)"
  by (simp add: no_failed_checks policy_checks_def)

lemma failed_append: "failed_checks (xs @ ys) = failed_checks xs @ failed_checks ys"
  by (simp add: failed_checks_def)

lemma no_check_reasons:
  "check_reasons hash q s p = [] \<longleftrightarrow>
     failed_checks (plan_checks q p) = [] \<and> (context_reasons s = [] \<and> failed_checks [context_check s p] = [])
     \<and> failed_checks (provider_checks q s p) = [] \<and> failed_checks (grant_checks hash s p) = []
     \<and> failed_checks (policy_checks s p) = []"
proof -
  have "failed_checks (context_check s p # provider_checks q s p @ grant_checks hash s p @ policy_checks s p)
      = failed_checks [context_check s p] @ failed_checks (provider_checks q s p)
        @ failed_checks (grant_checks hash s p) @ failed_checks (policy_checks s p)"
    by (simp only: failed_append [symmetric] append_Cons append_Nil append_assoc)
  then show ?thesis
    by (simp only: check_reasons_def uniq_empty append_is_Nil_conv conj_assoc)
qed

lemma validated_allowed:
  "vr_allowed (validate_capability_before_execution hash uuid q s) \<longleftrightarrow>
     (\<exists>p. xs_plan s = Some p \<and> check_reasons hash q s p = [])"
  by (cases "xs_plan s") (simp_all add: validate_capability_before_execution_def Let_def allowed_outcome)

text \<open>
  C14. Execution is allowed exactly when everything the plan was approved for still holds: the
  request names the plan and its operation, the plan is approved, valid and not expired, the
  context session is the plan's, confirmed and has the plan's sources, the provider is the plan's,
  with the manifest planned with, enabled, not disabled by registration, healthy and still offering
  the capability, the grant is active, the one the plan is bound to in identity, version and both
  digests, and covers the permissions and budget the plan requires, and neither the operation nor
  the risk class is forbidden. A state without plan, context, provider or grant is never allowed.
\<close>

theorem execution_check_exact:
  "vr_allowed (validate_capability_before_execution hash uuid q s) \<longleftrightarrow>
     (\<exists>p c m g. xs_plan s = Some p \<and> xs_context s = Some c \<and> xs_provider s = Some m \<and> xs_grant s = Some g
       \<and> plan_matches q p \<and> cp_approvalState p = PlanApproved \<and> cp_validity p = PlanValid \<and> unexpired q p
       \<and> xc_status c = CtxConfirmed \<and> xc_sessionId c = cp_contextSessionId p \<and> sort (xc_sourceIds c) = cp_sourceIds p
       \<and> iv_providerId m = cp_providerId p \<and> id_digest (iv_manifestIdentity m) = cp_capabilityManifestDigest p
       \<and> xr_manifestDigest q = id_digest (iv_manifestIdentity m)
       \<and> iv_enabled m \<and> iv_registrationState m \<noteq> RegDisabled \<and> iv_health m = HealthHealthy
       \<and> cp_capabilityId p \<in> set (case xs_advertisedCapabilities s of None \<Rightarrow> iv_capabilities m | Some ids \<Rightarrow> ids)
       \<and> gs_state g = GrantIsActive \<and> gs_grantId g = pg_grantId (cp_grantBinding p)
       \<and> gs_grantVersion g = pg_grantVersion (cp_grantBinding p)
       \<and> check_permission_digest hash (gs_permissions g) = pg_permissionDigest (cp_grantBinding p)
       \<and> check_budget_digest hash (gs_budgets g) = pg_budgetDigest (cp_grantBinding p)
       \<and> set (cp_requiredPermissions p) \<subseteq> set (gs_permissions g)
       \<and> within_budget (cp_requiredBudgets p) (gs_budgets g)
       \<and> xs_operationAllowed s \<noteq> Some False \<and> risk_allowed (xs_riskPolicy s) (cp_riskClassification p))"
  unfolding validated_allowed no_check_reasons plan_checks_pass context_passes provider_passes grant_passes policy_passes
  by (rule iffI; elim exE conjE; intro exI conjI; assumption)

section \<open>Plans that can never be executed\<close>

text \<open>
  C40. The plan keeps a digest of the grant's permissions in the order the grant lists them, and
  this check compares it with a digest of the sorted list: a plan made while every grant lists its
  permissions in another order than the sorted one is refused whatever the request, the grant and
  the rest of the state are, however it is approved.
\<close>

theorem unsorted_grant_denied:
  assumes "\<And>x y. hash x = hash y \<Longrightarrow> x = y"
    and "create_capability_plan hash uuid i = Inr p"
    and "\<And>g. g \<in> set (pn_grants i) \<Longrightarrow> \<not> sorted (map permission_text (gs_permissions g))"
    and "xs_plan s = Some p'" "cp_grantBinding p' = cp_grantBinding p"
  shows "\<not> vr_allowed (validate_capability_before_execution hash uuid' q s)"
proof
  assume "vr_allowed (validate_capability_before_execution hash uuid' q s)"
  then have "failed_checks (grant_checks hash s p') = []"
    using assms(4) by (simp add: validated_allowed no_check_reasons)
  then obtain h :: grant_snapshot where h: "check_permission_digest hash (gs_permissions h) = pg_permissionDigest (cp_grantBinding p)"
    unfolding grant_passes assms(5) by (elim exE conjE) (rule that)
  obtain c m g where g: "grant_for i (cc_providerId c) (cc_capabilityId c) = Some g" and p: "p = plan_of hash uuid i c m g"
    using create_plan_Inr [OF assms(2)] by metis
  have "hash (json_text (strings_json (sort (map permission_text (gs_permissions h)))))
      = hash (json_text (strings_json (map permission_text (gs_permissions g))))"
    using h by (simp add: check_permission_digest_def p plan_of_def plan_digest_def plan_canonical_def permissions_json_def)
  from assms(1) [OF this] have "sort (map permission_text (gs_permissions h)) = map permission_text (gs_permissions g)"
    by (simp only: source_text_inject)
  then have "sorted (map permission_text (gs_permissions g))" by (metis sorted_sort)
  moreover have "g \<in> set (pn_grants i)" using find_Some_iff_in [OF g [unfolded grant_for_def]] by simp
  ultimately show False using assms(3) by blast
qed

section \<open>Examples\<close>

definition check_request_of :: "capability_plan \<Rightarrow> check_request" where
  "check_request_of p =
     \<lparr>xr_capabilityPlanId = cp_planId p, xr_contextSessionId = cp_contextSessionId p, xr_providerId = cp_providerId p,
      xr_capabilityId = cp_capabilityId p, xr_manifestDigest = cp_capabilityManifestDigest p,
      xr_requestedOperation = cp_requestedOperation p, xr_timestamp = noon\<rparr>"

definition check_state_of :: "grant_snapshot \<Rightarrow> capability_plan \<Rightarrow> check_state" where
  "check_state_of g p =
     \<lparr>xs_plan = Some (p\<lparr>cp_approvalState := PlanApproved\<rparr>),
      xs_context = Some \<lparr>xc_sessionId = ''s'', xc_status = CtxConfirmed, xc_sourceIds = [''a'', ''b'']\<rparr>,
      xs_provider = Some enabled_provider, xs_grant = Some g, xs_advertisedCapabilities = None,
      xs_operationAllowed = None, xs_riskPolicy = None\<rparr>"

definition unsorted_grant :: grant_snapshot where
  "unsorted_grant = sample_grant\<lparr>gs_permissions := [PermRead, PermWrite, PermCommand]\<rparr>"

definition unsorted_input :: plan_input where
  "unsorted_input = (sample_input ''do'')\<lparr>pn_grants := [unsorted_grant]\<rparr>"

definition unsorted_plan :: capability_plan where
  "unsorted_plan = plan_of id ''u'' unsorted_input sample_candidate enabled_provider unsorted_grant"

lemma unsorted_plan_created: "create_capability_plan id ''u'' unsorted_input = Inr unsorted_plan"
  by code_simp

theorem unsorted_grant_denied_witness:
  "\<not> vr_allowed (validate_capability_before_execution id ''v'' (check_request_of unsorted_plan)
       (check_state_of unsorted_grant unsorted_plan))"
proof (rule unsorted_grant_denied [OF _ unsorted_plan_created])
  show "xs_plan (check_state_of unsorted_grant unsorted_plan) = Some (unsorted_plan\<lparr>cp_approvalState := PlanApproved\<rparr>)"
    by (simp add: check_state_of_def)
  fix g assume "g \<in> set (pn_grants unsorted_input)"
  then have "g = unsorted_grant" by (simp add: unsorted_input_def)
  moreover have "\<not> sorted (map permission_text (gs_permissions unsorted_grant))" by code_simp
  ultimately show "\<not> sorted (map permission_text (gs_permissions g))" by simp
qed simp_all

text \<open>With a grant that lists its permissions in order, the same plan is executed.\<close>

lemma sorted_grant_allowed:
  "vr_allowed (validate_capability_before_execution id ''v'' (check_request_of (sample_plan id ''u''))
     (check_state_of sample_grant (sample_plan id ''u'')))"
  by code_simp

text \<open>The time of the write is the request's, which nothing checks before: the audit of a request with
  another time than the reader accepts makes the file unreadable, and every later request fails.\<close>

lemma bad_request_time_corrupts_audit:
  "(case validate_and_audit_capability id inventory_env (''a'', ''b'') None
      ((check_request_of (sample_plan id ''u''))\<lparr>xr_timestamp := ''now''\<rparr>)
      (check_state_of sample_grant (sample_plan id ''u'')) NoFile of
      (d, Inr r) \<Rightarrow> list_validation_audit d = Inl AuditStoreCorrupt
    | _ \<Rightarrow> False)"
  by code_simp

end
