(* ===== verification/Spec2Isabelle.thy ===== *)
theory Spec2Isabelle
  imports
    Workflow_Migration
    Migration_Store
    Mutation_Dispatch
    Migration_Host
    Repository_Scheduler
    Session_Store
    Source_Identity
    Admission
    Packet_Store
    Global_Budget
    Run_Budget
    Autonomy_Policy
    Json
    Autonomy_Decision
    Decision_Store
    Decision_Authorization
    Approval_Intents
    Approval_Handler
    Workspace_Grants
    Team_Policy
    Device_Registry
    Device_Approval
    Dispatch
    Executor_Broker
    Delegation
    Repair_State
    Provider_Inventory
    Capability_Resolution
    Capability_Planning
    Capability_Check
begin

text \<open>
  A verification library for Mastermind, a TypeScript monorepo that lets an assistant work on the
  repositories of a machine under explicit permission. The subject is the part that decides: who
  may do what, on which device, in which order, how often, and what is true of a change that was
  made. Everything the modules below compute is translated from the sources and the theorems are
  about those translations.

  \<^bold>\<open>The parts and how they fit.\<close>
  A request of a run is first a question of permission. \<^verbatim>\<open>packages/shared/src/autonomy-policy.ts\<close>
  holds the table of seven levels, \<^verbatim>\<open>autonomy-policy-evaluator.ts\<close> meets a level with the grants
  of a source, a run, a session and a capability (\<^verbatim>\<open>Autonomy_Policy\<close>), and
  \<^verbatim>\<open>packages/mcp/src/workspace-grants.ts\<close> asks that evaluator behind its own checks
  (\<^verbatim>\<open>Workspace_Grants\<close>). A team can narrow a device further through policies the device opts in
  to: \<^verbatim>\<open>managed-team-policy.ts\<close> (\<^verbatim>\<open>Team_Policy\<close>). What needs a person is asked on another
  device: \<^verbatim>\<open>cross-device-approval.ts\<close> (\<^verbatim>\<open>Device_Approval\<close>). A person's decision on one exact
  operation is kept: \<^verbatim>\<open>autonomy-decision.ts\<close> binds the request by two fingerprints over canonical
  JSON (\<^verbatim>\<open>Autonomy_Decision\<close>), \<^verbatim>\<open>packages/cli/src/agent/autonomy-decision-store.ts\<close> keeps the
  decisions (\<^verbatim>\<open>Decision_Store\<close>) and \<^verbatim>\<open>autonomy-decision-authorization.ts\<close> answers the question of
  permission from them (\<^verbatim>\<open>Decision_Authorization\<close>). While an operation waits for its decision it is an
  intent in the file of \<^verbatim>\<open>workbench-approval-intents.ts\<close> (\<^verbatim>\<open>Approval_Intents\<close>), which a person approves
  or denies through the operation of \<^verbatim>\<open>portable-approval-handlers.ts\<close> (\<^verbatim>\<open>Approval_Handler\<close>).

  Permitted work is placed. \<^verbatim>\<open>device-registry.ts\<close> knows the devices and their leases
  (\<^verbatim>\<open>Device_Registry\<close>), \<^verbatim>\<open>distributed-dispatch.ts\<close> routes a request to one of them and keeps a
  run where it is (\<^verbatim>\<open>Dispatch\<close>), and \<^verbatim>\<open>executor-broker.ts\<close> picks the program that runs it and
  bounds its concurrency (\<^verbatim>\<open>Executor_Broker\<close>). What is handed to such a program is a delegation of
  \<^verbatim>\<open>automatic-delegation.ts\<close> (\<^verbatim>\<open>Delegation\<close>), with its life from creation to reconciliation.

  What a provider of capabilities may be used for is decided in four steps of \<^verbatim>\<open>packages/mcp/src\<close>.
  \<^verbatim>\<open>provider-inventory.ts\<close> keeps the providers that were discovered, each bound to the digest of its
  manifest, and registers and enables them (\<^verbatim>\<open>Provider_Inventory\<close>); \<^verbatim>\<open>capability-resolution.ts\<close>
  scores their capabilities for a task (\<^verbatim>\<open>Capability_Resolution\<close>); \<^verbatim>\<open>capability-planning.ts\<close> makes
  a plan from an eligible one and a grant, which is reviewed and approved
  (\<^verbatim>\<open>Capability_Planning\<close>); and \<^verbatim>\<open>capability-pre-execution.ts\<close> compares the plan with the state of
  the moment before it is executed (\<^verbatim>\<open>Capability_Check\<close>).

  On the machine work belongs to a session: \<^verbatim>\<open>packages/cli/src/agent/workbench-session-store.ts\<close>
  locks the sources of a session and changes it by compare-and-set (\<^verbatim>\<open>Session_Store\<close>),
  \<^verbatim>\<open>workbench-packet-store.ts\<close> hands the packets of its runs to workers under leases
  (\<^verbatim>\<open>Packet_Store\<close>), \<^verbatim>\<open>workbench-repository-scheduler.ts\<close> serialises the mutations of a
  repository (\<^verbatim>\<open>Repository_Scheduler\<close>), \<^verbatim>\<open>workbench-global-budget-store.ts\<close> bounds the workers of
  the whole machine (\<^verbatim>\<open>Global_Budget\<close>) and \<^verbatim>\<open>run-budget.ts\<close> bounds one run in packets, repairs
  and time (\<^verbatim>\<open>Run_Budget\<close>); \<^verbatim>\<open>workbench-repair-state.ts\<close> limits the automatic repair of a task
  (\<^verbatim>\<open>Repair_State\<close>). Scheduling looks a session up, and completing a session reaches into
  the scheduler and the budget: \<^verbatim>\<open>Session_Store\<close> composes the three. Every operation on a source
  passes \<^verbatim>\<open>workbench-admission-orchestrator.ts\<close> (\<^verbatim>\<open>Admission\<close>), which asks the session, takes a
  worker of the budget and, for work on the repository, enqueues and claims it, undoes what it
  took when a later step refuses, and releases it after the operation; between its calls other
  processes use the stores. What counts as the same source is decided by
  \<^verbatim>\<open>mastermind-source-identity.ts\<close> and \<^verbatim>\<open>config.ts\<close> (\<^verbatim>\<open>Source_Identity\<close>).

  One kind of change reaches outside the machine: the controlled migration of a live workflow.
  \<^verbatim>\<open>packages/shared/src/controlled-workflow-migration-state.ts\<close> is its state machine
  (\<^verbatim>\<open>Workflow_Migration\<close>): preparation, confirmation, lease, precondition read, one dispatch,
  readback and at most one rollback, as a pure function from an operation and an event to the next
  operation and the effects the host is to perform. The host keeps the operations in
  \<^verbatim>\<open>capability-operation-store.ts\<close> (\<^verbatim>\<open>Migration_Store\<close>), by revision and lease, and the one-shot
  authority to mutate in \<^verbatim>\<open>capability-mutation-dispatch-store.ts\<close> (\<^verbatim>\<open>Mutation_Dispatch\<close>), and
  \<^verbatim>\<open>n8n-workflow-migration-capability.ts\<close> composes the three (\<^verbatim>\<open>Migration_Host\<close>): one execution
  confirms, takes the lease and performs the machine's effects in rounds, the live ones through the
  executor, whose answers and the ledger's become the machine's events. An execution is a function
  that passes a state and stops with a failure or an exception; its properties are proved with
  rules for \<open>safe\<close>, a precondition with a normal and an early postcondition.

  Nine of these are stores in one file each, under a lock file; what a call of them sees of the
  lock, the clock, the random source and the write is a record in \<^verbatim>\<open>Locked_Store\<close>, so that one
  operation is one atomic step on the file and every interleaving of callers is a sequence of
  steps. Four stores of \<^verbatim>\<open>packages/mcp/src\<close> answer every error as a failure and are written only when
  the operation succeeds: their common shape is \<open>guarded\<close> of \<^verbatim>\<open>Guarded_Store\<close>.
  \<^verbatim>\<open>Locked_Store\<close> also holds the shape the operation store and the ledger share
  (\<open>with_list\<close>) and the contract of a store's bound, the locale \<open>bounded_list\<close>: what is written
  is a part of the list, so properties of lists that pass to parts are kept. It is interpreted on
  the bounds of the operation, dispatch, packet, session and plan stores.

  \<^bold>\<open>How the model corresponds to the code.\<close>
  \<^item> \<^verbatim>\<open>Js_Prelude\<close>, \<^verbatim>\<open>Js_Map\<close> and \<^verbatim>\<open>Js_Time\<close> are the language: string and array operations, a
    \<^verbatim>\<open>Map\<close> with its insertion order (the locale \<open>keyed_store\<close>, interpreted as \<open>jm\<close>), and
    \<^verbatim>\<open>Date.parse\<close> and \<^verbatim>\<open>toISOString\<close> on the ISO format of the standard (the locale
    \<open>iso_clock\<close>, interpreted as \<open>iso\<close>: printing and reading agree). A date in another format is
    read as \<open>None\<close>, the model of \<^verbatim>\<open>NaN\<close>. \<^verbatim>\<open>Json\<close> has \<^verbatim>\<open>JSON.stringify\<close> and \<^verbatim>\<open>JSON.parse\<close> on
    values, the order a JavaScript object lists its keys in, and the canonical text with sorted
    keys, with the proof that a text reads back and that equal canonical texts are equal values.
  \<^item> An interface or object type is a record with the source's member names behind a short prefix,
    a union of literals a datatype, an optional member an option. A function keeps its name in
    lower case with underscores; a parameter of the source that the code mutates is passed and
    returned.
  \<^item> Numbers are \<open>int\<close> or \<open>nat\<close>: every number these modules compute with is a count, a limit or a
    time in milliseconds far below \<open>2 ^ 53\<close>, where JavaScript's numbers are exact. A duration that
    may be fractional is a \<open>rat\<close>.
  \<^item> \<^verbatim>\<open>{ done: false, reason }\<close> is \<open>Refused reason\<close>, a coded failure is \<open>Inl\<close> of the code (the
    messages that go with the codes are constants and left out), a thrown exception is \<open>None\<close>.
  \<^item> Arguments that stand for code outside the repository: the validators compiled by \<^verbatim>\<open>ajv\<close>
    (hypothesis \<open>decides_schema\<close>, with the schema written out as a predicate), SHA-256, and
    \<^verbatim>\<open>localeCompare\<close>. The scheduler takes the answer of the session lookup as an argument, which
    \<^verbatim>\<open>Session_Store\<close> supplies.

  \<^bold>\<open>What the theorems show.\<close>
  Components with a state have an invariant over every sequence of operations, proved through the
  locales \<open>op_machine\<close> and \<open>evolving_machine\<close> of \<^verbatim>\<open>Js_Prelude\<close>, which each component interprets
  on its own operations, or by rule induction over \<open>scheduler_reachable\<close>. On top of these:
  \<^item> \<^verbatim>\<open>Workflow_Migration\<close>: at most one update of a live workflow in each direction, and only under
    a live confirmation and with the approved artifacts; the graph of states; success only with a
    matching read; exactly when an operation is prepared.
  \<^item> \<^verbatim>\<open>Migration_Store\<close>: no two operations hold a live lease of one workflow; storing a step of
    the machine under the current revision and lease succeeds and the stored record is the machine's
    operation again (a refinement, with \<open>as_operation\<close> the abstraction); a prepared operation is
    read back as it was; a revision is spent once. \<^verbatim>\<open>Mutation_Dispatch\<close>: a mutation of an operation
    is authorised at most once, as long as the ledger has not forgotten it. \<^verbatim>\<open>Migration_Host\<close>: an
    execution ends by itself, before its limit of rounds and with at most five calls of the executor,
    and changes the live workflow at most once in each direction, whatever the executor does, and only
    with an authority that a reservation of its own answered.
  \<^item> \<^verbatim>\<open>Session_Store\<close>: the file stays readable; the sources of a session never change; completing
    a session releases its requests and leases; work is bound to locked sources.
    \<^verbatim>\<open>Packet_Store\<close>: a packet is reserved once, a finished one stays finished, a claim takes a free
    one, and the token of a lost lease does nothing.
  \<^item> \<^verbatim>\<open>Source_Identity\<close>: the resolution of a source id is exact and sound. \<^verbatim>\<open>Admission\<close>: what is
    admitted belongs to an active session that owns the source, holds its worker and, for a
    mutation, the source alone; a result is returned only of an admitted and released operation.
  \<^item> \<^verbatim>\<open>Autonomy_Decision\<close>, \<^verbatim>\<open>Decision_Store\<close>, \<^verbatim>\<open>Decision_Authorization\<close>: equal fingerprints are
    equal requests; a decision stands until it expires, whatever happens to the store; nothing is
    authorized without an unexpired approval of exactly that request, and a saved decision takes
    effect. \<^verbatim>\<open>Approval_Intents\<close>, \<^verbatim>\<open>Approval_Handler\<close>: an approval is consumed once, only after somebody
    gave it, a closed intent stays closed, and what the handler decides is what permission answers.
  \<^item> \<^verbatim>\<open>Repository_Scheduler\<close>: a mutation holds its source alone; no claim overtakes; some request
    can always be claimed; only the live holder completes.
  \<^item> \<^verbatim>\<open>Global_Budget\<close> and \<^verbatim>\<open>Run_Budget\<close>: the three budgets are never exceeded; narrowing never
    broadens; packets are counted once; paused time is free.
  \<^item> \<^verbatim>\<open>Autonomy_Policy\<close>, \<^verbatim>\<open>Workspace_Grants\<close>, \<^verbatim>\<open>Team_Policy\<close>: an allowed operation passed every
    layer, its confirmation and its paths; a grant permits exactly what its parts say (which is
    how the evaluation through the policy layers refines a direct specification); evaluation of
    team rules is exact and opting in is stable.
  \<^item> \<^verbatim>\<open>Device_Registry\<close>, \<^verbatim>\<open>Device_Approval\<close>, \<^verbatim>\<open>Dispatch\<close>, \<^verbatim>\<open>Executor_Broker\<close>: revoked devices
    stay out, decisions are sound and final, requests reach fit devices only and the least loaded
    one, runs keep their device, executors keep their limits and the selection is exact.
    \<^verbatim>\<open>Delegation\<close>: a delegation moves at most five times and then stays as it is, and only one that
    came to its reconciliation has a result. \<^verbatim>\<open>Repair_State\<close>: a task is repaired once.
  \<^item> \<^verbatim>\<open>Provider_Inventory\<close>: a registered provider keeps the manifest it was reviewed with.
    \<^verbatim>\<open>Capability_Resolution\<close>: exactly the capabilities that fit are eligible.
    \<^verbatim>\<open>Capability_Planning\<close>: a plan that passes its check is covered by the grant as it is now, and a
    plan is approved only after a review. \<^verbatim>\<open>Capability_Check\<close>: what execution is allowed for, exactly.
  \<^item> Behaviour that surprises is stated as it is: a rollback of a candidate that was never applied,
    an eleventh read that makes the operation file unreadable, a long path that does so to the
    intents, a mutation reserved again after the
    ledger forgot it, a pause that revokes a cancellation, new work under a completed session, the
    eviction of active leases, a release that makes the store unreadable, disjoint path scopes
    that allow every path, resubmissions that escape a limit, a registration that ends a
    revocation, an expiry that never comes, two delegations without isolation in one workspace, a
    blank packet id that makes the count of repairs forgotten, a disabled provider that comes back
    with another manifest, a renewal with an old time that revives
    a lost lease, a new plan that is dropped as it is written, and an order of permissions
    that makes every execution denied.

  \<^bold>\<open>Bounds.\<close> The loops of these modules run over lists and are structural recursion, or a library
  function on lists. The one definition with fuel is the reader of JSON texts, where every call has
  less than its caller and the length of the text is enough for the text of any value
  (\<open>json_parse_text\<close>). The rounds of the migration host have the limit of the source, 16; a rank of
  the effects, 7 at the start and falling with each round, shows that it is never reached
  (\<open>migration_execution_ends\<close>). The limits in the definitions are the sources' own.

  \<^bold>\<open>What is not modelled.\<close> Input that TypeScript's types exclude, except where a function declares
  its argument \<^verbatim>\<open>unknown\<close> and looks at it (those checks are modelled as far as they can be
  reached from typed values); the text of failure messages next to a code; the acquisition loop of
  the lock files (its outcomes are the environment's); characters outside Latin-1 in the strings of
  JSON texts. The rest of the repository is file, process and network access around
  this core, the web application, or parts left out: the canonical form of workflows and
  the preparation that computes it, the process that executes a migration, worker fairness,
  and the discovery of providers in files, the capability registry and the runtime that executes a checked plan. No other process uses the two files of a migration while
  one execution runs.
\<close>

end
